(* ===== verification/Yaffs_Prelude.thy ===== *)
theory Yaffs_Prelude
  imports Main "HOL-Library.Word"
begin

text \<open>
  Shared base of the library: the C integer types of the code, the result codes, the
  collections the component proofs add to, and the generic facts about lists and words that
  several components use.
\<close>

unbundle bit_operations_syntax

type_synonym u8 = "8 word"
type_synonym u16 = "16 word"
type_synonym u32 = "32 word"
type_synonym u64 = "64 word"

text \<open>The result codes of \<open>yaffs_guts.h\<close>.\<close>

abbreviation YAFFS_OK :: int where "YAFFS_OK \<equiv> 1"
abbreviation YAFFS_FAIL :: int where "YAFFS_FAIL \<equiv> 0"

named_theorems dev_frame \<open>fields of the device an operation leaves alone\<close>
named_theorems dev_inv \<open>operations that keep a device invariant\<close>

section \<open>Words\<close>

lemma unat_u8_less: "unat (x :: u8) < 256"
proof -
  have "unat x < 2 ^ LENGTH(8)" by (rule unsigned_less)
  then show ?thesis by simp
qed

text \<open>A statement about every byte is a statement about 256 numbers.\<close>

lemma all_u8_iff: "(\<forall>x::u8. P x) \<longleftrightarrow> (\<forall>n \<in> set [0..<256]. P (word_of_nat n))"
proof
  assume all: "\<forall>n \<in> set [0..<256]. P (word_of_nat n)"
  show "\<forall>x. P x"
  proof
    fix x :: u8
    have "unat x \<in> set [0..<256]" using unat_u8_less [of x] by simp
    with all have "P (word_of_nat (unat x))" by blast
    then show "P x" by simp
  qed
qed simp

lemma all_u8I: "list_all (\<lambda>n. P (word_of_nat n)) [0..<256] \<Longrightarrow> P (x :: u8)"
  using all_u8_iff [of P] by (auto simp: list_all_iff)


section \<open>Lists\<close>

lemma nth_list_update_If:
  "j < length xs \<Longrightarrow> xs[i := v] ! j = (if i = j then v else xs ! j)"
  by simp

lemma take_drop_split: "n \<le> length xs \<Longrightarrow> take n xs @ drop n xs = xs"
  by simp

end
