(* ===== verification/Yaffs_Hweight.thy ===== *)
theory Yaffs_Hweight
  imports Yaffs_Prelude
begin

text \<open>
  Bit counting (\<open>yaffs_hweight.c\<close>): the 256-entry table and the two functions built on it.
  The lemmas say that the table is right for every byte and that both functions count the
  set bits of their argument.
\<close>

unbundle bit_operations_syntax

definition yaffs_count_bits_table :: "nat list" where
  "yaffs_count_bits_table = [
  0, 1, 1, 2, 1, 2, 2, 3, 1, 2, 2, 3, 2, 3, 3, 4,
  1, 2, 2, 3, 2, 3, 3, 4, 2, 3, 3, 4, 3, 4, 4, 5,
  1, 2, 2, 3, 2, 3, 3, 4, 2, 3, 3, 4, 3, 4, 4, 5,
  2, 3, 3, 4, 3, 4, 4, 5, 3, 4, 4, 5, 4, 5, 5, 6,
  1, 2, 2, 3, 2, 3, 3, 4, 2, 3, 3, 4, 3, 4, 4, 5,
  2, 3, 3, 4, 3, 4, 4, 5, 3, 4, 4, 5, 4, 5, 5, 6,
  2, 3, 3, 4, 3, 4, 4, 5, 3, 4, 4, 5, 4, 5, 5, 6,
  3, 4, 4, 5, 4, 5, 5, 6, 4, 5, 5, 6, 5, 6, 6, 7,
  1, 2, 2, 3, 2, 3, 3, 4, 2, 3, 3, 4, 3, 4, 4, 5,
  2, 3, 3, 4, 3, 4, 4, 5, 3, 4, 4, 5, 4, 5, 5, 6,
  2, 3, 3, 4, 3, 4, 4, 5, 3, 4, 4, 5, 4, 5, 5, 6,
  3, 4, 4, 5, 4, 5, 5, 6, 4, 5, 5, 6, 5, 6, 6, 7,
  2, 3, 3, 4, 3, 4, 4, 5, 3, 4, 4, 5, 4, 5, 5, 6,
  3, 4, 4, 5, 4, 5, 5, 6, 4, 5, 5, 6, 5, 6, 6, 7,
  3, 4, 4, 5, 4, 5, 5, 6, 4, 5, 5, 6, 5, 6, 6, 7,
  4, 5, 5, 6, 5, 6, 6, 7, 5, 6, 6, 7, 6, 7, 7, 8]"

definition yaffs_hweight8 :: "u8 \<Rightarrow> nat" where
  "yaffs_hweight8 x = yaffs_count_bits_table ! unat x"

definition yaffs_hweight32 :: "u32 \<Rightarrow> nat" where
  "yaffs_hweight32 x =
     yaffs_hweight8 (ucast (x AND 0xff)) +
     yaffs_hweight8 (ucast (drop_bit 8 x AND 0xff)) +
     yaffs_hweight8 (ucast (drop_bit 16 x AND 0xff)) +
     yaffs_hweight8 (ucast (drop_bit 24 x AND 0xff))"

text \<open>The reference: the number of set bits among the first \<open>n\<close>.\<close>

definition bits_set :: "nat \<Rightarrow> 'a::len word \<Rightarrow> nat" where
  "bits_set n x = length (filter (bit x) [0..<n])"

lemma count_bits_table_eq:
  "yaffs_count_bits_table = map (\<lambda>n. bits_set 8 (word_of_nat n :: u8)) [0..<256]"
  by code_simp

lemma hweight8_bits: "yaffs_hweight8 x = bits_set 8 x"
  using unat_u8_less [of x] by (simp add: yaffs_hweight8_def count_bits_table_eq)

lemma bits_set_split: "bits_set (m + n) x = bits_set m x + length (filter (\<lambda>i. bit x (m + i)) [0..<n])"
proof -
  have "[m..<m + n] = map ((+) m) [0..<n]"
    by (rule nth_equalityI) auto
  then have "[0..<m + n] = [0..<m] @ map ((+) m) [0..<n]"
    using upt_add_eq_append [of 0 m n] by simp
  then show ?thesis by (simp add: bits_set_def comp_def filter_map)
qed

lemma bits_set_byte:
  assumes "k + 8 \<le> 32"
  shows "bits_set 8 (ucast (drop_bit k x AND 0xff :: u32) :: u8) =
    length (filter (\<lambda>i. bit x (k + i)) [0..<8])"
proof -
  have mask: "(0xff :: u32) = mask 8" by (simp add: mask_eq_exp_minus_1)
  have "bit (ucast (drop_bit k x AND 0xff :: u32) :: u8) i = bit x (k + i)" if "i < 8" for i
    unfolding mask using that assms by (simp add: bit_simps)
  then have "filter (bit (ucast (drop_bit k x AND 0xff :: u32) :: u8)) [0..<8] =
      filter (\<lambda>i. bit x (k + i)) [0..<8]"
    by (intro filter_cong) auto
  then show ?thesis by (simp add: bits_set_def)
qed

lemma bits_set_32:
  "bits_set 32 x = bits_set 8 (ucast (x AND 0xff :: u32) :: u8)
     + bits_set 8 (ucast (drop_bit 8 x AND 0xff) :: u8)
     + bits_set 8 (ucast (drop_bit 16 x AND 0xff) :: u8)
     + bits_set 8 (ucast (drop_bit 24 x AND 0xff) :: u8)"
proof -
  have "bits_set 32 x = bits_set 8 x + length (filter (\<lambda>i. bit x (8 + i)) [0..<8])
      + length (filter (\<lambda>i. bit x (16 + i)) [0..<8]) + length (filter (\<lambda>i. bit x (24 + i)) [0..<8])"
    using bits_set_split [of 8 8 x] bits_set_split [of 16 8 x] bits_set_split [of 24 8 x] by simp
  also have "bits_set 8 x = length (filter (\<lambda>i. bit x (0 + i)) [0..<8])"
    by (simp add: bits_set_def)
  finally show ?thesis
    using bits_set_byte [of 0 x] bits_set_byte [of 8 x] bits_set_byte [of 16 x] bits_set_byte [of 24 x]
    by simp
qed

lemma hweight32_bits: "yaffs_hweight32 x = bits_set 32 x"
  by (simp add: yaffs_hweight32_def hweight8_bits bits_set_32)

end
