(* ===== verification/Yaffs_Ecc.thy ===== *)
theory Yaffs_Ecc
  imports Yaffs_Prelude Yaffs_Hweight
begin

text \<open>
  The error correcting code of \<open>yaffs_ecc.c\<close>: the 256-byte SmartMedia code
  (\<open>yaffs_ecc_calc\<close>, \<open>yaffs_ecc_correct\<close>) and the code over any number of bytes that
  protects the packed tags (\<open>yaffs_ecc_calc_other\<close>, \<open>yaffs_ecc_correct_other\<close>).
  A buffer is the list of its bytes; a function that writes through a pointer returns the
  new buffer. The two accumulation loops are one function, \<open>ecc_loop\<close>, whose line parity
  has the width of the caller's variable (\<open>unsigned char\<close> or \<open>unsigned\<close>).

  The lemmas show that the code is linear in the data, that a single flipped data bit is
  located and repaired, that a single flipped code bit leaves the data alone, and that two
  flipped data bits are reported and never miscorrected.
\<close>

unbundle bit_operations_syntax

section \<open>The code\<close>

definition column_parity_table :: "u8 list" where
  "column_parity_table = [
  0x00, 0x55, 0x59, 0x0c, 0x65, 0x30, 0x3c, 0x69,
  0x69, 0x3c, 0x30, 0x65, 0x0c, 0x59, 0x55, 0x00,
  0x95, 0xc0, 0xcc, 0x99, 0xf0, 0xa5, 0xa9, 0xfc,
  0xfc, 0xa9, 0xa5, 0xf0, 0x99, 0xcc, 0xc0, 0x95,
  0x99, 0xcc, 0xc0, 0x95, 0xfc, 0xa9, 0xa5, 0xf0,
  0xf0, 0xa5, 0xa9, 0xfc, 0x95, 0xc0, 0xcc, 0x99,
  0x0c, 0x59, 0x55, 0x00, 0x69, 0x3c, 0x30, 0x65,
  0x65, 0x30, 0x3c, 0x69, 0x00, 0x55, 0x59, 0x0c,
  0xa5, 0xf0, 0xfc, 0xa9, 0xc0, 0x95, 0x99, 0xcc,
  0xcc, 0x99, 0x95, 0xc0, 0xa9, 0xfc, 0xf0, 0xa5,
  0x30, 0x65, 0x69, 0x3c, 0x55, 0x00, 0x0c, 0x59,
  0x59, 0x0c, 0x00, 0x55, 0x3c, 0x69, 0x65, 0x30,
  0x3c, 0x69, 0x65, 0x30, 0x59, 0x0c, 0x00, 0x55,
  0x55, 0x00, 0x0c, 0x59, 0x30, 0x65, 0x69, 0x3c,
  0xa9, 0xfc, 0xf0, 0xa5, 0xcc, 0x99, 0x95, 0xc0,
  0xc0, 0x95, 0x99, 0xcc, 0xa5, 0xf0, 0xfc, 0xa9,
  0xa9, 0xfc, 0xf0, 0xa5, 0xcc, 0x99, 0x95, 0xc0,
  0xc0, 0x95, 0x99, 0xcc, 0xa5, 0xf0, 0xfc, 0xa9,
  0x3c, 0x69, 0x65, 0x30, 0x59, 0x0c, 0x00, 0x55,
  0x55, 0x00, 0x0c, 0x59, 0x30, 0x65, 0x69, 0x3c,
  0x30, 0x65, 0x69, 0x3c, 0x55, 0x00, 0x0c, 0x59,
  0x59, 0x0c, 0x00, 0x55, 0x3c, 0x69, 0x65, 0x30,
  0xa5, 0xf0, 0xfc, 0xa9, 0xc0, 0x95, 0x99, 0xcc,
  0xcc, 0x99, 0x95, 0xc0, 0xa9, 0xfc, 0xf0, 0xa5,
  0x0c, 0x59, 0x55, 0x00, 0x69, 0x3c, 0x30, 0x65,
  0x65, 0x30, 0x3c, 0x69, 0x00, 0x55, 0x59, 0x0c,
  0x99, 0xcc, 0xc0, 0x95, 0xfc, 0xa9, 0xa5, 0xf0,
  0xf0, 0xa5, 0xa9, 0xfc, 0x95, 0xc0, 0xcc, 0x99,
  0x95, 0xc0, 0xcc, 0x99, 0xf0, 0xa5, 0xa9, 0xfc,
  0xfc, 0xa9, 0xa5, 0xf0, 0x99, 0xcc, 0xc0, 0x95,
  0x00, 0x55, 0x59, 0x0c, 0x65, 0x30, 0x3c, 0x69,
  0x69, 0x3c, 0x30, 0x65, 0x0c, 0x59, 0x55, 0x00]"

fun ecc_loop :: "nat \<Rightarrow> u8 list \<Rightarrow> u8 \<times> 'l::len word \<times> 'l word \<Rightarrow> u8 \<times> 'l word \<times> 'l word" where
  "ecc_loop i [] acc = acc"
| "ecc_loop i (d # ds) (col_parity, line_parity, line_parity_prime) =
     (let b = column_parity_table ! unat d;
          col_parity = col_parity XOR b
      in if b AND 0x01 \<noteq> 0
         then ecc_loop (Suc i) ds
                (col_parity, line_parity XOR word_of_nat i, line_parity_prime XOR NOT (word_of_nat i))
         else ecc_loop (Suc i) ds (col_parity, line_parity, line_parity_prime))"

text \<open>The two byte-assembly sequences of \<open>yaffs_ecc_calc\<close>: line parity bits interleaved
  with their primes.\<close>

definition ecc_set_if :: "bool \<Rightarrow> u8 \<Rightarrow> u8 \<Rightarrow> u8" where
  "ecc_set_if c m t = (if c then t OR m else t)"

definition ecc_high :: "u8 \<Rightarrow> u8 \<Rightarrow> u8" where
  "ecc_high lp lpp =
     (let t = 0;
          t = ecc_set_if (lp AND 0x80 \<noteq> 0) 0x80 t;
          t = ecc_set_if (lpp AND 0x80 \<noteq> 0) 0x40 t;
          t = ecc_set_if (lp AND 0x40 \<noteq> 0) 0x20 t;
          t = ecc_set_if (lpp AND 0x40 \<noteq> 0) 0x10 t;
          t = ecc_set_if (lp AND 0x20 \<noteq> 0) 0x08 t;
          t = ecc_set_if (lpp AND 0x20 \<noteq> 0) 0x04 t;
          t = ecc_set_if (lp AND 0x10 \<noteq> 0) 0x02 t
      in ecc_set_if (lpp AND 0x10 \<noteq> 0) 0x01 t)"

definition ecc_low :: "u8 \<Rightarrow> u8 \<Rightarrow> u8" where
  "ecc_low lp lpp =
     (let t = 0;
          t = ecc_set_if (lp AND 0x08 \<noteq> 0) 0x80 t;
          t = ecc_set_if (lpp AND 0x08 \<noteq> 0) 0x40 t;
          t = ecc_set_if (lp AND 0x04 \<noteq> 0) 0x20 t;
          t = ecc_set_if (lpp AND 0x04 \<noteq> 0) 0x10 t;
          t = ecc_set_if (lp AND 0x02 \<noteq> 0) 0x08 t;
          t = ecc_set_if (lpp AND 0x02 \<noteq> 0) 0x04 t;
          t = ecc_set_if (lp AND 0x01 \<noteq> 0) 0x02 t
      in ecc_set_if (lpp AND 0x01 \<noteq> 0) 0x01 t)"

type_synonym ecc3 = "u8 \<times> u8 \<times> u8"

definition yaffs_ecc_calc :: "u8 list \<Rightarrow> ecc3" where
  "yaffs_ecc_calc data =
     (let (col_parity, line_parity, line_parity_prime) = ecc_loop 0 (take 256 data) (0, 0, 0)
      in (NOT (ecc_low line_parity line_parity_prime),
          NOT (ecc_high line_parity line_parity_prime),
          NOT col_parity OR 0x03))"

definition ecc_byte_index :: "u8 \<Rightarrow> u8 \<Rightarrow> u32" where
  "ecc_byte_index d0 d1 =
     (if d1 AND 0x80 \<noteq> 0 then 0x80 else 0) OR
     (if d1 AND 0x20 \<noteq> 0 then 0x40 else 0) OR
     (if d1 AND 0x08 \<noteq> 0 then 0x20 else 0) OR
     (if d1 AND 0x02 \<noteq> 0 then 0x10 else 0) OR
     (if d0 AND 0x80 \<noteq> 0 then 0x08 else 0) OR
     (if d0 AND 0x20 \<noteq> 0 then 0x04 else 0) OR
     (if d0 AND 0x08 \<noteq> 0 then 0x02 else 0) OR
     (if d0 AND 0x02 \<noteq> 0 then 0x01 else 0)"

definition ecc_bit_index :: "u8 \<Rightarrow> nat" where
  "ecc_bit_index d2 =
     (if d2 AND 0x80 \<noteq> 0 then 4 else 0) +
     (if d2 AND 0x20 \<noteq> 0 then 2 else 0) +
     (if d2 AND 0x08 \<noteq> 0 then 1 else 0)"

text \<open>Flipping one bit of one byte of a buffer: \<open>data[byte] ^= (1 << bit)\<close>.\<close>

definition flip_bit_at :: "u8 list \<Rightarrow> nat \<Rightarrow> nat \<Rightarrow> u8 list" where
  "flip_bit_at data k b = data[k := (data ! k) XOR push_bit b 1]"

text \<open>The result is the return code, the data buffer and the \<open>read_ecc\<close> buffer.\<close>

definition yaffs_ecc_correct :: "u8 list \<Rightarrow> ecc3 \<Rightarrow> ecc3 \<Rightarrow> int \<times> u8 list \<times> ecc3" where
  "yaffs_ecc_correct data read_ecc test_ecc =
     (let (r0, r1, r2) = read_ecc; (t0, t1, t2) = test_ecc;
          d0 = r0 XOR t0; d1 = r1 XOR t1; d2 = r2 XOR t2
      in if (d0 OR d1 OR d2) = 0 then (0, data, read_ecc)
         else if (d0 XOR drop_bit 1 d0) AND 0x55 = 0x55 \<and>
                 (d1 XOR drop_bit 1 d1) AND 0x55 = 0x55 \<and>
                 (d2 XOR drop_bit 1 d2) AND 0x54 = 0x54
         then (1, flip_bit_at data (unat (ecc_byte_index d0 d1)) (ecc_bit_index d2), read_ecc)
         else if yaffs_hweight8 d0 + yaffs_hweight8 d1 + yaffs_hweight8 d2 = 1
         then (1, data, test_ecc)
         else (-1, data, read_ecc))"

text \<open>The code over \<open>n_bytes\<close> bytes (\<open>struct yaffs_ecc_other\<close>): line parities are 32-bit.\<close>

record yaffs_ecc_other =
  col_parity :: u8
  line_parity :: u32
  line_parity_prime :: u32

definition yaffs_ecc_calc_other :: "u8 list \<Rightarrow> u32 \<Rightarrow> yaffs_ecc_other" where
  "yaffs_ecc_calc_other data n_bytes =
     (let (cp, lp, lpp) = ecc_loop 0 (take (unat n_bytes) data) (0, 0, 0)
      in \<lparr>col_parity = drop_bit 2 cp AND 0x3f, line_parity = lp, line_parity_prime = lpp\<rparr>)"

definition ecc_other_bit_index :: "u8 \<Rightarrow> nat" where
  "ecc_other_bit_index delta_col =
     (if delta_col AND 0x20 \<noteq> 0 then 4 else 0) +
     (if delta_col AND 0x08 \<noteq> 0 then 2 else 0) +
     (if delta_col AND 0x02 \<noteq> 0 then 1 else 0)"

definition yaffs_ecc_correct_other ::
  "u8 list \<Rightarrow> u32 \<Rightarrow> yaffs_ecc_other \<Rightarrow> yaffs_ecc_other \<Rightarrow> int \<times> u8 list \<times> yaffs_ecc_other" where
  "yaffs_ecc_correct_other data n_bytes read_ecc test_ecc =
     (let delta_col = col_parity read_ecc XOR col_parity test_ecc;
          delta_line = line_parity read_ecc XOR line_parity test_ecc;
          delta_line_prime = line_parity_prime read_ecc XOR line_parity_prime test_ecc
      in if (ucast delta_col OR delta_line OR delta_line_prime) = 0 then (0, data, read_ecc)
         else if delta_line = NOT delta_line_prime \<and>
                 (delta_col XOR drop_bit 1 delta_col) AND 0x15 = 0x15
         then if n_bytes \<le> delta_line then (-1, data, read_ecc)
              else (1, flip_bit_at data (unat delta_line) (ecc_other_bit_index delta_col), read_ecc)
         else if yaffs_hweight32 delta_line + yaffs_hweight32 delta_line_prime
                 + yaffs_hweight8 delta_col = 1
         then (1, data, test_ecc)
         else (-1, data, read_ecc))"

section \<open>Linearity\<close>

definition col_parity_of :: "u8 \<Rightarrow> u8" where
  "col_parity_of x =
     (if bit x 0 then 0x55 else 0) XOR (if bit x 1 then 0x59 else 0) XOR
     (if bit x 2 then 0x65 else 0) XOR (if bit x 3 then 0x69 else 0) XOR
     (if bit x 4 then 0x95 else 0) XOR (if bit x 5 then 0x99 else 0) XOR
     (if bit x 6 then 0xa5 else 0) XOR (if bit x 7 then 0xa9 else 0)"

lemma column_parity_table_eq:
  "column_parity_table = map (\<lambda>n. col_parity_of (word_of_nat n)) [0..<256]"
  by code_simp

lemma column_parity_nth [simp]: "column_parity_table ! unat x = col_parity_of x"
  using unat_u8_less [of x] by (simp add: column_parity_table_eq)

lemma if_xor: "(if p \<noteq> q then c else 0) = (if p then c else 0) XOR (if q then c else (0 :: 'a::len word))"
  by simp

lemma col_parity_of_xor: "col_parity_of (x XOR y) = col_parity_of x XOR col_parity_of y"
  unfolding col_parity_of_def bit_xor_iff if_xor by (simp only: ac_simps)

lemma and_nz_u8:
  fixes w :: u8
  shows "w AND 0x80 \<noteq> 0 \<longleftrightarrow> bit w 7" "w AND 0x40 \<noteq> 0 \<longleftrightarrow> bit w 6"
    "w AND 0x20 \<noteq> 0 \<longleftrightarrow> bit w 5" "w AND 0x10 \<noteq> 0 \<longleftrightarrow> bit w 4"
    "w AND 0x08 \<noteq> 0 \<longleftrightarrow> bit w 3" "w AND 0x04 \<noteq> 0 \<longleftrightarrow> bit w 2"
    "w AND 0x02 \<noteq> 0 \<longleftrightarrow> bit w 1" "w AND 0x01 \<noteq> 0 \<longleftrightarrow> bit w 0"
  using bit_iff_and_push_bit_not_eq_0 [of w 7] bit_iff_and_push_bit_not_eq_0 [of w 6]
    bit_iff_and_push_bit_not_eq_0 [of w 5] bit_iff_and_push_bit_not_eq_0 [of w 4]
    bit_iff_and_push_bit_not_eq_0 [of w 3] bit_iff_and_push_bit_not_eq_0 [of w 2]
    bit_iff_and_push_bit_not_eq_0 [of w 1] bit_iff_and_push_bit_not_eq_0 [of w 0]
  by simp_all

definition xor3 :: "u8 \<times> 'l::len word \<times> 'l word \<Rightarrow> u8 \<times> 'l word \<times> 'l word \<Rightarrow> u8 \<times> 'l word \<times> 'l word" where
  "xor3 a b = (fst a XOR fst b, fst (snd a) XOR fst (snd b), snd (snd a) XOR snd (snd b))"

definition line_delta :: "u8 \<Rightarrow> nat \<Rightarrow> u8 \<times> 'l::len word \<times> 'l word" where
  "line_delta e i =
     (col_parity_of e, if bit (col_parity_of e) 0 then word_of_nat i else 0,
      if bit (col_parity_of e) 0 then NOT (word_of_nat i) else 0)"

lemma line_delta_xor: "line_delta (d XOR e) i = xor3 (line_delta d i) (line_delta e i)"
  by (simp add: line_delta_def xor3_def col_parity_of_xor bit_xor_iff)

lemma ecc_loop_Cons: "ecc_loop i (d # ds) acc = ecc_loop (Suc i) ds (xor3 acc (line_delta d i))"
  by (cases acc) (simp add: Let_def and_nz_u8 [simplified] line_delta_def xor3_def)

lemma xor3_commute: "xor3 a b = xor3 b a"
  and xor3_assoc: "xor3 (xor3 a b) c = xor3 a (xor3 b c)"
  and xor3_left: "xor3 b (xor3 a c) = xor3 a (xor3 b c)"
  and xor3_self: "xor3 a a = (0, 0, 0)"
  and xor3_zero: "xor3 (0, 0, 0) a = a"
  by (simp_all add: xor3_def ac_simps)

lemma xor3_swap: "xor3 (xor3 a b) c = xor3 (xor3 a c) b"
  by (simp add: xor3_def ac_simps)

lemma ecc_loop_shift: "ecc_loop i ds (xor3 acc e) = xor3 (ecc_loop i ds acc) e"
proof (induction ds arbitrary: i acc)
  case (Cons d ds)
  show ?case
    by (simp only: ecc_loop_Cons xor3_swap [of acc e] Cons.IH)
qed simp

lemma ecc_loop_update:
  "k < length ds \<Longrightarrow> ecc_loop i (ds[k := ds ! k XOR e]) acc = xor3 (ecc_loop i ds acc) (line_delta e (i + k))"
proof (induction ds arbitrary: i k acc)
  case Nil
  then show ?case by simp
next
  case (Cons d ds)
  show ?case
  proof (cases k)
    case 0
    then show ?thesis
      by (simp add: ecc_loop_Cons line_delta_xor ecc_loop_shift flip: xor3_assoc del: ecc_loop.simps(2))
  next
    case (Suc m)
    with Cons show ?thesis
      by (simp add: ecc_loop_Cons del: ecc_loop.simps(2))
  qed
qed


text \<open>Both assembly sequences copy bits, so they are linear.\<close>

lemma bit_ecc_set_if: "bit (ecc_set_if p m t) n \<longleftrightarrow> bit t n \<or> p \<and> bit m n"
  by (simp add: ecc_set_if_def bit_or_iff)

lemma less_8_cases: "n < 8 \<Longrightarrow> n = 0 \<or> n = 1 \<or> n = 2 \<or> n = 3 \<or> n = 4 \<or> n = 5 \<or> n = 6 \<or> n = (7::nat)"
  by arith

lemma bit_ecc_low:
  "n < 8 \<Longrightarrow> bit (ecc_low a c) n = (if odd n then bit a (n div 2) else bit c (n div 2))"
  by (drule less_8_cases, elim disjE)
    (simp_all add: ecc_low_def Let_def bit_ecc_set_if and_nz_u8 [simplified])

lemma bit_ecc_high:
  "n < 8 \<Longrightarrow> bit (ecc_high a c) n = (if odd n then bit a (4 + n div 2) else bit c (4 + n div 2))"
  by (drule less_8_cases, elim disjE)
    (simp_all add: ecc_high_def Let_def bit_ecc_set_if and_nz_u8 [simplified])

lemma ecc_low_xor: "ecc_low (a XOR b) (c XOR d) = ecc_low a c XOR ecc_low b d"
  by (rule bit_word_eqI) (simp add: bit_ecc_low bit_xor_iff)

lemma ecc_high_xor: "ecc_high (a XOR b) (c XOR d) = ecc_high a c XOR ecc_high b d"
  by (rule bit_word_eqI) (simp add: bit_ecc_high bit_xor_iff)

definition ecc_xor :: "ecc3 \<Rightarrow> ecc3 \<Rightarrow> ecc3" where
  "ecc_xor a b = (fst a XOR fst b, fst (snd a) XOR fst (snd b), snd (snd a) XOR snd (snd b))"

definition ecc_delta :: "u8 \<Rightarrow> nat \<Rightarrow> ecc3" where
  "ecc_delta e k = (case line_delta e k of (c, l, p) \<Rightarrow> (ecc_low l p, ecc_high l p, c AND 0xfc))"

lemma yaffs_ecc_calc_update:
  assumes "length data = 256" and "k < 256"
  shows "yaffs_ecc_calc (data[k := data ! k XOR e]) = ecc_xor (yaffs_ecc_calc data) (ecc_delta e k)"
proof -
  obtain c l p where acc: "ecc_loop 0 data (0, 0, 0 :: u8) = (c, l, p)" by (metis prod_cases3)
  obtain c' l' p' where d: "(line_delta e k :: u8 \<times> u8 \<times> u8) = (c', l', p')" by (metis prod_cases3)
  have "NOT (c XOR c') OR 3 = (NOT c OR 3) XOR (c' AND 0xfc)"
  proof (rule bit_word_eqI)
    fix n assume "n < LENGTH(8)"
    then have n8: "n < 8" by simp
    show "bit (NOT (c XOR c') OR 3) n = bit ((NOT c OR 3) XOR (c' AND 0xfc)) n"
      using less_8_cases [OF n8] by (elim disjE) (auto simp: bit_simps)
  qed
  moreover have "ecc_loop 0 (data[k := data ! k XOR e]) (0, 0, 0) = xor3 (c, l, p) (c', l', p')"
    using assms by (simp add: ecc_loop_update acc d)
  ultimately show ?thesis
    using assms by (simp add: yaffs_ecc_calc_def acc d ecc_xor_def ecc_delta_def xor3_def
        ecc_low_xor ecc_high_xor)
qed

lemma col_parity_single: "b < 8 \<Longrightarrow> bit (col_parity_of (2 ^ b)) 0"
  by (drule less_8_cases, elim disjE) (simp_all add: col_parity_of_def)

lemma ecc_delta_single:
  "b < 8 \<Longrightarrow> ecc_delta (2 ^ b) k =
     (ecc_low (word_of_nat k) (NOT (word_of_nat k)), ecc_high (word_of_nat k) (NOT (word_of_nat k)),
      col_parity_of (2 ^ b) AND 0xfc)"
  by (simp add: ecc_delta_def line_delta_def col_parity_single)

lemma ecc_column_single:
  "b < 8 \<Longrightarrow> (let d2 = col_parity_of (2 ^ b) AND 0xfc
     in (d2 XOR drop_bit 1 d2) AND 0x54 = 0x54 \<and> ecc_bit_index d2 = b)"
  by (drule less_8_cases, elim disjE) (simp_all add: col_parity_of_def ecc_bit_index_def)

lemma half_less_4 [simp]: "n < 8 \<Longrightarrow> n div 2 < (4::nat)"
  by simp

lemma ecc_pairs:
  assumes "\<And>n. n < 8 \<Longrightarrow> bit d n = (if odd n then P (n div 2) else \<not> P (n div 2))"
  shows "(d XOR drop_bit 1 d) AND 0x55 = (0x55 :: u8)"
proof (rule bit_word_eqI)
  fix n assume "n < LENGTH(8)"
  then have "n < 8" by simp
  then show "bit ((d XOR drop_bit 1 d) AND 0x55) n = bit (0x55 :: u8) n"
    using assms by (drule_tac less_8_cases, elim disjE) (simp_all add: bit_simps)
qed

lemma bit_if_zero: "bit (if p then m else 0) n \<longleftrightarrow> p \<and> bit m n"
  by simp

lemma ecc_byte_index_single:
  "ecc_byte_index (ecc_low x (NOT x)) (ecc_high x (NOT x)) = ucast x"
proof (rule bit_word_eqI)
  fix n assume "n < LENGTH(32)"
  show "bit (ecc_byte_index (ecc_low x (NOT x)) (ecc_high x (NOT x))) n = bit (ucast x :: u32) n"
  proof (cases "n < 8")
    case True
    then show ?thesis
      by (drule_tac less_8_cases, elim disjE)
        (simp_all add: ecc_byte_index_def and_nz_u8 [simplified] bit_ecc_low bit_ecc_high bit_or_iff
          bit_if_zero bit_ucast_iff)
  next
    case False
    then have "\<not> bit (0x80 :: u32) n" "\<not> bit (0x40 :: u32) n" "\<not> bit (0x20 :: u32) n"
      "\<not> bit (0x10 :: u32) n" "\<not> bit (0x08 :: u32) n" "\<not> bit (0x04 :: u32) n"
      "\<not> bit (0x02 :: u32) n" "\<not> bit (0x01 :: u32) n"
      using bit_exp_iff [where ?'a = "u32", of 7 n] bit_exp_iff [where ?'a = "u32", of 6 n]
        bit_exp_iff [where ?'a = "u32", of 5 n] bit_exp_iff [where ?'a = "u32", of 4 n]
        bit_exp_iff [where ?'a = "u32", of 3 n] bit_exp_iff [where ?'a = "u32", of 2 n]
        bit_exp_iff [where ?'a = "u32", of 1 n] bit_exp_iff [where ?'a = "u32", of 0 n]
      by simp_all
    moreover have "\<not> bit x n" using False bit_imp_le_length [of x n] by auto
    ultimately show ?thesis
      by (simp add: ecc_byte_index_def bit_or_iff bit_if_zero bit_ucast_iff)
  qed
qed

lemma ecc_single_delta:
  assumes "b < 8" and "ecc_delta (2 ^ b) k = (d0, d1, d2)"
  shows "(d0 XOR drop_bit 1 d0) AND 0x55 = 0x55" and "(d1 XOR drop_bit 1 d1) AND 0x55 = 0x55"
    and "(d2 XOR drop_bit 1 d2) AND 0x54 = 0x54" and "k < 256 \<Longrightarrow> unat (ecc_byte_index d0 d1) = k"
    and "ecc_bit_index d2 = b"
proof -
  let ?x = "word_of_nat k :: u8"
  have d: "d0 = ecc_low ?x (NOT ?x)" "d1 = ecc_high ?x (NOT ?x)"
    "d2 = col_parity_of (2 ^ b) AND 0xfc"
    using assms by (auto simp: ecc_delta_single)
  show "(d0 XOR drop_bit 1 d0) AND 0x55 = 0x55"
    by (rule ecc_pairs [where P = "bit ?x"])
      (auto simp: d bit_ecc_low bit_not_iff intro: le_less_trans [OF div_le_dividend])
  show "(d1 XOR drop_bit 1 d1) AND 0x55 = 0x55"
    by (rule ecc_pairs [where P = "\<lambda>n. bit ?x (4 + n)"]) (simp add: d bit_ecc_high bit_not_iff)
  show "(d2 XOR drop_bit 1 d2) AND 0x54 = 0x54" and "ecc_bit_index d2 = b"
    using ecc_column_single [OF assms(1)] by (simp_all add: d Let_def)
  assume "k < 256"
  then show "unat (ecc_byte_index d0 d1) = k"
    unfolding d ecc_byte_index_single by (simp add: unsigned_ucast_eq take_bit_nat_eq_self unat_of_nat)
qed

text \<open>C12: whichever single bit of a 256-byte page flips after its code was computed,
  \<open>yaffs_ecc_correct\<close> reports a correction (1) and returns exactly the original page, with the
  stored code unchanged.\<close>

theorem ecc_corrects_single_bit_error:
  assumes "length data = 256" and "k < 256" and "b < 8"
  shows "yaffs_ecc_correct (flip_bit_at data k b) (yaffs_ecc_calc data)
           (yaffs_ecc_calc (flip_bit_at data k b)) = (1, data, yaffs_ecc_calc data)"
proof -
  obtain r0 r1 r2 where r: "yaffs_ecc_calc data = (r0, r1, r2)" by (metis prod_cases3)
  obtain d0 d1 d2 where d: "ecc_delta (2 ^ b) k = (d0, d1, d2)" by (metis prod_cases3)
  have t: "yaffs_ecc_calc (flip_bit_at data k b) = (r0 XOR d0, r1 XOR d1, r2 XOR d2)"
    using yaffs_ecc_calc_update [OF assms(1,2), of "2 ^ b"] by (simp add: flip_bit_at_def r d ecc_xor_def)
  note s = ecc_single_delta [OF assms(3) d]
  have "d0 \<noteq> 0" using s(1) by auto
  then have "d0 OR d1 OR d2 \<noteq> 0" by (simp add: or_eq_0_iff)
  then show ?thesis
    using s assms unfolding yaffs_ecc_correct_def r t
    by (simp add: flip_bit_at_def flip: xor.assoc) (simp add: xor.assoc)
qed

section \<open>Error patterns\<close>

lemma hweight8_eq_0: "yaffs_hweight8 d = 0 \<longleftrightarrow> d = 0"
proof
  assume "yaffs_hweight8 d = 0"
  then have "\<forall>n<8. \<not> bit d n"
    by (auto simp: hweight8_bits bits_set_def filter_empty_conv)
  then show "d = 0" by (intro bit_word_eqI) simp
qed (simp add: hweight8_bits bits_set_def)

lemma hweight8_0 [simp]: "yaffs_hweight8 0 = 0"
  by (simp add: hweight8_eq_0)

lemma ecc_pattern_nonzero: "(d XOR drop_bit 1 d) AND 0x55 = (0x55 :: u8) \<Longrightarrow> yaffs_hweight8 d \<noteq> 0"
  by (auto simp: hweight8_eq_0)

text \<open>when the stored code itself has one flipped bit, \<open>yaffs_ecc_correct\<close> reports a
  correction, leaves the data untouched and replaces the stored code by the computed one.\<close>

theorem ecc_ignores_single_bit_error_in_code:
  assumes "yaffs_hweight8 e0 + yaffs_hweight8 e1 + yaffs_hweight8 e2 = 1"
  shows "yaffs_ecc_correct data (ecc_xor t (e0, e1, e2)) t = (1, data, t)"
proof -
  obtain t0 t1 t2 where t: "t = (t0, t1, t2)" by (metis prod_cases3)
  have nz: "e0 OR e1 OR e2 \<noteq> 0"
    using assms by (auto simp: or_eq_0_iff hweight8_eq_0)
  have "\<not> ((e0 XOR drop_bit 1 e0) AND 0x55 = 0x55 \<and> (e1 XOR drop_bit 1 e1) AND 0x55 = 0x55)"
    using assms ecc_pattern_nonzero [of e0] ecc_pattern_nonzero [of e1] by arith
  moreover have "(a XOR b) XOR a = b" for a b :: u8 by (simp add: xor.commute [of a])  (simp add: xor.assoc)
  ultimately show ?thesis
    using assms nz by (auto simp: yaffs_ecc_correct_def t ecc_xor_def)
qed

lemma ecc_pairs_same:
  assumes "\<And>n. n < 8 \<Longrightarrow> bit d n = P (n div 2)"
  shows "(d XOR drop_bit 1 d) AND 0x55 \<noteq> (0x55 :: u8)" and "even (yaffs_hweight8 d)"
proof -
  have "\<not> bit ((d XOR drop_bit 1 d) AND 0x55) 0"
    using assms [of 0] assms [of 1] by (simp add: bit_simps)
  then show "(d XOR drop_bit 1 d) AND 0x55 \<noteq> (0x55 :: u8)" by auto
  have "filter (bit d) [0..<8] = filter (\<lambda>n. P (n div 2)) [0..<8]"
    by (rule filter_cong) (auto simp: assms)
  moreover have "[0..<8] = [0, 1, 2, 3, 4, 5, 6, 7::nat]" by code_simp
  ultimately show "even (yaffs_hweight8 d)"
    by (simp add: hweight8_bits bits_set_def)
qed

definition column_pair_ok :: "nat \<Rightarrow> nat \<Rightarrow> bool" where
  "column_pair_ok b1 b2 \<longleftrightarrow>
     (let d2 = (col_parity_of (2 ^ b1) AND 0xfc) XOR (col_parity_of (2 ^ b2) AND 0xfc)
      in even (yaffs_hweight8 d2) \<and> (b1 \<noteq> b2 \<longrightarrow> d2 \<noteq> 0))"

lemma column_pair_ok: "b1 < 8 \<Longrightarrow> b2 < 8 \<Longrightarrow> column_pair_ok b1 b2"
proof -
  have "list_all (\<lambda>b1. list_all (column_pair_ok b1) [0..<8]) [0..<8]" by code_simp
  then show "b1 < 8 \<Longrightarrow> b2 < 8 \<Longrightarrow> column_pair_ok b1 b2" by (simp add: list_all_iff)
qed

lemma ecc_same_nonzero:
  assumes "x \<noteq> 0" shows "ecc_low x x \<noteq> 0 \<or> ecc_high x x \<noteq> 0"
proof (rule ccontr)
  assume "\<not> ?thesis"
  then have z: "ecc_low x x = 0" "ecc_high x x = 0" by simp_all
  have "\<not> bit x n" if "n < 8" for n
  proof (cases "n < 4")
    case True
    then show ?thesis using bit_ecc_low [of "2 * n" x x] z by simp
  next
    case False
    with that show ?thesis using bit_ecc_high [of "2 * (n - 4)" x x] z by simp
  qed
  then have "x = 0" by (intro bit_word_eqI) simp
  with assms show False by simp
qed

lemma length_flip [simp]: "length (flip_bit_at data k b) = length data"
  by (simp add: flip_bit_at_def)

text \<open>C28: any two flipped data bits of a 256-byte page are reported as unrecoverable (-1),
  and neither the data nor the stored code is changed: the code never miscorrects a double error.\<close>

theorem ecc_detects_double_bit_error:
  assumes "length data = 256" and k: "k1 < 256" "k2 < 256" and b: "b1 < 8" "b2 < 8"
    and ne: "(k1, b1) \<noteq> (k2, b2)"
  defines "bad \<equiv> flip_bit_at (flip_bit_at data k1 b1) k2 b2"
  shows "yaffs_ecc_correct bad (yaffs_ecc_calc data) (yaffs_ecc_calc bad) = (-1, bad, yaffs_ecc_calc data)"
proof -
  obtain r0 r1 r2 where r: "yaffs_ecc_calc data = (r0, r1, r2)" by (metis prod_cases3)
  define x :: u8 where "x = word_of_nat k1 XOR word_of_nat k2"
  define d2 :: u8 where "d2 = (col_parity_of (2 ^ b1) AND 0xfc) XOR (col_parity_of (2 ^ b2) AND 0xfc)"
  have nx: "NOT (word_of_nat k1) XOR NOT (word_of_nat k2) = x"
    by (simp add: x_def)
  have "yaffs_ecc_calc bad = ecc_xor (ecc_xor (yaffs_ecc_calc data) (ecc_delta (2 ^ b1) k1)) (ecc_delta (2 ^ b2) k2)"
    using yaffs_ecc_calc_update [OF assms(1) k(1), of "2 ^ b1"]
      yaffs_ecc_calc_update [of "flip_bit_at data k1 b1" k2 "2 ^ b2"] assms(1) k
    by (simp add: bad_def flip_bit_at_def)
  then have t: "yaffs_ecc_calc bad = (r0 XOR ecc_low x x, r1 XOR ecc_high x x, r2 XOR d2)"
    using b by (simp add: r ecc_xor_def ecc_delta_single x_def d2_def xor.assoc flip: ecc_low_xor ecc_high_xor)
  have low: "(ecc_low x x XOR drop_bit 1 (ecc_low x x)) AND 0x55 \<noteq> 0x55" "even (yaffs_hweight8 (ecc_low x x))"
    by (rule ecc_pairs_same [where P = "bit x"], simp add: bit_ecc_low)+
  have high: "even (yaffs_hweight8 (ecc_high x x))"
    by (rule ecc_pairs_same [where P = "\<lambda>n. bit x (4 + n)"]) (simp add: bit_ecc_high)
  have "even (yaffs_hweight8 d2)" and d2: "b1 \<noteq> b2 \<Longrightarrow> d2 \<noteq> 0"
    using column_pair_ok [OF b] by (simp_all add: column_pair_ok_def d2_def Let_def)
  then have weight: "yaffs_hweight8 (ecc_low x x) + yaffs_hweight8 (ecc_high x x) + yaffs_hweight8 d2 \<noteq> 1"
    using low(2) high by presburger
  have "x \<noteq> 0" if "k1 \<noteq> k2"
  proof
    assume "x = 0"
    moreover have "(word_of_nat k2 :: u8) = word_of_nat k1 XOR x"
      by (simp add: x_def flip: xor.assoc)
    ultimately have "unat (word_of_nat k1 :: u8) = unat (word_of_nat k2 :: u8)" by simp
    with that k show False by (simp add: unat_of_nat)
  qed
  then have "ecc_low x x OR ecc_high x x OR d2 \<noteq> 0"
    using ne d2 ecc_same_nonzero [of x] by (auto simp: or_eq_0_iff)
  then show ?thesis
    using low(1) weight unfolding yaffs_ecc_correct_def r t
    by (simp flip: xor.assoc)
qed

section \<open>The code over any number of bytes\<close>

lemma ecc_other_column_single:
  "b < 8 \<Longrightarrow> (let d = drop_bit 2 (col_parity_of (2 ^ b)) AND 0x3f
     in (d XOR drop_bit 1 d) AND 0x15 = 0x15 \<and> ecc_other_bit_index d = b)"
  by (drule less_8_cases, elim disjE) (simp_all add: col_parity_of_def ecc_other_bit_index_def)

lemma yaffs_ecc_calc_other_update:
  assumes "k < unat n_bytes" and "unat n_bytes \<le> length data" and "b < 8"
  shows "yaffs_ecc_calc_other (flip_bit_at data k b) n_bytes =
    (let e = yaffs_ecc_calc_other data n_bytes
     in \<lparr>col_parity = col_parity e XOR (drop_bit 2 (col_parity_of (2 ^ b)) AND 0x3f),
         line_parity = line_parity e XOR word_of_nat k,
         line_parity_prime = line_parity_prime e XOR NOT (word_of_nat k)\<rparr>)"
proof -
  let ?ds = "take (unat n_bytes) data"
  obtain c l p where acc: "ecc_loop 0 ?ds (0, 0, 0 :: u32) = (c, l, p)" by (metis prod_cases3)
  have "ecc_loop 0 (?ds[k := ?ds ! k XOR 2 ^ b]) (0, 0, 0) = xor3 (c, l, p) (line_delta (2 ^ b) k)"
    using ecc_loop_update [of k ?ds 0 "2 ^ b" "(0, 0, 0 :: u32)"] assms by (simp add: acc)
  moreover have "take (unat n_bytes) (flip_bit_at data k b) = ?ds[k := ?ds ! k XOR 2 ^ b]"
    using assms by (simp add: flip_bit_at_def take_update_swap)
  ultimately show ?thesis
    using assms by (simp add: yaffs_ecc_calc_other_def acc xor3_def line_delta_def col_parity_single
        drop_bit_xor and.commute [of _ "0x3f"] bit.conj_xor_distrib Let_def)
qed

text \<open>The n-byte code locates and repairs any single flipped bit of the protected bytes.\<close>

lemma ecc_correct_other_single:
  assumes "k < unat n_bytes" and "unat n_bytes \<le> length data" and "b < 8"
  shows "yaffs_ecc_correct_other (flip_bit_at data k b) n_bytes (yaffs_ecc_calc_other data n_bytes)
           (yaffs_ecc_calc_other (flip_bit_at data k b) n_bytes)
         = (1, data, yaffs_ecc_calc_other data n_bytes)"
proof -
  let ?k = "word_of_nat k :: u32" and ?d = "drop_bit 2 (col_parity_of (2 ^ b)) AND 0x3f"
  have "unat n_bytes < 2 ^ LENGTH(32)" by (rule unsigned_less)
  then have k: "unat ?k = k" and less: "\<not> n_bytes \<le> ?k"
    using assms(1) by (simp_all add: unat_of_nat word_le_nat_alt)
  have d: "(?d XOR drop_bit 1 ?d) AND 0x15 = 0x15" "ecc_other_bit_index ?d = b"
    using ecc_other_column_single [OF assms(3)] by (simp_all add: Let_def)
  have "?k OR NOT ?k \<noteq> 0" by simp
  then have nz: "ucast ?d OR ?k OR NOT ?k \<noteq> 0" by (simp only: or_eq_0_iff) simp
  show ?thesis
    using d nz less k assms unfolding yaffs_ecc_calc_other_update [OF assms] yaffs_ecc_correct_other_def Let_def
    by (simp add: flip_bit_at_def flip: xor.assoc) (simp add: xor.assoc)
qed

text \<open>Witnesses on concrete pages.\<close>

lemma ecc_corrects_single_bit_error_witness:
  "yaffs_ecc_correct (flip_bit_at (replicate 256 0xa5) 77 3) (yaffs_ecc_calc (replicate 256 0xa5))
     (yaffs_ecc_calc (flip_bit_at (replicate 256 0xa5) 77 3))
   = (1, replicate 256 0xa5, yaffs_ecc_calc (replicate 256 0xa5))"
  by (rule ecc_corrects_single_bit_error) simp_all

lemma ecc_ignores_single_bit_error_in_code_witness:
  "yaffs_ecc_correct [0x12] (ecc_xor (0xff, 0x0f, 0x33) (0, 0x10, 0)) (0xff, 0x0f, 0x33)
   = (1, [0x12], (0xff, 0x0f, 0x33))"
  by (rule ecc_ignores_single_bit_error_in_code) code_simp

lemma ecc_detects_double_bit_error_witness:
  "let bad = flip_bit_at (flip_bit_at (replicate 256 0) 3 1) 200 1
   in yaffs_ecc_correct bad (yaffs_ecc_calc (replicate 256 0)) (yaffs_ecc_calc bad)
      = (-1, bad, yaffs_ecc_calc (replicate 256 0))"
  using ecc_detects_double_bit_error [of "replicate 256 0" 3 200 1 1] by (simp add: Let_def)

end
