(* ===== verification/Yaffs_Codec.thy ===== *)
theory Yaffs_Codec
  imports Yaffs_Ecc
begin

text \<open>
  Structures as bytes. The code stores structures of \<open>unsigned\<close> fields by copying their
  memory; \<open>u32_bytes\<close> is that memory for one field, in the byte order of the processor
  (\<open>le\<close>: little endian). The locale \<open>byte_codec\<close> is the contract of such a layout, and its
  lemmas are what the clients need: concatenated fields come back field by field, and a
  structure protected by the n-byte code survives a flipped bit. The byte swapping of
  \<open>yaffs_endian.h\<close> is here as well.
\<close>

unbundle bit_operations_syntax

section \<open>Byte order\<close>

definition swap_u32 :: "u32 \<Rightarrow> u32" where
  "swap_u32 val =
     (drop_bit 24 val AND 0x000000ff) OR (drop_bit 8 val AND 0x0000ff00) OR
     (push_bit 8 val AND 0x00ff0000) OR (push_bit 24 val AND 0xff000000)"

definition u32_bytes :: "bool \<Rightarrow> u32 \<Rightarrow> u8 list" where
  "u32_bytes le w =
     (let bs = [ucast w, ucast (drop_bit 8 w), ucast (drop_bit 16 w), ucast (drop_bit 24 w)]
      in if le then bs else rev bs)"

definition bytes_u32 :: "bool \<Rightarrow> u8 list \<Rightarrow> u32" where
  "bytes_u32 le bs =
     (let cs = if le then bs else rev bs
      in ucast (cs ! 0) OR push_bit 8 (ucast (cs ! 1)) OR push_bit 16 (ucast (cs ! 2))
         OR push_bit 24 (ucast (cs ! 3)))"

lemma bit_ff: "bit (0x000000ff :: u32) n \<longleftrightarrow> n < 8"
  "bit (0x0000ff00 :: u32) n \<longleftrightarrow> 8 \<le> n \<and> n < 16"
  "bit (0x00ff0000 :: u32) n \<longleftrightarrow> 16 \<le> n \<and> n < 24"
  "bit (0xff000000 :: u32) n \<longleftrightarrow> 24 \<le> n \<and> n < 32"
proof -
  have *: "(0x000000ff :: u32) = mask 8" "(0x0000ff00 :: u32) = push_bit 8 (mask 8)"
    "(0x00ff0000 :: u32) = push_bit 16 (mask 8)" "(0xff000000 :: u32) = push_bit 24 (mask 8)"
    by (simp_all add: mask_eq_exp_minus_1 push_bit_eq_mult)
  show "bit (0x000000ff :: u32) n \<longleftrightarrow> n < 8" "bit (0x0000ff00 :: u32) n \<longleftrightarrow> 8 \<le> n \<and> n < 16"
    "bit (0x00ff0000 :: u32) n \<longleftrightarrow> 16 \<le> n \<and> n < 24" "bit (0xff000000 :: u32) n \<longleftrightarrow> 24 \<le> n \<and> n < 32"
    unfolding * by (auto simp: bit_simps)
qed

lemma bit_swap_u32:
  assumes "n < 32"
  shows "bit (swap_u32 w) n = bit w (if n < 8 then n + 24 else if n < 16 then n + 8
     else if n < 24 then n - 8 else n - 24)"
  using assms unfolding swap_u32_def bit_or_iff bit_and_iff bit_ff
  by (auto simp: bit_drop_bit_eq bit_push_bit_iff add.commute)

lemma swap_u32_swap_u32 [simp]: "swap_u32 (swap_u32 w) = w"
  by (rule bit_word_eqI) (auto simp: bit_swap_u32)

lemma swap_u32_inject [simp]: "swap_u32 a = swap_u32 b \<longleftrightarrow> a = b"
  by (metis swap_u32_swap_u32)

lemma swap_u32_reverses_bytes: "u32_bytes le (swap_u32 w) = rev (u32_bytes le w)"
proof -
  have b: "(ucast (drop_bit k (swap_u32 w)) :: u8) = ucast (drop_bit (24 - k) w)"
    if "k = 0 \<or> k = 8 \<or> k = 16 \<or> k = 24" for k
    by (rule bit_word_eqI) (use that in \<open>auto simp: bit_ucast_iff bit_drop_bit_eq bit_swap_u32 add.commute\<close>)
  show ?thesis
    using b [of 0] b [of 8] b [of 16] b [of 24] by (simp add: u32_bytes_def Let_def)
qed

lemma length_u32_bytes [simp]: "length (u32_bytes le w) = 4"
  by (simp add: u32_bytes_def Let_def)

lemma bytes_u32_u32_bytes [simp]: "bytes_u32 le (u32_bytes le w) = w"
proof -
  have "ucast (ucast w :: u8) OR push_bit 8 (ucast (ucast (drop_bit 8 w) :: u8))
      OR push_bit 16 (ucast (ucast (drop_bit 16 w) :: u8))
      OR push_bit 24 (ucast (ucast (drop_bit 24 w) :: u8)) = w" (is "?l = w")
  proof (rule bit_word_eqI)
    fix n assume "n < LENGTH(32)"
    then consider "n < 8" | "8 \<le> n" "n < 16" | "16 \<le> n" "n < 24" | "24 \<le> n" "n < 32"
      by fastforce
    then show "bit ?l n = bit w n"
      by cases (auto simp: bit_or_iff bit_push_bit_iff bit_ucast_iff bit_drop_bit_eq)
  qed
  then show ?thesis by (simp add: bytes_u32_def u32_bytes_def Let_def)
qed

lemma u32_bytes_bytes_u32:
  assumes "length bs = 4" shows "u32_bytes le (bytes_u32 le bs) = bs"
proof -
  have dec: "[ucast w, ucast (drop_bit 8 w), ucast (drop_bit 16 w), ucast (drop_bit 24 w)] = [a, b, c, d :: u8]"
    if "w = ucast a OR push_bit 8 (ucast b) OR push_bit 16 (ucast c) OR push_bit 24 (ucast d)" for w :: u32 and a b c d
    unfolding that by (intro list.inject [THEN iffD2] conjI bit_word_eqI refl)
      (auto simp: bit_or_iff bit_push_bit_iff bit_ucast_iff bit_drop_bit_eq dest: bit_imp_le_length)
  obtain a b c d where bs: "bs = [a, b, c, d]"
    using assms by (auto simp: length_Suc_conv numeral_eq_Suc)
  show ?thesis
    using dec [OF refl, of a b c d] dec [OF refl, of d c b a]
    by (simp add: bs bytes_u32_def u32_bytes_def Let_def)
qed

section \<open>The contract of a fixed-width layout\<close>

locale byte_codec =
  fixes enc :: "'a \<Rightarrow> u8 list" and dec :: "u8 list \<Rightarrow> 'a" and width :: nat
  assumes dec_enc: "dec (enc x) = x"
    and length_enc: "length (enc x) = width"
begin

lemma enc_inject: "enc x = enc y \<longleftrightarrow> x = y"
  by (metis dec_enc)

lemma dec_take: "dec (take width (enc x @ rest)) = x"
  by (simp add: dec_enc length_enc)

lemma drop_enc: "drop width (enc x @ rest) = rest"
  by (simp add: length_enc)

text \<open>A protected structure survives a flipped bit of its memory.\<close>

lemma repaired:
  assumes "k < width" and "b < 8" and "width < 2 ^ 32"
  shows "let w = word_of_nat width; bad = flip_bit_at (enc x) k b;
             (r, fixed, e) = yaffs_ecc_correct_other bad w (yaffs_ecc_calc_other (enc x) w)
                               (yaffs_ecc_calc_other bad w)
         in r = 1 \<and> dec fixed = x"
proof -
  have "unat (word_of_nat width :: u32) = width"
    using assms(3) by (simp add: unat_of_nat)
  then show ?thesis
    using assms ecc_correct_other_single [of k "word_of_nat width" "enc x" b]
    by (simp add: length_enc dec_enc Let_def)
qed

lemma intact:
  "let w = word_of_nat width; e = yaffs_ecc_calc_other (enc x) w
   in yaffs_ecc_correct_other (enc x) w e e = (0, enc x, e)"
  by (simp add: yaffs_ecc_correct_other_def Let_def)

end

locale exact_codec = byte_codec +
  assumes enc_dec: "length bs = width \<Longrightarrow> enc (dec bs) = bs"
begin

text \<open>Every memory image of the right size is the image of exactly one structure.\<close>

lemma unique_image: "length bs = width \<Longrightarrow> enc x = bs \<longleftrightarrow> x = dec bs"
  using enc_dec dec_enc by metis

end

interpretation u32c: exact_codec "u32_bytes le" "bytes_u32 le" 4 for le
  by unfold_locales (simp_all add: u32_bytes_bytes_u32)

text \<open>Four consecutive 32-bit fields, the shape of the packed tags and of the summary and
  checkpoint headers.\<close>

definition bytes4 :: "bool \<Rightarrow> u32 \<times> u32 \<times> u32 \<times> u32 \<Rightarrow> u8 list" where
  "bytes4 le x = (case x of (a, b, c, d) \<Rightarrow> u32_bytes le a @ u32_bytes le b @ u32_bytes le c @ u32_bytes le d)"

definition fields4 :: "bool \<Rightarrow> u8 list \<Rightarrow> u32 \<times> u32 \<times> u32 \<times> u32" where
  "fields4 le bs = (bytes_u32 le (take 4 bs), bytes_u32 le (take 4 (drop 4 bs)),
     bytes_u32 le (take 4 (drop 8 bs)), bytes_u32 le (take 4 (drop 12 bs)))"

interpretation quad: exact_codec "bytes4 le" "fields4 le" 16 for le
proof unfold_locales
  show "fields4 le (bytes4 le x) = x" for x
    by (cases x) (simp add: fields4_def bytes4_def)
  show "length (bytes4 le x) = 16" for x
    by (cases x) (simp add: bytes4_def)
  fix bs :: "u8 list" assume len: "length bs = 16"
  then have "bs = take 4 bs @ take 4 (drop 4 bs) @ take 4 (drop 8 bs) @ take 4 (drop 12 bs)"
    by (simp add: list_eq_iff_nth_eq nth_append)
  then show "bytes4 le (fields4 le bs) = bs"
    using len by (simp add: bytes4_def fields4_def u32_bytes_bytes_u32)
qed

end
