(* ===== verification/Yaffs_Dev.thy ===== *)
theory Yaffs_Dev
  imports Yaffs_Prelude
begin

text \<open>
  The data model of \<open>yaffs_guts.h\<close>: the enumerations, the extended tags of a chunk, the
  in-memory block information, the device parameters and the device itself.

  C \<open>int\<close> counters and block or chunk numbers are \<open>int\<close>; unsigned values whose bits matter
  (identifiers, sequence numbers, masks) are words; C flags are \<open>bool\<close>. The bit-fields of
  \<open>struct yaffs_block_info\<close> keep their width: a store to a signed ten-bit field goes through
  \<open>s10\<close>. The target is the 32-bit VxWorks configuration, where \<open>loff_t\<close> is
  \<open>unsigned long\<close> and so 32 bits wide.

  The flash itself and its driver are outside the model: the device record carries the state
  of the driver (\<open>nand\<close>, of any type) and the driver's functions, as the C structure does.
\<close>

unbundle bit_operations_syntax

type_synonym loff_t = u32

section \<open>Enumerations\<close>

datatype yaffs_ecc_result =
  YAFFS_ECC_RESULT_UNKNOWN | YAFFS_ECC_RESULT_NO_ERROR | YAFFS_ECC_RESULT_FIXED | YAFFS_ECC_RESULT_UNFIXED

fun ecc_rank :: "yaffs_ecc_result \<Rightarrow> nat" where
  "ecc_rank YAFFS_ECC_RESULT_UNKNOWN = 0"
| "ecc_rank YAFFS_ECC_RESULT_NO_ERROR = 1"
| "ecc_rank YAFFS_ECC_RESULT_FIXED = 2"
| "ecc_rank YAFFS_ECC_RESULT_UNFIXED = 3"

text \<open>The code compares results with \<open>>\<close>: the order of the enumeration.\<close>

instantiation yaffs_ecc_result :: linorder
begin
definition less_eq_yaffs_ecc_result :: "yaffs_ecc_result \<Rightarrow> yaffs_ecc_result \<Rightarrow> bool" where
  "less_eq_yaffs_ecc_result a b \<longleftrightarrow> ecc_rank a \<le> ecc_rank b"
definition less_yaffs_ecc_result :: "yaffs_ecc_result \<Rightarrow> yaffs_ecc_result \<Rightarrow> bool" where
  "less_yaffs_ecc_result a b \<longleftrightarrow> ecc_rank a < ecc_rank b"
instance
proof
  fix a b :: yaffs_ecc_result
  show "a \<le> b \<Longrightarrow> b \<le> a \<Longrightarrow> a = b"
    by (cases a; cases b) (simp_all add: less_eq_yaffs_ecc_result_def)
qed (auto simp: less_eq_yaffs_ecc_result_def less_yaffs_ecc_result_def)
end

text \<open>Object types are stored as numbers (also in the tags, where four bits hold them).\<close>

abbreviation YAFFS_OBJECT_TYPE_UNKNOWN :: u32 where "YAFFS_OBJECT_TYPE_UNKNOWN \<equiv> 0"
abbreviation YAFFS_OBJECT_TYPE_FILE :: u32 where "YAFFS_OBJECT_TYPE_FILE \<equiv> 1"
abbreviation YAFFS_OBJECT_TYPE_SYMLINK :: u32 where "YAFFS_OBJECT_TYPE_SYMLINK \<equiv> 2"
abbreviation YAFFS_OBJECT_TYPE_DIRECTORY :: u32 where "YAFFS_OBJECT_TYPE_DIRECTORY \<equiv> 3"
abbreviation YAFFS_OBJECT_TYPE_HARDLINK :: u32 where "YAFFS_OBJECT_TYPE_HARDLINK \<equiv> 4"
abbreviation YAFFS_OBJECT_TYPE_SPECIAL :: u32 where "YAFFS_OBJECT_TYPE_SPECIAL \<equiv> 5"

datatype yaffs_block_state =
  YAFFS_BLOCK_STATE_UNKNOWN | YAFFS_BLOCK_STATE_SCANNING | YAFFS_BLOCK_STATE_NEEDS_SCAN
| YAFFS_BLOCK_STATE_EMPTY | YAFFS_BLOCK_STATE_ALLOCATING | YAFFS_BLOCK_STATE_FULL
| YAFFS_BLOCK_STATE_DIRTY | YAFFS_BLOCK_STATE_CHECKPOINT | YAFFS_BLOCK_STATE_COLLECTING
| YAFFS_BLOCK_STATE_DEAD

section \<open>Tags\<close>

record yaffs_ext_tags =
  chunk_used :: u32
  obj_id :: u32
  chunk_id :: u32
  n_bytes :: u32
  ecc_result :: yaffs_ecc_result
  block_bad :: u32
  is_deleted :: u32
  serial_number :: u32
  seq_number :: u32
  extra_available :: u32
  extra_parent_id :: u32
  extra_is_shrink :: u32
  extra_shadows :: u32
  extra_obj_type :: u32
  extra_file_size :: loff_t
  extra_equiv_id :: u32

text \<open>\<open>memset(&tags, 0, sizeof(tags))\<close>.\<close>

definition zero_tags :: yaffs_ext_tags where
  "zero_tags = \<lparr>chunk_used = 0, obj_id = 0, chunk_id = 0, n_bytes = 0,
     ecc_result = YAFFS_ECC_RESULT_UNKNOWN, block_bad = 0, is_deleted = 0, serial_number = 0,
     seq_number = 0, extra_available = 0, extra_parent_id = 0, extra_is_shrink = 0,
     extra_shadows = 0, extra_obj_type = 0, extra_file_size = 0, extra_equiv_id = 0\<rparr>"

text \<open>Special identifiers and sequence numbers.\<close>

abbreviation YAFFS_OBJECTID_ROOT :: u32 where "YAFFS_OBJECTID_ROOT \<equiv> 1"
abbreviation YAFFS_OBJECTID_LOSTNFOUND :: u32 where "YAFFS_OBJECTID_LOSTNFOUND \<equiv> 2"
abbreviation YAFFS_OBJECTID_UNLINKED :: u32 where "YAFFS_OBJECTID_UNLINKED \<equiv> 3"
abbreviation YAFFS_OBJECTID_DELETED :: u32 where "YAFFS_OBJECTID_DELETED \<equiv> 4"
abbreviation YAFFS_OBJECTID_SUMMARY :: u32 where "YAFFS_OBJECTID_SUMMARY \<equiv> 0x10"
abbreviation YAFFS_OBJECTID_CHECKPOINT_DATA :: u32 where "YAFFS_OBJECTID_CHECKPOINT_DATA \<equiv> 0x20"
abbreviation YAFFS_SEQUENCE_CHECKPOINT_DATA :: u32 where "YAFFS_SEQUENCE_CHECKPOINT_DATA \<equiv> 0x21"
abbreviation YAFFS_SEQUENCE_BAD_BLOCK :: u32 where "YAFFS_SEQUENCE_BAD_BLOCK \<equiv> 0xffff0000"
abbreviation YAFFS_LOWEST_SEQUENCE_NUMBER :: u32 where "YAFFS_LOWEST_SEQUENCE_NUMBER \<equiv> 0x00001000"
abbreviation YAFFS_HIGHEST_SEQUENCE_NUMBER :: u32 where "YAFFS_HIGHEST_SEQUENCE_NUMBER \<equiv> 0xefffff00"

section \<open>Block information\<close>

text \<open>A store to a signed ten-bit bit-field.\<close>

definition s10 :: "int \<Rightarrow> int" where
  "s10 x = signed_take_bit 9 x"

lemma s10_id: "-512 \<le> x \<Longrightarrow> x < 512 \<Longrightarrow> s10 x = x"
  by (simp add: s10_def signed_take_bit_int_eq_self)

record yaffs_block_info =
  soft_del_pages :: int
  pages_in_use :: int
  block_state :: yaffs_block_state
  needs_retiring :: bool
  skip_erased_check :: bool
  gc_prioritise :: bool
  chunk_error_strikes :: nat
  has_summary :: bool
  has_shrink_hdr :: bool
  bi_seq_number :: u32

section \<open>The device\<close>

record yaffs_param =
  inband_tags :: bool
  total_bytes_per_chunk :: nat
  chunks_per_block :: int
  spare_bytes_per_chunk :: nat
  start_block :: int
  end_block :: int
  n_reserved_blocks :: int
  n_caches :: nat
  cache_bypass_aligned :: bool
  use_nand_ecc :: bool
  no_tags_ecc :: bool
  is_yaffs2 :: bool
  refresh_period :: int
  skip_checkpt_rd :: bool
  skip_checkpt_wr :: bool
  stored_endian :: int
  always_check_erased :: bool
  disable_bad_block_marking :: bool
  wide_tnodes_disabled :: bool

text \<open>\<open>struct yaffs_tags_handler\<close> and \<open>struct yaffs_driver\<close>: each function takes the driver state and
  returns it updated. A read says which buffers were passed and returns what it filled in.\<close>

record 'n yaffs_tags_handler =
  write_chunk_tags_fn :: "'n \<Rightarrow> int \<Rightarrow> u8 list option \<Rightarrow> yaffs_ext_tags \<Rightarrow> int \<times> 'n"
  read_chunk_tags_fn :: "'n \<Rightarrow> int \<Rightarrow> bool \<Rightarrow> int \<times> u8 list \<times> yaffs_ext_tags \<times> 'n"
  query_block_fn :: "'n \<Rightarrow> int \<Rightarrow> int \<times> yaffs_block_state \<times> u32 \<times> 'n"
  mark_bad_fn :: "'n \<Rightarrow> int \<Rightarrow> int \<times> 'n"

record 'n yaffs_driver =
  drv_write_chunk_fn :: "'n \<Rightarrow> int \<Rightarrow> u8 list option \<Rightarrow> nat \<Rightarrow> u8 list option \<Rightarrow> nat \<Rightarrow> int \<times> 'n"
  drv_read_chunk_fn :: "'n \<Rightarrow> int \<Rightarrow> bool \<Rightarrow> nat \<Rightarrow> bool \<Rightarrow> nat \<Rightarrow> int \<times> u8 list \<times> u8 list \<times> yaffs_ecc_result \<times> 'n"
  drv_check_bad_fn :: "'n \<Rightarrow> int \<Rightarrow> int \<times> 'n"
  drv_erase_fn :: "'n \<Rightarrow> int \<Rightarrow> int \<times> 'n"
  drv_mark_bad_fn :: "'n \<Rightarrow> int \<Rightarrow> int \<times> 'n"

record yaffs_summary_tags =
  sum_obj_id :: u32
  sum_chunk_id :: u32
  sum_n_bytes :: u32

record yaffs_stats =
  n_page_writes :: u32
  n_page_reads :: u32
  n_erasures :: u32
  n_bad_markings :: u32
  n_erase_failures :: u32
  n_gc_copies :: u32
  all_gcs :: u32
  passive_gc_count :: u32
  oldest_dirty_gc_count :: u32
  n_gc_blocks :: u32
  bg_gcs :: u32
  n_retried_writes :: u32
  n_retired_blocks :: u32
  n_deletions :: u32
  n_unmarked_deletions :: u32
  refresh_count :: u32
  n_ecc_fixed :: u32
  n_ecc_unfixed :: u32
  n_tags_ecc_fixed :: u32
  n_tags_ecc_unfixed :: u32

text \<open>The run-time checkpoint state of the device.\<close>

record yaffs_checkpt =
  checkpt_page_seq :: int
  checkpt_byte_count :: int
  checkpt_byte_offs :: int
  checkpt_buffer :: "u8 list option"
  checkpt_open_write :: bool
  blocks_in_checkpt :: int
  checkpt_cur_chunk :: int
  checkpt_cur_block :: int
  checkpt_next_block :: int
  checkpt_block_list :: "int list option"
  checkpt_max_blocks :: int
  checkpt_sum :: u32
  checkpt_xor :: u32

text \<open>\<open>host_le\<close> is the byte order of the processor and \<open>temp_fill\<close> the arbitrary old contents of
  a scratch buffer; neither is a field of the C structure.\<close>

record 'n yaffs_dev =
  param :: yaffs_param
  tagger :: "'n yaffs_tags_handler"
  drv :: "'n yaffs_driver"
  nand :: 'n
  host_le :: bool
  temp_fill :: "u8 list"
  trace_mask :: u32
  data_bytes_per_chunk :: nat
  chunk_shift :: nat
  chunk_div :: u32
  chunk_mask :: u32
  chunk_grp_bits :: nat
  chunk_grp_size :: nat
  tnode_width :: nat
  tnode_mask :: u32
  tnode_size :: nat
  read_only :: bool
  is_checkpointed :: bool
  swap_endian :: bool
  internal_start_block :: int
  internal_end_block :: int
  block_offset :: int
  chunk_offset :: int
  ck :: yaffs_checkpt
  checkpoint_blocks_required :: int
  block_info :: "yaffs_block_info list"
  chunk_bits :: "u8 list"
  chunk_bit_stride :: nat
  n_erased_blocks :: int
  alloc_block :: int
  alloc_page :: int
  alloc_block_finder :: int
  n_obj :: int
  n_tnodes :: int
  n_free_chunks :: int
  has_pending_prioritised_gc :: bool
  gc_block_finder :: int
  gc_dirtiest :: int
  gc_pages_in_use :: int
  gc_not_done :: int
  gc_block :: int
  gc_chunk :: int
  gc_disable :: bool
  gc_skip :: int
  n_clean_ups :: int
  n_deleted_files :: int
  n_unlinked_files :: int
  n_bg_deletions :: int
  dev_seq_number :: u32
  oldest_dirty_seq :: u32
  oldest_dirty_block :: int
  refresh_skip :: int
  chunks_per_summary :: int
  sum_tags :: "yaffs_summary_tags list option"
  gc_sum_tags :: "yaffs_summary_tags list option"
  stats :: yaffs_stats

abbreviation cpb :: "('n, 'x) yaffs_dev_scheme \<Rightarrow> int" where
  "cpb dev \<equiv> chunks_per_block (param dev)"

text \<open>The blocks of the device, in the order the loops
  \<open>for (i = internal_start_block; i <= internal_end_block; i++)\<close> visit them.\<close>

definition dev_blocks :: "('n, 'x) yaffs_dev_scheme \<Rightarrow> int list" where
  "dev_blocks dev = [internal_start_block dev..internal_end_block dev]"

definition valid_block :: "('n, 'x) yaffs_dev_scheme \<Rightarrow> int \<Rightarrow> bool" where
  "valid_block dev blk \<longleftrightarrow> internal_start_block dev \<le> blk \<and> blk \<le> internal_end_block dev"

text \<open>\<open>yaffs_get_block_info\<close> (\<open>yaffs_getblockinfo.h\<close>): the entry of a block. Outside the range
  the code calls \<open>BUG()\<close>; the model says nothing about that entry.\<close>

definition yaffs_get_block_info :: "('n, 'x) yaffs_dev_scheme \<Rightarrow> int \<Rightarrow> yaffs_block_info" where
  "yaffs_get_block_info dev blk = block_info dev ! nat (blk - internal_start_block dev)"

text \<open>An assignment through the pointer \<open>yaffs_get_block_info\<close> returns.\<close>

definition upd_block_info ::
  "('n, 'x) yaffs_dev_scheme \<Rightarrow> int \<Rightarrow> (yaffs_block_info \<Rightarrow> yaffs_block_info) \<Rightarrow> ('n, 'x) yaffs_dev_scheme" where
  "upd_block_info dev blk f =
     dev\<lparr>block_info := (block_info dev)[nat (blk - internal_start_block dev) := f (yaffs_get_block_info dev blk)]\<rparr>"

definition upd_stats ::
  "('n, 'x) yaffs_dev_scheme \<Rightarrow> (yaffs_stats \<Rightarrow> yaffs_stats) \<Rightarrow> ('n, 'x) yaffs_dev_scheme" where
  "upd_stats dev f = dev\<lparr>stats := f (stats dev)\<rparr>"

section \<open>Shape of the block table\<close>

definition geometry_ok :: "('n, 'x) yaffs_dev_scheme \<Rightarrow> bool" where
  "geometry_ok dev \<longleftrightarrow>
     0 < internal_start_block dev \<and> internal_start_block dev \<le> internal_end_block dev \<and>
     0 < cpb dev \<and> cpb dev < 512 \<and>
     length (block_info dev) = nat (internal_end_block dev - internal_start_block dev + 1) \<and>
     int (chunk_bit_stride dev) = (cpb dev + 7) div 8 \<and>
     length (chunk_bits dev) = chunk_bit_stride dev * length (block_info dev)"

lemma set_dev_blocks: "b \<in> set (dev_blocks dev) \<longleftrightarrow> valid_block dev b"
  by (simp add: dev_blocks_def valid_block_def)

lemma distinct_dev_blocks: "distinct (dev_blocks dev)"
  by (simp add: dev_blocks_def)

lemma get_block_info_upd:
  assumes "length (block_info dev) = nat (internal_end_block dev - internal_start_block dev + 1)"
    and "valid_block dev b" and "valid_block dev b'"
  shows "yaffs_get_block_info (upd_block_info dev b f) b' =
    (if b = b' then f (yaffs_get_block_info dev b) else yaffs_get_block_info dev b')"
  using assms by (auto simp: yaffs_get_block_info_def upd_block_info_def valid_block_def nat_eq_iff
      nth_list_update_If)

lemma upd_block_info_frame [simp]:
  "param (upd_block_info dev b f) = param dev" "tagger (upd_block_info dev b f) = tagger dev"
  "drv (upd_block_info dev b f) = drv dev" "nand (upd_block_info dev b f) = nand dev"
  "trace_mask (upd_block_info dev b f) = trace_mask dev"
  "internal_start_block (upd_block_info dev b f) = internal_start_block dev"
  "internal_end_block (upd_block_info dev b f) = internal_end_block dev"
  "length (block_info (upd_block_info dev b f)) = length (block_info dev)"
  "chunk_bits (upd_block_info dev b f) = chunk_bits dev"
  "chunk_bit_stride (upd_block_info dev b f) = chunk_bit_stride dev"
  "n_erased_blocks (upd_block_info dev b f) = n_erased_blocks dev"
  "alloc_block (upd_block_info dev b f) = alloc_block dev"
  "alloc_page (upd_block_info dev b f) = alloc_page dev"
  "alloc_block_finder (upd_block_info dev b f) = alloc_block_finder dev"
  "n_free_chunks (upd_block_info dev b f) = n_free_chunks dev"
  "dev_seq_number (upd_block_info dev b f) = dev_seq_number dev"
  by (simp_all add: upd_block_info_def)

text \<open>What no run-time operation changes.\<close>

definition dev_config :: "('n, 'x) yaffs_dev_scheme \<Rightarrow> _" where
  "dev_config dev = (param dev, tagger dev, drv dev, (host_le dev, temp_fill dev, trace_mask dev, swap_endian dev),
     data_bytes_per_chunk dev, internal_start_block dev, internal_end_block dev, block_offset dev,
     chunk_offset dev, chunk_bit_stride dev, chunks_per_summary dev, read_only dev)"

lemma dev_configD:
  assumes "dev_config d = dev_config d'"
  shows "param d = param d'" "tagger d = tagger d'" "drv d = drv d'" "host_le d = host_le d'"
    "temp_fill d = temp_fill d'" "trace_mask d = trace_mask d'" "swap_endian d = swap_endian d'"
    "data_bytes_per_chunk d = data_bytes_per_chunk d'" "internal_start_block d = internal_start_block d'"
    "internal_end_block d = internal_end_block d'" "block_offset d = block_offset d'"
    "chunk_offset d = chunk_offset d'" "chunk_bit_stride d = chunk_bit_stride d'"
    "chunks_per_summary d = chunks_per_summary d'" "read_only d = read_only d'"
  using assms by (simp_all add: dev_config_def)

lemma dev_config_upd_block_info [simp, dev_frame]: "dev_config (upd_block_info dev b f) = dev_config dev"
  by (simp add: dev_config_def upd_block_info_def)

lemma dev_config_upd_stats [simp, dev_frame]: "dev_config (upd_stats dev g) = dev_config dev"
  by (simp add: dev_config_def upd_stats_def)

section \<open>The cleared structures\<close>

text \<open>\<open>memset(dev, 0, sizeof(struct yaffs_dev))\<close> for a device with the given driver: the state
  mounting starts from, and the base of the example devices.\<close>

definition zero_stats :: yaffs_stats where
  "zero_stats = \<lparr>n_page_writes = 0, n_page_reads = 0, n_erasures = 0, n_bad_markings = 0,
     n_erase_failures = 0, n_gc_copies = 0, all_gcs = 0, passive_gc_count = 0,
     oldest_dirty_gc_count = 0, n_gc_blocks = 0, bg_gcs = 0, n_retried_writes = 0,
     n_retired_blocks = 0, n_deletions = 0, n_unmarked_deletions = 0, refresh_count = 0, n_ecc_fixed = 0, n_ecc_unfixed = 0,
     n_tags_ecc_fixed = 0, n_tags_ecc_unfixed = 0\<rparr>"

definition zero_checkpt :: yaffs_checkpt where
  "zero_checkpt = \<lparr>checkpt_page_seq = 0, checkpt_byte_count = 0, checkpt_byte_offs = 0,
     checkpt_buffer = None, checkpt_open_write = False, blocks_in_checkpt = 0, checkpt_cur_chunk = 0,
     checkpt_cur_block = 0, checkpt_next_block = 0, checkpt_block_list = None, checkpt_max_blocks = 0,
     checkpt_sum = 0, checkpt_xor = 0\<rparr>"

definition zero_block_info :: yaffs_block_info where
  "zero_block_info = \<lparr>soft_del_pages = 0, pages_in_use = 0, block_state = YAFFS_BLOCK_STATE_UNKNOWN,
     needs_retiring = False, skip_erased_check = False, gc_prioritise = False,
     chunk_error_strikes = 0, has_summary = False, has_shrink_hdr = False, bi_seq_number = 0\<rparr>"

definition zero_dev :: "yaffs_param \<Rightarrow> 'n yaffs_tags_handler \<Rightarrow> 'n yaffs_driver \<Rightarrow> 'n \<Rightarrow> 'n yaffs_dev" where
  "zero_dev p th dr n = \<lparr>param = p, tagger = th, drv = dr, nand = n, host_le = True,
     temp_fill = [], trace_mask = 0,
     data_bytes_per_chunk = 0, chunk_shift = 0, chunk_div = 0, chunk_mask = 0, chunk_grp_bits = 0, chunk_grp_size = 0, tnode_width = 0,
     tnode_mask = 0, tnode_size = 0, read_only = False, is_checkpointed = False, swap_endian = False,
     internal_start_block = 0, internal_end_block = 0, block_offset = 0, chunk_offset = 0,
     ck = zero_checkpt, checkpoint_blocks_required = 0, block_info = [], chunk_bits = [],
     chunk_bit_stride = 0, n_erased_blocks = 0, alloc_block = 0, alloc_page = 0,
     alloc_block_finder = 0, n_obj = 0, n_tnodes = 0, n_free_chunks = 0,
     has_pending_prioritised_gc = False, gc_block_finder = 0, gc_dirtiest = 0, gc_pages_in_use = 0,
     gc_not_done = 0, gc_block = 0, gc_chunk = 0, gc_disable = False,
     gc_skip = 0, n_clean_ups = 0, n_deleted_files = 0, n_unlinked_files = 0,
     n_bg_deletions = 0, dev_seq_number = 0, oldest_dirty_seq = 0,
     oldest_dirty_block = 0, refresh_skip = 0, chunks_per_summary = 0, sum_tags = None,
     gc_sum_tags = None, stats = zero_stats\<rparr>"

text \<open>A small configuration and a flash without contents, for the witnesses.\<close>

definition small_param :: yaffs_param where
  "small_param = \<lparr>inband_tags = False, total_bytes_per_chunk = 64, chunks_per_block = 4,
     spare_bytes_per_chunk = 32, start_block = 1, end_block = 4, n_reserved_blocks = 1,
     n_caches = 0, cache_bypass_aligned = False, use_nand_ecc = True, no_tags_ecc = False,
     is_yaffs2 = True, refresh_period = 0, skip_checkpt_rd = True, skip_checkpt_wr = True,
     stored_endian = 0, always_check_erased = False, disable_bad_block_marking = False,
     wide_tnodes_disabled = False\<rparr>"

definition blank_tagger :: "unit yaffs_tags_handler" where
  "blank_tagger = \<lparr>write_chunk_tags_fn = (\<lambda>n c d t. (YAFFS_OK, n)),
     read_chunk_tags_fn = (\<lambda>n c w. (YAFFS_OK, replicate 64 0xff, zero_tags\<lparr>ecc_result := YAFFS_ECC_RESULT_NO_ERROR\<rparr>, n)),
     query_block_fn = (\<lambda>n b. (YAFFS_OK, YAFFS_BLOCK_STATE_EMPTY, 0, n)),
     mark_bad_fn = (\<lambda>n b. (YAFFS_OK, n))\<rparr>"

definition blank_driver :: "unit yaffs_driver" where
  "blank_driver = \<lparr>drv_write_chunk_fn = (\<lambda>n c d dl b bl. (YAFFS_OK, n)),
     drv_read_chunk_fn = (\<lambda>n c wd dl wb bl. (YAFFS_OK, replicate 64 0xff, replicate 32 0xff, YAFFS_ECC_RESULT_NO_ERROR, n)),
     drv_check_bad_fn = (\<lambda>n b. (YAFFS_OK, n)), drv_erase_fn = (\<lambda>n b. (YAFFS_OK, n)), drv_mark_bad_fn = (\<lambda>n b. (YAFFS_OK, n))\<rparr>"

definition small_dev :: "unit yaffs_dev" where
  "small_dev = (zero_dev small_param blank_tagger blank_driver ())\<lparr>data_bytes_per_chunk := 64,
     internal_start_block := 1, internal_end_block := 4, chunk_bit_stride := 1,
     block_info := replicate 4 (zero_block_info\<lparr>block_state := YAFFS_BLOCK_STATE_EMPTY\<rparr>),
     chunk_bits := replicate 4 0, n_erased_blocks := 4, alloc_block := -1, n_free_chunks := 16,
     dev_seq_number := YAFFS_LOWEST_SEQUENCE_NUMBER\<rparr>"

end
