(* ===== verification/Yaffs_PackedTags2.thy ===== *)
theory Yaffs_PackedTags2
  imports Yaffs_Codec Yaffs_Dev
begin

text \<open>
  The yaffs2 packed tags (\<open>yaffs_packedtags2.c\<close>): the sixteen bytes in the spare area that say
  which chunk of which object a page holds, with the extra information of object headers
  folded into spare bits, and the code that protects them. \<open>le\<close> is the byte order of the
  processor. Functions that write through a pointer return the structure; \<open>yaffs_unpack_tags2\<close>
  also returns the packed structure, which it may repair in place.

  The lemmas give the round trip in every case of the packing, and show that a stored tag with
  one flipped bit still unpacks to the tag that was written.
\<close>

unbundle bit_operations_syntax

abbreviation EXTRA_HEADER_INFO_FLAG :: u32 where "EXTRA_HEADER_INFO_FLAG \<equiv> 0x80000000"
abbreviation EXTRA_SHRINK_FLAG :: u32 where "EXTRA_SHRINK_FLAG \<equiv> 0x40000000"
abbreviation EXTRA_SHADOWS_FLAG :: u32 where "EXTRA_SHADOWS_FLAG \<equiv> 0x20000000"
abbreviation ALL_EXTRA_FLAGS :: u32 where "ALL_EXTRA_FLAGS \<equiv> 0xf0000000"
abbreviation EXTRA_OBJECT_TYPE_MASK :: u32 where "EXTRA_OBJECT_TYPE_MASK \<equiv> 0xf0000000"

record yaffs_packed_tags2_tags_only =
  pt_seq_number :: u32
  pt_obj_id :: u32
  pt_chunk_id :: u32
  pt_n_bytes :: u32

record yaffs_packed_tags2 =
  pt_t :: yaffs_packed_tags2_tags_only
  pt_ecc :: yaffs_ecc_other

definition yaffs_do_endian_packed_tags2 ::
  "('n, 'x) yaffs_dev_scheme \<Rightarrow> yaffs_packed_tags2_tags_only \<Rightarrow> yaffs_packed_tags2_tags_only" where
  "yaffs_do_endian_packed_tags2 dev ptt =
     (if \<not> swap_endian dev then ptt
      else \<lparr>pt_seq_number = swap_u32 (pt_seq_number ptt), pt_obj_id = swap_u32 (pt_obj_id ptt),
            pt_chunk_id = swap_u32 (pt_chunk_id ptt), pt_n_bytes = swap_u32 (pt_n_bytes ptt)\<rparr>)"

definition yaffs_check_tags_extra_packable :: "yaffs_ext_tags \<Rightarrow> bool" where
  "yaffs_check_tags_extra_packable t =
     (if chunk_id t \<noteq> 0 \<or> extra_available t = 0 then False
      else if extra_obj_type t = YAFFS_OBJECT_TYPE_FILE \<and> drop_bit 31 (extra_file_size t) \<noteq> 0 then False
      else True)"

definition yaffs_pack_tags2_tags_only ::
  "('n, 'x) yaffs_dev_scheme \<Rightarrow> yaffs_ext_tags \<Rightarrow> yaffs_packed_tags2_tags_only" where
  "yaffs_pack_tags2_tags_only dev t =
     (let ptt = \<lparr>pt_seq_number = seq_number t, pt_obj_id = obj_id t,
                 pt_chunk_id = chunk_id t, pt_n_bytes = n_bytes t\<rparr>;
          ptt = (if yaffs_check_tags_extra_packable t then
                   (let c = EXTRA_HEADER_INFO_FLAG OR extra_parent_id t;
                        c = (if extra_is_shrink t \<noteq> 0 then c OR EXTRA_SHRINK_FLAG else c);
                        c = (if extra_shadows t \<noteq> 0 then c OR EXTRA_SHADOWS_FLAG else c);
                        obj = pt_obj_id ptt AND NOT EXTRA_OBJECT_TYPE_MASK;
                        obj = obj OR push_bit 28 (extra_obj_type t)
                    in ptt\<lparr>pt_chunk_id := c, pt_obj_id := obj,
                           pt_n_bytes := (if extra_obj_type t = YAFFS_OBJECT_TYPE_HARDLINK
                                          then extra_equiv_id t
                                          else if extra_obj_type t = YAFFS_OBJECT_TYPE_FILE
                                          then ucast (extra_file_size t) else 0)\<rparr>)
                 else ptt)
      in yaffs_do_endian_packed_tags2 dev ptt)"

text \<open>The memory of the tags-only structure.\<close>

definition pt_bytes :: "bool \<Rightarrow> yaffs_packed_tags2_tags_only \<Rightarrow> u8 list" where
  "pt_bytes le p = bytes4 le (pt_seq_number p, pt_obj_id p, pt_chunk_id p, pt_n_bytes p)"

definition pt_of_bytes :: "bool \<Rightarrow> u8 list \<Rightarrow> yaffs_packed_tags2_tags_only" where
  "pt_of_bytes le bs = (case fields4 le bs of (s, obj, c, n) \<Rightarrow>
     \<lparr>pt_seq_number = s, pt_obj_id = obj, pt_chunk_id = c, pt_n_bytes = n\<rparr>)"

definition yaffs_pack_tags2 ::
  "bool \<Rightarrow> ('n, 'x) yaffs_dev_scheme \<Rightarrow> yaffs_packed_tags2 \<Rightarrow> yaffs_ext_tags \<Rightarrow> bool \<Rightarrow> yaffs_packed_tags2" where
  "yaffs_pack_tags2 le dev pt t tags_ecc =
     (let pt = pt\<lparr>pt_t := yaffs_pack_tags2_tags_only dev t\<rparr>
      in if tags_ecc then pt\<lparr>pt_ecc := yaffs_ecc_calc_other (pt_bytes le (pt_t pt)) 16\<rparr> else pt)"

definition yaffs_unpack_tags2_tags_only ::
  "('n, 'x) yaffs_dev_scheme \<Rightarrow> yaffs_packed_tags2_tags_only \<Rightarrow> yaffs_ext_tags" where
  "yaffs_unpack_tags2_tags_only dev ptt =
     (if pt_seq_number ptt = 0xffffffff then zero_tags
      else
       (let p = yaffs_do_endian_packed_tags2 dev ptt;
            t = zero_tags\<lparr>block_bad := 0, chunk_used := 1, obj_id := pt_obj_id p,
                  chunk_id := pt_chunk_id p, n_bytes := pt_n_bytes p, is_deleted := 0,
                  serial_number := 0, seq_number := pt_seq_number p\<rparr>
        in if pt_chunk_id p AND EXTRA_HEADER_INFO_FLAG \<noteq> 0 then
             (let ty = drop_bit 28 (pt_obj_id p);
                  t = t\<lparr>chunk_id := 0, n_bytes := 0, extra_available := 1,
                        extra_parent_id := pt_chunk_id p AND NOT ALL_EXTRA_FLAGS,
                        extra_is_shrink := (if pt_chunk_id p AND EXTRA_SHRINK_FLAG \<noteq> 0 then 1 else 0),
                        extra_shadows := (if pt_chunk_id p AND EXTRA_SHADOWS_FLAG \<noteq> 0 then 1 else 0),
                        extra_obj_type := ty,
                        obj_id := obj_id t AND NOT EXTRA_OBJECT_TYPE_MASK\<rparr>
              in if ty = YAFFS_OBJECT_TYPE_HARDLINK then t\<lparr>extra_equiv_id := pt_n_bytes p\<rparr>
                 else t\<lparr>extra_file_size := ucast (pt_n_bytes p)\<rparr>)
           else t))"

definition yaffs_unpack_tags2 ::
  "bool \<Rightarrow> ('n, 'x) yaffs_dev_scheme \<Rightarrow> yaffs_packed_tags2 \<Rightarrow> bool \<Rightarrow> yaffs_ext_tags \<times> yaffs_packed_tags2" where
  "yaffs_unpack_tags2 le dev pt tags_ecc =
     (let (res, pt) =
        (if pt_seq_number (pt_t pt) \<noteq> 0xffffffff \<and> tags_ecc then
           (let ecc = yaffs_ecc_calc_other (pt_bytes le (pt_t pt)) 16;
                (result, bs, read_ecc) = yaffs_ecc_correct_other (pt_bytes le (pt_t pt)) 16 (pt_ecc pt) ecc
            in (if result = 0 then YAFFS_ECC_RESULT_NO_ERROR
                else if result = 1 then YAFFS_ECC_RESULT_FIXED
                else if result = -1 then YAFFS_ECC_RESULT_UNFIXED
                else YAFFS_ECC_RESULT_UNKNOWN,
                pt\<lparr>pt_t := pt_of_bytes le bs, pt_ecc := read_ecc\<rparr>))
         else (YAFFS_ECC_RESULT_NO_ERROR, pt))
      in ((yaffs_unpack_tags2_tags_only dev (pt_t pt))\<lparr>ecc_result := res\<rparr>, pt))"

section \<open>Round trip\<close>

interpretation ptc: exact_codec "pt_bytes le" "pt_of_bytes le" 16 for le
proof unfold_locales
  show "pt_of_bytes le (pt_bytes le x) = x" for x
    by (simp add: pt_of_bytes_def pt_bytes_def quad.dec_enc)
  show "length (pt_bytes le x) = 16" for x
    by (simp add: pt_bytes_def quad.length_enc)
  show "length bs = 16 \<Longrightarrow> pt_bytes le (pt_of_bytes le bs) = bs" for bs
    using quad.enc_dec [of bs le] by (cases "fields4 le bs") (simp add: pt_of_bytes_def pt_bytes_def)
qed

lemma do_endian_involution [simp]:
  "yaffs_do_endian_packed_tags2 dev (yaffs_do_endian_packed_tags2 dev p) = p"
  by (simp add: yaffs_do_endian_packed_tags2_def)

lemma swap_all_ones: "swap_u32 0xffffffff = 0xffffffff"
  by (simp add: swap_u32_def)

lemma do_endian_seq: "pt_seq_number (yaffs_do_endian_packed_tags2 dev p) = 0xffffffff \<longleftrightarrow> pt_seq_number p = 0xffffffff"
  by (simp add: yaffs_do_endian_packed_tags2_def) (metis swap_all_ones swap_u32_swap_u32)

text \<open>What the sixteen bytes of a tag can carry.\<close>

definition tags_fit :: "yaffs_ext_tags \<Rightarrow> bool" where
  "tags_fit t \<longleftrightarrow>
     seq_number t \<noteq> 0xffffffff \<and>
     (if yaffs_check_tags_extra_packable t
      then obj_id t < 0x10000000 \<and> extra_parent_id t < 0x10000000 \<and> extra_obj_type t < 16
      else chunk_id t < 0x80000000)"

text \<open>The tags a reader gets back: the fields that are stored, the others zero.\<close>

definition stored_tags :: "yaffs_ext_tags \<Rightarrow> yaffs_ext_tags" where
  "stored_tags t =
     (let u = zero_tags\<lparr>chunk_used := 1, obj_id := obj_id t, seq_number := seq_number t\<rparr>
      in if yaffs_check_tags_extra_packable t
         then u\<lparr>extra_available := 1, extra_parent_id := extra_parent_id t,
                extra_is_shrink := (if extra_is_shrink t \<noteq> 0 then 1 else 0),
                extra_shadows := (if extra_shadows t \<noteq> 0 then 1 else 0),
                extra_obj_type := extra_obj_type t,
                extra_equiv_id := (if extra_obj_type t = YAFFS_OBJECT_TYPE_HARDLINK then extra_equiv_id t else 0),
                extra_file_size := (if extra_obj_type t = YAFFS_OBJECT_TYPE_FILE then extra_file_size t else 0)\<rparr>
         else u\<lparr>chunk_id := chunk_id t, n_bytes := n_bytes t\<rparr>)"

lemma bit_less_power:
  assumes "(w :: u32) < 2 ^ k" and "k \<le> n" shows "\<not> bit w n"
proof -
  have "bit (w AND mask k) n = bit w n" using less_mask_eq [OF assms(1)] by simp
  then show ?thesis using assms(2) by (simp add: bit_and_iff bit_mask_iff)
qed

lemma flag_bits:
  "w AND EXTRA_HEADER_INFO_FLAG \<noteq> 0 \<longleftrightarrow> bit (w :: u32) 31"
  "w AND EXTRA_SHRINK_FLAG \<noteq> 0 \<longleftrightarrow> bit w 30"
  "w AND EXTRA_SHADOWS_FLAG \<noteq> 0 \<longleftrightarrow> bit w 29"
  using bit_iff_and_push_bit_not_eq_0 [of w 31] bit_iff_and_push_bit_not_eq_0 [of w 30]
    bit_iff_and_push_bit_not_eq_0 [of w 29] by simp_all

lemma bit_flag_masks:
  "bit (0x80000000 :: u32) n \<longleftrightarrow> n = 31" "bit (0x40000000 :: u32) n \<longleftrightarrow> n = 30"
  "bit (0x20000000 :: u32) n \<longleftrightarrow> n = 29" "bit (0xf0000000 :: u32) n \<longleftrightarrow> 28 \<le> n \<and> n < 32"
proof -
  have *: "(0x80000000 :: u32) = 2 ^ 31" "(0x40000000 :: u32) = 2 ^ 30" "(0x20000000 :: u32) = 2 ^ 29"
    "(0xf0000000 :: u32) = push_bit 28 (mask 4)"
    by (simp_all add: mask_eq_exp_minus_1 push_bit_eq_mult)
  show "bit (0x80000000 :: u32) n \<longleftrightarrow> n = 31" "bit (0x40000000 :: u32) n \<longleftrightarrow> n = 30"
    "bit (0x20000000 :: u32) n \<longleftrightarrow> n = 29" "bit (0xf0000000 :: u32) n \<longleftrightarrow> 28 \<le> n \<and> n < 32"
    unfolding * bit_exp_iff bit_push_bit_iff bit_mask_iff by auto
qed

text \<open>The parent identifier with its flags, and the object identifier with its type, come apart.\<close>

definition header_chunk_id :: "u32 \<Rightarrow> bool \<Rightarrow> bool \<Rightarrow> u32" where
  "header_chunk_id parent shrink shadows =
     (let c = EXTRA_HEADER_INFO_FLAG OR parent;
          c = (if shrink then c OR EXTRA_SHRINK_FLAG else c)
      in if shadows then c OR EXTRA_SHADOWS_FLAG else c)"

definition typed_obj_id :: "u32 \<Rightarrow> u32 \<Rightarrow> u32" where
  "typed_obj_id obj ty = (obj AND NOT EXTRA_OBJECT_TYPE_MASK) OR push_bit 28 ty"

lemma header_chunk_id:
  assumes "parent < 0x10000000"
  shows "bit (header_chunk_id parent a b) 31" "bit (header_chunk_id parent a b) 30 \<longleftrightarrow> a"
    "bit (header_chunk_id parent a b) 29 \<longleftrightarrow> b"
    "header_chunk_id parent a b AND NOT ALL_EXTRA_FLAGS = parent"
proof -
  have p: "\<not> bit parent n" if "28 \<le> n" for n
    using bit_less_power [of parent 28 n] assms that by simp
  have bits: "bit (header_chunk_id parent a b) n \<longleftrightarrow> n = 31 \<or> bit parent n \<or> a \<and> n = 30 \<or> b \<and> n = 29" for n
    unfolding header_chunk_id_def Let_def
    by (cases a; cases b; simp only: if_True if_False bit_or_iff bit_flag_masks) blast+
  show "bit (header_chunk_id parent a b) 31" "bit (header_chunk_id parent a b) 30 \<longleftrightarrow> a"
    "bit (header_chunk_id parent a b) 29 \<longleftrightarrow> b"
    using p by (simp_all add: bits)
  show "header_chunk_id parent a b AND NOT ALL_EXTRA_FLAGS = parent"
    by (rule bit_word_eqI) (use p in \<open>auto simp only: bit_and_iff bit_not_iff bits bit_flag_masks possible_bit_word\<close>)
qed

lemma typed_obj_id:
  assumes "obj < 0x10000000" and "ty < 16"
  shows "drop_bit 28 (typed_obj_id obj ty) = ty"
    and "typed_obj_id obj ty AND NOT EXTRA_OBJECT_TYPE_MASK = obj"
proof -
  have o: "\<not> bit obj n" if "28 \<le> n" for n
    using bit_less_power [of obj 28 n] assms that by simp
  have t: "n < 4" if "bit ty n" for n
    using bit_less_power [of ty 4 n] assms that by fastforce
  have bits: "bit (typed_obj_id obj ty) n \<longleftrightarrow>
      (if n < 28 then bit obj n else bit ty (n - 28) \<and> n < 32)" for n
    unfolding typed_obj_id_def bit_or_iff bit_and_iff bit_not_iff bit_flag_masks
    using o by (auto simp: bit_push_bit_iff not_less dest: bit_imp_le_length)
  show "drop_bit 28 (typed_obj_id obj ty) = ty"
    by (rule bit_word_eqI, simp only: bit_drop_bit_eq comp_def bits) (use t in auto)
  show "typed_obj_id obj ty AND NOT EXTRA_OBJECT_TYPE_MASK = obj"
  proof (rule bit_word_eqI)
    fix n assume n: "n < LENGTH(32)"
    show "bit (typed_obj_id obj ty AND NOT EXTRA_OBJECT_TYPE_MASK) n = bit obj n"
      unfolding bit_and_iff bit_not_iff bits bit_flag_masks using o n by (cases "n < 28") auto
  qed
qed

lemma pack_extra:
  assumes "yaffs_check_tags_extra_packable t"
  shows "yaffs_pack_tags2_tags_only dev t = yaffs_do_endian_packed_tags2 dev
    \<lparr>pt_seq_number = seq_number t,
     pt_obj_id = typed_obj_id (obj_id t) (extra_obj_type t),
     pt_chunk_id = header_chunk_id (extra_parent_id t) (extra_is_shrink t \<noteq> 0) (extra_shadows t \<noteq> 0),
     pt_n_bytes = (if extra_obj_type t = YAFFS_OBJECT_TYPE_HARDLINK then extra_equiv_id t
                   else if extra_obj_type t = YAFFS_OBJECT_TYPE_FILE then ucast (extra_file_size t) else 0)\<rparr>"
  unfolding yaffs_pack_tags2_tags_only_def header_chunk_id_def typed_obj_id_def Let_def if_P [OF assms]
  by (simp only: yaffs_packed_tags2_tags_only.simps)

lemma unpack_do_endian:
  "pt_seq_number p \<noteq> 0xffffffff \<Longrightarrow>
   yaffs_unpack_tags2_tags_only dev (yaffs_do_endian_packed_tags2 dev p) =
   yaffs_unpack_tags2_tags_only (dev\<lparr>swap_endian := False\<rparr>) p"
  by (simp add: yaffs_unpack_tags2_tags_only_def do_endian_seq)
    (simp add: yaffs_do_endian_packed_tags2_def)

lemma unpack_pack_tags_only:
  assumes "tags_fit t"
  shows "yaffs_unpack_tags2_tags_only dev (yaffs_pack_tags2_tags_only dev t) = stored_tags t"
proof (cases "yaffs_check_tags_extra_packable t")
  case True
  with assms have fit: "seq_number t \<noteq> 0xffffffff" "obj_id t < 0x10000000"
    "extra_parent_id t < 0x10000000" "extra_obj_type t < 16"
    by (simp_all add: tags_fit_def)
  note h = header_chunk_id [OF fit(3)] and o = typed_obj_id [OF fit(2,4)]
    and o_file = typed_obj_id [OF fit(2), of 1, simplified] and o_link = typed_obj_id [OF fit(2), of 4, simplified]
  show ?thesis
    unfolding pack_extra [OF True]
    by (simp add: unpack_do_endian fit(1))
      (simp add: yaffs_unpack_tags2_tags_only_def yaffs_do_endian_packed_tags2_def Let_def fit(1)
        flag_bits h [simplified] o [simplified] o_file o_link stored_tags_def True zero_tags_def)
next
  case False
  with assms have fit: "seq_number t \<noteq> 0xffffffff" "\<not> bit (chunk_id t) 31"
    using bit_less_power [of "chunk_id t" 31 31] by (simp_all add: tags_fit_def)
  have "yaffs_pack_tags2_tags_only dev t = yaffs_do_endian_packed_tags2 dev
      \<lparr>pt_seq_number = seq_number t, pt_obj_id = obj_id t, pt_chunk_id = chunk_id t, pt_n_bytes = n_bytes t\<rparr>"
    using False by (simp add: yaffs_pack_tags2_tags_only_def)
  then show ?thesis
    using False fit flag_bits(1) [of "chunk_id t"]
    by (simp add: unpack_do_endian)
      (simp add: yaffs_unpack_tags2_tags_only_def yaffs_do_endian_packed_tags2_def Let_def
        stored_tags_def zero_tags_def)
qed

text \<open>C17: packing extended tags and unpacking them again gives back everything the format stores
  (identifier, chunk, byte count, sequence number, and for object headers the parent, flags,
  type, size or link target), in either byte order and with or without the tag code, for every
  tag whose fields fit the format.\<close>

theorem unpack_pack_tags2:
  assumes "tags_fit t"
  shows "yaffs_unpack_tags2 le dev (yaffs_pack_tags2 le dev pt t ecc) ecc =
    ((stored_tags t)\<lparr>ecc_result := YAFFS_ECC_RESULT_NO_ERROR\<rparr>, yaffs_pack_tags2 le dev pt t ecc)"
  using assms ptc.intact [of le "yaffs_pack_tags2_tags_only dev t"]
  by (simp add: yaffs_unpack_tags2_def yaffs_pack_tags2_def unpack_pack_tags_only ptc.dec_enc Let_def)

text \<open>C16: when one bit of the sixteen stored tag bytes flips (and the flip does not forge the
  all-ones sequence number of an erased page), unpacking with the tag code still returns the tags
  that were written, reports them as fixed and repairs the packed structure.\<close>

theorem unpack_tags2_repairs_bit:
  assumes "tags_fit t" and "k < 16" and "b < 8"
    and pt': "pt' = yaffs_pack_tags2 le dev pt t True"
    and "pt_seq_number (pt_of_bytes le (flip_bit_at (pt_bytes le (pt_t pt')) k b)) \<noteq> 0xffffffff"
  shows "yaffs_unpack_tags2 le dev (pt'\<lparr>pt_t := pt_of_bytes le (flip_bit_at (pt_bytes le (pt_t pt')) k b)\<rparr>) True
    = ((stored_tags t)\<lparr>ecc_result := YAFFS_ECC_RESULT_FIXED\<rparr>, pt')"
proof -
  let ?p = "yaffs_pack_tags2_tags_only dev t"
  have "pt_bytes le (pt_of_bytes le (flip_bit_at (pt_bytes le ?p) k b)) = flip_bit_at (pt_bytes le ?p) k b"
    by (rule ptc.enc_dec) (simp add: ptc.length_enc)
  then show ?thesis
    using assms ecc_correct_other_single [of k 16 "pt_bytes le ?p" b] unfolding pt'
    by (simp add: yaffs_unpack_tags2_def yaffs_pack_tags2_def unpack_pack_tags_only ptc.dec_enc
        ptc.length_enc Let_def)
qed

definition example_dev_tags :: yaffs_ext_tags where
  "example_dev_tags = zero_tags\<lparr>obj_id := 257, seq_number := 0x1001, extra_available := 1,
     extra_parent_id := 1, extra_shadows := 1, extra_obj_type := YAFFS_OBJECT_TYPE_FILE, extra_file_size := 5000\<rparr>"

lemma example_tags_fit: "tags_fit example_dev_tags"
  by (simp add: example_dev_tags_def zero_tags_def tags_fit_def yaffs_check_tags_extra_packable_def)

definition example_packed_tags :: yaffs_packed_tags2 where
  "example_packed_tags = yaffs_pack_tags2 True small_dev
     \<lparr>pt_t = \<lparr>pt_seq_number = 0, pt_obj_id = 0, pt_chunk_id = 0, pt_n_bytes = 0\<rparr>,
      pt_ecc = \<lparr>col_parity = 0, line_parity = 0, line_parity_prime = 0\<rparr>\<rparr> example_dev_tags True"

lemma unpack_pack_tags2_witness:
  "fst (yaffs_unpack_tags2 True small_dev example_packed_tags True)
   = (stored_tags example_dev_tags)\<lparr>ecc_result := YAFFS_ECC_RESULT_NO_ERROR\<rparr>"
  unfolding example_packed_tags_def by (simp add: unpack_pack_tags2 [OF example_tags_fit])

lemma unpack_tags2_repairs_bit_witness:
  "yaffs_unpack_tags2 True small_dev (example_packed_tags\<lparr>pt_t :=
      pt_of_bytes True (flip_bit_at (pt_bytes True (pt_t example_packed_tags)) 9 6)\<rparr>) True
   = ((stored_tags example_dev_tags)\<lparr>ecc_result := YAFFS_ECC_RESULT_FIXED\<rparr>, example_packed_tags)"
  by (rule unpack_tags2_repairs_bit [OF example_tags_fit _ _ example_packed_tags_def]) (simp, simp, code_simp)

end
