(* ===== verification/Yaffs_Bitmap.thy ===== *)
theory Yaffs_Bitmap
  imports Yaffs_Hweight Yaffs_Dev
begin

text \<open>
  The chunk bitmap (\<open>yaffs_bitmap.c\<close>): one bit per chunk, packed eight to a byte, each block on
  its own stride of bytes in the flat array \<open>chunk_bits\<close>. An access outside the device is
  \<open>BUG()\<close> in the code; \<open>valid_chunk\<close> is the check of \<open>yaffs_verify_chunk_bit_id\<close>, and the laws
  below are stated for valid positions.

  The locale \<open>chunk_bitmap\<close> is what the rest of the file system relies on: a test reflects the
  last set or clear of that chunk, the operations touch no other chunk, and the counting
  operations agree with the test. Its lemmas give the effect of each update on the counts.
\<close>

unbundle bit_operations_syntax

section \<open>The operations\<close>

definition yaffs_block_bits :: "('n, 'x) yaffs_dev_scheme \<Rightarrow> int \<Rightarrow> nat" where
  "yaffs_block_bits dev blk = chunk_bit_stride dev * nat (blk - internal_start_block dev)"

definition valid_chunk :: "('n, 'x) yaffs_dev_scheme \<Rightarrow> int \<Rightarrow> int \<Rightarrow> bool" where
  "valid_chunk dev blk chunk \<longleftrightarrow>
     \<not> (blk < internal_start_block dev \<or> blk > internal_end_block dev \<or> chunk < 0 \<or> chunk \<ge> cpb dev)"

definition yaffs_clear_chunk_bits :: "('n, 'x) yaffs_dev_scheme \<Rightarrow> int \<Rightarrow> ('n, 'x) yaffs_dev_scheme" where
  "yaffs_clear_chunk_bits dev blk =
     (let off = yaffs_block_bits dev blk; bits = chunk_bits dev
      in dev\<lparr>chunk_bits := take off bits @ replicate (chunk_bit_stride dev) 0
                             @ drop (off + chunk_bit_stride dev) bits\<rparr>)"

definition yaffs_clear_chunk_bit ::
  "('n, 'x) yaffs_dev_scheme \<Rightarrow> int \<Rightarrow> int \<Rightarrow> ('n, 'x) yaffs_dev_scheme" where
  "yaffs_clear_chunk_bit dev blk chunk =
     (let i = yaffs_block_bits dev blk + nat (chunk div 8)
      in dev\<lparr>chunk_bits := (chunk_bits dev)[i := chunk_bits dev ! i AND NOT (push_bit (nat (chunk mod 8)) 1)]\<rparr>)"

definition yaffs_set_chunk_bit ::
  "('n, 'x) yaffs_dev_scheme \<Rightarrow> int \<Rightarrow> int \<Rightarrow> ('n, 'x) yaffs_dev_scheme" where
  "yaffs_set_chunk_bit dev blk chunk =
     (let i = yaffs_block_bits dev blk + nat (chunk div 8)
      in dev\<lparr>chunk_bits := (chunk_bits dev)[i := chunk_bits dev ! i OR push_bit (nat (chunk mod 8)) 1]\<rparr>)"

definition yaffs_check_chunk_bit :: "('n, 'x) yaffs_dev_scheme \<Rightarrow> int \<Rightarrow> int \<Rightarrow> bool" where
  "yaffs_check_chunk_bit dev blk chunk =
     (let i = yaffs_block_bits dev blk + nat (chunk div 8)
      in chunk_bits dev ! i AND push_bit (nat (chunk mod 8)) 1 \<noteq> 0)"

text \<open>The bytes the two loops below run over.\<close>

definition block_bytes :: "('n, 'x) yaffs_dev_scheme \<Rightarrow> int \<Rightarrow> u8 list" where
  "block_bytes dev blk = take (chunk_bit_stride dev) (drop (yaffs_block_bits dev blk) (chunk_bits dev))"

definition yaffs_still_some_chunks :: "('n, 'x) yaffs_dev_scheme \<Rightarrow> int \<Rightarrow> bool" where
  "yaffs_still_some_chunks dev blk = list_ex (\<lambda>b. b \<noteq> 0) (block_bytes dev blk)"

definition yaffs_count_chunk_bits :: "('n, 'x) yaffs_dev_scheme \<Rightarrow> int \<Rightarrow> int" where
  "yaffs_count_chunk_bits dev blk = fold (\<lambda>b n. n + int (yaffs_hweight8 b)) (block_bytes dev blk) 0"

section \<open>The interface\<close>

locale chunk_bitmap =
  fixes ok :: "'d \<Rightarrow> bool" and valid :: "'d \<Rightarrow> int \<Rightarrow> int \<Rightarrow> bool"
    and test :: "'d \<Rightarrow> int \<Rightarrow> int \<Rightarrow> bool"
    and set_one :: "'d \<Rightarrow> int \<Rightarrow> int \<Rightarrow> 'd" and clear_one :: "'d \<Rightarrow> int \<Rightarrow> int \<Rightarrow> 'd"
    and clear_block :: "'d \<Rightarrow> int \<Rightarrow> 'd"
    and count :: "'d \<Rightarrow> int \<Rightarrow> int" and some_set :: "'d \<Rightarrow> int \<Rightarrow> bool"
  assumes finite_valid: "finite {c. valid d b c}"
    and ok_set: "ok d \<Longrightarrow> valid d b c \<Longrightarrow> ok (set_one d b c)"
    and ok_clear: "ok d \<Longrightarrow> valid d b c \<Longrightarrow> ok (clear_one d b c)"
    and ok_clear_block: "ok d \<Longrightarrow> valid d b c \<Longrightarrow> ok (clear_block d b)"
    and valid_set: "valid (set_one d b c) = valid d"
    and valid_clear: "valid (clear_one d b c) = valid d"
    and valid_clear_block: "valid (clear_block d b) = valid d"
    and test_set: "\<lbrakk>ok d; valid d b c; valid d b' c'\<rbrakk> \<Longrightarrow>
      test (set_one d b c) b' c' \<longleftrightarrow> b = b' \<and> c = c' \<or> test d b' c'"
    and test_clear: "\<lbrakk>ok d; valid d b c; valid d b' c'\<rbrakk> \<Longrightarrow>
      test (clear_one d b c) b' c' \<longleftrightarrow> \<not> (b = b' \<and> c = c') \<and> test d b' c'"
    and test_clear_block: "\<lbrakk>ok d; valid d b c; valid d b' c'\<rbrakk> \<Longrightarrow>
      test (clear_block d b) b' c' \<longleftrightarrow> b \<noteq> b' \<and> test d b' c'"
    and count_test: "\<lbrakk>ok d; valid d b c\<rbrakk> \<Longrightarrow> count d b = int (card {c. valid d b c \<and> test d b c})"
    and some_test: "\<lbrakk>ok d; valid d b c\<rbrakk> \<Longrightarrow> some_set d b \<longleftrightarrow> (\<exists>c. valid d b c \<and> test d b c)"
begin

lemma finite_set_chunks: "finite {c. valid d b c \<and> test d b c}"
  by (rule finite_subset [OF _ finite_valid]) auto

lemma count_set_one:
  assumes "ok d" "valid d b c" "valid d b' c'"
  shows "count (set_one d b c) b' = count d b' + (if b = b' \<and> \<not> test d b c then 1 else 0)"
proof -
  have "{x. valid d b' x \<and> test (set_one d b c) b' x} =
      (if b = b' then insert c {x. valid d b' x \<and> test d b' x} else {x. valid d b' x \<and> test d b' x})"
    using assms test_set [OF assms(1,2)] by auto
  then show ?thesis
    using assms count_test [OF assms(1,3)] count_test [OF ok_set [OF assms(1,2)], of b' c']
      card_insert_if [OF finite_set_chunks [where d = d and b = b], of c]
    by (auto simp: valid_set)
qed

lemma count_clear_one:
  assumes "ok d" "valid d b c" "valid d b' c'"
  shows "count (clear_one d b c) b' = count d b' - (if b = b' \<and> test d b c then 1 else 0)"
proof -
  have "{x. valid d b' x \<and> test (clear_one d b c) b' x} =
      (if b = b' then {x. valid d b' x \<and> test d b' x} - {c} else {x. valid d b' x \<and> test d b' x})"
    using assms test_clear [OF assms(1,2)] by auto
  moreover have "0 < card {x. valid d b x \<and> test d b x}" if "test d b c"
    using that assms finite_set_chunks [where d = d and b = b] by (auto simp: card_gt_0_iff)
  ultimately show ?thesis
    using assms count_test [OF assms(1,3)] count_test [OF ok_clear [OF assms(1,2)], of b' c']
    by (auto simp: valid_clear card_Diff_singleton_if)
qed

lemma count_clear_block:
  assumes "ok d" "valid d b c" "valid d b' c'"
  shows "count (clear_block d b) b' = (if b = b' then 0 else count d b')"
proof -
  have "{x. valid d b' x \<and> test (clear_block d b) b' x} =
      (if b = b' then {} else {x. valid d b' x \<and> test d b' x})"
    using assms test_clear_block [OF assms(1,2)] by auto
  then show ?thesis
    using assms count_test [OF assms(1,3)] count_test [OF ok_clear_block [OF assms(1,2)], of b' c']
    by (auto simp: valid_clear_block)
qed

lemma some_set_count: "ok d \<Longrightarrow> valid d b c \<Longrightarrow> some_set d b \<longleftrightarrow> 0 < count d b"
  using finite_set_chunks [where d = d and b = b] by (auto simp: some_test count_test card_gt_0_iff)

lemma count_bounds: "ok d \<Longrightarrow> valid d b c \<Longrightarrow> 0 \<le> count d b \<and> count d b \<le> int (card {c. valid d b c})"
  using card_mono [OF finite_valid [where d = d and b = b], of "{c. valid d b c \<and> test d b c}"] by (auto simp: count_test)

end

section \<open>The flat array keeps the contract\<close>

text \<open>The spare bits behind the last chunk of a block stay clear.\<close>

definition bitmap_ok :: "('n, 'x) yaffs_dev_scheme \<Rightarrow> bool" where
  "bitmap_ok dev \<longleftrightarrow> geometry_ok dev \<and>
     (\<forall>b. valid_block dev b \<longrightarrow>
        (\<forall>c. nat (cpb dev) \<le> c \<and> c < 8 * chunk_bit_stride dev \<longrightarrow>
           \<not> bit (block_bytes dev b ! (c div 8)) (c mod 8)))"

lemma stride_pos_eq:
  assumes "k < (s :: nat)" "l < s"
  shows "s * i + k = s * j + l \<longleftrightarrow> i = j \<and> k = l"
proof
  assume eq: "s * i + k = s * j + l"
  have "(s * i + k) div s = i" "(s * j + l) div s = j" using assms by simp_all
  with eq show "i = j \<and> k = l" by simp
qed simp

lemma chunk_byte_less:
  assumes "geometry_ok dev" "valid_chunk dev blk chunk"
  shows "nat (chunk div 8) < chunk_bit_stride dev"
  using assms unfolding geometry_ok_def valid_chunk_def by linarith

lemma block_bits_less:
  assumes "geometry_ok dev" "valid_block dev blk" "k < chunk_bit_stride dev"
  shows "yaffs_block_bits dev blk + k < length (chunk_bits dev)"
proof -
  have "nat (blk - internal_start_block dev) < length (block_info dev)"
    using assms by (auto simp: geometry_ok_def valid_block_def)
  then have "chunk_bit_stride dev * Suc (nat (blk - internal_start_block dev))
      \<le> chunk_bit_stride dev * length (block_info dev)"
    by (intro mult_le_mono2) simp
  then show ?thesis
    using assms by (simp add: geometry_ok_def yaffs_block_bits_def)
qed

lemma nth_block_bytes:
  assumes "geometry_ok dev" "valid_block dev blk" "k < chunk_bit_stride dev"
  shows "block_bytes dev blk ! k = chunk_bits dev ! (yaffs_block_bits dev blk + k)"
  using block_bits_less [OF assms] assms by (simp add: block_bytes_def)

lemma length_block_bytes:
  assumes "geometry_ok dev" "valid_block dev blk"
  shows "length (block_bytes dev blk) = chunk_bit_stride dev"
proof -
  have "0 < chunk_bit_stride dev" using assms(1) unfolding geometry_ok_def by linarith
  then show ?thesis
    using block_bits_less [OF assms, of "chunk_bit_stride dev - 1"]
    by (simp add: block_bytes_def)
qed

lemma test_bit_mask: "(w :: u8) AND push_bit n 1 \<noteq> 0 \<longleftrightarrow> bit w n"
  by (simp add: bit_iff_and_push_bit_not_eq_0)

lemma check_chunk_bit_bytes:
  assumes "geometry_ok dev" "valid_chunk dev blk chunk"
  shows "yaffs_check_chunk_bit dev blk chunk \<longleftrightarrow> bit (block_bytes dev blk ! (nat chunk div 8)) (nat chunk mod 8)"
proof -
  have v: "valid_block dev blk" "0 \<le> chunk" using assms(2) by (auto simp: valid_chunk_def valid_block_def)
  then have "nat (chunk div 8) = nat chunk div 8" "nat (chunk mod 8) = nat chunk mod 8"
    by (simp_all add: nat_div_distrib nat_mod_distrib)
  then show ?thesis
    using nth_block_bytes [OF assms(1) v(1)] chunk_byte_less [OF assms]
    by (simp only: yaffs_check_chunk_bit_def Let_def test_bit_mask)
qed

lemma block_bytes_cong:
  assumes "chunk_bits d = chunk_bits d'" "chunk_bit_stride d = chunk_bit_stride d'"
    "internal_start_block d = internal_start_block d'"
  shows "block_bytes d = block_bytes d'"
  using assms by (simp add: block_bytes_def yaffs_block_bits_def fun_eq_iff)

lemma block_bytes_update:
  assumes "geometry_ok dev" "valid_block dev blk" "valid_block dev blk'" "k < chunk_bit_stride dev"
  shows "block_bytes (dev\<lparr>chunk_bits := (chunk_bits dev)[yaffs_block_bits dev blk + k := v]\<rparr>) blk' =
    (if blk = blk' then (block_bytes dev blk)[k := v] else block_bytes dev blk')"
    (is "block_bytes ?d _ = _")
proof (rule nth_equalityI)
  have g: "geometry_ok ?d" "valid_block ?d blk'"
    using assms by (simp_all add: geometry_ok_def valid_block_def)
  note len = length_block_bytes [OF assms(1,2)] length_block_bytes [OF assms(1,3)] length_block_bytes [OF g]
  show "length (block_bytes ?d blk') = length (if blk = blk' then (block_bytes dev blk)[k := v] else block_bytes dev blk')"
    using len by auto
  fix i assume "i < length (block_bytes ?d blk')"
  then have i: "i < chunk_bit_stride dev" using len by simp
  have same: "yaffs_block_bits dev blk' + i = yaffs_block_bits dev blk + k \<longleftrightarrow> blk = blk' \<and> i = k"
    using stride_pos_eq [OF i assms(4)] assms(2,3)
    by (auto simp: yaffs_block_bits_def valid_block_def)
  have "block_bytes ?d blk' ! i = (chunk_bits dev)[yaffs_block_bits dev blk + k := v] ! (yaffs_block_bits dev blk' + i)"
    using nth_block_bytes [OF g, of i] i by (simp add: yaffs_block_bits_def)
  also have "\<dots> = (if blk = blk' \<and> i = k then v else block_bytes dev blk' ! i)"
    using block_bits_less [OF assms(1,3) i] nth_block_bytes [OF assms(1,3) i] same
    by (auto simp: nth_list_update)
  finally show "block_bytes ?d blk' ! i =
      (if blk = blk' then (block_bytes dev blk)[k := v] else block_bytes dev blk') ! i"
    using i len by (auto simp: nth_list_update)
qed

lemma block_bytes_cleared:
  assumes "geometry_ok dev" "valid_block dev blk" "valid_block dev blk'"
  shows "block_bytes (yaffs_clear_chunk_bits dev blk) blk' =
    (if blk = blk' then replicate (chunk_bit_stride dev) 0 else block_bytes dev blk')"
    (is "block_bytes ?d _ = _")
proof (rule nth_equalityI)
  let ?off = "yaffs_block_bits dev blk" and ?s = "chunk_bit_stride dev"
  have pos: "0 < ?s" using assms(1) unfolding geometry_ok_def by linarith
  have fits: "?off + ?s \<le> length (chunk_bits dev)"
    using block_bits_less [OF assms(1,2), of "?s - 1"] pos by simp
  have g: "geometry_ok ?d" "valid_block ?d blk'"
    using assms fits by (simp_all add: geometry_ok_def valid_block_def yaffs_clear_chunk_bits_def Let_def)
  have s: "chunk_bit_stride ?d = ?s" "yaffs_block_bits ?d = yaffs_block_bits dev"
    by (simp_all add: yaffs_clear_chunk_bits_def yaffs_block_bits_def Let_def fun_eq_iff)
  note len = length_block_bytes [OF assms(1,3)] length_block_bytes [OF g]
  show "length (block_bytes ?d blk') = length (if blk = blk' then replicate ?s 0 else block_bytes dev blk')"
    using len s by auto
  fix i assume "i < length (block_bytes ?d blk')"
  then have i: "i < ?s" using len s by simp
  let ?p = "yaffs_block_bits dev blk' + i"
  have hit: "?off \<le> ?p \<and> ?p < ?off + ?s \<longleftrightarrow> blk = blk'"
  proof
    assume "?off \<le> ?p \<and> ?p < ?off + ?s"
    then obtain k where "k < ?s" "?p = ?off + k" by (metis le_iff_add nat_add_left_cancel_less)
    then have "nat (blk' - internal_start_block dev) = nat (blk - internal_start_block dev)"
      using stride_pos_eq [OF i, of k] by (simp add: yaffs_block_bits_def)
    then show "blk = blk'" using assms(2,3) unfolding valid_block_def by linarith
  qed (use i in simp)
  have "block_bytes ?d blk' ! i = chunk_bits ?d ! ?p"
    using nth_block_bytes [OF g, of i] i s by simp
  also have "\<dots> = (if ?off \<le> ?p \<and> ?p < ?off + ?s then 0 else chunk_bits dev ! ?p)"
    using fits block_bits_less [OF assms(1,3) i]
    by (auto simp: yaffs_clear_chunk_bits_def Let_def nth_append min_def)
  finally show "block_bytes ?d blk' ! i = (if blk = blk' then replicate ?s 0 else block_bytes dev blk') ! i"
    using nth_block_bytes [OF assms(1,3) i] i hit by auto
qed

subsection \<open>Updates\<close>

lemma bitmap_frame [simp, dev_frame]:
  "block_info (yaffs_set_chunk_bit dev b c) = block_info dev"
  "block_info (yaffs_clear_chunk_bit dev b c) = block_info dev"
  "block_info (yaffs_clear_chunk_bits dev b) = block_info dev"
  "param (yaffs_set_chunk_bit dev b c) = param dev"
  "param (yaffs_clear_chunk_bit dev b c) = param dev"
  "param (yaffs_clear_chunk_bits dev b) = param dev"
  "internal_start_block (yaffs_set_chunk_bit dev b c) = internal_start_block dev"
  "internal_start_block (yaffs_clear_chunk_bit dev b c) = internal_start_block dev"
  "internal_start_block (yaffs_clear_chunk_bits dev b) = internal_start_block dev"
  "internal_end_block (yaffs_set_chunk_bit dev b c) = internal_end_block dev"
  "internal_end_block (yaffs_clear_chunk_bit dev b c) = internal_end_block dev"
  "internal_end_block (yaffs_clear_chunk_bits dev b) = internal_end_block dev"
  "chunk_bit_stride (yaffs_set_chunk_bit dev b c) = chunk_bit_stride dev"
  "chunk_bit_stride (yaffs_clear_chunk_bit dev b c) = chunk_bit_stride dev"
  "chunk_bit_stride (yaffs_clear_chunk_bits dev b) = chunk_bit_stride dev"
  by (simp_all add: yaffs_set_chunk_bit_def yaffs_clear_chunk_bit_def yaffs_clear_chunk_bits_def Let_def)

lemma valid_chunk_cong:
  "param d = param d' \<Longrightarrow> internal_start_block d = internal_start_block d' \<Longrightarrow>
   internal_end_block d = internal_end_block d' \<Longrightarrow> valid_chunk d = valid_chunk d'"
  by (simp add: valid_chunk_def fun_eq_iff)

lemma valid_block_frame [simp]:
  "valid_block (yaffs_set_chunk_bit dev b c) = valid_block dev"
  "valid_block (yaffs_clear_chunk_bit dev b c) = valid_block dev"
  "valid_block (yaffs_clear_chunk_bits dev b) = valid_block dev"
  by (simp_all add: valid_block_def fun_eq_iff)

lemma geometry_set_clear:
  assumes "geometry_ok dev"
  shows "geometry_ok (yaffs_set_chunk_bit dev b c)" "geometry_ok (yaffs_clear_chunk_bit dev b c)"
  using assms by (simp_all add: geometry_ok_def yaffs_set_chunk_bit_def yaffs_clear_chunk_bit_def Let_def)

lemma geometry_clear_block:
  assumes "geometry_ok dev" "valid_block dev b" shows "geometry_ok (yaffs_clear_chunk_bits dev b)"
proof -
  have "0 < chunk_bit_stride dev" using assms(1) unfolding geometry_ok_def by linarith
  then have "yaffs_block_bits dev b + chunk_bit_stride dev \<le> length (chunk_bits dev)"
    using block_bits_less [OF assms, of "chunk_bit_stride dev - 1"] by simp
  then show ?thesis
    using assms by (simp add: geometry_ok_def yaffs_clear_chunk_bits_def Let_def)
qed

text \<open>Set and clear update one bit of one byte of the block.\<close>

lemma bit_list_or:
  assumes "k < length xs" "m < 8" "n < 8"
  shows "bit ((xs :: u8 list)[k := xs ! k OR push_bit m 1] ! i) n \<longleftrightarrow> i = k \<and> n = m \<or> bit (xs ! i) n"
  using assms by (cases "i = k") (auto simp: bit_or_iff bit_exp_iff possible_bit_word)

lemma bit_list_and_not:
  assumes "k < length xs" "m < 8" "n < 8"
  shows "bit ((xs :: u8 list)[k := xs ! k AND NOT (push_bit m 1)] ! i) n \<longleftrightarrow> \<not> (i = k \<and> n = m) \<and> bit (xs ! i) n"
  using assms by (cases "i = k") (auto simp: bit_and_iff bit_not_iff bit_exp_iff possible_bit_word)

lemma chunk_position:
  assumes "0 \<le> c"
  shows "j = nat c \<longleftrightarrow> j div 8 = nat (c div 8) \<and> j mod 8 = nat (c mod 8)" "nat (c mod 8) < 8"
proof -
  have "nat (c div 8) = nat c div 8" "nat (c mod 8) = nat c mod 8"
    using assms by (simp_all add: nat_div_distrib nat_mod_distrib)
  then show "j = nat c \<longleftrightarrow> j div 8 = nat (c div 8) \<and> j mod 8 = nat (c mod 8)" "nat (c mod 8) < 8"
    by (metis div_mult_mod_eq, simp)
qed

lemma block_bytes_set:
  assumes "geometry_ok dev" "valid_chunk dev b c" "valid_block dev b'"
  shows "bit (block_bytes (yaffs_set_chunk_bit dev b c) b' ! (j div 8)) (j mod 8) \<longleftrightarrow>
    b = b' \<and> j = nat c \<or> bit (block_bytes dev b' ! (j div 8)) (j mod 8)"
proof -
  have v: "valid_block dev b" "0 \<le> c" using assms(2) by (auto simp: valid_chunk_def valid_block_def)
  have k: "nat (c div 8) < chunk_bit_stride dev" by (rule chunk_byte_less [OF assms(1,2)])
  show ?thesis
    unfolding yaffs_set_chunk_bit_def Let_def block_bytes_update [OF assms(1) v(1) assms(3) k]
      nth_block_bytes [OF assms(1) v(1) k, symmetric]
    using bit_list_or [of "nat (c div 8)" "block_bytes dev b" "nat (c mod 8)" "j mod 8" "j div 8"]
      k length_block_bytes [OF assms(1) v(1)] chunk_position(1) [OF v(2), of j] chunk_position(2) [OF v(2)]
    by (cases "b = b'") simp_all
qed

lemma block_bytes_clear:
  assumes "geometry_ok dev" "valid_chunk dev b c" "valid_block dev b'"
  shows "bit (block_bytes (yaffs_clear_chunk_bit dev b c) b' ! (j div 8)) (j mod 8) \<longleftrightarrow>
    \<not> (b = b' \<and> j = nat c) \<and> bit (block_bytes dev b' ! (j div 8)) (j mod 8)"
proof -
  have v: "valid_block dev b" "0 \<le> c" using assms(2) by (auto simp: valid_chunk_def valid_block_def)
  have k: "nat (c div 8) < chunk_bit_stride dev" by (rule chunk_byte_less [OF assms(1,2)])
  show ?thesis
    unfolding yaffs_clear_chunk_bit_def Let_def block_bytes_update [OF assms(1) v(1) assms(3) k]
      nth_block_bytes [OF assms(1) v(1) k, symmetric]
    using bit_list_and_not [of "nat (c div 8)" "block_bytes dev b" "nat (c mod 8)" "j mod 8" "j div 8"]
      k length_block_bytes [OF assms(1) v(1)] chunk_position(1) [OF v(2), of j] chunk_position(2) [OF v(2)]
    by (cases "b = b'") simp_all
qed

subsection \<open>Counting\<close>

lemma card_bits_bytes:
  "int (card {j. j < 8 * length bs \<and> bit ((bs :: u8 list) ! (j div 8)) (j mod 8)}) =
   fold (\<lambda>b n. n + int (yaffs_hweight8 b)) bs 0"
proof (induction bs rule: rev_induct)
  case (snoc x xs)
  let ?P = "\<lambda>bs j. bit (bs ! (j div 8)) (j mod 8)"
  have "{j. j < 8 * length (xs @ [x]) \<and> ?P (xs @ [x]) j} =
      {j. j < 8 * length xs \<and> ?P xs j} \<union> (+) (8 * length xs) ` {i. i < 8 \<and> bit x i}" (is "?l = ?a \<union> ?b")
  proof (intro set_eqI iffI)
    fix j assume j: "j \<in> ?l"
    show "j \<in> ?a \<union> ?b"
    proof (cases "j < 8 * length xs")
      case True
      then have "j div 8 < length xs" by simp
      then show ?thesis using j True by (simp add: nth_append)
    next
      case False
      then obtain i where i: "j = 8 * length xs + i" by (metis le_iff_add not_less)
      with j have "i < 8" by simp
      then show ?thesis using j i by (simp add: nth_append)
    qed
  next
    fix j assume "j \<in> ?a \<union> ?b"
    then show "j \<in> ?l"
    proof
      assume "j \<in> ?a"
      then have "j div 8 < length xs" by auto
      then show ?thesis using \<open>j \<in> ?a\<close> by (simp add: nth_append)
    next
      assume "j \<in> ?b" then show ?thesis by (auto simp: nth_append)
    qed
  qed
  moreover have "card (?a \<union> ?b) = card ?a + card ?b"
    by (rule card_Un_disjoint) auto
  moreover have "card ?b = yaffs_hweight8 x"
  proof -
    have "{i. i < 8 \<and> bit x i} = set (filter (bit x) [0..<8])" by auto
    then show ?thesis
      by (simp only: card_image inj_on_add distinct_card distinct_filter distinct_upt hweight8_bits bits_set_def)
  qed
  ultimately show ?case using snoc.IH by simp
qed simp

lemma chunks_as_bits:
  assumes "bitmap_ok dev" "valid_block dev blk"
  shows "{c. valid_chunk dev blk c \<and> yaffs_check_chunk_bit dev blk c} =
    int ` {j. j < 8 * length (block_bytes dev blk) \<and> bit (block_bytes dev blk ! (j div 8)) (j mod 8)}"
proof (intro set_eqI iffI)
  have g: "geometry_ok dev" using assms(1) by (simp add: bitmap_ok_def)
  have len: "length (block_bytes dev blk) = chunk_bit_stride dev" by (rule length_block_bytes [OF g assms(2)])
  have stride: "cpb dev \<le> 8 * int (chunk_bit_stride dev)" using g unfolding geometry_ok_def by linarith
  fix c
  {
    assume "c \<in> {c. valid_chunk dev blk c \<and> yaffs_check_chunk_bit dev blk c}"
    then have c: "valid_chunk dev blk c" "0 \<le> c" "c < cpb dev"
      "bit (block_bytes dev blk ! (nat c div 8)) (nat c mod 8)"
      using check_chunk_bit_bytes [OF g, of blk c] by (auto simp: valid_chunk_def)
    then show "c \<in> int ` {j. j < 8 * length (block_bytes dev blk) \<and> bit (block_bytes dev blk ! (j div 8)) (j mod 8)}"
      using stride len by (intro image_eqI [where x = "nat c"]) auto
  }
  assume "c \<in> int ` {j. j < 8 * length (block_bytes dev blk) \<and> bit (block_bytes dev blk ! (j div 8)) (j mod 8)}"
  then obtain j where j: "c = int j" "j < 8 * chunk_bit_stride dev" "bit (block_bytes dev blk ! (j div 8)) (j mod 8)"
    using len by auto
  have "j < nat (cpb dev)"
    using assms j unfolding bitmap_ok_def by (metis not_less)
  then have "valid_chunk dev blk c"
    using j(1) assms(2) by (auto simp: valid_chunk_def valid_block_def)
  then show "c \<in> {c. valid_chunk dev blk c \<and> yaffs_check_chunk_bit dev blk c}"
    using check_chunk_bit_bytes [OF g, of blk c] j by simp
qed

lemma count_chunk_bits_card:
  assumes "bitmap_ok dev" "valid_block dev blk"
  shows "yaffs_count_chunk_bits dev blk = int (card {c. valid_chunk dev blk c \<and> yaffs_check_chunk_bit dev blk c})"
  unfolding chunks_as_bits [OF assms] yaffs_count_chunk_bits_def
  by (simp add: card_image card_bits_bytes)

lemma still_some_chunks_ex:
  assumes "bitmap_ok dev" "valid_block dev blk"
  shows "yaffs_still_some_chunks dev blk \<longleftrightarrow> (\<exists>c. valid_chunk dev blk c \<and> yaffs_check_chunk_bit dev blk c)"
proof -
  have byte: "x \<noteq> 0 \<longleftrightarrow> (\<exists>i < 8. bit x i)" for x :: u8
    by (auto simp: bit_eq_iff [of x 0] dest: bit_imp_le_length)
  have "yaffs_still_some_chunks dev blk \<longleftrightarrow>
      (\<exists>k < length (block_bytes dev blk). \<exists>i < 8. bit (block_bytes dev blk ! k) i)"
    by (auto simp: yaffs_still_some_chunks_def list_ex_length byte)
  also have "\<dots> \<longleftrightarrow> (\<exists>j < 8 * length (block_bytes dev blk). bit (block_bytes dev blk ! (j div 8)) (j mod 8))"
  proof safe
    fix k i assume "k < length (block_bytes dev blk)" "(i::nat) < 8" "bit (block_bytes dev blk ! k) i"
    then show "\<exists>j < 8 * length (block_bytes dev blk). bit (block_bytes dev blk ! (j div 8)) (j mod 8)"
      by (intro exI [of _ "8 * k + i"]) auto
  next
    fix j assume "j < 8 * length (block_bytes dev blk)" "bit (block_bytes dev blk ! (j div 8)) (j mod 8)"
    then show "\<exists>k < length (block_bytes dev blk). \<exists>i < 8. bit (block_bytes dev blk ! k) i"
      by (intro exI [of _ "j div 8"] conjI exI [of _ "j mod 8"]) auto
  qed
  also have "\<dots> \<longleftrightarrow> (\<exists>c. c \<in> {c. valid_chunk dev blk c \<and> yaffs_check_chunk_bit dev blk c})"
    unfolding chunks_as_bits [OF assms] by auto
  finally show ?thesis by simp
qed

section \<open>The interpretation\<close>

lemma bitmap_ok_upd:
  assumes "geometry_ok d'" "valid_block d' = valid_block dev" "cpb d' = cpb dev"
    "chunk_bit_stride d' = chunk_bit_stride dev" "bitmap_ok dev"
    and "\<And>b j. valid_block dev b \<Longrightarrow> nat (cpb dev) \<le> j \<Longrightarrow> j < 8 * chunk_bit_stride dev \<Longrightarrow>
      \<not> bit (block_bytes dev b ! (j div 8)) (j mod 8) \<Longrightarrow> \<not> bit (block_bytes d' b ! (j div 8)) (j mod 8)"
  shows "bitmap_ok d'"
  using assms unfolding bitmap_ok_def by simp

lemma valid_chunk_block: "valid_chunk dev b c \<Longrightarrow> valid_block dev b"
  by (simp add: valid_chunk_def valid_block_def)

lemma valid_chunk_nat: "valid_chunk dev b c \<Longrightarrow> 0 \<le> c \<and> nat c < nat (cpb dev)"
  by (simp add: valid_chunk_def)

interpretation bm: chunk_bitmap bitmap_ok valid_chunk yaffs_check_chunk_bit yaffs_set_chunk_bit
  yaffs_clear_chunk_bit yaffs_clear_chunk_bits yaffs_count_chunk_bits yaffs_still_some_chunks
proof unfold_locales
  fix d :: "('n, 'x) yaffs_dev_scheme" and b c b' c'
  show "finite {c. valid_chunk d b c}"
    by (rule finite_subset [of _ "{0..<cpb d}"]) (auto simp: valid_chunk_def)
  show v: "valid_chunk (yaffs_set_chunk_bit d b c) = valid_chunk d"
    "valid_chunk (yaffs_clear_chunk_bit d b c) = valid_chunk d"
    "valid_chunk (yaffs_clear_chunk_bits d b) = valid_chunk d"
    by (rule valid_chunk_cong; simp)+
  assume ok: "bitmap_ok d" and vc: "valid_chunk d b c"
  then have g: "geometry_ok d" and vb: "valid_block d b"
    by (simp_all add: bitmap_ok_def valid_chunk_block)
  show "bitmap_ok (yaffs_set_chunk_bit d b c)"
    by (rule bitmap_ok_upd [OF geometry_set_clear(1) [OF g] _ _ _ ok])
      (use valid_chunk_nat [OF vc] in \<open>auto simp: block_bytes_set [OF g vc]\<close>)
  show "bitmap_ok (yaffs_clear_chunk_bit d b c)"
    by (rule bitmap_ok_upd [OF geometry_set_clear(2) [OF g] _ _ _ ok])
      (simp_all add: block_bytes_clear [OF g vc])
  show "bitmap_ok (yaffs_clear_chunk_bits d b)"
    by (rule bitmap_ok_upd [OF geometry_clear_block [OF g vb] _ _ _ ok])
      (simp_all add: block_bytes_cleared [OF g vb] less_mult_imp_div_less mult.commute)
  show "yaffs_count_chunk_bits d b = int (card {c. valid_chunk d b c \<and> yaffs_check_chunk_bit d b c})"
    by (rule count_chunk_bits_card [OF ok vb])
  show "yaffs_still_some_chunks d b \<longleftrightarrow> (\<exists>c. valid_chunk d b c \<and> yaffs_check_chunk_bit d b c)"
    by (rule still_some_chunks_ex [OF ok vb])
  assume vc': "valid_chunk d b' c'"
  note vb' = valid_chunk_block [OF vc']
  have eq: "nat c' = nat c \<longleftrightarrow> c = c'" using valid_chunk_nat [OF vc] valid_chunk_nat [OF vc'] by auto
  show "yaffs_check_chunk_bit (yaffs_set_chunk_bit d b c) b' c' \<longleftrightarrow> b = b' \<and> c = c' \<or> yaffs_check_chunk_bit d b' c'"
    using check_chunk_bit_bytes [OF geometry_set_clear(1) [OF g], of b c b' c'] vc' eq
    by (simp add: v check_chunk_bit_bytes [OF g vc'] block_bytes_set [OF g vc vb'])
  show "yaffs_check_chunk_bit (yaffs_clear_chunk_bit d b c) b' c' \<longleftrightarrow>
      \<not> (b = b' \<and> c = c') \<and> yaffs_check_chunk_bit d b' c'"
    using check_chunk_bit_bytes [OF geometry_set_clear(2) [OF g], of b c b' c'] vc' eq
    by (simp add: v check_chunk_bit_bytes [OF g vc'] block_bytes_clear [OF g vc vb'])
  have "nat c' div 8 < chunk_bit_stride d"
    using chunk_byte_less [OF g vc'] valid_chunk_nat [OF vc'] by (simp add: nat_div_distrib)
  then show "yaffs_check_chunk_bit (yaffs_clear_chunk_bits d b) b' c' \<longleftrightarrow> b \<noteq> b' \<and> yaffs_check_chunk_bit d b' c'"
    using check_chunk_bit_bytes [OF geometry_clear_block [OF g vb], of b' c'] vc'
    by (simp add: v check_chunk_bit_bytes [OF g vc'] block_bytes_cleared [OF g vb vb'])
qed

section \<open>The bitmap as a set of chunks\<close>

definition chunks_in_use :: "('n, 'x) yaffs_dev_scheme \<Rightarrow> int \<Rightarrow> int set" where
  "chunks_in_use dev blk = {c. valid_chunk dev blk c \<and> yaffs_check_chunk_bit dev blk c}"

lemma bitmap_refines_set_lemma:
  assumes "bitmap_ok dev" "valid_chunk dev b c" "valid_block dev b'"
  shows "chunks_in_use (yaffs_set_chunk_bit dev b c) b' =
      (if b = b' then insert c (chunks_in_use dev b) else chunks_in_use dev b')"
    "chunks_in_use (yaffs_clear_chunk_bit dev b c) b' =
      (if b = b' then chunks_in_use dev b - {c} else chunks_in_use dev b')"
    "chunks_in_use (yaffs_clear_chunk_bits dev b) b' = (if b = b' then {} else chunks_in_use dev b')"
    "yaffs_count_chunk_bits dev b' = int (card (chunks_in_use dev b'))"
    "yaffs_still_some_chunks dev b' \<longleftrightarrow> chunks_in_use dev b' \<noteq> {}"
  using assms bm.test_set [OF assms(1,2)] bm.test_clear [OF assms(1,2)] bm.test_clear_block [OF assms(1,2)]
    count_chunk_bits_card [OF assms(1,3)] still_some_chunks_ex [OF assms(1,3)]
  by (auto simp: chunks_in_use_def bm.valid_set bm.valid_clear bm.valid_clear_block)

text \<open>C15: the packed bitmap implements, for every block, the set of its used chunks: setting a
  bit inserts the chunk, clearing removes it, clearing a block empties its set and no other, the
  count is the size of the set (padding bits never count) and the ``still some'' test is
  non-emptiness.\<close>

theorem bitmap_refines_set:
  assumes "bitmap_ok dev" "valid_chunk dev b c" "valid_block dev b'"
  shows "chunks_in_use (yaffs_set_chunk_bit dev b c) b' =
      (if b = b' then insert c (chunks_in_use dev b) else chunks_in_use dev b')
    \<and> chunks_in_use (yaffs_clear_chunk_bit dev b c) b' =
      (if b = b' then chunks_in_use dev b - {c} else chunks_in_use dev b')
    \<and> chunks_in_use (yaffs_clear_chunk_bits dev b) b' = (if b = b' then {} else chunks_in_use dev b')
    \<and> yaffs_count_chunk_bits dev b' = int (card (chunks_in_use dev b'))
    \<and> (yaffs_still_some_chunks dev b' \<longleftrightarrow> chunks_in_use dev b' \<noteq> {})
    \<and> bitmap_ok (yaffs_set_chunk_bit dev b c) \<and> bitmap_ok (yaffs_clear_chunk_bit dev b c)
    \<and> bitmap_ok (yaffs_clear_chunk_bits dev b)"
  using bitmap_refines_set_lemma [OF assms] bm.ok_set [OF assms(1,2)] bm.ok_clear [OF assms(1,2)]
    bm.ok_clear_block [OF assms(1,2)] by blast

lemma small_bitmap_ok: "bitmap_ok small_dev"
proof -
  have "geometry_ok small_dev"
    by (simp add: geometry_ok_def small_dev_def zero_dev_def small_param_def)
  moreover have "block_bytes small_dev b = [0]" if "valid_block small_dev b" for b
    using that by (auto simp: block_bytes_def yaffs_block_bits_def valid_block_def small_dev_def zero_dev_def)
  ultimately show ?thesis
    by (auto simp: bitmap_ok_def small_dev_def zero_dev_def)
qed

lemma small_valid_block: "valid_block small_dev b \<longleftrightarrow> 1 \<le> b \<and> b \<le> 4"
  by (simp add: valid_block_def small_dev_def zero_dev_def)

lemma small_valid_chunk: "valid_chunk small_dev b c \<longleftrightarrow> 1 \<le> b \<and> b \<le> 4 \<and> 0 \<le> c \<and> c < 4"
  by (auto simp: valid_chunk_def small_dev_def zero_dev_def small_param_def)

lemma bitmap_refines_set_witness:
  "chunks_in_use (yaffs_set_chunk_bit small_dev 2 3) 2 = insert 3 (chunks_in_use small_dev 2)"
  using bitmap_refines_set [OF small_bitmap_ok, of 2 3 2]
  by (simp add: small_valid_block small_valid_chunk)

end
