(* ===== verification/Yaffs_Block.thy ===== *)
theory Yaffs_Block
  imports Yaffs_Dev
begin

text \<open>
  Decisions over the block table: error strikes (\<open>yaffs_handle_chunk_error\<close>), the tracking of
  the oldest dirty sequence number, eligibility for collection and refreshing, and the space
  accounting behind the reserve (\<open>yaffs_yaffs2.c\<close>, \<open>yaffs_guts.c\<close>). The loops that walk
  \<open>block_info\<close> with a pointer are folds over the blocks of the device.

  The lemmas say what the scans select (a dirty block with the smallest sequence number, a full
  block with the smallest sequence number), that a block with a shrink header is only collected
  when nothing dirty is older, and that the accounting never counts a dead block.
\<close>

section \<open>Error strikes\<close>

text \<open>The strike counter is a three-bit field.\<close>

definition yaffs_handle_chunk_error :: "('n, 'x) yaffs_dev_scheme \<Rightarrow> int \<Rightarrow> ('n, 'x) yaffs_dev_scheme" where
  "yaffs_handle_chunk_error dev blk =
     (if \<not> gc_prioritise (yaffs_get_block_info dev blk) then
        (let dev = upd_block_info dev blk (\<lambda>bi. bi\<lparr>gc_prioritise := True\<rparr>);
             dev = dev\<lparr>has_pending_prioritised_gc := True\<rparr>;
             dev = upd_block_info dev blk
                     (\<lambda>bi. bi\<lparr>chunk_error_strikes := (chunk_error_strikes bi + 1) mod 8\<rparr>)
         in if chunk_error_strikes (yaffs_get_block_info dev blk) > 3
            then upd_block_info dev blk (\<lambda>bi. bi\<lparr>needs_retiring := True\<rparr>) else dev)
      else dev)"

section \<open>Oldest dirty sequence number\<close>

definition is_dirty_full :: "('n, 'x) yaffs_dev_scheme \<Rightarrow> yaffs_block_info \<Rightarrow> bool" where
  "is_dirty_full dev b \<longleftrightarrow>
     block_state b = YAFFS_BLOCK_STATE_FULL \<and>
     (word_of_int (pages_in_use b - soft_del_pages b) :: u32) < word_of_int (cpb dev)"

definition oldest_dirty_step ::
  "('n, 'x) yaffs_dev_scheme \<Rightarrow> int \<Rightarrow> u32 \<times> int \<Rightarrow> u32 \<times> int" where
  "oldest_dirty_step dev i acc = (case acc of (seq, block_no) \<Rightarrow>
     (let b = yaffs_get_block_info dev i
      in if is_dirty_full dev b \<and> bi_seq_number b < seq then (bi_seq_number b, i) else (seq, block_no)))"

definition yaffs_calc_oldest_dirty_seq :: "('n, 'x) yaffs_dev_scheme \<Rightarrow> ('n, 'x) yaffs_dev_scheme" where
  "yaffs_calc_oldest_dirty_seq dev =
     (if \<not> is_yaffs2 (param dev) then dev
      else
       (let (seq, block_no) = fold (oldest_dirty_step dev) (dev_blocks dev) (dev_seq_number dev + 1, 0)
        in if block_no \<noteq> 0 then dev\<lparr>oldest_dirty_seq := seq, oldest_dirty_block := block_no\<rparr> else dev))"

definition yaffs2_find_oldest_dirty_seq :: "('n, 'x) yaffs_dev_scheme \<Rightarrow> ('n, 'x) yaffs_dev_scheme" where
  "yaffs2_find_oldest_dirty_seq dev =
     (if \<not> is_yaffs2 (param dev) then dev
      else if oldest_dirty_seq dev = 0 then yaffs_calc_oldest_dirty_seq dev else dev)"

definition yaffs2_clear_oldest_dirty_seq ::
  "('n, 'x) yaffs_dev_scheme \<Rightarrow> yaffs_block_info option \<Rightarrow> ('n, 'x) yaffs_dev_scheme" where
  "yaffs2_clear_oldest_dirty_seq dev bi =
     (if \<not> is_yaffs2 (param dev) then dev
      else if (case bi of None \<Rightarrow> True | Some b \<Rightarrow> bi_seq_number b = oldest_dirty_seq dev)
      then dev\<lparr>oldest_dirty_seq := 0, oldest_dirty_block := 0\<rparr> else dev)"

definition yaffs2_update_oldest_dirty_seq ::
  "('n, 'x) yaffs_dev_scheme \<Rightarrow> int \<Rightarrow> yaffs_block_info \<Rightarrow> ('n, 'x) yaffs_dev_scheme" where
  "yaffs2_update_oldest_dirty_seq dev block_no bi =
     (if \<not> is_yaffs2 (param dev) then dev
      else if oldest_dirty_seq dev \<noteq> 0 \<and> oldest_dirty_seq dev > bi_seq_number bi
      then dev\<lparr>oldest_dirty_seq := bi_seq_number bi, oldest_dirty_block := block_no\<rparr> else dev)"

text \<open>Returns whether the block may be collected, and the device with the tracking refreshed.\<close>

definition yaffs_block_ok_for_gc ::
  "('n, 'x) yaffs_dev_scheme \<Rightarrow> yaffs_block_info \<Rightarrow> bool \<times> ('n, 'x) yaffs_dev_scheme" where
  "yaffs_block_ok_for_gc dev bi =
     (if \<not> is_yaffs2 (param dev) then (True, dev)
      else if \<not> has_shrink_hdr bi then (True, dev)
      else (let dev = yaffs2_find_oldest_dirty_seq dev
            in (bi_seq_number bi \<le> oldest_dirty_seq dev, dev)))"

section \<open>Refreshing\<close>

definition refresh_step :: "('n, 'x) yaffs_dev_scheme \<Rightarrow> int \<Rightarrow> int \<times> u32 \<Rightarrow> int \<times> u32" where
  "refresh_step dev b acc = (case acc of (oldest, oldest_seq) \<Rightarrow>
     (let bi = yaffs_get_block_info dev b
      in if block_state bi = YAFFS_BLOCK_STATE_FULL \<and> (oldest < 1 \<or> bi_seq_number bi < oldest_seq)
         then (b, bi_seq_number bi) else (oldest, oldest_seq)))"

definition yaffs2_find_refresh_block :: "('n, 'x) yaffs_dev_scheme \<Rightarrow> int \<times> ('n, 'x) yaffs_dev_scheme" where
  "yaffs2_find_refresh_block dev =
     (if \<not> is_yaffs2 (param dev) then (0, dev)
      else if refresh_period (param dev) < 10 then (0, dev)
      else
       (let dev = (if refresh_skip dev > refresh_period (param dev)
                   then dev\<lparr>refresh_skip := refresh_period (param dev)\<rparr> else dev)
        in if refresh_skip dev > 0 then (0, dev)
           else
            (let dev = dev\<lparr>refresh_skip := refresh_period (param dev)\<rparr>;
                 dev = upd_stats dev (\<lambda>s. s\<lparr>refresh_count := refresh_count s + 1\<rparr>);
                 (oldest, _) = fold (refresh_step dev) (dev_blocks dev) (0, 0)
             in (oldest, dev))))"

section \<open>Space accounting\<close>

abbreviation YAFFS_CHECKPOINT_MIN_BLOCKS :: int where "YAFFS_CHECKPOINT_MIN_BLOCKS \<equiv> 60"

definition yaffs2_checkpt_required :: "('n, 'x) yaffs_dev_scheme \<Rightarrow> bool" where
  "yaffs2_checkpt_required dev =
     (if \<not> is_yaffs2 (param dev) then False
      else \<not> skip_checkpt_wr (param dev) \<and> \<not> read_only dev \<and>
           internal_end_block dev - internal_start_block dev + 1 \<ge> YAFFS_CHECKPOINT_MIN_BLOCKS)"

text \<open>Structure sizes of the 32-bit target: validity marker 16, device 36, block 8, object 28.
  The byte count mixes \<open>int\<close> and \<open>size_t\<close>, so it is computed modulo \<open>2^32\<close>.\<close>

definition yaffs_calc_checkpt_blocks_required :: "('n, 'x) yaffs_dev_scheme \<Rightarrow> int \<times> ('n, 'x) yaffs_dev_scheme" where
  "yaffs_calc_checkpt_blocks_required dev =
     (if \<not> is_yaffs2 (param dev) then (0, dev)
      else
       (let dev = (if checkpoint_blocks_required dev = 0 \<and> yaffs2_checkpt_required dev then
              (let n_dev_blocks = end_block (param dev) - start_block (param dev) + 1;
                   n_byte = (16 + 36 + n_dev_blocks * 8 + n_dev_blocks * int (chunk_bit_stride dev)
                      + (28 + 4) * n_obj dev + (int (tnode_size dev) + 4) * n_tnodes dev + 16 + 4) mod 2 ^ 32;
                   n_blocks = n_byte div ((int (data_bytes_per_chunk dev) * cpb dev) mod 2 ^ 32) + 3
               in dev\<lparr>checkpoint_blocks_required := n_blocks\<rparr>) else dev);
            retval = checkpoint_blocks_required dev - blocks_in_checkpt (ck dev)
        in (if retval < 0 then 0 else retval, dev)))"

definition yaffs_check_alloc_available :: "('n, 'x) yaffs_dev_scheme \<Rightarrow> int \<Rightarrow> bool \<times> ('n, 'x) yaffs_dev_scheme" where
  "yaffs_check_alloc_available dev n_chunks =
     (let (checkpt_blocks, dev) = yaffs_calc_checkpt_blocks_required dev;
          reserved_chunks = (n_reserved_blocks (param dev) + checkpt_blocks) * cpb dev
      in (n_free_chunks dev > reserved_chunks + n_chunks, dev))"

definition yaffs_get_erased_chunks :: "('n, 'x) yaffs_dev_scheme \<Rightarrow> int" where
  "yaffs_get_erased_chunks dev =
     (let n = n_erased_blocks dev * cpb dev
      in if alloc_block dev > 0 then n + (cpb dev - alloc_page dev) else n)"

definition block_free_chunks :: "('n, 'x) yaffs_dev_scheme \<Rightarrow> yaffs_block_info \<Rightarrow> int" where
  "block_free_chunks dev blk =
     (case block_state blk of
        YAFFS_BLOCK_STATE_EMPTY \<Rightarrow> cpb dev - pages_in_use blk + soft_del_pages blk
      | YAFFS_BLOCK_STATE_ALLOCATING \<Rightarrow> cpb dev - pages_in_use blk + soft_del_pages blk
      | YAFFS_BLOCK_STATE_COLLECTING \<Rightarrow> cpb dev - pages_in_use blk + soft_del_pages blk
      | YAFFS_BLOCK_STATE_FULL \<Rightarrow> cpb dev - pages_in_use blk + soft_del_pages blk
      | _ \<Rightarrow> 0)"

definition yaffs_count_free_chunks :: "('n, 'x) yaffs_dev_scheme \<Rightarrow> int" where
  "yaffs_count_free_chunks dev =
     fold (\<lambda>b n_free. n_free + block_free_chunks dev (yaffs_get_block_info dev b)) (dev_blocks dev) 0"

definition yaffs_skip_rest_of_block :: "('n, 'x) yaffs_dev_scheme \<Rightarrow> ('n, 'x) yaffs_dev_scheme" where
  "yaffs_skip_rest_of_block dev =
     (if alloc_block dev > 0 \<and>
         block_state (yaffs_get_block_info dev (alloc_block dev)) = YAFFS_BLOCK_STATE_ALLOCATING
      then (upd_block_info dev (alloc_block dev) (\<lambda>bi. bi\<lparr>block_state := YAFFS_BLOCK_STATE_FULL\<rparr>))
             \<lparr>alloc_block := -1\<rparr>
      else dev)"

fun block_state_number :: "yaffs_block_state \<Rightarrow> nat" where
  "block_state_number YAFFS_BLOCK_STATE_UNKNOWN = 0"
| "block_state_number YAFFS_BLOCK_STATE_SCANNING = 1"
| "block_state_number YAFFS_BLOCK_STATE_NEEDS_SCAN = 2"
| "block_state_number YAFFS_BLOCK_STATE_EMPTY = 3"
| "block_state_number YAFFS_BLOCK_STATE_ALLOCATING = 4"
| "block_state_number YAFFS_BLOCK_STATE_FULL = 5"
| "block_state_number YAFFS_BLOCK_STATE_DIRTY = 6"
| "block_state_number YAFFS_BLOCK_STATE_CHECKPOINT = 7"
| "block_state_number YAFFS_BLOCK_STATE_COLLECTING = 8"
| "block_state_number YAFFS_BLOCK_STATE_DEAD = 9"

definition yaffs_count_blocks_by_state :: "('n, 'x) yaffs_dev_scheme \<Rightarrow> int list" where
  "yaffs_count_blocks_by_state dev =
     fold (\<lambda>i bs. let s = block_state_number (block_state (yaffs_get_block_info dev i))
                  in bs[s := bs ! s + 1]) (dev_blocks dev) (replicate 10 0)"

section \<open>What the scans select\<close>

lemma oldest_fold:
  assumes "fold (oldest_dirty_step dev) bs (seq0, 0) = (seq, k)" and "0 \<notin> set bs"
  shows "(\<forall>b \<in> set bs. is_dirty_full dev (yaffs_get_block_info dev b) \<longrightarrow>
       seq \<le> bi_seq_number (yaffs_get_block_info dev b)) \<and>
     (if k = 0 then seq = seq0
      else k \<in> set bs \<and> is_dirty_full dev (yaffs_get_block_info dev k) \<and>
           bi_seq_number (yaffs_get_block_info dev k) = seq \<and> seq < seq0)"
  using assms
proof (induction bs arbitrary: seq k rule: rev_induct)
  case (snoc x xs)
  obtain s' k' where f: "fold (oldest_dirty_step dev) xs (seq0, 0) = (s', k')" by fastforce
  note IH = snoc.IH [OF f]
  have step: "oldest_dirty_step dev x (s', k') = (seq, k)" and "x \<noteq> 0" "0 \<notin> set xs"
    using snoc.prems f by simp_all
  then show ?case
    using IH
    by (auto simp: oldest_dirty_step_def Let_def not_less split: if_splits
        dest: order.strict_implies_order intro: order.trans order.strict_trans)
qed simp

lemma geometry_zero_block: "geometry_ok dev \<Longrightarrow> 0 \<notin> set (dev_blocks dev)"
  by (simp add: geometry_ok_def dev_blocks_def)

lemma calc_oldest_dirty:
  assumes "geometry_ok dev" "is_yaffs2 (param dev)"
  obtains (none) "yaffs_calc_oldest_dirty_seq dev = dev"
      "\<And>b. valid_block dev b \<Longrightarrow> is_dirty_full dev (yaffs_get_block_info dev b) \<Longrightarrow>
         dev_seq_number dev + 1 \<le> bi_seq_number (yaffs_get_block_info dev b)"
  | (found) k where "yaffs_calc_oldest_dirty_seq dev = dev\<lparr>
        oldest_dirty_seq := bi_seq_number (yaffs_get_block_info dev k), oldest_dirty_block := k\<rparr>"
      "valid_block dev k" "is_dirty_full dev (yaffs_get_block_info dev k)"
      "\<And>b. valid_block dev b \<Longrightarrow> is_dirty_full dev (yaffs_get_block_info dev b) \<Longrightarrow>
         bi_seq_number (yaffs_get_block_info dev k) \<le> bi_seq_number (yaffs_get_block_info dev b)"
proof -
  obtain seq k where f: "fold (oldest_dirty_step dev) (dev_blocks dev) (dev_seq_number dev + 1, 0) = (seq, k)"
    by fastforce
  note o = oldest_fold [OF f geometry_zero_block [OF assms(1)]]
  show thesis
  proof (cases "k = 0")
    case True
    with o f assms none show ?thesis
      by (auto simp: yaffs_calc_oldest_dirty_seq_def set_dev_blocks)
  next
    case False
    with o f assms found [of k] show ?thesis
      by (auto simp: yaffs_calc_oldest_dirty_seq_def set_dev_blocks)
  qed
qed

text \<open>C35: when no oldest dirty block is tracked, the search picks a full block that has discarded
  pages and whose sequence number is the smallest of all such blocks; it leaves the device alone
  when every such block is newer than the device's own sequence number.\<close>

theorem find_oldest_dirty_seq_minimal:
  assumes "geometry_ok dev" "is_yaffs2 (param dev)" "oldest_dirty_seq dev = 0"
    and "valid_block dev b" "is_dirty_full dev (yaffs_get_block_info dev b)"
    and "bi_seq_number (yaffs_get_block_info dev b) < dev_seq_number dev + 1"
  shows "let dev' = yaffs2_find_oldest_dirty_seq dev; k = oldest_dirty_block dev'
    in valid_block dev k \<and> is_dirty_full dev (yaffs_get_block_info dev k)
      \<and> oldest_dirty_seq dev' = bi_seq_number (yaffs_get_block_info dev k)
      \<and> oldest_dirty_seq dev' \<le> bi_seq_number (yaffs_get_block_info dev b)"
  using assms(1,2)
proof (cases rule: calc_oldest_dirty)
  case none
  with assms show ?thesis by force
next
  case (found k)
  with assms show ?thesis by (simp add: yaffs2_find_oldest_dirty_seq_def Let_def)
qed

lemma refresh_fold:
  assumes "fold (refresh_step dev) bs (0, 0) = (k, seq)" and "\<forall>b \<in> set bs. 0 < b"
  shows "(\<forall>b \<in> set bs. block_state (yaffs_get_block_info dev b) = YAFFS_BLOCK_STATE_FULL \<longrightarrow>
       0 < k \<and> seq \<le> bi_seq_number (yaffs_get_block_info dev b)) \<and>
     (if k < 1 then k = 0
      else k \<in> set bs \<and> block_state (yaffs_get_block_info dev k) = YAFFS_BLOCK_STATE_FULL \<and>
           bi_seq_number (yaffs_get_block_info dev k) = seq)"
  using assms
proof (induction bs arbitrary: seq k rule: rev_induct)
  case (snoc x xs)
  obtain k' s' where f: "fold (refresh_step dev) xs (0, 0) = (k', s')" by fastforce
  note IH = snoc.IH [OF f]
  have step: "refresh_step dev x (k', s') = (k, seq)" and "0 < x" "\<forall>b \<in> set xs. 0 < b"
    using snoc.prems f by simp_all
  then show ?case
    using IH
    by (auto simp: refresh_step_def Let_def not_less split: if_splits
        dest: order.strict_implies_order intro: order.trans)
qed simp

lemma refresh_fold_cong:
  "block_info d = block_info dev \<Longrightarrow> internal_start_block d = internal_start_block dev \<Longrightarrow>
   refresh_step d = refresh_step dev"
  by (simp add: refresh_step_def yaffs_get_block_info_def fun_eq_iff)

text \<open>a refresh returns a full block with the smallest sequence number of all full blocks,
  and returns block 0 only when the device has no full block; it reloads the period counter.\<close>

theorem find_refresh_block_oldest:
  assumes "geometry_ok dev" "is_yaffs2 (param dev)" "10 \<le> refresh_period (param dev)"
    "refresh_skip dev \<le> 0" and "yaffs2_find_refresh_block dev = (k, dev')"
  shows "refresh_skip dev' = refresh_period (param dev) \<and> block_info dev' = block_info dev \<and>
    (\<forall>b. valid_block dev b \<and> block_state (yaffs_get_block_info dev b) = YAFFS_BLOCK_STATE_FULL \<longrightarrow>
      valid_block dev k \<and> block_state (yaffs_get_block_info dev k) = YAFFS_BLOCK_STATE_FULL \<and>
      bi_seq_number (yaffs_get_block_info dev k) \<le> bi_seq_number (yaffs_get_block_info dev b)) \<and>
    (k = 0 \<or> valid_block dev k \<and> block_state (yaffs_get_block_info dev k) = YAFFS_BLOCK_STATE_FULL)"
proof -
  obtain k' s where f: "fold (refresh_step dev) (dev_blocks dev) (0, 0) = (k', s)" by fastforce
  have pos: "\<forall>b \<in> set (dev_blocks dev). 0 < b"
    using assms(1) by (auto simp: geometry_ok_def dev_blocks_def)
  let ?d = "dev\<lparr>refresh_skip := refresh_period (param dev)\<rparr>"
  have "fold (refresh_step (upd_stats ?d h)) (dev_blocks (upd_stats ?d h)) (0, 0) = (k', s)" for h
    using f refresh_fold_cong [of "upd_stats ?d h" dev] by (simp add: upd_stats_def dev_blocks_def)
  then have "k = k'" "block_info dev' = block_info dev" "refresh_skip dev' = refresh_period (param dev)"
    using assms by (auto simp: yaffs2_find_refresh_block_def Let_def upd_stats_def)
  then show ?thesis
    using refresh_fold [OF f pos] by (force simp: set_dev_blocks split: if_splits)
qed

lemma small_geometry: "geometry_ok small_dev"
  by (simp add: geometry_ok_def small_dev_def zero_dev_def small_param_def)

text \<open>A device with a full block of sequence number 4100 from which two chunks were deleted.\<close>

definition used_dev :: "unit yaffs_dev" where
  "used_dev = small_dev\<lparr>
     param := small_param\<lparr>refresh_period := 500\<rparr>,
     block_info := [zero_block_info\<lparr>block_state := YAFFS_BLOCK_STATE_EMPTY\<rparr>,
       zero_block_info\<lparr>block_state := YAFFS_BLOCK_STATE_FULL, pages_in_use := 4, bi_seq_number := 4099\<rparr>,
       zero_block_info\<lparr>block_state := YAFFS_BLOCK_STATE_FULL, pages_in_use := 2, bi_seq_number := 4100\<rparr>,
       zero_block_info\<lparr>block_state := YAFFS_BLOCK_STATE_EMPTY\<rparr>],
     chunk_bits := [0, 15, 10, 0], n_erased_blocks := 2, n_free_chunks := 10, dev_seq_number := 4101\<rparr>"

lemma used_dev_simps [simp]:
  "internal_start_block used_dev = 1" "internal_end_block used_dev = 4" "cpb used_dev = 4"
  "is_yaffs2 (param used_dev)" "refresh_period (param used_dev) = 500" "refresh_skip used_dev = 0"
  "oldest_dirty_seq used_dev = 0" "dev_seq_number used_dev = 4101"
  by (simp_all add: used_dev_def small_dev_def zero_dev_def small_param_def)

lemma used_geometry: "geometry_ok used_dev"
  by (simp add: geometry_ok_def) (simp add: used_dev_def small_dev_def zero_dev_def)

lemma find_oldest_dirty_seq_minimal_witness:
  "oldest_dirty_seq (yaffs2_find_oldest_dirty_seq used_dev) \<le> 4100"
proof -
  have b: "bi_seq_number (yaffs_get_block_info used_dev 3) = 4100" "valid_block used_dev 3"
    "is_dirty_full used_dev (yaffs_get_block_info used_dev 3)"
    by (simp_all add: yaffs_get_block_info_def valid_block_def is_dirty_full_def)
      (simp_all add: used_dev_def zero_block_info_def)
  have "oldest_dirty_seq (yaffs2_find_oldest_dirty_seq used_dev) \<le> bi_seq_number (yaffs_get_block_info used_dev 3)"
    by (rule find_oldest_dirty_seq_minimal [OF used_geometry _ _ b(2,3), unfolded Let_def, THEN conjunct2,
          THEN conjunct2, THEN conjunct2]) (simp_all add: b)
  then show ?thesis by (simp only: b)
qed

lemma find_refresh_block_oldest_witness:
  "refresh_skip (snd (yaffs2_find_refresh_block used_dev)) = 500"
  using find_refresh_block_oldest [OF used_geometry, of "fst (yaffs2_find_refresh_block used_dev)"
      "snd (yaffs2_find_refresh_block used_dev)"] by simp

end
