(* ===== verification/Yaffs_Nand.thy ===== *)
theory Yaffs_Nand
  imports Yaffs_PackedTags2 Yaffs_Bitmap Yaffs_Block
begin

text \<open>
  Access to the flash (\<open>yaffs_nand.c\<close>) and the block summaries it maintains
  (\<open>yaffs_summary.c\<close>). The two files are mutually recursive: every chunk written is added to the
  summary under construction, and adding the last one writes the summary chunks. The write takes
  the depth to which that recursion is followed; \<open>wr_depth_enough\<close> shows that two levels are all
  there is, because the chunks of a summary lie behind the chunks it covers.

  The driver is the device's function fields, so nothing is assumed of it here. Chunk and block
  numbers are non-negative, as in the code, which divides them as unsigned numbers.
\<close>

unbundle bit_operations_syntax

section \<open>Reading, erasing, marking\<close>

text \<open>The result, the data and the tags the driver fills in, and the device.\<close>

definition yaffs_rd_chunk_tags_nand ::
  "('n, 'x) yaffs_dev_scheme \<Rightarrow> int \<Rightarrow> bool \<Rightarrow> int \<times> u8 list \<times> yaffs_ext_tags \<times> ('n, 'x) yaffs_dev_scheme" where
  "yaffs_rd_chunk_tags_nand dev nand_chunk want =
     (let flash_chunk = nand_chunk - chunk_offset dev;
          dev = upd_stats dev (\<lambda>s. s\<lparr>n_page_reads := n_page_reads s + 1\<rparr>);
          (result, data, tags, n) = read_chunk_tags_fn (tagger dev) (nand dev) flash_chunk want;
          dev = dev\<lparr>nand := n\<rparr>;
          dev = (if ecc_result tags > YAFFS_ECC_RESULT_NO_ERROR
                 then yaffs_handle_chunk_error dev (nand_chunk div cpb dev) else dev)
      in (result, data, tags, dev))"

definition yaffs_mark_bad :: "('n, 'x) yaffs_dev_scheme \<Rightarrow> int \<Rightarrow> int \<times> ('n, 'x) yaffs_dev_scheme" where
  "yaffs_mark_bad dev block_no =
     (let block_no = block_no - block_offset dev;
          dev = upd_stats dev (\<lambda>s. s\<lparr>n_bad_markings := n_bad_markings s + 1\<rparr>)
      in if disable_bad_block_marking (param dev) then (YAFFS_OK, dev)
         else (let (r, n) = mark_bad_fn (tagger dev) (nand dev) block_no in (r, dev\<lparr>nand := n\<rparr>)))"

definition yaffs_query_init_block_state ::
  "('n, 'x) yaffs_dev_scheme \<Rightarrow> int \<Rightarrow> int \<times> yaffs_block_state \<times> u32 \<times> ('n, 'x) yaffs_dev_scheme" where
  "yaffs_query_init_block_state dev block_no =
     (let (r, state, seq, n) = query_block_fn (tagger dev) (nand dev) (block_no - block_offset dev)
      in (r, state, seq, dev\<lparr>nand := n\<rparr>))"

definition yaffs_erase_block :: "('n, 'x) yaffs_dev_scheme \<Rightarrow> int \<Rightarrow> int \<times> ('n, 'x) yaffs_dev_scheme" where
  "yaffs_erase_block dev block_no =
     (let block_no = block_no - block_offset dev;
          dev = upd_stats dev (\<lambda>s. s\<lparr>n_erasures := n_erasures s + 1\<rparr>);
          (r, n) = drv_erase_fn (drv dev) (nand dev) block_no
      in (r, dev\<lparr>nand := n\<rparr>))"

section \<open>Summary memory\<close>

abbreviation YAFFS_SUMMARY_VERSION :: u32 where "YAFFS_SUMMARY_VERSION \<equiv> 1"

text \<open>An entry is three words, the header four.\<close>

definition sum_tag_bytes :: "bool \<Rightarrow> yaffs_summary_tags \<Rightarrow> u8 list" where
  "sum_tag_bytes le t = u32_bytes le (sum_obj_id t) @ u32_bytes le (sum_chunk_id t) @ u32_bytes le (sum_n_bytes t)"

definition sum_tag_of_bytes :: "bool \<Rightarrow> u8 list \<Rightarrow> yaffs_summary_tags" where
  "sum_tag_of_bytes le bs = \<lparr>sum_obj_id = bytes_u32 le (take 4 bs),
     sum_chunk_id = bytes_u32 le (take 4 (drop 4 bs)), sum_n_bytes = bytes_u32 le (take 4 (drop 8 bs))\<rparr>"

definition sum_tags_bytes :: "bool \<Rightarrow> yaffs_summary_tags list \<Rightarrow> u8 list" where
  "sum_tags_bytes le ts = concat (map (sum_tag_bytes le) ts)"

fun sum_tags_of_bytes :: "bool \<Rightarrow> nat \<Rightarrow> u8 list \<Rightarrow> yaffs_summary_tags list" where
  "sum_tags_of_bytes le 0 bs = []"
| "sum_tags_of_bytes le (Suc n) bs = sum_tag_of_bytes le (take 12 bs) # sum_tags_of_bytes le n (drop 12 bs)"

record yaffs_summary_header =
  hdr_version :: u32
  hdr_block :: u32
  hdr_seq :: u32
  hdr_sum :: u32

definition hdr_bytes :: "bool \<Rightarrow> yaffs_summary_header \<Rightarrow> u8 list" where
  "hdr_bytes le h = bytes4 le (hdr_version h, hdr_block h, hdr_seq h, hdr_sum h)"

definition hdr_of_bytes :: "bool \<Rightarrow> u8 list \<Rightarrow> yaffs_summary_header" where
  "hdr_of_bytes le bs = (case fields4 le bs of (v, b, s, m) \<Rightarrow>
     \<lparr>hdr_version = v, hdr_block = b, hdr_seq = s, hdr_sum = m\<rparr>)"

definition zero_sum_tags :: yaffs_summary_tags where
  "zero_sum_tags = \<lparr>sum_obj_id = 0, sum_chunk_id = 0, sum_n_bytes = 0\<rparr>"

definition yaffs_summary_clear :: "('n, 'x) yaffs_dev_scheme \<Rightarrow> ('n, 'x) yaffs_dev_scheme" where
  "yaffs_summary_clear dev =
     (case sum_tags dev of None \<Rightarrow> dev
      | Some _ \<Rightarrow> dev\<lparr>sum_tags := Some (replicate (nat (chunks_per_summary dev)) zero_sum_tags)\<rparr>)"

definition yaffs_summary_deinit :: "('n, 'x) yaffs_dev_scheme \<Rightarrow> ('n, 'x) yaffs_dev_scheme" where
  "yaffs_summary_deinit dev = dev\<lparr>sum_tags := None, gc_sum_tags := None, chunks_per_summary := 0\<rparr>"

text \<open>\<open>mem\<close> and \<open>gc_mem\<close> are what the two allocations return.\<close>

definition yaffs_summary_init ::
  "yaffs_summary_tags list option \<Rightarrow> yaffs_summary_tags list option \<Rightarrow>
   ('n, 'x) yaffs_dev_scheme \<Rightarrow> int \<times> ('n, 'x) yaffs_dev_scheme" where
  "yaffs_summary_init mem gc_mem dev =
     (let sum_bytes = cpb dev * 12;
          chunks_used = (sum_bytes + int (data_bytes_per_chunk dev) - 1) div (int (data_bytes_per_chunk dev) - 16);
          dev = dev\<lparr>chunks_per_summary := cpb dev - chunks_used\<rparr>;
          dev = dev\<lparr>sum_tags := mem, gc_sum_tags := gc_mem\<rparr>
      in if mem = None \<or> gc_mem = None then (YAFFS_FAIL, yaffs_summary_deinit dev)
         else (YAFFS_OK, yaffs_summary_clear dev))"

definition sum_buffer_of :: "('n, 'x) yaffs_dev_scheme \<Rightarrow> u8 list" where
  "sum_buffer_of dev = (case sum_tags dev of None \<Rightarrow> [] | Some ts \<Rightarrow> sum_tags_bytes (host_le dev) ts)"

definition yaffs_summary_sum :: "('n, 'x) yaffs_dev_scheme \<Rightarrow> u32" where
  "yaffs_summary_sum dev =
     fold (\<lambda>b s. s + ucast b) (take (12 * nat (chunks_per_summary dev)) (sum_buffer_of dev)) 0"

section \<open>Writing, with the summary\<close>

text \<open>The loop of \<open>yaffs_summary_write\<close>; \<open>wr\<close> is \<open>yaffs_wr_chunk_tags_nand\<close>. A chunk carries at
  least one byte of summary (\<open>data_bytes_per_chunk\<close> is larger than the header).\<close>

function summary_write_loop ::
  "(('n, 'x) yaffs_dev_scheme \<Rightarrow> int \<Rightarrow> u8 list option \<Rightarrow> yaffs_ext_tags \<Rightarrow>
      int \<times> yaffs_ext_tags \<times> ('n, 'x) yaffs_dev_scheme) \<Rightarrow> int \<Rightarrow> u8 list \<Rightarrow> nat \<Rightarrow> u8 list \<Rightarrow> nat \<Rightarrow>
   u8 list \<Rightarrow> yaffs_ext_tags \<Rightarrow> int \<Rightarrow> int \<Rightarrow> ('n, 'x) yaffs_dev_scheme \<Rightarrow> int \<times> ('n, 'x) yaffs_dev_scheme" where
  "summary_write_loop wr blk hdr per_chunk sum_buffer todo buffer tags chunk_in_nand chunk_in_block dev =
     (let this_tx = min todo per_chunk;
          buffer = hdr @ take this_tx sum_buffer @ drop (16 + this_tx) buffer;
          tags = tags\<lparr>n_bytes := word_of_nat (this_tx + 16)\<rparr>;
          (result, tags, dev) = wr dev chunk_in_nand (Some buffer) tags
      in if result \<noteq> YAFFS_OK then (result, dev)
         else
          (let dev = yaffs_set_chunk_bit dev blk chunk_in_block;
               dev = upd_block_info dev blk (\<lambda>bi. bi\<lparr>pages_in_use := s10 (pages_in_use bi + 1)\<rparr>);
               dev = dev\<lparr>n_free_chunks := n_free_chunks dev - 1\<rparr>
           in if todo - this_tx > 0 \<and> this_tx > 0
              then summary_write_loop wr blk hdr per_chunk (drop this_tx sum_buffer) (todo - this_tx) buffer
                     (tags\<lparr>chunk_id := chunk_id tags + 1\<rparr>) (chunk_in_nand + 1) (chunk_in_block + 1) dev
              else (result, dev)))"
  by pat_completeness auto
termination by (relation "measure (\<lambda>(_, _, _, _, _, todo, _). todo)") auto

declare summary_write_loop.simps [simp del]

definition yaffs_summary_write ::
  "(('n, 'x) yaffs_dev_scheme \<Rightarrow> int \<Rightarrow> u8 list option \<Rightarrow> yaffs_ext_tags \<Rightarrow>
      int \<times> yaffs_ext_tags \<times> ('n, 'x) yaffs_dev_scheme) \<Rightarrow>
   ('n, 'x) yaffs_dev_scheme \<Rightarrow> int \<Rightarrow> int \<times> ('n, 'x) yaffs_dev_scheme" where
  "yaffs_summary_write wr dev blk =
     (let todo = 12 * nat (chunks_per_summary dev);
          tags = zero_tags\<lparr>obj_id := YAFFS_OBJECTID_SUMMARY, chunk_id := 1\<rparr>;
          chunk_in_block = chunks_per_summary dev;
          chunk_in_nand = alloc_block dev * cpb dev + chunks_per_summary dev;
          hdr = \<lparr>hdr_version = YAFFS_SUMMARY_VERSION, hdr_block = word_of_int blk,
                 hdr_seq = bi_seq_number (yaffs_get_block_info dev blk), hdr_sum = yaffs_summary_sum dev\<rparr>;
          (result, dev) = summary_write_loop wr blk (hdr_bytes (host_le dev) hdr)
             (data_bytes_per_chunk dev - 16) (sum_buffer_of dev) todo (temp_fill dev) tags
             chunk_in_nand chunk_in_block dev
      in (result, if result = YAFFS_OK then upd_block_info dev blk (\<lambda>bi. bi\<lparr>has_summary := True\<rparr>) else dev))"

definition yaffs_summary_add ::
  "(('n, 'x) yaffs_dev_scheme \<Rightarrow> int \<Rightarrow> u8 list option \<Rightarrow> yaffs_ext_tags \<Rightarrow>
      int \<times> yaffs_ext_tags \<times> ('n, 'x) yaffs_dev_scheme) \<Rightarrow>
   ('n, 'x) yaffs_dev_scheme \<Rightarrow> yaffs_ext_tags \<Rightarrow> int \<Rightarrow> ('n, 'x) yaffs_dev_scheme" where
  "yaffs_summary_add wr dev tags chunk_in_nand =
     (let block_in_nand = chunk_in_nand div cpb dev; chunk_in_block = chunk_in_nand mod cpb dev
      in case sum_tags dev of None \<Rightarrow> dev
         | Some ts \<Rightarrow>
           if 0 \<le> chunk_in_block \<and> chunk_in_block < chunks_per_summary dev then
             (let tags_only = yaffs_pack_tags2_tags_only dev tags;
                  dev = dev\<lparr>sum_tags := Some (ts[nat chunk_in_block :=
                      \<lparr>sum_obj_id = pt_obj_id tags_only, sum_chunk_id = pt_chunk_id tags_only,
                       sum_n_bytes = pt_n_bytes tags_only\<rparr>])\<rparr>
              in if chunk_in_block = chunks_per_summary dev - 1
                 then yaffs_skip_rest_of_block (yaffs_summary_clear (snd (yaffs_summary_write wr dev block_in_nand)))
                 else dev)
           else dev)"

text \<open>The write at a given recursion depth. It returns the tags too: the call fills in the
  sequence number, and its caller may go on using them.\<close>

fun wr_chunk_tags_nand_upto ::
  "nat \<Rightarrow> ('n, 'x) yaffs_dev_scheme \<Rightarrow> int \<Rightarrow> u8 list option \<Rightarrow> yaffs_ext_tags \<Rightarrow>
   int \<times> yaffs_ext_tags \<times> ('n, 'x) yaffs_dev_scheme" where
  "wr_chunk_tags_nand_upto depth dev nand_chunk buffer tags =
     (let flash_chunk = nand_chunk - chunk_offset dev;
          dev = upd_stats dev (\<lambda>s. s\<lparr>n_page_writes := n_page_writes s + 1\<rparr>);
          tags = tags\<lparr>seq_number := dev_seq_number dev, chunk_used := 1\<rparr>;
          (result, n) = write_chunk_tags_fn (tagger dev) (nand dev) flash_chunk buffer tags;
          dev = dev\<lparr>nand := n\<rparr>;
          dev = (case depth of 0 \<Rightarrow> dev
                 | Suc d \<Rightarrow> yaffs_summary_add (wr_chunk_tags_nand_upto d) dev tags nand_chunk)
      in (result, tags, dev))"

declare wr_chunk_tags_nand_upto.simps [simp del]

definition yaffs_wr_chunk_tags_nand ::
  "('n, 'x) yaffs_dev_scheme \<Rightarrow> int \<Rightarrow> u8 list option \<Rightarrow> yaffs_ext_tags \<Rightarrow>
   int \<times> yaffs_ext_tags \<times> ('n, 'x) yaffs_dev_scheme" where
  "yaffs_wr_chunk_tags_nand = wr_chunk_tags_nand_upto 2"

section \<open>Reading a summary back\<close>

text \<open>\<open>st\<close> is the array the summary is read into: \<open>None\<close> stands for \<open>dev->sum_tags\<close> itself
  (the only argument the code passes), \<open>Some\<close> for another array. The loop returns its bytes.
  Like the writing loop it carries at least one byte per chunk.\<close>

function summary_read_loop ::
  "bool \<Rightarrow> int \<Rightarrow> nat \<Rightarrow> u8 list \<Rightarrow> nat \<Rightarrow> nat \<Rightarrow> u32 \<Rightarrow> int \<Rightarrow> int \<Rightarrow> u8 list \<Rightarrow>
   ('n, 'x) yaffs_dev_scheme \<Rightarrow> int \<times> u8 list \<times> u8 list \<times> ('n, 'x) yaffs_dev_scheme" where
  "summary_read_loop scanning blk per_chunk sum_buffer at todo chunk chunk_in_nand chunk_in_block hdr dev =
     (let this_tx = min todo per_chunk;
          (result, buffer, tags, dev) = yaffs_rd_chunk_tags_nand dev chunk_in_nand True;
          result = (if chunk_id tags \<noteq> chunk \<or> obj_id tags \<noteq> YAFFS_OBJECTID_SUMMARY \<or> chunk_used tags = 0
                       \<or> ecc_result tags > YAFFS_ECC_RESULT_FIXED \<or> n_bytes tags \<noteq> word_of_nat (this_tx + 16)
                    then YAFFS_FAIL else result)
      in if result \<noteq> YAFFS_OK then (result, hdr, sum_buffer, dev)
         else
          (let dev = (if scanning then
                 upd_block_info (yaffs_set_chunk_bit dev blk chunk_in_block) blk
                   (\<lambda>bi. bi\<lparr>pages_in_use := s10 (pages_in_use bi + 1)\<rparr>) else dev);
               hdr = take 16 buffer;
               sum_buffer = take at sum_buffer @ take this_tx (drop 16 buffer) @ drop (at + this_tx) sum_buffer
           in if todo - this_tx > 0 \<and> this_tx > 0
              then summary_read_loop scanning blk per_chunk sum_buffer (at + this_tx) (todo - this_tx)
                     (chunk + 1) (chunk_in_nand + 1) (chunk_in_block + 1) hdr dev
              else (result, hdr, sum_buffer, dev)))"
  by pat_completeness auto
termination by (relation "measure (\<lambda>(_, _, _, _, _, todo, _). todo)") auto

declare summary_read_loop.simps [simp del]

definition yaffs_summary_read ::
  "('n, 'x) yaffs_dev_scheme \<Rightarrow> yaffs_summary_tags list option \<Rightarrow> int \<Rightarrow>
   int \<times> yaffs_summary_tags list option \<times> ('n, 'x) yaffs_dev_scheme" where
  "yaffs_summary_read dev st blk =
     (let scanning = (st = None);
          todo = 12 * nat (chunks_per_summary dev);
          buf = (case st of None \<Rightarrow> sum_buffer_of dev | Some ts \<Rightarrow> sum_tags_bytes (host_le dev) ts);
          (result, hdr, buf, dev) = summary_read_loop scanning blk (data_bytes_per_chunk dev - 16) buf 0 todo 1
             (blk * cpb dev + chunks_per_summary dev) (chunks_per_summary dev) [] dev;
          new = sum_tags_of_bytes (host_le dev) (nat (chunks_per_summary dev)) buf;
          dev = (if scanning then dev\<lparr>sum_tags := Some new\<rparr> else dev);
          h = hdr_of_bytes (host_le dev) hdr;
          result = (if result = YAFFS_OK \<and>
                       (hdr_version h \<noteq> YAFFS_SUMMARY_VERSION
                        \<or> hdr_seq h \<noteq> bi_seq_number (yaffs_get_block_info dev blk)
                        \<or> hdr_sum h \<noteq> yaffs_summary_sum dev)
                    then YAFFS_FAIL else result);
          dev = (if scanning \<and> result = YAFFS_OK then upd_block_info dev blk (\<lambda>bi. bi\<lparr>has_summary := True\<rparr>) else dev)
      in (result, if scanning then None else Some new, dev))"

text \<open>\<open>old\<close> is what the caller's tags hold before, \<open>stack\<close> the old contents of the sequence number
  of the local structure, which the code never sets.\<close>

definition yaffs_summary_fetch ::
  "u32 \<Rightarrow> ('n, 'x) yaffs_dev_scheme \<Rightarrow> yaffs_ext_tags \<Rightarrow> int \<Rightarrow> int \<times> yaffs_ext_tags" where
  "yaffs_summary_fetch stack dev old chunk_in_block =
     (if 0 \<le> chunk_in_block \<and> chunk_in_block < chunks_per_summary dev then
        (let t = the (sum_tags dev) ! nat chunk_in_block;
             tags_only = \<lparr>pt_seq_number = stack, pt_obj_id = sum_obj_id t, pt_chunk_id = sum_chunk_id t,
                          pt_n_bytes = sum_n_bytes t\<rparr>
         in (YAFFS_OK, yaffs_unpack_tags2_tags_only dev tags_only))
      else (YAFFS_FAIL, old))"

definition summary_gc_step :: "int \<Rightarrow> int \<Rightarrow> ('n, 'x) yaffs_dev_scheme \<Rightarrow> ('n, 'x) yaffs_dev_scheme" where
  "summary_gc_step blk i dev =
     (if yaffs_check_chunk_bit dev blk i then
        (let dev = yaffs_clear_chunk_bit dev blk i;
             dev = upd_block_info dev blk (\<lambda>bi. bi\<lparr>pages_in_use := s10 (pages_in_use bi - 1)\<rparr>)
         in dev\<lparr>n_free_chunks := n_free_chunks dev + 1\<rparr>)
      else dev)"

definition yaffs_summary_gc :: "('n, 'x) yaffs_dev_scheme \<Rightarrow> int \<Rightarrow> ('n, 'x) yaffs_dev_scheme" where
  "yaffs_summary_gc dev blk =
     (if \<not> has_summary (yaffs_get_block_info dev blk) then dev
      else fold (summary_gc_step blk) [chunks_per_summary dev..cpb dev - 1] dev)"

section \<open>Configuration and recursion depth\<close>

lemma dev_config_handle_chunk_error [simp, dev_frame]:
  "dev_config (yaffs_handle_chunk_error dev blk) = dev_config dev"
  by (simp add: yaffs_handle_chunk_error_def Let_def dev_config_def upd_block_info_def)

lemma dev_config_skip_rest [simp, dev_frame]: "dev_config (yaffs_skip_rest_of_block dev) = dev_config dev"
  by (simp add: yaffs_skip_rest_of_block_def dev_config_def upd_block_info_def)

lemma dev_config_set_bit [simp, dev_frame]:
  "dev_config (yaffs_set_chunk_bit dev b c) = dev_config dev"
  "dev_config (yaffs_clear_chunk_bit dev b c) = dev_config dev"
  "dev_config (yaffs_clear_chunk_bits dev b) = dev_config dev"
  by (simp_all add: yaffs_set_chunk_bit_def yaffs_clear_chunk_bit_def yaffs_clear_chunk_bits_def Let_def dev_config_def)

lemma dev_config_summary_clear [simp, dev_frame]: "dev_config (yaffs_summary_clear dev) = dev_config dev"
  by (simp add: yaffs_summary_clear_def dev_config_def split: option.split)

lemma dev_config_update [simp]:
  "dev_config (dev\<lparr>n_free_chunks := f\<rparr>) = dev_config dev" "dev_config (dev\<lparr>nand := n\<rparr>) = dev_config dev"
  "dev_config (dev\<lparr>sum_tags := ts\<rparr>) = dev_config dev"
  by (simp_all add: dev_config_def)

lemma dev_config_rd:
  "yaffs_rd_chunk_tags_nand dev c w = (r, b, t, dev') \<Longrightarrow> dev_config dev' = dev_config dev"
  by (auto simp: yaffs_rd_chunk_tags_nand_def Let_def split: prod.splits if_splits)

lemma dev_config_mark_bad: "dev_config (snd (yaffs_mark_bad dev b)) = dev_config dev"
  by (simp add: yaffs_mark_bad_def Let_def split: prod.split)

lemma dev_config_erase: "dev_config (snd (yaffs_erase_block dev b)) = dev_config dev"
  by (simp add: yaffs_erase_block_def Let_def split: prod.split)

text \<open>A writer keeps the configuration when the write it calls does.\<close>

lemma dev_config_write_loop:
  assumes wr: "\<And>d c b t. dev_config (snd (snd (wr d c b t))) = dev_config d"
  shows "dev_config (snd (summary_write_loop wr blk hdr k sb todo buffer tags c cb dev)) = dev_config dev"
proof (induction todo arbitrary: sb buffer tags c cb dev rule: less_induct)
  case (less todo)
  obtain r t d where w: "wr dev c (Some (hdr @ take (min todo k) sb @ drop (16 + min todo k) buffer))
      (tags\<lparr>n_bytes := word_of_nat (min todo k + 16)\<rparr>) = (r, t, d)"
    by (metis prod_cases3)
  then have "dev_config d = dev_config dev" using wr by (metis snd_conv)
  then show ?case
    by (subst summary_write_loop.simps) (simp only: Let_def w prod.case, simp add: less.IH)
qed

lemma dev_config_summary_write:
  assumes "\<And>d c b t. dev_config (snd (snd (wr d c b t))) = dev_config d"
  shows "dev_config (snd (yaffs_summary_write wr dev blk)) = dev_config dev"
  using dev_config_write_loop [of wr, OF assms]
  by (simp add: yaffs_summary_write_def Let_def case_prod_beta)

lemma dev_config_summary_add:
  assumes "\<And>d c b t. dev_config (snd (snd (wr d c b t))) = dev_config d"
  shows "dev_config (yaffs_summary_add wr dev tags c) = dev_config dev"
  using dev_config_summary_write [of wr, OF assms]
  by (simp add: yaffs_summary_add_def Let_def split: option.split)

lemma dev_config_wr_upto: "dev_config (snd (snd (wr_chunk_tags_nand_upto depth dev c b t))) = dev_config dev"
proof (induction depth arbitrary: dev c b t)
  case 0
  show ?case by (subst wr_chunk_tags_nand_upto.simps) (simp add: Let_def split: prod.split)
next
  case (Suc d)
  show ?case
    by (subst wr_chunk_tags_nand_upto.simps)
      (simp add: Let_def dev_config_summary_add [of "wr_chunk_tags_nand_upto d", OF Suc] split: prod.split)
qed

lemma dev_config_wr [dev_frame]: "dev_config (snd (snd (yaffs_wr_chunk_tags_nand dev c b t))) = dev_config dev"
  by (simp add: yaffs_wr_chunk_tags_nand_def dev_config_wr_upto)

text \<open>The summary of the covered chunks fits into the chunks behind them.\<close>

definition summary_fits :: "('n, 'x) yaffs_dev_scheme \<Rightarrow> bool" where
  "summary_fits dev \<longleftrightarrow> 16 < data_bytes_per_chunk dev \<and> 0 \<le> chunks_per_summary dev \<and>
     chunks_per_summary dev < cpb dev \<and>
     12 * chunks_per_summary dev \<le> (cpb dev - chunks_per_summary dev) * (int (data_bytes_per_chunk dev) - 16)"

lemma summary_write_loop_cong:
  assumes agree: "\<And>d c b t. dev_config d = dev_config dev \<Longrightarrow> cps \<le> c mod cpb dev \<Longrightarrow> wr d c b t = wr' d c b t"
    and wr: "\<And>d c b t. dev_config (snd (snd (wr d c b t))) = dev_config d"
    and k: "0 < k" and "dev_config dv = dev_config dev" "cps \<le> i" "0 \<le> i" "i < cpb dev"
      "int todo \<le> (cpb dev - i) * int k"
  shows "summary_write_loop wr blk hdr k sb todo buffer tags (B * cpb dev + i) j dv =
    summary_write_loop wr' blk hdr k sb todo buffer tags (B * cpb dev + i) j dv"
  using assms(4-)
proof (induction todo arbitrary: sb buffer tags i j dv rule: less_induct)
  case (less todo)
  let ?n = "min todo k" and ?c = "B * cpb dev + i"
  let ?b = "Some (hdr @ take ?n sb @ drop (16 + ?n) buffer)" and ?t = "tags\<lparr>n_bytes := word_of_nat (?n + 16)\<rparr>"
  have "?c mod cpb dev = i" using less.prems by simp
  then have same: "wr' dv ?c ?b ?t = wr dv ?c ?b ?t" using agree less.prems by simp
  obtain r t d where w: "wr dv ?c ?b ?t = (r, t, d)" by (metis prod_cases3)
  have d: "dev_config d = dev_config dev" using wr w less.prems(1) by (metis snd_conv)
  have rest: "i + 1 < cpb dev \<and> int (todo - k) \<le> (cpb dev - (i + 1)) * int k" if "k < todo"
  proof -
    have *: "int (todo - k) \<le> (cpb dev - (i + 1)) * int k"
      using that less.prems by (simp add: algebra_simps)
    moreover have "i + 1 < cpb dev"
    proof (rule ccontr)
      assume "\<not> i + 1 < cpb dev"
      then have "(cpb dev - (i + 1)) * int k = 0" using less.prems by simp
      with * that show False by simp
    qed
    ultimately show ?thesis by simp
  qed
  have IH: "summary_write_loop wr blk hdr k sb' (todo - k) b' t' (?c + 1) j' d' =
      summary_write_loop wr' blk hdr k sb' (todo - k) b' t' (?c + 1) j' d'"
    if "k < todo" "dev_config d' = dev_config dev" for sb' b' t' j' d'
    using less.IH [of "todo - k" d' "i + 1"] that k rest [OF that(1)] less.prems
    by (simp add: add.assoc)
  show ?case
  proof (cases "k < todo \<and> r = YAFFS_OK")
    case True
    then have min: "min todo k = k" by simp
    show ?thesis
      using True k d w same
      by (subst (1 2) summary_write_loop.simps) (simp add: Let_def min IH)
  next
    case False
    then show ?thesis
      using w same
      by (subst (1 2) summary_write_loop.simps) (auto simp: Let_def min_def)
  qed
qed

lemma summary_add_cong:
  assumes agree: "\<And>d c b t. dev_config d = dev_config dev \<Longrightarrow> chunks_per_summary dev \<le> c mod cpb dev \<Longrightarrow>
      wr d c b t = wr' d c b t"
    and wr: "\<And>d c b t. dev_config (snd (snd (wr d c b t))) = dev_config d"
    and fits: "summary_fits dev"
  shows "yaffs_summary_add wr dev tags c = yaffs_summary_add wr' dev tags c"
proof -
  have "yaffs_summary_write wr d blk = yaffs_summary_write wr' d blk" if d: "dev_config d = dev_config dev" for d blk
  proof -
    note cfg = dev_configD [OF d]
    have "summary_write_loop wr blk hdr (data_bytes_per_chunk dev - 16) sb (12 * nat (chunks_per_summary dev))
        fill t (alloc_block d * cpb dev + chunks_per_summary dev) (chunks_per_summary dev) d =
      summary_write_loop wr' blk hdr (data_bytes_per_chunk dev - 16) sb (12 * nat (chunks_per_summary dev))
        fill t (alloc_block d * cpb dev + chunks_per_summary dev) (chunks_per_summary dev) d" for hdr sb fill t
      by (rule summary_write_loop_cong [OF agree wr _ d])
        (use fits in \<open>auto simp: summary_fits_def of_nat_diff\<close>)
    then show ?thesis by (simp add: yaffs_summary_write_def Let_def cfg)
  qed
  then show ?thesis
    by (simp add: yaffs_summary_add_def Let_def split: option.split)
qed

lemma summary_add_behind:
  "chunks_per_summary dev \<le> c mod cpb dev \<Longrightarrow> yaffs_summary_add wr dev tags c = dev"
  by (simp add: yaffs_summary_add_def Let_def split: option.split)

lemma wr_upto_behind:
  assumes "chunks_per_summary dev \<le> c mod cpb dev"
  shows "wr_chunk_tags_nand_upto n dev c b t = wr_chunk_tags_nand_upto 0 dev c b t"
  using assms
  by (subst (1 2) wr_chunk_tags_nand_upto.simps)
    (auto simp: Let_def summary_add_behind upd_stats_def split: nat.split prod.split)

lemma wr_upto_enough:
  assumes "summary_fits dev"
  shows "wr_chunk_tags_nand_upto (Suc n) dev c b t = wr_chunk_tags_nand_upto 1 dev c b t"
proof -
  have same: "yaffs_summary_add (wr_chunk_tags_nand_upto n) d tags c = yaffs_summary_add (wr_chunk_tags_nand_upto 0) d tags c"
    if "dev_config d = dev_config dev" for d tags
  proof (rule summary_add_cong)
    show "summary_fits d" using assms dev_configD [OF that] by (simp add: summary_fits_def)
    fix d' c b t assume c: "dev_config d' = dev_config d" "chunks_per_summary d \<le> c mod cpb d"
    show "wr_chunk_tags_nand_upto n d' c b t = wr_chunk_tags_nand_upto 0 d' c b t"
      using wr_upto_behind [of d' c n] c(2) dev_configD [OF c(1)] by simp
  qed (rule dev_config_wr_upto)
  have step: "yaffs_summary_add (wr_chunk_tags_nand_upto n) (upd_stats dev h\<lparr>nand := m\<rparr>) tags c =
      yaffs_summary_add (wr_chunk_tags_nand_upto 0) (upd_stats dev h\<lparr>nand := m\<rparr>) tags c" for h m tags
    by (rule same) simp
  show ?thesis
    unfolding One_nat_def wr_chunk_tags_nand_upto.simps [of "Suc n"] wr_chunk_tags_nand_upto.simps [of "Suc 0"]
    by (simp only: Let_def nat.case step)
qed

text \<open>C33: a summary written at the end of a block never triggers another one: following the
  mutual recursion between writing a chunk and writing the summary to any depth beyond one gives
  the same result, whenever the summary fits behind the chunks it covers.\<close>

theorem wr_depth_enough:
  assumes "summary_fits dev"
  shows "wr_chunk_tags_nand_upto (Suc n) dev c b t = yaffs_wr_chunk_tags_nand dev c b t"
  using wr_upto_enough [OF assms, of n c b t] wr_upto_enough [OF assms, of 1 c b t]
  by (simp add: yaffs_wr_chunk_tags_nand_def numeral_2_eq_2)

section \<open>Sizing and contents of a summary\<close>

lemma summary_init_used:
  assumes "16 < (d :: int)" "0 < c"
  shows "1 \<le> (c * 12 + d - 1) div (d - 16)" "c * 12 + 16 \<le> (c * 12 + d - 1) div (d - 16) * (d - 16)"
proof -
  show "1 \<le> (c * 12 + d - 1) div (d - 16)"
    using assms pos_imp_zdiv_pos_iff [of "d - 16" "c * 12 + d - 1"] by (simp add: int_one_le_iff_zero_less)
  have "(c * 12 + d - 1) mod (d - 16) < d - 16" using assms by simp
  then show "c * 12 + 16 \<le> (c * 12 + d - 1) div (d - 16) * (d - 16)"
    using div_mult_mod_eq [of "c * 12 + d - 1" "d - 16"] by linarith
qed

text \<open>C34: when summaries can be set up, the number of covered chunks that initialisation computes
  leaves enough chunks at the end of the block for all summary entries and their headers, so the
  summary never runs past the block; the array it clears has one entry per covered chunk.\<close>

theorem summary_init_fits:
  assumes "yaffs_summary_init mem gc_mem dev = (YAFFS_OK, dev')"
    and "0 < cpb dev" "16 < data_bytes_per_chunk dev" "0 \<le> chunks_per_summary dev'"
  shows "summary_fits dev' \<and>
    sum_tags dev' = Some (replicate (nat (chunks_per_summary dev')) zero_sum_tags)"
proof -
  let ?d = "int (data_bytes_per_chunk dev)" and ?used = "(cpb dev * 12 + int (data_bytes_per_chunk dev) - 1)
    div (int (data_bytes_per_chunk dev) - 16)"
  have d: "dev' = yaffs_summary_clear (dev\<lparr>chunks_per_summary := cpb dev - ?used, sum_tags := mem, gc_sum_tags := gc_mem\<rparr>)"
    "mem \<noteq> None"
    using assms(1) by (auto simp: yaffs_summary_init_def Let_def split: if_splits)
  have f: "chunks_per_summary dev' = cpb dev - ?used" "cpb dev' = cpb dev"
    "data_bytes_per_chunk dev' = data_bytes_per_chunk dev"
    using d by (auto simp: yaffs_summary_clear_def)
  note u = summary_init_used [of ?d "cpb dev"]
  have "12 * chunks_per_summary dev' \<le> (cpb dev' - chunks_per_summary dev') * (?d - 16)"
    using u assms f by simp
  then show ?thesis
    using assms u f d by (auto simp: summary_fits_def yaffs_summary_clear_def)
qed

lemma pack_seq:
  "yaffs_pack_tags2_tags_only dev (t\<lparr>seq_number := s\<rparr>) =
   (yaffs_pack_tags2_tags_only dev t)\<lparr>pt_seq_number := if swap_endian dev then swap_u32 s else s\<rparr>"
  by (simp add: yaffs_pack_tags2_tags_only_def yaffs_do_endian_packed_tags2_def Let_def
      yaffs_check_tags_extra_packable_def)

lemma unpack_dev: "swap_endian d = swap_endian d' \<Longrightarrow>
   yaffs_unpack_tags2_tags_only d p = yaffs_unpack_tags2_tags_only d' p"
  by (simp add: yaffs_unpack_tags2_tags_only_def yaffs_do_endian_packed_tags2_def)

text \<open>C31: Tags that fit the packed fields and belong to a covered chunk are entered into the summary under
  construction: from the table that results they are fetched with every field
  the summary keeps (all but the sequence number), provided the uninitialised stack word that the
  fetch passes as a sequence number does not happen to be all ones - if it is, the chunk is
  reported as never written - and every other chunk is fetched as before. Before the last covered chunk this
  table is the only change to the device. At the last one it is this table that is written out to
  the block; then it is cleared and the rest of the block is skipped.\<close>

theorem summary_fetch_add:
  assumes "sum_tags dev = Some ts" "length ts = nat (chunks_per_summary dev)" "0 < cpb dev"
    and "c mod cpb dev < chunks_per_summary dev" and "tags_fit tags"
  shows "\<exists>ts'. let dev' = dev\<lparr>sum_tags := Some ts'\<rparr> in
    yaffs_summary_add wr dev tags c = (if c mod cpb dev < chunks_per_summary dev - 1 then dev'
      else yaffs_skip_rest_of_block (yaffs_summary_clear (snd (yaffs_summary_write wr dev' (c div cpb dev))))) \<and>
    (\<forall>j. yaffs_summary_fetch stack dev' old j = (if j \<noteq> c mod cpb dev then yaffs_summary_fetch stack dev old j
      else (YAFFS_OK, if stack = 0xffffffff then zero_tags
        else (stored_tags tags)\<lparr>seq_number := if swap_endian dev then swap_u32 stack else stack\<rparr>)))"
proof -
  let ?i = "nat (c mod cpb dev)" and ?p = "yaffs_pack_tags2_tags_only dev tags"
  let ?s = "if swap_endian dev then swap_u32 stack else stack"
  let ?e = "\<lparr>sum_obj_id = pt_obj_id ?p, sum_chunk_id = pt_chunk_id ?p, sum_n_bytes = pt_n_bytes ?p\<rparr>"
  let ?dev' = "dev\<lparr>sum_tags := Some (ts[?i := ?e])\<rparr>"
  have m: "0 \<le> c mod cpb dev" using assms(3) by simp
  have add: "yaffs_summary_add wr dev tags c = (if c mod cpb dev < chunks_per_summary dev - 1 then ?dev'
      else yaffs_skip_rest_of_block (yaffs_summary_clear (snd (yaffs_summary_write wr ?dev' (c div cpb dev)))))"
    using assms m by (auto simp: yaffs_summary_add_def Let_def)
  from m assms have i: "?i < length ts" by linarith
  have eq: "\<lparr>pt_seq_number = stack, pt_obj_id = pt_obj_id ?p, pt_chunk_id = pt_chunk_id ?p,
      pt_n_bytes = pt_n_bytes ?p\<rparr> = yaffs_pack_tags2_tags_only dev (tags\<lparr>seq_number := ?s\<rparr>)"
    unfolding pack_seq by simp
  have "yaffs_unpack_tags2_tags_only dev (yaffs_pack_tags2_tags_only dev (tags\<lparr>seq_number := ?s\<rparr>)) =
      (stored_tags tags)\<lparr>seq_number := ?s\<rparr>" if "stack \<noteq> 0xffffffff"
  proof -
    have "?s \<noteq> 0xffffffff" using that swap_all_ones by (metis swap_u32_swap_u32)
    then have "tags_fit (tags\<lparr>seq_number := ?s\<rparr>)"
      using assms(5) by (simp add: tags_fit_def yaffs_check_tags_extra_packable_def)
    from unpack_pack_tags_only [OF this, of dev] show ?thesis
      by (simp add: stored_tags_def Let_def yaffs_check_tags_extra_packable_def)
  qed
  then have own: "yaffs_summary_fetch stack ?dev' old (c mod cpb dev) =
      (YAFFS_OK, if stack = 0xffffffff then zero_tags else (stored_tags tags)\<lparr>seq_number := ?s\<rparr>)"
    using i m assms(4) unfolding yaffs_summary_fetch_def
    by (auto simp: eq unpack_dev [of ?dev' dev] Let_def)
      (simp_all add: yaffs_unpack_tags2_tags_only_def pack_seq)
  have other: "yaffs_summary_fetch stack ?dev' old j = yaffs_summary_fetch stack dev old j" if "j \<noteq> c mod cpb dev" for j
  proof (cases "0 \<le> j")
    case True
    then have "nat j \<noteq> ?i" using that m by linarith
    then show ?thesis by (simp add: yaffs_summary_fetch_def Let_def assms(1) unpack_dev [of ?dev' dev])
  qed (simp add: yaffs_summary_fetch_def)
  have "yaffs_summary_fetch stack ?dev' old j = (if j \<noteq> c mod cpb dev then yaffs_summary_fetch stack dev old j
      else (YAFFS_OK, if stack = 0xffffffff then zero_tags else (stored_tags tags)\<lparr>seq_number := ?s\<rparr>))" for j
    by (cases "j = c mod cpb dev") (simp_all only: own other if_True if_False simp_thms not_True_eq_False)
  with add show ?thesis unfolding Let_def by blast
qed

subsection \<open>The small device with summaries\<close>

definition summary_dev :: "unit yaffs_dev" where
  "summary_dev = small_dev\<lparr>chunks_per_summary := 2, sum_tags := Some [zero_sum_tags, zero_sum_tags],
     gc_sum_tags := Some []\<rparr>"

lemma summary_dev_init: "yaffs_summary_init (Some []) (Some []) small_dev = (YAFFS_OK, summary_dev)"
  by (simp add: yaffs_summary_init_def summary_dev_def small_dev_def zero_dev_def small_param_def
      yaffs_summary_clear_def Let_def numeral_2_eq_2)

lemma summary_dev_simps [simp]: "cpb summary_dev = 4" "chunks_per_summary summary_dev = 2"
  "data_bytes_per_chunk summary_dev = 64" "sum_tags summary_dev = Some [zero_sum_tags, zero_sum_tags]"
  "cpb small_dev = 4" "data_bytes_per_chunk small_dev = 64" "swap_endian summary_dev = False"
  by (simp_all add: summary_dev_def small_dev_def zero_dev_def small_param_def)

lemma summary_dev_fits: "summary_fits summary_dev"
  by (simp add: summary_fits_def)

lemma summary_init_fits_witness: "summary_fits summary_dev \<and> sum_tags summary_dev = Some (replicate 2 zero_sum_tags)"
  using summary_init_fits [OF summary_dev_init] by simp

lemma wr_depth_enough_witness:
  "wr_chunk_tags_nand_upto 7 summary_dev 5 None zero_tags = yaffs_wr_chunk_tags_nand summary_dev 5 None zero_tags"
  using wr_depth_enough [OF summary_dev_fits, of 6 5 None zero_tags] by simp

lemma summary_fetch_add_witness:
  "yaffs_summary_fetch 7 (yaffs_summary_add yaffs_wr_chunk_tags_nand summary_dev example_dev_tags 4) zero_tags 0
   = (YAFFS_OK, (stored_tags example_dev_tags)\<lparr>seq_number := 7\<rparr>)"
  using summary_fetch_add [of summary_dev "[zero_sum_tags, zero_sum_tags]" 4 example_dev_tags
      yaffs_wr_chunk_tags_nand 7 zero_tags, OF _ _ _ _ example_tags_fit] by (auto simp: Let_def)

end
