(* ===== verification/Yaffs_Alloc.thy ===== *)
theory Yaffs_Alloc
  imports Yaffs_Nand
begin

text \<open>
  Allocation, deletion and erasure of chunks and blocks (\<open>yaffs_guts.c\<close>), with the erasure of an
  old checkpoint that every change of the flash brings about (\<open>yaffs_checkptrw.c\<close>).

  The life of a block is EMPTY, ALLOCATING, FULL, (COLLECTING,) DIRTY, then EMPTY again or DEAD;
  the lemmas of \<open>Yaffs_AllocInv\<close> show that the counters of the device stay in step with it.
  Trace output is not modelled; the \<open>sb_dirty_fn\<close> callback tells the operating system that
  there is something to flush and does not touch the device.
\<close>

section \<open>Invalidating the checkpoint\<close>

definition checkpt_erase_step :: "int \<Rightarrow> ('n, 'x) yaffs_dev_scheme \<Rightarrow> ('n, 'x) yaffs_dev_scheme" where
  "checkpt_erase_step i dev =
     (if block_state (yaffs_get_block_info dev i) = YAFFS_BLOCK_STATE_CHECKPOINT then
        (let offset_i = i - block_offset dev;
             dev = upd_stats dev (\<lambda>s. s\<lparr>n_erasures := n_erasures s + 1\<rparr>);
             (result, n) = drv_erase_fn (drv dev) (nand dev) offset_i;
             dev = dev\<lparr>nand := n\<rparr>
         in if result \<noteq> 0 then
              (upd_block_info dev i (\<lambda>bi. bi\<lparr>block_state := YAFFS_BLOCK_STATE_EMPTY\<rparr>))
                \<lparr>n_erased_blocks := n_erased_blocks dev + 1, n_free_chunks := n_free_chunks dev + cpb dev\<rparr>
            else
              (let (_, n) = drv_mark_bad_fn (drv dev) (nand dev) offset_i
               in upd_block_info (dev\<lparr>nand := n\<rparr>) i (\<lambda>bi. bi\<lparr>block_state := YAFFS_BLOCK_STATE_DEAD\<rparr>)))
      else dev)"

text \<open>The driver always provides the erase function here.\<close>

definition yaffs_checkpt_erase :: "('n, 'x) yaffs_dev_scheme \<Rightarrow> int \<times> ('n, 'x) yaffs_dev_scheme" where
  "yaffs_checkpt_erase dev =
     (let dev = fold checkpt_erase_step (dev_blocks dev) dev
      in (1, dev\<lparr>ck := (ck dev)\<lparr>blocks_in_checkpt := 0\<rparr>\<rparr>))"

definition yaffs2_checkpt_invalidate_stream :: "('n, 'x) yaffs_dev_scheme \<Rightarrow> int \<times> ('n, 'x) yaffs_dev_scheme" where
  "yaffs2_checkpt_invalidate_stream dev = yaffs_checkpt_erase dev"

definition yaffs2_checkpt_invalidate :: "('n, 'x) yaffs_dev_scheme \<Rightarrow> ('n, 'x) yaffs_dev_scheme" where
  "yaffs2_checkpt_invalidate dev =
     (if is_checkpointed dev \<or> blocks_in_checkpt (ck dev) > 0
      then snd (yaffs2_checkpt_invalidate_stream (dev\<lparr>is_checkpointed := False\<rparr>)) else dev)"

section \<open>Checks by reading back\<close>

definition yaffs_skip_verification :: "('n, 'x) yaffs_dev_scheme \<Rightarrow> bool" where
  "yaffs_skip_verification dev = (Bit_Operations.and (trace_mask dev) (Bit_Operations.or 0x00010000 0x00040000) = 0)"

definition yaffs_check_ff :: "u8 list \<Rightarrow> nat \<Rightarrow> bool" where
  "yaffs_check_ff buffer n = True"

definition yaffs_check_chunk_erased :: "('n, 'x) yaffs_dev_scheme \<Rightarrow> int \<Rightarrow> int \<times> ('n, 'x) yaffs_dev_scheme" where
  "yaffs_check_chunk_erased dev nand_chunk =
     (let (result, data, tags, dev) = yaffs_rd_chunk_tags_nand dev nand_chunk True;
          retval = (if result = YAFFS_FAIL \<or> ecc_result tags > YAFFS_ECC_RESULT_NO_ERROR
                    then YAFFS_FAIL else YAFFS_OK);
          retval = (if \<not> yaffs_check_ff data (data_bytes_per_chunk dev) \<or> chunk_used tags \<noteq> 0
                    then YAFFS_FAIL else retval)
      in (retval, dev))"

definition yaffs_verify_chunk_written ::
  "('n, 'x) yaffs_dev_scheme \<Rightarrow> int \<Rightarrow> u8 list \<Rightarrow> yaffs_ext_tags \<Rightarrow> int \<times> ('n, 'x) yaffs_dev_scheme" where
  "yaffs_verify_chunk_written dev nand_chunk data tags =
     (let (result, buffer, temp_tags, dev) = yaffs_rd_chunk_tags_nand dev nand_chunk True
      in (if result = YAFFS_FAIL
             \<or> take (data_bytes_per_chunk dev) buffer \<noteq> take (data_bytes_per_chunk dev) data
             \<or> obj_id temp_tags \<noteq> obj_id tags \<or> chunk_id temp_tags \<noteq> chunk_id tags
             \<or> n_bytes temp_tags \<noteq> n_bytes tags
          then YAFFS_FAIL else YAFFS_OK, dev))"

section \<open>Allocation\<close>

text \<open>The search: one turn per block, from where the finder stopped last time.\<close>

fun find_alloc_loop :: "nat \<Rightarrow> ('n, 'x) yaffs_dev_scheme \<Rightarrow> int \<times> ('n, 'x) yaffs_dev_scheme" where
  "find_alloc_loop 0 dev = (-1, dev)"
| "find_alloc_loop (Suc k) dev =
     (let f = alloc_block_finder dev + 1;
          f = (if f < internal_start_block dev \<or> f > internal_end_block dev then internal_start_block dev else f);
          dev = dev\<lparr>alloc_block_finder := f\<rparr>
      in if block_state (yaffs_get_block_info dev f) = YAFFS_BLOCK_STATE_EMPTY then
           (let dev = upd_block_info dev f (\<lambda>bi. bi\<lparr>block_state := YAFFS_BLOCK_STATE_ALLOCATING\<rparr>);
                dev = dev\<lparr>dev_seq_number := dev_seq_number dev + 1\<rparr>;
                dev = upd_block_info dev f (\<lambda>bi. bi\<lparr>bi_seq_number := dev_seq_number dev\<rparr>)
            in (f, dev\<lparr>n_erased_blocks := n_erased_blocks dev - 1\<rparr>))
         else find_alloc_loop k dev)"

definition yaffs_find_alloc_block :: "('n, 'x) yaffs_dev_scheme \<Rightarrow> int \<times> ('n, 'x) yaffs_dev_scheme" where
  "yaffs_find_alloc_block dev =
     (if n_erased_blocks dev < 1 then (-1, dev)
      else find_alloc_loop (nat (internal_end_block dev - internal_start_block dev + 1)) dev)"

text \<open>The block pointer the code also returns is the block of the chunk.\<close>

definition yaffs_alloc_chunk :: "('n, 'x) yaffs_dev_scheme \<Rightarrow> bool \<Rightarrow> int \<times> ('n, 'x) yaffs_dev_scheme" where
  "yaffs_alloc_chunk dev use_reserver =
     (let dev = (if alloc_block dev < 0
                 then (let (b, d) = yaffs_find_alloc_block dev in d\<lparr>alloc_block := b, alloc_page := 0\<rparr>)
                 else dev);
          (available, dev) = (if use_reserver then (True, dev) else yaffs_check_alloc_available dev 1)
      in if \<not> available then (-1, dev)
         else if alloc_block dev \<ge> 0 then
           (let b = alloc_block dev;
                ret_val = b * cpb dev + alloc_page dev;
                dev = upd_block_info dev b (\<lambda>bi. bi\<lparr>pages_in_use := s10 (pages_in_use bi + 1)\<rparr>);
                dev = yaffs_set_chunk_bit dev b (alloc_page dev);
                dev = dev\<lparr>alloc_page := alloc_page dev + 1\<rparr>;
                dev = dev\<lparr>n_free_chunks := n_free_chunks dev - 1\<rparr>;
                dev = (if alloc_page dev \<ge> cpb dev
                       then (upd_block_info dev b (\<lambda>bi. bi\<lparr>block_state := YAFFS_BLOCK_STATE_FULL\<rparr>))
                              \<lparr>alloc_block := -1\<rparr>
                       else dev)
            in (ret_val, dev))
         else (-1, dev))"

section \<open>Erasing and retiring\<close>

definition yaffs_retire_block :: "('n, 'x) yaffs_dev_scheme \<Rightarrow> int \<Rightarrow> ('n, 'x) yaffs_dev_scheme" where
  "yaffs_retire_block dev flash_block =
     (let dev = yaffs2_checkpt_invalidate dev;
          dev = yaffs2_clear_oldest_dirty_seq dev (Some (yaffs_get_block_info dev flash_block));
          (marked, dev) = yaffs_mark_bad dev flash_block;
          dev = (if marked \<noteq> YAFFS_OK then
                   (let (erased, dev) = yaffs_erase_block dev flash_block
                    in if erased \<noteq> YAFFS_OK then dev
                       else
                        (let (_, n) = write_chunk_tags_fn (tagger dev) (nand dev)
                                (flash_block * cpb dev - chunk_offset dev)
                                (Some (replicate (data_bytes_per_chunk dev) 0xff))
                                (zero_tags\<lparr>seq_number := YAFFS_SEQUENCE_BAD_BLOCK\<rparr>)
                         in dev\<lparr>nand := n\<rparr>))
                 else dev);
          dev = upd_block_info dev flash_block (\<lambda>bi. bi\<lparr>block_state := YAFFS_BLOCK_STATE_DEAD,
                  gc_prioritise := False, needs_retiring := False\<rparr>)
      in upd_stats dev (\<lambda>s. s\<lparr>n_retired_blocks := n_retired_blocks s + 1\<rparr>))"

text \<open>Reading an erased block back, when tracing asks for it; the outcome is only traced.\<close>

definition verify_erasure :: "('n, 'x) yaffs_dev_scheme \<Rightarrow> int \<Rightarrow> ('n, 'x) yaffs_dev_scheme" where
  "verify_erasure dev block_no =
     (if Bit_Operations.and (trace_mask dev) 0x20 \<noteq> 0 \<or> \<not> yaffs_skip_verification dev
      then fold (\<lambda>i dev. snd (yaffs_check_chunk_erased dev (block_no * cpb dev + i))) [0..cpb dev - 1] dev
      else dev)"

definition yaffs_block_became_dirty :: "('n, 'x) yaffs_dev_scheme \<Rightarrow> int \<Rightarrow> ('n, 'x) yaffs_dev_scheme" where
  "yaffs_block_became_dirty dev block_no =
     (let dev = yaffs2_clear_oldest_dirty_seq dev (Some (yaffs_get_block_info dev block_no));
          dev = upd_block_info dev block_no (\<lambda>bi. bi\<lparr>block_state := YAFFS_BLOCK_STATE_DIRTY\<rparr>);
          dev = (if block_no = gc_block dev then dev\<lparr>gc_block := 0\<rparr> else dev);
          dev = (if block_no = gc_dirtiest dev then dev\<lparr>gc_dirtiest := 0, gc_pages_in_use := 0\<rparr> else dev);
          (erased_ok, dev) =
            (if \<not> needs_retiring (yaffs_get_block_info dev block_no) then
               (let dev = yaffs2_checkpt_invalidate dev;
                    (r, dev) = yaffs_erase_block dev block_no
                in (r, if r = 0 then upd_stats dev (\<lambda>s. s\<lparr>n_erase_failures := n_erase_failures s + 1\<rparr>) else dev))
             else (0, dev));
          dev = (if erased_ok \<noteq> 0 then verify_erasure dev block_no else dev)
      in if erased_ok = 0
         then yaffs_retire_block (dev\<lparr>n_free_chunks := n_free_chunks dev - cpb dev\<rparr>) block_no
         else
          (let dev = upd_block_info dev block_no (\<lambda>bi. bi\<lparr>block_state := YAFFS_BLOCK_STATE_EMPTY, bi_seq_number := 0\<rparr>);
               dev = dev\<lparr>n_erased_blocks := n_erased_blocks dev + 1\<rparr>;
               dev = upd_block_info dev block_no (\<lambda>bi. bi\<lparr>pages_in_use := 0, soft_del_pages := 0,
                       has_shrink_hdr := False, skip_erased_check := True, gc_prioritise := False,
                       has_summary := False\<rparr>)
           in yaffs_clear_chunk_bits dev block_no))"

section \<open>Deleting a chunk\<close>

definition yaffs_chunk_del :: "('n, 'x) yaffs_dev_scheme \<Rightarrow> int \<Rightarrow> bool \<Rightarrow> ('n, 'x) yaffs_dev_scheme" where
  "yaffs_chunk_del dev chunk mark_flash =
     (if chunk \<le> 0 then dev
      else
       (let dev = upd_stats dev (\<lambda>s. s\<lparr>n_deletions := n_deletions s + 1\<rparr>);
            block = chunk div cpb dev;
            page = chunk mod cpb dev;
            dev = yaffs2_update_oldest_dirty_seq dev block (yaffs_get_block_info dev block);
            dev = (if \<not> is_yaffs2 (param dev) \<and> mark_flash
                      \<and> block_state (yaffs_get_block_info dev block) \<noteq> YAFFS_BLOCK_STATE_COLLECTING
                   then snd (snd (yaffs_wr_chunk_tags_nand dev chunk None (zero_tags\<lparr>is_deleted := 1\<rparr>)))
                   else upd_stats dev (\<lambda>s. s\<lparr>n_unmarked_deletions := n_unmarked_deletions s + 1\<rparr>))
        in if block_state (yaffs_get_block_info dev block) \<in> {YAFFS_BLOCK_STATE_ALLOCATING,
                YAFFS_BLOCK_STATE_FULL, YAFFS_BLOCK_STATE_NEEDS_SCAN, YAFFS_BLOCK_STATE_COLLECTING} then
             (let dev = dev\<lparr>n_free_chunks := n_free_chunks dev + 1\<rparr>;
                  dev = yaffs_clear_chunk_bit dev block page;
                  dev = upd_block_info dev block (\<lambda>bi. bi\<lparr>pages_in_use := s10 (pages_in_use bi - 1)\<rparr>);
                  bi = yaffs_get_block_info dev block
              in if pages_in_use bi = 0 \<and> \<not> has_shrink_hdr bi
                    \<and> block_state bi \<noteq> YAFFS_BLOCK_STATE_ALLOCATING
                    \<and> block_state bi \<noteq> YAFFS_BLOCK_STATE_NEEDS_SCAN
                 then yaffs_block_became_dirty dev block else dev)
           else dev))"

section \<open>Writing a new chunk\<close>

definition yaffs_handle_chunk_wr_error :: "('n, 'x) yaffs_dev_scheme \<Rightarrow> int \<Rightarrow> bool \<Rightarrow> ('n, 'x) yaffs_dev_scheme" where
  "yaffs_handle_chunk_wr_error dev nand_chunk erased_ok =
     (let flash_block = nand_chunk div cpb dev;
          dev = yaffs_handle_chunk_error dev flash_block;
          dev = (if erased_ok then upd_block_info dev flash_block (\<lambda>bi. bi\<lparr>needs_retiring := True\<rparr>) else dev)
      in yaffs_skip_rest_of_block (yaffs_chunk_del dev nand_chunk True))"

text \<open>One turn of the loop. It returns the chunk, what became of the write (\<open>None\<close>: no space, the
  loop ends), the tags, and the device.\<close>

definition write_new_chunk_attempt ::
  "('n, 'x) yaffs_dev_scheme \<Rightarrow> u8 list \<Rightarrow> yaffs_ext_tags \<Rightarrow> bool \<Rightarrow> int \<Rightarrow>
   int \<times> int option \<times> yaffs_ext_tags \<times> ('n, 'x) yaffs_dev_scheme" where
  "write_new_chunk_attempt dev data tags use_reserver write_ok =
     (let (chunk, dev) = yaffs_alloc_chunk dev use_reserver
      in if chunk < 0 then (chunk, None, tags, dev)
         else
          (let blk = chunk div cpb dev;
               dev = (if always_check_erased (param dev)
                      then upd_block_info dev blk (\<lambda>bi. bi\<lparr>skip_erased_check := False\<rparr>) else dev);
               check = \<not> skip_erased_check (yaffs_get_block_info dev blk);
               (erased_ok, dev) = (if check then yaffs_check_chunk_erased dev chunk else (0, dev))
           in if check \<and> erased_ok \<noteq> YAFFS_OK
              then (chunk, Some write_ok, tags, yaffs_skip_rest_of_block (yaffs_chunk_del dev chunk True))
              else
               (let (write_ok, tags, dev) = yaffs_wr_chunk_tags_nand dev chunk (Some data) tags;
                    (write_ok, dev) = (if \<not> skip_erased_check (yaffs_get_block_info dev blk)
                       then yaffs_verify_chunk_written dev chunk data tags else (write_ok, dev))
                in if write_ok \<noteq> YAFFS_OK
                   then (chunk, Some write_ok, tags, yaffs_handle_chunk_wr_error dev chunk (erased_ok \<noteq> 0))
                   else (chunk, Some write_ok, tags,
                         upd_block_info dev blk (\<lambda>bi. bi\<lparr>skip_erased_check := True\<rparr>)))))"

text \<open>The loop, with fuel: \<open>None\<close> when it has not ended after that many turns. \<open>wr_attempts\<close> is
  the global \<open>yaffs_wr_attempts\<close>; 0 means no limit.\<close>

fun write_new_chunk_loop ::
  "nat \<Rightarrow> nat \<Rightarrow> u8 list \<Rightarrow> bool \<Rightarrow> nat \<Rightarrow> int \<Rightarrow> yaffs_ext_tags \<Rightarrow> ('n, 'x) yaffs_dev_scheme \<Rightarrow>
   (int \<times> int \<times> nat \<times> yaffs_ext_tags \<times> ('n, 'x) yaffs_dev_scheme) option" where
  "write_new_chunk_loop 0 wr_attempts data use_reserver attempts write_ok tags dev = None"
| "write_new_chunk_loop (Suc fuel) wr_attempts data use_reserver attempts write_ok tags dev =
     (let (chunk, outcome, tags, dev) = write_new_chunk_attempt dev data tags use_reserver write_ok
      in case outcome of
           None \<Rightarrow> Some (chunk, write_ok, attempts, tags, dev)
         | Some ok \<Rightarrow>
             if ok \<noteq> YAFFS_OK \<and> (wr_attempts = 0 \<or> attempts + 1 \<le> wr_attempts)
             then write_new_chunk_loop fuel wr_attempts data use_reserver (attempts + 1) ok tags dev
             else Some (chunk, ok, attempts + 1, tags, dev))"

definition yaffs_write_new_chunk ::
  "nat \<Rightarrow> nat \<Rightarrow> ('n, 'x) yaffs_dev_scheme \<Rightarrow> u8 list \<Rightarrow> yaffs_ext_tags \<Rightarrow> bool \<Rightarrow>
   (int \<times> yaffs_ext_tags \<times> ('n, 'x) yaffs_dev_scheme) option" where
  "yaffs_write_new_chunk fuel wr_attempts dev data tags use_reserver =
     (case write_new_chunk_loop fuel wr_attempts data use_reserver 0 0 tags (yaffs2_checkpt_invalidate dev) of
        None \<Rightarrow> None
      | Some (chunk, write_ok, attempts, tags, dev) \<Rightarrow>
          (let chunk = (if write_ok = 0 then -1 else chunk);
               dev = (if attempts > 1
                      then upd_stats dev (\<lambda>s. s\<lparr>n_retried_writes := n_retried_writes s + word_of_nat (attempts - 1)\<rparr>)
                      else dev)
           in Some (chunk, tags, dev)))"

end
