(* ===== verification/Yaffs_AllocInv.thy ===== *)
theory Yaffs_AllocInv
  imports Yaffs_Alloc
begin

text \<open>
  The invariant of the allocator and its preservation. \<open>alloc_inv\<close> says that the counters and the
  bitmap describe the same device: the pages in use of a block are the set bits of its bitmap,
  the erased-block count is the number of EMPTY blocks, the free-chunk count is what
  \<open>yaffs_count_free_chunks\<close> would recount, and the allocation block is the only ALLOCATING one,
  with every chunk from the allocation page on unused.

  While a block is being erased it is outside that description: \<open>inv_except D k\<close> leaves out the
  blocks \<open>D\<close>, whose free chunks, \<open>k\<close> in all, are still counted. \<open>inv_update\<close> is the one lemma that
  carries the invariant over a change of one block; every operation is an instance of it.
\<close>

section \<open>The invariant\<close>

definition view3 :: "yaffs_block_info \<Rightarrow> yaffs_block_state \<times> int \<times> int" where
  "view3 bi = (block_state bi, pages_in_use bi, soft_del_pages bi)"

text \<open>What has to hold of a block with \<open>n\<close> set bits, and whether it may be ALLOCATING.\<close>

fun block_ok_at :: "yaffs_block_state \<times> int \<times> int \<Rightarrow> nat \<Rightarrow> bool \<Rightarrow> bool" where
  "block_ok_at (st, pages, soft) n is_alloc \<longleftrightarrow>
     pages = int n \<and> 0 \<le> soft \<and> soft \<le> pages \<and>
     st \<in> {YAFFS_BLOCK_STATE_EMPTY, YAFFS_BLOCK_STATE_ALLOCATING, YAFFS_BLOCK_STATE_FULL,
       YAFFS_BLOCK_STATE_COLLECTING, YAFFS_BLOCK_STATE_CHECKPOINT, YAFFS_BLOCK_STATE_DEAD} \<and>
     (st = YAFFS_BLOCK_STATE_EMPTY \<or> st = YAFFS_BLOCK_STATE_CHECKPOINT \<or> st = YAFFS_BLOCK_STATE_DEAD \<longrightarrow> pages = 0) \<and>
     (st = YAFFS_BLOCK_STATE_ALLOCATING \<longrightarrow> is_alloc)"

definition block_ok :: "('n, 'x) yaffs_dev_scheme \<Rightarrow> int \<Rightarrow> bool" where
  "block_ok dev b \<longleftrightarrow>
     block_ok_at (view3 (yaffs_get_block_info dev b)) (card (chunks_in_use dev b)) (b = alloc_block dev)"

definition alloc_ok :: "('n, 'x) yaffs_dev_scheme \<Rightarrow> bool" where
  "alloc_ok dev \<longleftrightarrow> alloc_block dev = -1 \<or>
     (valid_block dev (alloc_block dev) \<and>
      block_state (yaffs_get_block_info dev (alloc_block dev)) = YAFFS_BLOCK_STATE_ALLOCATING \<and>
      0 \<le> alloc_page dev \<and> alloc_page dev < cpb dev \<and>
      (\<forall>c \<in> chunks_in_use dev (alloc_block dev). c < alloc_page dev))"

definition blocks_of :: "('n, 'x) yaffs_dev_scheme \<Rightarrow> int set" where
  "blocks_of dev = {internal_start_block dev..internal_end_block dev}"

definition inv_except :: "int set \<Rightarrow> int \<Rightarrow> ('n, 'x) yaffs_dev_scheme \<Rightarrow> bool" where
  "inv_except D k dev \<longleftrightarrow>
     bitmap_ok dev \<and> is_yaffs2 (param dev) \<and> D \<subseteq> blocks_of dev \<and>
     (\<forall>b \<in> D. view3 (yaffs_get_block_info dev b) = (YAFFS_BLOCK_STATE_DIRTY, 0, 0) \<and> chunks_in_use dev b = {}) \<and>
     (\<forall>b \<in> blocks_of dev - D. block_ok dev b) \<and> alloc_ok dev \<and>
     n_erased_blocks dev = int (card {b \<in> blocks_of dev - D.
        block_state (yaffs_get_block_info dev b) = YAFFS_BLOCK_STATE_EMPTY}) \<and>
     n_free_chunks dev = k + (\<Sum>b \<in> blocks_of dev - D. block_free_chunks dev (yaffs_get_block_info dev b))"

definition alloc_inv :: "('n, 'x) yaffs_dev_scheme \<Rightarrow> bool" where
  "alloc_inv dev \<longleftrightarrow> inv_except {} 0 dev"

lemma valid_blocks_of: "valid_block dev b \<longleftrightarrow> b \<in> blocks_of dev"
  by (simp add: valid_block_def blocks_of_def)

lemma finite_blocks_of [simp]: "finite (blocks_of dev)"
  by (simp add: blocks_of_def)

lemma count_free_chunks_sum:
  "yaffs_count_free_chunks dev = (\<Sum>b \<in> blocks_of dev. block_free_chunks dev (yaffs_get_block_info dev b))"
proof -
  have "fold (\<lambda>b n. n + f b) bs a = a + sum_list (map f bs)" for f :: "int \<Rightarrow> int" and bs a
    by (induction bs arbitrary: a) auto
  then have "yaffs_count_free_chunks dev =
      sum_list (map (\<lambda>b. block_free_chunks dev (yaffs_get_block_info dev b)) (dev_blocks dev))"
    by (simp add: yaffs_count_free_chunks_def)
  also have "\<dots> = (\<Sum>b \<in> set (dev_blocks dev). block_free_chunks dev (yaffs_get_block_info dev b))"
    by (rule sum_list_distinct_conv_sum_set [OF distinct_dev_blocks])
  finally show ?thesis by (simp add: dev_blocks_def blocks_of_def)
qed

lemma block_free_cong:
  "cpb d = cpb d' \<Longrightarrow> view3 bi = view3 bi' \<Longrightarrow> block_free_chunks d bi = block_free_chunks d' bi'"
  by (simp add: block_free_chunks_def view3_def split: yaffs_block_state.split)

lemma blocks_of_config: "dev_config d = dev_config d' \<Longrightarrow> blocks_of d = blocks_of d'"
  by (simp add: blocks_of_def dev_config_def)

lemma valid_block_config: "dev_config d = dev_config d' \<Longrightarrow> valid_block d = valid_block d'"
  by (simp add: valid_block_def dev_config_def fun_eq_iff)

lemma valid_chunk_config: "dev_config d = dev_config d' \<Longrightarrow> valid_chunk d = valid_chunk d'"
  by (simp add: valid_chunk_def dev_config_def fun_eq_iff)

section \<open>Changing one block\<close>

lemma inv_update:
  assumes inv: "inv_except D k dev" and b: "b \<in> blocks_of dev"
    and cfg: "dev_config dev' = dev_config dev" and bm: "bitmap_ok dev'"
    and others: "\<And>b'. b' \<in> blocks_of dev \<Longrightarrow> b' \<noteq> b \<Longrightarrow>
        view3 (yaffs_get_block_info dev' b') = view3 (yaffs_get_block_info dev b') \<and>
        chunks_in_use dev' b' = chunks_in_use dev b'"
    and D': "D' - {b} = D - {b}"
    and ok: "b \<notin> D' \<Longrightarrow> block_ok dev' b"
    and dirty: "b \<in> D' \<Longrightarrow> view3 (yaffs_get_block_info dev' b) = (YAFFS_BLOCK_STATE_DIRTY, 0, 0) \<and> chunks_in_use dev' b = {}"
    and alloc: "alloc_ok dev'"
    and alloc_others: "alloc_block dev' \<noteq> alloc_block dev \<Longrightarrow> b = alloc_block dev \<or> alloc_block dev = -1"
    and erased: "n_erased_blocks dev' = n_erased_blocks dev
        - (if b \<notin> D \<and> block_state (yaffs_get_block_info dev b) = YAFFS_BLOCK_STATE_EMPTY then 1 else 0)
        + (if b \<notin> D' \<and> block_state (yaffs_get_block_info dev' b) = YAFFS_BLOCK_STATE_EMPTY then 1 else 0)"
    and free: "n_free_chunks dev' - k' = n_free_chunks dev - k
        - (if b \<in> D then 0 else block_free_chunks dev (yaffs_get_block_info dev b))
        + (if b \<in> D' then 0 else block_free_chunks dev (yaffs_get_block_info dev' b))"
  shows "inv_except D' k' dev'"
proof -
  note c = dev_configD [OF cfg] and bl = blocks_of_config [OF cfg]
  let ?g = "yaffs_get_block_info dev" and ?g' = "yaffs_get_block_info dev'"
  have fr: "block_free_chunks dev' = block_free_chunks dev" by (simp add: block_free_chunks_def fun_eq_iff c split: yaffs_block_state.split)
  let ?R = "blocks_of dev - D - {b}"
  have R: "?R = blocks_of dev - D' - {b}" using D' by blast
  have old: "block_ok dev x" if "x \<in> ?R" for x using inv that by (auto simp: inv_except_def)
  have st: "block_state (?g' x) = block_state (?g x)" if "x \<in> ?R" for x
    using others that by (auto simp: view3_def)
  have pos: "0 < x" if "x \<in> blocks_of dev" for x
    using inv that by (simp add: inv_except_def bitmap_ok_def geometry_ok_def blocks_of_def)
  have new: "block_ok dev' x" if x: "x \<in> ?R" for x
  proof -
    have "x = alloc_block dev \<Longrightarrow> x = alloc_block dev'"
      using alloc_others pos [of x] x by (cases "alloc_block dev' = alloc_block dev") auto
    moreover have "block_ok_at v n q" if "block_ok_at v n p" "p \<Longrightarrow> q" for v n p q
      using that by (cases v) auto
    moreover have "view3 (yaffs_get_block_info dev' x) = view3 (yaffs_get_block_info dev x)"
      "chunks_in_use dev' x = chunks_in_use dev x"
      using others [of x] x by auto
    ultimately show ?thesis
      using old [OF x] unfolding block_ok_def by (simp only:)
  qed
  have sumR: "(\<Sum>x \<in> ?R. block_free_chunks dev (?g' x)) = (\<Sum>x \<in> ?R. block_free_chunks dev (?g x))"
    by (rule sum.cong [OF refl]) (use others in \<open>auto intro!: block_free_cong\<close>)
  have split: "(\<Sum>x \<in> blocks_of dev - E. f x) = (if b \<in> E then 0 else f b) + (\<Sum>x \<in> blocks_of dev - E - {b}. f x)"
    for E and f :: "int \<Rightarrow> int"
    using sum.remove [of "blocks_of dev - E" b f] b by (auto simp: Diff_insert0)
  have card: "int (card {x \<in> blocks_of dev - E. P x}) =
      (if b \<notin> E \<and> P b then 1 else 0) + int (card {x \<in> blocks_of dev - E - {b}. P x})" for E P
  proof -
    have eq: "{x \<in> blocks_of dev - E. P x} =
        (if b \<notin> E \<and> P b then insert b {x \<in> blocks_of dev - E - {b}. P x} else {x \<in> blocks_of dev - E - {b}. P x})"
      using b by auto
    show ?thesis by (subst eq) (auto intro!: arg_cong [where f = card])
  qed
  have cardR: "{x \<in> ?R. block_state (?g' x) = YAFFS_BLOCK_STATE_EMPTY} =
      {x \<in> ?R. block_state (?g x) = YAFFS_BLOCK_STATE_EMPTY}"
    using st by auto
  have er: "n_erased_blocks dev' = int (card {x \<in> blocks_of dev - D'. block_state (?g' x) = YAFFS_BLOCK_STATE_EMPTY})"
    using inv erased card [of D "\<lambda>x. block_state (?g x) = YAFFS_BLOCK_STATE_EMPTY"]
      card [of D' "\<lambda>x. block_state (?g' x) = YAFFS_BLOCK_STATE_EMPTY"] R cardR
    by (simp add: inv_except_def)
  have fe: "n_free_chunks dev' = k' + (\<Sum>x \<in> blocks_of dev - D'. block_free_chunks dev (?g' x))"
    using inv free split [of "\<lambda>x. block_free_chunks dev (?g x)" D]
      split [of "\<lambda>x. block_free_chunks dev (?g' x)" D'] R sumR
    by (simp add: inv_except_def)
  have dD: "view3 (?g' x) = (YAFFS_BLOCK_STATE_DIRTY, 0, 0) \<and> chunks_in_use dev' x = {}" if "x \<in> D'" for x
  proof (cases "x = b")
    case True with that dirty show ?thesis by simp
  next
    case False
    with that D' have "x \<in> D" by blast
    with inv have "x \<in> blocks_of dev" "view3 (?g x) = (YAFFS_BLOCK_STATE_DIRTY, 0, 0) \<and> chunks_in_use dev x = {}"
      by (auto simp: inv_except_def)
    with False others show ?thesis by simp
  qed
  have "D' \<subseteq> blocks_of dev" using inv D' b by (auto simp: inv_except_def)
  moreover have "block_ok dev' x" if "x \<in> blocks_of dev - D'" for x
    using that new ok R by (cases "x = b") auto
  ultimately show ?thesis
    unfolding inv_except_def bl fr using bm alloc er fe dD inv by (simp add: c inv_except_def)
qed

text \<open>What the invariant does not look at.\<close>

definition alloc_view :: "('n, 'x) yaffs_dev_scheme \<Rightarrow> _" where
  "alloc_view dev = (map view3 (block_info dev), chunk_bits dev, n_erased_blocks dev, n_free_chunks dev,
     alloc_block dev, alloc_page dev)"

lemma view3_get:
  assumes "alloc_view d = alloc_view d'" "dev_config d = dev_config d'" "valid_block d b" "geometry_ok d"
  shows "view3 (yaffs_get_block_info d b) = view3 (yaffs_get_block_info d' b)"
proof -
  let ?i = "nat (b - internal_start_block d)"
  have eq: "map view3 (block_info d) = map view3 (block_info d')" using assms(1) by (simp add: alloc_view_def)
  have "?i < length (block_info d)" using assms(3,4) by (auto simp: geometry_ok_def valid_block_def)
  moreover have "length (block_info d) = length (block_info d')" using eq by (rule map_eq_imp_length_eq)
  ultimately show ?thesis
    using eq dev_configD(9) [OF assms(2)] by (metis nth_map yaffs_get_block_info_def)
qed

lemma alloc_view_bits:
  assumes "alloc_view d = alloc_view d'" "dev_config d = dev_config d'"
  shows "yaffs_check_chunk_bit d = yaffs_check_chunk_bit d'" "block_bytes d = block_bytes d'"
    "chunks_in_use d = chunks_in_use d'" "length (block_info d) = length (block_info d')"
    "length (chunk_bits d) = length (chunk_bits d')"
proof -
  note c = dev_configD [OF assms(2)]
  have b: "chunk_bits d = chunk_bits d'" using assms(1) by (simp add: alloc_view_def)
  show "block_bytes d = block_bytes d'" by (rule block_bytes_cong) (simp_all add: b c)
  show t: "yaffs_check_chunk_bit d = yaffs_check_chunk_bit d'"
    by (simp add: yaffs_check_chunk_bit_def yaffs_block_bits_def b c fun_eq_iff)
  show "chunks_in_use d = chunks_in_use d'"
    by (simp add: chunks_in_use_def t valid_chunk_config [OF assms(2)] fun_eq_iff)
  show "length (block_info d) = length (block_info d')"
    using assms(1) by (auto simp: alloc_view_def dest: map_eq_imp_length_eq)
  show "length (chunk_bits d) = length (chunk_bits d')" by (simp add: b)
qed

lemma inv_cong:
  assumes inv: "inv_except D k d" and "alloc_view d' = alloc_view d" "dev_config d' = dev_config d"
  shows "inv_except D k d'"
proof -
  note c = dev_configD [OF assms(3)] and v = alloc_view_bits [OF assms(2,3)]
  have bm: "bitmap_ok d" using inv by (simp add: inv_except_def)
  then have g: "geometry_ok d" by (simp add: bitmap_ok_def)
  then have g': "geometry_ok d'" by (simp add: geometry_ok_def c v)
  have vb: "valid_block d' = valid_block d" by (rule valid_block_config [OF assms(3)])
  have view: "view3 (yaffs_get_block_info d' b) = view3 (yaffs_get_block_info d b)" if "b \<in> blocks_of d" for b
    using view3_get [OF assms(2,3) _ g', of b] that by (simp add: vb valid_blocks_of)
  have fields: "n_erased_blocks d' = n_erased_blocks d" "n_free_chunks d' = n_free_chunks d"
    "alloc_block d' = alloc_block d" "alloc_page d' = alloc_page d"
    using assms(2) by (simp_all add: alloc_view_def)
  obtain b where b: "b \<in> blocks_of d" using g by (auto simp: geometry_ok_def blocks_of_def)
  have bl: "blocks_of d' = blocks_of d" by (rule blocks_of_config [OF assms(3)])
  have bm': "bitmap_ok d'" using bm g' by (simp add: bitmap_ok_def vb c v)
  have ao: "alloc_ok d'"
    using inv view [of "alloc_block d"] by (auto simp: inv_except_def alloc_ok_def fields vb c v valid_blocks_of view3_def)
  have bo: "b \<notin> D \<Longrightarrow> block_ok d' b"
    using inv view [OF b] b by (simp add: inv_except_def block_ok_def fields v)
  have di: "b \<in> D \<Longrightarrow> view3 (yaffs_get_block_info d' b) = (YAFFS_BLOCK_STATE_DIRTY, 0, 0) \<and> chunks_in_use d' b = {}"
    using inv view [OF b] by (auto simp: inv_except_def v)
  have "block_free_chunks d (yaffs_get_block_info d' b) = block_free_chunks d (yaffs_get_block_info d b)"
    by (rule block_free_cong) (simp_all add: view [OF b])
  moreover have "block_state (yaffs_get_block_info d' b) = block_state (yaffs_get_block_info d b)"
    using view [OF b] by (simp add: view3_def)
  ultimately show ?thesis
    using inv_update [OF inv b assms(3) bm', of D k] view v bo di ao by (simp add: fields)
qed

section \<open>Reading through updates\<close>

lemma blocks_of_frame [simp]:
  "blocks_of (dev\<lparr>alloc_block_finder := i\<rparr>) = blocks_of dev"
  "blocks_of (dev\<lparr>dev_seq_number := w\<rparr>) = blocks_of dev"
  "blocks_of (dev\<lparr>n_free_chunks := i\<rparr>) = blocks_of dev"
  "blocks_of (upd_block_info dev b f) = blocks_of dev"
  by (simp_all add: blocks_of_def)

lemma get_frame [simp]:
  "yaffs_get_block_info (dev\<lparr>n_free_chunks := i\<rparr>) = yaffs_get_block_info dev"
  "yaffs_get_block_info (dev\<lparr>n_erased_blocks := i\<rparr>) = yaffs_get_block_info dev"
  "yaffs_get_block_info (dev\<lparr>alloc_block := i\<rparr>) = yaffs_get_block_info dev"
  "yaffs_get_block_info (dev\<lparr>alloc_page := i\<rparr>) = yaffs_get_block_info dev"
  "yaffs_get_block_info (dev\<lparr>alloc_block_finder := i\<rparr>) = yaffs_get_block_info dev"
  "yaffs_get_block_info (dev\<lparr>dev_seq_number := w\<rparr>) = yaffs_get_block_info dev"
  "yaffs_get_block_info (dev\<lparr>nand := n\<rparr>) = yaffs_get_block_info dev"
  "yaffs_get_block_info (upd_stats dev h) = yaffs_get_block_info dev"
  "yaffs_get_block_info (yaffs_set_chunk_bit dev b c) = yaffs_get_block_info dev"
  "yaffs_get_block_info (yaffs_clear_chunk_bit dev b c) = yaffs_get_block_info dev"
  "yaffs_get_block_info (yaffs_clear_chunk_bits dev b) = yaffs_get_block_info dev"
  by (simp_all add: yaffs_get_block_info_def upd_stats_def fun_eq_iff)

lemma alloc_fields_bits [simp]:
  "n_free_chunks (yaffs_set_chunk_bit dev b c) = n_free_chunks dev"
  "n_free_chunks (yaffs_clear_chunk_bit dev b c) = n_free_chunks dev"
  "n_free_chunks (yaffs_clear_chunk_bits dev b) = n_free_chunks dev"
  "n_erased_blocks (yaffs_set_chunk_bit dev b c) = n_erased_blocks dev"
  "n_erased_blocks (yaffs_clear_chunk_bit dev b c) = n_erased_blocks dev"
  "n_erased_blocks (yaffs_clear_chunk_bits dev b) = n_erased_blocks dev"
  "alloc_block (yaffs_set_chunk_bit dev b c) = alloc_block dev"
  "alloc_block (yaffs_clear_chunk_bit dev b c) = alloc_block dev"
  "alloc_block (yaffs_clear_chunk_bits dev b) = alloc_block dev"
  "alloc_page (yaffs_set_chunk_bit dev b c) = alloc_page dev"
  "alloc_page (yaffs_clear_chunk_bit dev b c) = alloc_page dev"
  "alloc_page (yaffs_clear_chunk_bits dev b) = alloc_page dev"
  "alloc_page (upd_block_info dev b f) = alloc_page dev"
  by (simp_all add: yaffs_set_chunk_bit_def yaffs_clear_chunk_bit_def yaffs_clear_chunk_bits_def
      upd_block_info_def Let_def)

lemma in_use_cong:
  "chunk_bits d = chunk_bits d' \<Longrightarrow> dev_config d = dev_config d' \<Longrightarrow> chunks_in_use d = chunks_in_use d'"
  using dev_configD [of d d']
  by (simp add: chunks_in_use_def valid_chunk_config [of d d'] yaffs_check_chunk_bit_def yaffs_block_bits_def fun_eq_iff)

lemma bitmap_ok_cong:
  assumes "chunk_bits d = chunk_bits d'" "length (block_info d) = length (block_info d')" "dev_config d = dev_config d'"
  shows "bitmap_ok d = bitmap_ok d'"
  using dev_configD [OF assms(3)] valid_block_config [OF assms(3)] block_bytes_cong [of d d'] assms(1,2)
  by (simp add: bitmap_ok_def geometry_ok_def)

lemma dev_config_frame [simp]:
  "dev_config (dev\<lparr>n_erased_blocks := i\<rparr>) = dev_config dev"
  "dev_config (dev\<lparr>alloc_block := i\<rparr>) = dev_config dev"
  "dev_config (dev\<lparr>alloc_page := i\<rparr>) = dev_config dev"
  "dev_config (dev\<lparr>alloc_block_finder := i\<rparr>) = dev_config dev"
  "dev_config (dev\<lparr>dev_seq_number := w\<rparr>) = dev_config dev"
  "dev_config (dev\<lparr>oldest_dirty_seq := w, oldest_dirty_block := i\<rparr>) = dev_config dev"
  "dev_config (dev\<lparr>ck := c\<rparr>) = dev_config dev"
  "dev_config (dev\<lparr>checkpoint_blocks_required := i\<rparr>) = dev_config dev"
  "dev_config (dev\<lparr>is_checkpointed := z\<rparr>) = dev_config dev"
  "dev_config (dev\<lparr>gc_block := i\<rparr>) = dev_config dev"
  "dev_config (dev\<lparr>gc_dirtiest := i, gc_pages_in_use := j\<rparr>) = dev_config dev"
  by (simp_all add: dev_config_def)

lemma bits_frame [simp]:
  "chunks_in_use (upd_block_info dev b f) = chunks_in_use dev"
  "chunks_in_use (dev\<lparr>n_free_chunks := i\<rparr>) = chunks_in_use dev"
  "chunks_in_use (dev\<lparr>n_erased_blocks := i\<rparr>) = chunks_in_use dev"
  "chunks_in_use (dev\<lparr>alloc_block := i\<rparr>) = chunks_in_use dev"
  "chunks_in_use (dev\<lparr>alloc_page := i\<rparr>) = chunks_in_use dev"
  "chunks_in_use (dev\<lparr>alloc_block_finder := i\<rparr>) = chunks_in_use dev"
  "chunks_in_use (dev\<lparr>dev_seq_number := w\<rparr>) = chunks_in_use dev"
  "chunks_in_use (dev\<lparr>nand := n\<rparr>) = chunks_in_use dev"
  "bitmap_ok (upd_block_info dev b f) = bitmap_ok dev"
  "bitmap_ok (dev\<lparr>n_free_chunks := i\<rparr>) = bitmap_ok dev"
  "bitmap_ok (dev\<lparr>n_erased_blocks := i\<rparr>) = bitmap_ok dev"
  "bitmap_ok (dev\<lparr>alloc_block := i\<rparr>) = bitmap_ok dev"
  "bitmap_ok (dev\<lparr>alloc_page := i\<rparr>) = bitmap_ok dev"
  "bitmap_ok (dev\<lparr>alloc_block_finder := i\<rparr>) = bitmap_ok dev"
  "bitmap_ok (dev\<lparr>dev_seq_number := w\<rparr>) = bitmap_ok dev"
  "bitmap_ok (dev\<lparr>nand := n\<rparr>) = bitmap_ok dev"
  by (rule in_use_cong bitmap_ok_cong; simp)+

lemma get_upd:
  assumes "geometry_ok dev" "b \<in> blocks_of dev" "b' \<in> blocks_of dev"
  shows "yaffs_get_block_info (upd_block_info dev b f) b' =
    (if b = b' then f (yaffs_get_block_info dev b) else yaffs_get_block_info dev b')"
  using assms by (intro get_block_info_upd) (simp_all add: geometry_ok_def valid_blocks_of)

lemma inv_geometry: "inv_except D k dev \<Longrightarrow> geometry_ok dev"
  by (simp add: inv_except_def bitmap_ok_def)

section \<open>Operations the invariant does not see\<close>

lemma alloc_view_upd_block:
  assumes "\<And>bi. view3 (f bi) = view3 bi"
  shows "alloc_view (upd_block_info dev b f) = alloc_view dev"
proof -
  let ?i = "nat (b - internal_start_block dev)" and ?xs = "block_info dev"
  have "map view3 (?xs[?i := f (?xs ! ?i)]) = map view3 ?xs"
    using assms by (cases "?i < length ?xs") (simp_all add: map_update list_update_same_conv list_update_beyond)
  then show ?thesis
    by (simp add: alloc_view_def yaffs_get_block_info_def) (simp add: upd_block_info_def yaffs_get_block_info_def)
qed

lemma alloc_view_frame [simp]:
  "alloc_view (dev\<lparr>nand := n\<rparr>) = alloc_view dev"
  "alloc_view (upd_stats dev h) = alloc_view dev"
  "alloc_view (dev\<lparr>has_pending_prioritised_gc := z\<rparr>) = alloc_view dev"
  "alloc_view (dev\<lparr>alloc_block_finder := i\<rparr>) = alloc_view dev"
  "alloc_view (dev\<lparr>oldest_dirty_seq := w, oldest_dirty_block := i\<rparr>) = alloc_view dev"
  "alloc_view (dev\<lparr>ck := c\<rparr>) = alloc_view dev"
  "alloc_view (dev\<lparr>checkpoint_blocks_required := i\<rparr>) = alloc_view dev"
  "alloc_view (dev\<lparr>is_checkpointed := z\<rparr>) = alloc_view dev"
  "alloc_view (dev\<lparr>gc_block := i\<rparr>) = alloc_view dev"
  "alloc_view (dev\<lparr>gc_dirtiest := i, gc_pages_in_use := j\<rparr>) = alloc_view dev"
  "alloc_view (dev\<lparr>sum_tags := ts\<rparr>) = alloc_view dev"
  by (simp_all add: alloc_view_def upd_stats_def)

lemma alloc_view_chunk_error [simp]: "alloc_view (yaffs_handle_chunk_error dev b) = alloc_view dev"
  by (simp add: yaffs_handle_chunk_error_def Let_def alloc_view_upd_block view3_def)

text \<open>Operations that change neither the view nor the configuration.\<close>

definition unseen :: "('n, 'x) yaffs_dev_scheme \<Rightarrow> ('n, 'x) yaffs_dev_scheme \<Rightarrow> bool" where
  "unseen dev dev' \<longleftrightarrow> alloc_view dev' = alloc_view dev \<and> dev_config dev' = dev_config dev"

lemma unseen_inv: "unseen dev dev' \<Longrightarrow> inv_except D k dev \<Longrightarrow> inv_except D k dev'"
  by (auto simp: unseen_def intro: inv_cong)

lemma unseen_refl [simp]: "unseen dev dev"
  by (simp add: unseen_def)

lemma unseen_trans: "unseen d d' \<Longrightarrow> unseen d' d'' \<Longrightarrow> unseen d d''"
  by (simp add: unseen_def)

lemma unseen_rd:
  "yaffs_rd_chunk_tags_nand dev c w = (r, b, t, dev') \<Longrightarrow> unseen dev dev'"
  by (auto simp: yaffs_rd_chunk_tags_nand_def Let_def unseen_def split: prod.splits if_splits)

lemma unseen_ops [dev_inv]:
  "unseen dev (snd (yaffs_mark_bad dev b))"
  "unseen dev (snd (yaffs_erase_block dev b))"
  "unseen dev (yaffs2_clear_oldest_dirty_seq dev bi)"
  "unseen dev (yaffs2_update_oldest_dirty_seq dev b bi')"
  "unseen dev (snd (yaffs_check_chunk_erased dev c))"
  "unseen dev (snd (yaffs_verify_chunk_written dev c data tags))"
  "unseen dev (snd (yaffs_check_alloc_available dev i))"
  using unseen_rd [of dev c True]
  by (auto simp: yaffs_mark_bad_def yaffs_erase_block_def yaffs2_clear_oldest_dirty_seq_def
      yaffs2_update_oldest_dirty_seq_def yaffs_check_chunk_erased_def yaffs_verify_chunk_written_def
      yaffs_check_alloc_available_def yaffs_calc_checkpt_blocks_required_def Let_def unseen_def
      split: prod.splits if_splits option.splits)

lemma unseen_fold: "(\<And>x d. unseen d (f x d)) \<Longrightarrow> unseen dev (fold f xs dev)"
  by (induction xs arbitrary: dev) (auto intro: unseen_trans)

lemma unseen_verify_erasure [dev_inv]: "unseen dev (verify_erasure dev b)"
  by (auto simp: verify_erasure_def intro!: unseen_fold unseen_ops)

lemma unseen_upd_block: "(\<And>bi. view3 (f bi) = view3 bi) \<Longrightarrow> unseen dev (upd_block_info dev b f)"
  by (simp add: unseen_def alloc_view_upd_block)

section \<open>Operations that change a block\<close>

text \<open>The allocation block's part of the invariant survives changes elsewhere.\<close>

lemma alloc_ok_other:
  assumes "alloc_ok dev" "alloc_block dev' = alloc_block dev" "alloc_page dev' = alloc_page dev"
    "dev_config dev' = dev_config dev"
    "alloc_block dev \<noteq> -1 \<Longrightarrow>
      block_state (yaffs_get_block_info dev' (alloc_block dev)) = YAFFS_BLOCK_STATE_ALLOCATING \<and>
      chunks_in_use dev' (alloc_block dev) \<subseteq> chunks_in_use dev (alloc_block dev)"
  shows "alloc_ok dev'"
  using assms valid_block_config [OF assms(4)] dev_configD(1) [OF assms(4)] by (auto simp: alloc_ok_def)

lemma inv_block:
  assumes "inv_except D k dev" "b \<in> blocks_of dev"
  shows "b \<notin> D \<Longrightarrow> block_ok dev b" "b \<in> D \<Longrightarrow> block_state (yaffs_get_block_info dev b) = YAFFS_BLOCK_STATE_DIRTY"
    "alloc_ok dev" "bitmap_ok dev" "geometry_ok dev" "0 < b" "valid_block dev b"
  using assms by (auto simp: inv_except_def bitmap_ok_def geometry_ok_def blocks_of_def valid_block_def view3_def)

lemma block_ok_pages:
  assumes "block_ok dev b"
  shows "pages_in_use (yaffs_get_block_info dev b) = int (card (chunks_in_use dev b))"
    "0 \<le> soft_del_pages (yaffs_get_block_info dev b)"
    "soft_del_pages (yaffs_get_block_info dev b) \<le> pages_in_use (yaffs_get_block_info dev b)"
    "block_state (yaffs_get_block_info dev b) = YAFFS_BLOCK_STATE_ALLOCATING \<Longrightarrow> b = alloc_block dev"
    "block_state (yaffs_get_block_info dev b) \<in> {YAFFS_BLOCK_STATE_EMPTY, YAFFS_BLOCK_STATE_CHECKPOINT}
      \<Longrightarrow> pages_in_use (yaffs_get_block_info dev b) = 0"
  using assms by (auto simp: block_ok_def view3_def)

text \<open>A change of the table entry of one block, with the counters to match.\<close>

lemma inv_set_block:
  assumes inv: "inv_except D k dev" and b: "b \<in> blocks_of dev"
    and D': "D' - {b} = D - {b}"
    and ok: "b \<notin> D' \<Longrightarrow> block_ok_at (view3 (f (yaffs_get_block_info dev b))) (card (chunks_in_use dev b)) (b = alloc_block dev)"
    and dirty: "b \<in> D' \<Longrightarrow> view3 (f (yaffs_get_block_info dev b)) = (YAFFS_BLOCK_STATE_DIRTY, 0, 0) \<and> chunks_in_use dev b = {}"
    and alloc: "b = alloc_block dev \<Longrightarrow> block_state (f (yaffs_get_block_info dev b)) = YAFFS_BLOCK_STATE_ALLOCATING"
    and erased: "e = n_erased_blocks dev
        - (if b \<notin> D \<and> block_state (yaffs_get_block_info dev b) = YAFFS_BLOCK_STATE_EMPTY then 1 else 0)
        + (if b \<notin> D' \<and> block_state (f (yaffs_get_block_info dev b)) = YAFFS_BLOCK_STATE_EMPTY then 1 else 0)"
    and free: "fr - k' = n_free_chunks dev - k
        - (if b \<in> D then 0 else block_free_chunks dev (yaffs_get_block_info dev b))
        + (if b \<in> D' then 0 else block_free_chunks dev (f (yaffs_get_block_info dev b)))"
  shows "inv_except D' k' ((upd_block_info dev b f)\<lparr>n_erased_blocks := e, n_free_chunks := fr\<rparr>)"
proof (rule inv_update [OF inv b])
  let ?n = "(upd_block_info dev b f)\<lparr>n_erased_blocks := e, n_free_chunks := fr\<rparr>"
  note ib = inv_block [OF inv b] and get = get_upd [OF inv_geometry [OF inv] b]
  show "view3 (yaffs_get_block_info ?n b') = view3 (yaffs_get_block_info dev b') \<and>
      chunks_in_use ?n b' = chunks_in_use dev b'" if "b' \<in> blocks_of dev" "b' \<noteq> b" for b'
    using get [OF that(1)] that by simp
  show "b \<notin> D' \<Longrightarrow> block_ok ?n b" using ok get [OF b] by (simp add: block_ok_def)
  show "b \<in> D' \<Longrightarrow> view3 (yaffs_get_block_info ?n b) = (YAFFS_BLOCK_STATE_DIRTY, 0, 0) \<and> chunks_in_use ?n b = {}"
    using dirty get [OF b] by simp
  show "alloc_ok ?n"
    by (rule alloc_ok_other [OF ib(3)])
      (use alloc get ib(3) in \<open>auto simp: alloc_ok_def valid_blocks_of\<close>)
qed (use inv_block [OF inv b] get_upd [OF inv_geometry [OF inv] b b] D' erased free in \<open>simp_all\<close>)

lemma update_counters_same:
  "n_erased_blocks dev = e \<Longrightarrow> n_free_chunks dev = fr \<Longrightarrow> dev\<lparr>n_erased_blocks := e, n_free_chunks := fr\<rparr> = dev"
  by auto

lemma inv_checkpt_erase_step:
  assumes inv: "inv_except D k dev" and i: "i \<in> blocks_of dev"
  shows "inv_except D k (checkpt_erase_step i dev)"
proof (cases "block_state (yaffs_get_block_info dev i) = YAFFS_BLOCK_STATE_CHECKPOINT")
  case True
  note ib = inv_block [OF inv i]
  from True ib(2) have nD: "i \<notin> D" by auto
  note bo = block_ok_pages [OF ib(1) [OF nD]]
  have zero: "pages_in_use (yaffs_get_block_info dev i) = 0" "soft_del_pages (yaffs_get_block_info dev i) = 0"
    "card (chunks_in_use dev i) = 0"
    using bo True by auto
  have na: "i \<noteq> alloc_block dev" using ib(3,6) True by (auto simp: alloc_ok_def)
  have step: "inv_except D k ((upd_block_info d i (\<lambda>bi. bi\<lparr>block_state := st\<rparr>))
        \<lparr>n_erased_blocks := e, n_free_chunks := f\<rparr>)"
    if u: "unseen dev d" and st: "st = YAFFS_BLOCK_STATE_EMPTY \<and> e = n_erased_blocks dev + 1 \<and> f = n_free_chunks dev + cpb dev \<or>
        st = YAFFS_BLOCK_STATE_DEAD \<and> e = n_erased_blocks dev \<and> f = n_free_chunks dev" for d st e f
  proof -
    have v: "view3 (yaffs_get_block_info d i) = view3 (yaffs_get_block_info dev i)"
      using u view3_get [of dev d i] ib(5,7) by (simp add: unseen_def)
    have w: "chunks_in_use d = chunks_in_use dev" "blocks_of d = blocks_of dev" "cpb d = cpb dev"
      "alloc_block d = alloc_block dev" "n_erased_blocks d = n_erased_blocks dev" "n_free_chunks d = n_free_chunks dev"
      using u alloc_view_bits(3) [of d dev] blocks_of_config [of d dev] dev_configD(1) [of d dev]
      by (simp_all add: unseen_def alloc_view_def)
    show ?thesis
      by (rule inv_set_block [OF unseen_inv [OF u inv]])
        (use v w st True zero na nD i in \<open>auto simp: view3_def block_free_chunks_def\<close>)
  qed
  let ?d = "upd_stats dev (\<lambda>s. s\<lparr>n_erasures := n_erasures s + 1\<rparr>)"
  obtain r n where e: "drv_erase_fn (drv ?d) (nand ?d) (i - block_offset dev) = (r, n)" by fastforce
  obtain r' n' where m: "drv_mark_bad_fn (drv ?d) n (i - block_offset dev) = (r', n')" by fastforce
  have u: "unseen dev (?d\<lparr>nand := x\<rparr>)" for x by (simp add: unseen_def)
  have f: "n_erased_blocks ?d = n_erased_blocks dev" "n_free_chunks ?d = n_free_chunks dev" "param ?d = param dev"
    by (simp_all add: upd_stats_def)
  show ?thesis
  proof (cases "r = 0")
    case False
    then show ?thesis
      using step [OF u, of YAFFS_BLOCK_STATE_EMPTY] True e by (simp add: checkpt_erase_step_def Let_def f)
  next
    case zero: True
    have "inv_except D k (upd_block_info (?d\<lparr>nand := n'\<rparr>) i (\<lambda>bi. bi\<lparr>block_state := YAFFS_BLOCK_STATE_DEAD\<rparr>))"
      using step [OF u, of YAFFS_BLOCK_STATE_DEAD "n_erased_blocks dev" "n_free_chunks dev"]
      by (simp add: update_counters_same f)
    then show ?thesis
      using True e m zero by (simp add: checkpt_erase_step_def Let_def)
  qed
qed (simp add: checkpt_erase_step_def inv)

lemma dev_config_erase_step [simp]: "dev_config (checkpt_erase_step i dev) = dev_config dev"
  by (simp add: checkpt_erase_step_def Let_def split: prod.split)

lemma inv_checkpt_erase_fold:
  assumes "inv_except D k dev" "set bs \<subseteq> blocks_of dev"
  shows "inv_except D k (fold checkpt_erase_step bs dev) \<and> dev_config (fold checkpt_erase_step bs dev) = dev_config dev"
  using assms
proof (induction bs arbitrary: dev)
  case (Cons i bs)
  then show ?case
    using Cons.IH [of "checkpt_erase_step i dev"] inv_checkpt_erase_step [of D k dev i]
      blocks_of_config [OF dev_config_erase_step, of i dev] by simp
qed simp

lemma inv_checkpt_invalidate [dev_inv]:
  assumes "inv_except D k dev"
  shows "inv_except D k (yaffs2_checkpt_invalidate dev)"
proof -
  let ?d = "dev\<lparr>is_checkpointed := False\<rparr>"
  have "inv_except D k ?d" using assms by (rule inv_cong) simp_all
  then have "inv_except D k (fold checkpt_erase_step (dev_blocks ?d) ?d)"
    using inv_checkpt_erase_fold [of D k ?d "dev_blocks ?d"] by (simp add: blocks_of_def dev_blocks_def)
  then have "inv_except D k ((fold checkpt_erase_step (dev_blocks ?d) ?d)\<lparr>ck := c\<rparr>)" for c
    by (rule inv_cong) simp_all
  then show ?thesis
    using assms by (simp add: yaffs2_checkpt_invalidate_def yaffs2_checkpt_invalidate_stream_def
        yaffs_checkpt_erase_def Let_def)
qed

lemma dev_config_erase_fold: "dev_config (fold checkpt_erase_step bs dev) = dev_config dev"
  by (induction bs arbitrary: dev) simp_all

lemma dev_config_invalidate [simp]: "dev_config (yaffs2_checkpt_invalidate dev) = dev_config dev"
  by (simp add: yaffs2_checkpt_invalidate_def yaffs2_checkpt_invalidate_stream_def yaffs_checkpt_erase_def
      Let_def dev_config_erase_fold)

section \<open>Retiring and erasing a block\<close>

text \<open>A block in transition is dropped: it becomes DEAD, and its chunks are no longer free.\<close>

lemma inv_uncounted:
  assumes inv: "inv_except {b} k dev"
  shows "inv_except {b} 0 (dev\<lparr>n_free_chunks := n_free_chunks dev - k\<rparr>)"
proof (rule inv_update [OF inv])
  show b: "b \<in> blocks_of dev" using inv by (auto simp: inv_except_def)
  show "alloc_ok (dev\<lparr>n_free_chunks := n_free_chunks dev - k\<rparr>)"
    by (rule alloc_ok_other [OF inv_block(3) [OF inv b]])
      (use inv_block(3) [OF inv b] in \<open>auto simp: alloc_ok_def\<close>)
qed (use inv in \<open>auto simp: inv_except_def\<close>)

lemma inv_retire:
  assumes inv: "inv_except {b} (cpb dev) dev"
  shows "inv_except {} 0 (yaffs_retire_block (dev\<lparr>n_free_chunks := n_free_chunks dev - cpb dev\<rparr>) b)"
proof -
  have b: "b \<in> blocks_of dev" using inv by (auto simp: inv_except_def)
  let ?d0 = "dev\<lparr>n_free_chunks := n_free_chunks dev - cpb dev\<rparr>"
  let ?d1 = "yaffs2_checkpt_invalidate ?d0"
  let ?d2 = "yaffs2_clear_oldest_dirty_seq ?d1 (Some (yaffs_get_block_info ?d1 b))"
  obtain m d3 where m: "yaffs_mark_bad ?d2 b = (m, d3)" by fastforce
  obtain r d4 where e: "yaffs_erase_block d3 b = (r, d4)" by fastforce
  have i0: "inv_except {b} 0 ?d0" by (rule inv_uncounted [OF inv])
  have i2: "inv_except {b} 0 ?d2"
    by (intro unseen_inv [OF unseen_ops(3)] inv_checkpt_invalidate i0)
  have c2: "dev_config ?d2 = dev_config dev"
    using unseen_ops(3) [of ?d1 "Some (yaffs_get_block_info ?d1 b)"] by (simp add: unseen_def)
  have u3: "unseen ?d2 d3" and u4: "unseen d3 d4"
    using unseen_ops(1) [of ?d2 b] unseen_ops(2) [of d3 b] m e by simp_all
  have retired: "inv_except {} 0 (upd_stats (upd_block_info d b (\<lambda>bi. bi\<lparr>block_state := YAFFS_BLOCK_STATE_DEAD,
        gc_prioritise := False, needs_retiring := False\<rparr>)) h)" if u: "unseen ?d2 d" for d h
  proof -
    have i: "inv_except {b} 0 d" by (rule unseen_inv [OF u i2])
    have c: "dev_config d = dev_config dev" using u c2 by (simp add: unseen_def)
    then have bd: "b \<in> blocks_of d" using b blocks_of_config by metis
    have v: "view3 (yaffs_get_block_info d b) = (YAFFS_BLOCK_STATE_DIRTY, 0, 0)" "chunks_in_use d b = {}"
      using i by (auto simp: inv_except_def)
    have na: "b \<noteq> alloc_block d"
      using inv_block(3,6) [OF i bd] v by (auto simp: alloc_ok_def view3_def)
    have "inv_except {} 0 ((upd_block_info d b (\<lambda>bi. bi\<lparr>block_state := YAFFS_BLOCK_STATE_DEAD,
        gc_prioritise := False, needs_retiring := False\<rparr>))\<lparr>n_erased_blocks := n_erased_blocks d,
          n_free_chunks := n_free_chunks d\<rparr>)"
      by (rule inv_set_block [OF i bd]) (use v na in \<open>auto simp: view3_def block_free_chunks_def\<close>)
    then have "inv_except {} 0 (upd_block_info d b (\<lambda>bi. bi\<lparr>block_state := YAFFS_BLOCK_STATE_DEAD,
        gc_prioritise := False, needs_retiring := False\<rparr>))"
      by (simp add: update_counters_same)
    then show ?thesis by (rule inv_cong) simp_all
  qed
  have nand: "unseen ?d2 (d4\<lparr>nand := n\<rparr>)" for n
    using u3 u4 by (simp add: unseen_def)
  have "unseen ?d2 d4" using u3 u4 by (rule unseen_trans)
  then show ?thesis
    using retired [OF u3] retired [OF nand] retired [of d4] m e
    by (simp add: yaffs_retire_block_def Let_def split: prod.split)
qed

lemma valid_chunk_zero: "geometry_ok dev \<Longrightarrow> b \<in> blocks_of dev \<Longrightarrow> valid_chunk dev b 0"
  by (simp add: valid_chunk_def geometry_ok_def blocks_of_def)

lemma valid_chunk_upd [simp]: "valid_chunk (upd_block_info dev b f) = valid_chunk dev"
  by (rule valid_chunk_config) simp

text \<open>A block in transition is cleaned: it is EMPTY again.\<close>

definition cleaned_block :: "('n, 'x) yaffs_dev_scheme \<Rightarrow> int \<Rightarrow> ('n, 'x) yaffs_dev_scheme" where
  "cleaned_block dev block_no =
     (let dev = upd_block_info dev block_no (\<lambda>bi. bi\<lparr>block_state := YAFFS_BLOCK_STATE_EMPTY, bi_seq_number := 0\<rparr>);
          dev = dev\<lparr>n_erased_blocks := n_erased_blocks dev + 1\<rparr>;
          dev = upd_block_info dev block_no (\<lambda>bi. bi\<lparr>pages_in_use := 0, soft_del_pages := 0,
                  has_shrink_hdr := False, skip_erased_check := True, gc_prioritise := False,
                  has_summary := False\<rparr>)
      in yaffs_clear_chunk_bits dev block_no)"

lemma inv_cleaned:
  assumes inv: "inv_except {b} (cpb dev) dev"
  shows "inv_except {} 0 (cleaned_block dev b)"
proof -
  have b: "b \<in> blocks_of dev" using inv by (auto simp: inv_except_def)
  note ib = inv_block [OF inv b] and g = inv_geometry [OF inv]
  let ?f = "\<lambda>bi. bi\<lparr>block_state := YAFFS_BLOCK_STATE_EMPTY, bi_seq_number := 0\<rparr>"
  let ?g = "\<lambda>bi. bi\<lparr>pages_in_use := 0, soft_del_pages := 0, has_shrink_hdr := False,
    skip_erased_check := True, gc_prioritise := False, has_summary := False\<rparr>"
  let ?e = "n_erased_blocks dev + 1"
  let ?d1 = "(upd_block_info dev b ?f)\<lparr>n_erased_blocks := ?e\<rparr>" and ?n = "cleaned_block dev b"
  let ?d2 = "upd_block_info ?d1 b ?g"
  have n: "?n = yaffs_clear_chunk_bits ?d2 b" by (simp add: cleaned_block_def Let_def)
  have bl: "blocks_of ?d1 = blocks_of dev" by (rule blocks_of_config) simp
  have g1: "geometry_ok ?d1" using g by (simp add: geometry_ok_def)
  have r1: "yaffs_get_block_info (upd_block_info dev b ?f) x =
      (if b = x then ?f (yaffs_get_block_info dev b) else yaffs_get_block_info dev x)"
    if "x \<in> blocks_of dev" for x
    by (rule get_upd [OF g b that])
  have r2: "yaffs_get_block_info ?d2 x = (if b = x then ?g (yaffs_get_block_info (upd_block_info dev b ?f) b)
      else yaffs_get_block_info (upd_block_info dev b ?f) x)"
    if "x \<in> blocks_of dev" for x
    using get_upd [OF g1, of b x ?g] b that by (simp only: bl get_frame)
  have get: "yaffs_get_block_info ?n x =
      (if b = x then ?g (?f (yaffs_get_block_info dev b)) else yaffs_get_block_info dev x)"
    if "x \<in> blocks_of dev" for x
    unfolding n get_frame(11) r2 [OF that] r1 [OF that] r1 [OF b] by simp
  have bm: "bitmap_ok ?d2" using ib(4) by simp
  have vc: "valid_chunk ?d2 b 0" using valid_chunk_zero [OF g b] valid_chunk_config [of ?d2 dev] by simp
  have use: "chunks_in_use ?n x = (if b = x then {} else chunks_in_use dev x)" if "x \<in> blocks_of dev" for x
    unfolding n using bitmap_refines_set_lemma(3) [OF bm vc, of x] that valid_block_config [of ?d2 dev]
    by (simp add: valid_blocks_of)
  have fields: "alloc_block ?n = alloc_block dev" "alloc_page ?n = alloc_page dev" "n_erased_blocks ?n = ?e"
    "n_free_chunks ?n = n_free_chunks dev" "dev_config ?n = dev_config dev"
    by (simp_all add: n)
  have na: "b \<noteq> alloc_block dev" using ib(2,3,6) by (auto simp: alloc_ok_def)
  show ?thesis
  proof (rule inv_update [OF inv b])
    show "bitmap_ok ?n" unfolding n using bm.ok_clear_block [OF bm vc] by simp
    show "view3 (yaffs_get_block_info ?n x) = view3 (yaffs_get_block_info dev x) \<and>
        chunks_in_use ?n x = chunks_in_use dev x" if "x \<in> blocks_of dev" "x \<noteq> b" for x
      using get [OF that(1)] use [OF that(1)] that by simp
    show "block_ok ?n b" using get [OF b] use [OF b] by (simp add: block_ok_def view3_def)
    have "alloc_block dev \<noteq> -1 \<Longrightarrow> alloc_block dev \<in> blocks_of dev \<and>
        block_state (yaffs_get_block_info dev (alloc_block dev)) = YAFFS_BLOCK_STATE_ALLOCATING"
      using ib(3) by (auto simp: alloc_ok_def valid_blocks_of)
    then show "alloc_ok ?n"
      by (intro alloc_ok_other [OF ib(3) fields(1,2,5)]) (use na get use in auto)
  qed (use get [OF b] in \<open>simp_all add: fields block_free_chunks_def\<close>)
qed

lemma finite_in_use [simp]: "finite (chunks_in_use dev b)"
  unfolding chunks_in_use_def by (rule bm.finite_set_chunks)

text \<open>The two phases of \<open>yaffs_block_became_dirty\<close>: the block is marked, then it is erased.\<close>

definition dirty_block :: "('n, 'x) yaffs_dev_scheme \<Rightarrow> int \<Rightarrow> ('n, 'x) yaffs_dev_scheme" where
  "dirty_block dev b =
     (let dev = yaffs2_clear_oldest_dirty_seq dev (Some (yaffs_get_block_info dev b));
          dev = upd_block_info dev b (\<lambda>bi. bi\<lparr>block_state := YAFFS_BLOCK_STATE_DIRTY\<rparr>);
          dev = (if b = gc_block dev then dev\<lparr>gc_block := 0\<rparr> else dev)
      in if b = gc_dirtiest dev then dev\<lparr>gc_dirtiest := 0, gc_pages_in_use := 0\<rparr> else dev)"

definition dirty_erase :: "('n, 'x) yaffs_dev_scheme \<Rightarrow> int \<Rightarrow> int \<times> ('n, 'x) yaffs_dev_scheme" where
  "dirty_erase dev b =
     (if \<not> needs_retiring (yaffs_get_block_info dev b) then
        (let dev = yaffs2_checkpt_invalidate dev; (r, dev) = yaffs_erase_block dev b
         in (r, if r = 0 then upd_stats dev (\<lambda>s. s\<lparr>n_erase_failures := n_erase_failures s + 1\<rparr>) else dev))
      else (0, dev))"

lemma became_dirty_phases:
  "yaffs_block_became_dirty dev b = (case dirty_erase (dirty_block dev b) b of (ok, d) \<Rightarrow>
     if ok = 0 then yaffs_retire_block (d\<lparr>n_free_chunks := n_free_chunks d - cpb d\<rparr>) b
     else cleaned_block (verify_erasure d b) b)"
  by (cases "dirty_erase (dirty_block dev b) b")
    (simp add: yaffs_block_became_dirty_def dirty_block_def dirty_erase_def cleaned_block_def Let_def)

lemma inv_dirty_block:
  assumes inv: "inv_except {} 0 dev" and b: "b \<in> blocks_of dev"
    and st: "block_state (yaffs_get_block_info dev b) \<in> {YAFFS_BLOCK_STATE_FULL, YAFFS_BLOCK_STATE_COLLECTING}"
    and zero: "pages_in_use (yaffs_get_block_info dev b) = 0"
  shows "inv_except {b} (cpb dev) (dirty_block dev b) \<and> dev_config (dirty_block dev b) = dev_config dev"
proof -
  let ?d1 = "yaffs2_clear_oldest_dirty_seq dev (Some (yaffs_get_block_info dev b))"
  let ?d2 = "upd_block_info ?d1 b (\<lambda>bi. bi\<lparr>block_state := YAFFS_BLOCK_STATE_DIRTY\<rparr>)"
  let ?d3 = "if b = gc_block ?d2 then ?d2\<lparr>gc_block := 0\<rparr> else ?d2"
  let ?d4 = "if b = gc_dirtiest ?d3 then ?d3\<lparr>gc_dirtiest := 0, gc_pages_in_use := 0\<rparr> else ?d3"
  note ib = inv_block [OF inv b]
  have u1: "unseen dev ?d1" by (rule unseen_ops)
  have i1: "inv_except {} 0 ?d1" by (rule unseen_inv [OF u1 inv])
  have c1: "dev_config ?d1 = dev_config dev" using u1 by (simp add: unseen_def)
  have b1: "b \<in> blocks_of ?d1" using b u1 blocks_of_config by (metis unseen_def)
  have v1: "view3 (yaffs_get_block_info ?d1 b) = view3 (yaffs_get_block_info dev b)"
    using u1 view3_get [of dev ?d1 b] ib(5,7) by (simp add: unseen_def)
  have bo: "block_ok ?d1 b" using inv_block(1) [OF i1 b1] by simp
  note pg = block_ok_pages [OF bo]
  have empty: "chunks_in_use ?d1 b = {}" "soft_del_pages (yaffs_get_block_info ?d1 b) = 0"
    "pages_in_use (yaffs_get_block_info ?d1 b) = 0"
  proof -
    show "pages_in_use (yaffs_get_block_info ?d1 b) = 0" using v1 zero by (simp add: view3_def)
    then show "soft_del_pages (yaffs_get_block_info ?d1 b) = 0" "chunks_in_use ?d1 b = {}"
      using pg(1,2,3) finite_in_use [of ?d1 b] by simp_all
  qed
  have st1: "block_state (yaffs_get_block_info ?d1 b) \<in> {YAFFS_BLOCK_STATE_FULL, YAFFS_BLOCK_STATE_COLLECTING}"
    using st v1 by (auto simp: view3_def)
  have na: "b \<noteq> alloc_block ?d1"
    using inv_block(3,6) [OF i1 b1] st1 by (auto simp: alloc_ok_def)
  have "inv_except {b} (cpb ?d1) (?d2\<lparr>n_erased_blocks := n_erased_blocks ?d1, n_free_chunks := n_free_chunks ?d1\<rparr>)"
    by (rule inv_set_block [OF i1 b1])
      (use empty st1 na in \<open>auto simp: view3_def block_free_chunks_def\<close>)
  then have i2: "inv_except {b} (cpb dev) ?d2" using dev_configD(1) [OF c1] by (simp add: update_counters_same)
  have "unseen ?d2 ?d3" by (simp add: unseen_def)
  moreover have "unseen ?d3 ?d4" by (simp add: unseen_def)
  ultimately have u4: "unseen ?d2 ?d4" by (rule unseen_trans)
  have d4: "dirty_block dev b = ?d4" by (simp only: dirty_block_def Let_def)
  show ?thesis unfolding d4 using unseen_inv [OF u4 i2] u4 c1 by (simp add: unseen_def)
qed

lemma inv_dirty_erase:
  assumes inv: "inv_except {b} k dev" and e: "dirty_erase dev b = (ok, d)"
  shows "inv_except {b} k d \<and> dev_config d = dev_config dev"
proof (cases "needs_retiring (yaffs_get_block_info dev b)")
  case False
  let ?d = "yaffs2_checkpt_invalidate dev"
  obtain r de where er: "yaffs_erase_block ?d b = (r, de)" by fastforce
  have u: "unseen ?d de" using unseen_ops(2) [of ?d b] er by simp
  have "d = (if r = 0 then upd_stats de (\<lambda>s. s\<lparr>n_erase_failures := n_erase_failures s + 1\<rparr>) else de)"
    using e False er by (auto simp: dirty_erase_def Let_def)
  with u have "unseen ?d d" by (simp add: unseen_def)
  then show ?thesis using unseen_inv [OF _ inv_checkpt_invalidate [OF inv]] by (simp add: unseen_def)
qed (use inv e in \<open>simp add: dirty_erase_def\<close>)

lemma inv_became_dirty:
  assumes inv: "inv_except {} 0 dev" and b: "b \<in> blocks_of dev"
    and st: "block_state (yaffs_get_block_info dev b) \<in> {YAFFS_BLOCK_STATE_FULL, YAFFS_BLOCK_STATE_COLLECTING}"
    and zero: "pages_in_use (yaffs_get_block_info dev b) = 0"
  shows "inv_except {} 0 (yaffs_block_became_dirty dev b)"
proof -
  obtain ok d where e: "dirty_erase (dirty_block dev b) b = (ok, d)" by fastforce
  note di = inv_dirty_block [OF inv b st zero]
  from inv_dirty_erase [OF conjunct1 [OF di] e]
  have i: "inv_except {b} (cpb d) d" using conjunct2 [OF di] dev_configD(1) [of d dev] by auto
  have u: "unseen d (verify_erasure d b)" by (rule unseen_verify_erasure)
  then have "inv_except {b} (cpb (verify_erasure d b)) (verify_erasure d b)"
    using unseen_inv [OF u i] dev_configD(1) [of "verify_erasure d b" d] by (simp add: unseen_def)
  from inv_cleaned [OF this] show ?thesis
    using e inv_retire [OF i] by (simp add: became_dirty_phases)
qed

section \<open>Chunks come and go\<close>

lemma in_use_bounds:
  assumes "c \<in> chunks_in_use dev b" shows "0 \<le> c" "c < cpb dev" "valid_chunk dev b c" "valid_block dev b"
  using assms by (auto simp: chunks_in_use_def valid_chunk_def valid_block_def)

lemma card_in_use_le: "int (card (chunks_in_use dev b)) \<le> max 0 (cpb dev)"
proof -
  have "chunks_in_use dev b \<subseteq> {0..<cpb dev}" using in_use_bounds by auto
  then have "card (chunks_in_use dev b) \<le> card {0..<cpb dev}" by (intro card_mono) auto
  then show ?thesis by simp
qed

lemma s10_pages:
  assumes "geometry_ok dev" "0 \<le> i" "i \<le> cpb dev" shows "s10 i = i"
  using assms by (intro s10_id) (auto simp: geometry_ok_def)

text \<open>A used chunk lies in a block that is being written, full or being collected.\<close>

lemma used_block_state:
  assumes "block_ok dev b" "c \<in> chunks_in_use dev b"
  shows "block_state (yaffs_get_block_info dev b) \<in> {YAFFS_BLOCK_STATE_ALLOCATING, YAFFS_BLOCK_STATE_FULL,
      YAFFS_BLOCK_STATE_COLLECTING}" "0 < card (chunks_in_use dev b)"
proof -
  show "0 < card (chunks_in_use dev b)" using assms(2) by (auto simp: card_gt_0_iff)
  with assms(1) show "block_state (yaffs_get_block_info dev b) \<in> {YAFFS_BLOCK_STATE_ALLOCATING,
      YAFFS_BLOCK_STATE_FULL, YAFFS_BLOCK_STATE_COLLECTING}"
    by (auto simp: block_ok_def view3_def)
qed

text \<open>The release of one chunk, without the erasure that may follow.\<close>

definition release_chunk :: "('n, 'x) yaffs_dev_scheme \<Rightarrow> int \<Rightarrow> int \<Rightarrow> ('n, 'x) yaffs_dev_scheme" where
  "release_chunk dev block page =
     upd_block_info (yaffs_clear_chunk_bit (dev\<lparr>n_free_chunks := n_free_chunks dev + 1\<rparr>) block page) block
       (\<lambda>bi. bi\<lparr>pages_in_use := s10 (pages_in_use bi - 1)\<rparr>)"

lemma release_chunk_effect:
  assumes inv: "inv_except {} 0 dev" and c: "c \<in> chunks_in_use dev b"
    and soft: "soft_del_pages (yaffs_get_block_info dev b) < pages_in_use (yaffs_get_block_info dev b)"
  shows "inv_except {} 0 (release_chunk dev b c)" "dev_config (release_chunk dev b c) = dev_config dev"
    "yaffs_get_block_info (release_chunk dev b c) b =
       (yaffs_get_block_info dev b)\<lparr>pages_in_use := pages_in_use (yaffs_get_block_info dev b) - 1\<rparr>"
    "chunks_in_use (release_chunk dev b c) b = chunks_in_use dev b - {c}"
    "alloc_block (release_chunk dev b c) = alloc_block dev"
proof -
  let ?d = "dev\<lparr>n_free_chunks := n_free_chunks dev + 1\<rparr>" and ?n = "release_chunk dev b c"
  let ?d1 = "yaffs_clear_chunk_bit ?d b c"
  let ?f = "\<lambda>bi. bi\<lparr>pages_in_use := s10 (pages_in_use bi - 1)\<rparr>"
  have vc: "valid_chunk ?d b c" using in_use_bounds(3) [OF c] valid_chunk_config [of ?d dev] by simp
  have b: "b \<in> blocks_of dev" using in_use_bounds(4) [OF c] by (simp add: valid_blocks_of)
  note ib = inv_block [OF inv b] and g = inv_geometry [OF inv]
  have ok: "block_ok dev b" using ib(1) by simp
  note pg = block_ok_pages [OF ok] and us = used_block_state [OF ok c]
  have bm: "bitmap_ok ?d" using ib(4) by simp
  have g1: "geometry_ok ?d1" using bm.ok_clear [OF bm vc] by (simp add: bitmap_ok_def)
  have bl: "blocks_of ?d1 = blocks_of dev" by (rule blocks_of_config) simp
  have s10: "s10 (pages_in_use (yaffs_get_block_info dev b) - 1) = pages_in_use (yaffs_get_block_info dev b) - 1"
    using us(2) pg(1) card_in_use_le [of dev b] g by (intro s10_pages [OF g]) (auto simp: geometry_ok_def)
  have get: "yaffs_get_block_info ?n x = (if b = x then (yaffs_get_block_info dev b)\<lparr>pages_in_use :=
      pages_in_use (yaffs_get_block_info dev b) - 1\<rparr> else yaffs_get_block_info dev x)"
    if "x \<in> blocks_of dev" for x
    using get_upd [OF g1, of b x ?f] b that s10 by (auto simp: release_chunk_def bl)
  have use: "chunks_in_use ?n x = (if b = x then chunks_in_use dev b - {c} else chunks_in_use dev x)"
    if "x \<in> blocks_of dev" for x
    using bitmap_refines_set_lemma(2) [OF bm vc, of x] that valid_block_config [of ?d dev]
    by (simp add: release_chunk_def valid_blocks_of)
  show cfg: "dev_config ?n = dev_config dev" and al: "alloc_block ?n = alloc_block dev"
    by (simp_all add: release_chunk_def)
  show "yaffs_get_block_info ?n b = (yaffs_get_block_info dev b)\<lparr>pages_in_use :=
      pages_in_use (yaffs_get_block_info dev b) - 1\<rparr>" "chunks_in_use ?n b = chunks_in_use dev b - {c}"
    using get [OF b] use [OF b] by simp_all
  show "inv_except {} 0 ?n"
  proof (rule inv_update [OF inv b cfg])
    show "bitmap_ok ?n" using bm.ok_clear [OF bm vc] by (simp add: release_chunk_def)
    show "view3 (yaffs_get_block_info ?n x) = view3 (yaffs_get_block_info dev x) \<and>
        chunks_in_use ?n x = chunks_in_use dev x" if "x \<in> blocks_of dev" "x \<noteq> b" for x
      using get [OF that(1)] use [OF that(1)] that by simp
    show "block_ok ?n b"
      using get [OF b] use [OF b] pg(1,2,4) us c soft ok
      by (auto simp: block_ok_def view3_def al of_nat_diff Suc_leI)
    have "alloc_block dev \<noteq> -1 \<Longrightarrow> alloc_block dev \<in> blocks_of dev \<and>
        block_state (yaffs_get_block_info dev (alloc_block dev)) = YAFFS_BLOCK_STATE_ALLOCATING"
      using ib(3) by (auto simp: alloc_ok_def valid_blocks_of)
    then show "alloc_ok ?n"
      by (intro alloc_ok_other [OF ib(3) al _ cfg]) (use get use in \<open>auto simp: release_chunk_def\<close>)
    show "n_free_chunks ?n - 0 = n_free_chunks dev - 0
        - (if b \<in> {} then 0 else block_free_chunks dev (yaffs_get_block_info dev b))
        + (if b \<in> {} then 0 else block_free_chunks dev (yaffs_get_block_info ?n b))"
      using get [OF b] us(1) by (auto simp: release_chunk_def block_free_chunks_def)
  qed (use get [OF b] us(1) al in \<open>auto simp: release_chunk_def\<close>)
qed

lemma unseenD:
  assumes "unseen d d'" "geometry_ok d"
  shows "chunks_in_use d' = chunks_in_use d" "blocks_of d' = blocks_of d" "param d' = param d"
    "alloc_block d' = alloc_block d" "alloc_page d' = alloc_page d"
    "b \<in> blocks_of d \<Longrightarrow> view3 (yaffs_get_block_info d' b) = view3 (yaffs_get_block_info d b)"
  using assms alloc_view_bits(3) [of d' d] blocks_of_config [of d' d] dev_configD(1) [of d' d]
    view3_get [of d d' b]
  by (simp_all add: unseen_def alloc_view_def valid_blocks_of)

lemma view3D:
  assumes "view3 bi = view3 bi'"
  shows "block_state bi = block_state bi'" "pages_in_use bi = pages_in_use bi'" "soft_del_pages bi = soft_del_pages bi'"
  using assms by (simp_all add: view3_def)

text \<open>Deleting a chunk in use releases it, on a device that differs in its statistics only, and
  erases the block when that was its last chunk.\<close>

lemma chunk_del_cases:
  assumes inv: "inv_except {} 0 dev" and "0 < chunk"
    and c: "chunk mod cpb dev \<in> chunks_in_use dev (chunk div cpb dev)"
    and soft: "soft_del_pages (yaffs_get_block_info dev (chunk div cpb dev))
      < pages_in_use (yaffs_get_block_info dev (chunk div cpb dev))"
  obtains d d' where "unseen dev d" "nand d = nand dev"
    "d' = release_chunk d (chunk div cpb dev) (chunk mod cpb dev)" "inv_except {} 0 d'" "chunk div cpb dev \<in> blocks_of d'"
    "yaffs_chunk_del dev chunk m = d' \<or>
     yaffs_chunk_del dev chunk m = yaffs_block_became_dirty d' (chunk div cpb dev) \<and>
       block_state (yaffs_get_block_info d' (chunk div cpb dev)) \<in> {YAFFS_BLOCK_STATE_FULL, YAFFS_BLOCK_STATE_COLLECTING} \<and>
       pages_in_use (yaffs_get_block_info d' (chunk div cpb dev)) = 0"
proof -
  let ?b = "chunk div cpb dev" and ?c = "chunk mod cpb dev"
  have b: "?b \<in> blocks_of dev" using in_use_bounds(4) [OF c] by (simp add: valid_blocks_of)
  note ib = inv_block [OF inv b]
  have y2: "is_yaffs2 (param dev)" using inv by (simp add: inv_except_def)
  let ?d0 = "upd_stats dev (\<lambda>s. s\<lparr>n_deletions := n_deletions s + 1\<rparr>)"
  let ?d1 = "yaffs2_update_oldest_dirty_seq ?d0 ?b (yaffs_get_block_info ?d0 ?b)"
  let ?d2 = "upd_stats ?d1 (\<lambda>s. s\<lparr>n_unmarked_deletions := n_unmarked_deletions s + 1\<rparr>)"
  have "unseen dev ?d0" by (simp add: unseen_def)
  moreover have "unseen ?d0 ?d1" by (rule unseen_ops)
  moreover have "unseen ?d1 ?d2" by (simp add: unseen_def)
  ultimately have u: "unseen dev ?d2" by (meson unseen_trans)
  have n2: "nand ?d2 = nand dev"
    by (simp add: upd_stats_def yaffs2_update_oldest_dirty_seq_def upd_block_info_def Let_def)
  note uD = unseenD [OF u ib(5)]
  note v = view3D [OF uD(6) [OF b]]
  have i2: "inv_except {} 0 ?d2" by (rule unseen_inv [OF u inv])
  have st: "block_state (yaffs_get_block_info ?d2 ?b) \<in> {YAFFS_BLOCK_STATE_ALLOCATING, YAFFS_BLOCK_STATE_FULL,
      YAFFS_BLOCK_STATE_COLLECTING}"
    using used_block_state(1) [OF ib(1) c] v by simp
  have c2: "?c \<in> chunks_in_use ?d2 ?b" using c uD(1) by simp
  note rc = release_chunk_effect [OF i2 c2]
  let ?d3 = "release_chunk ?d2 ?b ?c"
  have soft2: "soft_del_pages (yaffs_get_block_info ?d2 ?b) < pages_in_use (yaffs_get_block_info ?d2 ?b)"
    using soft v by simp
  note rc = rc [OF soft2]
  have p0: "param ?d0 = param dev" "param ?d1 = param dev"
    using uD(3) by (simp_all add: upd_stats_def)
  have eq: "yaffs_chunk_del dev chunk m =
      (let bi = yaffs_get_block_info ?d3 ?b
       in if pages_in_use bi = 0 \<and> \<not> has_shrink_hdr bi \<and> block_state bi \<noteq> YAFFS_BLOCK_STATE_ALLOCATING
             \<and> block_state bi \<noteq> YAFFS_BLOCK_STATE_NEEDS_SCAN
          then yaffs_block_became_dirty ?d3 ?b else ?d3)"
  proof -
    have "(chunk \<le> 0) = False" using \<open>0 < chunk\<close> by simp
    moreover have "block_state (yaffs_get_block_info ?d2 ?b) \<in> {YAFFS_BLOCK_STATE_ALLOCATING,
        YAFFS_BLOCK_STATE_FULL, YAFFS_BLOCK_STATE_NEEDS_SCAN, YAFFS_BLOCK_STATE_COLLECTING} \<longleftrightarrow> True"
      using st by blast
    ultimately show ?thesis
      unfolding yaffs_chunk_del_def Let_def release_chunk_def
      by (simp only: p0 y2 not_True_eq_False simp_thms if_False if_True)
  qed
  have b3: "?b \<in> blocks_of ?d3" using b uD(2) blocks_of_config [OF rc(2)] by simp
  have st3: "block_state (yaffs_get_block_info ?d3 ?b) = block_state (yaffs_get_block_info ?d2 ?b)"
    using rc(3) by simp
  show thesis
    by (rule that [OF u n2 refl rc(1) b3]) (use eq st st3 in \<open>auto simp: Let_def\<close>)
qed

lemma inv_chunk_del:
  assumes "inv_except {} 0 dev" "0 < chunk"
    and "chunk mod cpb dev \<in> chunks_in_use dev (chunk div cpb dev)"
    and "soft_del_pages (yaffs_get_block_info dev (chunk div cpb dev))
      < pages_in_use (yaffs_get_block_info dev (chunk div cpb dev))"
  shows "inv_except {} 0 (yaffs_chunk_del dev chunk mark_flash)"
proof (rule chunk_del_cases [OF assms, of mark_flash])
  fix d'
  assume i: "inv_except {} 0 d'" "chunk div cpb dev \<in> blocks_of d'"
    and del: "yaffs_chunk_del dev chunk mark_flash = d' \<or>
      yaffs_chunk_del dev chunk mark_flash = yaffs_block_became_dirty d' (chunk div cpb dev) \<and>
        block_state (yaffs_get_block_info d' (chunk div cpb dev)) \<in> {YAFFS_BLOCK_STATE_FULL, YAFFS_BLOCK_STATE_COLLECTING} \<and>
        pages_in_use (yaffs_get_block_info d' (chunk div cpb dev)) = 0"
  show ?thesis using del i(1) inv_became_dirty [OF i] by metis
qed

lemma inv_skip_rest [dev_inv]:
  assumes inv: "inv_except {} 0 dev"
  shows "inv_except {} 0 (yaffs_skip_rest_of_block dev)"
proof (cases "alloc_block dev > 0 \<and> block_state (yaffs_get_block_info dev (alloc_block dev)) = YAFFS_BLOCK_STATE_ALLOCATING")
  case True
  let ?b = "alloc_block dev"
  have b: "?b \<in> blocks_of dev"
    using inv True by (auto simp: inv_except_def alloc_ok_def valid_blocks_of)
  note ib = inv_block [OF inv b] and get = get_upd [OF inv_geometry [OF inv] b]
  let ?n = "(upd_block_info dev ?b (\<lambda>bi. bi\<lparr>block_state := YAFFS_BLOCK_STATE_FULL\<rparr>))\<lparr>alloc_block := -1\<rparr>"
  have "inv_except {} 0 ?n"
  proof (rule inv_update [OF inv b])
    show "view3 (yaffs_get_block_info ?n x) = view3 (yaffs_get_block_info dev x) \<and>
        chunks_in_use ?n x = chunks_in_use dev x" if "x \<in> blocks_of dev" "x \<noteq> ?b" for x
      using get [OF that(1)] that by simp
    show "block_ok ?n ?b" using ib(1) get [OF b] by (auto simp: block_ok_def view3_def)
    show "alloc_ok ?n" by (simp add: alloc_ok_def)
  qed (use get [OF b] True ib(4) in \<open>auto simp: block_free_chunks_def\<close>)
  then show ?thesis using True by (simp add: yaffs_skip_rest_of_block_def)
next
  case False
  then have "yaffs_skip_rest_of_block dev = dev" by (auto simp: yaffs_skip_rest_of_block_def)
  then show ?thesis using inv by simp
qed

section \<open>Allocation\<close>

lemma inv_no_alloc:
  assumes inv: "inv_except D k dev" and "alloc_block dev = -1"
  shows "inv_except D k (dev\<lparr>alloc_block := -1, alloc_page := p\<rparr>)"
proof -
  have "blocks_of dev \<noteq> {}" using inv_geometry [OF inv] by (simp add: geometry_ok_def blocks_of_def)
  then obtain b where b: "b \<in> blocks_of dev" by blast
  note ib = inv_block [OF inv b]
  show ?thesis
    by (rule inv_update [OF inv b])
      (use ib assms(2) inv b in \<open>auto simp: alloc_ok_def block_ok_def inv_except_def\<close>)
qed

lemma inv_find_alloc_loop:
  assumes "inv_except D k dev" "alloc_block dev = -1" "find_alloc_loop m dev = (f, d)"
  shows "inv_except D k (d\<lparr>alloc_block := f, alloc_page := 0\<rparr>) \<and> chunks_in_use d = chunks_in_use dev
    \<and> dev_config d = dev_config dev
    \<and> (f = -1 \<or> f \<in> blocks_of dev \<and> block_state (yaffs_get_block_info dev f) = YAFFS_BLOCK_STATE_EMPTY)"
  using assms
proof (induction m arbitrary: dev)
  case 0
  then show ?case using inv_no_alloc [of D k dev 0] by simp
next
  case (Suc m)
  note inv = Suc.prems(1)
  let ?f0 = "alloc_block_finder dev + 1"
  define F where "F = (if ?f0 < internal_start_block dev \<or> ?f0 > internal_end_block dev then internal_start_block dev else ?f0)"
  let ?d = "dev\<lparr>alloc_block_finder := F\<rparr>"
  have u: "unseen dev ?d" by (simp add: unseen_def)
  have i1: "inv_except D k ?d" by (rule unseen_inv [OF u inv])
  have b: "F \<in> blocks_of dev"
    using inv_geometry [OF inv] by (auto simp: geometry_ok_def blocks_of_def F_def)
  note step = Suc.prems(3) [unfolded find_alloc_loop.simps Let_def, folded F_def]
  have bl: "blocks_of ?d = blocks_of dev" by (simp add: blocks_of_def)
  have b1: "F \<in> blocks_of ?d" using b bl by simp
  show ?case
  proof (cases "block_state (yaffs_get_block_info dev F) = YAFFS_BLOCK_STATE_EMPTY")
    case False
    then have "find_alloc_loop m ?d = (f, d)" using step by simp
    from Suc.IH [OF i1 _ this] Suc.prems(2) show ?thesis by (simp add: bl)
  next
    case True
    let ?a = "upd_block_info ?d F (\<lambda>bi. bi\<lparr>block_state := YAFFS_BLOCK_STATE_ALLOCATING\<rparr>)"
    let ?a1 = "?a\<lparr>dev_seq_number := dev_seq_number ?a + 1\<rparr>"
    let ?a2 = "upd_block_info ?a1 F (\<lambda>bi. bi\<lparr>bi_seq_number := dev_seq_number ?a1\<rparr>)"
    let ?n = "?a2\<lparr>n_erased_blocks := n_erased_blocks dev - 1\<rparr>"
    have res: "f = F" "d = ?n" using step True by auto
    have g: "geometry_ok ?d" "geometry_ok ?a1" using inv_geometry [OF i1] by (simp_all add: geometry_ok_def)
    have bla: "blocks_of ?a1 = blocks_of dev" by (simp add: blocks_of_def)
    have r1: "yaffs_get_block_info ?a x = (if F = x then (yaffs_get_block_info dev x)
        \<lparr>block_state := YAFFS_BLOCK_STATE_ALLOCATING\<rparr> else yaffs_get_block_info dev x)" if "x \<in> blocks_of dev" for x
      using get_upd [OF g(1) b1, of x] that by (simp only: bl get_frame) auto
    have r2: "view3 (yaffs_get_block_info ?n x) = view3 (yaffs_get_block_info ?a x)" if "x \<in> blocks_of dev" for x
      using get_upd [OF g(2), of F x] that b by (simp only: bla get_frame) (auto simp: view3_def)
    let ?r = "?n\<lparr>alloc_block := F, alloc_page := 0\<rparr>"
    note ib = inv_block [OF inv b]
    have nD: "F \<notin> D" using ib(2) True by auto
    note pg = block_ok_pages [OF ib(1) [OF nD]]
    have empty: "chunks_in_use dev F = {}" "pages_in_use (yaffs_get_block_info dev F) = 0"
      "soft_del_pages (yaffs_get_block_info dev F) = 0"
      using pg True finite_in_use [of dev F] by auto
    have "inv_except D k ?r"
    proof (rule inv_update [OF inv b])
      show "view3 (yaffs_get_block_info ?r x) = view3 (yaffs_get_block_info dev x) \<and>
          chunks_in_use ?r x = chunks_in_use dev x" if "x \<in> blocks_of dev" "x \<noteq> F" for x
        using r1 [OF that(1)] r2 [OF that(1)] that by simp
      have v: "view3 (yaffs_get_block_info ?r F) = (YAFFS_BLOCK_STATE_ALLOCATING, 0, 0)"
        using r1 [OF b] r2 [OF b] empty by (simp add: view3_def)
      then show "block_ok ?r F" by (simp add: block_ok_def empty)
      show "alloc_ok ?r"
        using v ib(7) g(1) valid_block_config [of ?r dev] by (simp add: alloc_ok_def view3_def empty geometry_ok_def)
      show "n_erased_blocks ?r = n_erased_blocks dev
          - (if F \<notin> D \<and> block_state (yaffs_get_block_info dev F) = YAFFS_BLOCK_STATE_EMPTY then 1 else 0)
          + (if F \<notin> D \<and> block_state (yaffs_get_block_info ?r F) = YAFFS_BLOCK_STATE_EMPTY then 1 else 0)"
        using v True nD by (simp add: view3_def)
      show "n_free_chunks ?r - k = n_free_chunks dev - k
          - (if F \<in> D then 0 else block_free_chunks dev (yaffs_get_block_info dev F))
          + (if F \<in> D then 0 else block_free_chunks dev (yaffs_get_block_info ?r F))"
        using v True nD empty by (simp add: view3_def block_free_chunks_def upd_block_info_def)
    qed (use ib(4) nD Suc.prems(2) in simp_all)
    then show ?thesis using True b by (simp add: res)
  qed
qed

text \<open>Taking the next chunk of the allocation block.\<close>

definition take_chunk :: "('n, 'x) yaffs_dev_scheme \<Rightarrow> ('n, 'x) yaffs_dev_scheme" where
  "take_chunk dev =
     (let b = alloc_block dev;
          dev = upd_block_info dev b (\<lambda>bi. bi\<lparr>pages_in_use := s10 (pages_in_use bi + 1)\<rparr>);
          dev = yaffs_set_chunk_bit dev b (alloc_page dev);
          dev = dev\<lparr>alloc_page := alloc_page dev + 1\<rparr>;
          dev = dev\<lparr>n_free_chunks := n_free_chunks dev - 1\<rparr>
      in if alloc_page dev \<ge> cpb dev
         then (upd_block_info dev b (\<lambda>bi. bi\<lparr>block_state := YAFFS_BLOCK_STATE_FULL\<rparr>))\<lparr>alloc_block := -1\<rparr>
         else dev)"

lemma take_chunk_effect:
  assumes inv: "inv_except {} 0 dev" and al: "alloc_block dev \<noteq> -1"
  defines "b \<equiv> alloc_block dev" and "c \<equiv> alloc_page dev"
  shows "inv_except {} 0 (take_chunk dev)" "dev_config (take_chunk dev) = dev_config dev"
    "b \<in> blocks_of dev" "valid_chunk dev b c" "c \<notin> chunks_in_use dev b"
    "chunks_in_use (take_chunk dev) b = insert c (chunks_in_use dev b)"
    "x \<in> blocks_of dev \<Longrightarrow> x \<noteq> b \<Longrightarrow> chunks_in_use (take_chunk dev) x = chunks_in_use dev x"
    "soft_del_pages (yaffs_get_block_info (take_chunk dev) b) < pages_in_use (yaffs_get_block_info (take_chunk dev) b)"
    "alloc_block (take_chunk dev) = (if c + 1 < cpb dev then b else -1)" "alloc_page (take_chunk dev) = c + 1"
proof -
  have ao: "b \<in> blocks_of dev" "block_state (yaffs_get_block_info dev b) = YAFFS_BLOCK_STATE_ALLOCATING"
    "0 \<le> c" "c < cpb dev" "\<And>x. x \<in> chunks_in_use dev b \<Longrightarrow> x < c"
    using inv al by (auto simp: inv_except_def alloc_ok_def valid_blocks_of b_def c_def)
  note ib = inv_block [OF inv ao(1)] and g = inv_geometry [OF inv]
  have ok: "block_ok dev b" using ib(1) by simp
  note pg = block_ok_pages [OF ok]
  show "b \<in> blocks_of dev" by (rule ao(1))
  show vc: "valid_chunk dev b c" using ao ib(7) by (auto simp: valid_chunk_def valid_block_def)
  show nc: "c \<notin> chunks_in_use dev b" using ao(5) by blast
  let ?f = "\<lambda>bi. bi\<lparr>pages_in_use := s10 (pages_in_use bi + 1)\<rparr>"
  let ?d1 = "upd_block_info dev b ?f"
  let ?d2 = "(yaffs_set_chunk_bit ?d1 b c)\<lparr>alloc_page := c + 1, n_free_chunks := n_free_chunks dev - 1\<rparr>"
  let ?st = "\<lambda>bi. bi\<lparr>block_state := YAFFS_BLOCK_STATE_FULL\<rparr>"
  let ?n = "if c + 1 < cpb dev then ?d2 else (upd_block_info ?d2 b ?st)\<lparr>alloc_block := -1\<rparr>"
  have n: "take_chunk dev = ?n"
    by (simp add: take_chunk_def Let_def b_def c_def not_less)
  have g2: "geometry_ok ?d2" using geometry_set_clear(1) [of ?d1 b c] g by (simp add: geometry_ok_def)
  have b2: "blocks_of ?d2 = blocks_of dev" by (rule blocks_of_config) simp
  have lt: "card (chunks_in_use dev b) < nat (cpb dev)"
  proof -
    have "chunks_in_use dev b \<subseteq> {0..<c}" using ao(5) in_use_bounds(1) by auto
    then have "card (chunks_in_use dev b) \<le> card {0..<c}" by (intro card_mono) auto
    then show ?thesis using ao(3,4) by simp
  qed
  have s10: "s10 (pages_in_use (yaffs_get_block_info dev b) + 1) = pages_in_use (yaffs_get_block_info dev b) + 1"
    by (rule s10_pages [OF g]) (use lt pg(1) in auto)
  let ?bi = "(yaffs_get_block_info dev b)\<lparr>pages_in_use := pages_in_use (yaffs_get_block_info dev b) + 1\<rparr>"
  have r2: "yaffs_get_block_info ?d2 x = (if b = x then ?bi else yaffs_get_block_info dev x)"
    if "x \<in> blocks_of dev" for x
    using get_upd [OF g ao(1) that, of ?f] s10 by (simp only: get_frame)
  have get: "yaffs_get_block_info ?n x = (if b = x then (if c + 1 < cpb dev then ?bi else ?st ?bi)
      else yaffs_get_block_info dev x)" if "x \<in> blocks_of dev" for x
  proof -
    have "yaffs_get_block_info (upd_block_info ?d2 b ?st) x =
        (if b = x then ?st (yaffs_get_block_info ?d2 b) else yaffs_get_block_info ?d2 x)"
      by (rule get_upd [OF g2]) (simp_all only: b2 ao(1) that)
    then show ?thesis
      unfolding r2 [OF that] r2 [OF ao(1)] using r2 [OF that] by (cases "c + 1 < cpb dev") simp_all
  qed
  have bm: "bitmap_ok ?d1" using ib(4) by simp
  have vc1: "valid_chunk ?d1 b c" using vc by simp
  have use2: "chunks_in_use ?d2 = chunks_in_use (yaffs_set_chunk_bit ?d1 b c)"
    by (rule in_use_cong) simp_all
  have bm2: "bitmap_ok ?d2 = bitmap_ok (yaffs_set_chunk_bit ?d1 b c)"
    by (rule bitmap_ok_cong) simp_all
  have use: "chunks_in_use ?n x = (if b = x then insert c (chunks_in_use dev b) else chunks_in_use dev x)"
    if "x \<in> blocks_of dev" for x
  proof -
    have "valid_block ?d1 x" using that valid_block_config [of ?d1 dev] by (simp add: valid_blocks_of)
    from bitmap_refines_set_lemma(1) [OF bm vc1 this]
    have "chunks_in_use ?d2 x = (if b = x then insert c (chunks_in_use dev b) else chunks_in_use dev x)"
      unfolding bits_frame(1) use2 .
    then show ?thesis
      by (cases "c + 1 < cpb dev") (simp_all only: if_True if_False bits_frame)
  qed
  show cfg: "dev_config (take_chunk dev) = dev_config dev"
    unfolding n by simp
  show al_n: "alloc_block (take_chunk dev) = (if c + 1 < cpb dev then b else -1)"
    and pg_n: "alloc_page (take_chunk dev) = c + 1"
    unfolding n by (simp_all add: b_def)
  show "chunks_in_use (take_chunk dev) b = insert c (chunks_in_use dev b)"
    unfolding n use [OF ao(1)] by simp
  show "x \<in> blocks_of dev \<Longrightarrow> x \<noteq> b \<Longrightarrow> chunks_in_use (take_chunk dev) x = chunks_in_use dev x"
    unfolding n by (simp only: use) simp
  show "soft_del_pages (yaffs_get_block_info (take_chunk dev) b) < pages_in_use (yaffs_get_block_info (take_chunk dev) b)"
    unfolding n get [OF ao(1)] using pg(3) by simp
  show "inv_except {} 0 (take_chunk dev)"
  proof (rule inv_update [OF inv ao(1) cfg])
    show "bitmap_ok (take_chunk dev)"
      unfolding n using bm.ok_set [OF bm vc1] by (simp add: bm2)
    show "view3 (yaffs_get_block_info (take_chunk dev) x) = view3 (yaffs_get_block_info dev x) \<and>
        chunks_in_use (take_chunk dev) x = chunks_in_use dev x" if "x \<in> blocks_of dev" "x \<noteq> b" for x
      unfolding n get [OF that(1)] use [OF that(1)] using that by simp
    show "block_ok (take_chunk dev) b"
      unfolding block_ok_def al_n unfolding n get [OF ao(1)] use [OF ao(1)]
      using nc pg(1,2,3) ao(2) by (auto simp: view3_def)
    show "alloc_ok (take_chunk dev)"
      unfolding alloc_ok_def al_n pg_n valid_block_config [OF cfg] dev_configD(1) [OF cfg]
      unfolding n using get [OF ao(1)] use [OF ao(1)] ao ib(7)
      by (auto intro: less_imp_le [OF ao(5)])
    show "n_free_chunks (take_chunk dev) - 0 = n_free_chunks dev - 0
        - (if b \<in> {} then 0 else block_free_chunks dev (yaffs_get_block_info dev b))
        + (if b \<in> {} then 0 else block_free_chunks dev (yaffs_get_block_info (take_chunk dev) b))"
      unfolding n get [OF ao(1)] using ao(2) by (simp add: block_free_chunks_def upd_block_info_def)
    show "n_erased_blocks (take_chunk dev) = n_erased_blocks dev
        - (if b \<notin> {} \<and> block_state (yaffs_get_block_info dev b) = YAFFS_BLOCK_STATE_EMPTY then 1 else 0)
        + (if b \<notin> {} \<and> block_state (yaffs_get_block_info (take_chunk dev) b) = YAFFS_BLOCK_STATE_EMPTY then 1 else 0)"
      unfolding n get [OF ao(1)] using ao(2) by (simp add: upd_block_info_def)
  qed (simp_all add: b_def)
qed

text \<open>A chunk of a block that was just allocated.\<close>

definition fresh :: "int \<Rightarrow> int \<Rightarrow> ('n, 'x) yaffs_dev_scheme \<Rightarrow> bool" where
  "fresh b c dev \<longleftrightarrow> inv_except {} 0 dev \<and> b \<in> blocks_of dev \<and> c \<in> chunks_in_use dev b \<and>
     soft_del_pages (yaffs_get_block_info dev b) < pages_in_use (yaffs_get_block_info dev b)"

definition just_allocated :: "int \<Rightarrow> int \<Rightarrow> ('n, 'x) yaffs_dev_scheme \<Rightarrow> bool" where
  "just_allocated b c dev \<longleftrightarrow> fresh b c dev \<and>
     (alloc_block dev = b \<and> alloc_page dev = c + 1 \<or> alloc_block dev = -1 \<and> c + 1 = cpb dev)"

lemma fresh_unseen:
  assumes "unseen dev d" "fresh b c dev" shows "fresh b c d"
proof -
  have inv: "inv_except {} 0 dev" and b: "b \<in> blocks_of dev" using assms(2) by (simp_all add: fresh_def)
  note u = unseenD [OF assms(1) inv_geometry [OF inv]]
  show ?thesis
    using assms(2) unseen_inv [OF assms(1) inv] view3D [OF u(6) [OF b]] u(1,2) by (simp add: fresh_def)
qed

lemma just_allocated_unseen:
  assumes "unseen dev d" "just_allocated b c dev" shows "just_allocated b c d"
  using assms fresh_unseen [OF assms(1)] unseenD(3,4,5) [OF assms(1)] inv_geometry [of "{}" 0 dev]
  by (auto simp: just_allocated_def fresh_def)

text \<open>The allocation block is looked for when there is none.\<close>

definition alloc_prepare :: "('n, 'x) yaffs_dev_scheme \<Rightarrow> ('n, 'x) yaffs_dev_scheme" where
  "alloc_prepare dev = (if alloc_block dev < 0
     then (let (b, d) = yaffs_find_alloc_block dev in d\<lparr>alloc_block := b, alloc_page := 0\<rparr>) else dev)"

lemma alloc_prepare_effect:
  assumes inv: "inv_except {} 0 dev"
  shows "inv_except {} 0 (alloc_prepare dev) \<and> chunks_in_use (alloc_prepare dev) = chunks_in_use dev \<and>
    dev_config (alloc_prepare dev) = dev_config dev"
proof -
  have al: "alloc_block dev < 0 \<longleftrightarrow> alloc_block dev = -1"
    using inv inv_geometry [OF inv] by (auto simp: inv_except_def alloc_ok_def valid_block_def geometry_ok_def)
  show ?thesis
  proof (cases "alloc_block dev = -1")
    case True
    obtain f e where f: "yaffs_find_alloc_block dev = (f, e)" by fastforce
    show ?thesis
    proof (cases "n_erased_blocks dev < 1")
      case True
      with f have "f = -1" "e = dev" by (auto simp: yaffs_find_alloc_block_def)
      then show ?thesis
        using inv_no_alloc [OF inv \<open>alloc_block dev = -1\<close>] f \<open>alloc_block dev = -1\<close> by (simp add: alloc_prepare_def)
    next
      case False
      with f have "find_alloc_loop (nat (internal_end_block dev - internal_start_block dev + 1)) dev = (f, e)"
        by (simp add: yaffs_find_alloc_block_def)
      from inv_find_alloc_loop [OF inv True this] show ?thesis using f True by (simp add: alloc_prepare_def)
    qed
  qed (use inv al in \<open>simp add: alloc_prepare_def\<close>)
qed

lemma alloc_chunk_effect:
  assumes inv: "inv_except {} 0 dev" and "yaffs_alloc_chunk dev ur = (r, d)"
  shows "inv_except {} 0 d \<and> dev_config d = dev_config dev \<and>
    (r < 0 \<or> (\<exists>b c. r = b * cpb dev + c \<and> 0 < b \<and> 0 \<le> c \<and> c < cpb dev \<and>
       c \<notin> chunks_in_use dev b \<and> just_allocated b c d))"
proof -
  let ?d1 = "alloc_prepare dev"
  note one = alloc_prepare_effect [OF inv]
  obtain av d2 where av: "(if ur then (True, ?d1) else yaffs_check_alloc_available ?d1 1) = (av, d2)"
    by (metis surj_pair)
  have u: "unseen ?d1 d2"
    using av unseen_ops(7) [of ?d1 1] by (cases ur) auto
  note uD = unseenD [OF u inv_geometry]
  have i2: "inv_except {} 0 d2" by (rule unseen_inv [OF u]) (use one in simp)
  have c2: "dev_config d2 = dev_config dev" using u one by (simp add: unseen_def)
  have use2: "chunks_in_use d2 = chunks_in_use dev"
    using uD(1) [OF conjunct1 [OF one]] conjunct1 [OF conjunct2 [OF one]] by (rule trans)
  have al2: "alloc_block d2 \<ge> 0 \<longleftrightarrow> alloc_block d2 \<noteq> -1"
    using i2 inv_geometry [OF i2] by (auto simp: inv_except_def alloc_ok_def valid_block_def geometry_ok_def)
  have res: "(r, d) = (if \<not> av then (-1, d2) else if alloc_block d2 \<ge> 0
      then (alloc_block d2 * cpb d2 + alloc_page d2, take_chunk d2) else (-1, d2))"
    using assms(2) av unfolding yaffs_alloc_chunk_def take_chunk_def alloc_prepare_def Let_def
    by (auto split: prod.splits if_splits)
  show ?thesis
  proof (cases "av \<and> alloc_block d2 \<noteq> -1")
    case True
    note t = take_chunk_effect [OF i2 conjunct2 [OF True]]
    let ?b = "alloc_block d2" and ?c = "alloc_page d2"
    have "just_allocated ?b ?c (take_chunk d2)"
      using t blocks_of_config [OF t(2)] dev_configD(1) [OF t(2)] inv_block(6) [OF i2 t(3)]
        in_use_bounds(2) [of ?c "take_chunk d2" ?b]
      by (auto simp: just_allocated_def fresh_def)
    then have "r = ?b * cpb dev + ?c \<and> 0 < ?b \<and> 0 \<le> ?c \<and> ?c < cpb dev \<and>
        ?c \<notin> chunks_in_use dev ?b \<and> just_allocated ?b ?c d" "d = take_chunk d2"
      using True res al2 t(4,5) use2 dev_configD(1) [OF c2] inv_block(6) [OF i2 t(3)]
      by (auto simp: valid_chunk_def)
    then show ?thesis using t(1,2) c2 by auto
  next
    case False
    then have "(r, d) = (-1, d2)" using res al2 by (simp split: if_splits)
    then show ?thesis using i2 c2 by simp
  qed
qed

end
