(* ===== verification/Yaffs_WriteInv.thy ===== *)
theory Yaffs_WriteInv
  imports Yaffs_AllocInv
begin

text \<open>
  Writing keeps the allocator's invariant, the summary at the end of a block included. While the
  summary is written its chunks are taken behind the allocator's back (the allocation page does
  not advance), so the intermediate devices are described as if the rest of the block had been
  skipped already, which is what follows: \<open>skipped b\<close>.
\<close>

section \<open>Chunks taken by a summary\<close>

definition skipped :: "int \<Rightarrow> ('n, 'x) yaffs_dev_scheme \<Rightarrow> ('n, 'x) yaffs_dev_scheme" where
  "skipped b dev = (upd_block_info dev b (\<lambda>bi. bi\<lparr>block_state := YAFFS_BLOCK_STATE_FULL\<rparr>))\<lparr>alloc_block := -1\<rparr>"

text \<open>Block \<open>b\<close> is being filled, chunk \<open>c\<close> of it was just written, and no chunk from \<open>i\<close> on is used.\<close>

definition filling :: "int \<Rightarrow> int \<Rightarrow> int \<Rightarrow> ('n, 'x) yaffs_dev_scheme \<Rightarrow> bool" where
  "filling b c i dev \<longleftrightarrow> inv_except {} 0 (skipped b dev) \<and> b \<in> blocks_of dev \<and> alloc_block dev = b \<and>
     block_state (yaffs_get_block_info dev b) = YAFFS_BLOCK_STATE_ALLOCATING \<and>
     c \<in> chunks_in_use dev b \<and>
     soft_del_pages (yaffs_get_block_info dev b) < pages_in_use (yaffs_get_block_info dev b) \<and>
     (\<forall>x \<in> chunks_in_use dev b. x < i)"

lemma skipped_simps [simp]:
  "dev_config (skipped b dev) = dev_config dev" "chunks_in_use (skipped b dev) = chunks_in_use dev"
  "bitmap_ok (skipped b dev) = bitmap_ok dev" "alloc_block (skipped b dev) = -1"
  "n_erased_blocks (skipped b dev) = n_erased_blocks dev" "n_free_chunks (skipped b dev) = n_free_chunks dev"
  "blocks_of (skipped b dev) = blocks_of dev"
proof -
  show c: "dev_config (skipped b dev) = dev_config dev" by (simp add: skipped_def)
  show "blocks_of (skipped b dev) = blocks_of dev" by (rule blocks_of_config [OF c])
qed (simp_all add: skipped_def)

lemma get_skipped:
  assumes "geometry_ok dev" "b \<in> blocks_of dev" "x \<in> blocks_of dev"
  shows "yaffs_get_block_info (skipped b dev) x = (if b = x
    then (yaffs_get_block_info dev b)\<lparr>block_state := YAFFS_BLOCK_STATE_FULL\<rparr> else yaffs_get_block_info dev x)"
  using get_upd [OF assms] by (simp add: skipped_def)

lemma filling_skip_rest:
  "filling b c i dev \<Longrightarrow> 0 < b \<Longrightarrow> yaffs_skip_rest_of_block dev = skipped b dev"
  by (simp add: filling_def yaffs_skip_rest_of_block_def skipped_def)

lemma just_allocated_filling:
  assumes "just_allocated b c dev" "c + 1 < cpb dev"
  shows "filling b c (c + 1) dev" "0 < b"
proof -
  have inv: "inv_except {} 0 dev" and b: "b \<in> blocks_of dev" and al: "alloc_block dev = b" "alloc_page dev = c + 1"
    using assms by (auto simp: just_allocated_def fresh_def)
  note ib = inv_block [OF inv b]
  show "0 < b" by (rule ib(6))
  have st: "block_state (yaffs_get_block_info dev b) = YAFFS_BLOCK_STATE_ALLOCATING"
    "\<forall>x \<in> chunks_in_use dev b. x < c + 1"
    using ib(3,6) al by (auto simp: alloc_ok_def)
  then have "yaffs_skip_rest_of_block dev = skipped b dev"
    using al ib(6) by (simp add: yaffs_skip_rest_of_block_def skipped_def)
  then show "filling b c (c + 1) dev"
    using inv_skip_rest [OF inv] st assms b al by (simp add: filling_def just_allocated_def fresh_def)
qed

lemma filling_geometry: "filling b c i dev \<Longrightarrow> geometry_ok dev"
  by (simp add: filling_def inv_except_def) (simp add: bitmap_ok_def)

lemma unseen_skipped:
  assumes u: "unseen dev d" and g: "geometry_ok dev" and b: "b \<in> blocks_of dev"
  shows "unseen (skipped b dev) (skipped b d)"
proof -
  have c: "dev_config d = dev_config dev" using u by (simp add: unseen_def)
  have gd: "geometry_ok d"
    using g u dev_configD [OF c] alloc_view_bits(4,5) [of d dev] by (simp add: geometry_ok_def unseen_def)
  have m: "map view3 (block_info d) = map view3 (block_info dev)" using u by (simp add: unseen_def alloc_view_def)
  let ?i = "nat (b - internal_start_block dev)"
  have i: "?i < length (block_info dev)" "?i < length (block_info d)"
    using b g gd dev_configD(9,10) [OF c] by (auto simp: blocks_of_def geometry_ok_def)
  have "view3 (yaffs_get_block_info d b) = view3 (yaffs_get_block_info dev b)"
    by (rule unseenD(6) [OF u g b])
  then have "map view3 ((block_info d)[?i := (yaffs_get_block_info d b)\<lparr>block_state := YAFFS_BLOCK_STATE_FULL\<rparr>]) =
      map view3 ((block_info dev)[?i := (yaffs_get_block_info dev b)\<lparr>block_state := YAFFS_BLOCK_STATE_FULL\<rparr>])"
    using m by (simp add: map_update view3_def)
  then have "alloc_view (skipped b d) = alloc_view (skipped b dev)"
    using u dev_configD(9) [OF c] by (simp add: unseen_def alloc_view_def skipped_def upd_block_info_def)
  then show ?thesis using c by (simp add: unseen_def)
qed

lemma filling_unseen:
  assumes u: "unseen dev d" and f: "filling b c i dev"
  shows "filling b c i d"
proof -
  note g = filling_geometry [OF f]
  have b: "b \<in> blocks_of dev" using f by (simp add: filling_def)
  note uD = unseenD [OF u g] and v = view3D [OF unseenD(6) [OF u g b]]
  have "inv_except {} 0 (skipped b d)"
    by (rule unseen_inv [OF unseen_skipped [OF u g b]]) (use f in \<open>simp add: filling_def\<close>)
  then show ?thesis using f uD(1,2,4) v by (simp add: filling_def)
qed

text \<open>One summary chunk.\<close>

definition sum_chunk :: "int \<Rightarrow> int \<Rightarrow> ('n, 'x) yaffs_dev_scheme \<Rightarrow> ('n, 'x) yaffs_dev_scheme" where
  "sum_chunk b i dev = (upd_block_info (yaffs_set_chunk_bit dev b i) b
     (\<lambda>bi. bi\<lparr>pages_in_use := s10 (pages_in_use bi + 1)\<rparr>))\<lparr>n_free_chunks := n_free_chunks dev - 1\<rparr>"

lemma filling_sum_chunk:
  assumes f: "filling b c i dev" and i: "0 \<le> i" "i < cpb dev"
  shows "filling b c (i + 1) (sum_chunk b i dev)" "dev_config (sum_chunk b i dev) = dev_config dev"
proof -
  note g = filling_geometry [OF f]
  have b: "b \<in> blocks_of dev" and inv: "inv_except {} 0 (skipped b dev)" and bm: "bitmap_ok dev"
    and al: "alloc_block dev = b" "block_state (yaffs_get_block_info dev b) = YAFFS_BLOCK_STATE_ALLOCATING"
    and below: "\<And>x. x \<in> chunks_in_use dev b \<Longrightarrow> x < i"
    using f by (auto simp: filling_def inv_except_def)
  let ?n = "sum_chunk b i dev" and ?f = "\<lambda>bi. bi\<lparr>pages_in_use := s10 (pages_in_use bi + 1)\<rparr>"
  let ?d1 = "yaffs_set_chunk_bit dev b i"
  have vc: "valid_chunk dev b i" using b i by (auto simp: valid_chunk_def blocks_of_def)
  have ni: "i \<notin> chunks_in_use dev b" using below by blast
  have ok: "block_ok (skipped b dev) b" using inv_block(1) [OF inv] b by simp
  note gs = get_skipped [OF g b b]
  have pg: "pages_in_use (yaffs_get_block_info dev b) = int (card (chunks_in_use dev b))"
    "0 \<le> soft_del_pages (yaffs_get_block_info dev b)"
    using block_ok_pages [OF ok] gs by simp_all
  have "chunks_in_use dev b \<subseteq> {0..<i}" using below in_use_bounds(1) by auto
  then have "card (chunks_in_use dev b) \<le> card {0..<i}" by (intro card_mono) auto
  then have s10: "s10 (pages_in_use (yaffs_get_block_info dev b) + 1) = pages_in_use (yaffs_get_block_info dev b) + 1"
    by (intro s10_pages [OF g]) (use pg i in auto)
  have g1: "geometry_ok ?d1" by (rule geometry_set_clear(1) [OF g])
  have bl: "blocks_of ?d1 = blocks_of dev" by (rule blocks_of_config) simp
  show cfg: "dev_config ?n = dev_config dev" by (simp add: sum_chunk_def)
  have bn: "blocks_of ?n = blocks_of dev" by (rule blocks_of_config [OF cfg])
  have get: "yaffs_get_block_info ?n x = (if b = x then (yaffs_get_block_info dev b)\<lparr>pages_in_use :=
      pages_in_use (yaffs_get_block_info dev b) + 1\<rparr> else yaffs_get_block_info dev x)"
    if "x \<in> blocks_of dev" for x
    using get_upd [OF g1, of b x ?f] b that s10 by (auto simp: sum_chunk_def bl)
  have use: "chunks_in_use ?n x = (if b = x then insert i (chunks_in_use dev b) else chunks_in_use dev x)"
    if "x \<in> blocks_of dev" for x
    using bitmap_refines_set_lemma(1) [OF bm vc, of x] that by (simp add: sum_chunk_def valid_blocks_of)
  have bmn: "bitmap_ok ?n" using bm.ok_set [OF bm vc] by (simp add: sum_chunk_def)
  then have gn: "geometry_ok ?n" by (simp add: bitmap_ok_def)
  have gsn: "yaffs_get_block_info (skipped b ?n) x = (if b = x then (yaffs_get_block_info ?n b)
      \<lparr>block_state := YAFFS_BLOCK_STATE_FULL\<rparr> else yaffs_get_block_info ?n x)" if "x \<in> blocks_of dev" for x
    by (rule get_skipped [OF gn]) (simp_all add: bn b that)
  have "inv_except {} 0 (skipped b ?n)"
  proof (rule inv_update [OF inv])
    show "b \<in> blocks_of (skipped b dev)" using b by simp
    show "view3 (yaffs_get_block_info (skipped b ?n) x) = view3 (yaffs_get_block_info (skipped b dev) x) \<and>
        chunks_in_use (skipped b ?n) x = chunks_in_use (skipped b dev) x"
      if "x \<in> blocks_of (skipped b dev)" "x \<noteq> b" for x
      using that gsn [of x] get [of x] use [of x] get_skipped [OF g b, of x] by simp
    show "block_ok (skipped b ?n) b"
      using ok gsn [OF b] get [OF b] use [OF b] gs ni by (auto simp: block_ok_def view3_def)
    show "alloc_ok (skipped b ?n)" by (simp add: alloc_ok_def)
  qed (use bmn gsn [OF b] get [OF b] gs cfg in \<open>simp_all add: block_free_chunks_def sum_chunk_def upd_block_info_def\<close>)
  then show "filling b c (i + 1) ?n"
    using f get [OF b] use [OF b] bn below unfolding filling_def
    by (auto simp: sum_chunk_def less_imp_le)
qed

section \<open>Writing a chunk and its summary\<close>

lemma unseen_wr_behind:
  assumes "chunks_per_summary dev \<le> c mod cpb dev"
  shows "unseen dev (snd (snd (wr_chunk_tags_nand_upto n dev c b t)))"
proof -
  have "wr_chunk_tags_nand_upto n dev c b t = wr_chunk_tags_nand_upto 0 dev c b t"
    by (rule wr_upto_behind [OF assms])
  then show ?thesis
    by (simp add: wr_chunk_tags_nand_upto.simps [of 0] Let_def unseen_def split: prod.split)
qed

lemma filling_write_loop:
  assumes "filling b c i dev" "0 \<le> i" "i < cpb dev" "chunks_per_summary dev \<le> i"
    "0 < k" "int todo \<le> (cpb dev - i) * int k"
  shows "\<exists>j. filling b c j (snd (summary_write_loop (wr_chunk_tags_nand_upto n) b hdr k sb todo buffer tags
      (b * cpb dev + i) i dev))"
  using assms
proof (induction todo arbitrary: i dev sb buffer tags rule: less_induct)
  case (less todo)
  let ?c = "b * cpb dev + i" and ?wr = "wr_chunk_tags_nand_upto n"
  let ?b = "Some (hdr @ take (min todo k) sb @ drop (16 + min todo k) buffer)"
  let ?t = "tags\<lparr>n_bytes := word_of_nat (min todo k + 16)\<rparr>"
  obtain r t d where w: "?wr dev ?c ?b ?t = (r, t, d)" by (metis prod_cases3)
  have "?c mod cpb dev = i" using less.prems by simp
  then have u: "unseen dev d"
    using unseen_wr_behind [of dev ?c n ?b ?t] less.prems(4) w by simp
  have fd: "filling b c i d" by (rule filling_unseen [OF u less.prems(1)])
  have cd: "dev_config d = dev_config dev" using u by (simp add: unseen_def)
  note cfg = dev_configD [OF cd]
  let ?s = "sum_chunk b i d"
  have fs: "filling b c (i + 1) ?s" and cs: "dev_config ?s = dev_config d"
    using filling_sum_chunk [OF fd less.prems(2)] less.prems(3) cfg(1) by simp_all
  have cfg2: "cpb ?s = cpb dev" "chunks_per_summary ?s = chunks_per_summary dev"
    using dev_configD [OF cs] cfg by simp_all
  show ?case
  proof (cases "r = YAFFS_OK")
    case False
    then show ?thesis using w fd by (subst summary_write_loop.simps) (auto simp: Let_def)
  next
    case True
    show ?thesis
    proof (cases "k < todo")
      case False
      then show ?thesis using w fs True
        by (subst summary_write_loop.simps) (auto simp: Let_def min_def sum_chunk_def)
    next
      case less_todo: True
      have rest: "int (todo - k) \<le> (cpb dev - (i + 1)) * int k"
        using less_todo less.prems(6) by (simp add: algebra_simps)
      moreover have "i + 1 < cpb dev"
      proof (rule ccontr)
        assume "\<not> i + 1 < cpb dev"
        then have "(cpb dev - (i + 1)) * int k = 0" using less.prems by simp
        with rest less_todo show False by simp
      qed
      ultimately have "\<exists>j. filling b c j (snd (summary_write_loop ?wr b hdr k sb' (todo - k) bf' t'
          (b * cpb dev + i + 1) (i + 1) ?s))" for sb' bf' t'
        using less.IH [OF _ fs, of "todo - k"] less_todo less.prems cfg2 by (simp add: add.assoc)
      then show ?thesis
        using w True less_todo less.prems(5)
        by (subst summary_write_loop.simps) (simp add: Let_def sum_chunk_def)
    qed
  qed
qed

lemma fresh_wr:
  assumes ja: "just_allocated b c dev" and fits: "summary_fits dev" and c: "c < cpb dev"
  shows "fresh b c (snd (snd (yaffs_wr_chunk_tags_nand dev (b * cpb dev + c) buffer tags)))"
proof -
  let ?c = "b * cpb dev + c"
  have c0: "0 \<le> c" using ja in_use_bounds(1) by (auto simp: just_allocated_def fresh_def)
  have md: "?c mod cpb dev = c" "?c div cpb dev = b" using c0 c by simp_all
  obtain d0 r t where d0: "wr_chunk_tags_nand_upto 0 dev ?c buffer tags = (r, t, d0)" by (metis prod_cases3)
  have u: "unseen dev d0"
    using d0 by (auto simp: wr_chunk_tags_nand_upto.simps [of 0] Let_def unseen_def split: prod.splits)
  have cd: "dev_config d0 = dev_config dev" using u by (simp add: unseen_def)
  note cfg = dev_configD [OF cd]
  have wr: "yaffs_wr_chunk_tags_nand dev ?c buffer tags =
      (r, t, yaffs_summary_add (wr_chunk_tags_nand_upto 1) d0 t ?c)"
    using d0 unfolding yaffs_wr_chunk_tags_nand_def numeral_2_eq_2 One_nat_def
    by (auto simp: wr_chunk_tags_nand_upto.simps [of 0] wr_chunk_tags_nand_upto.simps [of "Suc (Suc 0)"]
        Let_def split: prod.splits)
  have ja0: "just_allocated b c d0" by (rule just_allocated_unseen [OF u ja])
  have add: "yaffs_summary_add (wr_chunk_tags_nand_upto 1) d0 t ?c =
      (case sum_tags d0 of None \<Rightarrow> d0 | Some ts \<Rightarrow>
        if c < chunks_per_summary d0 then
          (let p = yaffs_pack_tags2_tags_only d0 t;
               d = d0\<lparr>sum_tags := Some (ts[nat c := \<lparr>sum_obj_id = pt_obj_id p, sum_chunk_id = pt_chunk_id p,
                       sum_n_bytes = pt_n_bytes p\<rparr>])\<rparr>
           in if c = chunks_per_summary d - 1
              then yaffs_skip_rest_of_block (yaffs_summary_clear (snd (yaffs_summary_write (wr_chunk_tags_nand_upto 1) d b)))
              else d)
        else d0)"
    using md c0 cfg(1) by (simp add: yaffs_summary_add_def Let_def del: One_nat_def split: option.split)
  have finished: "fresh b c (yaffs_skip_rest_of_block (yaffs_summary_clear
      (snd (yaffs_summary_write (wr_chunk_tags_nand_upto 1) d b))))"
    if ud: "unseen dev d" and last: "c = chunks_per_summary d - 1" for d
  proof -
    have cc: "dev_config d = dev_config dev" using ud by (simp add: unseen_def)
    note cf = dev_configD [OF cc]
    have jd: "just_allocated b c d" by (rule just_allocated_unseen [OF ud ja])
    have lt: "c + 1 < cpb d" using fits last cf by (simp add: summary_fits_def)
    note fl = just_allocated_filling [OF jd lt]
    have al: "alloc_block d = b" using fl(1) by (simp add: filling_def)
    have lc: "c + 1 = chunks_per_summary d" using last by simp
    obtain res e where L: "summary_write_loop (wr_chunk_tags_nand_upto 1) b
        (hdr_bytes (host_le d) \<lparr>hdr_version = YAFFS_SUMMARY_VERSION, hdr_block = word_of_int b,
           hdr_seq = bi_seq_number (yaffs_get_block_info d b), hdr_sum = yaffs_summary_sum d\<rparr>)
        (data_bytes_per_chunk d - 16) (sum_buffer_of d) (12 * nat (chunks_per_summary d)) (temp_fill d)
        (zero_tags\<lparr>obj_id := YAFFS_OBJECTID_SUMMARY, chunk_id := 1\<rparr>)
        (b * cpb d + chunks_per_summary d) (chunks_per_summary d) d = (res, e)"
      by fastforce
    have "\<exists>j. filling b c j (snd (res, e))"
      unfolding L [symmetric]
      by (rule filling_write_loop [OF fl(1) [unfolded lc]])
        (use c0 lt last fits cf in \<open>auto simp: summary_fits_def of_nat_diff\<close>)
    then obtain j where j: "filling b c j e" by auto
    have "filling b c j (upd_block_info e b (\<lambda>bi. bi\<lparr>has_summary := True\<rparr>))"
      by (rule filling_unseen [OF unseen_upd_block j]) (simp add: view3_def)
    moreover have "snd (yaffs_summary_write (wr_chunk_tags_nand_upto 1) d b) =
        (if res = YAFFS_OK then upd_block_info e b (\<lambda>bi. bi\<lparr>has_summary := True\<rparr>) else e)"
      using L unfolding yaffs_summary_write_def Let_def al by simp
    ultimately have "\<exists>j. filling b c j (snd (yaffs_summary_write (wr_chunk_tags_nand_upto 1) d b))"
      using j by auto
    then obtain j where f: "filling b c j (snd (yaffs_summary_write (wr_chunk_tags_nand_upto 1) d b))" ..
    let ?e = "yaffs_summary_clear (snd (yaffs_summary_write (wr_chunk_tags_nand_upto 1) d b))"
    have "unseen (snd (yaffs_summary_write (wr_chunk_tags_nand_upto 1) d b)) ?e"
      by (simp add: unseen_def) (simp add: yaffs_summary_clear_def split: option.split)
    from filling_unseen [OF this f] have fe: "filling b c j ?e" .
    have be: "b \<in> blocks_of ?e" using fe by (simp add: filling_def)
    show ?thesis
      unfolding filling_skip_rest [OF fe fl(2)]
      using fe get_skipped [OF filling_geometry [OF fe] be be] by (simp add: fresh_def filling_def)
  qed
  have us: "unseen dev (d0\<lparr>sum_tags := ts\<rparr>)" for ts using u by (simp add: unseen_def)
  have f0: "fresh b c d0" "fresh b c (d0\<lparr>sum_tags := ts\<rparr>)" for ts
    using fresh_unseen [OF u] fresh_unseen [OF us] ja by (simp_all add: just_allocated_def)
  have f1: "fresh b c (yaffs_skip_rest_of_block (yaffs_summary_clear
      (snd (yaffs_summary_write (wr_chunk_tags_nand_upto 1) (d0\<lparr>sum_tags := ts\<rparr>) b))))"
    if "c = chunks_per_summary d0 - 1" for ts
    by (rule finished [OF us]) (use that in simp)
  show ?thesis
    unfolding wr add using f0 f1 by (simp add: Let_def del: One_nat_def split: option.split)
qed

section \<open>Writing a new chunk\<close>

lemma dev_config_unseen: "unseen d d' \<Longrightarrow> dev_config d' = dev_config d"
  by (simp add: unseen_def)

lemmas dev_config_ops = unseen_ops [THEN dev_config_unseen] unseen_verify_erasure [THEN dev_config_unseen]

lemma dev_config_retire [simp]: "dev_config (yaffs_retire_block dev b) = dev_config dev"
  by (simp add: yaffs_retire_block_def Let_def case_prod_beta dev_config_ops)

lemma dev_config_became_dirty [simp]: "dev_config (yaffs_block_became_dirty dev b) = dev_config dev"
  by (simp add: yaffs_block_became_dirty_def Let_def case_prod_beta dev_config_ops)

lemma dev_config_chunk_del [simp]: "dev_config (yaffs_chunk_del dev c m) = dev_config dev"
  by (simp add: yaffs_chunk_del_def Let_def dev_config_ops dev_config_wr)

text \<open>The driver answers a write with one of the two result codes.\<close>

definition result_codes :: "('n, 'x) yaffs_dev_scheme \<Rightarrow> bool" where
  "result_codes dev \<longleftrightarrow> (\<forall>n c d t. fst (write_chunk_tags_fn (tagger dev) n c d t) \<in> {YAFFS_OK, YAFFS_FAIL})"

lemma wr_result:
  assumes "result_codes dev" shows "fst (yaffs_wr_chunk_tags_nand dev c b t) \<in> {YAFFS_OK, YAFFS_FAIL}"
proof -
  have "fst (wr_chunk_tags_nand_upto k dev c b t) \<in> {YAFFS_OK, YAFFS_FAIL}" for k
    using assms by (subst wr_chunk_tags_nand_upto.simps)
      (force simp: Let_def result_codes_def upd_stats_def case_prod_beta)
  then show ?thesis by (simp only: yaffs_wr_chunk_tags_nand_def)
qed

lemma fresh_delete:
  assumes "fresh b c dev"
  shows "inv_except {} 0 (yaffs_skip_rest_of_block (yaffs_chunk_del dev (b * cpb dev + c) m))"
proof -
  have inv: "inv_except {} 0 dev" and b: "b \<in> blocks_of dev" and c: "c \<in> chunks_in_use dev b"
    using assms by (simp_all add: fresh_def)
  note cb = in_use_bounds(1,2) [OF c] and bp = inv_block(6) [OF inv b]
  have md: "(b * cpb dev + c) div cpb dev = b" "(b * cpb dev + c) mod cpb dev = c" using cb by simp_all
  have pos: "0 < b * cpb dev + c" using cb bp by (simp add: add_pos_nonneg)
  show ?thesis
    by (rule inv_skip_rest, rule inv_chunk_del [OF inv pos]; unfold md)
      (use assms in \<open>simp_all add: fresh_def\<close>)
qed

lemma fresh_inv: "fresh b c dev \<Longrightarrow> inv_except {} 0 dev"
  by (simp add: fresh_def)

text \<open>The two ways past the allocation, with the intermediate devices named.\<close>

lemma attempt_not_erased:
  assumes "yaffs_alloc_chunk dev ur = (ch, d1)" and "\<not> ch < 0"
    and "d2 = (if always_check_erased (param d1)
      then upd_block_info d1 (ch div cpb d1) (\<lambda>bi. bi\<lparr>skip_erased_check := False\<rparr>) else d1)"
    and "check = (\<not> skip_erased_check (yaffs_get_block_info d2 (ch div cpb d1)))"
    and "(if check then yaffs_check_chunk_erased d2 ch else (0, d2)) = (eo, d3)"
    and "check \<and> eo \<noteq> YAFFS_OK"
  shows "write_new_chunk_attempt dev data tags ur write_ok =
    (ch, Some write_ok, tags, yaffs_skip_rest_of_block (yaffs_chunk_del d3 ch True))"
  using assms by (simp add: write_new_chunk_attempt_def Let_def)

lemma attempt_written:
  assumes "yaffs_alloc_chunk dev ur = (ch, d1)" and "\<not> ch < 0"
    and "d2 = (if always_check_erased (param d1)
      then upd_block_info d1 (ch div cpb d1) (\<lambda>bi. bi\<lparr>skip_erased_check := False\<rparr>) else d1)"
    and "check = (\<not> skip_erased_check (yaffs_get_block_info d2 (ch div cpb d1)))"
    and "(if check then yaffs_check_chunk_erased d2 ch else (0, d2)) = (eo, d3)"
    and "\<not> (check \<and> eo \<noteq> YAFFS_OK)"
    and "yaffs_wr_chunk_tags_nand d3 ch (Some data) tags = (wo, tg, d4)"
    and "(if \<not> skip_erased_check (yaffs_get_block_info d4 (ch div cpb d1))
          then yaffs_verify_chunk_written d4 ch data tg else (wo, d4)) = (vo, d5)"
  shows "write_new_chunk_attempt dev data tags ur write_ok = (if vo \<noteq> YAFFS_OK
      then (ch, Some vo, tg, yaffs_handle_chunk_wr_error d5 ch (eo \<noteq> 0))
      else (ch, Some vo, tg, upd_block_info d5 (ch div cpb d1) (\<lambda>bi. bi\<lparr>skip_erased_check := True\<rparr>)))"
proof -
  have "write_new_chunk_attempt dev data tags ur write_ok =
      (case yaffs_wr_chunk_tags_nand d3 ch (Some data) tags of (wo, tg, d4) \<Rightarrow>
       case (if \<not> skip_erased_check (yaffs_get_block_info d4 (ch div cpb d1))
          then yaffs_verify_chunk_written d4 ch data tg else (wo, d4)) of (vo, d5) \<Rightarrow>
       if vo \<noteq> YAFFS_OK
       then (ch, Some vo, tg, yaffs_handle_chunk_wr_error d5 ch (eo \<noteq> 0))
       else (ch, Some vo, tg, upd_block_info d5 (ch div cpb d1) (\<lambda>bi. bi\<lparr>skip_erased_check := True\<rparr>)))"
    using assms(1-6) by (cases check) (auto simp: write_new_chunk_attempt_def Let_def)
  then show ?thesis unfolding assms(7) prod.case assms(8) .
qed

lemma attempt_effect:
  assumes inv: "inv_except {} 0 dev" and fits: "summary_fits dev" and rc: "result_codes dev"
    and ok: "write_ok \<in> {YAFFS_OK, YAFFS_FAIL}"
    and att: "write_new_chunk_attempt dev data tags ur write_ok = (chunk, outcome, tags', d)"
  shows "inv_except {} 0 d \<and> dev_config d = dev_config dev \<and> (outcome = None \<longrightarrow> chunk < 0) \<and>
    (\<forall>r. outcome = Some r \<longrightarrow> r \<in> {YAFFS_OK, YAFFS_FAIL} \<and>
      (r = YAFFS_OK \<and> write_ok \<noteq> YAFFS_OK \<longrightarrow> (\<exists>b c. chunk = b * cpb dev + c \<and> 0 < b \<and> 0 \<le> c \<and> c < cpb dev \<and>
         c \<notin> chunks_in_use dev b \<and> fresh b c d)))"
proof -
  obtain ch d1 where al: "yaffs_alloc_chunk dev ur = (ch, d1)" by fastforce
  note ae = alloc_chunk_effect [OF inv al]
  show ?thesis
  proof (cases "ch < 0")
    case True
    then show ?thesis using att al ae by (auto simp: write_new_chunk_attempt_def)
  next
    case False
    then obtain b c where bc: "ch = b * cpb dev + c" "0 < b" "0 \<le> c" "c < cpb dev" "c \<notin> chunks_in_use dev b"
      and ja: "just_allocated b c d1" using ae by auto
    have c1: "dev_config d1 = dev_config dev" using ae by simp
    note cf1 = dev_configD [OF c1]
    let ?d2 = "if always_check_erased (param d1)
      then upd_block_info d1 b (\<lambda>bi. bi\<lparr>skip_erased_check := False\<rparr>) else d1"
    have dv: "ch div cpb d1 = b" using bc cf1(1) by simp
    have u2: "unseen d1 ?d2" by (auto intro: unseen_upd_block simp: view3_def)
    let ?check = "\<not> skip_erased_check (yaffs_get_block_info ?d2 b)"
    obtain eo d3 where e3: "(if ?check then yaffs_check_chunk_erased ?d2 ch else (0, ?d2)) = (eo, d3)"
      by fastforce
    have u3: "unseen ?d2 d3" using e3 unseen_ops(5) [of ?d2 ch] by (cases ?check) auto
    have u13: "unseen d1 d3" by (rule unseen_trans [OF u2 u3])
    have ja3: "just_allocated b c d3" by (rule just_allocated_unseen [OF u13 ja])
    have c3: "dev_config d3 = dev_config dev" using u13 c1 by (simp add: unseen_def)
    note cf3 = dev_configD [OF c3]
    have ch3: "ch = b * cpb d3 + c" using bc cf3 by simp
    show ?thesis
    proof (cases "?check \<and> eo \<noteq> YAFFS_OK")
      case True
      have "(chunk, outcome, tags', d) = (ch, Some write_ok, tags, yaffs_skip_rest_of_block (yaffs_chunk_del d3 ch True))"
        unfolding att [symmetric]
        by (rule attempt_not_erased [OF al False, unfolded dv, OF refl refl e3 True])
      moreover have "inv_except {} 0 (yaffs_skip_rest_of_block (yaffs_chunk_del d3 ch True))"
        unfolding ch3 by (rule fresh_delete) (use ja3 in \<open>simp add: just_allocated_def\<close>)
      ultimately show ?thesis using ok c3 by simp
    next
      case no_del: False
      obtain wo tg d4 where w4: "yaffs_wr_chunk_tags_nand d3 ch (Some data) tags = (wo, tg, d4)" by (metis prod_cases3)
      have fits3: "summary_fits d3" using fits cf3 by (simp add: summary_fits_def)
      have f4: "fresh b c d4"
        using fresh_wr [OF ja3 fits3, of "Some data" tags] bc cf3 w4 ch3 by simp
      have c4: "dev_config d4 = dev_config dev"
        using dev_config_wr [of d3 ch "Some data" tags] w4 c3 by simp
      have wo: "wo \<in> {YAFFS_OK, YAFFS_FAIL}"
        using wr_result [of d3 ch "Some data" tags] rc cf3(2) w4 by (simp add: result_codes_def)
      obtain vo d5 where v5: "(if \<not> skip_erased_check (yaffs_get_block_info d4 b)
          then yaffs_verify_chunk_written d4 ch data tg else (wo, d4)) = (vo, d5)" by fastforce
      have u5: "unseen d4 d5"
        using v5 unseen_ops(6) [of d4 ch data tg] by (cases "skip_erased_check (yaffs_get_block_info d4 b)") auto
      have vo: "vo \<in> {YAFFS_OK, YAFFS_FAIL}"
        using v5 wo by (auto simp: yaffs_verify_chunk_written_def Let_def split: if_splits prod.splits)
      have f5: "fresh b c d5" by (rule fresh_unseen [OF u5 f4])
      have c5: "dev_config d5 = dev_config dev" using u5 c4 by (simp add: unseen_def)
      have ch5: "ch = b * cpb d5 + c" using bc dev_configD(1) [OF c5] by simp
      have res: "(chunk, outcome, tags', d) = (if vo \<noteq> YAFFS_OK
          then (ch, Some vo, tg, yaffs_handle_chunk_wr_error d5 ch (eo \<noteq> 0))
          else (ch, Some vo, tg, upd_block_info d5 b (\<lambda>bi. bi\<lparr>skip_erased_check := True\<rparr>)))"
        unfolding att [symmetric]
        by (rule attempt_written [OF al False, unfolded dv, OF refl refl e3 no_del w4 v5])
      show ?thesis
      proof (cases "vo = YAFFS_OK")
        case True
        have "fresh b c (upd_block_info d5 b (\<lambda>bi. bi\<lparr>skip_erased_check := True\<rparr>))"
          by (rule fresh_unseen [OF unseen_upd_block f5]) (simp add: view3_def)
        then show ?thesis using res True bc c5 fresh_inv by auto
      next
        case bad: False
        let ?d6 = "yaffs_handle_chunk_error d5 (ch div cpb d5)"
        let ?d7 = "if eo \<noteq> 0 then upd_block_info ?d6 (ch div cpb d5) (\<lambda>bi. bi\<lparr>needs_retiring := True\<rparr>) else ?d6"
        have "unseen d5 ?d6" by (simp add: unseen_def)
        moreover have "unseen ?d6 ?d7" by (auto intro: unseen_upd_block simp: view3_def)
        ultimately have u7: "unseen d5 ?d7" by (rule unseen_trans)
        have f7: "fresh b c ?d7" by (rule fresh_unseen [OF u7 f5])
        have c7: "dev_config ?d7 = dev_config dev" using u7 c5 by (simp add: unseen_def)
        have ch7: "ch = b * cpb ?d7 + c" using bc dev_configD(1) [OF c7] by simp
        have "d = yaffs_skip_rest_of_block (yaffs_chunk_del ?d7 ch True)" "outcome = Some vo"
          using res bad by (simp_all add: yaffs_handle_chunk_wr_error_def Let_def)
        moreover have "inv_except {} 0 (yaffs_skip_rest_of_block (yaffs_chunk_del ?d7 ch True))"
          using fresh_delete [OF f7, of True] ch7 by simp
        ultimately show ?thesis using bad vo c7 by simp
      qed
    qed
  qed
qed

section \<open>The loop of write attempts\<close>

lemma summary_fits_config: "dev_config d = dev_config dev \<Longrightarrow> summary_fits d = summary_fits dev"
  using dev_configD(1,8,14) [of d dev] by (simp add: summary_fits_def)

lemma result_codes_config: "dev_config d = dev_config dev \<Longrightarrow> result_codes d = result_codes dev"
  using dev_configD(2) [of d dev] by (simp add: result_codes_def)

text \<open>A chunk the loop answers with was unused when it was handed out and is in use now.\<close>

definition written_chunk :: "int \<Rightarrow> ('n, 'x) yaffs_dev_scheme \<Rightarrow> bool" where
  "written_chunk chunk dev \<longleftrightarrow> 0 < chunk \<and> chunk mod cpb dev \<in> chunks_in_use dev (chunk div cpb dev) \<and>
     soft_del_pages (yaffs_get_block_info dev (chunk div cpb dev))
       < pages_in_use (yaffs_get_block_info dev (chunk div cpb dev))"

lemma written_chunkI:
  assumes "chunk = b * cpb dev + c" "0 < b" "0 \<le> c" "c < cpb dev" "fresh b c dev"
  shows "written_chunk chunk dev"
proof -
  have "chunk div cpb dev = b" "chunk mod cpb dev = c" using assms(1-4) by simp_all
  moreover have "0 < chunk" using assms(1-4) by (simp add: add_pos_nonneg)
  ultimately show ?thesis using assms(5) by (simp add: written_chunk_def fresh_def)
qed

lemma write_new_chunk_loop_inv:
  assumes "write_new_chunk_loop fuel wa data ur attempts YAFFS_FAIL tags dev = Some (chunk, ok, n, tags', d)"
    and "inv_except {} 0 dev" "summary_fits dev" "result_codes dev"
  shows "inv_except {} 0 d \<and> dev_config d = dev_config dev \<and> attempts \<le> n \<and>
    (ok = YAFFS_FAIL \<or> chunk < 0 \<or> (ok = YAFFS_OK \<and> written_chunk chunk d))"
  using assms
proof (induction fuel arbitrary: attempts tags dev)
  case (Suc fuel)
  obtain ch out tg d1 where att: "write_new_chunk_attempt dev data tags ur YAFFS_FAIL = (ch, out, tg, d1)"
    by (metis prod_cases4)
  note ae = attempt_effect [OF Suc.prems(2-4) insertI2 [OF insertI1] att]
  note c1 = conjunct1 [OF conjunct2 [OF ae]]
  show ?case
  proof (cases out)
    case None
    then show ?thesis using Suc.prems(1) att ae by simp
  next
    case (Some r)
    show ?thesis
    proof (cases "r = YAFFS_OK")
      case True
      then have "written_chunk ch d1"
        using ae Some dev_configD(1) [OF c1] by (auto intro: written_chunkI)
      then show ?thesis using Suc.prems(1) att ae Some True by simp
    next
      case False
      then have r: "r = YAFFS_FAIL" using ae Some by simp
      show ?thesis
      proof (cases "wa = 0 \<or> attempts + 1 \<le> wa")
        case True
        with Suc.prems(1) att Some False r
        have "write_new_chunk_loop fuel wa data ur (attempts + 1) YAFFS_FAIL tg d1 = Some (chunk, ok, n, tags', d)"
          by simp
        from Suc.IH [OF this] show ?thesis
          using ae c1 Suc.prems(3,4) summary_fits_config [OF c1] result_codes_config [OF c1] by simp
      next
        case False
        then show ?thesis using Suc.prems(1) att ae Some r by auto
      qed
    qed
  qed
qed simp

lemma write_new_chunk_loop_ends:
  "\<lbrakk>0 < wa; attempts \<le> wa; wa < attempts + fuel\<rbrakk> \<Longrightarrow>
     \<exists>r. write_new_chunk_loop fuel wa data ur attempts ok tags dev = Some r"
proof (induction fuel arbitrary: attempts ok tags dev)
  case (Suc fuel)
  show ?case
    using Suc.IH [of "attempts + 1"] Suc.prems by (auto simp: Let_def split: prod.split option.split)
qed simp

section \<open>The properties\<close>

lemma alloc_inv_config: "alloc_inv dev \<Longrightarrow> is_yaffs2 (param dev) \<and> bitmap_ok dev"
  by (simp add: alloc_inv_def inv_except_def)

lemma inv_upd_stats: "inv_except {} 0 dev \<Longrightarrow> inv_except {} 0 (upd_stats dev g)"
  by (erule unseen_inv [rotated]) (simp add: unseen_def)

lemma write_new_chunk_effect:
  assumes "alloc_inv dev" "summary_fits dev" "result_codes dev"
    and "yaffs_write_new_chunk fuel wa dev data tags ur = Some (chunk, tags', d)"
  shows "alloc_inv d \<and> dev_config d = dev_config dev \<and> (chunk < 0 \<or> written_chunk chunk d)"
proof -
  let ?d0 = "yaffs2_checkpt_invalidate dev"
  have c0: "dev_config ?d0 = dev_config dev" by simp
  obtain ch ok n tg d1
    where loop: "write_new_chunk_loop fuel wa data ur 0 0 tags ?d0 = Some (ch, ok, n, tg, d1)"
    and res: "chunk = (if ok = 0 then -1 else ch)" "d = (if n > 1 then
      upd_stats d1 (\<lambda>s. s\<lparr>n_retried_writes := n_retried_writes s + word_of_nat (n - 1)\<rparr>) else d1)"
    using assms(4) by (auto simp: yaffs_write_new_chunk_def Let_def split: option.splits)
  have i0: "inv_except {} 0 ?d0" using assms(1) by (simp add: alloc_inv_def inv_checkpt_invalidate)
  note le = write_new_chunk_loop_inv [OF loop i0]
  have e: "inv_except {} 0 d1 \<and> dev_config d1 = dev_config ?d0 \<and> 0 \<le> n \<and>
      (ok = YAFFS_FAIL \<or> ch < 0 \<or> (ok = YAFFS_OK \<and> written_chunk ch d1))"
    by (rule le) (use assms(2,3) summary_fits_config [OF c0] result_codes_config [OF c0] in auto)
  have "unseen d1 (upd_stats d1 g)" for g by (simp add: unseen_def)
  note u = unseenD(1,3) [OF this inv_geometry [OF conjunct1 [OF e]]]
  have "written_chunk ch (upd_stats d1 g) = written_chunk ch d1" for g
    by (simp add: written_chunk_def u)
  then show ?thesis using e res c0 by (auto simp: alloc_inv_def inv_upd_stats)
qed

end
