(* ===== verification/Yaffs_AllocSteps.thy ===== *)
theory Yaffs_AllocSteps
  imports Yaffs_WriteInv
begin

text \<open>
  The allocation layer as a state machine: \<open>alloc_step\<close> has one rule per call the rest of the file
  system makes into it (allocate, write a new chunk, release a chunk, give up the rest of the block,
  drop the checkpoint, read a chunk). Its invariant is that of Yaffs_AllocInv, carried from
  step to step by the lemmas proved there; what it says of the counters and of the search for an
  empty block are the properties of this theory.
\<close>

section \<open>The search reaches every block\<close>

text \<open>The position of the finder after one turn, and after \<open>i\<close> turns.\<close>

definition finder_next :: "int \<Rightarrow> int \<Rightarrow> int \<Rightarrow> int" where
  "finder_next s e f = (if f + 1 < s \<or> f + 1 > e then s else f + 1)"

lemma finder_next_range: "s \<le> e \<Longrightarrow> s \<le> finder_next s e f \<and> finder_next s e f \<le> e"
  by (simp add: finder_next_def)

lemma finder_next_mod:
  assumes "s \<le> f" "f \<le> e"
  shows "finder_next s e f = s + (f + 1 - s) mod (e - s + 1)"
proof (cases "f = e")
  case True
  then have "f + 1 - s = e - s + 1" by simp
  then show ?thesis using assms True by (simp only: finder_next_def mod_self) simp
next
  case False
  then show ?thesis using assms by (simp add: finder_next_def)
qed

lemma finder_turns:
  assumes "s \<le> f" "f \<le> e"
  shows "(finder_next s e ^^ i) f = s + (f - s + int i) mod (e - s + 1)"
proof (induction i)
  case (Suc i)
  let ?g = "s + (f - s + int i) mod (e - s + 1)"
  have "s \<le> ?g" "?g \<le> e" using assms pos_mod_bound [of "e - s + 1" "f - s + int i"] by simp_all
  then have "finder_next s e ?g = s + (?g + 1 - s) mod (e - s + 1)" by (rule finder_next_mod)
  also have "(?g + 1 - s) mod (e - s + 1) = ((f - s + int i) mod (e - s + 1) + 1) mod (e - s + 1)"
    by (rule arg_cong [where f = "\<lambda>x. x mod (e - s + 1)"]) simp
  also have "\<dots> = (f - s + int (Suc i)) mod (e - s + 1)"
    unfolding mod_add_left_eq by (simp add: algebra_simps)
  finally show ?case by (simp add: Suc)
qed (use assms in simp)

lemma finder_reaches:
  assumes "s \<le> b" "b \<le> e"
  obtains i where "i < nat (e - s + 1)" "(finder_next s e ^^ Suc i) f = b"
proof -
  let ?g = "finder_next s e f" and ?n = "e - s + 1"
  have g: "s \<le> ?g" "?g \<le> e" using finder_next_range [of s e f] assms by simp_all
  let ?i = "nat ((b - ?g) mod ?n)"
  have i: "int ?i = (b - ?g) mod ?n" "?i < nat ?n"
    using assms pos_mod_bound [of ?n "b - ?g"] by (simp_all add: nat_less_iff)
  have "(finder_next s e ^^ ?i) ?g = s + (?g - s + (b - ?g) mod ?n) mod ?n"
    using finder_turns [OF g, of ?i] by (simp only: i)
  also have "\<dots> = b" using assms by (simp add: mod_add_right_eq)
  finally have "(finder_next s e ^^ Suc ?i) f = b" by (simp only: funpow_Suc_right o_apply)
  then show thesis using i(2) that by blast
qed

lemma find_alloc_loop_fails:
  assumes "find_alloc_loop m dev = (-1, d)" and "0 \<le> internal_start_block dev" and "i < m"
    and "internal_start_block dev \<le> internal_end_block dev"
  shows "block_state (yaffs_get_block_info dev
      ((finder_next (internal_start_block dev) (internal_end_block dev) ^^ Suc i) (alloc_block_finder dev)))
    \<noteq> YAFFS_BLOCK_STATE_EMPTY"
  using assms
proof (induction m arbitrary: dev i)
  case (Suc m)
  let ?f = "finder_next (internal_start_block dev) (internal_end_block dev) (alloc_block_finder dev)"
  let ?d = "dev\<lparr>alloc_block_finder := ?f\<rparr>"
  have f: "0 \<le> ?f" using finder_next_range [OF Suc.prems(4), of "alloc_block_finder dev"] Suc.prems(2) by linarith
  have ne: "block_state (yaffs_get_block_info dev ?f) \<noteq> YAFFS_BLOCK_STATE_EMPTY"
    using Suc.prems(1) f by (auto simp: finder_next_def Let_def split: if_splits)
  have rest: "find_alloc_loop m ?d = (-1, d)"
    using Suc.prems(1) ne by (auto simp: finder_next_def Let_def split: if_splits)
  show ?case
  proof (cases i)
    case 0
    then show ?thesis using ne by simp
  next
    case (Suc j)
    then show ?thesis
      using Suc.IH [OF rest, of j] Suc.prems by (simp only: funpow_Suc_right o_apply) simp
  qed
qed simp

lemma find_alloc_block_succeeds:
  assumes "alloc_inv dev" "0 < n_erased_blocks dev"
  shows "fst (yaffs_find_alloc_block dev) \<noteq> -1"
proof
  assume fail: "fst (yaffs_find_alloc_block dev) = -1"
  let ?s = "internal_start_block dev" and ?e = "internal_end_block dev"
  have inv: "inv_except {} 0 dev" using assms(1) by (simp add: alloc_inv_def)
  have "card {b \<in> blocks_of dev. block_state (yaffs_get_block_info dev b) = YAFFS_BLOCK_STATE_EMPTY} \<noteq> 0"
    using inv assms(2) unfolding inv_except_def Diff_empty by linarith
  then have "{b \<in> blocks_of dev. block_state (yaffs_get_block_info dev b) = YAFFS_BLOCK_STATE_EMPTY} \<noteq> {}"
    by (metis card.empty)
  then obtain b where b: "?s \<le> b" "b \<le> ?e" "block_state (yaffs_get_block_info dev b) = YAFFS_BLOCK_STATE_EMPTY"
    by (auto simp: blocks_of_def)
  have start: "0 \<le> ?s" using inv_geometry [OF inv] by (simp add: geometry_ok_def)
  obtain i where i: "i < nat (?e - ?s + 1)" "(finder_next ?s ?e ^^ Suc i) (alloc_block_finder dev) = b"
    by (rule finder_reaches [OF b(1,2)])
  have "find_alloc_loop (nat (?e - ?s + 1)) dev = (-1, snd (yaffs_find_alloc_block dev))"
    using fail assms(2) by (simp add: yaffs_find_alloc_block_def prod_eq_iff)
  from find_alloc_loop_fails [OF this start i(1)] show False using i(2) b by simp
qed

section \<open>The steps\<close>

inductive alloc_step :: "('n, 'x) yaffs_dev_scheme \<Rightarrow> ('n, 'x) yaffs_dev_scheme \<Rightarrow> bool" where
  allocate: "yaffs_alloc_chunk dev use_reserver = (chunk, d) \<Longrightarrow> alloc_step dev d"
| write_new: "yaffs_write_new_chunk fuel wr_attempts dev data tags use_reserver = Some (chunk, tags', d) \<Longrightarrow>
    alloc_step dev d"
| release: "written_chunk chunk dev \<Longrightarrow> alloc_step dev (yaffs_chunk_del dev chunk mark_flash)"
| skip_rest: "alloc_step dev (yaffs_skip_rest_of_block dev)"
| drop_checkpt: "alloc_step dev (yaffs2_checkpt_invalidate dev)"
| read_chunk: "yaffs_rd_chunk_tags_nand dev chunk want = (result, buffer, tags, d) \<Longrightarrow> alloc_step dev d"

text \<open>What the steps rely on besides the invariant is fixed when the device is set up.\<close>

definition alloc_ready :: "('n, 'x) yaffs_dev_scheme \<Rightarrow> bool" where
  "alloc_ready dev \<longleftrightarrow> alloc_inv dev \<and> summary_fits dev \<and> result_codes dev"

lemma alloc_ready_same: "inv_except {} 0 d \<Longrightarrow> dev_config d = dev_config dev \<Longrightarrow> alloc_ready dev \<Longrightarrow> alloc_ready d"
  by (simp add: alloc_ready_def alloc_inv_def summary_fits_config [of d dev] result_codes_config [of d dev])

lemma alloc_ready_inv: "alloc_ready dev \<Longrightarrow> inv_except {} 0 dev"
  by (simp add: alloc_ready_def alloc_inv_def)

lemma alloc_step_ready: "alloc_step dev d \<Longrightarrow> alloc_ready dev \<Longrightarrow> alloc_ready d"
proof (induction rule: alloc_step.induct)
  case (allocate dev use_reserver chunk d)
  note e = alloc_chunk_effect [OF alloc_ready_inv [OF allocate.prems] allocate.hyps]
  show ?case by (rule alloc_ready_same [OF _ _ allocate.prems]) (use e in simp_all)
next
  case (write_new fuel wr_attempts dev data tags use_reserver chunk tags' d)
  have ready: "alloc_inv dev" "summary_fits dev" "result_codes dev"
    using write_new.prems by (simp_all add: alloc_ready_def)
  note e = write_new_chunk_effect [OF ready write_new.hyps]
  show ?case by (rule alloc_ready_same [OF _ _ write_new.prems]) (use e in \<open>simp_all add: alloc_inv_def\<close>)
next
  case (release chunk dev mark_flash)
  have "inv_except {} 0 (yaffs_chunk_del dev chunk mark_flash)"
    by (rule inv_chunk_del) (use release in \<open>simp_all add: written_chunk_def alloc_ready_inv\<close>)
  then show ?case by (rule alloc_ready_same [OF _ dev_config_chunk_del release.prems])
next
  case (skip_rest dev)
  show ?case
    by (rule alloc_ready_same [OF inv_skip_rest dev_config_skip_rest skip_rest.prems])
      (rule alloc_ready_inv [OF skip_rest.prems])
next
  case (drop_checkpt dev)
  show ?case
    by (rule alloc_ready_same [OF inv_checkpt_invalidate dev_config_invalidate drop_checkpt.prems])
      (rule alloc_ready_inv [OF drop_checkpt.prems])
next
  case (read_chunk dev chunk want result buffer tags d)
  have u: "unseen dev d" using unseen_rd [of dev chunk want] read_chunk.hyps by simp
  have "inv_except {} 0 d" by (rule unseen_inv [OF u alloc_ready_inv [OF read_chunk.prems]])
  then show ?case by (rule alloc_ready_same [OF _ dev_config_unseen [OF u] read_chunk.prems])
qed

lemma alloc_steps_ready: "alloc_step\<^sup>*\<^sup>* dev d \<Longrightarrow> alloc_ready dev \<Longrightarrow> alloc_ready d"
  by (induction rule: rtranclp_induct) (auto intro: alloc_step_ready)

lemma alloc_inv_counters:
  assumes "alloc_inv dev"
  shows "n_free_chunks dev = yaffs_count_free_chunks dev"
    and "n_erased_blocks dev = int (card {b. valid_block dev b \<and>
      block_state (yaffs_get_block_info dev b) = YAFFS_BLOCK_STATE_EMPTY})"
    and "valid_block dev b \<Longrightarrow> pages_in_use (yaffs_get_block_info dev b) = yaffs_count_chunk_bits dev b"
proof -
  have inv: "inv_except {} 0 dev" using assms by (simp add: alloc_inv_def)
  show "n_free_chunks dev = yaffs_count_free_chunks dev"
    using inv by (simp add: count_free_chunks_sum inv_except_def)
  show "n_erased_blocks dev = int (card {b. valid_block dev b \<and>
      block_state (yaffs_get_block_info dev b) = YAFFS_BLOCK_STATE_EMPTY})"
    using inv by (simp add: inv_except_def valid_blocks_of)
  assume b: "valid_block dev b"
  then have "block_ok dev b" using inv_block(1) [OF inv] by (simp add: valid_blocks_of)
  then show "pages_in_use (yaffs_get_block_info dev b) = yaffs_count_chunk_bits dev b"
    using count_chunk_bits_card [OF _ b] inv by (simp add: block_ok_pages chunks_in_use_def inv_except_def)
qed

section \<open>Properties\<close>

text \<open>C7: Whatever sequence of allocations, writes (with failing driver calls, retries and retired
  blocks), releases, checkpoint drops and reads the file system makes, the counters stay
  exact: \<open>n_free_chunks\<close> is what counting the block table gives, \<open>n_erased_blocks\<close> is the number
  of EMPTY blocks, and the page count of every block is the number of its bits in the
  chunk bitmap.\<close>

theorem alloc_counters_exact:
  assumes "alloc_step\<^sup>*\<^sup>* dev d" and "alloc_ready dev"
  shows "n_free_chunks d = yaffs_count_free_chunks d \<and>
    n_erased_blocks d = int (card {b. valid_block d b \<and>
      block_state (yaffs_get_block_info d b) = YAFFS_BLOCK_STATE_EMPTY}) \<and>
    (\<forall>b. valid_block d b \<longrightarrow> pages_in_use (yaffs_get_block_info d b) = yaffs_count_chunk_bits d b)"
proof -
  have "alloc_inv d" using alloc_steps_ready [OF assms] by (simp add: alloc_ready_def)
  from alloc_inv_counters [OF this] show ?thesis by blast
qed

text \<open>C26: A chunk handed out by the allocator was not in use, is marked in use in the
  returned device, and belongs to a block of the device.\<close>

theorem alloc_chunk_unused:
  assumes "alloc_inv dev" and "yaffs_alloc_chunk dev use_reserver = (chunk, d)" and "0 \<le> chunk"
  shows "\<not> yaffs_check_chunk_bit dev (chunk div cpb dev) (chunk mod cpb dev) \<and>
    yaffs_check_chunk_bit d (chunk div cpb dev) (chunk mod cpb dev) \<and>
    valid_chunk dev (chunk div cpb dev) (chunk mod cpb dev)"
proof -
  have inv: "inv_except {} 0 dev" using assms(1) by (simp add: alloc_inv_def)
  obtain b c where bc: "chunk = b * cpb dev + c" "0 \<le> c" "c < cpb dev" "c \<notin> chunks_in_use dev b"
    and ja: "just_allocated b c d" and cfg: "dev_config d = dev_config dev"
    using alloc_chunk_effect [OF inv assms(2)] assms(3) by auto
  have eq: "chunk div cpb dev = b" "chunk mod cpb dev = c" using bc by simp_all
  have "c \<in> chunks_in_use d b" using ja by (simp add: just_allocated_def fresh_def)
  moreover from this have "valid_chunk dev b c"
    using valid_chunk_config [OF cfg] by (simp add: chunks_in_use_def)
  ultimately show ?thesis using bc(4) unfolding eq by (simp add: chunks_in_use_def)
qed

text \<open>C14: While the device still counts an erased block, or a block is being written, an
  allocation that may use the reserve succeeds: the search visits every block, so the report
  that no block was found although some should be left is never made.\<close>

theorem alloc_chunk_succeeds:
  assumes "alloc_inv dev" and "0 < n_erased_blocks dev \<or> 0 \<le> alloc_block dev"
  shows "0 \<le> fst (yaffs_alloc_chunk dev True)"
proof -
  let ?d1 = "if alloc_block dev < 0
    then (let (b, d) = yaffs_find_alloc_block dev in d\<lparr>alloc_block := b, alloc_page := 0\<rparr>) else dev"
  have inv: "inv_except {} 0 dev" using assms(1) by (simp add: alloc_inv_def)
  have al: "0 \<le> alloc_block d \<and> 0 \<le> alloc_page d" if "inv_except {} 0 d" "alloc_block d \<noteq> -1"
    for d :: "('a, 'b) yaffs_dev_scheme"
    using that inv_geometry [OF that(1)]
    by (auto simp: inv_except_def alloc_ok_def valid_block_def geometry_ok_def)
  have "0 \<le> alloc_block ?d1 \<and> 0 \<le> alloc_page ?d1 \<and> 0 \<le> cpb ?d1"
  proof (cases "alloc_block dev < 0")
    case False
    then show ?thesis using al [OF inv] inv_geometry [OF inv] by (simp add: geometry_ok_def)
  next
    case True
    then have none: "alloc_block dev = -1" using al [OF inv] by linarith
    obtain f e where f: "yaffs_find_alloc_block dev = (f, e)" by fastforce
    have "f \<noteq> -1" using find_alloc_block_succeeds [OF assms(1)] assms(2) True f by simp
    moreover have "find_alloc_loop (nat (internal_end_block dev - internal_start_block dev + 1)) dev = (f, e)"
      using f assms(2) True by (simp add: yaffs_find_alloc_block_def)
    from inv_find_alloc_loop [OF inv none this]
    have "inv_except {} 0 (e\<lparr>alloc_block := f, alloc_page := 0\<rparr>)" by simp
    ultimately show ?thesis
      using al [of "e\<lparr>alloc_block := f, alloc_page := 0\<rparr>"]
        inv_geometry [of "{}" 0 "e\<lparr>alloc_block := f, alloc_page := 0\<rparr>"] f True by (simp add: geometry_ok_def)
  qed
  then show ?thesis
    by (simp add: yaffs_alloc_chunk_def Let_def case_prod_beta)
qed

text \<open>C11: Writing a new chunk keeps the allocation invariant through every retry, and the
  chunk it returns is in use and counted by its block; with a limit on the attempts the
  loop ends after at most that many and one more.\<close>

theorem write_new_chunk_correct:
  assumes "alloc_ready dev" and "0 < wr_attempts"
  shows "\<exists>chunk tags' d.
    yaffs_write_new_chunk (wr_attempts + 1) wr_attempts dev data tags use_reserver = Some (chunk, tags', d) \<and>
    alloc_inv d \<and> (chunk < 0 \<or> written_chunk chunk d)"
proof -
  obtain r where r: "yaffs_write_new_chunk (wr_attempts + 1) wr_attempts dev data tags use_reserver = Some r"
    using write_new_chunk_loop_ends [of wr_attempts 0 "wr_attempts + 1" data use_reserver 0 tags
      "yaffs2_checkpt_invalidate dev"] assms(2)
    by (auto simp: yaffs_write_new_chunk_def Let_def simp del: write_new_chunk_loop.simps)
  obtain chunk tags' d where "r = (chunk, tags', d)" by (cases r)
  moreover have "alloc_inv dev" "summary_fits dev" "result_codes dev"
    using assms(1) by (simp_all add: alloc_ready_def)
  ultimately show ?thesis using write_new_chunk_effect [of dev] r by blast
qed

section \<open>Witnesses\<close>

text \<open>The small device of the examples with its summaries set up, on any flash: four EMPTY blocks of four chunks.\<close>

definition empty_dev :: "'n yaffs_tags_handler \<Rightarrow> 'n yaffs_driver \<Rightarrow> 'n \<Rightarrow> 'n yaffs_dev" where
  "empty_dev th dr n = (zero_dev small_param th dr n)\<lparr>data_bytes_per_chunk := 64,
     internal_start_block := 1, internal_end_block := 4, chunk_bit_stride := 1,
     block_info := replicate 4 (zero_block_info\<lparr>block_state := YAFFS_BLOCK_STATE_EMPTY\<rparr>),
     chunk_bits := replicate 4 0, n_erased_blocks := 4, alloc_block := -1, n_free_chunks := 16,
     dev_seq_number := YAFFS_LOWEST_SEQUENCE_NUMBER, chunks_per_summary := 2,
     sum_tags := Some [zero_sum_tags, zero_sum_tags], gc_sum_tags := Some []\<rparr>"

lemmas summary_fields = summary_dev_def small_dev_def zero_dev_def small_param_def
lemmas empty_fields = empty_dev_def zero_dev_def small_param_def

lemma summary_dev_empty: "summary_dev = empty_dev blank_tagger blank_driver ()"
  by (simp add: summary_dev_def small_dev_def empty_dev_def)

lemma empty_cpb [simp]: "cpb (empty_dev th dr n) = 4"
  by (simp add: empty_fields)

lemma empty_blocks: "blocks_of (empty_dev th dr n) = {1..4}"
  by (simp add: blocks_of_def empty_fields)

lemma block_cases: "b \<in> {1..4::int} \<Longrightarrow> b = 1 \<or> b = 2 \<or> b = 3 \<or> b = 4"
  by auto

lemma empty_block_info:
  "b \<in> {1..4} \<Longrightarrow> yaffs_get_block_info (empty_dev th dr n) b = zero_block_info\<lparr>block_state := YAFFS_BLOCK_STATE_EMPTY\<rparr>"
  by (drule block_cases) (auto simp: yaffs_get_block_info_def empty_fields eval_nat_numeral)

lemma empty_bits: "b \<in> {1..4} \<Longrightarrow> c < 4 \<Longrightarrow> \<not> yaffs_check_chunk_bit (empty_dev th dr n) b c"
  by (drule block_cases)
    (auto simp: yaffs_check_chunk_bit_def yaffs_block_bits_def empty_fields eval_nat_numeral)

lemma empty_in_use: "b \<in> {1..4} \<Longrightarrow> chunks_in_use (empty_dev th dr n) b = {}"
  by (auto simp: chunks_in_use_def valid_chunk_def empty_bits)

lemma empty_bitmap_ok: "bitmap_ok (empty_dev th dr n)"
proof -
  have "geometry_ok (empty_dev th dr n)" by (simp add: geometry_ok_def empty_fields)
  moreover have "block_bytes (empty_dev th dr n) b = [0]" if "valid_block (empty_dev th dr n) b" for b
    using that by (auto simp: block_bytes_def yaffs_block_bits_def valid_block_def empty_fields)
  ultimately show ?thesis by (auto simp: bitmap_ok_def empty_fields)
qed

lemma empty_alloc_inv: "alloc_inv (empty_dev th dr n)"
proof -
  have "{b \<in> {1..4}. block_state (yaffs_get_block_info (empty_dev th dr n) b) = YAFFS_BLOCK_STATE_EMPTY} = {1..4}"
    by (auto simp: empty_block_info)
  moreover have "block_free_chunks (empty_dev th dr n) (yaffs_get_block_info (empty_dev th dr n) b) = 4" if "b \<in> {1..4}" for b
    using that by (simp add: empty_block_info block_free_chunks_def zero_block_info_def)
  moreover have "block_ok (empty_dev th dr n) b" if "b \<in> {1..4}" for b
    using that by (simp add: block_ok_def empty_block_info view3_def zero_block_info_def empty_in_use)
  moreover have "alloc_block (empty_dev th dr n) = -1" "n_erased_blocks (empty_dev th dr n) = 4"
    "n_free_chunks (empty_dev th dr n) = 16" "is_yaffs2 (param (empty_dev th dr n))"
    by (simp_all add: empty_fields)
  ultimately show ?thesis
    using empty_bitmap_ok by (simp add: alloc_inv_def inv_except_def empty_blocks alloc_ok_def)
qed

lemma summary_alloc_inv: "alloc_inv summary_dev"
  unfolding summary_dev_empty by (rule empty_alloc_inv)

lemma empty_fits: "summary_fits (empty_dev th dr n)"
  by (simp add: summary_fits_def empty_fields)

lemma summary_alloc_ready: "alloc_ready summary_dev"
  using summary_dev_fits summary_alloc_inv
  by (simp add: alloc_ready_def result_codes_def summary_fields blank_tagger_def)

lemma alloc_counters_exact_witness:
  "n_free_chunks (yaffs_skip_rest_of_block summary_dev) = yaffs_count_free_chunks (yaffs_skip_rest_of_block summary_dev)"
  using alloc_counters_exact [OF r_into_rtranclp [of alloc_step, OF skip_rest] summary_alloc_ready] by simp

lemma alloc_chunk_succeeds_witness: "0 \<le> fst (yaffs_alloc_chunk summary_dev True)"
  by (rule alloc_chunk_succeeds [OF summary_alloc_inv]) (simp add: summary_fields)

lemma alloc_chunk_unused_witness:
  "\<exists>d. yaffs_alloc_chunk summary_dev True = (4, d) \<and> yaffs_check_chunk_bit d 1 0"
proof -
  have "fst (yaffs_alloc_chunk summary_dev True) = 4"
    by (simp add: yaffs_alloc_chunk_def yaffs_find_alloc_block_def Let_def summary_fields yaffs_get_block_info_def
        eval_nat_numeral zero_block_info_def upd_block_info_def yaffs_set_chunk_bit_def)
  then obtain d where d: "yaffs_alloc_chunk summary_dev True = (4, d)" by (metis prod.collapse)
  from alloc_chunk_unused [OF summary_alloc_inv d] d show ?thesis by simp
qed

lemma write_new_chunk_correct_witness:
  "\<exists>chunk tags' d. yaffs_write_new_chunk 4 3 summary_dev (replicate 64 0) zero_tags True = Some (chunk, tags', d)
     \<and> alloc_inv d \<and> (chunk < 0 \<or> written_chunk chunk d)"
  using write_new_chunk_correct [OF summary_alloc_ready, of 3 "replicate 64 0" zero_tags True] by simp

end
