(* ===== verification/Yaffs_Allocator.thy ===== *)
theory Yaffs_Allocator
  imports Yaffs_Dev
begin

text \<open>
  The slab allocator of tree nodes and objects (yaffs_allocator.c). The C heap answers a
  \<open>kmalloc\<close> with a block or with nothing: which of the two the n-th call gets is the field
  \<open>kmalloc_ok\<close>, and the block is named by the number of the call. An object of a slab has the
  address (slab, position). The free lists hold addresses, in the order of the C lists; a lost
  slab (no memory for its list entry) is one that no list entry names. The field \<open>uninit_tags\<close> is what
  a variable for tags holds on the stack before anything is stored in it.

  Both pools satisfy one contract, the locale \<open>pool\<close>: what was handed out is not handed out
  again before it is given back. \<open>BUG()\<close> only prints, so a missing allocator is an early return.
\<close>

type_synonym slab_addr = "nat \<times> nat"

record yaffs_allocator =
  n_tnodes_created :: int
  free_tnodes :: "slab_addr list"
  n_free_tnodes :: int
  alloc_tnode_list :: "nat list"
  n_obj_created :: int
  free_objs :: "slab_addr list"
  n_free_objects :: int
  allocated_obj_list :: "nat list"

record 'n yaffs_mem_dev = "'n yaffs_dev" +
  allocator :: "yaffs_allocator option"
  kmalloc_ok :: "nat \<Rightarrow> bool"
  n_kmalloc :: nat
  kfreed :: "nat list"
  uninit_tags :: yaffs_ext_tags

definition YAFFS_ALLOCATION_NTNODES :: nat where "YAFFS_ALLOCATION_NTNODES = 100"
definition YAFFS_ALLOCATION_NOBJECTS :: nat where "YAFFS_ALLOCATION_NOBJECTS = 100"

definition kmalloc :: "('n, 'x) yaffs_mem_dev_scheme \<Rightarrow> nat option \<times> ('n, 'x) yaffs_mem_dev_scheme" where
  "kmalloc dev = (if kmalloc_ok dev (n_kmalloc dev) then Some (n_kmalloc dev) else None,
     dev\<lparr>n_kmalloc := n_kmalloc dev + 1\<rparr>)"

definition kfree :: "nat option \<Rightarrow> ('n, 'x) yaffs_mem_dev_scheme \<Rightarrow> ('n, 'x) yaffs_mem_dev_scheme" where
  "kfree p dev = (case p of None \<Rightarrow> dev | Some a \<Rightarrow> dev\<lparr>kfreed := a # kfreed dev\<rparr>)"

section \<open>Tree nodes\<close>

definition yaffs_deinit_raw_tnodes :: "('n, 'x) yaffs_mem_dev_scheme \<Rightarrow> ('n, 'x) yaffs_mem_dev_scheme" where
  "yaffs_deinit_raw_tnodes dev =
     (case allocator dev of None \<Rightarrow> dev
      | Some al \<Rightarrow>
          (let dev = fold (\<lambda>s. kfree (Some s)) (alloc_tnode_list al) dev
           in dev\<lparr>allocator := Some (al\<lparr>alloc_tnode_list := [], free_tnodes := [], n_free_tnodes := 0,
                n_tnodes_created := 0\<rparr>)\<rparr>))"

definition yaffs_init_raw_tnodes :: "('n, 'x) yaffs_mem_dev_scheme \<Rightarrow> ('n, 'x) yaffs_mem_dev_scheme" where
  "yaffs_init_raw_tnodes dev =
     (case allocator dev of None \<Rightarrow> dev
      | Some al \<Rightarrow> dev\<lparr>allocator := Some (al\<lparr>alloc_tnode_list := [], free_tnodes := [],
          n_free_tnodes := 0, n_tnodes_created := 0\<rparr>)\<rparr>)"

definition yaffs_create_tnodes ::
  "('n, 'x) yaffs_mem_dev_scheme \<Rightarrow> nat \<Rightarrow> int \<times> ('n, 'x) yaffs_mem_dev_scheme" where
  "yaffs_create_tnodes dev n =
     (case allocator dev of None \<Rightarrow> (YAFFS_FAIL, dev)
      | Some al \<Rightarrow>
          if n < 1 then (YAFFS_OK, dev)
          else
           (let (new_tnodes, dev) = kmalloc dev
            in case new_tnodes of None \<Rightarrow> (YAFFS_FAIL, dev)
               | Some mem \<Rightarrow>
                   (let al = al\<lparr>free_tnodes := map (Pair mem) [0..<n] @ free_tnodes al,
                          n_free_tnodes := n_free_tnodes al + int n,
                          n_tnodes_created := n_tnodes_created al + int n\<rparr>;
                        (tnl, dev) = kmalloc dev
                    in case tnl of
                         None \<Rightarrow> (YAFFS_FAIL, dev\<lparr>allocator := Some al\<rparr>)
                       | Some _ \<Rightarrow> (YAFFS_OK,
                           dev\<lparr>allocator := Some (al\<lparr>alloc_tnode_list := mem # alloc_tnode_list al\<rparr>)\<rparr>))))"

definition yaffs_alloc_raw_tnode ::
  "('n, 'x) yaffs_mem_dev_scheme \<Rightarrow> slab_addr option \<times> ('n, 'x) yaffs_mem_dev_scheme" where
  "yaffs_alloc_raw_tnode dev =
     (case allocator dev of None \<Rightarrow> (None, dev)
      | Some al \<Rightarrow>
          (let dev = (if free_tnodes al = [] then snd (yaffs_create_tnodes dev YAFFS_ALLOCATION_NTNODES) else dev)
           in case allocator dev of None \<Rightarrow> (None, dev)
              | Some al \<Rightarrow>
                  (case free_tnodes al of [] \<Rightarrow> (None, dev)
                   | tn # rest \<Rightarrow> (Some tn, dev\<lparr>allocator := Some (al\<lparr>free_tnodes := rest,
                       n_free_tnodes := n_free_tnodes al - 1\<rparr>)\<rparr>))))"

definition yaffs_free_raw_tnode ::
  "('n, 'x) yaffs_mem_dev_scheme \<Rightarrow> slab_addr option \<Rightarrow> ('n, 'x) yaffs_mem_dev_scheme" where
  "yaffs_free_raw_tnode dev tn =
     (case allocator dev of None \<Rightarrow> dev
      | Some al \<Rightarrow>
          (let dev = (case tn of None \<Rightarrow> dev
             | Some a \<Rightarrow> dev\<lparr>allocator := Some (al\<lparr>free_tnodes := a # free_tnodes al,
                 n_free_tnodes := n_free_tnodes al + 1\<rparr>)\<rparr>)
           in dev\<lparr>checkpoint_blocks_required := 0\<rparr>))"

section \<open>Objects\<close>

definition yaffs_init_raw_objs :: "('n, 'x) yaffs_mem_dev_scheme \<Rightarrow> ('n, 'x) yaffs_mem_dev_scheme" where
  "yaffs_init_raw_objs dev =
     (case allocator dev of None \<Rightarrow> dev
      | Some al \<Rightarrow> dev\<lparr>allocator := Some (al\<lparr>allocated_obj_list := [], free_objs := [],
          n_free_objects := 0\<rparr>)\<rparr>)"

definition yaffs_deinit_raw_objs :: "('n, 'x) yaffs_mem_dev_scheme \<Rightarrow> ('n, 'x) yaffs_mem_dev_scheme" where
  "yaffs_deinit_raw_objs dev =
     (case allocator dev of None \<Rightarrow> dev
      | Some al \<Rightarrow>
          (let dev = fold (\<lambda>s. kfree (Some s)) (allocated_obj_list al) dev
           in dev\<lparr>allocator := Some (al\<lparr>allocated_obj_list := [], free_objs := [],
                n_free_objects := 0, n_obj_created := 0\<rparr>)\<rparr>))"

text \<open>\<open>list_add\<close> puts an entry at the head, so the new objects end up last one first.\<close>

definition yaffs_create_free_objs ::
  "('n, 'x) yaffs_mem_dev_scheme \<Rightarrow> nat \<Rightarrow> int \<times> ('n, 'x) yaffs_mem_dev_scheme" where
  "yaffs_create_free_objs dev n =
     (case allocator dev of None \<Rightarrow> (YAFFS_FAIL, dev)
      | Some al \<Rightarrow>
          if n < 1 then (YAFFS_OK, dev)
          else
           (let (new_objs, dev) = kmalloc dev; (entry, dev) = kmalloc dev
            in case (new_objs, entry) of
                 (Some mem, Some _) \<Rightarrow> (YAFFS_OK, dev\<lparr>allocator := Some (al\<lparr>
                     free_objs := fold (\<lambda>i l. (mem, i) # l) [0..<n] (free_objs al),
                     n_free_objects := n_free_objects al + int n,
                     n_obj_created := n_obj_created al + int n,
                     allocated_obj_list := mem # allocated_obj_list al\<rparr>)\<rparr>)
               | _ \<Rightarrow> (YAFFS_FAIL, kfree entry (kfree new_objs dev))))"

definition yaffs_alloc_raw_obj ::
  "('n, 'x) yaffs_mem_dev_scheme \<Rightarrow> slab_addr option \<times> ('n, 'x) yaffs_mem_dev_scheme" where
  "yaffs_alloc_raw_obj dev =
     (case allocator dev of None \<Rightarrow> (None, dev)
      | Some al \<Rightarrow>
          (let dev = (if free_objs al = [] then snd (yaffs_create_free_objs dev YAFFS_ALLOCATION_NOBJECTS) else dev)
           in case allocator dev of None \<Rightarrow> (None, dev)
              | Some al \<Rightarrow>
                  (case free_objs al of [] \<Rightarrow> (None, dev)
                   | obj # rest \<Rightarrow> (Some obj, dev\<lparr>allocator := Some (al\<lparr>free_objs := rest,
                       n_free_objects := n_free_objects al - 1\<rparr>)\<rparr>))))"

definition yaffs_free_raw_obj ::
  "('n, 'x) yaffs_mem_dev_scheme \<Rightarrow> slab_addr \<Rightarrow> ('n, 'x) yaffs_mem_dev_scheme" where
  "yaffs_free_raw_obj dev obj =
     (case allocator dev of None \<Rightarrow> dev
      | Some al \<Rightarrow> dev\<lparr>allocator := Some (al\<lparr>free_objs := obj # free_objs al,
          n_free_objects := n_free_objects al + 1\<rparr>)\<rparr>)"

section \<open>Both\<close>

definition yaffs_deinit_raw_tnodes_and_objs :: "('n, 'x) yaffs_mem_dev_scheme \<Rightarrow> ('n, 'x) yaffs_mem_dev_scheme" where
  "yaffs_deinit_raw_tnodes_and_objs dev =
     (if allocator dev = None then dev
      else (yaffs_deinit_raw_objs (yaffs_deinit_raw_tnodes dev))\<lparr>allocator := None\<rparr>)"

text \<open>\<open>junk\<close> is what the memory of the new allocator holds; \<open>n_obj_created\<close> keeps it.\<close>

definition yaffs_init_raw_tnodes_and_objs ::
  "yaffs_allocator \<Rightarrow> ('n, 'x) yaffs_mem_dev_scheme \<Rightarrow> ('n, 'x) yaffs_mem_dev_scheme" where
  "yaffs_init_raw_tnodes_and_objs junk dev =
     (if allocator dev \<noteq> None then dev
      else
       (let (new, dev) = kmalloc dev
        in case new of None \<Rightarrow> dev
           | Some _ \<Rightarrow> yaffs_init_raw_objs (yaffs_init_raw_tnodes (dev\<lparr>allocator := Some junk\<rparr>))))"

definition yaffs_get_tnode ::
  "('n, 'x) yaffs_mem_dev_scheme \<Rightarrow> slab_addr option \<times> ('n, 'x) yaffs_mem_dev_scheme" where
  "yaffs_get_tnode dev =
     (let (tn, dev) = yaffs_alloc_raw_tnode dev;
          dev = (if tn \<noteq> None then dev\<lparr>n_tnodes := n_tnodes dev + 1\<rparr> else dev)
      in (tn, dev\<lparr>checkpoint_blocks_required := 0\<rparr>))"

definition yaffs_free_tnode ::
  "('n, 'x) yaffs_mem_dev_scheme \<Rightarrow> slab_addr \<Rightarrow> ('n, 'x) yaffs_mem_dev_scheme" where
  "yaffs_free_tnode dev tn =
     (let dev = yaffs_free_raw_tnode dev (Some tn)
      in dev\<lparr>n_tnodes := n_tnodes dev - 1, checkpoint_blocks_required := 0\<rparr>)"

definition yaffs_deinit_tnodes_and_objs :: "('n, 'x) yaffs_mem_dev_scheme \<Rightarrow> ('n, 'x) yaffs_mem_dev_scheme" where
  "yaffs_deinit_tnodes_and_objs dev =
     (yaffs_deinit_raw_tnodes_and_objs dev)\<lparr>n_obj := 0, n_tnodes := 0\<rparr>"

section \<open>The contract of a pool\<close>

text \<open>The calls a client makes, with the set of addresses it holds.\<close>

inductive pool_step :: "('s \<Rightarrow> 'a option \<times> 's) \<Rightarrow> ('s \<Rightarrow> 'a \<Rightarrow> 's) \<Rightarrow> 's \<times> 'a set \<Rightarrow> 's \<times> 'a set \<Rightarrow> bool"
  for take_fn give_fn where
  taken: "take_fn s = (Some a, s') \<Longrightarrow> pool_step take_fn give_fn (s, L) (s', insert a L)"
| refused: "take_fn s = (None, s') \<Longrightarrow> pool_step take_fn give_fn (s, L) (s', L)"
| given: "a \<in> L \<Longrightarrow> pool_step take_fn give_fn (s, L) (give_fn s a, L - {a})"

locale pool =
  fixes take_fn :: "'s \<Rightarrow> 'a option \<times> 's"
    and give_fn :: "'s \<Rightarrow> 'a \<Rightarrow> 's"
    and pool_ok :: "'s \<Rightarrow> 'a set \<Rightarrow> bool"
  assumes take_some: "pool_ok s L \<Longrightarrow> take_fn s = (Some a, s') \<Longrightarrow> a \<notin> L \<and> pool_ok s' (insert a L)"
    and take_none: "pool_ok s L \<Longrightarrow> take_fn s = (None, s') \<Longrightarrow> pool_ok s' L"
    and give: "pool_ok s L \<Longrightarrow> a \<in> L \<Longrightarrow> pool_ok (give_fn s a) (L - {a})"
begin

lemma step_ok: "pool_step take_fn give_fn x y \<Longrightarrow> pool_ok (fst x) (snd x) \<Longrightarrow> pool_ok (fst y) (snd y)"
  by (induction rule: pool_step.induct) (use take_some take_none give in auto)

lemma steps_ok:
  "(pool_step take_fn give_fn)\<^sup>*\<^sup>* x y \<Longrightarrow> pool_ok (fst x) (snd x) \<Longrightarrow> pool_ok (fst y) (snd y)"
  by (induction rule: rtranclp_induct) (auto intro: step_ok)

lemma never_twice:
  assumes "(pool_step take_fn give_fn)\<^sup>*\<^sup>* x (s, L)" "pool_ok (fst x) (snd x)" "take_fn s = (Some a, s')"
  shows "a \<notin> L"
  using steps_ok [OF assms(1,2)] take_some [OF _ assms(3)] by simp

end

text \<open>A free list with the addresses in use: what the counters have to say of them.\<close>

definition slab_ok :: "slab_addr list \<Rightarrow> int \<Rightarrow> int \<Rightarrow> nat \<Rightarrow> slab_addr set \<Rightarrow> bool" where
  "slab_ok free n_free created calls L \<longleftrightarrow> finite L \<and> distinct free \<and> set free \<inter> L = {} \<and>
     (\<forall>a \<in> set free \<union> L. fst a < calls) \<and> n_free = int (length free) \<and>
     created = int (card L) + int (length free)"

lemma slab_ok_take:
  assumes "slab_ok (a # free) n created k L"
  shows "a \<notin> L \<and> slab_ok free (n - 1) created k (insert a L)"
  using assms by (auto simp: slab_ok_def)

lemma slab_ok_give:
  assumes "slab_ok free n created k L" "a \<in> L"
  shows "slab_ok (a # free) (n + 1) created k (L - {a})"
proof -
  have "card L = Suc (card (L - {a}))" using assms by (intro card.remove) (simp_all add: slab_ok_def)
  then show ?thesis using assms by (auto simp: slab_ok_def)
qed

lemma slab_ok_mono: "slab_ok free n created k L \<Longrightarrow> k \<le> k' \<Longrightarrow> slab_ok free n created k' L"
  unfolding slab_ok_def by (meson order_less_le_trans)

lemma slab_ok_new:
  assumes "slab_ok free n created k L" "distinct new" "set new = Pair k ` {..<m}" "length new = m" "k < k'"
  shows "slab_ok (new @ free) (n + int m) (created + int m) k' L"
proof -
  have "\<forall>a \<in> set free \<union> L. fst a < k" using assms(1) by (simp add: slab_ok_def)
  then have old: "fst a < k" if "a \<in> set free \<union> L" for a using that by (rule bspec)
  have at: "fst a = k" if "a \<in> set new" for a using that assms(3) by auto
  have disj: "set new \<inter> (set free \<union> L) = {}"
    using old at by (metis disjoint_iff less_irrefl)
  have below: "\<forall>a \<in> set (new @ free) \<union> L. fst a < k'"
    using old at assms(5) by (metis Un_iff order_less_trans set_append)
  have "set new \<inter> set free = {}" "set (new @ free) \<inter> L = {}"
    using disj assms(1) by (auto simp: slab_ok_def)
  then show ?thesis using assms(1,2,4) below by (simp add: slab_ok_def)
qed

definition tnode_pool_ok :: "('n, 'x) yaffs_mem_dev_scheme \<Rightarrow> slab_addr set \<Rightarrow> bool" where
  "tnode_pool_ok dev L \<longleftrightarrow> n_tnodes dev = int (card L) \<and>
     (case allocator dev of None \<Rightarrow> False
      | Some al \<Rightarrow> slab_ok (free_tnodes al) (n_free_tnodes al) (n_tnodes_created al) (n_kmalloc dev) L)"

text \<open>\<open>yaffs_init_raw_objs\<close> does not set \<open>n_obj_created\<close>, so it says nothing about the objects.\<close>

definition obj_pool_ok :: "('n, 'x) yaffs_mem_dev_scheme \<Rightarrow> slab_addr set \<Rightarrow> bool" where
  "obj_pool_ok dev L \<longleftrightarrow>
     (case allocator dev of None \<Rightarrow> False
      | Some al \<Rightarrow> \<exists>created. slab_ok (free_objs al) (n_free_objects al) created (n_kmalloc dev) L)"

lemma create_tnodes_ok:
  assumes "tnode_pool_ok dev L"
  shows "tnode_pool_ok (snd (yaffs_create_tnodes dev n)) L"
proof -
  obtain al where al: "allocator dev = Some al"
    and ok: "slab_ok (free_tnodes al) (n_free_tnodes al) (n_tnodes_created al) (n_kmalloc dev) L"
    using assms by (auto simp: tnode_pool_ok_def split: option.splits)
  have new: "slab_ok (map (Pair (n_kmalloc dev)) [0..<n] @ free_tnodes al) (n_free_tnodes al + int n)
      (n_tnodes_created al + int n) (Suc (Suc (n_kmalloc dev))) L"
    by (rule slab_ok_new [OF ok]) (auto simp: distinct_map inj_on_def atLeast0LessThan)
  have old: "slab_ok (free_tnodes al) (n_free_tnodes al) (n_tnodes_created al) (Suc (n_kmalloc dev)) L"
    by (rule slab_ok_mono [OF ok]) simp
  show ?thesis
    using assms al new old
    by (auto simp: yaffs_create_tnodes_def kmalloc_def tnode_pool_ok_def Let_def)
qed

lemma alloc_raw_tnode_ok:
  assumes "tnode_pool_ok dev L" "yaffs_alloc_raw_tnode dev = (r, dev')"
  shows "case r of None \<Rightarrow> tnode_pool_ok dev' L
    | Some a \<Rightarrow> a \<notin> L \<and> tnode_pool_ok (dev'\<lparr>n_tnodes := n_tnodes dev' + 1\<rparr>) (insert a L)"
proof -
  obtain al0 where al0: "allocator dev = Some al0" using assms(1) by (auto simp: tnode_pool_ok_def split: option.splits)
  let ?d = "if free_tnodes al0 = [] then snd (yaffs_create_tnodes dev YAFFS_ALLOCATION_NTNODES) else dev"
  have ok: "tnode_pool_ok ?d L" using create_tnodes_ok [OF assms(1)] assms(1) by simp
  have d: "(r, dev') = (case allocator ?d of None \<Rightarrow> (None, ?d)
      | Some al \<Rightarrow> (case free_tnodes al of [] \<Rightarrow> (None, ?d)
        | tn # rest \<Rightarrow> (Some tn, ?d\<lparr>allocator := Some (al\<lparr>free_tnodes := rest,
             n_free_tnodes := n_free_tnodes al - 1\<rparr>)\<rparr>)))"
    unfolding assms(2) [symmetric] yaffs_alloc_raw_tnode_def al0 Let_def option.case ..
  obtain al where al: "allocator ?d = Some al"
    and s: "slab_ok (free_tnodes al) (n_free_tnodes al) (n_tnodes_created al) (n_kmalloc ?d) L"
    using ok unfolding tnode_pool_ok_def by (cases "allocator ?d") auto
  show ?thesis
  proof (cases "free_tnodes al")
    case Nil
    then have "(r, dev') = (None, ?d)" using d unfolding al by simp
    then show ?thesis using ok by simp
  next
    case (Cons a rest)
    have res: "(r, dev') = (Some a, ?d\<lparr>allocator := Some (al\<lparr>free_tnodes := rest, n_free_tnodes := n_free_tnodes al - 1\<rparr>)\<rparr>)"
      using d unfolding al by (simp add: Cons)
    have "finite L" "n_tnodes ?d = int (card L)" using ok s by (simp_all add: tnode_pool_ok_def slab_ok_def)
    then show ?thesis
      using res slab_ok_take [OF s [unfolded Cons]] by (simp add: tnode_pool_ok_def)
  qed
qed

lemma tnode_pool_ok_recalc [simp]: "tnode_pool_ok (dev\<lparr>checkpoint_blocks_required := i\<rparr>) L = tnode_pool_ok dev L"
  by (simp add: tnode_pool_ok_def split: option.split)

lemma get_tnode_ok:
  assumes "tnode_pool_ok dev L" "yaffs_get_tnode dev = (r, dev')"
  shows "case r of None \<Rightarrow> tnode_pool_ok dev' L | Some a \<Rightarrow> a \<notin> L \<and> tnode_pool_ok dev' (insert a L)"
proof -
  obtain q d where q: "yaffs_alloc_raw_tnode dev = (q, d)" by fastforce
  show ?thesis
    using alloc_raw_tnode_ok [OF assms(1) q] assms(2) q by (cases q) (auto simp: yaffs_get_tnode_def)
qed

interpretation tp: pool yaffs_get_tnode yaffs_free_tnode tnode_pool_ok
proof unfold_locales
  fix s :: "('a, 'b) yaffs_mem_dev_scheme" and L a s'
  assume "tnode_pool_ok s L" "yaffs_get_tnode s = (Some a, s')"
  from get_tnode_ok [OF this] show "a \<notin> L \<and> tnode_pool_ok s' (insert a L)" by simp
next
  fix s :: "('a, 'b) yaffs_mem_dev_scheme" and L s'
  assume "tnode_pool_ok s L" "yaffs_get_tnode s = (None, s')"
  from get_tnode_ok [OF this] show "tnode_pool_ok s' L" by simp
next
  fix s :: "('a, 'b) yaffs_mem_dev_scheme" and L a
  assume ok: "tnode_pool_ok s L" and a: "a \<in> L"
  then have "card L = Suc (card (L - {a}))"
    by (intro card.remove) (auto simp: tnode_pool_ok_def slab_ok_def split: option.splits)
  then show "tnode_pool_ok (yaffs_free_tnode s a) (L - {a})"
    using ok slab_ok_give [OF _ a]
    by (auto simp: yaffs_free_tnode_def yaffs_free_raw_tnode_def tnode_pool_ok_def Let_def split: option.splits)
qed

lemma create_objs_ok:
  assumes "obj_pool_ok dev L"
  shows "obj_pool_ok (snd (yaffs_create_free_objs dev n)) L"
proof -
  obtain al created where al: "allocator dev = Some al"
    and ok: "slab_ok (free_objs al) (n_free_objects al) created (n_kmalloc dev) L"
    using assms by (auto simp: obj_pool_ok_def split: option.splits)
  have list: "fold (\<lambda>i l. (mem, i) # l) [0..<m] l = map (Pair mem) (rev [0..<m]) @ l" for mem :: nat and m l
    by (induction m) auto
  have new: "slab_ok (map (Pair (n_kmalloc dev)) (rev [0..<n]) @ free_objs al) (n_free_objects al + int n)
      (created + int n) (Suc (Suc (n_kmalloc dev))) L"
    by (rule slab_ok_new [OF ok]) (auto simp: distinct_map inj_on_def atLeast0LessThan)
  have old: "slab_ok (free_objs al) (n_free_objects al) created (Suc (Suc (n_kmalloc dev))) L"
    by (rule slab_ok_mono [OF ok]) simp
  show ?thesis
    using assms al new old
    by (fastforce simp: yaffs_create_free_objs_def kmalloc_def kfree_def obj_pool_ok_def Let_def list split: option.split)
qed

lemma alloc_raw_obj_ok:
  assumes "obj_pool_ok dev L" "yaffs_alloc_raw_obj dev = (r, dev')"
  shows "case r of None \<Rightarrow> obj_pool_ok dev' L | Some a \<Rightarrow> a \<notin> L \<and> obj_pool_ok dev' (insert a L)"
proof -
  obtain al0 where al0: "allocator dev = Some al0" using assms(1) by (auto simp: obj_pool_ok_def split: option.splits)
  let ?d = "if free_objs al0 = [] then snd (yaffs_create_free_objs dev YAFFS_ALLOCATION_NOBJECTS) else dev"
  have ok: "obj_pool_ok ?d L" using create_objs_ok [OF assms(1)] assms(1) by simp
  have d: "(r, dev') = (case allocator ?d of None \<Rightarrow> (None, ?d)
      | Some al \<Rightarrow> (case free_objs al of [] \<Rightarrow> (None, ?d)
        | obj # rest \<Rightarrow> (Some obj, ?d\<lparr>allocator := Some (al\<lparr>free_objs := rest,
             n_free_objects := n_free_objects al - 1\<rparr>)\<rparr>)))"
    unfolding assms(2) [symmetric] yaffs_alloc_raw_obj_def al0 Let_def option.case ..
  obtain al created where al: "allocator ?d = Some al"
    and s: "slab_ok (free_objs al) (n_free_objects al) created (n_kmalloc ?d) L"
    using ok unfolding obj_pool_ok_def by (cases "allocator ?d") auto
  show ?thesis
  proof (cases "free_objs al")
    case Nil
    then have "(r, dev') = (None, ?d)" using d unfolding al by simp
    then show ?thesis using ok by simp
  next
    case (Cons a rest)
    have "(r, dev') = (Some a, ?d\<lparr>allocator := Some (al\<lparr>free_objs := rest, n_free_objects := n_free_objects al - 1\<rparr>)\<rparr>)"
      using d unfolding al by (simp add: Cons)
    then show ?thesis using slab_ok_take [OF s [unfolded Cons]] by (auto simp: obj_pool_ok_def)
  qed
qed

interpretation op: pool yaffs_alloc_raw_obj yaffs_free_raw_obj obj_pool_ok
proof unfold_locales
  fix s :: "('a, 'b) yaffs_mem_dev_scheme" and L a s'
  assume "obj_pool_ok s L" "yaffs_alloc_raw_obj s = (Some a, s')"
  from alloc_raw_obj_ok [OF this] show "a \<notin> L \<and> obj_pool_ok s' (insert a L)" by simp
next
  fix s :: "('a, 'b) yaffs_mem_dev_scheme" and L s'
  assume "obj_pool_ok s L" "yaffs_alloc_raw_obj s = (None, s')"
  from alloc_raw_obj_ok [OF this] show "obj_pool_ok s' L" by simp
next
  fix s :: "('a, 'b) yaffs_mem_dev_scheme" and L a
  assume "obj_pool_ok s L" "a \<in> L"
  then show "obj_pool_ok (yaffs_free_raw_obj s a) (L - {a})"
    by (force simp: yaffs_free_raw_obj_def obj_pool_ok_def split: option.splits intro: slab_ok_give)
qed

section \<open>Properties\<close>

text \<open>C13: Along every sequence of calls that take and give back tree nodes, with the heap running
  out at any moment, the node counter of the device is the number of nodes in use, and the next node
  handed out is none of these.\<close>

theorem tnodes_never_twice:
  assumes "(pool_step yaffs_get_tnode yaffs_free_tnode)\<^sup>*\<^sup>* (dev, L) (d, L')" and "tnode_pool_ok dev L"
  shows "n_tnodes d = int (card L') \<and> fst (yaffs_get_tnode d) \<notin> Some ` L'"
proof -
  have ok: "tnode_pool_ok d L'" using tp.steps_ok [OF assms(1)] assms(2) by simp
  have "a \<notin> L'" if "yaffs_get_tnode d = (Some a, d')" for a d'
    by (rule tp.never_twice [OF assms(1) _ that]) (simp add: assms(2))
  then have "fst (yaffs_get_tnode d) \<notin> Some ` L'" by (metis imageE prod.collapse)
  then show ?thesis using ok by (simp add: tnode_pool_ok_def)
qed

text \<open>C32: The same holds of the objects.\<close>

theorem objs_never_twice:
  assumes "(pool_step yaffs_alloc_raw_obj yaffs_free_raw_obj)\<^sup>*\<^sup>* (dev, L) (d, L')" and "obj_pool_ok dev L"
  shows "fst (yaffs_alloc_raw_obj d) \<notin> Some ` L'"
proof -
  have "a \<notin> L'" if "yaffs_alloc_raw_obj d = (Some a, d')" for a d'
    by (rule op.never_twice [OF assms(1) _ that]) (simp add: assms(2))
  then show ?thesis by (metis imageE prod.collapse)
qed

lemma init_pools_ok:
  assumes "allocator dev = None" "kmalloc_ok dev (n_kmalloc dev)" "n_tnodes dev = 0"
  shows "tnode_pool_ok (yaffs_init_raw_tnodes_and_objs junk dev) {}"
    and "obj_pool_ok (yaffs_init_raw_tnodes_and_objs junk dev) {}"
  using assms
  by (auto simp: yaffs_init_raw_tnodes_and_objs_def kmalloc_def Let_def yaffs_init_raw_tnodes_def
      yaffs_init_raw_objs_def tnode_pool_ok_def obj_pool_ok_def slab_ok_def)

text \<open>The small device with a heap that always has memory.\<close>

definition heap_dev :: "unit yaffs_mem_dev" where
  "heap_dev = yaffs_dev.extend small_dev (yaffs_mem_dev.fields None (\<lambda>_. True) 0 [] zero_tags)"

definition junk_allocator :: yaffs_allocator where
  "junk_allocator = \<lparr>n_tnodes_created = 7, free_tnodes = [(9, 9)], n_free_tnodes = 3, alloc_tnode_list = [4],
     n_obj_created = 5, free_objs = [(8, 8)], n_free_objects = 6, allocated_obj_list = [2]\<rparr>"

lemma heap_dev_pools:
  "tnode_pool_ok (yaffs_init_raw_tnodes_and_objs junk_allocator heap_dev) {}"
  "obj_pool_ok (yaffs_init_raw_tnodes_and_objs junk_allocator heap_dev) {}"
  by (rule init_pools_ok; simp add: heap_dev_def yaffs_dev.defs yaffs_mem_dev.defs small_dev_def zero_dev_def)+

abbreviation pool_dev :: "unit yaffs_mem_dev" where
  "pool_dev \<equiv> yaffs_init_raw_tnodes_and_objs junk_allocator heap_dev"

lemma first_handed_out:
  "\<exists>d. yaffs_get_tnode pool_dev = (Some (1, 0), d)" "\<exists>d. yaffs_alloc_raw_obj pool_dev = (Some (1, 99), d)"
  by (simp_all add: yaffs_init_raw_tnodes_and_objs_def yaffs_init_raw_tnodes_def yaffs_init_raw_objs_def
      kmalloc_def heap_dev_def yaffs_dev.defs yaffs_mem_dev.defs yaffs_get_tnode_def yaffs_alloc_raw_tnode_def
      yaffs_create_tnodes_def YAFFS_ALLOCATION_NTNODES_def upt_conv_Cons Let_def
      yaffs_alloc_raw_obj_def yaffs_create_free_objs_def YAFFS_ALLOCATION_NOBJECTS_def)

lemma tnodes_never_twice_witness:
  "\<exists>d. n_tnodes d = 1 \<and> fst (yaffs_get_tnode (d :: unit yaffs_mem_dev)) \<noteq> Some (1, 0)"
proof -
  obtain d where "yaffs_get_tnode pool_dev = (Some (1, 0), d)" using first_handed_out(1) by blast
  then have "(pool_step yaffs_get_tnode yaffs_free_tnode)\<^sup>*\<^sup>* (pool_dev, {}) (d, {(1, 0)})"
    by (intro r_into_rtranclp pool_step.taken)
  from tnodes_never_twice [OF this heap_dev_pools(1)] show ?thesis by auto
qed

lemma objs_never_twice_witness:
  "\<exists>d. fst (yaffs_alloc_raw_obj (d :: unit yaffs_mem_dev)) \<noteq> Some (1, 99)"
proof -
  obtain d where "yaffs_alloc_raw_obj pool_dev = (Some (1, 99), d)" using first_handed_out(2) by blast
  then have "(pool_step yaffs_alloc_raw_obj yaffs_free_raw_obj)\<^sup>*\<^sup>* (pool_dev, {}) (d, {(1, 99)})"
    by (intro r_into_rtranclp pool_step.taken)
  from objs_never_twice [OF this heap_dev_pools(2)] show ?thesis by auto
qed

end
