(* ===== verification/Yaffs_Tnode.thy ===== *)
theory Yaffs_Tnode
  imports Yaffs_Allocator
begin

text \<open>
  The look-up tree of a file (yaffs_guts.c). A node is a C union: at level 0 an array of words
  with sixteen entries of \<open>tnode_width\<close> bits packed into it, above an array of eight pointers; the
  datatype has one constructor for either use, with the address the allocator knows the node by.
  A null pointer is \<open>None\<close>. A function of the code that returns a pointer into the tree, through
  which the caller then writes, is a look-up here, and the write is \<open>set_tnode_0\<close>.
\<close>

datatype yaffs_tnode = Level0 slab_addr "u32 list" | Internal slab_addr "yaffs_tnode option list"

record yaffs_file_var =
  file_size :: u32
  stored_size :: u32
  shrink_size :: u32
  top_level :: int
  top :: "yaffs_tnode option"

fun tnode_addr :: "yaffs_tnode \<Rightarrow> slab_addr" where
  "tnode_addr (Level0 a ws) = a"
| "tnode_addr (Internal a ts) = a"

text \<open>The two readings of a node. A node is only ever read at the level it was made for.\<close>

fun tnode_map :: "yaffs_tnode \<Rightarrow> u32 list" where
  "tnode_map (Level0 a ws) = ws"
| "tnode_map (Internal a ts) = []"

fun internal_nodes :: "yaffs_tnode \<Rightarrow> yaffs_tnode option list" where
  "internal_nodes (Level0 a ws) = replicate 8 None"
| "internal_nodes (Internal a ts) = ts"

definition YAFFS_TNODES_MAX_LEVEL :: int where "YAFFS_TNODES_MAX_LEVEL = 8"
definition YAFFS_MAX_CHUNK_ID :: u32 where "YAFFS_MAX_CHUNK_ID = 2 ^ 28 - 1"

section \<open>The entries of a level 0 node\<close>

definition yaffs_load_tnode_0 :: "('n, 'x) yaffs_dev_scheme \<Rightarrow> u32 list \<Rightarrow> u32 \<Rightarrow> u32 \<Rightarrow> u32 list" where
  "yaffs_load_tnode_0 dev tmap pos val =
     (let pos = pos AND 0xf;
          val = drop_bit (chunk_grp_bits dev) val;
          bit_in_map = unat pos * tnode_width dev;
          word_in_map = bit_in_map div 32;
          bit_in_word = bit_in_map mod 32;
          mask = push_bit bit_in_word (tnode_mask dev);
          tmap = tmap[word_in_map := tmap ! word_in_map AND NOT mask];
          tmap = tmap[word_in_map := tmap ! word_in_map OR (mask AND push_bit bit_in_word val)]
      in if tnode_width dev > 32 - bit_in_word
         then (let bit_in_word = 32 - bit_in_word;
                   word_in_map = word_in_map + 1;
                   mask = drop_bit bit_in_word (tnode_mask dev);
                   tmap = tmap[word_in_map := tmap ! word_in_map AND NOT mask]
               in tmap[word_in_map := tmap ! word_in_map OR (mask AND drop_bit bit_in_word val)])
         else tmap)"

definition yaffs_get_group_base :: "('n, 'x) yaffs_dev_scheme \<Rightarrow> u32 list \<Rightarrow> u32 \<Rightarrow> u32" where
  "yaffs_get_group_base dev tmap pos =
     (let pos = pos AND 0xf;
          bit_in_map = unat pos * tnode_width dev;
          word_in_map = bit_in_map div 32;
          bit_in_word = bit_in_map mod 32;
          val = drop_bit bit_in_word (tmap ! word_in_map);
          val = (if tnode_width dev > 32 - bit_in_word
                 then val OR push_bit (32 - bit_in_word) (tmap ! (word_in_map + 1)) else val);
          val = val AND tnode_mask dev
      in push_bit (chunk_grp_bits dev) val)"

section \<open>The tree\<close>

function required_depth :: "u32 \<Rightarrow> int" where
  "required_depth i = (if i = 0 then 0 else 1 + required_depth (drop_bit 3 i))"
  by auto
termination
proof (relation "measure unat")
  fix i :: u32
  assume "i \<noteq> 0"
  then have "0 < unat i" by (simp add: unat_gt_0)
  then show "(drop_bit 3 i, i) \<in> measure unat" by (simp add: drop_bit_eq_div unat_div)
qed simp

declare required_depth.simps [simp del]

text \<open>The index of the child, at a node whose children have level \<open>l\<close>.\<close>

definition child_index :: "u32 \<Rightarrow> nat \<Rightarrow> nat" where
  "child_index chunk l = unat (drop_bit (4 + l * 3) chunk AND 0x7)"

fun find_down :: "nat \<Rightarrow> u32 \<Rightarrow> yaffs_tnode option \<Rightarrow> yaffs_tnode option" where
  "find_down 0 chunk tn = tn"
| "find_down (Suc l) chunk tn =
     (case tn of None \<Rightarrow> None
      | Some t \<Rightarrow> find_down l chunk (internal_nodes t ! child_index chunk l))"

definition yaffs_find_tnode_0 :: "yaffs_file_var \<Rightarrow> u32 \<Rightarrow> yaffs_tnode option" where
  "yaffs_find_tnode_0 file_struct chunk =
     (if top_level file_struct < 0 \<or> top_level file_struct > YAFFS_TNODES_MAX_LEVEL then None
      else if chunk > YAFFS_MAX_CHUNK_ID then None
      else if required_depth (drop_bit 4 chunk) > top_level file_struct then None
      else find_down (nat (top_level file_struct)) chunk (top file_struct))"

text \<open>The new nodes: \<open>memset\<close> with zero, used as pointers or as entries.\<close>

abbreviation new_internal :: "slab_addr \<Rightarrow> yaffs_tnode" where
  "new_internal a \<equiv> Internal a (replicate 8 None)"

definition new_level0 :: "('n, 'x) yaffs_dev_scheme \<Rightarrow> slab_addr \<Rightarrow> yaffs_tnode" where
  "new_level0 dev a = Level0 a (replicate (tnode_size dev div 4) 0)"

fun grow_tree ::
  "nat \<Rightarrow> ('n, 'x) yaffs_mem_dev_scheme \<Rightarrow> yaffs_file_var \<Rightarrow> bool \<times> yaffs_file_var \<times> ('n, 'x) yaffs_mem_dev_scheme" where
  "grow_tree 0 dev file_struct = (True, file_struct, dev)"
| "grow_tree (Suc k) dev file_struct =
     (let (tn, dev) = yaffs_get_tnode dev
      in case tn of None \<Rightarrow> (False, file_struct, dev)
         | Some a \<Rightarrow> grow_tree k dev (file_struct\<lparr>
             top := Some (Internal a ((replicate 8 None)[0 := top file_struct])),
             top_level := top_level file_struct + 1\<rparr>))"

text \<open>The way down, adding what is missing: the node found (\<open>None\<close> when the memory ran out), the
  tree it was started on, and the device.\<close>

fun add_down ::
  "nat \<Rightarrow> u32 \<Rightarrow> yaffs_tnode option \<Rightarrow> ('n, 'x) yaffs_mem_dev_scheme \<Rightarrow> yaffs_tnode \<Rightarrow>
   yaffs_tnode option \<times> yaffs_tnode \<times> ('n, 'x) yaffs_mem_dev_scheme" where
  "add_down 0 chunk passed_tn dev tn = (Some tn, tn, dev)"
| "add_down (Suc l) chunk passed_tn dev tn =
     (let x = child_index chunk l;
          child = internal_nodes tn ! x;
          (child, dev) =
            (if l > 0 \<and> child = None then
               (let (new, dev) = yaffs_get_tnode dev in (map_option new_internal new, dev))
             else if l = 0 then
               (case passed_tn of
                  Some p \<Rightarrow> (Some p, case child of None \<Rightarrow> dev | Some old \<Rightarrow> yaffs_free_tnode dev (tnode_addr old))
                | None \<Rightarrow> if child = None then
                       (let (new, dev) = yaffs_get_tnode dev in (map_option (new_level0 dev) new, dev))
                     else (child, dev))
             else (child, dev))
      in case child of
           None \<Rightarrow> (None, tn, dev)
         | Some c \<Rightarrow>
             (let (found, c, dev) = add_down l chunk passed_tn dev c
              in (found, Internal (tnode_addr tn) ((internal_nodes tn)[x := Some c]), dev)))"

definition yaffs_add_find_tnode_0 ::
  "('n, 'x) yaffs_mem_dev_scheme \<Rightarrow> yaffs_file_var \<Rightarrow> u32 \<Rightarrow> yaffs_tnode option \<Rightarrow>
   yaffs_tnode option \<times> yaffs_file_var \<times> ('n, 'x) yaffs_mem_dev_scheme" where
  "yaffs_add_find_tnode_0 dev file_struct chunk passed_tn =
     (if top_level file_struct < 0 \<or> top_level file_struct > YAFFS_TNODES_MAX_LEVEL then (None, file_struct, dev)
      else if chunk > YAFFS_MAX_CHUNK_ID then (None, file_struct, dev)
      else
       (let (tall, file_struct, dev) =
              grow_tree (nat (required_depth (drop_bit 4 chunk) - top_level file_struct)) dev file_struct
        in if \<not> tall then (None, file_struct, dev)
           else case top file_struct of
             None \<Rightarrow> (None, file_struct, dev)
           | Some tn \<Rightarrow>
               if top_level file_struct > 0 then
                 (let (found, tn, dev) = add_down (nat (top_level file_struct)) chunk passed_tn dev tn
                  in (found, file_struct\<lparr>top := Some tn\<rparr>, dev))
               else
                 (case passed_tn of
                    None \<Rightarrow> (Some tn, file_struct, dev)
                  | Some p \<Rightarrow>
                      (let n = tnode_width dev * 16 div 8 div 4;
                           tn = Level0 (tnode_addr tn) (take n (tnode_map p) @ drop n (tnode_map tn))
                       in (Some tn, file_struct\<lparr>top := Some tn\<rparr>, yaffs_free_tnode dev (tnode_addr p))))))"

text \<open>A write through the pointer \<open>yaffs_find_tnode_0\<close> or \<open>yaffs_add_find_tnode_0\<close> returned.\<close>

fun set_down :: "nat \<Rightarrow> u32 \<Rightarrow> u32 list \<Rightarrow> yaffs_tnode \<Rightarrow> yaffs_tnode" where
  "set_down 0 chunk ws tn = Level0 (tnode_addr tn) ws"
| "set_down (Suc l) chunk ws tn =
     (let x = child_index chunk l
      in Internal (tnode_addr tn) ((internal_nodes tn)[x := map_option (set_down l chunk ws) (internal_nodes tn ! x)]))"

definition set_tnode_0 :: "yaffs_file_var \<Rightarrow> u32 \<Rightarrow> u32 list \<Rightarrow> yaffs_file_var" where
  "set_tnode_0 file_struct chunk ws =
     file_struct\<lparr>top := map_option (set_down (nat (top_level file_struct)) chunk ws) (top file_struct)\<rparr>"

section \<open>Packing of the entries\<close>

text \<open>The bits of a node as one stream, and what the geometry has to say of it.\<close>

definition map_bit :: "u32 list \<Rightarrow> nat \<Rightarrow> bool" where
  "map_bit tmap j = bit (tmap ! (j div 32)) (j mod 32)"

definition tnode_geometry :: "('n, 'x) yaffs_dev_scheme \<Rightarrow> bool" where
  "tnode_geometry dev \<longleftrightarrow> 0 < tnode_width dev \<and> tnode_width dev \<le> 32 \<and> even (tnode_width dev) \<and> tnode_mask dev = mask (tnode_width dev)
     \<and> tnode_width dev div 2 \<le> tnode_size dev div 4"

lemma entry_position:
  fixes p w :: nat
  assumes "p < 16" "0 < w" "w div 2 \<le> n" "even w"
  shows "p * w div 32 < n" "w > 32 - p * w mod 32 \<Longrightarrow> p * w div 32 + 1 < n"
proof -
  obtain k where k: "w = 2 * k" using assms(4) by blast
  have "p * w + w \<le> 32 * k" using assms(1) by (simp add: k)
  moreover have "k \<le> n" using assms(3) k by simp
  moreover define i b where "i = p * w div 32" "b = p * w mod 32"
  moreover have "p * w = 32 * i + b" by (simp add: i_b_def)
  ultimately have *: "32 * i + b + w \<le> 32 * n" by linarith
  show "p * w div 32 < n" unfolding i_b_def(1) [symmetric] using * assms(2) by linarith
  assume "w > 32 - p * w mod 32"
  then have "32 < w + b" by (simp add: i_b_def)
  then show "p * w div 32 + 1 < n" unfolding i_b_def(1) [symmetric] using * by linarith
qed

lemma map_bit_update:
  assumes "i < length tmap"
  shows "map_bit (tmap[i := w]) j = (if j div 32 = i then bit w (j mod 32) else map_bit tmap j)"
  using assms by (simp add: map_bit_def nth_list_update)

definition insert_field :: "u32 \<Rightarrow> u32 \<Rightarrow> u32 \<Rightarrow> u32" where
  "insert_field m y x = (x AND NOT m) OR (m AND y)"

lemma bit_insert_field: "n < 32 \<Longrightarrow> bit (insert_field m y x) n = (if bit m n then bit y n else bit x n)"
  by (auto simp: insert_field_def bit_or_iff bit_and_iff bit_not_iff)

lemma load_tnode_0_fields:
  assumes "i = unat (pos AND 0xf) * tnode_width dev div 32" "b = unat (pos AND 0xf) * tnode_width dev mod 32"
    and "v = drop_bit (chunk_grp_bits dev) val" "i < length tmap"
    and "tnode_width dev > 32 - b \<longrightarrow> i + 1 < length tmap"
  shows "yaffs_load_tnode_0 dev tmap pos val =
    (let tmap = tmap[i := insert_field (push_bit b (tnode_mask dev)) (push_bit b v) (tmap ! i)]
     in if tnode_width dev > 32 - b
        then tmap[i + 1 := insert_field (drop_bit (32 - b) (tnode_mask dev)) (drop_bit (32 - b) v) (tmap ! (i + 1))]
        else tmap)"
  using assms by (simp add: yaffs_load_tnode_0_def insert_field_def Let_def)

lemma map_bit_load:
  assumes g: "tnode_geometry dev" and len: "tnode_size dev div 4 \<le> length tmap" and j: "j < 32 * length tmap"
    and k: "k = unat (pos AND 0xf) * tnode_width dev"
  shows "map_bit (yaffs_load_tnode_0 dev tmap pos val) j =
    (if k \<le> j \<and> j < k + tnode_width dev then bit (drop_bit (chunk_grp_bits dev) val) (j - k) else map_bit tmap j)"
proof -
  let ?w = "tnode_width dev" and ?v = "drop_bit (chunk_grp_bits dev) val"
  define i b where ib: "i = k div 32" "b = k mod 32"
  have p: "unat (pos AND 0xf) < 16" using word_and_le1 [of pos "0xf"] by (simp add: word_le_nat_alt)
  have w: "0 < ?w" "?w \<le> 32" "even ?w" "tnode_mask dev = mask ?w" "?w div 2 \<le> length tmap"
    using g len by (auto simp: tnode_geometry_def)
  note pos = entry_position [OF p w(1,5,3), folded k ib]
  have kb: "k = 32 * i + b" "b < 32" by (simp_all add: ib)
  define n where "n = j mod 32"
  have jn: "j = 32 * (j div 32) + n" "n < 32" by (simp_all add: n_def)
  have m1: "bit (push_bit b (tnode_mask dev)) n \<longleftrightarrow> b \<le> n \<and> n < b + ?w"
    using jn(2) by (auto simp: w(4) bit_push_bit_iff bit_mask_iff)
  have v1: "bit (push_bit b ?v) n \<longleftrightarrow> bit ?v (n - b)" if "b \<le> n"
    using that jn(2) by (simp add: bit_push_bit_iff)
  have m2: "bit (drop_bit (32 - b) (tnode_mask dev)) n \<longleftrightarrow> n + 32 - b < ?w"
    using kb(2) w(2) by (auto simp: w(4) bit_drop_bit_eq bit_mask_iff)
  have v2: "bit (drop_bit (32 - b) ?v) n = bit ?v (n + 32 - b)"
    using kb(2) by (simp add: bit_drop_bit_eq algebra_simps)
  note load = load_tnode_0_fields [of i pos dev b ?v val tmap, folded k, OF ib refl]
  show ?thesis
  proof (cases "?w > 32 - b")
    case False
    have *: "yaffs_load_tnode_0 dev tmap pos val =
        tmap[i := insert_field (push_bit b (tnode_mask dev)) (push_bit b ?v) (tmap ! i)]"
      using load pos False by simp
    show ?thesis
    proof (cases "j div 32 = i")
      case True
      have "k \<le> j \<and> j < k + ?w \<longleftrightarrow> b \<le> n \<and> n < b + ?w" "b \<le> n \<longrightarrow> j - k = n - b" using True jn kb by auto
      moreover have "map_bit tmap j = bit (tmap ! i) n" by (simp add: map_bit_def True n_def)
      ultimately show ?thesis
        using True pos(1) jn(2) m1 v1 unfolding * by (auto simp: map_bit_update bit_insert_field n_def [symmetric])
    next
      case other: False
      have "\<not> (k \<le> j \<and> j < k + ?w)" using other jn kb False by linarith
      then show ?thesis unfolding * using other pos by (auto simp: map_bit_update)
    qed
  next
    case True
    have *: "yaffs_load_tnode_0 dev tmap pos val =
        (tmap[i := insert_field (push_bit b (tnode_mask dev)) (push_bit b ?v) (tmap ! i)])
          [i + 1 := insert_field (drop_bit (32 - b) (tnode_mask dev)) (drop_bit (32 - b) ?v) (tmap ! (i + 1))]"
      using load pos True by (simp add: Let_def)
    consider "j div 32 = i" | "j div 32 = i + 1" | "j div 32 < i" | "i + 1 < j div 32" by linarith
    then show ?thesis
    proof cases
      case 1
      have "k \<le> j \<and> j < k + ?w \<longleftrightarrow> b \<le> n \<and> n < b + ?w" "b \<le> n \<longrightarrow> j - k = n - b" using 1 jn kb by auto
      moreover have "map_bit tmap j = bit (tmap ! i) n" by (simp add: map_bit_def 1 n_def)
      ultimately show ?thesis unfolding * using 1 pos True jn(2) m1 v1
        by (auto simp: map_bit_update bit_insert_field n_def [symmetric])
    next
      case 2
      have "k \<le> j \<and> j < k + ?w \<longleftrightarrow> n + 32 - b < ?w" "j - k = n + 32 - b" using 2 jn kb by auto
      moreover have "map_bit tmap j = bit (tmap ! (i + 1)) n" by (simp add: map_bit_def 2 n_def)
      ultimately show ?thesis unfolding * using 2 pos True jn(2) m2 v2
        by (simp add: map_bit_update bit_insert_field n_def [symmetric])
    next
      case 3
      then have "\<not> k \<le> j" using jn kb by linarith
      then show ?thesis unfolding * using 3 pos True by (simp add: map_bit_update)
    next
      case 4
      then have "\<not> j < k + ?w" using jn kb w(2) by linarith
      then show ?thesis unfolding * using 4 pos True by (simp add: map_bit_update)
    qed
  qed
qed

lemma bit_group_entry:
  assumes g: "tnode_geometry dev" and len: "tnode_size dev div 4 \<le> length tmap"
    and k: "k = unat (pos AND 0xf) * tnode_width dev"
  shows "bit (yaffs_get_group_base dev tmap pos) m \<longleftrightarrow> chunk_grp_bits dev \<le> m \<and> m < 32 \<and>
    m - chunk_grp_bits dev < tnode_width dev \<and> map_bit tmap (k + (m - chunk_grp_bits dev))"
proof -
  let ?w = "tnode_width dev" and ?g = "chunk_grp_bits dev"
  define i b where ib: "i = k div 32" "b = k mod 32"
  have w: "0 < ?w" "?w \<le> 32" "tnode_mask dev = mask ?w" using g by (auto simp: tnode_geometry_def)
  have kb: "k = 32 * i + b" "b < 32" by (simp_all add: ib)
  define raw where "raw = (let v = drop_bit b (tmap ! i)
    in if ?w > 32 - b then v OR push_bit (32 - b) (tmap ! (i + 1)) else v)"
  have base: "yaffs_get_group_base dev tmap pos = push_bit ?g (raw AND mask ?w)"
    by (simp add: yaffs_get_group_base_def Let_def w(3) raw_def ib k)
  have raw: "bit raw n = map_bit tmap (k + n)" if n: "n < ?w" for n
  proof (cases "b + n < 32")
    case True
    moreover have "k + n = (b + n) + 32 * i" by (simp add: kb)
    ultimately have "(k + n) div 32 = i" "(k + n) mod 32 = b + n" by (simp_all only: div_mult_self2 mod_mult_self2) simp_all
    then show ?thesis using True
      by (auto simp: raw_def Let_def map_bit_def bit_or_iff bit_push_bit_iff bit_drop_bit_eq)
  next
    case False
    have "k + n = (b + n - 32) + 32 * (i + 1)" using False kb by simp
    moreover have "b + n - 32 < 32" using n w kb by simp
    ultimately have "(k + n) div 32 = i + 1" "(k + n) mod 32 = b + n - 32"
      by (simp_all only: div_mult_self2 mod_mult_self2) simp_all
    moreover have "32 - b < ?w" "n < 32" "n - (32 - b) = b + n - 32" using False n w kb by simp_all
    moreover have "\<not> bit (tmap ! i) (b + n)" using False bit_imp_le_length [of "tmap ! i" "b + n"] by auto
    ultimately show ?thesis using False
      by (auto simp: raw_def Let_def map_bit_def bit_or_iff bit_push_bit_iff bit_drop_bit_eq algebra_simps)
  qed
  show ?thesis
    unfolding base using raw [of "m - ?g"] w(2)
    by (auto simp: bit_push_bit_iff bit_and_iff bit_mask_iff)
qed

lemma same_entry:
  fixes p q w m :: nat
  assumes "m < w"
  shows "p * w \<le> q * w + m \<and> q * w + m < p * w + w \<longleftrightarrow> p = q"
proof -
  have "(q * w + m) div w = q" using assms by simp
  moreover have "p * w \<le> x \<and> x < p * w + w \<longleftrightarrow> x div w = p" for x
    using assms by (metis add.commute div_nat_eqI div_times_less_eq_dividend dividend_less_div_times mult.commute mult_Suc
      gr_implies_not0 not_gr_zero)
  ultimately show ?thesis by auto
qed

lemma entry_in_map:
  fixes pos :: u32
  assumes g: "tnode_geometry dev" and "m < tnode_width dev"
  shows "unat (pos AND 0xf) * tnode_width dev + m < 32 * (tnode_size dev div 4)"
proof -
  obtain h where h: "tnode_width dev = 2 * h" using g by (auto simp: tnode_geometry_def)
  have "unat (pos AND 0xf) < 16" using word_and_le1 [of pos "0xf"] by (simp add: word_le_nat_alt)
  then have "unat (pos AND 0xf) * tnode_width dev + tnode_width dev \<le> 32 * h" by (simp add: h)
  also have "\<dots> \<le> 32 * (tnode_size dev div 4)" using g h by (simp add: tnode_geometry_def)
  finally show ?thesis using assms(2) by linarith
qed

lemma group_base_zero:
  assumes "tnode_geometry dev" "tnode_size dev div 4 \<le> n"
  shows "yaffs_get_group_base dev (replicate n 0) pos = 0"
proof (rule bit_word_eqI)
  fix m :: nat assume "m < LENGTH(32)"
  have "\<not> map_bit (replicate n 0) (unat (pos AND 0xf) * tnode_width dev + i)" if "i < tnode_width dev" for i
    using entry_in_map [OF assms(1) that, of pos] assms(2) by (simp add: map_bit_def less_mult_imp_div_less mult.commute)
  then show "bit (yaffs_get_group_base dev (replicate n 0) pos) m = bit 0 m"
    using bit_group_entry [OF assms(1) _ refl, of "replicate n 0" pos m] assms(2) by auto
qed

lemma group_base_load:
  assumes g: "tnode_geometry dev" and len: "tnode_size dev div 4 \<le> length tmap"
    and fits: "take_bit (tnode_width dev) (drop_bit (chunk_grp_bits dev) val) = drop_bit (chunk_grp_bits dev) val"
  shows "yaffs_get_group_base dev (yaffs_load_tnode_0 dev tmap pos val) pos' =
    (if pos' AND 0xf = pos AND 0xf then push_bit (chunk_grp_bits dev) (drop_bit (chunk_grp_bits dev) val)
     else yaffs_get_group_base dev tmap pos')"
proof (rule bit_word_eqI)
  fix m :: nat assume m: "m < LENGTH(32)"
  let ?w = "tnode_width dev" and ?g = "chunk_grp_bits dev"
  let ?p = "unat (pos AND 0xf)" and ?p' = "unat (pos' AND 0xf)"
  let ?tmap = "yaffs_load_tnode_0 dev tmap pos val"
  have len': "length ?tmap = length tmap" by (simp add: yaffs_load_tnode_0_def Let_def)
  have p: "?p < 16" "?p' < 16"
    using word_and_le1 [of pos "0xf"] word_and_le1 [of pos' "0xf"] by (simp_all add: word_le_nat_alt)
  note entry' = bit_group_entry [OF g _ refl, of _ pos' m]
  show "bit (yaffs_get_group_base dev ?tmap pos') m =
    bit (if pos' AND 0xf = pos AND 0xf then push_bit ?g (drop_bit ?g val) else yaffs_get_group_base dev tmap pos') m"
  proof (cases "?g \<le> m \<and> m - ?g < ?w")
    case False
    then have "?g \<le> m \<Longrightarrow> \<not> bit (drop_bit ?g val) (m - ?g)"
      by (subst fits [symmetric]) (simp add: bit_take_bit_iff)
    then show ?thesis using False len len' entry' by (auto simp: bit_push_bit_iff)
  next
    case True
    let ?j = "?p' * ?w + (m - ?g)"
    have j: "?j < 32 * length tmap" using entry_in_map [OF g, of "m - ?g" pos'] True len by linarith
    have "?p * ?w \<le> ?j \<and> ?j < ?p * ?w + ?w \<longleftrightarrow> ?p = ?p'" using True by (intro same_entry) simp
    moreover have "?p = ?p' \<longleftrightarrow> pos' AND 0xf = pos AND 0xf" by (auto simp: word_unat_eq_iff)
    ultimately have "?p * ?w \<le> ?j \<and> ?j < ?p * ?w + ?w \<longleftrightarrow> pos' AND 0xf = pos AND 0xf"
      "pos' AND 0xf = pos AND 0xf \<Longrightarrow> ?j - ?p * ?w = m - ?g" by simp_all
    then show ?thesis
      using True m len len' entry' map_bit_load [OF g len j refl, of pos val]
      by (auto simp: bit_push_bit_iff)
  qed
qed

text \<open>Writing an entry of a level 0 node and reading it back gives the value, rounded down to its
  chunk group; the other fifteen entries keep theirs, also where an entry crosses a word.\<close>

theorem get_group_base_load_tnode_0:
  assumes g: "tnode_geometry dev" and len: "tnode_size dev div 4 \<le> length tmap"
    and fits: "take_bit (tnode_width dev) (drop_bit (chunk_grp_bits dev) val) = drop_bit (chunk_grp_bits dev) val"
  shows "yaffs_get_group_base dev (yaffs_load_tnode_0 dev tmap pos val) pos' =
    (if pos' AND 0xf = pos AND 0xf then push_bit (chunk_grp_bits dev) (drop_bit (chunk_grp_bits dev) val)
     else yaffs_get_group_base dev tmap pos')"
  by (rule group_base_load [OF assms])

end
