(* ===== verification/Yaffs_File.thy ===== *)
theory Yaffs_File
  imports Yaffs_Tnode Yaffs_Alloc
begin

text \<open>
  The chunks of a file (yaffs_guts.c): the sizes the device is set up with, the position of an
  address, entering, finding and dropping a chunk in the look-up tree, soft deletion, and the
  pruning of chunks and of the tree when a file shrinks. The object is a record of its own next to
  the device; only the variant that its type selects is ever used.
\<close>

record yaffs_obj =
  deleted :: bool
  soft_del :: bool
  unlinked :: bool
  fake :: bool
  rename_allowed :: bool
  unlink_allowed :: bool
  obj_dirty :: bool
  obj_valid :: bool
  lazy_loaded :: bool
  defered_free :: bool
  being_created :: bool
  is_shadowed :: bool
  xattr_known :: bool
  has_xattr :: bool
  serial :: u8
  name_sum :: u16
  hdr_chunk :: int
  n_data_chunks :: int
  obj_number :: u32
  yst_mode :: u32
  yst_uid :: u32
  yst_gid :: u32
  yst_atime :: u32
  yst_mtime :: u32
  yst_ctime :: u32
  yst_rdev :: u32
  variant_type :: u32
  file_variant :: yaffs_file_var
  equiv_id :: u32

section \<open>Sizes\<close>

fun shifts_ceiling_loop :: "nat \<Rightarrow> u32 \<Rightarrow> nat \<Rightarrow> nat \<Rightarrow> nat" where
  "shifts_ceiling_loop 0 x extra_bits shifts = (if extra_bits \<noteq> 0 then shifts + 1 else shifts)"
| "shifts_ceiling_loop (Suc k) x extra_bits shifts =
     (if x > 1 then shifts_ceiling_loop k (drop_bit 1 x) (if x AND 1 \<noteq> 0 then extra_bits + 1 else extra_bits) (shifts + 1)
      else if extra_bits \<noteq> 0 then shifts + 1 else shifts)"

text \<open>A word has 32 bits, so 32 turns are enough for either loop.\<close>

definition calc_shifts_ceiling :: "u32 \<Rightarrow> nat" where
  "calc_shifts_ceiling x = shifts_ceiling_loop 32 x 0 0"

fun shifts_loop :: "nat \<Rightarrow> u32 \<Rightarrow> nat \<Rightarrow> nat" where
  "shifts_loop 0 x shifts = shifts"
| "shifts_loop (Suc k) x shifts = (if x AND 1 = 0 then shifts_loop k (drop_bit 1 x) (shifts + 1) else shifts)"

definition calc_shifts :: "u32 \<Rightarrow> nat" where
  "calc_shifts x = (if x = 0 then 0 else shifts_loop 32 x 0)"

text \<open>How many bits a chunk number of the device takes.\<close>

definition chunk_number_bits :: "('n, 'x) yaffs_dev_scheme \<Rightarrow> nat" where
  "chunk_number_bits dev = calc_shifts_ceiling (word_of_int (cpb dev * (internal_end_block dev + 1)))"

text \<open>The part of \<open>yaffs_guts_initialise\<close> that computes the sizes; \<open>sizeof(struct yaffs_tnode)\<close> is
  eight pointers of four bytes.\<close>

definition init_chunk_numbers :: "('n, 'x) yaffs_dev_scheme \<Rightarrow> ('n, 'x) yaffs_dev_scheme" where
  "init_chunk_numbers dev =
     (let x = word_of_nat (data_bytes_per_chunk dev) :: u32;
          shift = calc_shifts x
      in dev\<lparr>chunk_shift := shift, chunk_div := drop_bit shift x, chunk_mask := push_bit shift 1 - 1\<rparr>)"

definition init_tnode_numbers :: "('n, 'x) yaffs_dev_scheme \<Rightarrow> ('n, 'x) yaffs_dev_scheme" where
  "init_tnode_numbers dev =
     (let bits = chunk_number_bits dev;
          wide = (\<not> wide_tnodes_disabled (param dev));
          bits = (if wide \<and> odd bits then bits + 1 else bits);
          width = (if wide then if bits < 16 then 16 else bits else 16);
          grp_bits = (if bits \<le> width then 0 else bits - width);
          tsize = width * 16 div 8;
          tsize = (if tsize < 32 then 32 else tsize)
      in dev\<lparr>tnode_width := width, tnode_mask := push_bit width 1 - 1, chunk_grp_bits := grp_bits,
           tnode_size := tsize, chunk_grp_size := 2 ^ grp_bits\<rparr>)"

definition init_sizes :: "('n, 'x) yaffs_dev_scheme \<Rightarrow> int \<times> ('n, 'x) yaffs_dev_scheme" where
  "init_sizes dev =
     (let dev = init_tnode_numbers (init_chunk_numbers dev)
      in if cpb dev < int (chunk_grp_size dev) then (YAFFS_FAIL, dev) else (YAFFS_OK, dev))"

text \<open>The chunk and the offset of an address.\<close>

definition yaffs_addr_to_chunk :: "('n, 'x) yaffs_dev_scheme \<Rightarrow> u32 \<Rightarrow> int \<times> u32" where
  "yaffs_addr_to_chunk dev addr =
     (let chunk = drop_bit (chunk_shift dev) addr
      in if chunk_div dev = 1 then (sint chunk, addr AND chunk_mask dev)
         else
          (let chunk = chunk div chunk_div dev;
               chunk_base = chunk * word_of_nat (data_bytes_per_chunk dev)
           in (sint chunk, addr - chunk_base)))"

section \<open>Finding chunks\<close>

definition yaffs_tags_match :: "yaffs_ext_tags \<Rightarrow> u32 \<Rightarrow> int \<Rightarrow> bool" where
  "yaffs_tags_match tags obj chunk_obj \<longleftrightarrow>
     chunk_id tags = word_of_int chunk_obj \<and> obj_id tags = obj \<and> is_deleted tags = 0"

fun find_in_group ::
  "nat \<Rightarrow> ('n, 'x) yaffs_dev_scheme \<Rightarrow> int \<Rightarrow> yaffs_ext_tags \<Rightarrow> u32 \<Rightarrow> int \<Rightarrow>
   int \<times> yaffs_ext_tags \<times> ('n, 'x) yaffs_dev_scheme" where
  "find_in_group 0 dev the_chunk tags obj inode_chunk = (-1, tags, dev)"
| "find_in_group (Suc j) dev the_chunk tags obj inode_chunk =
     (if the_chunk = 0 then (-1, tags, dev)
      else if yaffs_check_chunk_bit dev (the_chunk div cpb dev) (the_chunk mod cpb dev) then
        if chunk_grp_size dev = 1 then (the_chunk, tags, dev)
        else
         (let (result, buffer, tags, dev) = yaffs_rd_chunk_tags_nand dev the_chunk False
          in if yaffs_tags_match tags obj inode_chunk then (the_chunk, tags, dev)
             else find_in_group j dev (the_chunk + 1) tags obj inode_chunk)
      else find_in_group j dev (the_chunk + 1) tags obj inode_chunk)"

definition yaffs_find_chunk_in_group ::
  "('n, 'x) yaffs_dev_scheme \<Rightarrow> int \<Rightarrow> yaffs_ext_tags \<Rightarrow> u32 \<Rightarrow> int \<Rightarrow>
   int \<times> yaffs_ext_tags \<times> ('n, 'x) yaffs_dev_scheme" where
  "yaffs_find_chunk_in_group dev the_chunk tags obj inode_chunk =
     find_in_group (chunk_grp_size dev) dev the_chunk tags obj inode_chunk"

definition yaffs_find_chunk_in_file ::
  "('n, 'x) yaffs_dev_scheme \<Rightarrow> yaffs_obj \<Rightarrow> int \<Rightarrow> yaffs_ext_tags \<Rightarrow>
   int \<times> yaffs_ext_tags \<times> ('n, 'x) yaffs_dev_scheme" where
  "yaffs_find_chunk_in_file dev obj inode_chunk tags =
     (case yaffs_find_tnode_0 (file_variant obj) (word_of_int inode_chunk) of
        None \<Rightarrow> (-1, tags, dev)
      | Some tn \<Rightarrow>
          (let the_chunk = sint (yaffs_get_group_base dev (tnode_map tn) (word_of_int inode_chunk))
           in yaffs_find_chunk_in_group dev the_chunk tags (obj_number obj) inode_chunk))"

text \<open>A write into the level 0 node of a chunk.\<close>

definition load_entry :: "('n, 'x) yaffs_dev_scheme \<Rightarrow> yaffs_file_var \<Rightarrow> yaffs_tnode \<Rightarrow> u32 \<Rightarrow> u32 \<Rightarrow> yaffs_file_var" where
  "load_entry dev file_struct tn pos val =
     set_tnode_0 file_struct pos (yaffs_load_tnode_0 dev (tnode_map tn) pos val)"

definition yaffs_find_del_file_chunk ::
  "('n, 'x) yaffs_dev_scheme \<Rightarrow> yaffs_obj \<Rightarrow> int \<Rightarrow> yaffs_ext_tags \<Rightarrow>
   int \<times> yaffs_ext_tags \<times> yaffs_obj \<times> ('n, 'x) yaffs_dev_scheme" where
  "yaffs_find_del_file_chunk dev obj inode_chunk tags =
     (case yaffs_find_tnode_0 (file_variant obj) (word_of_int inode_chunk) of
        None \<Rightarrow> (-1, tags, obj, dev)
      | Some tn \<Rightarrow>
          (let the_chunk = sint (yaffs_get_group_base dev (tnode_map tn) (word_of_int inode_chunk));
               (ret_val, tags, dev) = yaffs_find_chunk_in_group dev the_chunk tags (obj_number obj) inode_chunk;
               obj = (if ret_val \<noteq> -1
                      then obj\<lparr>file_variant := load_entry dev (file_variant obj) tn (word_of_int inode_chunk) 0\<rparr>
                      else obj)
           in (ret_val, tags, obj, dev)))"

section \<open>Entering a chunk\<close>

definition yaffs_put_chunk_in_file ::
  "('n, 'x) yaffs_mem_dev_scheme \<Rightarrow> yaffs_obj \<Rightarrow> int \<Rightarrow> int \<Rightarrow> int \<Rightarrow>
   int \<times> yaffs_obj \<times> ('n, 'x) yaffs_mem_dev_scheme" where
  "yaffs_put_chunk_in_file dev obj inode_chunk nand_chunk in_scan =
     (if variant_type obj \<noteq> YAFFS_OBJECT_TYPE_FILE then (YAFFS_OK, obj, yaffs_chunk_del dev nand_chunk True)
      else
       (let (found, file_struct, dev) = yaffs_add_find_tnode_0 dev (file_variant obj) (word_of_int inode_chunk) None;
            obj = obj\<lparr>file_variant := file_struct\<rparr>
        in case found of None \<Rightarrow> (YAFFS_FAIL, obj, dev)
           | Some tn \<Rightarrow>
               if nand_chunk = 0 then (YAFFS_OK, obj, dev)
               else
                (let existing_cunk = sint (yaffs_get_group_base dev (tnode_map tn) (word_of_int inode_chunk));
                     (use_new, existing_cunk, dev) =
                       (if in_scan \<noteq> 0 \<and> existing_cunk > 0 then
                          (let (new_tags, existing_tags, existing_cunk, dev) =
                             (if in_scan > 0 then
                                (let (_, _, new_tags, dev) = yaffs_rd_chunk_tags_nand dev nand_chunk False;
                                     (existing_cunk, existing_tags, dev) =
                                       yaffs_find_chunk_in_file dev obj inode_chunk (uninit_tags dev)
                                 in (new_tags, existing_tags, existing_cunk, dev))
                              else (zero_tags, zero_tags, existing_cunk, dev))
                           in if in_scan > 0 \<and> (existing_cunk \<le> 0 \<or>
                                  (serial_number existing_tags + 1) AND 3 = serial_number new_tags)
                              then (True, existing_cunk, yaffs_chunk_del dev existing_cunk True)
                              else (False, existing_cunk, yaffs_chunk_del dev nand_chunk True))
                        else (True, existing_cunk, dev))
                 in if \<not> use_new then (YAFFS_OK, obj, dev)
                    else
                     (let obj = (if existing_cunk = 0 then obj\<lparr>n_data_chunks := n_data_chunks obj + 1\<rparr> else obj)
                      in (YAFFS_OK,
                          obj\<lparr>file_variant := load_entry dev (file_variant obj) tn (word_of_int inode_chunk)
                                (word_of_int nand_chunk)\<rparr>,
                          dev)))))"

section \<open>Soft deletion\<close>

definition yaffs_soft_del_chunk :: "('n, 'x) yaffs_dev_scheme \<Rightarrow> int \<Rightarrow> ('n, 'x) yaffs_dev_scheme" where
  "yaffs_soft_del_chunk dev chunk =
     (let block_no = chunk div cpb dev;
          dev = upd_block_info dev block_no (\<lambda>bi. bi\<lparr>soft_del_pages := s10 (soft_del_pages bi + 1)\<rparr>);
          dev = dev\<lparr>n_free_chunks := n_free_chunks dev + 1\<rparr>
      in yaffs2_update_oldest_dirty_seq dev block_no (yaffs_get_block_info dev block_no))"

definition soft_del_entry ::
  "u32 \<Rightarrow> u32 list \<times> ('n, 'x) yaffs_dev_scheme \<Rightarrow> u32 list \<times> ('n, 'x) yaffs_dev_scheme" where
  "soft_del_entry i = (\<lambda>(tmap, dev).
     let the_chunk = sint (yaffs_get_group_base dev tmap i)
     in if the_chunk \<noteq> 0 then
          (let dev = yaffs_soft_del_chunk dev the_chunk in (yaffs_load_tnode_0 dev tmap i 0, dev))
        else (tmap, dev))"

text \<open>The recursion returns whether all was done, which it always is; the offset of the chunks is
  only handed down. A node that is done is given back to the allocator by its parent.\<close>

fun yaffs_soft_del_worker ::
  "nat \<Rightarrow> ('n, 'x) yaffs_mem_dev_scheme \<Rightarrow> yaffs_tnode option \<Rightarrow>
   bool \<times> yaffs_tnode option \<times> ('n, 'x) yaffs_mem_dev_scheme" where
  "yaffs_soft_del_worker level dev None = (True, None, dev)"
| "yaffs_soft_del_worker 0 dev (Some tn) =
     (let (tmap, dev) = fold soft_del_entry (map word_of_nat (rev [0..<16])) (tnode_map tn, dev)
      in (True, Some (Level0 (tnode_addr tn) tmap), dev))"
| "yaffs_soft_del_worker (Suc l) dev (Some tn) =
     (let (all_done, ts, dev) =
        fold (\<lambda>i (all_done, ts, dev).
            if \<not> all_done \<or> ts ! i = None then (all_done, ts, dev)
            else (let (child_done, child, dev) = yaffs_soft_del_worker l dev (ts ! i)
                  in if child_done
                     then (True, ts[i := None],
                           case child of None \<Rightarrow> dev | Some c \<Rightarrow> yaffs_free_tnode dev (tnode_addr c))
                     else (False, ts[i := child], dev)))
          (rev [0..<8]) (True, internal_nodes tn, dev)
      in (all_done, Some (Internal (tnode_addr tn) ts), dev))"

section \<open>Shrinking\<close>

text \<open>\<open>i == 0>0\<close> is \<open>i == (0>0)\<close>, that is \<open>i == 0\<close>: the flag handed to child 0 is that of the
  node, every other child gets 0.\<close>

fun yaffs_prune_worker ::
  "nat \<Rightarrow> bool \<Rightarrow> ('n, 'x) yaffs_mem_dev_scheme \<Rightarrow> yaffs_tnode option \<Rightarrow>
   yaffs_tnode option \<times> ('n, 'x) yaffs_mem_dev_scheme" where
  "yaffs_prune_worker level del0 dev None = (None, dev)"
| "yaffs_prune_worker 0 del0 dev (Some tn) =
     (let has_data = list_ex (\<lambda>w. w \<noteq> 0) (take (tnode_size dev div 4) (tnode_map tn))
      in if \<not> has_data \<and> del0 then (None, yaffs_free_tnode dev (tnode_addr tn)) else (Some tn, dev))"
| "yaffs_prune_worker (Suc l) del0 dev (Some tn) =
     (let (has_data, ts, dev) =
        fold (\<lambda>i (has_data, ts, dev).
            let (child, dev) = (if ts ! i \<noteq> None then yaffs_prune_worker l (if i = 0 then del0 else False) dev (ts ! i)
                                else (None, dev));
                ts = ts[i := child]
            in (has_data \<or> child \<noteq> None, ts, dev))
          [0..<8] (False, internal_nodes tn, dev);
        tn = Internal (tnode_addr tn) ts
      in if \<not> has_data \<and> del0 then (None, yaffs_free_tnode dev (tnode_addr tn)) else (Some tn, dev))"

text \<open>The tree gets lower while only child 0 of its top is there.\<close>

fun lower_tree :: "nat \<Rightarrow> ('n, 'x) yaffs_mem_dev_scheme \<Rightarrow> yaffs_tnode option \<Rightarrow>
   nat \<times> yaffs_tnode option \<times> ('n, 'x) yaffs_mem_dev_scheme" where
  "lower_tree 0 dev tn = (0, tn, dev)"
| "lower_tree (Suc l) dev tn =
     (case tn of None \<Rightarrow> (Suc l, None, dev)
      | Some t \<Rightarrow>
          if list_ex (\<lambda>c. c \<noteq> None) (drop 1 (internal_nodes t)) then (Suc l, tn, dev)
          else lower_tree l (yaffs_free_tnode dev (tnode_addr t)) (internal_nodes t ! 0))"

definition yaffs_prune_tree ::
  "('n, 'x) yaffs_mem_dev_scheme \<Rightarrow> yaffs_file_var \<Rightarrow> int \<times> yaffs_file_var \<times> ('n, 'x) yaffs_mem_dev_scheme" where
  "yaffs_prune_tree dev file_struct =
     (if top_level file_struct < 1 then (YAFFS_OK, file_struct, dev)
      else
       (let (tn, dev) = yaffs_prune_worker (nat (top_level file_struct)) False dev (top file_struct);
            (level, tn, dev) = lower_tree (nat (top_level file_struct)) dev tn
        in (YAFFS_OK, file_struct\<lparr>top := tn, top_level := int level\<rparr>, dev)))"

definition prune_chunk ::
  "int \<Rightarrow> yaffs_obj \<times> ('n, 'x) yaffs_dev_scheme \<Rightarrow> yaffs_obj \<times> ('n, 'x) yaffs_dev_scheme" where
  "prune_chunk i = (\<lambda>(obj, dev).
     let (chunk, _, obj, dev) = yaffs_find_del_file_chunk dev obj i zero_tags
     in if chunk < 1 then (obj, dev)
        else if chunk < internal_start_block dev * cpb dev \<or> chunk \<ge> (internal_end_block dev + 1) * cpb dev
        then (obj, dev)
        else (obj\<lparr>n_data_chunks := n_data_chunks obj - 1\<rparr>, yaffs_chunk_del dev chunk True))"

definition yaffs_prune_chunks ::
  "('n, 'x) yaffs_dev_scheme \<Rightarrow> yaffs_obj \<Rightarrow> u32 \<Rightarrow> yaffs_obj \<times> ('n, 'x) yaffs_dev_scheme" where
  "yaffs_prune_chunks dev obj new_size =
     (let old_size = file_size (file_variant obj);
          last_del = (if old_size > 0 then fst (yaffs_addr_to_chunk dev (old_size - 1)) else 0);
          start_del = fst (yaffs_addr_to_chunk dev (new_size + word_of_nat (data_bytes_per_chunk dev) - 1))
      in fold prune_chunk (rev [start_del + 1..last_del + 1]) (obj, dev))"

end
