(* ===== verification/Yaffs_FileMap.thy ===== *)
theory Yaffs_FileMap
  imports Yaffs_File
begin

text \<open>
  The look-up tree as a map: what a file's tree says of a chunk is \<open>chunk_entry\<close>, and the
  operations on trees are shown to be the operations on that map, whatever the height of the tree
  and however often the memory for a new node runs out. A chunk number is seen as a number to the
  base eight above its lowest four bits; the digits are the way down.
\<close>

section \<open>The way down\<close>

abbreviation leaf_no :: "u32 \<Rightarrow> nat" where
  "leaf_no chunk \<equiv> unat chunk div 16"

lemma child_index_digit: "child_index chunk l = (leaf_no chunk div 8 ^ l) mod 8"
proof -
  have "drop_bit (4 + l * 3) (unat chunk) = leaf_no chunk div 8 ^ l"
    by (simp add: drop_bit_eq_div power_add power_mult mult.commute [of l] div_mult2_eq)
  moreover have "unat (w AND (7 :: u32)) = unat w mod 8" for w
  proof -
    have "w AND 7 = w mod 8" using take_bit_eq_mask [of 3 w] by (simp add: mask_eq_exp_minus_1 take_bit_eq_mod)
    then show ?thesis by (simp add: unat_mod)
  qed
  moreover have "take_bit 32 (unat chunk) = unat chunk"
    using unsigned_less [of chunk] by (intro take_bit_nat_eq_self) simp
  ultimately show ?thesis by (simp add: child_index_def unsigned_drop_bit_eq)
qed

lemma child_index_less [simp]: "child_index chunk l < 8"
  by (simp add: child_index_digit)

lemma same_path:
  "(\<forall>i<l. child_index c i = child_index c' i) \<longleftrightarrow> leaf_no c mod 8 ^ l = leaf_no c' mod 8 ^ l"
proof (induction l)
  case (Suc l)
  have split: "n mod 8 ^ Suc l = 8 ^ l * (n div 8 ^ l mod 8) + n mod 8 ^ l" for n :: nat
    by (simp add: mod_mult2_eq mult.commute [of 8])
  have "n mod 8 ^ Suc l = n' mod 8 ^ Suc l \<longleftrightarrow> n div 8 ^ l mod 8 = n' div 8 ^ l mod 8 \<and> n mod 8 ^ l = n' mod 8 ^ l"
    for n n' :: nat
  proof
    assume eq: "n mod 8 ^ Suc l = n' mod 8 ^ Suc l"
    then have "n mod 8 ^ Suc l mod 8 ^ l = n' mod 8 ^ Suc l mod 8 ^ l" by simp
    then have "n mod 8 ^ l = n' mod 8 ^ l" by (simp add: mod_mod_cancel)
    then show "n div 8 ^ l mod 8 = n' div 8 ^ l mod 8 \<and> n mod 8 ^ l = n' mod 8 ^ l"
      using eq unfolding split by simp
  qed (simp only: split)
  then show ?case using Suc by (auto simp: less_Suc_eq all_conj_distrib child_index_digit)
qed simp

lemma required_depth_nonneg: "0 \<le> required_depth i"
proof (induction i rule: required_depth.induct)
  case (1 i)
  then show ?case by (simp add: required_depth.simps [of i])
qed

lemma required_depth_le: "required_depth i \<le> int l \<longleftrightarrow> unat i < 8 ^ l"
proof (induction l arbitrary: i)
  case 0
  show ?case
    using required_depth_nonneg [of "drop_bit 3 i"] by (simp add: required_depth.simps [of i] unat_eq_0)
next
  case (Suc l)
  have "unat (drop_bit 3 i) = unat i div 8" by (simp add: drop_bit_eq_div unat_div)
  then show ?case using Suc [of "drop_bit 3 i"]
    by (simp add: required_depth.simps [of i] div_less_iff_less_mult algebra_simps)
qed

lemma leaf_no_drop: "unat (drop_bit 4 chunk :: u32) = leaf_no chunk"
  by (simp add: drop_bit_eq_div unat_div)

lemma max_chunk_leaf: "chunk \<le> YAFFS_MAX_CHUNK_ID \<Longrightarrow> leaf_no chunk < 8 ^ 8"
  by (simp add: YAFFS_MAX_CHUNK_ID_def word_le_nat_alt)

lemma same_leaf_entry: "leaf_no c = leaf_no c' \<Longrightarrow> c AND 0xf = c' AND 0xf \<Longrightarrow> c = c'"
proof -
  have m: "unat (w AND (0xf :: u32)) = unat w mod 16" for w
  proof -
    have "w AND 0xf = w mod 16" using take_bit_eq_mask [of 4 w] by (simp add: mask_eq_exp_minus_1 take_bit_eq_mod)
    then show ?thesis by (simp add: unat_mod)
  qed
  assume "leaf_no c = leaf_no c'" "c AND 0xf = c' AND 0xf"
  then have "unat c div 16 = unat c' div 16" "unat c mod 16 = unat c' mod 16" by (simp_all flip: m)
  then have "unat c = unat c'" by (metis div_mult_mod_eq)
  then show "c = c'" by (simp add: word_unat_eq_iff)
qed

section \<open>Trees\<close>

text \<open>A tree of a level, its level 0 nodes having \<open>n\<close> words.\<close>

fun tree_ok :: "nat \<Rightarrow> nat \<Rightarrow> yaffs_tnode \<Rightarrow> bool" where
  "tree_ok n 0 tn = (case tn of Level0 a ws \<Rightarrow> length ws = n | Internal a ts \<Rightarrow> False)"
| "tree_ok n (Suc l) tn = (case tn of Level0 a ws \<Rightarrow> False
     | Internal a ts \<Rightarrow> length ts = 8 \<and> list_all (\<lambda>c. case c of None \<Rightarrow> True | Some t \<Rightarrow> tree_ok n l t) ts)"

lemma tree_ok_0: "tree_ok n 0 tn \<longleftrightarrow> (\<exists>a ws. tn = Level0 a ws \<and> length ws = n)"
  by (cases tn) auto

lemma tree_ok_Suc: "tree_ok n (Suc l) tn \<longleftrightarrow> (\<exists>a ts. tn = Internal a ts \<and> length ts = 8 \<and>
    (\<forall>i<8. \<forall>t. ts ! i = Some t \<longrightarrow> tree_ok n l t))"
  by (cases tn) (auto simp: list_all_length split: option.splits)

lemma tree_ok_update:
  assumes "tree_ok n (Suc l) tn" "x < 8" "\<And>t. c = Some t \<Longrightarrow> tree_ok n l t"
  shows "tree_ok n (Suc l) (Internal a ((internal_nodes tn)[x := c]))"
proof -
  obtain b ts where ts: "tn = Internal b ts" "length ts = 8" "\<And>i t. i < 8 \<Longrightarrow> ts ! i = Some t \<Longrightarrow> tree_ok n l t"
    using assms(1) by (auto simp: tree_ok_Suc simp del: tree_ok.simps)
  then show ?thesis using assms(2,3)
    by (auto simp: tree_ok_Suc nth_list_update simp del: tree_ok.simps split: if_splits)
qed

lemma tree_ok_child:
  "tree_ok n (Suc l) tn \<Longrightarrow> x < 8 \<Longrightarrow> internal_nodes tn ! x = Some t \<Longrightarrow> tree_ok n l t"
  by (auto simp: tree_ok_Suc simp del: tree_ok.simps)

lemma internal_length: "tree_ok n (Suc l) tn \<Longrightarrow> length (internal_nodes tn) = 8"
  by (auto simp: tree_ok_Suc simp del: tree_ok.simps)

declare tree_ok.simps [simp del]

lemma find_down_None [simp]: "find_down l c None = None"
  by (cases l) auto

lemma find_down_ok: "tree_ok n l t \<Longrightarrow> find_down l c (Some t) = Some s \<Longrightarrow> tree_ok n 0 s"
proof (induction l arbitrary: t)
  case (Suc l)
  then show ?case using tree_ok_child [OF Suc.prems(1), of "child_index c l"]
    by (cases "internal_nodes t ! child_index c l") auto
qed simp

lemma set_down_ok: "tree_ok n l t \<Longrightarrow> length ws = n \<Longrightarrow> tree_ok n l (set_down l c ws t)"
proof (induction l arbitrary: t)
  case (Suc l)
  show ?case
    unfolding set_down.simps Let_def
    by (rule tree_ok_update [OF Suc.prems(1)])
      (auto intro: Suc.IH Suc.prems(2) tree_ok_child [OF Suc.prems(1) child_index_less])
qed (simp add: tree_ok_0)

lemma find_down_path: "\<forall>i<l. child_index c i = child_index c' i \<Longrightarrow> find_down l c tn = find_down l c' tn"
  by (induction l arbitrary: tn) (auto split: option.split)

lemma find_set_down_path:
  "tree_ok n l t \<Longrightarrow> find_down l c' (Some (set_down l c ws t)) =
     (if \<forall>i<l. child_index c i = child_index c' i
      then map_option (\<lambda>s. Level0 (tnode_addr s) ws) (find_down l c (Some t))
      else find_down l c' (Some t))"
proof (induction l arbitrary: t)
  case (Suc l)
  let ?x = "child_index c l" and ?x' = "child_index c' l"
  let ?child = "internal_nodes t ! ?x"
  have len: "length (internal_nodes t) = 8" by (rule internal_length [OF Suc.prems])
  show ?case
  proof (cases "?x = ?x'")
    case True
    show ?thesis
    proof (cases ?child)
      case None
      then show ?thesis using True len by (simp add: Let_def)
    next
      case (Some s)
      then show ?thesis using True len Suc.IH [OF tree_ok_child [OF Suc.prems _ Some]]
        by (auto simp: Let_def less_Suc_eq)
    qed
  next
    case False
    then show ?thesis by (auto simp: Let_def)
  qed
qed simp

lemma find_set_down:
  "tree_ok n l t \<Longrightarrow> find_down l c' (Some (set_down l c ws t)) =
     (if leaf_no c mod 8 ^ l = leaf_no c' mod 8 ^ l
      then map_option (\<lambda>s. Level0 (tnode_addr s) ws) (find_down l c (Some t))
      else find_down l c' (Some t))"
  by (simp add: find_set_down_path same_path)

section \<open>The map of a tree\<close>

text \<open>What the trees depend on in the device.\<close>

definition sizes :: "('n, 'x) yaffs_dev_scheme \<Rightarrow> _" where
  "sizes dev = (tnode_width dev, tnode_mask dev, tnode_size dev, chunk_grp_bits dev)"

abbreviation map_words :: "('n, 'x) yaffs_dev_scheme \<Rightarrow> nat" where
  "map_words dev \<equiv> tnode_size dev div 4"

lemma group_base_sizes: "sizes d = sizes dev \<Longrightarrow> yaffs_get_group_base d = yaffs_get_group_base dev"
  by (simp add: sizes_def yaffs_get_group_base_def fun_eq_iff)

lemma load_sizes: "sizes d = sizes dev \<Longrightarrow> yaffs_load_tnode_0 d = yaffs_load_tnode_0 dev"
  by (simp add: sizes_def yaffs_load_tnode_0_def fun_eq_iff Let_def)

lemma geometry_sizes: "sizes d = sizes dev \<Longrightarrow> tnode_geometry d = tnode_geometry dev"
  by (simp add: sizes_def tnode_geometry_def)

lemma sizes_create: "sizes (snd (yaffs_create_tnodes dev n)) = sizes dev"
  by (simp add: yaffs_create_tnodes_def kmalloc_def Let_def sizes_def split: option.split)

lemma sizes_get_tnode [simp]: "sizes (snd (yaffs_get_tnode dev)) = sizes dev"
  using sizes_create [of dev YAFFS_ALLOCATION_NTNODES]
  by (auto simp: yaffs_get_tnode_def yaffs_alloc_raw_tnode_def Let_def sizes_def
      split: option.split list.split prod.split)

lemma sizes_free_tnode [simp]: "sizes (yaffs_free_tnode dev a) = sizes dev"
  by (simp add: yaffs_free_tnode_def yaffs_free_raw_tnode_def Let_def sizes_def split: option.split)

lemma get_tnode_sizes: "yaffs_get_tnode dev = (r, d) \<Longrightarrow> sizes d = sizes dev"
  using sizes_get_tnode [of dev] by simp

definition leaf_entry :: "('n, 'x) yaffs_dev_scheme \<Rightarrow> u32 \<Rightarrow> yaffs_tnode option \<Rightarrow> u32" where
  "leaf_entry dev c tn = (case tn of None \<Rightarrow> 0 | Some t \<Rightarrow> yaffs_get_group_base dev (tnode_map t) c)"

abbreviation tree_entry :: "('n, 'x) yaffs_dev_scheme \<Rightarrow> nat \<Rightarrow> u32 \<Rightarrow> yaffs_tnode option \<Rightarrow> u32" where
  "tree_entry dev l c tn \<equiv> leaf_entry dev c (find_down l c tn)"

text \<open>The entry of a chunk in a file, 0 where there is none.\<close>

definition chunk_entry :: "('n, 'x) yaffs_dev_scheme \<Rightarrow> yaffs_file_var \<Rightarrow> u32 \<Rightarrow> u32" where
  "chunk_entry dev f c = leaf_entry dev c (yaffs_find_tnode_0 f c)"

definition file_ok :: "('n, 'x) yaffs_dev_scheme \<Rightarrow> yaffs_file_var \<Rightarrow> bool" where
  "file_ok dev f \<longleftrightarrow> 0 \<le> top_level f \<and> top_level f \<le> YAFFS_TNODES_MAX_LEVEL \<and>
     (case top f of None \<Rightarrow> False | Some t \<Rightarrow> tree_ok (map_words dev) (nat (top_level f)) t)"

lemma leaf_entry_sizes: "sizes d = sizes dev \<Longrightarrow> leaf_entry d = leaf_entry dev"
  using group_base_sizes [of d dev] by (simp add: leaf_entry_def fun_eq_iff split: option.split)

lemma file_ok_sizes: "sizes d = sizes dev \<Longrightarrow> file_ok d = file_ok dev"
  by (simp add: file_ok_def fun_eq_iff sizes_def split: option.split)

lemma chunk_entry_sizes: "sizes d = sizes dev \<Longrightarrow> chunk_entry d = chunk_entry dev"
  using leaf_entry_sizes [of d dev] by (simp add: chunk_entry_def fun_eq_iff)

lemma leaf_entry_None [simp]: "leaf_entry dev c None = 0"
  by (simp add: leaf_entry_def)

lemma new_level0_ok: "sizes d = sizes dev \<Longrightarrow> tree_ok (map_words dev) 0 (new_level0 d a)"
  by (simp add: tree_ok_0 new_level0_def sizes_def)

lemma new_internal_ok: "tree_ok n (Suc l) (new_internal a)"
  by (simp add: tree_ok_Suc)

lemma new_level0_entry:
  "tnode_geometry dev \<Longrightarrow> sizes d = sizes dev \<Longrightarrow> leaf_entry dev c (Some (new_level0 d a)) = 0"
  using group_base_zero [of dev "map_words dev" c] by (simp add: leaf_entry_def new_level0_def sizes_def)

lemma new_internal_entry: "tree_entry dev (Suc l) c (Some (new_internal a)) = 0"
  by simp

text \<open>A child is replaced by one with the same entries.\<close>

lemma replace_child_entry:
  assumes "tree_ok n (Suc l) t" "x < 8"
    and "\<And>c. tree_entry dev l c (Some s) = tree_entry dev l c (internal_nodes t ! x)"
  shows "tree_entry dev (Suc l) c (Some (Internal a ((internal_nodes t)[x := Some s]))) = tree_entry dev (Suc l) c (Some t)"
  using assms internal_length [OF assms(1)] by (cases "x = child_index c l") simp_all

lemma add_down_spec:
  assumes "tree_ok (map_words dev) l t" "tnode_geometry dev" "sizes d = sizes dev"
    and "add_down l c None d t = (r, t', d')"
  shows "sizes d' = sizes dev \<and> tree_ok (map_words dev) l t' \<and> tnode_addr t' = tnode_addr t \<and>
    (\<forall>c'. tree_entry dev l c' (Some t') = tree_entry dev l c' (Some t)) \<and>
    (r \<noteq> None \<longrightarrow> find_down l c (Some t') = r)"
  using assms
proof (induction l arbitrary: d t r t' d')
  case (Suc l)
  let ?x = "child_index c l"
  let ?child = "internal_nodes t ! ?x"
  have len: "length (internal_nodes t) = 8" by (rule internal_length [OF Suc.prems(1)])
  obtain new d1 where get: "yaffs_get_tnode d = (new, d1)" by fastforce
  have s1: "sizes d1 = sizes dev" using get_tnode_sizes [OF get] Suc.prems(3) by simp
  define made where "made = (if l > 0 then map_option new_internal new else map_option (new_level0 d1) new)"
  define ch d2 where ch: "ch = (if ?child = None then made else ?child)" "d2 = (if ?child = None then d1 else d)"
  have s2: "sizes d2 = sizes dev" using s1 Suc.prems(3) by (simp add: ch)
  have step: "add_down (Suc l) c None d t = (case ch of None \<Rightarrow> (None, t, d2)
      | Some s \<Rightarrow> (case add_down l c None d2 s of (found, s', d3) \<Rightarrow>
          (found, Internal (tnode_addr t) ((internal_nodes t)[?x := Some s']), d3)))"
    using get by (auto simp: ch made_def Let_def split: option.split)
  show ?case
  proof (cases ch)
    case None
    then show ?thesis using step Suc.prems(1,4) s2 by simp
  next
    case (Some s)
    have made: "tree_ok (map_words dev) l s'" "\<forall>c. tree_entry dev l c (Some s') = 0" if "made = Some s'" for s'
      using that new_level0_ok [OF s1] new_level0_entry [OF Suc.prems(2) s1]
      by (cases l; auto simp: made_def new_internal_ok)+
    have s: "tree_ok (map_words dev) l s" "\<And>c. tree_entry dev l c (Some s) = tree_entry dev l c ?child"
      using made Some tree_ok_child [OF Suc.prems(1) child_index_less] by (auto simp: ch split: if_splits)
    obtain found s' d3 where down: "add_down l c None d2 s = (found, s', d3)" by (metis prod_cases3)
    have res: "r = found" "t' = Internal (tnode_addr t) ((internal_nodes t)[?x := Some s'])" "d' = d3"
      using step Suc.prems(4) Some down by simp_all
    note ih = Suc.IH [OF s(1) Suc.prems(2) s2 down]
    have "tree_ok (map_words dev) (Suc l) t'"
      unfolding res by (rule tree_ok_update [OF Suc.prems(1) child_index_less]) (use ih in simp)
    moreover have "tree_entry dev (Suc l) c' (Some t') = tree_entry dev (Suc l) c' (Some t)" for c'
      unfolding res by (rule replace_child_entry [OF Suc.prems(1) child_index_less]) (use ih s in simp)
    moreover have "found \<noteq> None \<longrightarrow> find_down (Suc l) c (Some t') = found"
      using ih len by (simp add: res)
    ultimately show ?thesis using ih by (simp add: res)
  qed
qed simp

section \<open>The map of a file\<close>

lemma chunk_entry_eq:
  assumes "file_ok d f"
  shows "chunk_entry dev f c = (if c \<le> YAFFS_MAX_CHUNK_ID \<and> leaf_no c < 8 ^ nat (top_level f)
    then tree_entry dev (nat (top_level f)) c (top f) else 0)"
proof -
  have l: "0 \<le> top_level f" "top_level f \<le> YAFFS_TNODES_MAX_LEVEL" using assms by (simp_all add: file_ok_def)
  have "required_depth (drop_bit 4 c) > top_level f \<longleftrightarrow> \<not> leaf_no c < 8 ^ nat (top_level f)"
    using required_depth_le [of "drop_bit 4 c" "nat (top_level f)"] l by (simp add: leaf_no_drop not_le [symmetric])
  then show ?thesis using l by (auto simp: chunk_entry_def yaffs_find_tnode_0_def not_less)
qed

definition taller :: "slab_addr \<Rightarrow> yaffs_file_var \<Rightarrow> yaffs_file_var" where
  "taller a f = f\<lparr>top := Some (Internal a ((replicate 8 None)[0 := top f])), top_level := top_level f + 1\<rparr>"

lemma taller_spec:
  assumes f: "file_ok dev f" and "top_level f < YAFFS_TNODES_MAX_LEVEL"
  shows "file_ok dev (taller a f) \<and> chunk_entry dev (taller a f) c = chunk_entry dev f c"
proof -
  let ?l = "nat (top_level f)"
  have l: "nat (top_level f + 1) = Suc ?l" using f by (auto simp: file_ok_def nat_add_distrib)
  obtain t where t: "top f = Some t" "tree_ok (map_words dev) ?l t"
    using f by (auto simp: file_ok_def split: option.splits)
  have ok: "file_ok dev (taller a f)"
    using f assms(2) t
    by (auto simp: file_ok_def taller_def l tree_ok_Suc nth_list_update simp del: list_update_code split: if_splits)
  have idx: "leaf_no c < 8 ^ Suc ?l \<Longrightarrow> child_index c ?l = 0 \<longleftrightarrow> leaf_no c < 8 ^ ?l"
    by (simp add: child_index_digit less_mult_imp_div_less div_eq_0_iff)
  have "tree_entry dev (Suc ?l) c (top (taller a f)) = (if child_index c ?l = 0 then tree_entry dev ?l c (top f) else 0)"
    by (simp add: taller_def nth_list_update)
  then show ?thesis
    using ok idx by (auto simp: chunk_entry_eq [OF ok] chunk_entry_eq [OF f]) (auto simp: taller_def l)
qed

lemma grow_tree_spec:
  "\<lbrakk>grow_tree k d f = (tall, f', d'); file_ok dev f; sizes d = sizes dev;
    top_level f + int k \<le> YAFFS_TNODES_MAX_LEVEL\<rbrakk> \<Longrightarrow>
   sizes d' = sizes dev \<and> file_ok dev f' \<and> chunk_entry dev f' c = chunk_entry dev f c \<and>
   (tall \<longrightarrow> top_level f' = top_level f + int k)"
proof (induction k arbitrary: d f)
  case (Suc k)
  obtain new d1 where get: "yaffs_get_tnode d = (new, d1)" by fastforce
  show ?case
  proof (cases new)
    case None
    then show ?thesis using Suc.prems get get_tnode_sizes [OF get] by simp
  next
    case (Some a)
    have "grow_tree k d1 (taller a f) = (tall, f', d')" using Suc.prems(1) get Some by (simp add: taller_def)
    note ih = Suc.IH [OF this]
    have "file_ok dev (taller a f) \<and> chunk_entry dev (taller a f) c = chunk_entry dev f c"
      by (rule taller_spec [OF Suc.prems(2)]) (use Suc.prems(4) in simp)
    then show ?thesis using ih Suc.prems get_tnode_sizes [OF get] by (simp add: taller_def)
  qed
qed simp

lemma add_find_spec:
  assumes f: "file_ok dev f" and g: "tnode_geometry dev"
    and add: "yaffs_add_find_tnode_0 dev f c None = (r, f', d')"
  shows "sizes d' = sizes dev \<and> file_ok dev f' \<and> (\<forall>c'. chunk_entry dev f' c' = chunk_entry dev f c') \<and>
    (r \<noteq> None \<longrightarrow> yaffs_find_tnode_0 f' c = r)"
proof -
  have l: "0 \<le> top_level f" "top_level f \<le> YAFFS_TNODES_MAX_LEVEL" using f by (simp_all add: file_ok_def)
  show ?thesis
  proof (cases "c > YAFFS_MAX_CHUNK_ID")
    case True
    then show ?thesis using add f by (auto simp: yaffs_add_find_tnode_0_def split: if_splits)
  next
    case False
    let ?need = "required_depth (drop_bit 4 c)"
    let ?k = "nat (?need - top_level f)"
    have "leaf_no c < 8 ^ 8" using False max_chunk_leaf by (simp add: not_less)
    then have "?need \<le> 8" using required_depth_le [of "drop_bit 4 c" 8] by (simp add: leaf_no_drop)
    then have room: "top_level f + int ?k \<le> YAFFS_TNODES_MAX_LEVEL" using l by (simp add: YAFFS_TNODES_MAX_LEVEL_def)
    obtain tall f1 d1 where grow: "grow_tree ?k dev f = (tall, f1, d1)" by (metis prod_cases3)
    note gs = grow_tree_spec [OF grow f refl room]
    have fo: "file_ok dev f1" using gs by blast
    show ?thesis
    proof (cases tall)
      case False
      then show ?thesis using add l grow gs \<open>\<not> c > YAFFS_MAX_CHUNK_ID\<close>
        by (simp add: yaffs_add_find_tnode_0_def)
    next
      case True
      obtain t where t: "top f1 = Some t" "tree_ok (map_words dev) (nat (top_level f1)) t"
        using fo by (auto simp: file_ok_def split: option.splits)
      have high: "\<not> ?need > top_level f1" using gs True by auto
      obtain found t' d2 where down: "add_down (nat (top_level f1)) c None d1 t = (found, t', d2)" by (metis prod_cases3)
      note ds = add_down_spec [OF t(2) g _ down]
      have s1: "sizes d1 = sizes dev" using gs by simp
      have res: "r = found \<and> f' = f1\<lparr>top := Some t'\<rparr> \<and> d' = d2"
        using add l grow \<open>\<not> c > YAFFS_MAX_CHUNK_ID\<close> True t down
        by (auto simp: yaffs_add_find_tnode_0_def Let_def split: if_splits)
      have ok: "file_ok dev f'" using ds [OF s1] gs res by (simp add: file_ok_def)
      have "chunk_entry dev f' c' = chunk_entry dev f1 c'" for c'
        using ds [OF s1] res t unfolding chunk_entry_eq [OF ok] chunk_entry_eq [OF fo] by simp
      then have "chunk_entry dev f' c' = chunk_entry dev f c'" for c'
        using gs [of c'] by simp
      moreover have "found \<noteq> None \<longrightarrow> yaffs_find_tnode_0 f' c = found"
        using ds [OF s1] gs res high \<open>\<not> c > YAFFS_MAX_CHUNK_ID\<close> by (auto simp: yaffs_find_tnode_0_def file_ok_def)
      ultimately show ?thesis using ds [OF s1] ok res by simp
    qed
  qed
qed

section \<open>The nodes a chunk needs\<close>

text \<open>Taking nodes from the pool until one is refused: whether all were given, and the device.\<close>

fun take_tnodes :: "nat \<Rightarrow> ('n, 'x) yaffs_mem_dev_scheme \<Rightarrow> bool \<times> ('n, 'x) yaffs_mem_dev_scheme" where
  "take_tnodes 0 dev = (True, dev)"
| "take_tnodes (Suc k) dev =
     (case yaffs_get_tnode dev of (None, d) \<Rightarrow> (False, d) | (Some _, d) \<Rightarrow> take_tnodes k d)"

text \<open>How many nodes are missing on the way to a chunk. In a tree that is too low the new levels are
  needed on top, and the chunk lies in no branch of the old tree.\<close>

fun missing_down :: "nat \<Rightarrow> u32 \<Rightarrow> yaffs_tnode option \<Rightarrow> nat" where
  "missing_down 0 chunk tn = 0"
| "missing_down (Suc l) chunk tn =
     (case tn of None \<Rightarrow> Suc l
      | Some t \<Rightarrow> (case internal_nodes t ! child_index chunk l of None \<Rightarrow> Suc l | Some s \<Rightarrow> missing_down l chunk (Some s)))"

definition nodes_missing :: "yaffs_file_var \<Rightarrow> u32 \<Rightarrow> nat" where
  "nodes_missing f chunk =
     (let need = required_depth (drop_bit 4 chunk)
      in if need > top_level f then nat (need - top_level f) + nat need
         else missing_down (nat (top_level f)) chunk (top f))"

lemma take_tnodes_add:
  "take_tnodes (j + k) d = (case take_tnodes j d of (False, e) \<Rightarrow> (False, e) | (True, e) \<Rightarrow> take_tnodes k e)"
  by (induction j arbitrary: d) (auto split: prod.split option.split bool.split)

lemma add_down_takes:
  "add_down l c None d t = (r, t', d') \<Longrightarrow> take_tnodes (missing_down l c (Some t)) d = (r \<noteq> None, d')"
proof (induction l arbitrary: d t r t' d')
  case (Suc l)
  let ?x = "child_index c l"
  let ?child = "internal_nodes t ! ?x"
  obtain new d1 where get: "yaffs_get_tnode d = (new, d1)" by fastforce
  have x: "replicate 8 (None :: yaffs_tnode option) ! child_index c m = None" for m by (simp add: child_index_less)
  define made where "made = (if l > 0 then map_option new_internal new else map_option (new_level0 d1) new)"
  have m: "missing_down l c (Some s) = l" if "made = Some s" for s
    using that x by (cases l) (auto simp: made_def)
  define ch d2 where ch: "ch = (if ?child = None then made else ?child)" "d2 = (if ?child = None then d1 else d)"
  have step: "add_down (Suc l) c None d t = (case ch of None \<Rightarrow> (None, t, d2)
      | Some s \<Rightarrow> (case add_down l c None d2 s of (found, s', d3) \<Rightarrow>
          (found, Internal (tnode_addr t) ((internal_nodes t)[?x := Some s']), d3)))"
    using get by (auto simp: ch made_def Let_def split: option.split)
  have none: "new = None \<longleftrightarrow> made = None" by (simp add: made_def)
  show ?case
  proof (cases ch)
    case None
    then show ?thesis using step Suc.prems get none by (auto simp: ch split: if_splits)
  next
    case (Some s)
    obtain found s' d3 where down: "add_down l c None d2 s = (found, s', d3)" by (metis prod_cases3)
    have "r = found" "d' = d3" using step Suc.prems Some down by simp_all
    then have "take_tnodes (missing_down l c (Some s)) d2 = (r \<noteq> None, d')" using Suc.IH [OF down] by simp
    then show ?thesis using Some m none get by (auto simp: ch split: if_splits option.splits)
  qed
qed simp

lemma grow_tree_takes: "grow_tree k d f = (tall, f', d') \<Longrightarrow> take_tnodes k d = (tall, d')"
  by (induction k arbitrary: d f) (auto split: prod.splits option.splits)

lemma grow_tree_top:
  "grow_tree (Suc k) d f = (True, f', d') \<Longrightarrow> \<exists>a x. top f' = Some (Internal a ((replicate 8 None)[0 := x]))"
proof (induction k arbitrary: d f)
  case 0
  then show ?case by (auto split: prod.splits option.splits)
next
  case (Suc k)
  obtain new d1 where get: "yaffs_get_tnode d = (new, d1)" by fastforce
  with Suc.prems obtain a where "new = Some a" by (cases new) auto
  then show ?case using Suc.prems get Suc.IH by (auto simp del: replicate.simps)
qed

lemma missing_taller:
  assumes "leaf_no c div 8 ^ m mod 8 \<noteq> 0"
  shows "missing_down (Suc m) c (Some (Internal a ((replicate 8 None)[0 := x]))) = Suc m"
proof -
  have "child_index c m \<noteq> 0" using assms by (simp add: child_index_digit)
  then have "((replicate 8 None)[0 := x]) ! child_index c m = None"
    using child_index_less [of c m] by (simp del: replicate.simps)
  then show ?thesis by simp
qed

lemma add_find_takes:
  assumes f: "file_ok dev f" and add: "yaffs_add_find_tnode_0 dev f c None = (r, f', d')"
  shows "if c > YAFFS_MAX_CHUNK_ID then r = None \<and> f' = f \<and> d' = dev
    else take_tnodes (nodes_missing f c) dev = (r \<noteq> None, d')"
proof (cases "c > YAFFS_MAX_CHUNK_ID")
  case True
  then show ?thesis using add by (auto simp: yaffs_add_find_tnode_0_def split: if_splits)
next
  case small: False
  let ?need = "required_depth (drop_bit 4 c)"
  let ?k = "nat (?need - top_level f)"
  have l: "0 \<le> top_level f" "top_level f \<le> YAFFS_TNODES_MAX_LEVEL" using f by (simp_all add: file_ok_def)
  have "leaf_no c < 8 ^ 8" using small max_chunk_leaf by (simp add: not_less)
  then have "?need \<le> 8" using required_depth_le [of "drop_bit 4 c" 8] by (simp add: leaf_no_drop)
  then have room: "top_level f + int ?k \<le> YAFFS_TNODES_MAX_LEVEL" using l by (simp add: YAFFS_TNODES_MAX_LEVEL_def)
  obtain tall f1 d1 where grow: "grow_tree ?k dev f = (tall, f1, d1)" by (metis prod_cases3)
  note gt = grow_tree_takes [OF grow] and gs = grow_tree_spec [OF grow f refl room, of 0]
  have "take_tnodes (nodes_missing f c) dev = (r \<noteq> None, d')"
  proof (cases tall)
    case False
    then have "r = None \<and> d' = d1" "?k \<noteq> 0" using add l grow small by (auto simp: yaffs_add_find_tnode_0_def not_less)
    then show ?thesis using gt False take_tnodes_add [of ?k "nat ?need" dev] by (simp add: nodes_missing_def Let_def)
  next
    case True
    have top1: "top_level f1 = top_level f + int ?k" "file_ok dev f1" using gs True by simp_all
    then obtain t where t: "top f1 = Some t" "0 \<le> top_level f1" by (auto simp: file_ok_def split: option.splits)
    obtain found t' d2 where down: "add_down (nat (top_level f1)) c None d1 t = (found, t', d2)" by (metis prod_cases3)
    have res: "r = found \<and> d' = d2"
      using add l grow small True t down by (auto simp: yaffs_add_find_tnode_0_def Let_def split: if_splits)
    note at = add_down_takes [OF down]
    have "nodes_missing f c = ?k + missing_down (nat (top_level f1)) c (Some t)"
    proof (cases "?need > top_level f")
      case False
      then have "?k = 0" by simp
      then have "f1 = f" using grow by simp
      then show ?thesis using False t(1) by (simp add: nodes_missing_def)
    next
      case low: True
      obtain j where j: "?k = Suc j" using low by (metis gr0_implies_Suc diff_gt_0_iff_gt zero_less_nat_eq)
      obtain a x where tx: "t = Internal a ((replicate 8 None)[0 := x])"
        using grow_tree_top [of j dev f f1 d1] grow t(1) True unfolding j by auto
      have n1: "top_level f1 = ?need" using top1(1) low by simp
      obtain m where m: "nat ?need = Suc m" using low l(1) by (metis gr0_implies_Suc zero_less_nat_eq order.strict_trans1)
      have need: "?need = int (Suc m)" using m l(1) low by linarith
      have up: "leaf_no c < 8 ^ Suc m" using required_depth_le [of "drop_bit 4 c" "Suc m"] need by (simp add: leaf_no_drop)
      have lo: "8 ^ m \<le> leaf_no c" using required_depth_le [of "drop_bit 4 c" m] need by (simp add: leaf_no_drop)
      have "leaf_no c div 8 ^ m < 8" using up by (simp add: less_mult_imp_div_less)
      moreover have "0 < leaf_no c div 8 ^ m" using lo by (simp add: div_greater_zero_iff)
      ultimately have "leaf_no c div 8 ^ m mod 8 \<noteq> 0" by simp
      then have "missing_down (Suc m) c (Some t) = Suc m" unfolding tx by (rule missing_taller)
      then show ?thesis using low n1 m by (simp add: nodes_missing_def Let_def)
    qed
    then show ?thesis using take_tnodes_add [of ?k "missing_down (nat (top_level f1)) c (Some t)" dev] gt True at res by simp
  qed
  then show ?thesis using small by simp
qed

text \<open>A pool with enough free nodes gives them all.\<close>

lemma take_tnodes_free:
  "allocator dev = Some al \<Longrightarrow> k \<le> List.length (free_tnodes al) \<Longrightarrow> fst (take_tnodes k dev)"
proof (induction k arbitrary: dev al)
  case (Suc k)
  obtain a rest where fr: "free_tnodes al = a # rest" using Suc.prems(2) by (cases "free_tnodes al") auto
  obtain n d where g: "yaffs_get_tnode dev = (n, d)" by fastforce
  have "n = Some a" "allocator d = Some (al\<lparr>free_tnodes := rest, n_free_tnodes := n_free_tnodes al - 1\<rparr>)"
    using g Suc.prems(1) fr by (auto simp: yaffs_get_tnode_def yaffs_alloc_raw_tnode_def Let_def)
  then show ?case using Suc.IH [of d "al\<lparr>free_tnodes := rest, n_free_tnodes := n_free_tnodes al - 1\<rparr>"] Suc.prems(2) g fr by simp
qed simp

text \<open>A write into the node of a chunk changes the entry of that chunk alone.\<close>

lemma load_entry_spec:
  assumes f: "file_ok dev f" and g: "tnode_geometry dev" and tn: "yaffs_find_tnode_0 f c = Some tn"
    and fits: "take_bit (tnode_width dev) (drop_bit (chunk_grp_bits dev) val) = drop_bit (chunk_grp_bits dev) val"
  shows "file_ok dev (load_entry dev f tn c val) \<and> chunk_entry dev (load_entry dev f tn c val) c' =
    (if c' = c then push_bit (chunk_grp_bits dev) (drop_bit (chunk_grp_bits dev) val) else chunk_entry dev f c')"
proof -
  let ?l = "nat (top_level f)" and ?ws = "yaffs_load_tnode_0 dev (tnode_map tn) c val"
  let ?f = "load_entry dev f tn c val"
  obtain t where t: "top f = Some t" "tree_ok (map_words dev) ?l t"
    using f by (auto simp: file_ok_def split: option.splits)
  have c: "c \<le> YAFFS_MAX_CHUNK_ID" "find_down ?l c (Some t) = Some tn" "\<not> required_depth (drop_bit 4 c) > top_level f"
    using tn t by (auto simp: yaffs_find_tnode_0_def split: if_splits)
  have leaf: "leaf_no c < 8 ^ ?l"
    using c(3) f required_depth_le [of "drop_bit 4 c" ?l] by (simp add: leaf_no_drop file_ok_def)
  obtain a ws where ws: "tn = Level0 a ws" "length ws = map_words dev"
    using find_down_ok [OF t(2) c(2)] by (auto simp: tree_ok_0)
  have len: "length ?ws = map_words dev" by (simp add: yaffs_load_tnode_0_def Let_def ws)
  have ok: "file_ok dev ?f"
    using f t set_down_ok [OF t(2) len] by (simp add: file_ok_def load_entry_def set_tnode_0_def)
  have "chunk_entry dev ?f c' = (if c' = c then push_bit (chunk_grp_bits dev) (drop_bit (chunk_grp_bits dev) val)
    else chunk_entry dev f c')"
  proof (cases "c' \<le> YAFFS_MAX_CHUNK_ID \<and> leaf_no c' < 8 ^ ?l")
    case False
    then show ?thesis using c(1) leaf
      by (auto simp: chunk_entry_eq [OF ok] chunk_entry_eq [OF f]) (auto simp: load_entry_def set_tnode_0_def)
  next
    case True
    then have entries: "chunk_entry dev f c' = tree_entry dev ?l c' (Some t)"
      "chunk_entry dev ?f c' = tree_entry dev ?l c' (Some (set_down ?l c ?ws t))"
      using t by (simp_all add: chunk_entry_eq [OF ok] chunk_entry_eq [OF f]) (simp_all add: load_entry_def set_tnode_0_def)
    note fs = find_set_down [OF t(2), of c' c ?ws]
    show ?thesis
    proof (cases "leaf_no c = leaf_no c'")
      case same: True
      have "find_down ?l c' (Some t) = Some tn"
        using c(2) find_down_path [of ?l c c' "Some t"] same by (simp add: same_path)
      then have "chunk_entry dev f c' = yaffs_get_group_base dev ws c'"
        "chunk_entry dev ?f c' = yaffs_get_group_base dev ?ws c'"
        using entries fs same c(2) ws by (simp_all add: leaf_entry_def)
      then show ?thesis
        using group_base_load [OF g _ fits, of ws c c'] ws same_leaf_entry [OF same] by auto
    next
      case False
      then have "leaf_no c mod 8 ^ ?l \<noteq> leaf_no c' mod 8 ^ ?l" "c' \<noteq> c" using True leaf by auto
      then show ?thesis using entries fs by simp
    qed
  qed
  then show ?thesis using ok by simp
qed

section \<open>Properties\<close>

definition rounded :: "('n, 'x) yaffs_dev_scheme \<Rightarrow> u32 \<Rightarrow> u32" where
  "rounded dev val = push_bit (chunk_grp_bits dev) (drop_bit (chunk_grp_bits dev) val)"

definition entry_fits :: "('n, 'x) yaffs_dev_scheme \<Rightarrow> u32 \<Rightarrow> bool" where
  "entry_fits dev val \<longleftrightarrow>
     take_bit (tnode_width dev) (drop_bit (chunk_grp_bits dev) val) = drop_bit (chunk_grp_bits dev) val"

lemma put_chunk_spec:
  assumes f: "file_ok dev (file_variant obj)" and g: "tnode_geometry dev"
    and ty: "variant_type obj = YAFFS_OBJECT_TYPE_FILE" and fits: "entry_fits dev (word_of_int nand_chunk)"
    and put: "yaffs_put_chunk_in_file dev obj inode_chunk nand_chunk 0 = (r, obj', dev')"
  shows "sizes dev' = sizes dev \<and> file_ok dev' (file_variant obj') \<and> chunk_entry dev' (file_variant obj') c =
    (if r = YAFFS_OK \<and> nand_chunk \<noteq> 0 \<and> c = word_of_int inode_chunk then rounded dev (word_of_int nand_chunk)
     else chunk_entry dev (file_variant obj) c)"
proof -
  obtain found f1 d1 where add: "yaffs_add_find_tnode_0 dev (file_variant obj) (word_of_int inode_chunk) None = (found, f1, d1)"
    by (metis prod_cases3)
  note as = add_find_spec [OF f g add]
  have d1: "sizes d1 = sizes dev" using as by simp
  show ?thesis
  proof (cases found)
    case None
    then show ?thesis
      using put ty add as file_ok_sizes [OF d1] chunk_entry_sizes [OF d1] by (auto simp: yaffs_put_chunk_in_file_def)
  next
    case (Some tn)
    show ?thesis
    proof (cases "nand_chunk = 0")
      case True
      then show ?thesis
        using put ty add as Some file_ok_sizes [OF d1] chunk_entry_sizes [OF d1] by (auto simp: yaffs_put_chunk_in_file_def)
    next
      case False
      let ?f2 = "load_entry d1 f1 tn (word_of_int inode_chunk) (word_of_int nand_chunk)"
      have res: "r = YAFFS_OK" "dev' = d1" "file_variant obj' = ?f2"
        using put ty add Some False by (auto simp: yaffs_put_chunk_in_file_def Let_def split: if_splits)
      have fits1: "take_bit (tnode_width d1) (drop_bit (chunk_grp_bits d1) (word_of_int nand_chunk :: u32))
          = drop_bit (chunk_grp_bits d1) (word_of_int nand_chunk)"
        using fits d1 by (simp add: entry_fits_def sizes_def)
      have "file_ok d1 f1" "tnode_geometry d1" "yaffs_find_tnode_0 f1 (word_of_int inode_chunk) = Some tn"
        using as g Some file_ok_sizes [OF d1] geometry_sizes [OF d1] by simp_all
      note ls = load_entry_spec [OF this fits1, of c]
      have "rounded d1 = rounded dev" using d1 by (simp add: rounded_def sizes_def fun_eq_iff)
      then show ?thesis
        using ls [folded rounded_def] as False chunk_entry_sizes [OF d1] unfolding res by auto
    qed
  qed
qed

text \<open>C8: Entering a chunk into a file, outside a scan, is an update of the file's map at that
  chunk: the entry becomes the flash chunk, rounded down to its group, and every other chunk of the
  file keeps its entry, whether the tree had to grow or not. The answer is OK, or else it is FAIL and the
  map is as it was, and which of the two is settled by the memory alone: exactly the nodes that are
  missing on the way to the chunk are taken from the pool, and the answer is OK if and only if they were
  all given (\<open>take_tnodes\<close>) and the chunk number is not above the greatest the trees can hold.\<close>

theorem put_chunk_in_file_updates_map:
  assumes f: "file_ok dev (file_variant obj)" and g: "tnode_geometry dev"
    and ty: "variant_type obj = YAFFS_OBJECT_TYPE_FILE" and fits: "entry_fits dev (word_of_int nand_chunk)"
    and put: "yaffs_put_chunk_in_file dev obj inode_chunk nand_chunk 0 = (r, obj', dev')"
  shows "file_ok dev' (file_variant obj') \<and> chunk_entry dev' (file_variant obj') c =
    (if r = YAFFS_OK \<and> nand_chunk \<noteq> 0 \<and> c = word_of_int inode_chunk then rounded dev (word_of_int nand_chunk)
     else chunk_entry dev (file_variant obj) c) \<and> (r = YAFFS_OK \<or> r = YAFFS_FAIL) \<and>
    (if word_of_int inode_chunk > YAFFS_MAX_CHUNK_ID then r = YAFFS_FAIL \<and> dev' = dev
     else take_tnodes (nodes_missing (file_variant obj) (word_of_int inode_chunk)) dev = (r = YAFFS_OK, dev'))"
proof -
  obtain found f1 d1 where add: "yaffs_add_find_tnode_0 dev (file_variant obj) (word_of_int inode_chunk) None = (found, f1, d1)"
    by (metis prod_cases3)
  have "r = (if found = None then YAFFS_FAIL else YAFFS_OK)" "dev' = d1"
    using put ty add by (auto simp: yaffs_put_chunk_in_file_def Let_def split: option.splits if_splits)
  then show ?thesis using put_chunk_spec [OF assms] add_find_takes [OF f add] by (auto split: if_splits)
qed

text \<open>C27: Growing the tree, or adding the nodes a chunk needs, never changes what the file's map
  says of any chunk, and the node handed back is the one the look-up finds afterwards.\<close>

theorem add_find_tnode_0_keeps_map:
  assumes "file_ok dev f" "tnode_geometry dev" "yaffs_add_find_tnode_0 dev f chunk None = (found, f', dev')"
  shows "file_ok dev' f' \<and> (\<forall>c. chunk_entry dev' f' c = chunk_entry dev f c) \<and>
    (found \<noteq> None \<longrightarrow> yaffs_find_tnode_0 f' chunk = found)"
proof -
  note as = add_find_spec [OF assms]
  then have "sizes dev' = sizes dev" by simp
  then show ?thesis using as file_ok_sizes [of dev' dev] chunk_entry_sizes [of dev' dev] by simp
qed

text \<open>C24: With one chunk per group, a chunk that was entered and is in use is found at once.\<close>

theorem find_chunk_after_put:
  assumes "file_ok dev (file_variant obj)" "tnode_geometry dev" "variant_type obj = YAFFS_OBJECT_TYPE_FILE"
    and "entry_fits dev (word_of_int nand_chunk)"
    and "yaffs_put_chunk_in_file dev obj inode_chunk nand_chunk 0 = (YAFFS_OK, obj', dev')"
    and "0 < nand_chunk" "nand_chunk < 2 ^ 31" "chunk_grp_bits dev' = 0" "chunk_grp_size dev' = 1"
    and "yaffs_check_chunk_bit dev' (nand_chunk div cpb dev') (nand_chunk mod cpb dev')"
  shows "fst (yaffs_find_chunk_in_file dev' obj' inode_chunk tags) = nand_chunk"
proof -
  let ?c = "word_of_int inode_chunk :: u32"
  note ps = put_chunk_spec [OF assms(1-5)]
  have "rounded dev (word_of_int nand_chunk) = word_of_int nand_chunk"
    using ps assms(8) by (simp add: rounded_def sizes_def)
  then have "chunk_entry dev' (file_variant obj') ?c = word_of_int nand_chunk" using ps [of ?c] assms(6) by simp
  moreover have val: "sint (word_of_int nand_chunk :: u32) = nand_chunk"
    using assms(6,7) by (simp add: int_word_sint)
  ultimately obtain tn where "yaffs_find_tnode_0 (file_variant obj') ?c = Some tn"
    "yaffs_get_group_base dev' (tnode_map tn) ?c = word_of_int nand_chunk"
    using assms(6) by (auto simp: chunk_entry_def leaf_entry_def split: option.splits)
  then show ?thesis
    using assms(6,9,10) val by (simp add: yaffs_find_chunk_in_file_def yaffs_find_chunk_in_group_def)
qed

end
