(* ===== verification/Yaffs_FileProps.thy ===== *)
theory Yaffs_FileProps
  imports Yaffs_FileMap
begin

text \<open>
  The sizes a device is set up with, soft deletion and pruning: the facts about the loops of
  \<open>calc_shifts\<close>, the position of an address, what soft deletion gives back, and what pruning
  leaves of a tree. The witnesses of the file theories are at the end.
\<close>

section \<open>Shifts\<close>

lemma odd_and_1: "w AND 1 = 0 \<longleftrightarrow> even (unat (w :: u32))"
proof -
  have "w AND 1 = w mod 2" using take_bit_eq_mask [of 1 w] by (simp add: take_bit_eq_mod mask_eq_exp_minus_1)
  then have "unat (w AND 1) = unat w mod 2" by (simp add: unat_mod)
  then show ?thesis by (metis even_iff_mod_2_eq_zero unat_eq_zero)
qed

lemma unat_half: "unat (drop_bit (Suc 0) w :: u32) = unat w div 2"
  by (simp add: drop_bit_eq_div unat_div)

lemma shifts_loop_spec:
  "\<lbrakk>0 < unat x; unat x < 2 ^ k\<rbrakk> \<Longrightarrow>
     \<exists>m. shifts_loop k x n = n + m \<and> m < 32 \<and> unat x = 2 ^ m * (unat x div 2 ^ m) \<and> odd (unat x div 2 ^ m)"
proof (induction k arbitrary: x n)
  case (Suc k)
  show ?case
  proof (cases "even (unat x)")
    case True
    let ?h = "drop_bit 1 x :: u32"
    have h: "unat x = 2 * unat ?h" using True by (simp add: unat_half)
    then obtain m where m: "shifts_loop k ?h (n + 1) = n + 1 + m" "unat ?h = 2 ^ m * (unat ?h div 2 ^ m)"
      "odd (unat ?h div 2 ^ m)"
      using Suc.IH [of ?h "n + 1"] Suc.prems by auto
    have eq: "unat x div 2 ^ Suc m = unat ?h div 2 ^ m" by (simp add: h div_mult2_eq)
    have "2 ^ Suc m \<le> unat x" using m(2,3) h by (metis One_nat_def eq div_less gr_implies_not0 leI odd_pos)
    moreover have "unat x < 2 ^ 32" using unsigned_less [of x] by simp
    ultimately have "(2::nat) ^ Suc m < 2 ^ 32" by (rule le_less_trans)
    then have "Suc m < 32" by (simp only: power_strict_increasing_iff)
    moreover have "unat x = 2 ^ Suc m * (unat x div 2 ^ Suc m)" unfolding eq using m(2) h by simp
    moreover have "shifts_loop (Suc k) x n = n + Suc m" using True m(1) by (simp add: odd_and_1)
    ultimately show ?thesis using m(3) eq by metis
  next
    case False
    then show ?thesis by (intro exI [of _ 0]) (simp add: odd_and_1)
  qed
qed simp

lemma calc_shifts_spec:
  assumes "x \<noteq> 0"
  shows "calc_shifts x < 32 \<and> unat x = 2 ^ calc_shifts x * (unat x div 2 ^ calc_shifts x)"
proof -
  have "0 < unat x" "unat x < 2 ^ 32" using assms unsigned_less [of x] by (simp_all add: unat_gt_0)
  from shifts_loop_spec [OF this, of 0] show ?thesis using assms by (auto simp: calc_shifts_def)
qed

lemma ceiling_loop_spec:
  "\<lbrakk>0 < unat x; unat x < 2 ^ k\<rbrakk> \<Longrightarrow>
     \<exists>m. shifts_ceiling_loop k x e n = n + m \<and> unat x \<le> 2 ^ m \<and> (e \<noteq> 0 \<longrightarrow> unat x < 2 ^ m)"
proof (induction k arbitrary: x e n)
  case (Suc k)
  show ?case
  proof (cases "x > 1")
    case True
    let ?h = "drop_bit 1 x :: u32" and ?e = "if x AND 1 \<noteq> 0 then e + 1 else e"
    have x: "1 < unat x" using True by (simp add: word_less_nat_alt)
    have "0 < unat ?h" "unat ?h < 2 ^ k" using x Suc.prems by (simp_all add: unat_half)
    from Suc.IH [OF this, of ?e "n + 1"] obtain m
      where m: "shifts_ceiling_loop k ?h ?e (n + 1) = n + 1 + m" "unat ?h \<le> 2 ^ m" "?e \<noteq> 0 \<longrightarrow> unat ?h < 2 ^ m" by blast
    have "unat x = 2 * unat ?h + unat x mod 2" by (simp add: unat_half)
    moreover have "unat x mod 2 = (if x AND 1 = 0 then 0 else 1)" by (simp add: odd_and_1 mod2_eq_if)
    ultimately have "unat x \<le> 2 ^ Suc m \<and> (e \<noteq> 0 \<longrightarrow> unat x < 2 ^ Suc m)" using m(2,3) by (auto split: if_splits)
    moreover have "shifts_ceiling_loop (Suc k) x e n = n + Suc m" using True m(1) by simp
    ultimately show ?thesis by blast
  next
    case False
    then have "unat x = 1" using Suc.prems by (auto simp: word_less_nat_alt)
    then show ?thesis using False by (intro exI [of _ "if e \<noteq> 0 then 1 else 0"]) simp
  qed
qed simp

lemma calc_shifts_ceiling_spec: "x \<noteq> 0 \<Longrightarrow> unat x \<le> 2 ^ calc_shifts_ceiling x"
  using ceiling_loop_spec [of x 32 0 0] unsigned_less [of x] by (auto simp: calc_shifts_ceiling_def unat_gt_0)

lemma ceiling_loop_min:
  "\<lbrakk>0 < unat x; unat x \<le> 2 ^ m; e \<noteq> 0 \<longrightarrow> unat x < 2 ^ m\<rbrakk> \<Longrightarrow> shifts_ceiling_loop k x e n \<le> n + m"
proof (induction k arbitrary: x e n m)
  case 0
  then show ?case by (cases m) auto
next
  case (Suc k)
  show ?case
  proof (cases "x > 1")
    case True
    let ?h = "drop_bit 1 x :: u32" and ?e = "if x AND 1 \<noteq> 0 then e + 1 else e"
    have x: "1 < unat x" using True by (simp add: word_less_nat_alt)
    then obtain m' where m: "m = Suc m'" using Suc.prems by (cases m) auto
    have odd: "x AND 1 \<noteq> 0 \<longleftrightarrow> odd (unat x)" by (simp add: odd_and_1)
    have "unat x \<noteq> 2 ^ m" if "odd (unat x)" using that m by auto
    then have "?e \<noteq> 0 \<longrightarrow> unat x < 2 ^ m" using Suc.prems(2,3) odd by auto
    then have "?e \<noteq> 0 \<longrightarrow> unat ?h < 2 ^ m'" "unat ?h \<le> 2 ^ m'" "0 < unat ?h"
      using Suc.prems(2) x by (auto simp: m unat_half)
    from Suc.IH [OF this(3,2,1), of "n + 1"] show ?thesis using True m by simp
  next
    case False
    then show ?thesis using Suc.prems by (cases m) auto
  qed
qed

lemma calc_shifts_ceiling_min: "x \<noteq> 0 \<Longrightarrow> unat x \<le> 2 ^ m \<Longrightarrow> calc_shifts_ceiling x \<le> m"
  using ceiling_loop_min [of x m 0 32 0] by (simp add: calc_shifts_ceiling_def unat_gt_0)

section \<open>Sizes\<close>

lemma mask_shift: "n < 32 \<Longrightarrow> push_bit n 1 - 1 = (mask n :: u32)"
  by (simp add: mask_eq_exp_minus_1 push_bit_of_1)

text \<open>A device whose block size and number of chunks fit the words the code computes with.\<close>

definition sane_sizes :: "('n, 'x) yaffs_dev_scheme \<Rightarrow> bool" where
  "sane_sizes dev \<longleftrightarrow> 0 < data_bytes_per_chunk dev \<and> data_bytes_per_chunk dev < 2 ^ 31 \<and>
     0 < cpb dev \<and> 0 \<le> internal_end_block dev \<and> cpb dev * (internal_end_block dev + 1) \<le> 2 ^ 28 \<and>
     \<not> wide_tnodes_disabled (param dev)"

lemma init_sizes_chunk_numbers:
  assumes "init_sizes dev = (r, d)"
  shows "chunk_shift d = calc_shifts (word_of_nat (data_bytes_per_chunk dev))"
    "chunk_div d = drop_bit (chunk_shift d) (word_of_nat (data_bytes_per_chunk dev))"
    "chunk_mask d = push_bit (chunk_shift d) 1 - 1"
    "data_bytes_per_chunk d = data_bytes_per_chunk dev"
proof -
  have d: "d = snd (init_sizes dev)" using assms by simp
  show "chunk_shift d = calc_shifts (word_of_nat (data_bytes_per_chunk dev))"
    "chunk_div d = drop_bit (chunk_shift d) (word_of_nat (data_bytes_per_chunk dev))"
    "chunk_mask d = push_bit (chunk_shift d) 1 - 1"
    "data_bytes_per_chunk d = data_bytes_per_chunk dev"
    unfolding d init_sizes_def Let_def
    by (simp_all add: init_tnode_numbers_def init_chunk_numbers_def Let_def)
qed

lemma chunk_number_bits_init [simp]: "chunk_number_bits (init_chunk_numbers dev) = chunk_number_bits dev"
  by (simp add: chunk_number_bits_def init_chunk_numbers_def Let_def)

lemma param_init [simp]: "param (init_chunk_numbers dev) = param dev" "param (init_tnode_numbers dev) = param dev"
  by (simp_all add: init_chunk_numbers_def init_tnode_numbers_def Let_def)

lemma init_sizes_wide:
  assumes s: "sane_sizes dev" and i: "init_sizes dev = (r, d)"
  shows "r = YAFFS_OK" "chunk_grp_bits d = 0" "chunk_grp_size d = 1" "tnode_geometry d"
    "0 \<le> chunk \<Longrightarrow> chunk < cpb dev * (internal_end_block dev + 1) \<Longrightarrow> entry_fits d (word_of_int chunk)"
proof -
  define n where "n = cpb dev * (internal_end_block dev + 1)"
  define even_bits where "even_bits = (if odd (chunk_number_bits dev) then chunk_number_bits dev + 1 else chunk_number_bits dev)"
  have n: "0 < n" "n \<le> 2 ^ 28" using s by (simp_all add: sane_sizes_def n_def)
  then have xu: "unat (word_of_int n :: u32) = nat n" "(word_of_int n :: u32) \<noteq> 0"
    by (simp_all add: unat_eq_nat_uint uint_word_of_int word_uint_eq_iff)
  have ge: "nat n \<le> 2 ^ chunk_number_bits dev"
    using calc_shifts_ceiling_spec [OF xu(2)] xu(1) unfolding chunk_number_bits_def n_def by simp
  have le: "chunk_number_bits dev \<le> 28"
    using calc_shifts_ceiling_min [OF xu(2), of 28] n(2) xu(1) unfolding chunk_number_bits_def n_def by simp
  have wide: "\<not> wide_tnodes_disabled (param dev)" "0 < cpb dev" using s by (simp_all add: sane_sizes_def)
  let ?d = "init_tnode_numbers (init_chunk_numbers dev)"
  have fields: "tnode_width ?d = (if even_bits < 16 then 16 else even_bits)" "chunk_grp_bits ?d = 0"
    "tnode_mask ?d = push_bit (tnode_width ?d) 1 - 1" "tnode_width ?d * 16 div 8 \<le> tnode_size ?d" "chunk_grp_size ?d = 1"
    using wide by (auto simp: init_tnode_numbers_def Let_def even_bits_def)
  have d: "r = YAFFS_OK \<and> d = ?d" using i wide fields(5) by (simp add: init_sizes_def)
  have even_le: "even even_bits \<and> even_bits \<le> 28 \<and> chunk_number_bits dev \<le> even_bits"
    using le unfolding even_bits_def by presburger
  have e: "even (tnode_width d)" "tnode_width d \<le> 28" "chunk_number_bits dev \<le> tnode_width d" "0 < tnode_width d"
    using even_le d fields(1) by auto
  show grp: "chunk_grp_bits d = 0" and "chunk_grp_size d = 1" and "r = YAFFS_OK" using d fields by simp_all
  show "tnode_geometry d"
    using e d fields(3,4) mask_shift [of "tnode_width d"] by (simp add: tnode_geometry_def)
  show "entry_fits d (word_of_int chunk)" if "0 \<le> chunk" "chunk < cpb dev * (internal_end_block dev + 1)"
  proof -
    have c: "nat chunk < 2 ^ tnode_width d"
    proof -
      have "nat chunk < nat n" using that n by (simp add: n_def nat_less_iff)
      also note ge
      also have "(2::nat) ^ chunk_number_bits dev \<le> 2 ^ tnode_width d" using e(3) by (simp add: power_increasing)
      finally show ?thesis .
    qed
    have u: "unat (word_of_int chunk :: u32) = nat chunk"
      using that n by (simp add: unat_eq_nat_uint uint_word_of_int n_def [symmetric])
    have "unat (take_bit (tnode_width d) (word_of_int chunk :: u32)) = nat chunk"
      using c by (simp add: unsigned_take_bit_eq u take_bit_nat_eq_self)
    then show ?thesis using u by (simp add: entry_fits_def grp word_unat_eq_iff)
  qed
qed

lemma sint_small: "unat w < 2 ^ 31 \<Longrightarrow> sint (w :: u32) = int (unat w)"
proof -
  assume a: "unat w < 2 ^ 31"
  define n where "n = unat w"
  have w: "w = word_of_int (int n)" by (simp add: n_def)
  have "sint w = (int n + 2 ^ 31) mod 2 ^ 32 - 2 ^ 31" unfolding w int_word_sint by simp
  also have "\<dots> = int n" using a [folded n_def] by simp
  finally show ?thesis by (simp only: n_def)
qed

text \<open>With the numbers set at mount, an address is split into the chunk it lies in and the
  offset inside that chunk, for chunk sizes that are a power of two and for all others.\<close>

theorem addr_to_chunk_splits:
  assumes s: "sane_sizes dev" and i: "init_sizes dev = (r, d)" and small: "unat addr div data_bytes_per_chunk dev < 2 ^ 31"
  shows "yaffs_addr_to_chunk d addr =
    (int (unat addr div data_bytes_per_chunk dev), word_of_nat (unat addr mod data_bytes_per_chunk dev))"
proof -
  let ?n = "data_bytes_per_chunk dev" and ?x = "word_of_nat (data_bytes_per_chunk dev) :: u32"
  let ?s = "calc_shifts ?x" and ?c = "unat addr div ?n"
  let ?q = "?n div 2 ^ ?s"
  note f = init_sizes_chunk_numbers [OF i]
  have n: "0 < ?n" "?n < 2 ^ 31" using s by (simp_all add: sane_sizes_def)
  have x: "unat ?x = ?n" using n by (simp add: unat_of_nat)
  then have "?x \<noteq> 0" using n by auto
  from calc_shifts_spec [OF this] have sp: "?s < 32" "?n = 2 ^ ?s * ?q" by (simp_all add: x)
  have shift: "unat (drop_bit k w :: u32) = unat w div 2 ^ k" for k w
    unfolding unat_drop_bit_eq by (simp add: drop_bit_eq_div)
  have q: "unat (chunk_div d) = ?q" by (simp only: f shift x)
  note shifted = shift [of ?s addr]
  show ?thesis
  proof (cases "chunk_div d = 1")
    case True
    then have "?q = 1" using q by simp
    then have "?n = 2 ^ ?s" using sp(2) by (metis mult.right_neutral)
    moreover have "addr AND chunk_mask d = take_bit ?s addr"
      by (simp only: f mask_shift [OF sp(1)] take_bit_eq_mask)
    moreover have "take_bit ?s addr = word_of_nat (take_bit ?s (unat addr))"
      by (simp flip: unsigned_take_bit_eq)
    ultimately have "addr AND chunk_mask d = word_of_nat (unat addr mod ?n)" "?n = 2 ^ ?s"
      by (simp_all only: take_bit_eq_mod)
    then show ?thesis
      using True small shifted sint_small [of "drop_bit ?s addr"] by (simp add: yaffs_addr_to_chunk_def f)
  next
    case False
    let ?w = "drop_bit ?s addr div chunk_div d"
    have c: "unat ?w = ?c" unfolding unat_div shifted q by (subst sp(2)) (rule div_mult2_eq [symmetric])
    have "?c * ?n \<le> unat addr" by simp
    also have "unat addr < 2 ^ LENGTH(32)" by (rule unsigned_less)
    finally have "unat ?w * unat ?x < 2 ^ LENGTH(32)" unfolding c x .
    from iffD1 [OF unat_mult_lem this] have "unat (?w * ?x) = ?c * ?n" by (simp only: c x)
    then have "word_of_nat (unat (?w * ?x)) = (word_of_nat (?c * ?n) :: u32)" by (simp only:)
    then have "?w * ?x = word_of_nat (?c * ?n)" by (simp only: of_nat_unat ucast_id)
    moreover have "word_of_nat (unat addr mod ?n) + word_of_nat (?c * ?n) = (word_of_nat (unat addr) :: u32)"
      by (simp only: of_nat_add [symmetric] mod_div_mult_eq)
    then have "addr = word_of_nat (unat addr mod ?n) + word_of_nat (?c * ?n)" by (simp only: of_nat_unat ucast_id)
    ultimately have "addr - ?w * ?x = word_of_nat (unat addr mod ?n)" by (simp only: eq_diff_eq [symmetric] diff_eq_eq)
    then show ?thesis
      using False small c sint_small [of ?w] by (simp add: yaffs_addr_to_chunk_def f Let_def)
  qed
qed

section \<open>Pruning\<close>

lemma prune_children:
  assumes "\<And>i t. i \<in> set is \<Longrightarrow> ts ! i = Some t \<Longrightarrow> yaffs_prune_worker l False dev (Some t) = (Some t, dev)"
    and "\<forall>i \<in> set is. i < length ts"
  shows "\<exists>h'. fold (\<lambda>i (h, ts, dev).
            let (child, dev) = (if ts ! i \<noteq> None then yaffs_prune_worker l (if i = 0 then False else False) dev (ts ! i)
                                else (None, dev));
                ts = ts[i := child]
            in (h \<or> child \<noteq> None, ts, dev)) is (h, ts, dev) = (h', ts, dev)"
  using assms
proof (induction "is" arbitrary: h)
  case (Cons i "is")
  let ?F = "\<lambda>i (h, ts, dev).
    let (child, dev) = (if ts ! i \<noteq> None then yaffs_prune_worker l (if i = 0 then False else False) dev (ts ! i)
                        else (None, dev));
        ts = ts[i := child]
    in (h \<or> child \<noteq> None, ts, dev)"
  have "?F i (h, ts, dev) = (h \<or> ts ! i \<noteq> None, ts, dev)"
    using Cons.prems(1) [of i] list_update_id [of ts i] by (cases "ts ! i") simp_all
  moreover have "\<exists>h'. fold ?F is (h \<or> ts ! i \<noteq> None, ts, dev) = (h', ts, dev)"
    by (rule Cons.IH) (use Cons.prems in auto)
  ultimately show ?case by (simp only: fold_simps)
qed simp

lemma prune_worker_id: "tree_ok n l t \<Longrightarrow> yaffs_prune_worker l False dev (Some t) = (Some t, dev)"
proof (induction l arbitrary: t)
  case (Suc l)
  obtain a ts where t: "t = Internal a ts" "length ts = 8" "\<And>i s. i < 8 \<Longrightarrow> ts ! i = Some s \<Longrightarrow> tree_ok n l s"
    using Suc.prems by (auto simp: tree_ok_Suc)
  have "\<exists>h'. fold (\<lambda>i (h, ts, dev).
            let (child, dev) = (if ts ! i \<noteq> None then yaffs_prune_worker l (if i = 0 then False else False) dev (ts ! i)
                                else (None, dev));
                ts = ts[i := child]
            in (h \<or> child \<noteq> None, ts, dev)) [0..<8] (False, ts, dev) = (h', ts, dev)"
    by (rule prune_children) (use t Suc.IH in auto)
  then show ?case by (auto simp: t(1) Let_def simp del: upt_Suc)
qed simp

text \<open>C40: The pruning of the branches of a file's tree never removes a node: the flag a node is
  removed under is the one \<open>yaffs_prune_tree\<close> starts with, 0, at every node, because \<open>i == 0>0\<close>
  hands 0 to all children but the first, and the first gets the flag of its parent.\<close>

theorem prune_worker_removes_nothing:
  assumes "tree_ok n level t"
  shows "yaffs_prune_worker level False dev (Some t) = (Some t, dev)"
  by (rule prune_worker_id [OF assms])

lemma lower_tree_spec:
  assumes "tree_ok (map_words dev) l t" "find_down l 0 (Some t) \<noteq> None" "sizes d = sizes dev"
    and "lower_tree l d (Some t) = (l', tn, d')"
  shows "l' \<le> l \<and> sizes d' = sizes dev \<and> (\<exists>t'. tn = Some t' \<and> tree_ok (map_words dev) l' t' \<and>
    find_down l' 0 (Some t') \<noteq> None \<and>
    (\<forall>c. leaf_no c < 8 ^ l \<longrightarrow> tree_entry dev l c (Some t) = (if leaf_no c < 8 ^ l' then tree_entry dev l' c (Some t') else 0)))"
  using assms
proof (induction l arbitrary: t d)
  case (Suc l)
  show ?case
  proof (cases "list_ex (\<lambda>c. c \<noteq> None) (drop 1 (internal_nodes t))")
    case True
    then show ?thesis using Suc.prems by auto
  next
    case False
    have len: "length (internal_nodes t) = 8" by (rule internal_length [OF Suc.prems(1)])
    have z: "child_index 0 l = 0" by (simp add: child_index_digit)
    obtain s where s: "internal_nodes t ! 0 = Some s" "find_down l 0 (Some s) \<noteq> None"
      using Suc.prems(2) z by (cases "internal_nodes t ! 0") auto
    have none: "internal_nodes t ! i = None" if "0 < i" "i < 8" for i
      using False that len nth_mem [of "i - 1" "drop 1 (internal_nodes t)"] by (simp add: list_ex_iff)
    have low: "lower_tree l (yaffs_free_tnode d (tnode_addr t)) (Some s) = (l', tn, d')"
      using Suc.prems(4) False s by simp
    note ih = Suc.IH [OF tree_ok_child [OF Suc.prems(1) _ s(1)] s(2) _ low]
    have entry: "tree_entry dev (Suc l) c (Some t) = (if leaf_no c < 8 ^ l then tree_entry dev l c (Some s) else 0)"
      if "leaf_no c < 8 ^ Suc l" for c
    proof (cases "leaf_no c < 8 ^ l")
      case True
      then show ?thesis using s by (simp add: child_index_digit)
    next
      case False
      then have "child_index c l \<noteq> 0" using that by (simp add: child_index_digit less_mult_imp_div_less div_eq_0_iff)
      then show ?thesis using False none [of "child_index c l"] by simp
    qed
    have "8 ^ l' \<le> (8 :: nat) ^ l" using ih Suc.prems(3) by (intro power_increasing) simp_all
    then have "\<not> leaf_no c < 8 ^ l \<Longrightarrow> \<not> leaf_no c < 8 ^ l'" for c by linarith
    then show ?thesis using ih entry Suc.prems(3) by auto
  qed
qed auto

text \<open>Lowering the tree of a file that shrank leaves the file's map as it is: only top nodes
  without a child but the first are given back. The first child is there as long as chunk 0 is found,
  which the growth of a tree keeps.\<close>

theorem prune_tree_keeps_map:
  assumes f: "file_ok dev f" and z: "yaffs_find_tnode_0 f 0 \<noteq> None"
    and p: "yaffs_prune_tree dev f = (r, f', dev')"
  shows "r = YAFFS_OK \<and> file_ok dev' f' \<and> yaffs_find_tnode_0 f' 0 \<noteq> None \<and>
    (\<forall>c. chunk_entry dev' f' c = chunk_entry dev f c)"
proof (cases "top_level f < 1")
  case True
  then show ?thesis using assms by (simp add: yaffs_prune_tree_def)
next
  case False
  let ?l = "nat (top_level f)"
  obtain t where t: "top f = Some t" "tree_ok (map_words dev) ?l t" using f by (auto simp: file_ok_def split: option.splits)
  obtain l' tn d where low: "lower_tree ?l dev (Some t) = (l', tn, d)" by (metis prod_cases3)
  have res: "r = YAFFS_OK" "f' = f\<lparr>top := tn, top_level := int l'\<rparr>" "dev' = d"
    using p False t low prune_worker_id [OF t(2), of dev] by (simp_all add: yaffs_prune_tree_def)
  have zero: "yaffs_find_tnode_0 g 0 = (if top_level g < 0 \<or> top_level g > YAFFS_TNODES_MAX_LEVEL then None
      else find_down (nat (top_level g)) 0 (top g))" for g
    by (simp add: yaffs_find_tnode_0_def required_depth.simps)
  have "find_down ?l 0 (Some t) \<noteq> None" using z t by (auto simp: zero split: if_splits)
  from lower_tree_spec [OF t(2) this refl low] obtain t'
    where low: "l' \<le> ?l" "sizes d = sizes dev" "tn = Some t'" "tree_ok (map_words dev) l' t'"
      "find_down l' 0 (Some t') \<noteq> None"
      "\<And>c. leaf_no c < 8 ^ ?l \<Longrightarrow> tree_entry dev ?l c (Some t) = (if leaf_no c < 8 ^ l' then tree_entry dev l' c (Some t') else 0)"
    by blast
  have "int l' \<le> top_level f" using low(1) False by linarith
  with f low res have ok: "file_ok dev f'" by (simp add: file_ok_def)
  have le: "(8 :: nat) ^ l' \<le> 8 ^ ?l" using low(1) by (rule power_increasing) simp
  have "chunk_entry dev f' c = chunk_entry dev f c" for c
  proof -
    have "leaf_no c < 8 ^ l' \<Longrightarrow> leaf_no c < 8 ^ ?l" using le by linarith
    then show ?thesis
      unfolding chunk_entry_eq [OF ok] chunk_entry_eq [OF f] using low(6) [of c] by (auto simp: res low(3) t)
  qed
  moreover have "yaffs_find_tnode_0 f' 0 \<noteq> None" using low f res \<open>int l' \<le> top_level f\<close> by (simp add: zero file_ok_def)
  ultimately show ?thesis
    using ok res file_ok_sizes [OF low(2)] chunk_entry_sizes [OF low(2)] by simp
qed

section \<open>Soft deletion\<close>

text \<open>The chunks a tree names, and the nodes below its top.\<close>

definition node_chunks :: "('n, 'x) yaffs_dev_scheme \<Rightarrow> u32 list \<Rightarrow> nat" where
  "node_chunks dev tmap = length (filter (\<lambda>i. yaffs_get_group_base dev tmap (word_of_nat i) \<noteq> 0) [0..<16])"

fun tree_chunks :: "('n, 'x) yaffs_dev_scheme \<Rightarrow> nat \<Rightarrow> yaffs_tnode \<Rightarrow> nat" where
  "tree_chunks dev 0 t = node_chunks dev (tnode_map t)"
| "tree_chunks dev (Suc l) t =
     sum_list (map (\<lambda>c. case c of None \<Rightarrow> 0 | Some s \<Rightarrow> tree_chunks dev l s) (internal_nodes t))"

fun nodes_below :: "nat \<Rightarrow> yaffs_tnode \<Rightarrow> nat" where
  "nodes_below 0 t = 0"
| "nodes_below (Suc l) t =
     sum_list (map (\<lambda>c. case c of None \<Rightarrow> 0 | Some s \<Rightarrow> 1 + nodes_below l s) (internal_nodes t))"

lemma node_chunks_sizes: "sizes d = sizes dev \<Longrightarrow> node_chunks d = node_chunks dev"
  by (drule group_base_sizes) (simp add: node_chunks_def fun_eq_iff)

lemma tree_chunks_sizes: "sizes d = sizes dev \<Longrightarrow> tree_chunks d l t = tree_chunks dev l t"
proof (induction l arbitrary: t)
  case (Suc l)
  then show ?case by (auto intro!: arg_cong [where f = sum_list] map_cong split: option.split)
qed (simp add: node_chunks_sizes [of d dev])

lemma sizes_frame [simp]: "sizes (dev\<lparr>n_free_chunks := i\<rparr>) = sizes dev"
  by (simp add: sizes_def)

lemma update_dirty_frame [simp]:
  "sizes (yaffs2_update_oldest_dirty_seq dev b bi) = sizes dev"
  "n_free_chunks (yaffs2_update_oldest_dirty_seq dev b bi) = n_free_chunks dev"
  "n_tnodes (yaffs2_update_oldest_dirty_seq dev b bi) = n_tnodes dev"
  by (auto simp: yaffs2_update_oldest_dirty_seq_def sizes_def split: option.splits)

lemma soft_del_chunk_frame [simp]:
  "sizes (yaffs_soft_del_chunk dev c) = sizes dev"
  "n_free_chunks (yaffs_soft_del_chunk dev c) = n_free_chunks dev + 1"
  "n_tnodes (yaffs_soft_del_chunk dev c) = n_tnodes dev"
proof -
  let ?d = "upd_block_info dev (c div cpb dev) (\<lambda>bi. bi\<lparr>soft_del_pages := s10 (soft_del_pages bi + 1)\<rparr>)"
  have "sizes ?d = sizes dev" "n_free_chunks ?d = n_free_chunks dev" "n_tnodes ?d = n_tnodes dev"
    by (simp_all add: upd_block_info_def sizes_def)
  then show "sizes (yaffs_soft_del_chunk dev c) = sizes dev"
    "n_free_chunks (yaffs_soft_del_chunk dev c) = n_free_chunks dev + 1"
    "n_tnodes (yaffs_soft_del_chunk dev c) = n_tnodes dev"
    unfolding yaffs_soft_del_chunk_def Let_def by simp_all
qed

lemma free_tnode_frame [simp]:
  "n_free_chunks (yaffs_free_tnode dev a) = n_free_chunks dev"
  "n_tnodes (yaffs_free_tnode dev a) = n_tnodes dev - 1"
  by (simp_all add: yaffs_free_tnode_def yaffs_free_raw_tnode_def Let_def split: option.split)

lemma small_index: "i < 16 \<Longrightarrow> word_of_nat i AND 0xf = (word_of_nat i :: u32)"
proof -
  assume "i < 16"
  then have "i \<in> set [0..<16]" by simp
  moreover have "list_all (\<lambda>i. word_of_nat i AND 0xf = (word_of_nat i :: u32)) [0..<16]"
    by (simp add: upt_conv_Cons)
  ultimately show ?thesis by (simp add: list_all_iff)
qed

lemma small_index_eq: "i < 16 \<Longrightarrow> j < 16 \<Longrightarrow> (word_of_nat i = (word_of_nat j :: u32)) = (i = j)"
proof -
  assume "i < 16" "j < 16"
  then have "unat (word_of_nat i :: u32) = i" "unat (word_of_nat j :: u32) = j" by (simp_all add: unat_of_nat)
  then show ?thesis by metis
qed

lemma soft_del_entries:
  assumes "tnode_geometry dev" "map_words dev \<le> length tmap" "sizes d = sizes dev" "distinct is" "set is \<subseteq> {..<16}"
  shows "case fold soft_del_entry (map word_of_nat is) (tmap, d) of (tmap', d') \<Rightarrow>
    length tmap' = length tmap \<and> sizes d' = sizes dev \<and> n_tnodes d' = n_tnodes d \<and>
    n_free_chunks d' = n_free_chunks d + int (length (filter (\<lambda>i. yaffs_get_group_base dev tmap (word_of_nat i) \<noteq> 0) is)) \<and>
    (\<forall>j<16. yaffs_get_group_base dev tmap' (word_of_nat j) =
       (if j \<in> set is then 0 else yaffs_get_group_base dev tmap (word_of_nat j)))"
  using assms
proof (induction "is" arbitrary: tmap d)
  case (Cons i "is")
  let ?b = "yaffs_get_group_base dev tmap (word_of_nat i)"
  define tmap1 where "tmap1 = (if ?b \<noteq> 0 then yaffs_load_tnode_0 dev tmap (word_of_nat i) 0 else tmap)"
  define d1 where "d1 = (if ?b \<noteq> 0 then yaffs_soft_del_chunk d (sint ?b) else d)"
  have i: "i < 16" "i \<notin> set is" "set is \<subseteq> {..<16}" using Cons.prems by auto
  have s1: "sizes d1 = sizes dev" using Cons.prems(3) by (simp add: d1_def)
  have ld: "yaffs_load_tnode_0 (yaffs_soft_del_chunk d x) = yaffs_load_tnode_0 dev" for x
    by (rule load_sizes) (simp add: Cons.prems(3))
  have "soft_del_entry (word_of_nat i) (tmap, d) = (tmap1, d1)"
    using group_base_sizes [OF Cons.prems(3)]
    by (auto simp: soft_del_entry_def Let_def tmap1_def d1_def ld signed_eq_0_iff)
  then have fold: "fold soft_del_entry (map word_of_nat (i # is)) (tmap, d) =
      fold soft_del_entry (map word_of_nat is) (tmap1, d1)" by simp
  have len: "length tmap1 = length tmap" by (simp add: tmap1_def yaffs_load_tnode_0_def Let_def)
  have entry: "yaffs_get_group_base dev tmap1 (word_of_nat j) =
      (if j = i then 0 else yaffs_get_group_base dev tmap (word_of_nat j))" if "j < 16" for j
    using group_base_load [OF Cons.prems(1,2), of 0 "word_of_nat i" "word_of_nat j"] that i
    by (auto simp: tmap1_def small_index small_index_eq)
  have filt: "filter (\<lambda>i. yaffs_get_group_base dev tmap1 (word_of_nat i) \<noteq> 0) is
      = filter (\<lambda>i. yaffs_get_group_base dev tmap (word_of_nat i) \<noteq> 0) is"
  proof (rule filter_cong [OF refl])
    fix x assume "x \<in> set is"
    then have "x < 16" "x \<noteq> i" using i by auto
    then show "(yaffs_get_group_base dev tmap1 (word_of_nat x) \<noteq> 0) = (yaffs_get_group_base dev tmap (word_of_nat x) \<noteq> 0)"
      by (simp add: entry)
  qed
  have "n_free_chunks d1 = n_free_chunks d + (if ?b \<noteq> 0 then 1 else 0)" "n_tnodes d1 = n_tnodes d"
    by (simp_all add: d1_def)
  then show ?case
    using Cons.IH [OF Cons.prems(1) _ s1, of tmap1] Cons.prems(2,4) i entry filt unfolding fold len by auto
qed simp

text \<open>What the worker leaves of a node: a level 0 node with no entry, or a node with no child.\<close>

definition emptied :: "('n, 'x) yaffs_dev_scheme \<Rightarrow> nat \<Rightarrow> yaffs_tnode \<Rightarrow> bool" where
  "emptied dev l t \<longleftrightarrow> (if l = 0 then node_chunks dev (tnode_map t) = 0 else internal_nodes t = replicate 8 None)"

abbreviation opt_chunks :: "('n, 'x) yaffs_dev_scheme \<Rightarrow> nat \<Rightarrow> yaffs_tnode option \<Rightarrow> nat" where
  "opt_chunks dev l c \<equiv> (case c of None \<Rightarrow> 0 | Some s \<Rightarrow> tree_chunks dev l s)"

abbreviation opt_nodes :: "nat \<Rightarrow> yaffs_tnode option \<Rightarrow> nat" where
  "opt_nodes l c \<equiv> (case c of None \<Rightarrow> 0 | Some s \<Rightarrow> 1 + nodes_below l s)"

definition soft_del_child ::
  "nat \<Rightarrow> nat \<Rightarrow> bool \<times> yaffs_tnode option list \<times> ('n, 'x) yaffs_mem_dev_scheme \<Rightarrow>
   bool \<times> yaffs_tnode option list \<times> ('n, 'x) yaffs_mem_dev_scheme" where
  "soft_del_child l = (\<lambda>i (all_done, ts, dev).
     if \<not> all_done \<or> ts ! i = None then (all_done, ts, dev)
     else (let (child_done, child, dev) = yaffs_soft_del_worker l dev (ts ! i)
           in if child_done
              then (True, ts[i := None],
                    case child of None \<Rightarrow> dev | Some c \<Rightarrow> yaffs_free_tnode dev (tnode_addr c))
              else (False, ts[i := child], dev)))"

lemma soft_del_worker_Suc:
  "yaffs_soft_del_worker (Suc l) dev (Some tn) =
     (let (all_done, ts, dev) = fold (soft_del_child l) (rev [0..<8]) (True, internal_nodes tn, dev)
      in (all_done, Some (Internal (tnode_addr tn) ts), dev))"
  by (simp only: yaffs_soft_del_worker.simps soft_del_child_def)

definition child_freed :: "('n, 'x) yaffs_mem_dev_scheme \<Rightarrow> nat \<Rightarrow> yaffs_tnode \<Rightarrow> bool" where
  "child_freed dev l t \<longleftrightarrow> (\<forall>d :: ('n, 'x) yaffs_mem_dev_scheme. sizes d = sizes dev \<longrightarrow>
     (\<exists>t' d'. yaffs_soft_del_worker l d (Some t) = (True, Some t', d') \<and> sizes d' = sizes dev \<and>
        n_free_chunks d' = n_free_chunks d + int (tree_chunks dev l t) \<and> n_tnodes d' = n_tnodes d - int (nodes_below l t)))"

lemma soft_del_child_step:
  fixes dev d :: "('n, 'x) yaffs_mem_dev_scheme"
  assumes "\<forall>t. ts ! i = Some t \<longrightarrow> child_freed dev l t" "sizes d = sizes dev"
  shows "\<exists>d'. soft_del_child l i (True, ts, d) = (True, ts[i := None], d') \<and> sizes d' = sizes dev \<and>
    n_free_chunks d' = n_free_chunks d + int (opt_chunks dev l (ts ! i)) \<and>
    n_tnodes d' = n_tnodes d - int (opt_nodes l (ts ! i))"
proof (cases "ts ! i")
  case None
  then show ?thesis using assms(2) list_update_id [of ts i] by (simp add: soft_del_child_def)
next
  case (Some t)
  then obtain t' d' where "yaffs_soft_del_worker l d (Some t) = (True, Some t', d')" "sizes d' = sizes dev"
    "n_free_chunks d' = n_free_chunks d + int (tree_chunks dev l t)" "n_tnodes d' = n_tnodes d - int (nodes_below l t)"
    using assms by (auto simp: child_freed_def)
  then show ?thesis using Some by (simp add: soft_del_child_def)
qed

lemma soft_del_children:
  fixes dev d :: "('n, 'x) yaffs_mem_dev_scheme"
  assumes "\<forall>i \<in> set is. \<forall>t. ts ! i = Some t \<longrightarrow> child_freed dev l t" "length ts = 8"
    and "sizes d = sizes dev" "distinct is" "set is \<subseteq> {..<8}"
  shows "\<exists>ts' d'. fold (soft_del_child l) is (True, ts, d) = (True, ts', d') \<and> length ts' = 8 \<and> sizes d' = sizes dev \<and>
        (\<forall>j<8. ts' ! j = (if j \<in> set is then None else ts ! j)) \<and>
        n_free_chunks d' = n_free_chunks d + int (sum_list (map (\<lambda>i. opt_chunks dev l (ts ! i)) is)) \<and>
        n_tnodes d' = n_tnodes d - int (sum_list (map (\<lambda>i. opt_nodes l (ts ! i)) is))"
  using assms
proof (induction "is" arbitrary: ts d)
  case (Cons i "is")
  have i: "i < 8" "i \<notin> set is" "set is \<subseteq> {..<8}" "distinct is" using Cons.prems by auto
  obtain d1 where step: "soft_del_child l i (True, ts, d) = (True, ts[i := None], d1)" and d1: "sizes d1 = sizes dev"
      "n_free_chunks d1 = n_free_chunks d + int (opt_chunks dev l (ts ! i))"
      "n_tnodes d1 = n_tnodes d - int (opt_nodes l (ts ! i))"
    using soft_del_child_step [of ts i dev l d] Cons.prems(1,3) by auto
  have at: "ts[i := None] ! j = ts ! j" if "j \<in> set is" for j using that i by (metis nth_list_update_neq)
  have same: "map (\<lambda>j. g (ts[i := None] ! j)) is = map (\<lambda>j. g (ts ! j)) is" for g :: "yaffs_tnode option \<Rightarrow> nat"
    by (rule map_cong [OF refl]) (simp add: at)
  have "\<forall>j \<in> set is. \<forall>t. ts[i := None] ! j = Some t \<longrightarrow> child_freed dev l t" using Cons.prems(1) at by simp
  from Cons.IH [OF this _ d1(1) i(4,3)] Cons.prems(2) obtain ts' d'
    where ih: "fold (soft_del_child l) is (True, ts[i := None], d1) = (True, ts', d')" "length ts' = 8" "sizes d' = sizes dev"
      "\<forall>j<8. ts' ! j = (if j \<in> set is then None else ts[i := None] ! j)"
      "n_free_chunks d' = n_free_chunks d1 + int (sum_list (map (\<lambda>i. opt_chunks dev l (ts ! i)) is))"
      "n_tnodes d' = n_tnodes d1 - int (sum_list (map (\<lambda>i. opt_nodes l (ts ! i)) is))"
    unfolding same by auto
  have "\<forall>j<8. ts' ! j = (if j \<in> set (i # is) then None else ts ! j)"
    using ih(4) Cons.prems(2) i(1) by (auto simp: nth_list_update)
  then show ?case using ih d1 by (simp add: step)
qed simp

lemma soft_del_worker_spec:
  fixes dev d :: "('n, 'x) yaffs_mem_dev_scheme"
  assumes "tnode_geometry dev"
  shows "tree_ok (map_words dev) l t \<Longrightarrow> sizes d = sizes dev \<Longrightarrow>
    \<exists>t' d'. yaffs_soft_del_worker l d (Some t) = (True, Some t', d') \<and> sizes d' = sizes dev \<and> emptied dev l t' \<and>
      n_free_chunks d' = n_free_chunks d + int (tree_chunks dev l t) \<and> n_tnodes d' = n_tnodes d - int (nodes_below l t)"
proof (induction l arbitrary: t d)
  case 0
  obtain a ws where t: "t = Level0 a ws" "length ws = map_words dev" using 0 by (auto simp: tree_ok_0)
  obtain tmap d' where fold: "fold soft_del_entry (map word_of_nat (rev [0..<16])) (ws, d) = (tmap, d')" by fastforce
  have "distinct (rev [0..<16])" "set (rev [0..<16]) \<subseteq> {..<16}" by auto
  note se = soft_del_entries [OF assms _ 0(2) this, of ws, unfolded fold prod.case]
  have cnt: "length (filter P (rev xs)) = length (filter P xs)" for P and xs :: "nat list"
    by (simp flip: rev_filter)
  have "node_chunks dev tmap = 0" using se t(2) by (simp add: node_chunks_def filter_empty_conv)
  then show ?case
    using se t fold by (simp add: emptied_def node_chunks_def [of dev ws] cnt Let_def)
next
  case (Suc l)
  obtain a ts where t: "t = Internal a ts" "length ts = 8" "\<And>i s. i < 8 \<Longrightarrow> ts ! i = Some s \<Longrightarrow> tree_ok (map_words dev) l s"
    using Suc.prems(1) by (auto simp: tree_ok_Suc)
  have freed: "\<forall>i \<in> set (rev [0..<8]). \<forall>s. ts ! i = Some s \<longrightarrow> child_freed dev l s"
    using t(3) Suc.IH unfolding child_freed_def by fastforce
  have order: "distinct (rev [0..<8])" "set (rev [0..<8]) \<subseteq> {..<8}" by auto
  have sums: "sum_list (map (\<lambda>i. g (ts ! i)) (rev [0..<8])) = sum_list (map g ts)" for g :: "yaffs_tnode option \<Rightarrow> nat"
  proof -
    have "sum_list (map (\<lambda>i. g (ts ! i)) (rev [0..<8])) = sum_list (map (\<lambda>i. g (ts ! i)) [0..<8])"
      by (simp only: rev_map [symmetric] sum_list_rev)
    also have "map (\<lambda>i. g (ts ! i)) [0..<8] = map g (map ((!) ts) [0..<length ts])" by (simp only: t(2) map_map comp_def)
    finally show ?thesis by (simp only: map_nth)
  qed
  obtain ts' d' where sc: "fold (soft_del_child l) (rev [0..<8]) (True, ts, d) = (True, ts', d')" "length ts' = 8"
      "sizes d' = sizes dev" "\<forall>j<8. ts' ! j = (if j \<in> set (rev [0..<8]) then None else ts ! j)"
      "n_free_chunks d' = n_free_chunks d + int (sum_list (map (opt_chunks dev l) ts))"
      "n_tnodes d' = n_tnodes d - int (sum_list (map (opt_nodes l) ts))"
    using soft_del_children [OF freed t(2) Suc.prems(2) order]
    unfolding sums [of "opt_chunks dev l"] sums [of "opt_nodes l"] by blast
  have "ts' = replicate 8 None" using sc(2,4) by (intro nth_equalityI) auto
  then show ?case
    using sc unfolding soft_del_worker_Suc t(1) by (simp add: emptied_def)
qed

text \<open>C25: Soft deletion of a file's tree always gets through: every chunk the tree names is counted
  free again, every node below the top goes back to the allocator, and what is left is a top without
  children, or, in a tree of one node, without entries.\<close>

theorem soft_del_worker_frees_all:
  assumes "tnode_geometry dev" "tree_ok (map_words dev) level t"
  shows "\<exists>t' d. yaffs_soft_del_worker level dev (Some t) = (True, Some t', d) \<and> emptied dev level t' \<and>
    n_free_chunks d = n_free_chunks dev + int (tree_chunks dev level t) \<and>
    n_tnodes d = n_tnodes dev - int (nodes_below level t)"
  using soft_del_worker_spec [OF assms refl] by blast

section \<open>Witnesses\<close>

text \<open>The small device with its heap, its sizes set up, and chunk 5 in use; a file of one node.\<close>

definition used_pool_dev :: "unit yaffs_mem_dev" where
  "used_pool_dev = yaffs_set_chunk_bit pool_dev 1 1"

definition file_dev :: "unit yaffs_mem_dev" where
  "file_dev = snd (init_sizes used_pool_dev)"

definition empty_file :: yaffs_file_var where
  "empty_file = \<lparr>file_size = 0, stored_size = 0, shrink_size = 0, top_level = 0,
     top = Some (Level0 (1, 0) (replicate (map_words file_dev) 0))\<rparr>"

definition zero_obj :: yaffs_obj where
  "zero_obj = \<lparr>deleted = False, soft_del = False, unlinked = False, fake = False, rename_allowed = True,
     unlink_allowed = True, obj_dirty = False, obj_valid = True, lazy_loaded = False, defered_free = False,
     being_created = False, is_shadowed = False, xattr_known = False, has_xattr = False, serial = 0,
     name_sum = 0, hdr_chunk = 0, n_data_chunks = 0, obj_number = 300, yst_mode = 0, yst_uid = 0,
     yst_gid = 0, yst_atime = 0, yst_mtime = 0, yst_ctime = 0, yst_rdev = 0,
     variant_type = YAFFS_OBJECT_TYPE_FILE, file_variant = empty_file, equiv_id = 0\<rparr>"

lemma used_pool_fields: "data_bytes_per_chunk used_pool_dev = 64" "param used_pool_dev = small_param"
  "internal_end_block used_pool_dev = 4" "internal_start_block used_pool_dev = 1" "chunk_bit_stride used_pool_dev = 1"
  "chunk_bits used_pool_dev = [2, 0, 0, 0]"
  by (simp_all add: used_pool_dev_def yaffs_set_chunk_bit_def yaffs_block_bits_def Let_def
      yaffs_init_raw_tnodes_and_objs_def kmalloc_def heap_dev_def yaffs_dev.defs yaffs_mem_dev.defs
      yaffs_init_raw_tnodes_def yaffs_init_raw_objs_def small_dev_def zero_dev_def eval_nat_numeral)

lemma used_pool_sane: "sane_sizes used_pool_dev"
  by (simp add: sane_sizes_def used_pool_fields small_param_def)

lemma file_dev_init: "init_sizes used_pool_dev = (fst (init_sizes used_pool_dev), file_dev)"
  by (simp add: file_dev_def)

lemmas file_dev_sizes = init_sizes_wide [OF used_pool_sane file_dev_init]

lemma file_dev_fields: "param file_dev = small_param" "internal_start_block file_dev = 1"
  "chunk_bit_stride file_dev = 1" "chunk_bits file_dev = [2, 0, 0, 0]"
  by (simp_all add: file_dev_def init_sizes_def Let_def init_tnode_numbers_def init_chunk_numbers_def used_pool_fields)

lemma empty_file_ok: "file_ok file_dev empty_file"
  by (simp add: file_ok_def empty_file_def tree_ok_0 YAFFS_TNODES_MAX_LEVEL_def)

lemma entry_5_fits: "entry_fits file_dev (word_of_int 5)"
  by (rule file_dev_sizes(5)) (simp_all add: used_pool_fields small_param_def)

lemma empty_file_entry: "chunk_entry file_dev empty_file c = 0"
  using group_base_zero [OF file_dev_sizes(4) order_refl, of c] empty_file_ok
  by (simp add: chunk_entry_eq) (simp add: empty_file_def leaf_entry_def)

lemma get_group_base_load_tnode_0_witness:
  "yaffs_get_group_base file_dev (yaffs_load_tnode_0 file_dev (replicate (map_words file_dev) 0) 3 5) 3 = 5"
  using get_group_base_load_tnode_0 [OF file_dev_sizes(4), of "replicate (map_words file_dev) 0" 5 3 3] entry_5_fits
  by (simp add: entry_fits_def file_dev_sizes(2))

lemma file_dev_pool: "allocator file_dev = allocator used_pool_dev"
  by (simp add: file_dev_def init_sizes_def Let_def init_tnode_numbers_def init_chunk_numbers_def)

lemma file_dev_gives:
  "\<exists>a d. yaffs_get_tnode file_dev = (Some a, d) \<and> (\<exists>al. allocator d = Some al \<and> 1 \<le> List.length (free_tnodes al))"
proof -
  have "\<exists>m. allocator used_pool_dev = Some m \<and> free_tnodes m = []" "kmalloc_ok used_pool_dev i" for i
    by (simp_all add: used_pool_dev_def yaffs_set_chunk_bit_def Let_def yaffs_init_raw_tnodes_and_objs_def kmalloc_def heap_dev_def
        yaffs_dev.defs yaffs_mem_dev.defs yaffs_init_raw_tnodes_def yaffs_init_raw_objs_def)
  moreover have "kmalloc_ok file_dev = kmalloc_ok used_pool_dev"
    by (simp add: file_dev_def init_sizes_def Let_def init_tnode_numbers_def init_chunk_numbers_def)
  ultimately obtain m where m: "allocator file_dev = Some m" "free_tnodes m = []" "\<And>i. kmalloc_ok file_dev i"
    using file_dev_pool by auto
  show ?thesis
    using m by (auto simp: yaffs_get_tnode_def yaffs_alloc_raw_tnode_def yaffs_create_tnodes_def kmalloc_def Let_def
      YAFFS_ALLOCATION_NTNODES_def upt_conv_Cons)
qed

lemma put_chunk_in_file_updates_map_witness:
  "case yaffs_put_chunk_in_file file_dev zero_obj 20 5 0 of (r, obj', dev') \<Rightarrow>
     r = YAFFS_OK \<and> chunk_entry dev' (file_variant obj') 7 = 0 \<and> chunk_entry dev' (file_variant obj') 20 = 5"
proof -
  obtain r obj' dev' where put: "yaffs_put_chunk_in_file file_dev zero_obj 20 5 0 = (r, obj', dev')" by (rule prod_cases3)
  have f: "file_ok file_dev (file_variant zero_obj)" "variant_type zero_obj = YAFFS_OBJECT_TYPE_FILE"
    using empty_file_ok by (simp_all add: zero_obj_def)
  note th = put_chunk_in_file_updates_map [OF f(1) file_dev_sizes(4) f(2) entry_5_fits put]
  have "nodes_missing (file_variant zero_obj) (word_of_int 20) = 2"
    by (simp add: nodes_missing_def zero_obj_def empty_file_def required_depth.simps Let_def)
  then have "take_tnodes 2 file_dev = (r = YAFFS_OK, dev')" using th [of 7] by (simp add: YAFFS_MAX_CHUNK_ID_def)
  moreover have "fst (take_tnodes 2 file_dev)"
  proof -
    obtain a d where g: "yaffs_get_tnode file_dev = (Some a, d)" "\<exists>al. allocator d = Some al \<and> 1 \<le> List.length (free_tnodes al)"
      using file_dev_gives by blast
    then show ?thesis using take_tnodes_free [of d _ 1] by (auto simp: eval_nat_numeral)
  qed
  ultimately have "r = YAFFS_OK" by simp
  then show ?thesis using th [of 7] th [of 20] put empty_file_entry [of 7]
    by (simp add: rounded_def file_dev_sizes(2)) (simp add: zero_obj_def)
qed

lemma add_find_tnode_0_keeps_map_witness:
  "case yaffs_add_find_tnode_0 file_dev empty_file 500 None of (found, f', dev') \<Rightarrow> chunk_entry dev' f' 9 = 0"
proof -
  obtain found f' dev' where "yaffs_add_find_tnode_0 file_dev empty_file 500 None = (found, f', dev')" by (rule prod_cases3)
  with add_find_tnode_0_keeps_map [OF empty_file_ok file_dev_sizes(4) this] empty_file_entry [of 9]
  show ?thesis by simp
qed

lemma put_into_empty:
  "\<exists>obj'. yaffs_put_chunk_in_file file_dev zero_obj 3 5 0 = (YAFFS_OK, obj', file_dev)"
  by (simp add: yaffs_put_chunk_in_file_def yaffs_add_find_tnode_0_def zero_obj_def empty_file_def Let_def
      required_depth.simps YAFFS_TNODES_MAX_LEVEL_def YAFFS_MAX_CHUNK_ID_def)

lemma find_chunk_after_put_witness:
  "\<exists>obj'. fst (yaffs_find_chunk_in_file file_dev obj' 3 zero_tags) = 5"
proof -
  obtain obj' where put: "yaffs_put_chunk_in_file file_dev zero_obj 3 5 0 = (YAFFS_OK, obj', file_dev)"
    using put_into_empty by blast
  have f: "file_ok file_dev (file_variant zero_obj)" "variant_type zero_obj = YAFFS_OBJECT_TYPE_FILE"
    using empty_file_ok by (simp_all add: zero_obj_def)
  have "yaffs_check_chunk_bit file_dev (5 div cpb file_dev) (5 mod cpb file_dev)"
    by (simp add: yaffs_check_chunk_bit_def yaffs_block_bits_def file_dev_fields small_param_def)
  with find_chunk_after_put [OF f(1) file_dev_sizes(4) f(2) entry_5_fits put] file_dev_sizes(2,3)
  show ?thesis by auto
qed

lemma addr_to_chunk_splits_witness: "yaffs_addr_to_chunk file_dev 200 = (3, 8)"
  using addr_to_chunk_splits [OF used_pool_sane file_dev_init, of 200] by (simp add: used_pool_fields)

text \<open>A tree of two levels with one entry.\<close>

definition small_tree :: yaffs_tnode where
  "small_tree = Internal (1, 1) [Some (Level0 (1, 2) (5 # replicate (map_words file_dev - 1) 0)),
     None, None, None, None, None, None, None]"

lemma small_tree_ok: "tree_ok (map_words file_dev) 1 small_tree"
proof -
  have "0 < map_words file_dev" using file_dev_sizes(4) by (auto simp: tnode_geometry_def elim!: evenE)
  then show ?thesis
    by (simp add: small_tree_def tree_ok.simps)
qed

lemma prune_worker_removes_nothing_witness:
  "yaffs_prune_worker 1 False file_dev (Some small_tree) = (Some small_tree, file_dev)"
  by (rule prune_worker_removes_nothing [OF small_tree_ok])

lemma soft_del_worker_frees_all_witness:
  "\<exists>t' d. yaffs_soft_del_worker 1 file_dev (Some small_tree) = (True, Some t', d) \<and> n_tnodes d = n_tnodes file_dev - 1"
proof -
  have "nodes_below 1 small_tree = 1" by (simp add: small_tree_def)
  then show ?thesis using soft_del_worker_frees_all [OF file_dev_sizes(4) small_tree_ok] by auto
qed

lemma prune_tree_keeps_map_witness:
  "case yaffs_prune_tree file_dev (empty_file\<lparr>top := Some small_tree, top_level := 1\<rparr>) of (r, f', dev') \<Rightarrow>
     r = YAFFS_OK \<and> yaffs_find_tnode_0 f' 0 \<noteq> None"
proof -
  let ?f = "empty_file\<lparr>top := Some small_tree, top_level := 1\<rparr>"
  have "file_ok file_dev ?f" using small_tree_ok by (simp add: file_ok_def YAFFS_TNODES_MAX_LEVEL_def)
  moreover have "yaffs_find_tnode_0 ?f 0 \<noteq> None"
    by (simp add: yaffs_find_tnode_0_def required_depth.simps YAFFS_TNODES_MAX_LEVEL_def small_tree_def child_index_digit)
  moreover obtain r f' dev' where "yaffs_prune_tree file_dev ?f = (r, f', dev')" by (rule prod_cases3)
  ultimately show ?thesis using prune_tree_keeps_map by fastforce
qed

end
