(* ===== verification/Yaffs_Checkpt.thy ===== *)
theory Yaffs_Checkpt
  imports Yaffs_AllocSteps Yaffs_Codec
begin

text \<open>
  The checkpoint stream (\<open>yaffs_checkptrw.c\<close>): a file-like stream of bytes kept in blocks of the
  device that are in state CHECKPOINT. Each chunk starts with a header of four words (version,
  page number, and the sums of all bytes written before it) and its tags point to the next block to look at.

  \<open>mem\<close> and \<open>list_mem\<close> are what the allocations of the buffer and of the block list return, and
  \<open>junk\<close> is the old contents of the local tags structure of which the flush fills in five fields.
  The driver provides all functions, so the tests for null function pointers are always passed.
  Reading returns \<open>None\<close> when the code would read past the end of the buffer.
\<close>

unbundle bit_operations_syntax

section \<open>The chunk header\<close>

abbreviation YAFFS_CHECKPOINT_VERSION :: u32 where "YAFFS_CHECKPOINT_VERSION \<equiv> 8"

text \<open>\<open>version\<close> and \<open>seq\<close> are C \<open>int\<close>s that are only stored, swapped and compared: words.\<close>

record yaffs_checkpt_chunk_hdr =
  ch_version :: u32
  ch_seq :: u32
  ch_sum :: u32
  ch_xor :: u32

definition chunk_hdr_bytes :: "bool \<Rightarrow> yaffs_checkpt_chunk_hdr \<Rightarrow> u8 list" where
  "chunk_hdr_bytes le h = bytes4 le (ch_version h, ch_seq h, ch_sum h, ch_xor h)"

definition chunk_hdr_of_bytes :: "bool \<Rightarrow> u8 list \<Rightarrow> yaffs_checkpt_chunk_hdr" where
  "chunk_hdr_of_bytes le bs = (case fields4 le bs of (v, s, m, x) \<Rightarrow>
     \<lparr>ch_version = v, ch_seq = s, ch_sum = m, ch_xor = x\<rparr>)"

definition apply_chunk_offset :: "('n, 'x) yaffs_dev_scheme \<Rightarrow> int \<Rightarrow> int" where
  "apply_chunk_offset dev chunk = chunk - chunk_offset dev"

definition apply_block_offset :: "('n, 'x) yaffs_dev_scheme \<Rightarrow> int \<Rightarrow> int" where
  "apply_block_offset dev block = block - block_offset dev"

definition yaffs2_do_endian_hdr ::
  "('n, 'x) yaffs_dev_scheme \<Rightarrow> yaffs_checkpt_chunk_hdr \<Rightarrow> yaffs_checkpt_chunk_hdr" where
  "yaffs2_do_endian_hdr dev hdr =
     (if \<not> swap_endian dev then hdr
      else \<lparr>ch_version = swap_u32 (ch_version hdr), ch_seq = swap_u32 (ch_seq hdr),
            ch_sum = swap_u32 (ch_sum hdr), ch_xor = swap_u32 (ch_xor hdr)\<rparr>)"

definition upd_ck :: "('n, 'x) yaffs_dev_scheme \<Rightarrow> (yaffs_checkpt \<Rightarrow> yaffs_checkpt) \<Rightarrow> ('n, 'x) yaffs_dev_scheme" where
  "upd_ck dev f = dev\<lparr>ck := f (ck dev)\<rparr>"

definition yaffs2_checkpt_init_chunk_hdr :: "('n, 'x) yaffs_dev_scheme \<Rightarrow> ('n, 'x) yaffs_dev_scheme" where
  "yaffs2_checkpt_init_chunk_hdr dev =
     (let hdr = \<lparr>ch_version = YAFFS_CHECKPOINT_VERSION, ch_seq = word_of_int (checkpt_page_seq (ck dev)),
                 ch_sum = checkpt_sum (ck dev), ch_xor = checkpt_xor (ck dev)\<rparr>;
          dev = upd_ck dev (\<lambda>c. c\<lparr>checkpt_byte_offs := 16\<rparr>);
          hdr = yaffs2_do_endian_hdr dev hdr
      in upd_ck dev (\<lambda>c. c\<lparr>checkpt_buffer :=
           map_option (\<lambda>buf. chunk_hdr_bytes (host_le dev) hdr @ drop 16 buf) (checkpt_buffer c)\<rparr>))"

definition yaffs2_checkpt_check_chunk_hdr :: "('n, 'x) yaffs_dev_scheme \<Rightarrow> bool \<times> ('n, 'x) yaffs_dev_scheme" where
  "yaffs2_checkpt_check_chunk_hdr dev =
     (let hdr = chunk_hdr_of_bytes (host_le dev) (case checkpt_buffer (ck dev) of None \<Rightarrow> [] | Some buf \<Rightarrow> take 16 buf);
          hdr = yaffs2_do_endian_hdr dev hdr;
          dev = upd_ck dev (\<lambda>c. c\<lparr>checkpt_byte_offs := 16\<rparr>)
      in (ch_version hdr = YAFFS_CHECKPOINT_VERSION \<and>
          ch_seq hdr = word_of_int (checkpt_page_seq (ck dev)) \<and>
          ch_sum hdr = checkpt_sum (ck dev) \<and> ch_xor hdr = checkpt_xor (ck dev), dev))"

section \<open>Finding blocks\<close>

definition yaffs2_checkpt_space_ok :: "('n, 'x) yaffs_dev_scheme \<Rightarrow> bool" where
  "yaffs2_checkpt_space_ok dev =
     (let blocks_avail = n_erased_blocks dev - n_reserved_blocks (param dev) in \<not> blocks_avail \<le> 0)"

text \<open>The next EMPTY block to write to, from where the last search ended.\<close>

definition yaffs2_checkpt_find_erased_block :: "('n, 'x) yaffs_dev_scheme \<Rightarrow> ('n, 'x) yaffs_dev_scheme" where
  "yaffs2_checkpt_find_erased_block dev =
     (let blocks_avail = n_erased_blocks dev - n_reserved_blocks (param dev);
          next_block = checkpt_next_block (ck dev);
          found = (if 0 \<le> next_block \<and> next_block \<le> internal_end_block dev \<and> blocks_avail > 0
            then find (\<lambda>i. block_state (yaffs_get_block_info dev i) = YAFFS_BLOCK_STATE_EMPTY)
                   [next_block..internal_end_block dev]
            else None)
      in case found of
           Some i \<Rightarrow> upd_ck dev (\<lambda>c. c\<lparr>checkpt_next_block := i + 1, checkpt_cur_block := i\<rparr>)
         | None \<Rightarrow> upd_ck dev (\<lambda>c. c\<lparr>checkpt_next_block := -1, checkpt_cur_block := -1\<rparr>))"

text \<open>The next block to read from: the loop variable is unsigned, so a negative start ends it at once.\<close>

fun find_checkpt_block_loop :: "int list \<Rightarrow> ('n, 'x) yaffs_dev_scheme \<Rightarrow> ('n, 'x) yaffs_dev_scheme" where
  "find_checkpt_block_loop [] dev =
     upd_ck dev (\<lambda>c. c\<lparr>checkpt_next_block := -1, checkpt_cur_block := -1\<rparr>)"
| "find_checkpt_block_loop (i # blocks) dev =
     (let chunk = i * cpb dev;
          (_, _, tags, n) = read_chunk_tags_fn (tagger dev) (nand dev) (apply_chunk_offset dev chunk) False;
          dev = dev\<lparr>nand := n\<rparr>
      in if seq_number tags \<noteq> YAFFS_SEQUENCE_CHECKPOINT_DATA then find_checkpt_block_loop blocks dev
         else
          (let (_, state, _, n) = query_block_fn (tagger dev) (nand dev) (apply_block_offset dev i);
               dev = dev\<lparr>nand := n\<rparr>
           in if state = YAFFS_BLOCK_STATE_DEAD then find_checkpt_block_loop blocks dev
              else upd_ck dev (\<lambda>c. c\<lparr>checkpt_next_block := sint (obj_id tags), checkpt_cur_block := i,
                     checkpt_block_list := map_option (\<lambda>bl. bl[nat (blocks_in_checkpt c) := i]) (checkpt_block_list c),
                     blocks_in_checkpt := blocks_in_checkpt c + 1\<rparr>)))"

definition yaffs2_checkpt_find_block :: "('n, 'x) yaffs_dev_scheme \<Rightarrow> ('n, 'x) yaffs_dev_scheme" where
  "yaffs2_checkpt_find_block dev =
     (let next_block = checkpt_next_block (ck dev)
      in find_checkpt_block_loop
           (if blocks_in_checkpt (ck dev) < checkpt_max_blocks (ck dev) \<and> 0 \<le> next_block
            then [next_block..internal_end_block dev] else []) dev)"

section \<open>Opening\<close>

definition yaffs2_checkpt_open ::
  "u8 list option \<Rightarrow> int list option \<Rightarrow> ('n, 'x) yaffs_dev_scheme \<Rightarrow> bool \<Rightarrow> int \<times> ('n, 'x) yaffs_dev_scheme" where
  "yaffs2_checkpt_open mem list_mem dev writing =
     (let dev = upd_ck dev (\<lambda>c. c\<lparr>checkpt_open_write := writing\<rparr>)
      in if writing \<and> \<not> yaffs2_checkpt_space_ok dev then (0, dev)
         else
          (let dev = (if checkpt_buffer (ck dev) = None then upd_ck dev (\<lambda>c. c\<lparr>checkpt_buffer := mem\<rparr>) else dev)
           in if checkpt_buffer (ck dev) = None then (0, dev)
              else
               (let dev = upd_ck dev (\<lambda>c. c\<lparr>checkpt_page_seq := 0, checkpt_byte_count := 0, checkpt_sum := 0,
                      checkpt_xor := 0, checkpt_cur_block := -1, checkpt_cur_chunk := -1,
                      checkpt_next_block := internal_start_block dev\<rparr>)
                in if writing then
                     (let dev = upd_ck dev (\<lambda>c. c\<lparr>checkpt_buffer := map_option (\<lambda>buf.
                            replicate (data_bytes_per_chunk dev) 0 @ drop (data_bytes_per_chunk dev) buf) (checkpt_buffer c)\<rparr>)
                      in yaffs_checkpt_erase (yaffs2_checkpt_init_chunk_hdr dev))
                   else
                     (let dev = upd_ck dev (\<lambda>c. c\<lparr>checkpt_byte_offs := int (data_bytes_per_chunk dev),
                            blocks_in_checkpt := 0,
                            checkpt_max_blocks := (internal_end_block dev - internal_start_block dev) div 16 + 2\<rparr>);
                          dev = (if checkpt_block_list (ck dev) = None
                                 then upd_ck dev (\<lambda>c. c\<lparr>checkpt_block_list := list_mem\<rparr>) else dev)
                      in case checkpt_block_list (ck dev) of
                           None \<Rightarrow> (0, dev)
                         | Some bl \<Rightarrow>
                             (let m = nat (checkpt_max_blocks (ck dev))
                              in (1, upd_ck dev (\<lambda>c. c\<lparr>checkpt_block_list := Some (replicate m (-1) @ drop m bl)\<rparr>)))))))"

definition yaffs2_get_checkpt_sum :: "('n, 'x) yaffs_dev_scheme \<Rightarrow> u32" where
  "yaffs2_get_checkpt_sum dev = push_bit 8 (checkpt_sum (ck dev)) OR (checkpt_xor (ck dev) AND 0xff)"

section \<open>Writing\<close>

definition yaffs2_checkpt_flush_buffer ::
  "yaffs_ext_tags \<Rightarrow> ('n, 'x) yaffs_dev_scheme \<Rightarrow> int \<times> ('n, 'x) yaffs_dev_scheme" where
  "yaffs2_checkpt_flush_buffer junk dev =
     (let dev = (if checkpt_cur_block (ck dev) < 0
                 then upd_ck (yaffs2_checkpt_find_erased_block dev) (\<lambda>c. c\<lparr>checkpt_cur_chunk := 0\<rparr>) else dev)
      in if checkpt_cur_block (ck dev) < 0 then (0, dev)
         else
          (let tags = junk\<lparr>is_deleted := 0, obj_id := word_of_int (checkpt_next_block (ck dev)),
                 chunk_id := word_of_int (checkpt_page_seq (ck dev) + 1),
                 seq_number := YAFFS_SEQUENCE_CHECKPOINT_DATA, n_bytes := word_of_nat (data_bytes_per_chunk dev)\<rparr>;
               dev = (if checkpt_cur_chunk (ck dev) = 0 then
                        upd_ck (upd_block_info dev (checkpt_cur_block (ck dev))
                            (\<lambda>bi. bi\<lparr>block_state := YAFFS_BLOCK_STATE_CHECKPOINT\<rparr>))
                          (\<lambda>c. c\<lparr>blocks_in_checkpt := blocks_in_checkpt c + 1\<rparr>)
                      else dev);
               chunk = checkpt_cur_block (ck dev) * cpb dev + checkpt_cur_chunk (ck dev);
               offset_chunk = apply_chunk_offset dev chunk;
               dev = upd_stats dev (\<lambda>s. s\<lparr>n_page_writes := n_page_writes s + 1\<rparr>);
               (_, n) = write_chunk_tags_fn (tagger dev) (nand dev) offset_chunk (checkpt_buffer (ck dev)) tags;
               dev = dev\<lparr>nand := n\<rparr>;
               dev = upd_ck dev (\<lambda>c. c\<lparr>checkpt_page_seq := checkpt_page_seq c + 1,
                       checkpt_cur_chunk := checkpt_cur_chunk c + 1\<rparr>);
               dev = (if checkpt_cur_chunk (ck dev) \<ge> cpb dev
                      then upd_ck dev (\<lambda>c. c\<lparr>checkpt_cur_chunk := 0, checkpt_cur_block := -1\<rparr>) else dev);
               dev = upd_ck dev (\<lambda>c. c\<lparr>checkpt_buffer := map_option (\<lambda>buf.
                       replicate (data_bytes_per_chunk dev) 0 @ drop (data_bytes_per_chunk dev) buf) (checkpt_buffer c)\<rparr>)
           in (1, yaffs2_checkpt_init_chunk_hdr dev)))"

definition checkpt_put_byte :: "u8 \<Rightarrow> ('n, 'x) yaffs_dev_scheme \<Rightarrow> ('n, 'x) yaffs_dev_scheme" where
  "checkpt_put_byte b dev =
     upd_ck dev (\<lambda>c. c\<lparr>
       checkpt_buffer := map_option (\<lambda>buf. buf[nat (checkpt_byte_offs c) := b]) (checkpt_buffer c),
       checkpt_sum := checkpt_sum c + ucast b, checkpt_xor := checkpt_xor c XOR ucast b,
       checkpt_byte_offs := checkpt_byte_offs c + 1, checkpt_byte_count := checkpt_byte_count c + 1\<rparr>)"

fun checkpt_wr_loop ::
  "yaffs_ext_tags \<Rightarrow> u8 list \<Rightarrow> int \<Rightarrow> ('n, 'x) yaffs_dev_scheme \<Rightarrow> int \<times> ('n, 'x) yaffs_dev_scheme" where
  "checkpt_wr_loop junk [] i dev = (i, dev)"
| "checkpt_wr_loop junk (b # data_bytes) i dev =
     (let dev = checkpt_put_byte b dev;
          (ok, dev) = (if checkpt_byte_offs (ck dev) < 0 \<or> int (data_bytes_per_chunk dev) \<le> checkpt_byte_offs (ck dev)
                       then yaffs2_checkpt_flush_buffer junk dev else (1, dev))
      in if ok \<noteq> 0 then checkpt_wr_loop junk data_bytes (i + 1) dev else (i + 1, dev))"

declare checkpt_wr_loop.simps [simp del]

definition yaffs2_checkpt_wr ::
  "yaffs_ext_tags \<Rightarrow> ('n, 'x) yaffs_dev_scheme \<Rightarrow> u8 list \<Rightarrow> int \<times> ('n, 'x) yaffs_dev_scheme" where
  "yaffs2_checkpt_wr junk dev data =
     (if checkpt_buffer (ck dev) = None then (0, dev)
      else if \<not> checkpt_open_write (ck dev) then (-1, dev)
      else checkpt_wr_loop junk data 0 dev)"

section \<open>Reading\<close>

text \<open>The test of the tags decides whether the header is looked at, as the source is written.
  The result says whether the loop goes on.\<close>

definition checkpt_load_chunk :: "('n, 'x) yaffs_dev_scheme \<Rightarrow> bool \<times> ('n, 'x) yaffs_dev_scheme" where
  "checkpt_load_chunk dev =
     (let dev = (if checkpt_cur_block (ck dev) < 0
                 then upd_ck (yaffs2_checkpt_find_block dev) (\<lambda>c. c\<lparr>checkpt_cur_chunk := 0\<rparr>) else dev)
      in if checkpt_cur_block (ck dev) < 0 then (False, dev)
         else
          (let chunk = checkpt_cur_block (ck dev) * cpb dev + checkpt_cur_chunk (ck dev);
               offset_chunk = apply_chunk_offset dev chunk;
               dev = upd_stats dev (\<lambda>s. s\<lparr>n_page_reads := n_page_reads s + 1\<rparr>);
               (_, data, tags, n) = read_chunk_tags_fn (tagger dev) (nand dev) offset_chunk True;
               dev = upd_ck (dev\<lparr>nand := n\<rparr>) (\<lambda>c. c\<lparr>checkpt_buffer :=
                       map_option (\<lambda>buf. data @ drop (length data) buf) (checkpt_buffer c)\<rparr>);
               (ok, dev) = (if chunk_id tags \<noteq> word_of_int (checkpt_page_seq (ck dev) + 1) \<or>
                               ecc_result tags > YAFFS_ECC_RESULT_FIXED \<or>
                               seq_number tags \<noteq> YAFFS_SEQUENCE_CHECKPOINT_DATA
                            then yaffs2_checkpt_check_chunk_hdr dev else (True, dev))
           in if \<not> ok then (False, dev)
              else (True, upd_ck dev (\<lambda>c. c\<lparr>checkpt_page_seq := checkpt_page_seq c + 1,
                     checkpt_cur_chunk := checkpt_cur_chunk c + 1,
                     checkpt_cur_block := (if cpb dev \<le> checkpt_cur_chunk c + 1 then -1 else checkpt_cur_block c)\<rparr>))))"

fun checkpt_rd_loop ::
  "nat \<Rightarrow> u8 list \<Rightarrow> ('n, 'x) yaffs_dev_scheme \<Rightarrow> (u8 list \<times> ('n, 'x) yaffs_dev_scheme) option" where
  "checkpt_rd_loop 0 got dev = Some (got, dev)"
| "checkpt_rd_loop (Suc n) got dev =
     (let (go, dev) = (if checkpt_byte_offs (ck dev) < 0 \<or> int (data_bytes_per_chunk dev) \<le> checkpt_byte_offs (ck dev)
                       then checkpt_load_chunk dev else (True, dev));
          buf = (case checkpt_buffer (ck dev) of None \<Rightarrow> [] | Some buf \<Rightarrow> buf);
          offs = checkpt_byte_offs (ck dev)
      in if \<not> go then Some (got, dev)
         else if offs < 0 \<or> int (length buf) \<le> offs then None
         else checkpt_rd_loop n (got @ [buf ! nat offs]) (upd_ck dev (\<lambda>c. c\<lparr>
                checkpt_sum := checkpt_sum c + ucast (buf ! nat offs),
                checkpt_xor := checkpt_xor c XOR ucast (buf ! nat offs),
                checkpt_byte_offs := offs + 1, checkpt_byte_count := checkpt_byte_count c + 1\<rparr>)))"

declare checkpt_rd_loop.simps [simp del]

text \<open>The number of bytes read (or the error) and the bytes.\<close>

definition yaffs2_checkpt_rd ::
  "('n, 'x) yaffs_dev_scheme \<Rightarrow> nat \<Rightarrow> (int \<times> u8 list \<times> ('n, 'x) yaffs_dev_scheme) option" where
  "yaffs2_checkpt_rd dev count =
     (if checkpt_buffer (ck dev) = None then Some (0, [], dev)
      else if checkpt_open_write (ck dev) then Some (-1, [], dev)
      else case checkpt_rd_loop count [] dev of None \<Rightarrow> None
           | Some (got, dev) \<Rightarrow> Some (int (length got), got, dev))"

section \<open>Closing\<close>

text \<open>The blocks that were read become CHECKPOINT blocks. A four-byte \<open>size_t\<close> is what the code
  compares the offset in the buffer with.\<close>

definition checkpt_claim_block :: "int \<Rightarrow> ('n, 'x) yaffs_dev_scheme \<Rightarrow> ('n, 'x) yaffs_dev_scheme" where
  "checkpt_claim_block blk dev =
     (if internal_start_block dev \<le> blk \<and> blk \<le> internal_end_block dev \<and>
         block_state (yaffs_get_block_info dev blk) = YAFFS_BLOCK_STATE_EMPTY
      then upd_block_info dev blk (\<lambda>bi. bi\<lparr>block_state := YAFFS_BLOCK_STATE_CHECKPOINT\<rparr>) else dev)"

definition yaffs_checkpt_close :: "yaffs_ext_tags \<Rightarrow> ('n, 'x) yaffs_dev_scheme \<Rightarrow> int \<times> ('n, 'x) yaffs_dev_scheme" where
  "yaffs_checkpt_close junk dev =
     (let dev = (if checkpt_open_write (ck dev) then
                   (if checkpt_byte_offs (ck dev) \<noteq> 4 then snd (yaffs2_checkpt_flush_buffer junk dev) else dev)
                 else case checkpt_block_list (ck dev) of None \<Rightarrow> dev
                      | Some bl \<Rightarrow> fold checkpt_claim_block
                          (takeWhile (\<lambda>b. 0 \<le> b) (take (nat (blocks_in_checkpt (ck dev))) bl)) dev);
          dev = dev\<lparr>n_free_chunks := n_free_chunks dev - blocks_in_checkpt (ck dev) * cpb dev,
                    n_erased_blocks := n_erased_blocks dev - blocks_in_checkpt (ck dev)\<rparr>
      in (if checkpt_buffer (ck dev) \<noteq> None then 1 else 0, dev))"


section \<open>What the stream changes\<close>

lemma ck_upd_ck [simp]: "ck (upd_ck dev f) = f (ck dev)"
  by (simp add: upd_ck_def)

lemma upd_ck_fields [simp]:
  "host_le (upd_ck dev f) = host_le dev" "swap_endian (upd_ck dev f) = swap_endian dev"
  "data_bytes_per_chunk (upd_ck dev f) = data_bytes_per_chunk dev" "param (upd_ck dev f) = param dev"
  "n_free_chunks (upd_ck dev f) = n_free_chunks dev" "n_erased_blocks (upd_ck dev f) = n_erased_blocks dev"
  "internal_start_block (upd_ck dev f) = internal_start_block dev"
  "internal_end_block (upd_ck dev f) = internal_end_block dev"
  "yaffs_get_block_info (upd_ck dev f) = yaffs_get_block_info dev"
  "alloc_view (upd_ck dev f) = alloc_view dev" "dev_config (upd_ck dev f) = dev_config dev"
  "read_only (upd_ck dev f) = read_only dev"
  by (simp_all add: upd_ck_def yaffs_get_block_info_def alloc_view_def dev_config_def fun_eq_iff)

lemma ck_frame [simp]:
  "ck (upd_stats dev h) = ck dev" "ck (dev\<lparr>nand := n\<rparr>) = ck dev" "ck (upd_block_info dev b g) = ck dev"
  by (simp_all add: upd_stats_def upd_block_info_def)

section \<open>The header\<close>

lemma chunk_hdr_bytes_inverse [simp]: "chunk_hdr_of_bytes le (chunk_hdr_bytes le h) = h"
  by (simp add: chunk_hdr_of_bytes_def chunk_hdr_bytes_def quad.dec_enc)

lemma length_chunk_hdr [simp]: "length (chunk_hdr_bytes le h) = 16"
  by (simp add: chunk_hdr_bytes_def quad.length_enc)

text \<open>The byte order in which the stream is stored.\<close>

definition stored_le :: "('n, 'x) yaffs_dev_scheme \<Rightarrow> bool" where
  "stored_le dev \<longleftrightarrow> host_le dev \<noteq> swap_endian dev"

lemma u32_bytes_swap: "u32_bytes le (swap_u32 w) = u32_bytes (\<not> le) w"
  by (simp add: swap_u32_reverses_bytes) (simp add: u32_bytes_def Let_def)

lemma hdr_bytes_stored: "chunk_hdr_bytes (host_le dev) (yaffs2_do_endian_hdr dev h) = chunk_hdr_bytes (stored_le dev) h"
  by (simp add: yaffs2_do_endian_hdr_def chunk_hdr_bytes_def bytes4_def u32_bytes_swap stored_le_def)

lemma do_endian_hdr_twice [simp]: "yaffs2_do_endian_hdr dev (yaffs2_do_endian_hdr dev h) = h"
  by (simp add: yaffs2_do_endian_hdr_def)

lemma hdr_of_bytes_stored:
  "yaffs2_do_endian_hdr dev (chunk_hdr_of_bytes (host_le dev) (chunk_hdr_bytes (stored_le dev) h)) = h"
  by (simp flip: hdr_bytes_stored)

text \<open>A chunk header written by one device is accepted by another exactly when the reader expects
  that page number and has seen the same sums, whatever the byte orders of the two processors, as
  long as both store the checkpoint in the same byte order.\<close>

theorem checkpt_hdr_checked:
  assumes "stored_le reader = stored_le writer"
    and "checkpt_buffer (ck reader) = checkpt_buffer (ck (yaffs2_checkpt_init_chunk_hdr writer))"
    and "checkpt_buffer (ck writer) \<noteq> None"
  shows "fst (yaffs2_checkpt_check_chunk_hdr reader) \<longleftrightarrow>
    (word_of_int (checkpt_page_seq (ck writer)) :: u32) = word_of_int (checkpt_page_seq (ck reader)) \<and>
    checkpt_sum (ck writer) = checkpt_sum (ck reader) \<and> checkpt_xor (ck writer) = checkpt_xor (ck reader)"
proof -
  let ?h = "\<lparr>ch_version = YAFFS_CHECKPOINT_VERSION, ch_seq = word_of_int (checkpt_page_seq (ck writer)),
    ch_sum = checkpt_sum (ck writer), ch_xor = checkpt_xor (ck writer)\<rparr>"
  have "stored_le (upd_ck writer f) = stored_le writer" for f
    by (simp add: stored_le_def)
  then obtain rest where "checkpt_buffer (ck reader) = Some (chunk_hdr_bytes (stored_le writer) ?h @ rest)"
    using assms(2,3) by (auto simp: yaffs2_checkpt_init_chunk_hdr_def Let_def hdr_bytes_stored)
  then show ?thesis
    using hdr_of_bytes_stored [of reader ?h] assms(1) by (simp add: yaffs2_checkpt_check_chunk_hdr_def Let_def)
qed


section \<open>Accounting\<close>

text \<open>The bytes a chunk has room for after its header.\<close>

definition checkpt_payload :: "('n, 'x) yaffs_dev_scheme \<Rightarrow> int" where
  "checkpt_payload dev = int (data_bytes_per_chunk dev) - 16"

text \<open>Every byte written is in a flushed page or in the buffer.\<close>

definition bytes_accounted :: "('n, 'x) yaffs_dev_scheme \<Rightarrow> bool" where
  "bytes_accounted dev \<longleftrightarrow>
     checkpt_byte_count (ck dev) = checkpt_payload dev * checkpt_page_seq (ck dev) + (checkpt_byte_offs (ck dev) - 16) \<and>
     16 \<le> checkpt_byte_offs (ck dev) \<and> checkpt_byte_offs (ck dev) \<le> int (data_bytes_per_chunk dev)"

definition sum_bytes :: "u8 list \<Rightarrow> u32" where
  "sum_bytes bs = fold (\<lambda>b s. s + ucast b) bs 0"

definition xor_bytes :: "u8 list \<Rightarrow> u32" where
  "xor_bytes bs = fold (\<lambda>b s. s XOR ucast b) bs 0"

lemma sum_bytes_snoc: "sum_bytes (bs @ [b]) = sum_bytes bs + ucast b"
  and xor_bytes_snoc: "xor_bytes (bs @ [b]) = xor_bytes bs XOR ucast b"
  by (simp_all add: sum_bytes_def xor_bytes_def)

text \<open>The state after the bytes \<open>bs\<close>.\<close>

definition stream_at :: "u8 list \<Rightarrow> ('n, 'x) yaffs_dev_scheme \<Rightarrow> bool" where
  "stream_at bs dev \<longleftrightarrow> bytes_accounted dev \<and> checkpt_byte_count (ck dev) = int (length bs) \<and>
     checkpt_sum (ck dev) = sum_bytes bs \<and> checkpt_xor (ck dev) = xor_bytes bs"

lemma find_erased_stream [simp]:
  "checkpt_page_seq (ck (yaffs2_checkpt_find_erased_block dev)) = checkpt_page_seq (ck dev)"
  "checkpt_byte_offs (ck (yaffs2_checkpt_find_erased_block dev)) = checkpt_byte_offs (ck dev)"
  "checkpt_byte_count (ck (yaffs2_checkpt_find_erased_block dev)) = checkpt_byte_count (ck dev)"
  "checkpt_sum (ck (yaffs2_checkpt_find_erased_block dev)) = checkpt_sum (ck dev)"
  "checkpt_xor (ck (yaffs2_checkpt_find_erased_block dev)) = checkpt_xor (ck dev)"
  "blocks_in_checkpt (ck (yaffs2_checkpt_find_erased_block dev)) = blocks_in_checkpt (ck dev)"
  "data_bytes_per_chunk (yaffs2_checkpt_find_erased_block dev) = data_bytes_per_chunk dev"
  by (simp_all add: yaffs2_checkpt_find_erased_block_def Let_def split: option.split)

lemma init_chunk_hdr_stream [simp]:
  "checkpt_byte_offs (ck (yaffs2_checkpt_init_chunk_hdr dev)) = 16"
  "checkpt_page_seq (ck (yaffs2_checkpt_init_chunk_hdr dev)) = checkpt_page_seq (ck dev)"
  "checkpt_byte_count (ck (yaffs2_checkpt_init_chunk_hdr dev)) = checkpt_byte_count (ck dev)"
  "checkpt_sum (ck (yaffs2_checkpt_init_chunk_hdr dev)) = checkpt_sum (ck dev)"
  "checkpt_xor (ck (yaffs2_checkpt_init_chunk_hdr dev)) = checkpt_xor (ck dev)"
  "blocks_in_checkpt (ck (yaffs2_checkpt_init_chunk_hdr dev)) = blocks_in_checkpt (ck dev)"
  "checkpt_cur_block (ck (yaffs2_checkpt_init_chunk_hdr dev)) = checkpt_cur_block (ck dev)"
  "checkpt_cur_chunk (ck (yaffs2_checkpt_init_chunk_hdr dev)) = checkpt_cur_chunk (ck dev)"
  "checkpt_next_block (ck (yaffs2_checkpt_init_chunk_hdr dev)) = checkpt_next_block (ck dev)"
  "data_bytes_per_chunk (yaffs2_checkpt_init_chunk_hdr dev) = data_bytes_per_chunk dev"
  "alloc_view (yaffs2_checkpt_init_chunk_hdr dev) = alloc_view dev"
  "dev_config (yaffs2_checkpt_init_chunk_hdr dev) = dev_config dev"
  "n_free_chunks (yaffs2_checkpt_init_chunk_hdr dev) = n_free_chunks dev"
  "n_erased_blocks (yaffs2_checkpt_init_chunk_hdr dev) = n_erased_blocks dev"
  "param (yaffs2_checkpt_init_chunk_hdr dev) = param dev"
  "internal_start_block (yaffs2_checkpt_init_chunk_hdr dev) = internal_start_block dev"
  "yaffs_get_block_info (yaffs2_checkpt_init_chunk_hdr dev) = yaffs_get_block_info dev"
  by (simp_all add: yaffs2_checkpt_init_chunk_hdr_def Let_def)

lemma upd_data_bytes [simp]:
  "data_bytes_per_chunk (upd_block_info dev b f) = data_bytes_per_chunk dev"
  "data_bytes_per_chunk (upd_stats dev h) = data_bytes_per_chunk dev"
  by (simp_all add: upd_block_info_def upd_stats_def)

lemma flush_stream:
  assumes "yaffs2_checkpt_flush_buffer junk dev = (ok, d)"
  shows "data_bytes_per_chunk d = data_bytes_per_chunk dev"
    "checkpt_byte_count (ck d) = checkpt_byte_count (ck dev)"
    "checkpt_sum (ck d) = checkpt_sum (ck dev)" "checkpt_xor (ck d) = checkpt_xor (ck dev)"
    "ok = 0 \<or> ok = 1" "ok = 0 \<Longrightarrow> checkpt_cur_block (ck d) < 0"
    "ok = 0 \<Longrightarrow> checkpt_page_seq (ck d) = checkpt_page_seq (ck dev) \<and> checkpt_byte_offs (ck d) = checkpt_byte_offs (ck dev)"
    "ok \<noteq> 0 \<Longrightarrow> checkpt_page_seq (ck d) = checkpt_page_seq (ck dev) + 1 \<and> checkpt_byte_offs (ck d) = 16"
  using assms by (auto simp: yaffs2_checkpt_flush_buffer_def Let_def split: prod.splits if_splits)

lemma stream_flush:
  assumes "stream_at bs dev" "checkpt_byte_offs (ck dev) = int (data_bytes_per_chunk dev)"
    "yaffs2_checkpt_flush_buffer junk dev = (ok, d)"
  shows "stream_at bs d"
  using assms(1,2) flush_stream [OF assms(3)]
  by (cases "ok = 0") (auto simp: stream_at_def bytes_accounted_def checkpt_payload_def algebra_simps)


lemma stream_put_byte:
  assumes "stream_at bs dev" "checkpt_byte_offs (ck dev) < int (data_bytes_per_chunk dev)"
  shows "stream_at (bs @ [b]) (checkpt_put_byte b dev)"
  using assms by (auto simp: stream_at_def bytes_accounted_def checkpt_payload_def checkpt_put_byte_def
      sum_bytes_snoc xor_bytes_snoc)

lemma put_byte_data_bytes [simp]: "data_bytes_per_chunk (checkpt_put_byte b dev) = data_bytes_per_chunk dev"
  by (simp add: checkpt_put_byte_def)

text \<open>A stream that can go on: there is room in the buffer.\<close>

definition has_room :: "('n, 'x) yaffs_dev_scheme \<Rightarrow> bool" where
  "has_room dev \<longleftrightarrow> 16 < data_bytes_per_chunk dev \<and> checkpt_byte_offs (ck dev) < int (data_bytes_per_chunk dev)"

section \<open>The bytes of the stream\<close>

text \<open>Page \<open>k\<close> of a stream of bytes, \<open>per\<close> bytes to a page: a header with the page number and the sums of all
  bytes before the page, in the byte order of the checkpoint, and the bytes of the page.\<close>

definition page_of :: "bool \<Rightarrow> nat \<Rightarrow> u8 list \<Rightarrow> nat \<Rightarrow> u8 list" where
  "page_of le per bs k =
     chunk_hdr_bytes le \<lparr>ch_version = YAFFS_CHECKPOINT_VERSION, ch_seq = word_of_nat k,
       ch_sum = sum_bytes (take (k * per) bs), ch_xor = xor_bytes (take (k * per) bs)\<rparr> @ take per (drop (k * per) bs)"

text \<open>The pages given to the driver so far: the chunk, the buffer and the tags of each.\<close>

type_synonym page_write = "int \<times> u8 list \<times> yaffs_ext_tags"

definition write_pages :: "'n yaffs_tags_handler \<Rightarrow> page_write list \<Rightarrow> 'n \<Rightarrow> 'n" where
  "write_pages th ws n = fold (\<lambda>(c, page, tags) n. snd (write_chunk_tags_fn th n c (Some page) tags)) ws n"

abbreviation stream_page :: "('n, 'x) yaffs_dev_scheme \<Rightarrow> u8 list \<Rightarrow> nat \<Rightarrow> u8 list" where
  "stream_page dev bs k \<equiv> page_of (stored_le dev) (data_bytes_per_chunk dev - 16) bs k"

definition written_page :: "('n, 'x) yaffs_dev_scheme \<Rightarrow> u8 list \<Rightarrow> nat \<Rightarrow> page_write \<Rightarrow> bool" where
  "written_page dev bs k w \<longleftrightarrow> (case w of (c, page, tags) \<Rightarrow>
     take (data_bytes_per_chunk dev) page = stream_page dev bs k \<and> chunk_id tags = word_of_nat (k + 1) \<and>
     seq_number tags = YAFFS_SEQUENCE_CHECKPOINT_DATA \<and> is_deleted tags = 0 \<and> n_bytes tags = word_of_nat (data_bytes_per_chunk dev))"

text \<open>Where the next page may go: behind every page written, and in the block that is open.\<close>

definition page_place :: "('n, 'x) yaffs_dev_scheme \<Rightarrow> int list \<Rightarrow> bool" where
  "page_place dev cs \<longleftrightarrow> sorted_wrt (<) cs \<and> 0 < cpb dev \<and>
     (if 0 \<le> checkpt_cur_block (ck dev)
      then checkpt_next_block (ck dev) = checkpt_cur_block (ck dev) + 1 \<and>
        0 \<le> checkpt_cur_chunk (ck dev) \<and> checkpt_cur_chunk (ck dev) < cpb dev \<and>
        (\<forall>c \<in> set cs. c < checkpt_cur_block (ck dev) * cpb dev + checkpt_cur_chunk (ck dev) - chunk_offset dev)
      else 0 \<le> checkpt_next_block (ck dev) \<longrightarrow> (\<forall>c \<in> set cs. c < checkpt_next_block (ck dev) * cpb dev - chunk_offset dev))"

text \<open>The stream holds the bytes \<open>bs\<close>, from the driver state \<open>n0\<close> on: the full pages were written in this
  order, each to a chunk behind the ones before, and the buffer holds the last page, zeros behind it.\<close>

definition stream_pages :: "'n \<Rightarrow> u8 list \<Rightarrow> ('n, 'x) yaffs_dev_scheme \<Rightarrow> u8 list \<Rightarrow> page_write list \<Rightarrow> bool" where
  "stream_pages n0 bs dev buf ws \<longleftrightarrow>
     checkpt_buffer (ck dev) = Some buf \<and> checkpt_page_seq (ck dev) = int (length ws) \<and>
     take (data_bytes_per_chunk dev) buf = stream_page dev bs (length ws) @
       replicate (data_bytes_per_chunk dev - nat (checkpt_byte_offs (ck dev))) 0 \<and>
     nand dev = write_pages (tagger dev) ws n0 \<and> (\<forall>k < length ws. written_page dev bs k (ws ! k)) \<and>
     page_place dev (map fst ws)"

definition stream_has :: "'n \<Rightarrow> u8 list \<Rightarrow> ('n, 'x) yaffs_dev_scheme \<Rightarrow> bool" where
  "stream_has n0 bs dev \<longleftrightarrow> stream_at bs dev \<and> (\<exists>buf ws. stream_pages n0 bs dev buf ws)"

lemma stream_length:
  assumes "stream_at bs dev" "checkpt_page_seq (ck dev) = int k"
  shows "length bs = (data_bytes_per_chunk dev - 16) * k + (nat (checkpt_byte_offs (ck dev)) - 16)"
    "16 \<le> nat (checkpt_byte_offs (ck dev))" "nat (checkpt_byte_offs (ck dev)) \<le> data_bytes_per_chunk dev"
proof -
  define D where "D = data_bytes_per_chunk dev"
  define offs where "offs = nat (checkpt_byte_offs (ck dev))"
  have o: "checkpt_byte_offs (ck dev) = int offs" "16 \<le> offs" "offs \<le> D" and
    b: "int (length bs) = (int D - 16) * int k + (int offs - 16)"
    using assms by (auto simp: stream_at_def bytes_accounted_def checkpt_payload_def D_def offs_def)
  then show "16 \<le> nat (checkpt_byte_offs (ck dev))" "nat (checkpt_byte_offs (ck dev)) \<le> data_bytes_per_chunk dev"
    by (simp_all add: D_def)
  have "int (length bs) = int ((D - 16) * k + (offs - 16))" using b o by (simp add: of_nat_diff)
  then show "length bs = (data_bytes_per_chunk dev - 16) * k + (nat (checkpt_byte_offs (ck dev)) - 16)"
    by (simp only: of_nat_eq_iff D_def offs_def)
qed

lemma page_of_prefix: "(k + 1) * per \<le> length bs \<Longrightarrow> page_of le per (bs @ cs) k = page_of le per bs k"
  by (simp add: page_of_def)

lemma put_byte_has:
  assumes has: "stream_has n0 bs dev" and room: "checkpt_byte_offs (ck dev) < int (data_bytes_per_chunk dev)"
  shows "stream_has n0 (bs @ [b]) (checkpt_put_byte b dev)"
proof -
  let ?d = "checkpt_put_byte b dev" and ?D = "data_bytes_per_chunk dev" and ?offs = "nat (checkpt_byte_offs (ck dev))"
  let ?per = "?D - 16"
  obtain buf ws where p: "stream_pages n0 bs dev buf ws" and at: "stream_at bs dev" using has by (auto simp: stream_has_def)
  have seq: "checkpt_page_seq (ck dev) = int (length ws)" using p by (simp add: stream_pages_def)
  note len = stream_length [OF at seq]
  have lt: "?offs < ?D" using room len by linarith
  have buf: "take ?D buf = stream_page dev bs (length ws) @ replicate (?D - ?offs) 0" using p by (simp add: stream_pages_def)
  have pl: "length (stream_page dev bs (length ws)) = ?offs"
    using len lt by (simp add: page_of_def min_def)
  have st: "stored_le ?d = stored_le dev" "tagger ?d = tagger dev" "nand ?d = nand dev" "param ?d = param dev" "chunk_offset ?d = chunk_offset dev"
    by (simp_all add: stored_le_def checkpt_put_byte_def upd_ck_def)
  have "take ?D (buf[?offs := b]) = (take ?D buf)[?offs := b]" by (simp add: take_update_swap)
  also have "\<dots> = stream_page dev bs (length ws) @ b # replicate (?D - Suc ?offs) 0"
    unfolding buf using pl lt by (simp add: list_update_append Suc_diff_Suc [symmetric])
  also have "\<dots> = stream_page dev (bs @ [b]) (length ws) @ replicate (?D - Suc ?offs) 0"
    using len lt by (simp add: page_of_def min_def)
  finally have b': "take ?D (buf[?offs := b]) = stream_page dev (bs @ [b]) (length ws) @ replicate (?D - Suc ?offs) 0" .
  have "written_page dev (bs @ [b]) k w = written_page dev bs k w" if "k < length ws" for k w
  proof -
    have "(k + 1) * ?per \<le> length ws * ?per" using that by (intro mult_le_mono1) simp
    then have "(k + 1) * ?per \<le> length bs" using len(1) by (simp add: mult.commute)
    from page_of_prefix [OF this] show ?thesis by (simp add: written_page_def)
  qed
  then have "stream_pages n0 (bs @ [b]) ?d (buf[?offs := b]) ws"
    using p b' st len(2) by (simp add: stream_pages_def written_page_def page_place_def checkpt_put_byte_def nat_add_distrib)
  then show ?thesis using stream_put_byte [OF at room] by (auto simp: stream_has_def)
qed

text \<open>Why a search fails: no erased block may be taken, or there is none from the next block on.\<close>

definition no_checkpt_block :: "('n, 'x) yaffs_dev_scheme \<Rightarrow> bool" where
  "no_checkpt_block dev \<longleftrightarrow> n_erased_blocks dev \<le> n_reserved_blocks (param dev) \<or> checkpt_next_block (ck dev) < 0 \<or>
     (\<forall>i \<in> {checkpt_next_block (ck dev)..internal_end_block dev}. block_state (yaffs_get_block_info dev i) \<noteq> YAFFS_BLOCK_STATE_EMPTY)"

lemma find_erased_same [simp]:
  "nand (yaffs2_checkpt_find_erased_block dev) = nand dev" "tagger (yaffs2_checkpt_find_erased_block dev) = tagger dev"
  "param (yaffs2_checkpt_find_erased_block dev) = param dev" "chunk_offset (yaffs2_checkpt_find_erased_block dev) = chunk_offset dev"
  "checkpt_buffer (ck (yaffs2_checkpt_find_erased_block dev)) = checkpt_buffer (ck dev)"
  "stored_le (yaffs2_checkpt_find_erased_block dev) = stored_le dev"
  by (simp_all add: yaffs2_checkpt_find_erased_block_def Let_def upd_ck_def stored_le_def split: option.split)

lemma find_erased_result:
  fixes dev :: "('n, 'x) yaffs_dev_scheme"
  defines "found \<equiv> yaffs2_checkpt_find_erased_block dev"
  shows "if no_checkpt_block dev then checkpt_cur_block (ck found) = -1 \<and> checkpt_next_block (ck found) = -1
    else 0 \<le> checkpt_next_block (ck dev) \<and> checkpt_next_block (ck dev) \<le> checkpt_cur_block (ck found) \<and>
      checkpt_next_block (ck found) = checkpt_cur_block (ck found) + 1"
proof -
  let ?nb = "checkpt_next_block (ck dev)"
  define found' where "found' = (if 0 \<le> ?nb \<and> ?nb \<le> internal_end_block dev \<and> n_erased_blocks dev - n_reserved_blocks (param dev) > 0
      then find (\<lambda>i. block_state (yaffs_get_block_info dev i) = YAFFS_BLOCK_STATE_EMPTY) [?nb..internal_end_block dev] else None)"
  have e: "found = (case found' of Some i \<Rightarrow> upd_ck dev (\<lambda>c. c\<lparr>checkpt_next_block := i + 1, checkpt_cur_block := i\<rparr>)
      | None \<Rightarrow> upd_ck dev (\<lambda>c. c\<lparr>checkpt_next_block := -1, checkpt_cur_block := -1\<rparr>))"
    by (simp add: found_def found'_def yaffs2_checkpt_find_erased_block_def Let_def)
  show ?thesis
  proof (cases found')
    case None
    then have "no_checkpt_block dev"
      by (auto simp: found'_def no_checkpt_block_def find_None_iff split: if_splits)
    then show ?thesis using e None by simp
  next
    case (Some i)
    then have "0 \<le> ?nb \<and> ?nb \<le> i \<and> i \<le> internal_end_block dev \<and> n_erased_blocks dev - n_reserved_blocks (param dev) > 0 \<and>
        block_state (yaffs_get_block_info dev i) = YAFFS_BLOCK_STATE_EMPTY"
      by (auto simp: found'_def find_Some_iff split: if_splits dest: nth_mem)
    then show ?thesis using e Some by (auto simp: no_checkpt_block_def)
  qed
qed

definition page_tags :: "yaffs_ext_tags \<Rightarrow> ('n, 'x) yaffs_dev_scheme \<Rightarrow> yaffs_ext_tags" where
  "page_tags junk dev = junk\<lparr>is_deleted := 0, obj_id := word_of_int (checkpt_next_block (ck dev)),
     chunk_id := word_of_int (checkpt_page_seq (ck dev) + 1), seq_number := YAFFS_SEQUENCE_CHECKPOINT_DATA,
     n_bytes := word_of_nat (data_bytes_per_chunk dev)\<rparr>"

text \<open>What a flush does with the page, once it has a block.\<close>

lemma flush_page:
  fixes dev :: "('n, 'x) yaffs_dev_scheme"
  defines "d1 \<equiv> (if checkpt_cur_block (ck dev) < 0
    then upd_ck (yaffs2_checkpt_find_erased_block dev) (\<lambda>c. c\<lparr>checkpt_cur_chunk := 0\<rparr>) else dev)"
  assumes f: "yaffs2_checkpt_flush_buffer junk dev = (ok, d)" and b: "\<not> checkpt_cur_block (ck d1) < 0"
  shows "ok = 1 \<and> stored_le d = stored_le d1 \<and> tagger d = tagger d1 \<and> param d = param d1 \<and> chunk_offset d = chunk_offset d1 \<and>
    nand d = snd (write_chunk_tags_fn (tagger d1) (nand d1)
      (checkpt_cur_block (ck d1) * cpb d1 + checkpt_cur_chunk (ck d1) - chunk_offset d1) (checkpt_buffer (ck d1)) (page_tags junk d1)) \<and>
    checkpt_buffer (ck d) = map_option (\<lambda>buf. chunk_hdr_bytes (stored_le d1) \<lparr>ch_version = YAFFS_CHECKPOINT_VERSION,
        ch_seq = word_of_int (checkpt_page_seq (ck d1) + 1), ch_sum = checkpt_sum (ck d1), ch_xor = checkpt_xor (ck d1)\<rparr> @
      drop 16 (replicate (data_bytes_per_chunk d1) 0 @ drop (data_bytes_per_chunk d1) buf)) (checkpt_buffer (ck d1)) \<and>
    checkpt_next_block (ck d) = checkpt_next_block (ck d1) \<and>
    (if cpb d1 \<le> checkpt_cur_chunk (ck d1) + 1 then checkpt_cur_block (ck d) = -1
     else checkpt_cur_block (ck d) = checkpt_cur_block (ck d1) \<and> checkpt_cur_chunk (ck d) = checkpt_cur_chunk (ck d1) + 1)"
  using f b unfolding yaffs2_checkpt_flush_buffer_def Let_def d1_def [symmetric]
  by (auto simp: yaffs2_checkpt_init_chunk_hdr_def hdr_bytes_stored apply_chunk_offset_def Let_def upd_ck_def stored_le_def
      upd_block_info_def upd_stats_def option.map_comp o_def page_tags_def split: prod.splits if_splits)

lemma upd_ck_rest [simp]:
  "stored_le (upd_ck dev f) = stored_le dev" "tagger (upd_ck dev f) = tagger dev" "nand (upd_ck dev f) = nand dev"
  "chunk_offset (upd_ck dev f) = chunk_offset dev"
  by (simp_all add: upd_ck_def stored_le_def)

lemma page_placed:
  assumes pl: "page_place dev cs" and b: "\<not> checkpt_cur_block (ck dev) < 0"
    and d: "param d = param dev" "chunk_offset d = chunk_offset dev" "checkpt_next_block (ck d) = checkpt_next_block (ck dev)"
      "if cpb dev \<le> checkpt_cur_chunk (ck dev) + 1 then checkpt_cur_block (ck d) = -1
       else checkpt_cur_block (ck d) = checkpt_cur_block (ck dev) \<and> checkpt_cur_chunk (ck d) = checkpt_cur_chunk (ck dev) + 1"
  shows "page_place d (cs @ [checkpt_cur_block (ck dev) * cpb dev + checkpt_cur_chunk (ck dev) - chunk_offset dev])"
proof -
  let ?c = "checkpt_cur_block (ck dev) * cpb dev + checkpt_cur_chunk (ck dev) - chunk_offset dev"
  have p: "sorted_wrt (<) cs" "0 < cpb dev" "checkpt_next_block (ck dev) = checkpt_cur_block (ck dev) + 1"
    "0 \<le> checkpt_cur_chunk (ck dev)" "checkpt_cur_chunk (ck dev) < cpb dev" "\<forall>c \<in> set cs. c < ?c"
    using pl b by (simp_all add: page_place_def split: if_splits)
  have "sorted_wrt (<) (cs @ [?c])" using p by (simp add: sorted_wrt_append)
  moreover have "?c < (checkpt_cur_block (ck dev) + 1) * cpb dev - chunk_offset dev" using p(5) by (simp add: algebra_simps)
  moreover from this have "\<forall>c \<in> set cs. c < (checkpt_cur_block (ck dev) + 1) * cpb dev - chunk_offset dev" using p(6) by fastforce
  ultimately show ?thesis
    using p b d by (auto simp: page_place_def split: if_splits)
qed

lemma find_placed:
  assumes pl: "page_place dev cs" and b: "checkpt_cur_block (ck dev) < 0" and n: "\<not> no_checkpt_block dev"
  shows "page_place (upd_ck (yaffs2_checkpt_find_erased_block dev) (\<lambda>c. c\<lparr>checkpt_cur_chunk := 0\<rparr>)) cs"
proof -
  let ?f = "yaffs2_checkpt_find_erased_block dev"
  let ?i = "checkpt_cur_block (ck ?f)"
  have f: "0 \<le> checkpt_next_block (ck dev)" "checkpt_next_block (ck dev) \<le> ?i" "checkpt_next_block (ck ?f) = ?i + 1"
    using find_erased_result [of dev] n by simp_all
  have c: "0 < cpb dev" using pl by (simp add: page_place_def)
  have "checkpt_next_block (ck dev) * cpb dev \<le> ?i * cpb dev" using f(2) c by (simp add: mult_right_mono)
  moreover have "\<forall>x \<in> set cs. x < checkpt_next_block (ck dev) * cpb dev - chunk_offset dev" using pl b f(1) by (simp add: page_place_def)
  ultimately have "\<forall>x \<in> set cs. x < ?i * cpb dev - chunk_offset dev" by fastforce
  then show ?thesis using pl f c by (simp add: page_place_def)
qed

lemma flush_has:
  assumes has: "stream_has n0 bs dev" and full: "checkpt_byte_offs (ck dev) = int (data_bytes_per_chunk dev)"
    and f: "yaffs2_checkpt_flush_buffer junk dev = (ok, d)" and D: "16 < data_bytes_per_chunk dev"
  shows "stream_has n0 bs d" "ok = 0 \<longleftrightarrow> checkpt_cur_block (ck dev) < 0 \<and> no_checkpt_block dev"
proof -
  let ?D = "data_bytes_per_chunk dev"
  define d1 where "d1 = (if checkpt_cur_block (ck dev) < 0
    then upd_ck (yaffs2_checkpt_find_erased_block dev) (\<lambda>c. c\<lparr>checkpt_cur_chunk := 0\<rparr>) else dev)"
  obtain buf ws where p: "stream_pages n0 bs dev buf ws" and at: "stream_at bs dev" using has by (auto simp: stream_has_def)
  have at': "stream_at bs d" by (rule stream_flush [OF at full f])
  have same: "stored_le d1 = stored_le dev" "tagger d1 = tagger dev" "param d1 = param dev" "chunk_offset d1 = chunk_offset dev"
    "nand d1 = nand dev" "data_bytes_per_chunk d1 = ?D" "checkpt_page_seq (ck d1) = checkpt_page_seq (ck dev)"
    "checkpt_sum (ck d1) = checkpt_sum (ck dev)" "checkpt_xor (ck d1) = checkpt_xor (ck dev)"
    "checkpt_buffer (ck d1) = checkpt_buffer (ck dev)" "checkpt_byte_offs (ck d1) = checkpt_byte_offs (ck dev)"
    by (simp_all add: d1_def)
  have seq: "checkpt_page_seq (ck dev) = int (length ws)" using p by (simp add: stream_pages_def)
  have low: "checkpt_cur_block (ck d1) < 0 \<longleftrightarrow> checkpt_cur_block (ck dev) < 0 \<and> no_checkpt_block dev"
    using find_erased_result [of dev] by (auto simp: d1_def split: if_splits)
  have "stream_has n0 bs d \<and> (ok = 0 \<longleftrightarrow> checkpt_cur_block (ck d1) < 0)"
  proof (cases "checkpt_cur_block (ck d1) < 0")
    case True
    then have r: "ok = 0" "d = d1"
      using f unfolding yaffs2_checkpt_flush_buffer_def Let_def d1_def [symmetric] by simp_all
    have "checkpt_cur_block (ck d1) < 0 \<and> checkpt_next_block (ck d1) < 0"
      using True low find_erased_result [of dev] by (simp add: d1_def)
    then have "page_place d1 (map fst ws)" using p same by (simp add: page_place_def stream_pages_def)
    then have "stream_pages n0 bs d1 buf ws" using p same by (simp add: stream_pages_def written_page_def)
    then show ?thesis using at' r True by (auto simp: stream_has_def)
  next
    case False
    note fp = flush_page [OF f, folded d1_def, OF False]
    let ?c = "checkpt_cur_block (ck d1) * cpb d1 + checkpt_cur_chunk (ck d1) - chunk_offset d1"
    let ?w = "(?c, buf, page_tags junk d1)" and ?n = "length ws" and ?per = "?D - 16"
    let ?buf = "chunk_hdr_bytes (stored_le dev) \<lparr>ch_version = YAFFS_CHECKPOINT_VERSION, ch_seq = word_of_nat (?n + 1),
        ch_sum = checkpt_sum (ck dev), ch_xor = checkpt_xor (ck dev)\<rparr> @ drop 16 (replicate ?D 0 @ drop ?D buf)"
    note len = stream_length [OF at seq]
    have lb: "length bs = (?n + 1) * ?per" using len full D by (simp add: algebra_simps)
    have b: "checkpt_buffer (ck dev) = Some buf" "take ?D buf = stream_page dev bs ?n" using p full by (simp_all add: stream_pages_def)
    have pl: "page_place d1 (map fst ws)"
      using find_placed [of dev "map fst ws"] p low False by (auto simp: d1_def stream_pages_def)
    have dD: "data_bytes_per_chunk d = ?D" by (rule flush_stream(1) [OF f])
    have s: "checkpt_sum (ck dev) = sum_bytes bs" "checkpt_xor (ck dev) = xor_bytes bs" using at by (simp_all add: stream_at_def)
    have seq': "checkpt_page_seq (ck d) = int (?n + 1) \<and> checkpt_byte_offs (ck d) = 16" using flush_stream(8) [OF f] fp seq by simp
    have "word_of_int (int ?n + 1) = (word_of_nat (?n + 1) :: u32)" by simp
    then have buf': "checkpt_buffer (ck d) = Some ?buf" using fp same b(1) seq by (simp add: add.commute)
    have new: "take ?D ?buf = stream_page dev bs (?n + 1) @ replicate (?D - 16) 0"
      using D lb s by (simp add: page_of_def)
    have wp: "written_page dev bs ?n ?w" using b(2) same seq by (simp add: written_page_def page_tags_def)
    have all: "\<forall>k < length (ws @ [?w]). written_page dev bs k ((ws @ [?w]) ! k)"
      using p wp by (auto simp: stream_pages_def nth_append less_Suc_eq)
    have nand: "nand d = write_pages (tagger dev) (ws @ [?w]) n0"
      using fp same p b(1) by (simp add: stream_pages_def write_pages_def)
    have "page_place d (map fst (ws @ [?w]))"
      using page_placed [OF pl False, of d] fp by simp
    moreover have "stream_page d bs k = stream_page dev bs k" "written_page d bs k w = written_page dev bs k w" for k w
      using fp same dD by (simp_all add: written_page_def)
    ultimately have "stream_pages n0 bs d ?buf (ws @ [?w])"
      using buf' new all nand seq' dD fp same by (simp add: stream_pages_def)
    then show ?thesis using at' fp False by (auto simp: stream_has_def)
  qed
  then show "stream_has n0 bs d" "ok = 0 \<longleftrightarrow> checkpt_cur_block (ck dev) < 0 \<and> no_checkpt_block dev" using low by simp_all
qed

text \<open>The byte that is put into the buffer when the search for a block fails.\<close>

definition out_of_blocks :: "('n, 'x) yaffs_dev_scheme \<Rightarrow> bool" where
  "out_of_blocks dev \<longleftrightarrow> checkpt_byte_offs (ck dev) = int (data_bytes_per_chunk dev) \<and> checkpt_cur_block (ck dev) < 0 \<and>
     no_checkpt_block dev"

lemma wr_loop_has:
  assumes "stream_has n0 bs dev" "has_room dev" "checkpt_wr_loop junk data i dev = (n, d)"
  shows "stream_has n0 (bs @ take (nat (n - i)) data) d \<and> i \<le> n \<and> n \<le> i + int (length data) \<and>
    (n < i + int (length data) \<longrightarrow> i < n \<and>
      (case checkpt_wr_loop junk (take (nat (n - i) - 1) data) i dev of (n', e) \<Rightarrow>
        n' = n - 1 \<and> out_of_blocks (checkpt_put_byte (data ! (nat (n - i) - 1)) e)))"
  using assms
proof (induction data arbitrary: bs i dev)
  case Nil
  then show ?case by (simp add: checkpt_wr_loop.simps)
next
  case (Cons b rest)
  let ?p = "checkpt_put_byte b dev"
  have lt: "checkpt_byte_offs (ck dev) < int (data_bytes_per_chunk dev)" and D: "16 < data_bytes_per_chunk dev"
    using Cons.prems(2) by (simp_all add: has_room_def)
  have hp: "stream_has n0 (bs @ [b]) ?p" by (rule put_byte_has [OF Cons.prems(1) lt])
  then have "stream_at (bs @ [b]) ?p" by (simp add: stream_has_def)
  then have offs: "16 \<le> checkpt_byte_offs (ck ?p)" "checkpt_byte_offs (ck ?p) \<le> int (data_bytes_per_chunk dev)"
    by (simp_all add: stream_at_def bytes_accounted_def)
  define full where "full \<longleftrightarrow> checkpt_byte_offs (ck ?p) = int (data_bytes_per_chunk dev)"
  obtain ok d1 where f: "(if full then yaffs2_checkpt_flush_buffer junk ?p else (1, ?p)) = (ok, d1)" by fastforce
  have loop: "checkpt_wr_loop junk (b # xs) i dev = (if ok \<noteq> 0 then checkpt_wr_loop junk xs (i + 1) d1 else (i + 1, d1))" for xs
    using offs f by (auto simp: checkpt_wr_loop.simps Let_def full_def split: if_splits)
  have step: "stream_has n0 (bs @ [b]) d1 \<and> (ok = 0 \<longrightarrow> out_of_blocks ?p) \<and> (ok \<noteq> 0 \<longrightarrow> has_room d1)"
  proof (cases full)
    case True
    then have fl: "yaffs2_checkpt_flush_buffer junk ?p = (ok, d1)" and o: "checkpt_byte_offs (ck ?p) = int (data_bytes_per_chunk ?p)"
      using f by (simp_all add: full_def)
    show ?thesis
      using flush_has [OF hp o fl] flush_stream [OF fl] o D by (simp add: out_of_blocks_def has_room_def)
  next
    case False
    then have "d1 = ?p" "ok \<noteq> 0" using f by simp_all
    then show ?thesis using hp D offs False by (simp add: has_room_def full_def)
  qed
  show ?case
  proof (cases "ok = 0")
    case True
    then have "n = i + 1" "d = d1" using Cons.prems(3) loop by simp_all
    then show ?thesis using step True by (simp add: checkpt_wr_loop.simps)
  next
    case False
    then have "checkpt_wr_loop junk rest (i + 1) d1 = (n, d)" using Cons.prems(3) loop by simp
    note ih = Cons.IH [OF conjunct1 [OF step] _ this]
    define m where "m = nat (n - (i + 1))"
    have room: "has_room d1" using step False by simp
    have n: "i + 1 \<le> n" using ih [OF room] by blast
    have m: "nat (n - i) = Suc m" using n by (simp add: m_def)
    have "(case checkpt_wr_loop junk (take (Suc m - 1) (b # rest)) i dev of (n', e) \<Rightarrow>
        n' = n - 1 \<and> out_of_blocks (checkpt_put_byte ((b # rest) ! (Suc m - 1)) e))" if short: "n < i + int (length (b # rest))"
    proof -
      have s: "i + 1 < n" "case checkpt_wr_loop junk (take (m - 1) rest) (i + 1) d1 of (n', e) \<Rightarrow>
          n' = n - 1 \<and> out_of_blocks (checkpt_put_byte (rest ! (m - 1)) e)"
        using ih [OF room] short by (simp_all add: m_def)
      obtain m' where "m = Suc m'" using s(1) by (metis m_def gr0_implies_Suc zero_less_nat_eq diff_gt_0_iff_gt)
      then show ?thesis using s(2) loop False by simp
    qed
    then show ?thesis using ih [OF room] n unfolding m by (simp add: m_def)
  qed
qed

section \<open>The blocks of the stream and the allocation invariant\<close>

text \<open>While a checkpoint is written its blocks are still counted as erased and free; closing the
  stream takes them out. \<open>settled\<close> is the device as closing will leave it.\<close>

definition settled :: "('n, 'x) yaffs_dev_scheme \<Rightarrow> ('n, 'x) yaffs_dev_scheme" where
  "settled dev = dev\<lparr>n_free_chunks := n_free_chunks dev - blocks_in_checkpt (ck dev) * cpb dev,
     n_erased_blocks := n_erased_blocks dev - blocks_in_checkpt (ck dev)\<rparr>"

definition checkpt_writing :: "('n, 'x) yaffs_dev_scheme \<Rightarrow> bool" where
  "checkpt_writing dev \<longleftrightarrow> alloc_inv (settled dev) \<and>
     (checkpt_cur_block (ck dev) < 0 \<or> 0 < checkpt_cur_chunk (ck dev)) \<and>
     (checkpt_next_block (ck dev) < 0 \<or> internal_start_block dev \<le> checkpt_next_block (ck dev))"

lemma dev_config_settled [simp]: "dev_config (settled dev) = dev_config dev"
  by (simp add: settled_def dev_config_def)

lemma chunk_bits_settled [simp]: "chunk_bits (settled dev) = chunk_bits dev"
  by (simp add: settled_def)

lemma blocks_of_settled [simp]: "blocks_of (settled dev) = blocks_of dev"
  by (rule blocks_of_config) simp

lemma settled_get [simp]: "yaffs_get_block_info (settled dev) = yaffs_get_block_info dev"
  by (simp add: settled_def)

text \<open>Two devices with the same counters, blocks and stream position settle alike.\<close>

lemma alloc_inv_settled_cong:
  assumes "alloc_view d = alloc_view dev" "dev_config d = dev_config dev"
    "blocks_in_checkpt (ck d) = blocks_in_checkpt (ck dev)" "alloc_inv (settled dev)"
  shows "alloc_inv (settled d)"
proof -
  have "alloc_view (settled d) = alloc_view (settled dev)"
    using assms(1,3) dev_configD(1) [OF assms(2)] by (simp add: alloc_view_def settled_def)
  moreover have "dev_config (settled d) = dev_config (settled dev)" using assms(2) by simp
  ultimately show ?thesis using assms(4) unfolding alloc_inv_def by (blast intro: inv_cong)
qed

lemma settled_claim:
  assumes "alloc_inv (settled dev)" "b \<in> blocks_of dev"
    and "block_state (yaffs_get_block_info dev b) = YAFFS_BLOCK_STATE_EMPTY"
    and "alloc_view d = alloc_view (upd_block_info dev b (\<lambda>bi. bi\<lparr>block_state := YAFFS_BLOCK_STATE_CHECKPOINT\<rparr>))"
    and "dev_config d = dev_config dev" "blocks_in_checkpt (ck d) = blocks_in_checkpt (ck dev) + 1"
  shows "alloc_inv (settled d)"
proof -
  let ?s = "settled dev" and ?f = "\<lambda>bi::yaffs_block_info. bi\<lparr>block_state := YAFFS_BLOCK_STATE_CHECKPOINT\<rparr>"
  have inv: "inv_except {} 0 ?s" and b: "b \<in> blocks_of ?s" using assms(1,2) by (simp_all add: alloc_inv_def)
  note ib = inv_block [OF inv b] and bo = block_ok_pages [OF inv_block(1) [OF inv b]]
  have zero: "pages_in_use (yaffs_get_block_info ?s b) = 0" "soft_del_pages (yaffs_get_block_info ?s b) = 0"
    using bo(2,3,5) assms(3) by simp_all
  have "inv_except {} 0 ((upd_block_info ?s b ?f)\<lparr>n_erased_blocks := n_erased_blocks ?s - 1, n_free_chunks := n_free_chunks ?s - cpb dev\<rparr>)"
  proof (rule inv_set_block [OF inv b])
    show "block_ok_at (view3 (?f (yaffs_get_block_info ?s b))) (card (chunks_in_use ?s b)) (b = alloc_block ?s)"
      using bo(1) zero by (simp add: view3_def)
    show "b = alloc_block ?s \<Longrightarrow> block_state (?f (yaffs_get_block_info ?s b)) = YAFFS_BLOCK_STATE_ALLOCATING"
      using ib(3,6) assms(3) by (auto simp: alloc_ok_def)
    show "n_free_chunks ?s - cpb dev - 0 = n_free_chunks ?s - 0
        - (if b \<in> {} then 0 else block_free_chunks ?s (yaffs_get_block_info ?s b))
        + (if b \<in> {} then 0 else block_free_chunks ?s (?f (yaffs_get_block_info ?s b)))"
      using zero assms(3) by (simp add: block_free_chunks_def) (simp add: settled_def)
  qed (use assms(3) in simp_all)
  then show ?thesis
    unfolding alloc_inv_def
  proof (rule inv_cong)
    show "dev_config (settled d) = dev_config ((upd_block_info ?s b ?f)\<lparr>n_erased_blocks := n_erased_blocks ?s - 1, n_free_chunks := n_free_chunks ?s - cpb dev\<rparr>)"
      using assms(5) by simp
    show "alloc_view (settled d) = alloc_view ((upd_block_info ?s b ?f)\<lparr>n_erased_blocks := n_erased_blocks ?s - 1, n_free_chunks := n_free_chunks ?s - cpb dev\<rparr>)"
      using assms(4,6) dev_configD(1) [OF assms(5)]
      by (simp add: alloc_view_def upd_block_info_def) (simp add: settled_def yaffs_get_block_info_def algebra_simps)
  qed
qed

lemma find_erased_spec:
  fixes dev :: "('n, 'x) yaffs_dev_scheme"
  defines "d \<equiv> yaffs2_checkpt_find_erased_block dev"
  assumes "checkpt_next_block (ck dev) < 0 \<or> internal_start_block dev \<le> checkpt_next_block (ck dev)"
    and "0 \<le> internal_start_block dev"
  shows "alloc_view d = alloc_view dev" "dev_config d = dev_config dev"
    "yaffs_get_block_info d = yaffs_get_block_info dev"
    "checkpt_next_block (ck d) < 0 \<or> internal_start_block dev \<le> checkpt_next_block (ck d)"
    "checkpt_cur_block (ck d) = -1 \<or> (checkpt_cur_block (ck d) \<in> blocks_of dev \<and>
       block_state (yaffs_get_block_info dev (checkpt_cur_block (ck d))) = YAFFS_BLOCK_STATE_EMPTY)"
proof -
  show "alloc_view d = alloc_view dev" "dev_config d = dev_config dev"
    "yaffs_get_block_info d = yaffs_get_block_info dev"
    by (simp_all add: d_def yaffs2_checkpt_find_erased_block_def Let_def split: option.split)
  show "checkpt_next_block (ck d) < 0 \<or> internal_start_block dev \<le> checkpt_next_block (ck d)"
    and "checkpt_cur_block (ck d) = -1 \<or> (checkpt_cur_block (ck d) \<in> blocks_of dev \<and>
       block_state (yaffs_get_block_info dev (checkpt_cur_block (ck d))) = YAFFS_BLOCK_STATE_EMPTY)"
    using assms(2,3)
    by (auto simp: d_def yaffs2_checkpt_find_erased_block_def Let_def blocks_of_def find_Some_iff
        in_set_conv_nth split: option.split)
qed


lemma upd_block_upd_ck: "upd_block_info (upd_ck dev g) b f = upd_ck (upd_block_info dev b f) g"
  by (simp add: upd_block_info_def upd_ck_def yaffs_get_block_info_def)

lemma alloc_view_claim_found:
  "alloc_view (upd_block_info (yaffs2_checkpt_find_erased_block dev) b f) = alloc_view (upd_block_info dev b f)"
  by (simp add: yaffs2_checkpt_find_erased_block_def Let_def upd_block_upd_ck split: option.split)

text \<open>The flush, after the search for a block: what it does to the view and to the position.\<close>

lemma flush_unfold:
  fixes dev :: "('n, 'x) yaffs_dev_scheme"
  defines "d1 \<equiv> (if checkpt_cur_block (ck dev) < 0
    then upd_ck (yaffs2_checkpt_find_erased_block dev) (\<lambda>c. c\<lparr>checkpt_cur_chunk := 0\<rparr>) else dev)"
  assumes "yaffs2_checkpt_flush_buffer junk dev = (ok, d)"
  shows "checkpt_cur_block (ck d1) < 0 \<Longrightarrow> ok = 0 \<and> d = d1"
    and "\<not> checkpt_cur_block (ck d1) < 0 \<Longrightarrow> ok = 1 \<and> dev_config d = dev_config d1 \<and>
      checkpt_next_block (ck d) = checkpt_next_block (ck d1) \<and>
      (checkpt_cur_block (ck d) < 0 \<or> checkpt_cur_chunk (ck d) = checkpt_cur_chunk (ck d1) + 1) \<and>
      (if checkpt_cur_chunk (ck d1) = 0
       then alloc_view d = alloc_view (upd_block_info d1 (checkpt_cur_block (ck d1))
              (\<lambda>bi. bi\<lparr>block_state := YAFFS_BLOCK_STATE_CHECKPOINT\<rparr>)) \<and>
            blocks_in_checkpt (ck d) = blocks_in_checkpt (ck d1) + 1
       else alloc_view d = alloc_view d1 \<and> blocks_in_checkpt (ck d) = blocks_in_checkpt (ck d1))"
  using assms(2) unfolding yaffs2_checkpt_flush_buffer_def Let_def d1_def [symmetric]
  by (auto split: prod.splits if_splits)

text \<open>A step of the writer: the stream goes on, and no chunk of data is touched.\<close>

definition keeps_writing :: "('n, 'x) yaffs_dev_scheme \<Rightarrow> ('n, 'x) yaffs_dev_scheme \<Rightarrow> bool" where
  "keeps_writing dev d \<longleftrightarrow> checkpt_writing d \<and> dev_config d = dev_config dev \<and> chunk_bits d = chunk_bits dev"

lemma keeps_writing_trans: "keeps_writing d1 d2 \<Longrightarrow> keeps_writing d2 d3 \<Longrightarrow> keeps_writing d1 d3"
  by (simp add: keeps_writing_def)

lemma alloc_view_bitmap: "alloc_view d = alloc_view d' \<Longrightarrow> chunk_bits d = chunk_bits d'"
  by (simp add: alloc_view_def)

lemma flush_writing:
  assumes w: "checkpt_writing dev" and f: "yaffs2_checkpt_flush_buffer junk dev = (ok, d)"
  shows "keeps_writing dev d"
proof -
  let ?f = "yaffs2_checkpt_find_erased_block dev"
  note keeps = keeps_writing_def checkpt_writing_def
  note u = flush_unfold [OF f]
  have inv: "alloc_inv (settled dev)" using w by (simp add: checkpt_writing_def)
  then have "geometry_ok (settled dev)" by (simp add: alloc_inv_def inv_geometry)
  then have start: "0 \<le> internal_start_block dev" by (simp add: geometry_ok_def settled_def)
  note fs = find_erased_spec [OF _ start]
  have next_ok: "checkpt_next_block (ck dev) < 0 \<or> internal_start_block dev \<le> checkpt_next_block (ck dev)"
    using w by (simp add: checkpt_writing_def)
  show ?thesis
  proof (cases "checkpt_cur_block (ck dev) < 0")
    case False
    then have pos: "0 < checkpt_cur_chunk (ck dev)" using w by (simp add: checkpt_writing_def)
    from u(2) False pos have d: "alloc_view d = alloc_view dev" "dev_config d = dev_config dev"
        "blocks_in_checkpt (ck d) = blocks_in_checkpt (ck dev)" "checkpt_next_block (ck d) = checkpt_next_block (ck dev)"
        "checkpt_cur_block (ck d) < 0 \<or> checkpt_cur_chunk (ck d) = checkpt_cur_chunk (ck dev) + 1"
      by auto
    have "internal_start_block d = internal_start_block dev" using d(2) by (simp add: dev_config_def)
    with d pos next_ok alloc_inv_settled_cong [OF d(1-3) inv] show ?thesis using alloc_view_bitmap [OF d(1)] by (auto simp: keeps)
  next
    case True
    note fs = find_erased_spec [OF next_ok start]
    show ?thesis
    proof (cases "checkpt_cur_block (ck ?f) < 0")
      case none: True
      then have "d = upd_ck ?f (\<lambda>c. c\<lparr>checkpt_cur_chunk := 0\<rparr>)" using u(1) True by simp
      moreover have "alloc_inv (settled (upd_ck ?f (\<lambda>c. c\<lparr>checkpt_cur_chunk := 0\<rparr>)))"
        by (rule alloc_inv_settled_cong [OF _ _ _ inv]) (simp_all add: fs(1,2))
      moreover have "internal_start_block ?f = internal_start_block dev" using fs(2) by (simp add: dev_config_def)
      ultimately show ?thesis using fs(2,4) none alloc_view_bitmap [OF fs(1)] by (simp add: keeps) (simp add: upd_ck_def)
    next
      case found: False
      have b: "checkpt_cur_block (ck ?f) \<in> blocks_of dev"
          "block_state (yaffs_get_block_info dev (checkpt_cur_block (ck ?f))) = YAFFS_BLOCK_STATE_EMPTY"
        using fs(5) found by auto
      from u(2) True found have d: "dev_config d = dev_config dev"
          "checkpt_next_block (ck d) = checkpt_next_block (ck ?f)"
          "checkpt_cur_block (ck d) < 0 \<or> checkpt_cur_chunk (ck d) = 1"
          "alloc_view d = alloc_view (upd_block_info dev (checkpt_cur_block (ck ?f))
              (\<lambda>bi. bi\<lparr>block_state := YAFFS_BLOCK_STATE_CHECKPOINT\<rparr>))"
          "blocks_in_checkpt (ck d) = blocks_in_checkpt (ck dev) + 1"
        by (auto simp: fs(2) upd_block_upd_ck alloc_view_claim_found)
      have "internal_start_block d = internal_start_block dev" using d(1) by (simp add: dev_config_def)
      then show ?thesis
        using settled_claim [OF inv b d(4,1,5)] fs(4) d alloc_view_bitmap [OF d(4)] by (auto simp: keeps)
    qed
  qed
qed

lemma put_byte_writing: "checkpt_writing dev \<Longrightarrow> keeps_writing dev (checkpt_put_byte b dev)"
  using alloc_inv_settled_cong [of "checkpt_put_byte b dev" dev]
  by (simp add: keeps_writing_def checkpt_writing_def checkpt_put_byte_def) (simp add: upd_ck_def)

lemma wr_loop_writing: "checkpt_writing dev \<Longrightarrow> keeps_writing dev (snd (checkpt_wr_loop junk data i dev))"
proof (induction data arbitrary: i dev)
  case (Cons b rest)
  let ?d = "checkpt_put_byte b dev"
  have p: "keeps_writing dev ?d" "checkpt_writing ?d"
    using put_byte_writing [OF Cons.prems] by (simp_all add: keeps_writing_def)
  obtain ok d where f: "(if checkpt_byte_offs (ck ?d) < 0 \<or> int (data_bytes_per_chunk ?d) \<le> checkpt_byte_offs (ck ?d)
      then yaffs2_checkpt_flush_buffer junk ?d else (1, ?d)) = (ok, d)" by fastforce
  have "keeps_writing ?d d"
    using flush_writing [OF p(2), of junk ok d] f p by (auto simp: keeps_writing_def split: if_splits)
  then have d: "keeps_writing dev d" "checkpt_writing d"
    using keeps_writing_trans [OF p(1)] by (simp_all add: keeps_writing_def)
  then show ?case
    using keeps_writing_trans [OF d(1) Cons.IH [OF d(2), of "i + 1"]] unfolding checkpt_wr_loop.simps Let_def f by simp
qed (simp add: checkpt_wr_loop.simps keeps_writing_def)

lemma wr_writing: "checkpt_writing dev \<Longrightarrow> keeps_writing dev (snd (yaffs2_checkpt_wr junk dev data))"
  using wr_loop_writing [of dev junk data 0] by (simp add: yaffs2_checkpt_wr_def keeps_writing_def)

lemma ck_erase_fold [simp]: "ck (fold checkpt_erase_step bs dev) = ck dev"
proof -
  have "ck (checkpt_erase_step i d) = ck d" for i and d :: "('a, 'b) yaffs_dev_scheme"
    by (simp add: checkpt_erase_step_def Let_def upd_block_info_def upd_stats_def split: prod.split)
  then show ?thesis by (induction bs arbitrary: dev) simp_all
qed

lemma chunk_bits_erase_fold [simp]: "chunk_bits (fold checkpt_erase_step bs dev) = chunk_bits dev"
proof -
  have "chunk_bits (checkpt_erase_step i d) = chunk_bits d" for i and d :: "('a, 'b) yaffs_dev_scheme"
    by (simp add: checkpt_erase_step_def Let_def upd_block_info_def upd_stats_def split: prod.split)
  then show ?thesis by (induction bs arbitrary: dev) simp_all
qed

lemma settled_none: "blocks_in_checkpt (ck dev) = 0 \<Longrightarrow> settled dev = dev"
  by (simp add: settled_def)

lemma chunk_bits_upd_ck [simp]: "chunk_bits (upd_ck dev f) = chunk_bits dev"
  "chunk_bits (yaffs2_checkpt_init_chunk_hdr dev) = chunk_bits dev"
  by (simp_all add: upd_ck_def yaffs2_checkpt_init_chunk_hdr_def Let_def)

lemma checkpt_erase_writing:
  assumes "alloc_inv dev" "checkpt_cur_block (ck dev) < 0" "checkpt_next_block (ck dev) = internal_start_block dev"
  shows "keeps_writing dev (snd (yaffs_checkpt_erase dev))" "ck (snd (yaffs_checkpt_erase dev)) = (ck dev)\<lparr>blocks_in_checkpt := 0\<rparr>"
proof -
  let ?d = "fold checkpt_erase_step (dev_blocks dev) dev"
  let ?e = "?d\<lparr>ck := (ck ?d)\<lparr>blocks_in_checkpt := 0\<rparr>\<rparr>"
  have "inv_except {} 0 ?d"
    using inv_checkpt_erase_fold [of "{}" 0 dev "dev_blocks dev"] assms(1)
    by (simp add: alloc_inv_def blocks_of_def dev_blocks_def)
  then have "alloc_inv ?e" unfolding alloc_inv_def by (rule inv_cong) simp_all
  then have "alloc_inv (settled ?e)" using settled_none [of ?e] by simp
  moreover have "internal_start_block ?d = internal_start_block dev"
    using dev_config_erase_fold [of "dev_blocks dev" dev] by (simp add: dev_config_def)
  ultimately show "keeps_writing dev (snd (yaffs_checkpt_erase dev))"
    using assms(2,3) by (simp add: keeps_writing_def checkpt_writing_def yaffs_checkpt_erase_def Let_def dev_config_erase_fold)
  show "ck (snd (yaffs_checkpt_erase dev)) = (ck dev)\<lparr>blocks_in_checkpt := 0\<rparr>"
    by (simp add: yaffs_checkpt_erase_def Let_def)
qed


section \<open>Opening and closing for writing\<close>

lemma drop_again: "\<exists>zs. drop (i + n) ys = drop i zs"
  by (rule exI [of _ "drop n ys"]) (simp add: add.commute)

lemma open_wr:
  fixes dev :: "('n, 'x) yaffs_dev_scheme"
  assumes "fst (yaffs2_checkpt_open mem list_mem dev True) = 1"
  obtains x where "yaffs2_checkpt_open mem list_mem dev True = yaffs_checkpt_erase x"
    "alloc_view x = alloc_view dev" "dev_config x = dev_config dev" "chunk_bits x = chunk_bits dev"
    "data_bytes_per_chunk x = data_bytes_per_chunk dev"
    "checkpt_cur_block (ck x) = -1" "checkpt_next_block (ck x) = internal_start_block x"
    "checkpt_open_write (ck x)" "checkpt_buffer (ck x) \<noteq> None"
    "checkpt_byte_offs (ck x) = 16" "checkpt_byte_count (ck x) = 0" "checkpt_page_seq (ck x) = 0"
    "checkpt_sum (ck x) = 0" "checkpt_xor (ck x) = 0"
    "\<exists>buf. checkpt_buffer (ck x) = Some (chunk_hdr_bytes (stored_le x) \<lparr>ch_version = YAFFS_CHECKPOINT_VERSION, ch_seq = 0,
       ch_sum = 0, ch_xor = 0\<rparr> @ drop 16 (replicate (data_bytes_per_chunk x) 0 @ buf))"
proof -
  let ?d = "if checkpt_buffer (ck dev) = None then upd_ck dev (\<lambda>c. c\<lparr>checkpt_buffer := mem, checkpt_open_write := True\<rparr>)
    else upd_ck dev (\<lambda>c. c\<lparr>checkpt_open_write := True\<rparr>)"
  have eq: "upd_ck (upd_ck dev f) g = upd_ck dev (g \<circ> f)" for f g by (simp add: upd_ck_def)
  define x where "x = yaffs2_checkpt_init_chunk_hdr (upd_ck ?d (\<lambda>c. c\<lparr>checkpt_page_seq := 0, checkpt_byte_count := 0,
      checkpt_sum := 0, checkpt_xor := 0, checkpt_cur_block := -1, checkpt_cur_chunk := -1,
      checkpt_next_block := internal_start_block dev, checkpt_buffer := map_option (\<lambda>buf.
        replicate (data_bytes_per_chunk dev) 0 @ drop (data_bytes_per_chunk dev) buf) (checkpt_buffer c)\<rparr>))"
  have buf: "checkpt_buffer (ck ?d) \<noteq> None"
    using assms by (auto simp: yaffs2_checkpt_open_def Let_def split: if_splits)
  have "yaffs2_checkpt_open mem list_mem dev True = yaffs_checkpt_erase x"
    using assms by (auto simp: yaffs2_checkpt_open_def Let_def x_def eq comp_def split: if_splits)
  then show thesis
    by (rule that) (use buf in \<open>auto simp: x_def\<close>, auto simp: yaffs2_checkpt_init_chunk_hdr_def Let_def hdr_bytes_stored intro: drop_again)
qed

lemma open_writing:
  assumes "alloc_inv dev" "fst (yaffs2_checkpt_open mem list_mem dev True) = 1"
  shows "keeps_writing dev (snd (yaffs2_checkpt_open mem list_mem dev True))"
    "checkpt_open_write (ck (snd (yaffs2_checkpt_open mem list_mem dev True)))"
proof -
  obtain x where x: "yaffs2_checkpt_open mem list_mem dev True = yaffs_checkpt_erase x"
      "alloc_view x = alloc_view dev" "dev_config x = dev_config dev" "chunk_bits x = chunk_bits dev"
      "checkpt_cur_block (ck x) = -1" "checkpt_next_block (ck x) = internal_start_block x"
      "checkpt_open_write (ck x)"
    using assms(2) by (rule open_wr)
  have "alloc_inv x" using assms(1) inv_cong [OF _ x(2,3)] by (simp add: alloc_inv_def)
  note e = checkpt_erase_writing [OF this, unfolded x(5,6)]
  show "keeps_writing dev (snd (yaffs2_checkpt_open mem list_mem dev True))"
    using e(1) x(1,3,4) by (simp add: keeps_writing_def)
  show "checkpt_open_write (ck (snd (yaffs2_checkpt_open mem list_mem dev True)))"
    using e(2) x(1,7) by simp
qed

text \<open>An opened stream is an empty one.\<close>

lemma open_has:
  fixes dev :: "('n, 'x) yaffs_dev_scheme" and mem :: "u8 list option" and list_mem :: "int list option"
  defines "d \<equiv> snd (yaffs2_checkpt_open mem list_mem dev True)"
  assumes o: "fst (yaffs2_checkpt_open mem list_mem dev True) = 1" and D: "16 < data_bytes_per_chunk dev" and c: "0 < cpb dev"
  shows "stream_has (nand d) [] d \<and> has_room d \<and> checkpt_open_write (ck d)"
proof -
  obtain x buf where x: "yaffs2_checkpt_open mem list_mem dev True = yaffs_checkpt_erase x" "dev_config x = dev_config dev"
      "checkpt_cur_block (ck x) = -1" "checkpt_open_write (ck x)" "checkpt_byte_offs (ck x) = 16"
      "checkpt_byte_count (ck x) = 0" "checkpt_page_seq (ck x) = 0" "checkpt_sum (ck x) = 0" "checkpt_xor (ck x) = 0"
      "checkpt_buffer (ck x) = Some (chunk_hdr_bytes (stored_le x) \<lparr>ch_version = YAFFS_CHECKPOINT_VERSION, ch_seq = 0,
         ch_sum = 0, ch_xor = 0\<rparr> @ drop 16 (replicate (data_bytes_per_chunk x) 0 @ buf))"
    using o by (rule open_wr) blast
  have ckd: "ck d = (ck x)\<lparr>blocks_in_checkpt := 0\<rparr>" by (simp add: d_def x(1) yaffs_checkpt_erase_def Let_def)
  have "dev_config d = dev_config x"
    using dev_config_erase_fold [of "dev_blocks x" x] by (simp add: d_def x(1) yaffs_checkpt_erase_def Let_def dev_config_def)
  then have cfg: "stored_le d = stored_le x" "data_bytes_per_chunk d = data_bytes_per_chunk dev"
      "data_bytes_per_chunk x = data_bytes_per_chunk dev" "cpb d = cpb dev"
    using dev_configD [of d x] dev_configD [OF x(2)] by (simp_all add: stored_le_def)
  have at: "stream_at [] d"
    using x D ckd cfg by (simp add: stream_at_def bytes_accounted_def sum_bytes_def xor_bytes_def)
  have "\<exists>buf. stream_pages (nand d) [] d buf []"
    using x D ckd cfg c by (simp add: stream_pages_def page_of_def write_pages_def page_place_def sum_bytes_def xor_bytes_def)
  then show ?thesis using at x D ckd cfg by (auto simp: stream_has_def has_room_def)
qed

text \<open>Neither writing nor flushing changes the direction of the stream.\<close>

lemma open_write_flush [simp]:
  "checkpt_open_write (ck (snd (yaffs2_checkpt_flush_buffer junk dev))) = checkpt_open_write (ck dev)"
proof -
  have f: "checkpt_open_write (ck (yaffs2_checkpt_find_erased_block d)) = checkpt_open_write (ck d)"
    "checkpt_open_write (ck (yaffs2_checkpt_init_chunk_hdr d)) = checkpt_open_write (ck d)"
    for d :: "('a, 'b) yaffs_dev_scheme"
    by (simp_all add: yaffs2_checkpt_find_erased_block_def yaffs2_checkpt_init_chunk_hdr_def Let_def split: option.split)
  show ?thesis by (simp add: yaffs2_checkpt_flush_buffer_def Let_def f split: prod.split)
qed

text \<open>What neither a byte put into the buffer nor a flush changes, the loop does not change.\<close>

lemma wr_loop_same:
  fixes dev :: "('n, 'x) yaffs_dev_scheme"
  assumes put: "\<And>b (d :: ('n, 'x) yaffs_dev_scheme). P (checkpt_put_byte b d) = P d"
    and flush: "\<And>d :: ('n, 'x) yaffs_dev_scheme. P (snd (yaffs2_checkpt_flush_buffer junk d)) = P d"
  shows "P (snd (checkpt_wr_loop junk data i dev)) = P dev"
proof (induction data arbitrary: i dev)
  case (Cons b rest)
  let ?d = "checkpt_put_byte b dev"
  obtain ok d where f: "(if checkpt_byte_offs (ck ?d) < 0 \<or> int (data_bytes_per_chunk ?d) \<le> checkpt_byte_offs (ck ?d)
      then yaffs2_checkpt_flush_buffer junk ?d else (1, ?d)) = (ok, d)" by fastforce
  have "d = snd (if checkpt_byte_offs (ck ?d) < 0 \<or> int (data_bytes_per_chunk ?d) \<le> checkpt_byte_offs (ck ?d)
      then yaffs2_checkpt_flush_buffer junk ?d else (1, ?d))" unfolding f by simp
  then have "P d = P dev" by (simp add: put flush split: if_splits)
  then show ?case using Cons.IH [of "i + 1" d] unfolding checkpt_wr_loop.simps Let_def f by simp
qed (simp add: checkpt_wr_loop.simps)

lemma open_write_wr_loop [simp]:
  "checkpt_open_write (ck (snd (checkpt_wr_loop junk data i dev))) = checkpt_open_write (ck dev)"
  by (rule wr_loop_same) (simp_all add: checkpt_put_byte_def)

lemma wr_fold_writing:
  assumes "checkpt_writing dev" "checkpt_open_write (ck dev)"
  shows "keeps_writing dev (fold (\<lambda>data d. snd (yaffs2_checkpt_wr junk d data)) datas dev) \<and>
    checkpt_open_write (ck (fold (\<lambda>data d. snd (yaffs2_checkpt_wr junk d data)) datas dev))"
  using assms
proof (induction datas arbitrary: dev)
  case (Cons data datas)
  let ?d = "snd (yaffs2_checkpt_wr junk dev data)"
  have k: "keeps_writing dev ?d" by (rule wr_writing [OF Cons.prems(1)])
  moreover have "checkpt_open_write (ck ?d)" using Cons.prems(2) by (simp add: yaffs2_checkpt_wr_def)
  ultimately show ?case
    using Cons.IH [of ?d] keeps_writing_trans [OF k] by (simp add: keeps_writing_def)
qed (simp add: keeps_writing_def)

lemma close_writing:
  assumes "checkpt_writing dev" "checkpt_open_write (ck dev)"
  shows "alloc_inv (snd (yaffs_checkpt_close junk dev))" "chunk_bits (snd (yaffs_checkpt_close junk dev)) = chunk_bits dev"
    "dev_config (snd (yaffs_checkpt_close junk dev)) = dev_config dev"
proof -
  let ?d = "if checkpt_byte_offs (ck dev) \<noteq> 4 then snd (yaffs2_checkpt_flush_buffer junk dev) else dev"
  have k: "keeps_writing dev ?d"
    using flush_writing [OF assms(1)] assms(1) by (simp add: keeps_writing_def prod_eq_iff)
  have "snd (yaffs_checkpt_close junk dev) = settled ?d"
    using assms(2) by (simp add: yaffs_checkpt_close_def Let_def settled_def)
  then show "alloc_inv (snd (yaffs_checkpt_close junk dev))"
    "chunk_bits (snd (yaffs_checkpt_close junk dev)) = chunk_bits dev"
    "dev_config (snd (yaffs_checkpt_close junk dev)) = dev_config dev"
    using k by (simp_all add: keeps_writing_def checkpt_writing_def)
qed


section \<open>Properties\<close>

text \<open>C10: Writing a checkpoint is invisible to the allocator: from opening the stream for writing,
  through any sequence of writes (also when the device runs out of blocks or the driver fails) to closing it, the
  chunks in use stay as they are, the blocks given to the checkpoint leave the free and erased
  counts, and afterwards the counters are exact again.\<close>

theorem checkpt_session_keeps_inv:
  assumes "alloc_inv dev" and "fst (yaffs2_checkpt_open mem list_mem dev True) = 1"
  shows "let d = snd (yaffs2_checkpt_open mem list_mem dev True);
      d = fold (\<lambda>data d. snd (yaffs2_checkpt_wr junk d data)) datas d;
      d = snd (yaffs_checkpt_close junk d)
    in alloc_inv d \<and> chunk_bits d = chunk_bits dev \<and> n_free_chunks d = yaffs_count_free_chunks d"
proof -
  let ?o = "snd (yaffs2_checkpt_open mem list_mem dev True)"
  let ?w = "fold (\<lambda>data d. snd (yaffs2_checkpt_wr junk d data)) datas ?o"
  note op = open_writing [OF assms]
  have ok: "checkpt_writing ?o" using op(1) by (simp add: keeps_writing_def)
  note w = wr_fold_writing [OF ok op(2), of junk datas]
  have "checkpt_writing ?w" "checkpt_open_write (ck ?w)" using w by (simp_all add: keeps_writing_def)
  note c = close_writing [OF this, of junk]
  show ?thesis
    unfolding Let_def using c(1,2) w op(1) alloc_inv_counters(1) [OF c(1)] by (simp add: keeps_writing_def)
qed

text \<open>C29: What \<open>yaffs2_checkpt_wr\<close> has accepted is in the stream, byte for byte, and nothing else is. From a
  stream that holds the bytes \<open>bs\<close>, the write of \<open>data\<close> leads to one that holds \<open>bs\<close> and the accepted bytes:
  the driver was given the full pages in order, each with its header (page number and sums of all bytes
  before it) and tags, to chunks behind the ones before, the buffer holds the begun page with
  zeros behind, and count, sums and position are those of the bytes. Less than all is accepted only when, after the
  last byte accepted, the page was full, no block was open and the search for a block
  fails: no erased block may be taken, or none is left from the next block on.\<close>

theorem checkpt_wr_accounts:
  assumes "stream_has n0 bs dev" and "has_room dev"
    and "checkpt_open_write (ck dev)" and "yaffs2_checkpt_wr junk dev data = (n, d)"
  shows "0 \<le> n \<and> n \<le> int (length data) \<and> stream_has n0 (bs @ take (nat n) data) d \<and>
    (n < int (length data) \<longrightarrow> 0 < n \<and> (case yaffs2_checkpt_wr junk dev (take (nat n - 1) data) of (n', e) \<Rightarrow>
      n' = n - 1 \<and> out_of_blocks (checkpt_put_byte (data ! (nat n - 1)) e)))"
proof -
  obtain buf where "checkpt_buffer (ck dev) = Some buf" using assms(1) by (auto simp: stream_has_def stream_pages_def)
  then have w: "yaffs2_checkpt_wr junk dev xs = checkpt_wr_loop junk xs 0 dev" for xs
    using assms(3) by (simp add: yaffs2_checkpt_wr_def)
  show ?thesis using wr_loop_has [OF assms(1,2), of junk data 0 n d] assms(4) unfolding w by simp
qed

text \<open>C37: Reading a checkpoint chunk with good tags leaves the offset in the buffer behind the
  data: the header, which would set it, is looked at only when the tags are bad. So the first
  byte asked for is taken from behind the chunk's data, and a buffer of exactly one chunk is
  overrun.\<close>

theorem checkpt_rd_overruns:
  assumes "checkpt_open_write (ck dev) = False" and "checkpt_buffer (ck dev) = Some buf"
    and "length buf = data_bytes_per_chunk dev" and "checkpt_byte_offs (ck dev) = int (data_bytes_per_chunk dev)"
    and "0 \<le> checkpt_cur_block (ck dev)"
    and "read_chunk_tags_fn (tagger dev) (nand dev) (apply_chunk_offset dev
        (checkpt_cur_block (ck dev) * cpb dev + checkpt_cur_chunk (ck dev))) True = (r, data, tags, n)"
    and "length data = data_bytes_per_chunk dev"
    and "chunk_id tags = word_of_int (checkpt_page_seq (ck dev) + 1)"
    and "ecc_result tags \<le> YAFFS_ECC_RESULT_FIXED" and "seq_number tags = YAFFS_SEQUENCE_CHECKPOINT_DATA"
  shows "yaffs2_checkpt_rd dev (Suc count) = None"
proof -
  have "\<not> YAFFS_ECC_RESULT_FIXED < ecc_result tags" using assms(9) by (simp add: not_less)
  then show ?thesis
    using assms by (simp add: yaffs2_checkpt_rd_def checkpt_rd_loop.simps checkpt_load_chunk_def Let_def
        apply_chunk_offset_def upd_stats_def)
qed


text \<open>C38: A checkpoint whose opening for writing fails for lack of space still writes a page when
  it is closed: at the position where the previous checkpoint stopped, whatever that block holds by
  now.\<close>

theorem failed_open_still_writes:
  assumes "\<not> yaffs2_checkpt_space_ok dev" and "0 \<le> checkpt_cur_block (ck dev)"
    and "checkpt_cur_chunk (ck dev) \<noteq> 0" and "checkpt_byte_offs (ck dev) \<noteq> 4"
  shows "fst (yaffs2_checkpt_open mem list_mem dev True) = 0 \<and>
    (\<exists>tags. nand (snd (yaffs_checkpt_close junk (snd (yaffs2_checkpt_open mem list_mem dev True)))) =
      snd (write_chunk_tags_fn (tagger dev) (nand dev)
        (checkpt_cur_block (ck dev) * cpb dev + checkpt_cur_chunk (ck dev) - chunk_offset dev)
        (checkpt_buffer (ck dev)) tags))"
proof -
  have sp: "yaffs2_checkpt_space_ok (upd_ck dev f) = yaffs2_checkpt_space_ok dev" for f
    by (simp add: yaffs2_checkpt_space_ok_def)
  have o: "yaffs2_checkpt_open mem list_mem dev True = (0, upd_ck dev (\<lambda>c. c\<lparr>checkpt_open_write := True\<rparr>))"
    using assms(1) by (simp add: yaffs2_checkpt_open_def Let_def sp)
  have i: "nand (yaffs2_checkpt_init_chunk_hdr d) = nand d" for d :: "('a, 'b) yaffs_dev_scheme"
    by (simp add: yaffs2_checkpt_init_chunk_hdr_def Let_def upd_ck_def)
  have f: "\<exists>tags. nand (snd (yaffs2_checkpt_flush_buffer junk (upd_ck dev (\<lambda>c. c\<lparr>checkpt_open_write := True\<rparr>)))) =
      snd (write_chunk_tags_fn (tagger dev) (nand dev)
        (checkpt_cur_block (ck dev) * cpb dev + checkpt_cur_chunk (ck dev) - chunk_offset dev)
        (checkpt_buffer (ck dev)) tags)"
    using assms(2,3)
    by (simp add: yaffs2_checkpt_flush_buffer_def Let_def i apply_chunk_offset_def split: prod.split)
      (auto simp: upd_ck_def upd_stats_def, metis snd_conv)
  show ?thesis using o f assms(4) by (simp add: yaffs_checkpt_close_def Let_def)
qed

section \<open>Witnesses\<close>

lemma checkpt_hdr_checked_witness:
  "let w = summary_dev\<lparr>ck := (ck summary_dev)\<lparr>checkpt_buffer := Some (replicate 64 0), checkpt_page_seq := 3,
         checkpt_sum := 0x12345, checkpt_xor := 0x77\<rparr>\<rparr>;
       r = summary_dev\<lparr>host_le := \<not> host_le w, swap_endian := \<not> swap_endian w,
         ck := (ck w)\<lparr>checkpt_buffer := checkpt_buffer (ck (yaffs2_checkpt_init_chunk_hdr w))\<rparr>\<rparr>
   in fst (yaffs2_checkpt_check_chunk_hdr r)"
  unfolding Let_def
  by (subst checkpt_hdr_checked [where writer = "summary_dev\<lparr>ck := (ck summary_dev)\<lparr>checkpt_buffer := Some (replicate 64 0), checkpt_page_seq := 3,
         checkpt_sum := 0x12345, checkpt_xor := 0x77\<rparr>\<rparr>"]) (simp_all add: stored_le_def)

lemma checkpt_session_keeps_inv_witness:
  "let d = snd (yaffs2_checkpt_open (Some (replicate 64 0)) None summary_dev True);
       d = fold (\<lambda>data d. snd (yaffs2_checkpt_wr zero_tags d data)) [replicate 60 7, [1, 2, 3]] d;
       d = snd (yaffs_checkpt_close zero_tags d)
   in alloc_inv d \<and> chunk_bits d = chunk_bits summary_dev \<and> n_free_chunks d = yaffs_count_free_chunks d"
proof (rule checkpt_session_keeps_inv [OF summary_alloc_inv])
  show "fst (yaffs2_checkpt_open (Some (replicate 64 0)) None summary_dev True) = 1"
    by (simp add: yaffs2_checkpt_open_def Let_def yaffs2_checkpt_space_ok_def yaffs_checkpt_erase_def
        yaffs2_checkpt_init_chunk_hdr_def upd_ck_def) (simp add: summary_fields zero_checkpt_def)
qed


lemma checkpt_wr_accounts_witness:
  "let d0 = snd (yaffs2_checkpt_open (Some (replicate 64 0)) None summary_dev True);
       (n, d) = yaffs2_checkpt_wr zero_tags d0 (replicate 60 7)
   in stream_has (nand d0) (take (nat n) (replicate 60 7)) d"
proof -
  let ?d0 = "snd (yaffs2_checkpt_open (Some (replicate 64 0)) None summary_dev True)"
  have "fst (yaffs2_checkpt_open (Some (replicate 64 0)) None summary_dev True) = 1"
    by (simp add: yaffs2_checkpt_open_def Let_def yaffs2_checkpt_space_ok_def yaffs_checkpt_erase_def
        yaffs2_checkpt_init_chunk_hdr_def upd_ck_def) (simp add: summary_fields zero_checkpt_def)
  then have o: "stream_has (nand ?d0) [] ?d0 \<and> has_room ?d0 \<and> checkpt_open_write (ck ?d0)"
    by (rule open_has) (simp_all add: summary_fields)
  obtain n d where w: "yaffs2_checkpt_wr zero_tags ?d0 (replicate 60 7) = (n, d)" by fastforce
  from checkpt_wr_accounts [OF _ _ _ w, of "nand ?d0" "[]"] o show ?thesis unfolding Let_def w by simp
qed

text \<open>A flash whose chunks all carry the right tags.\<close>

definition good_checkpt_dev :: "unit yaffs_dev" where
  "good_checkpt_dev = summary_dev\<lparr>
     tagger := (tagger summary_dev)\<lparr>read_chunk_tags_fn := (\<lambda>n c w. (YAFFS_OK, replicate 64 0,
        zero_tags\<lparr>chunk_id := 1, seq_number := YAFFS_SEQUENCE_CHECKPOINT_DATA,
          ecc_result := YAFFS_ECC_RESULT_NO_ERROR\<rparr>, n))\<rparr>,
     ck := zero_checkpt\<lparr>checkpt_buffer := Some (replicate 64 0), checkpt_byte_offs := 64, checkpt_cur_block := 2\<rparr>\<rparr>"

lemma checkpt_rd_overruns_witness: "yaffs2_checkpt_rd good_checkpt_dev (Suc 31) = None"
  by (rule checkpt_rd_overruns [where buf = "replicate 64 0" and r = YAFFS_OK and data = "replicate 64 0" and n = "()" and
      tags = "zero_tags\<lparr>chunk_id := 1, seq_number := YAFFS_SEQUENCE_CHECKPOINT_DATA,
          ecc_result := YAFFS_ECC_RESULT_NO_ERROR\<rparr>"])
    (simp_all add: good_checkpt_dev_def zero_checkpt_def less_eq_yaffs_ecc_result_def)

definition stale_checkpt_dev :: "unit yaffs_dev" where
  "stale_checkpt_dev = summary_dev\<lparr>n_erased_blocks := 1,
     ck := zero_checkpt\<lparr>checkpt_buffer := Some (replicate 64 0), checkpt_byte_offs := 16,
       checkpt_cur_block := 2, checkpt_cur_chunk := 1\<rparr>\<rparr>"

lemma failed_open_still_writes_witness:
  "fst (yaffs2_checkpt_open None None stale_checkpt_dev True) = 0 \<and>
    (\<exists>tags. nand (snd (yaffs_checkpt_close zero_tags (snd (yaffs2_checkpt_open None None stale_checkpt_dev True)))) =
      snd (write_chunk_tags_fn (tagger stale_checkpt_dev) (nand stale_checkpt_dev)
        (checkpt_cur_block (ck stale_checkpt_dev) * cpb stale_checkpt_dev + checkpt_cur_chunk (ck stale_checkpt_dev)
          - chunk_offset stale_checkpt_dev) (checkpt_buffer (ck stale_checkpt_dev)) tags))"
  by (rule failed_open_still_writes)
    (simp_all add: stale_checkpt_dev_def zero_checkpt_def yaffs2_checkpt_space_ok_def, simp add: summary_fields)

end
