(* ===== verification/Yaffs_CheckptData.thy ===== *)
theory Yaffs_CheckptData
  imports Yaffs_Checkpt Yaffs_FileMap
begin

text \<open>
  What goes into a checkpoint (yaffs_yaffs2.c): the validity markers, the counters of the device,
  the objects with their flags packed into a bit field, the level 0 nodes of the files and the
  composite sum. Structures are copied to the stream as their memory: a list of words in the
  byte order of the processor, after a swap of every field when the checkpoint is kept in the
  other order. On the target a pointer, an \<open>int\<close> and a \<open>loff_t\<close> have four bytes, so the validity
  structure has 16 bytes, the device structure 36 and the object structure 28.
\<close>

unbundle bit_operations_syntax

section \<open>Memory of word structures\<close>

definition words_bytes :: "bool \<Rightarrow> u32 list \<Rightarrow> u8 list" where
  "words_bytes le ws = concat (map (u32_bytes le) ws)"

fun words_of_bytes :: "bool \<Rightarrow> nat \<Rightarrow> u8 list \<Rightarrow> u32 list" where
  "words_of_bytes le 0 bs = []"
| "words_of_bytes le (Suc n) bs = bytes_u32 le (take 4 bs) # words_of_bytes le n (drop 4 bs)"

lemma length_words_bytes [simp]: "length (words_bytes le ws) = 4 * length ws"
  by (induction ws) (simp_all add: words_bytes_def)

lemma words_of_words_bytes [simp]: "words_of_bytes le (length ws) (words_bytes le ws) = ws"
  by (induction ws) (simp_all add: words_bytes_def)

lemma words_bytes_swap: "words_bytes le (map swap_u32 ws) = words_bytes (\<not> le) ws"
  by (simp add: words_bytes_def u32_bytes_swap comp_def)

definition yaffs_do_endian_u32 :: "('n, 'x) yaffs_dev_scheme \<Rightarrow> u32 \<Rightarrow> u32" where
  "yaffs_do_endian_u32 dev val = (if \<not> swap_endian dev then val else swap_u32 val)"

text \<open>Swapping and copying out is storing in the stored order.\<close>

lemma words_bytes_stored:
  "words_bytes (host_le dev) (map (yaffs_do_endian_u32 dev) ws) = words_bytes (stored_le dev) ws"
  using words_bytes_swap [of "host_le dev" ws] by (cases "swap_endian dev") (simp_all add: yaffs_do_endian_u32_def stored_le_def cong: map_cong)

lemma do_endian_u32_twice [simp]: "yaffs_do_endian_u32 dev (yaffs_do_endian_u32 dev w) = w"
  by (simp add: yaffs_do_endian_u32_def)

lemma words_read_back:
  assumes "stored_le r = stored_le w"
  shows "map (yaffs_do_endian_u32 r) (words_of_bytes (host_le r) (length ws)
    (words_bytes (host_le w) (map (yaffs_do_endian_u32 w) ws))) = ws"
proof -
  have "words_bytes (host_le w) (map (yaffs_do_endian_u32 w) ws) = words_bytes (host_le r) (map (yaffs_do_endian_u32 r) ws)"
    using assms by (simp only: words_bytes_stored)
  then show ?thesis
    using words_of_words_bytes [of "host_le r" "map (yaffs_do_endian_u32 r) ws"] by (simp add: comp_def)
qed

section \<open>Validity markers\<close>

record yaffs_checkpt_validity =
  cv_struct_type :: u32
  cv_magic :: u32
  cv_version :: u32
  cv_head :: u32

abbreviation YAFFS_MAGIC :: u32 where "YAFFS_MAGIC \<equiv> 0x5941ff53"

definition validity_words :: "yaffs_checkpt_validity \<Rightarrow> u32 list" where
  "validity_words v = [cv_struct_type v, cv_magic v, cv_version v, cv_head v]"

definition validity_of_words :: "u32 list \<Rightarrow> yaffs_checkpt_validity" where
  "validity_of_words ws = \<lparr>cv_struct_type = ws ! 0, cv_magic = ws ! 1, cv_version = ws ! 2, cv_head = ws ! 3\<rparr>"

definition yaffs2_do_endian_validity_marker ::
  "('n, 'x) yaffs_dev_scheme \<Rightarrow> yaffs_checkpt_validity \<Rightarrow> yaffs_checkpt_validity" where
  "yaffs2_do_endian_validity_marker dev v =
     (if \<not> swap_endian dev then v
      else \<lparr>cv_struct_type = swap_u32 (cv_struct_type v), cv_magic = swap_u32 (cv_magic v),
            cv_version = swap_u32 (cv_version v), cv_head = swap_u32 (cv_head v)\<rparr>)"

definition yaffs2_wr_checkpt_validity_marker ::
  "yaffs_ext_tags \<Rightarrow> ('n, 'x) yaffs_dev_scheme \<Rightarrow> bool \<Rightarrow> int \<times> ('n, 'x) yaffs_dev_scheme" where
  "yaffs2_wr_checkpt_validity_marker junk dev head =
     (let cp = \<lparr>cv_struct_type = 16, cv_magic = YAFFS_MAGIC, cv_version = YAFFS_CHECKPOINT_VERSION,
                cv_head = (if head then 1 else 0)\<rparr>;
          cp = yaffs2_do_endian_validity_marker dev cp;
          (n, dev) = yaffs2_checkpt_wr junk dev (words_bytes (host_le dev) (validity_words cp))
      in (if n = 16 then 1 else 0, dev))"

text \<open>The test of the bytes read; after a short read the structure is not looked at.\<close>

definition yaffs2_rd_checkpt_validity_marker ::
  "('n, 'x) yaffs_dev_scheme \<Rightarrow> bool \<Rightarrow> (int \<times> ('n, 'x) yaffs_dev_scheme) option" where
  "yaffs2_rd_checkpt_validity_marker dev head =
     (case yaffs2_checkpt_rd dev 16 of None \<Rightarrow> None
      | Some (n, got, dev) \<Rightarrow>
        (let cp = yaffs2_do_endian_validity_marker dev (validity_of_words (words_of_bytes (host_le dev) 4 got))
         in Some (if n = 16 \<and> cv_struct_type cp = 16 \<and> cv_magic cp = YAFFS_MAGIC \<and>
                     cv_version cp = YAFFS_CHECKPOINT_VERSION \<and> cv_head cp = (if head then 1 else 0)
                  then 1 else 0, dev)))"

section \<open>The device\<close>

text \<open>All fields are stored as words; the C \<open>int\<close>s among them are read back signed.\<close>

record yaffs_checkpt_dev =
  cd_struct_type :: u32
  cd_n_erased_blocks :: u32
  cd_alloc_block :: u32
  cd_alloc_page :: u32
  cd_n_free_chunks :: u32
  cd_n_deleted_files :: u32
  cd_n_unlinked_files :: u32
  cd_n_bg_deletions :: u32
  cd_seq_number :: u32

definition checkpt_dev_words :: "yaffs_checkpt_dev \<Rightarrow> u32 list" where
  "checkpt_dev_words cp = [cd_struct_type cp, cd_n_erased_blocks cp, cd_alloc_block cp, cd_alloc_page cp,
     cd_n_free_chunks cp, cd_n_deleted_files cp, cd_n_unlinked_files cp, cd_n_bg_deletions cp, cd_seq_number cp]"

definition checkpt_dev_of_words :: "u32 list \<Rightarrow> yaffs_checkpt_dev" where
  "checkpt_dev_of_words ws = \<lparr>cd_struct_type = ws ! 0, cd_n_erased_blocks = ws ! 1, cd_alloc_block = ws ! 2,
     cd_alloc_page = ws ! 3, cd_n_free_chunks = ws ! 4, cd_n_deleted_files = ws ! 5,
     cd_n_unlinked_files = ws ! 6, cd_n_bg_deletions = ws ! 7, cd_seq_number = ws ! 8\<rparr>"

definition yaffs2_dev_to_checkpt_dev :: "('n, 'x) yaffs_dev_scheme \<Rightarrow> yaffs_checkpt_dev" where
  "yaffs2_dev_to_checkpt_dev dev =
     \<lparr>cd_struct_type = 36, cd_n_erased_blocks = word_of_int (n_erased_blocks dev),
      cd_alloc_block = word_of_int (alloc_block dev), cd_alloc_page = word_of_int (alloc_page dev),
      cd_n_free_chunks = word_of_int (n_free_chunks dev), cd_n_deleted_files = word_of_int (n_deleted_files dev),
      cd_n_unlinked_files = word_of_int (n_unlinked_files dev),
      cd_n_bg_deletions = word_of_int (n_bg_deletions dev), cd_seq_number = dev_seq_number dev\<rparr>"

definition yaffs_checkpt_dev_to_dev ::
  "('n, 'x) yaffs_dev_scheme \<Rightarrow> yaffs_checkpt_dev \<Rightarrow> ('n, 'x) yaffs_dev_scheme" where
  "yaffs_checkpt_dev_to_dev dev cp =
     dev\<lparr>n_erased_blocks := sint (cd_n_erased_blocks cp), alloc_block := sint (cd_alloc_block cp),
         alloc_page := uint (cd_alloc_page cp), n_free_chunks := sint (cd_n_free_chunks cp),
         n_deleted_files := sint (cd_n_deleted_files cp), n_unlinked_files := sint (cd_n_unlinked_files cp),
         n_bg_deletions := sint (cd_n_bg_deletions cp), dev_seq_number := cd_seq_number cp\<rparr>"

text \<open>The sequence number is not among the swapped fields.\<close>

definition yaffs2_do_endian_checkpt_dev ::
  "('n, 'x) yaffs_dev_scheme \<Rightarrow> yaffs_checkpt_dev \<Rightarrow> yaffs_checkpt_dev" where
  "yaffs2_do_endian_checkpt_dev dev cp =
     (if \<not> swap_endian dev then cp
      else cp\<lparr>cd_struct_type := swap_u32 (cd_struct_type cp), cd_n_erased_blocks := swap_u32 (cd_n_erased_blocks cp),
         cd_alloc_block := swap_u32 (cd_alloc_block cp), cd_alloc_page := swap_u32 (cd_alloc_page cp),
         cd_n_free_chunks := swap_u32 (cd_n_free_chunks cp), cd_n_deleted_files := swap_u32 (cd_n_deleted_files cp),
         cd_n_unlinked_files := swap_u32 (cd_n_unlinked_files cp),
         cd_n_bg_deletions := swap_u32 (cd_n_bg_deletions cp)\<rparr>)"

section \<open>Objects\<close>

record yaffs_checkpt_obj =
  co_struct_type :: u32
  co_obj_id :: u32
  co_parent_id :: u32
  co_hdr_chunk :: u32
  co_bit_field :: u32
  co_n_data_chunks :: u32
  co_size_or_equiv_obj :: u32

definition checkpt_obj_words :: "yaffs_checkpt_obj \<Rightarrow> u32 list" where
  "checkpt_obj_words cp = [co_struct_type cp, co_obj_id cp, co_parent_id cp, co_hdr_chunk cp, co_bit_field cp,
     co_n_data_chunks cp, co_size_or_equiv_obj cp]"

definition checkpt_obj_of_words :: "u32 list \<Rightarrow> yaffs_checkpt_obj" where
  "checkpt_obj_of_words ws = \<lparr>co_struct_type = ws ! 0, co_obj_id = ws ! 1, co_parent_id = ws ! 2,
     co_hdr_chunk = ws ! 3, co_bit_field = ws ! 4, co_n_data_chunks = ws ! 5, co_size_or_equiv_obj = ws ! 6\<rparr>"

definition yaffs2_checkpt_obj_bit_assign :: "yaffs_checkpt_obj \<Rightarrow> nat \<Rightarrow> nat \<Rightarrow> u32 \<Rightarrow> yaffs_checkpt_obj" where
  "yaffs2_checkpt_obj_bit_assign cp bit_offset bit_width value =
     (let and_mask = push_bit bit_offset (push_bit bit_width 1 - 1) :: u32;
          cp = cp\<lparr>co_bit_field := co_bit_field cp AND NOT and_mask\<rparr>
      in cp\<lparr>co_bit_field := co_bit_field cp OR (push_bit bit_offset value AND and_mask)\<rparr>)"

definition yaffs2_checkpt_obj_bit_get :: "yaffs_checkpt_obj \<Rightarrow> nat \<Rightarrow> nat \<Rightarrow> u32" where
  "yaffs2_checkpt_obj_bit_get cp bit_offset bit_width =
     (let and_mask = push_bit bit_width 1 - 1 :: u32 in drop_bit bit_offset (co_bit_field cp) AND and_mask)"

text \<open>\<open>cp\<close> is the old contents of the local structure; \<open>parent_id\<close> is the identifier of the
  parent, or 0 when there is none.\<close>

definition yaffs2_obj_checkpt_obj :: "yaffs_checkpt_obj \<Rightarrow> u32 \<Rightarrow> yaffs_obj \<Rightarrow> yaffs_checkpt_obj" where
  "yaffs2_obj_checkpt_obj cp parent_id obj =
     (let cp = cp\<lparr>co_obj_id := obj_number obj, co_parent_id := parent_id, co_hdr_chunk := word_of_int (hdr_chunk obj)\<rparr>;
          cp = yaffs2_checkpt_obj_bit_assign cp 0 3 (variant_type obj);
          cp = yaffs2_checkpt_obj_bit_assign cp 3 1 (of_bool (deleted obj));
          cp = yaffs2_checkpt_obj_bit_assign cp 4 1 (of_bool (soft_del obj));
          cp = yaffs2_checkpt_obj_bit_assign cp 5 1 (of_bool (unlinked obj));
          cp = yaffs2_checkpt_obj_bit_assign cp 6 1 (of_bool (fake obj));
          cp = yaffs2_checkpt_obj_bit_assign cp 7 1 (of_bool (rename_allowed obj));
          cp = yaffs2_checkpt_obj_bit_assign cp 8 1 (of_bool (unlink_allowed obj));
          cp = yaffs2_checkpt_obj_bit_assign cp 9 8 (ucast (serial obj));
          cp = cp\<lparr>co_n_data_chunks := word_of_int (n_data_chunks obj)\<rparr>
      in if variant_type obj = YAFFS_OBJECT_TYPE_FILE then cp\<lparr>co_size_or_equiv_obj := file_size (file_variant obj)\<rparr>
         else if variant_type obj = YAFFS_OBJECT_TYPE_HARDLINK then cp\<lparr>co_size_or_equiv_obj := equiv_id obj\<rparr>
         else cp)"

text \<open>The part of \<open>yaffs2_checkpt_obj_to_obj\<close> after the parent has been looked up.\<close>

definition checkpt_obj_fields :: "yaffs_obj \<Rightarrow> yaffs_checkpt_obj \<Rightarrow> yaffs_obj" where
  "checkpt_obj_fields obj cp =
     (let obj = obj\<lparr>hdr_chunk := sint (co_hdr_chunk cp)\<rparr>;
          obj = obj\<lparr>variant_type := yaffs2_checkpt_obj_bit_get cp 0 3\<rparr>;
          obj = obj\<lparr>deleted := yaffs2_checkpt_obj_bit_get cp 3 1 \<noteq> 0\<rparr>;
          obj = obj\<lparr>soft_del := yaffs2_checkpt_obj_bit_get cp 4 1 \<noteq> 0\<rparr>;
          obj = obj\<lparr>unlinked := yaffs2_checkpt_obj_bit_get cp 5 1 \<noteq> 0\<rparr>;
          obj = obj\<lparr>fake := yaffs2_checkpt_obj_bit_get cp 6 1 \<noteq> 0\<rparr>;
          obj = obj\<lparr>rename_allowed := yaffs2_checkpt_obj_bit_get cp 7 1 \<noteq> 0\<rparr>;
          obj = obj\<lparr>unlink_allowed := yaffs2_checkpt_obj_bit_get cp 8 1 \<noteq> 0\<rparr>;
          obj = obj\<lparr>serial := ucast (yaffs2_checkpt_obj_bit_get cp 9 8)\<rparr>;
          obj = obj\<lparr>n_data_chunks := sint (co_n_data_chunks cp)\<rparr>;
          obj = (if variant_type obj = YAFFS_OBJECT_TYPE_FILE then
                   obj\<lparr>file_variant := (file_variant obj)\<lparr>file_size := co_size_or_equiv_obj cp,
                        stored_size := co_size_or_equiv_obj cp\<rparr>\<rparr>
                 else if variant_type obj = YAFFS_OBJECT_TYPE_HARDLINK then obj\<lparr>equiv_id := co_size_or_equiv_obj cp\<rparr>
                 else obj)
      in if hdr_chunk obj > 0 then obj\<lparr>lazy_loaded := True\<rparr> else obj)"

definition yaffs2_do_endian_checkpt_obj ::
  "('n, 'x) yaffs_dev_scheme \<Rightarrow> yaffs_checkpt_obj \<Rightarrow> yaffs_checkpt_obj" where
  "yaffs2_do_endian_checkpt_obj dev cp =
     (if \<not> swap_endian dev then cp
      else \<lparr>co_struct_type = swap_u32 (co_struct_type cp), co_obj_id = swap_u32 (co_obj_id cp),
            co_parent_id = swap_u32 (co_parent_id cp), co_hdr_chunk = swap_u32 (co_hdr_chunk cp),
            co_bit_field = swap_u32 (co_bit_field cp), co_n_data_chunks = swap_u32 (co_n_data_chunks cp),
            co_size_or_equiv_obj = swap_u32 (co_size_or_equiv_obj cp)\<rparr>)"

section \<open>Tree nodes\<close>

definition yaffs2_do_endian_tnode :: "('n, 'x) yaffs_dev_scheme \<Rightarrow> u32 list \<Rightarrow> u32 list" where
  "yaffs2_do_endian_tnode dev ws = (if \<not> swap_endian dev then ws else map swap_u32 ws)"

text \<open>The level 0 nodes below a node, each preceded by the number of its first chunk: the walk
  stops when a write fails.\<close>

fun yaffs2_checkpt_tnode_worker ::
  "yaffs_ext_tags \<Rightarrow> nat \<Rightarrow> yaffs_tnode option \<Rightarrow> int \<Rightarrow> ('n, 'x) yaffs_dev_scheme \<Rightarrow> bool \<times> ('n, 'x) yaffs_dev_scheme" where
  "yaffs2_checkpt_tnode_worker junk level None chunk_offs dev = (True, dev)"
| "yaffs2_checkpt_tnode_worker junk (Suc l) (Some tn) chunk_offs dev =
     fold (\<lambda>i (ok, dev). if \<not> ok \<or> internal_nodes tn ! i = None then (ok, dev)
         else yaffs2_checkpt_tnode_worker junk l (internal_nodes tn ! i) (chunk_offs * 8 + int i) dev)
       [0..<8] (True, dev)"
| "yaffs2_checkpt_tnode_worker junk 0 (Some tn) chunk_offs dev =
     (let base_offset = yaffs_do_endian_u32 dev (word_of_int (chunk_offs * 16));
          (n, dev) = yaffs2_checkpt_wr junk dev (u32_bytes (host_le dev) base_offset)
      in if n \<noteq> 4 then (False, dev)
         else
          (let ws = yaffs2_do_endian_tnode dev (take (tnode_size dev div 4) (tnode_map tn));
               (n, dev) = yaffs2_checkpt_wr junk dev (words_bytes (host_le dev) ws)
           in (n = int (tnode_size dev), dev)))"

definition yaffs2_wr_checkpt_tnodes ::
  "yaffs_ext_tags \<Rightarrow> yaffs_obj \<Rightarrow> ('n, 'x) yaffs_dev_scheme \<Rightarrow> bool \<times> ('n, 'x) yaffs_dev_scheme" where
  "yaffs2_wr_checkpt_tnodes junk obj dev =
     (let end_marker = NOT 0
      in if variant_type obj \<noteq> YAFFS_OBJECT_TYPE_FILE then (True, dev)
         else
          (let (ok, dev) = yaffs2_checkpt_tnode_worker junk (nat (top_level (file_variant obj)))
                              (top (file_variant obj)) 0 dev
           in if \<not> ok then (False, dev)
              else (let (n, dev) = yaffs2_checkpt_wr junk dev (u32_bytes (host_le dev) end_marker) in (n = 4, dev))))"

section \<open>The composite sum\<close>

definition yaffs2_wr_checkpt_sum :: "yaffs_ext_tags \<Rightarrow> ('n, 'x) yaffs_dev_scheme \<Rightarrow> int \<times> ('n, 'x) yaffs_dev_scheme" where
  "yaffs2_wr_checkpt_sum junk dev =
     (let sum = yaffs_do_endian_u32 dev (yaffs2_get_checkpt_sum dev);
          (n, dev) = yaffs2_checkpt_wr junk dev (u32_bytes (host_le dev) sum)
      in (if n \<noteq> 4 then 0 else 1, dev))"

definition yaffs2_rd_checkpt_sum :: "('n, 'x) yaffs_dev_scheme \<Rightarrow> (int \<times> ('n, 'x) yaffs_dev_scheme) option" where
  "yaffs2_rd_checkpt_sum dev =
     (let sum0 = yaffs2_get_checkpt_sum dev
      in case yaffs2_checkpt_rd dev 4 of None \<Rightarrow> None
         | Some (n, got, dev) \<Rightarrow>
             Some (if n \<noteq> 4 then 0
                   else if sum0 \<noteq> yaffs_do_endian_u32 dev (bytes_u32 (host_le dev) got) then 0 else 1, dev))"

section \<open>Writes that succeed\<close>

text \<open>After a flush that failed at the last byte of a write the stream is stuck: the buffer is
  full and no block will be found again.\<close>

definition stream_stuck :: "('n, 'x) yaffs_dev_scheme \<Rightarrow> bool" where
  "stream_stuck dev \<longleftrightarrow> checkpt_byte_offs (ck dev) = int (data_bytes_per_chunk dev) \<and>
     checkpt_cur_block (ck dev) < 0 \<and> checkpt_next_block (ck dev) < 0"

definition stream_ok :: "'n \<Rightarrow> u8 list \<Rightarrow> ('n, 'x) yaffs_dev_scheme \<Rightarrow> bool" where
  "stream_ok n0 bs dev \<longleftrightarrow> stream_has n0 bs dev \<and> checkpt_open_write (ck dev) \<and>
     (has_room dev \<or> stream_stuck dev)"

text \<open>What the writer reads of the device and does not change.\<close>

definition wr_config :: "('n, 'x) yaffs_dev_scheme \<Rightarrow> bool \<times> bool \<times> nat \<times> nat" where
  "wr_config dev = (host_le dev, swap_endian dev, tnode_size dev, data_bytes_per_chunk dev)"

lemma wr_config_upd [simp]:
  "wr_config (upd_ck dev f) = wr_config dev" "wr_config (upd_stats dev h) = wr_config dev"
  "wr_config (upd_block_info dev blk g) = wr_config dev" "wr_config (dev\<lparr>nand := n\<rparr>) = wr_config dev"
  "wr_config (yaffs2_checkpt_find_erased_block dev) = wr_config dev"
  "wr_config (yaffs2_checkpt_init_chunk_hdr dev) = wr_config dev"
  "wr_config (checkpt_put_byte b dev) = wr_config dev"
  by (simp_all add: wr_config_def upd_ck_def upd_stats_def upd_block_info_def yaffs2_checkpt_find_erased_block_def
      yaffs2_checkpt_init_chunk_hdr_def checkpt_put_byte_def Let_def split: option.split)

lemma wr_config_flush: "wr_config (snd (yaffs2_checkpt_flush_buffer junk dev)) = wr_config dev"
  by (simp add: yaffs2_checkpt_flush_buffer_def Let_def split: prod.split)

lemma wr_config_wr: "yaffs2_checkpt_wr junk dev data = (n, d) \<Longrightarrow> wr_config d = wr_config dev"
proof -
  have "wr_config (snd (checkpt_wr_loop junk data 0 dev)) = wr_config dev"
    by (rule wr_loop_same) (simp_all add: wr_config_flush)
  then show "yaffs2_checkpt_wr junk dev data = (n, d) \<Longrightarrow> wr_config d = wr_config dev"
    by (auto simp: yaffs2_checkpt_wr_def split: if_splits)
qed

lemma flush_stuck:
  assumes "checkpt_cur_block (ck dev) < 0" "checkpt_next_block (ck dev) < 0"
  shows "fst (yaffs2_checkpt_flush_buffer junk dev) = 0"
  using assms by (simp add: yaffs2_checkpt_flush_buffer_def yaffs2_checkpt_find_erased_block_def Let_def)

lemma flush_failed:
  assumes "yaffs2_checkpt_flush_buffer junk dev = (0, d)"
  shows "checkpt_cur_block (ck d) < 0 \<and> checkpt_next_block (ck d) < 0"
proof -
  have f: "checkpt_cur_block (ck (yaffs2_checkpt_find_erased_block dev)) < 0 \<Longrightarrow>
      checkpt_next_block (ck (yaffs2_checkpt_find_erased_block dev)) < 0"
    by (auto simp: yaffs2_checkpt_find_erased_block_def Let_def find_None_iff find_Some_iff split: option.splits if_splits)
  show ?thesis
    using assms f by (auto simp: yaffs2_checkpt_flush_buffer_def Let_def split: prod.splits if_splits)
qed

text \<open>A short write aside, the outcome of the loop: full, with or without room for more.\<close>

lemma wr_loop_ok:
  assumes "stream_at bs dev" "has_room dev" "checkpt_wr_loop junk data i dev = (n, d)"
    and "n = i + int (length data)"
  shows "has_room d \<or> stream_stuck d"
  using assms
proof (induction data arbitrary: bs i dev)
  case (Cons b rest)
  let ?p = "checkpt_put_byte b dev"
  obtain ok d1 where f: "(if checkpt_byte_offs (ck ?p) < 0 \<or> int (data_bytes_per_chunk ?p) \<le> checkpt_byte_offs (ck ?p)
      then yaffs2_checkpt_flush_buffer junk ?p else (1, ?p)) = (ok, d1)" by fastforce
  show ?case
  proof (cases "ok = 0")
    case True
    have fl: "yaffs2_checkpt_flush_buffer junk ?p = (0, d1)" using f True by (auto split: if_splits)
    have full: "int (data_bytes_per_chunk dev) \<le> checkpt_byte_offs (ck ?p)"
      using f True Cons.prems(1) by (auto simp: stream_at_def bytes_accounted_def checkpt_put_byte_def split: if_splits)
    have "d = d1 \<and> rest = []"
      using Cons.prems(3,4) True unfolding checkpt_wr_loop.simps Let_def f by auto
    moreover have "checkpt_byte_offs (ck ?p) = int (data_bytes_per_chunk dev)"
      using full Cons.prems(2) by (simp add: has_room_def checkpt_put_byte_def)
    ultimately show ?thesis
      using flush_failed [OF fl] flush_stream [OF fl] by (simp add: stream_stuck_def)
  next
    case False
    have p: "stream_at (bs @ [b]) ?p"
      by (rule stream_put_byte) (use Cons.prems(1,2) in \<open>simp_all add: has_room_def\<close>)
    have "stream_at (bs @ [b]) d1 \<and> has_room d1"
    proof (cases "int (data_bytes_per_chunk dev) \<le> checkpt_byte_offs (ck ?p)")
      case True
      then have fl: "yaffs2_checkpt_flush_buffer junk ?p = (ok, d1)" using f by simp
      have "checkpt_byte_offs (ck ?p) = int (data_bytes_per_chunk ?p)"
        using True Cons.prems(2) by (simp add: has_room_def checkpt_put_byte_def)
      then show ?thesis
        using stream_flush [OF p _ fl] flush_stream [OF fl] False Cons.prems(2) by (simp add: has_room_def)
    next
      case False
      then have "d1 = ?p"
        using f p by (auto simp: stream_at_def bytes_accounted_def split: if_splits)
      then show ?thesis using p False Cons.prems(2) by (simp add: has_room_def)
    qed
    moreover have "checkpt_wr_loop junk rest (i + 1) d1 = (n, d)"
      using Cons.prems(3) False unfolding checkpt_wr_loop.simps Let_def f by simp
    ultimately show ?thesis using Cons.IH [of "bs @ [b]" d1 "i + 1"] Cons.prems(4) by simp
  qed
qed (simp add: checkpt_wr_loop.simps)

text \<open>A write of at least two bytes that reports success has extended the stream by its data.\<close>

lemma wr_extends:
  assumes ok: "stream_ok n0 bs dev" and w: "yaffs2_checkpt_wr junk dev data = (n, d)"
    and n: "n = int (length data)" and two: "2 \<le> length data"
  shows "stream_ok n0 (bs @ data) d \<and> wr_config d = wr_config dev"
proof -
  have loop: "checkpt_wr_loop junk data 0 dev = (n, d)"
    using ok w by (auto simp: stream_ok_def stream_has_def stream_pages_def yaffs2_checkpt_wr_def)
  have room: "has_room dev"
  proof (rule ccontr)
    assume "\<not> has_room dev"
    then have stuck: "stream_stuck dev" using ok by (simp add: stream_ok_def)
    obtain b rest where data: "data = b # rest" using two by (cases data) auto
    let ?p = "checkpt_put_byte b dev"
    have "int (data_bytes_per_chunk ?p) \<le> checkpt_byte_offs (ck ?p)"
      using stuck by (simp add: stream_stuck_def checkpt_put_byte_def)
    moreover have "fst (yaffs2_checkpt_flush_buffer junk ?p) = 0"
      by (rule flush_stuck) (use stuck in \<open>simp_all add: stream_stuck_def checkpt_put_byte_def\<close>)
    ultimately have "fst (checkpt_wr_loop junk data 0 dev) = 1"
      unfolding data checkpt_wr_loop.simps Let_def by (simp add: case_prod_beta)
    then show False using loop n two by simp
  qed
  note st = wr_loop_has [OF _ room loop, of n0 bs] and ro = wr_loop_ok [OF _ room loop, of bs]
  have "checkpt_open_write (ck d)"
    using open_write_wr_loop [of junk data 0 dev] loop ok by (simp add: stream_ok_def)
  moreover have "stream_at bs dev" using ok by (simp add: stream_ok_def stream_has_def)
  ultimately show ?thesis
    using st ro n ok wr_config_wr [OF w] by (simp add: stream_ok_def)
qed


section \<open>The tree of a file as words\<close>

text \<open>For every level 0 node, in order: the number of its first chunk, then its entries.\<close>

fun tnode_records :: "nat \<Rightarrow> nat \<Rightarrow> yaffs_tnode option \<Rightarrow> int \<Rightarrow> u32 list" where
  "tnode_records k level None chunk_offs = []"
| "tnode_records k 0 (Some tn) chunk_offs = word_of_int (chunk_offs * 16) # take k (tnode_map tn)"
| "tnode_records k (Suc l) (Some tn) chunk_offs =
     concat (map (\<lambda>i. tnode_records k l (internal_nodes tn ! i) (chunk_offs * 8 + int i)) [0..<8])"

lemma words_bytes_append: "words_bytes le (xs @ ys) = words_bytes le xs @ words_bytes le ys"
  by (simp add: words_bytes_def)

lemma words_bytes_Cons: "words_bytes le (x # xs) = u32_bytes le x @ words_bytes le xs"
  by (simp add: words_bytes_def)

lemma words_bytes_Nil [simp]: "words_bytes le [] = []"
  by (simp add: words_bytes_def)

lemma endian_word_stored: "u32_bytes (host_le dev) (yaffs_do_endian_u32 dev w) = words_bytes (stored_le dev) [w]"
  using words_bytes_stored [of dev "[w]"] by (simp add: words_bytes_def)

lemma endian_tnode_stored: "words_bytes (host_le dev) (yaffs2_do_endian_tnode dev ws) = words_bytes (stored_le dev) ws"
proof -
  have "yaffs_do_endian_u32 dev = (if swap_endian dev then swap_u32 else id)"
    by (auto simp: yaffs_do_endian_u32_def)
  then have "yaffs2_do_endian_tnode dev ws = map (yaffs_do_endian_u32 dev) ws"
    by (simp add: yaffs2_do_endian_tnode_def)
  then show ?thesis by (simp only: words_bytes_stored)
qed

lemma wr_config_stored:
  "wr_config d = wr_config dev \<Longrightarrow> stored_le d = stored_le dev \<and> host_le d = host_le dev \<and> tnode_size d = tnode_size dev"
  by (simp add: wr_config_def stored_le_def)

lemma wr_le: "yaffs2_checkpt_wr junk dev data = (n, d) \<Longrightarrow> n \<le> int (length data)"
proof -
  have "fst (checkpt_wr_loop junk data i dev) \<le> i + int (length data)" for i
  proof (induction data arbitrary: i dev)
    case (Cons b rest)
    obtain ok d where "(if checkpt_byte_offs (ck (checkpt_put_byte b dev)) < 0 \<or>
        int (data_bytes_per_chunk (checkpt_put_byte b dev)) \<le> checkpt_byte_offs (ck (checkpt_put_byte b dev))
      then yaffs2_checkpt_flush_buffer junk (checkpt_put_byte b dev) else (1, checkpt_put_byte b dev)) = (ok, d)"
      by fastforce
    note f = this
    show ?case using Cons.IH [of "i + 1" d] unfolding checkpt_wr_loop.simps Let_def f by simp
  qed (simp add: checkpt_wr_loop.simps)
  from this [of 0] show "yaffs2_checkpt_wr junk dev data = (n, d) \<Longrightarrow> n \<le> int (length data)"
    by (auto simp: yaffs2_checkpt_wr_def split: if_splits)
qed

lemma tnode_leaf_written:
  assumes ok: "stream_ok n0 bs dev" and two: "2 \<le> tnode_size dev"
    and w: "yaffs2_checkpt_tnode_worker junk 0 (Some tn) offs dev = (True, d)"
  shows "stream_ok n0 (bs @ words_bytes (stored_le dev) (tnode_records (tnode_size dev div 4) 0 (Some tn) offs)) d \<and>
    wr_config d = wr_config dev"
proof -
  let ?base = "u32_bytes (host_le dev) (yaffs_do_endian_u32 dev (word_of_int (offs * 16)))"
  obtain n1 d1 where w1: "yaffs2_checkpt_wr junk dev ?base = (n1, d1)" by fastforce
  have n1: "n1 = 4" using w w1 by (auto simp: Let_def split: if_splits)
  note e1 = wr_extends [OF ok w1]
  then have s1: "stream_ok n0 (bs @ ?base) d1" and c1: "wr_config d1 = wr_config dev" using n1 by simp_all
  let ?ws = "take (tnode_size dev div 4) (tnode_map tn)"
  let ?node = "words_bytes (stored_le dev) ?ws"
  note cs = wr_config_stored [OF c1]
  obtain n2 d2 where w2: "yaffs2_checkpt_wr junk d1 ?node = (n2, d2)" by fastforce
  have n2: "n2 = int (tnode_size dev)" and d: "d = d2"
    using w w1 w2 n1 cs endian_tnode_stored [of d1] wr_config_stored [OF wr_config_wr [OF w2]]
    by (auto simp: Let_def)
  have "n2 \<le> int (length ?node)" by (rule wr_le [OF w2])
  moreover have "int (length ?node) \<le> int (tnode_size dev)" by simp
  ultimately have len: "n2 = int (length ?node)" using n2 by linarith
  have "2 \<le> length ?node" using len n2 two by linarith
  from wr_extends [OF s1 w2 len this] show ?thesis
    using c1 d by (simp add: words_bytes_Cons words_bytes_append endian_word_stored)
qed

lemma tnode_worker_written:
  assumes "stream_ok n0 bs dev" "2 \<le> tnode_size dev" "yaffs2_checkpt_tnode_worker junk level tn offs dev = (True, d)"
  shows "stream_ok n0 (bs @ words_bytes (stored_le dev) (tnode_records (tnode_size dev div 4) level tn offs)) d \<and>
    wr_config d = wr_config dev"
  using assms
proof (induction level arbitrary: bs dev tn offs d)
  case 0
  then show ?case
    using tnode_leaf_written [of n0 bs dev junk _ offs d] by (cases tn) (auto simp: words_bytes_def)
next
  case (Suc l)
  show ?case
  proof (cases tn)
    case None
    then show ?thesis using Suc.prems by (simp add: words_bytes_def)
  next
    case (Some t)
    let ?step = "\<lambda>i (ok, dev). if \<not> ok \<or> internal_nodes t ! i = None then (ok, dev)
         else yaffs2_checkpt_tnode_worker junk l (internal_nodes t ! i) (offs * 8 + int i) dev"
    let ?rec = "\<lambda>i. tnode_records (tnode_size dev div 4) l (internal_nodes t ! i) (offs * 8 + int i)"
    have stop: "fst (fold ?step is (False, x)) = False" for "is" x
      by (induction "is") simp_all
    have main: "stream_ok n0 (cs @ words_bytes (stored_le dev) (concat (map ?rec is))) d \<and> wr_config d = wr_config dev"
      if "stream_ok n0 cs x" "wr_config x = wr_config dev" "fold ?step is (True, x) = (True, d)" for "is" cs x
      using that
    proof (induction "is" arbitrary: cs x)
      case Nil
      then show ?case by (simp add: words_bytes_def)
    next
      case (Cons i "is")
      obtain ok y where y: "?step i (True, x) = (ok, y)" by fastforce
      have ok: "ok" using Cons.prems(3) y stop [of "is" y] by (cases ok) auto
      note cx = wr_config_stored [OF Cons.prems(2)]
      have "stream_ok n0 (cs @ words_bytes (stored_le dev) (?rec i)) y \<and> wr_config y = wr_config dev"
      proof (cases "internal_nodes t ! i = None")
        case True
        then show ?thesis using y Cons.prems(1,2) by (simp add: words_bytes_def)
      next
        case False
        then have "yaffs2_checkpt_tnode_worker junk l (internal_nodes t ! i) (offs * 8 + int i) x = (True, y)"
          using y ok by auto
        from Suc.IH [OF Cons.prems(1) _ this] show ?thesis using cx Suc.prems(2) Cons.prems(2) by simp
      qed
      then show ?case
        using Cons.IH [of "cs @ words_bytes (stored_le dev) (?rec i)" y] Cons.prems(3) y ok
        by (simp add: words_bytes_append)
    qed
    show ?thesis
      using main [OF Suc.prems(1) refl, of "[0..<8]"] Suc.prems(3) Some by simp
  qed
qed

text \<open>A short write is the end of the blocks: a search has failed.\<close>

definition checkpt_full :: "('n, 'x) yaffs_dev_scheme \<Rightarrow> bool" where
  "checkpt_full dev \<longleftrightarrow> checkpt_cur_block (ck dev) < 0 \<and> checkpt_next_block (ck dev) < 0"

lemma wr_loop_short:
  "checkpt_wr_loop junk data i dev = (n, d) \<Longrightarrow> n \<noteq> i + int (length data) \<Longrightarrow> checkpt_full d"
proof (induction data arbitrary: i dev)
  case (Cons b rest)
  let ?p = "checkpt_put_byte b dev"
  obtain ok d1 where f: "(if checkpt_byte_offs (ck ?p) < 0 \<or> int (data_bytes_per_chunk ?p) \<le> checkpt_byte_offs (ck ?p)
      then yaffs2_checkpt_flush_buffer junk ?p else (1, ?p)) = (ok, d1)" by fastforce
  show ?case
  proof (cases "ok = 0")
    case True
    then have "yaffs2_checkpt_flush_buffer junk ?p = (0, d1)" using f by (auto split: if_splits)
    then show ?thesis
      using flush_failed Cons.prems(1) True unfolding checkpt_wr_loop.simps Let_def f by (auto simp: checkpt_full_def)
  next
    case False
    then have "checkpt_wr_loop junk rest (i + 1) d1 = (n, d)" using Cons.prems(1) unfolding checkpt_wr_loop.simps Let_def f by simp
    then show ?thesis using Cons.IH [of "i + 1" d1] Cons.prems(2) by simp
  qed
qed (simp add: checkpt_wr_loop.simps)

lemma wr_short:
  "stream_ok n0 bs dev \<Longrightarrow> yaffs2_checkpt_wr junk dev data = (n, d) \<Longrightarrow> n \<noteq> int (length data) \<Longrightarrow> checkpt_full d"
  using wr_loop_short [of junk data 0 dev n d]
  by (auto simp: stream_ok_def stream_has_def stream_pages_def yaffs2_checkpt_wr_def)

lemma tnode_leaf_short:
  assumes ok: "stream_ok n0 bs dev" and two: "2 \<le> tnode_size dev" "tnode_size dev = 4 * map_words dev"
    and t: "tree_ok (map_words dev) 0 tn" and w: "yaffs2_checkpt_tnode_worker junk 0 (Some tn) offs dev = (False, d)"
  shows "checkpt_full d"
proof -
  let ?base = "u32_bytes (host_le dev) (yaffs_do_endian_u32 dev (word_of_int (offs * 16)))"
  obtain n1 d1 where w1: "yaffs2_checkpt_wr junk dev ?base = (n1, d1)" by fastforce
  show ?thesis
  proof (cases "n1 = 4")
    case False
    then show ?thesis using w w1 wr_short [OF ok w1] by (auto simp: Let_def split: if_splits)
  next
    case True
    note e1 = wr_extends [OF ok w1]
    then have s1: "stream_ok n0 (bs @ ?base) d1" and c1: "wr_config d1 = wr_config dev" using True by simp_all
    note cs = wr_config_stored [OF c1]
    let ?node = "words_bytes (host_le d1) (yaffs2_do_endian_tnode d1 (take (tnode_size d1 div 4) (tnode_map tn)))"
    obtain n2 d2 where w2: "yaffs2_checkpt_wr junk d1 ?node = (n2, d2)" by fastforce
    have "length ?node = 4 * length (take (tnode_size d1 div 4) (tnode_map tn))" unfolding endian_tnode_stored by simp
    also have "\<dots> = tnode_size dev" using t two(2) cs by (auto simp: tree_ok_0)
    finally have len: "length ?node = tnode_size dev" .
    have "n2 \<noteq> int (tnode_size dev)" "d = d2"
      using w w1 w2 True wr_config_stored [OF wr_config_wr [OF w2]] cs by (auto simp: Let_def)
    then show ?thesis using wr_short [OF s1 w2] len by simp
  qed
qed

lemma tnode_worker_short:
  assumes "stream_ok n0 bs dev" "2 \<le> tnode_size dev" "tnode_size dev = 4 * map_words dev"
    "\<And>t. tn = Some t \<Longrightarrow> tree_ok (map_words dev) level t" "yaffs2_checkpt_tnode_worker junk level tn offs dev = (False, d)"
  shows "checkpt_full d"
  using assms
proof (induction level arbitrary: bs dev tn offs d)
  case 0
  then show ?case using tnode_leaf_short [of n0 bs dev _ junk offs d] by (cases tn) auto
next
  case (Suc l)
  obtain t where t: "tn = Some t" using Suc.prems(5) by (cases tn) auto
  let ?step = "\<lambda>i (ok, dev). if \<not> ok \<or> internal_nodes t ! i = None then (ok, dev)
       else yaffs2_checkpt_tnode_worker junk l (internal_nodes t ! i) (offs * 8 + int i) dev"
  have stop: "fold ?step is (False, x) = (False, x)" for "is" x
    by (induction "is") simp_all
  have main: "checkpt_full d"
    if "stream_ok n0 cs x" "wr_config x = wr_config dev" "fold ?step is (True, x) = (False, d)" "set is \<subseteq> {0..<8}" for "is" cs x
    using that
  proof (induction "is" arbitrary: cs x)
    case (Cons i "is")
    obtain ok y where y: "?step i (True, x) = (ok, y)" by fastforce
    note cx = wr_config_stored [OF Cons.prems(2)]
    have size: "2 \<le> tnode_size x" "tnode_size x = 4 * map_words x" using Suc.prems(2,3) cx by simp_all
    have kid: "tree_ok (map_words x) l s" if "internal_nodes t ! i = Some s" for s
      using tree_ok_child [OF Suc.prems(4) [OF t], of i s] that cx Cons.prems(4) by simp
    show ?case
    proof (cases ok)
      case False
      then have w: "yaffs2_checkpt_tnode_worker junk l (internal_nodes t ! i) (offs * 8 + int i) x = (False, y)"
        using y by (auto split: if_splits)
      have "fold ?step is (ok, y) = (False, d)" using Cons.prems(3) unfolding fold_simps y .
      then have "d = y" using False stop [of "is" y] by (simp only: eq_False [THEN iffD2, OF False] prod.inject)
      then show ?thesis using Suc.IH [OF Cons.prems(1) size kid w] by simp
    next
      case True
      have "\<exists>cs'. stream_ok n0 cs' y \<and> wr_config y = wr_config x"
      proof (cases "internal_nodes t ! i = None")
        case True
        then show ?thesis using y Cons.prems(1) by auto
      next
        case False
        then have "yaffs2_checkpt_tnode_worker junk l (internal_nodes t ! i) (offs * 8 + int i) x = (True, y)"
          using y True by auto
        from tnode_worker_written [OF Cons.prems(1) size(1) this] show ?thesis by blast
      qed
      then show ?thesis using Cons.IH [of _ y] Cons.prems y True by auto
    qed
  qed simp
  show ?case using main [OF Suc.prems(1) refl, of "[0..<8]"] Suc.prems(5) t by simp
qed

section \<open>The bit field\<close>

lemma width_mask: "push_bit w 1 - 1 = (mask w :: u32)"
  by (simp add: mask_eq_exp_minus_1 push_bit_eq_mult)

lemma obj_bit_get_assign:
  assumes "k + w \<le> 32"
  shows "yaffs2_checkpt_obj_bit_get (yaffs2_checkpt_obj_bit_assign cp k w v) k w = v AND mask w"
  unfolding yaffs2_checkpt_obj_bit_get_def yaffs2_checkpt_obj_bit_assign_def Let_def width_mask
  by (rule bit_word_eqI)
    (use assms in \<open>auto simp: bit_and_iff bit_or_iff bit_not_iff bit_drop_bit_eq bit_push_bit_iff bit_mask_iff\<close>)

lemma obj_bit_get_other:
  assumes "k + w \<le> 32" "k' + w' \<le> 32" "k + w \<le> k' \<or> k' + w' \<le> k"
  shows "yaffs2_checkpt_obj_bit_get (yaffs2_checkpt_obj_bit_assign cp k' w' v) k w = yaffs2_checkpt_obj_bit_get cp k w"
  unfolding yaffs2_checkpt_obj_bit_get_def yaffs2_checkpt_obj_bit_assign_def Let_def width_mask
  by (rule bit_word_eqI)
    (use assms in \<open>auto simp: bit_and_iff bit_or_iff bit_not_iff bit_drop_bit_eq bit_push_bit_iff bit_mask_iff\<close>)

lemma obj_bit_get_fields [simp]:
  "yaffs2_checkpt_obj_bit_get (cp\<lparr>co_n_data_chunks := n\<rparr>) k w = yaffs2_checkpt_obj_bit_get cp k w"
  "yaffs2_checkpt_obj_bit_get (cp\<lparr>co_size_or_equiv_obj := n\<rparr>) k w = yaffs2_checkpt_obj_bit_get cp k w"
  "yaffs2_checkpt_obj_bit_get (cp\<lparr>co_struct_type := n\<rparr>) k w = yaffs2_checkpt_obj_bit_get cp k w"
  by (simp_all add: yaffs2_checkpt_obj_bit_get_def)

lemma obj_assign_fields [simp]:
  "co_obj_id (yaffs2_checkpt_obj_bit_assign cp k w v) = co_obj_id cp"
  "co_parent_id (yaffs2_checkpt_obj_bit_assign cp k w v) = co_parent_id cp"
  "co_hdr_chunk (yaffs2_checkpt_obj_bit_assign cp k w v) = co_hdr_chunk cp"
  by (simp_all add: yaffs2_checkpt_obj_bit_assign_def Let_def)

text \<open>The fields the checkpoint keeps of an object.\<close>

lemma obj_checkpt_obj_fields:
  assumes cp_def: "cp = yaffs2_obj_checkpt_obj junk_cp parent_id obj" and "variant_type obj < 8"
  shows "co_obj_id cp = obj_number obj" "co_parent_id cp = parent_id" "co_hdr_chunk cp = word_of_int (hdr_chunk obj)"
    "co_n_data_chunks cp = word_of_int (n_data_chunks obj)"
    "variant_type obj = YAFFS_OBJECT_TYPE_FILE \<Longrightarrow> co_size_or_equiv_obj cp = file_size (file_variant obj)"
    "variant_type obj = YAFFS_OBJECT_TYPE_HARDLINK \<Longrightarrow> co_size_or_equiv_obj cp = equiv_id obj"
    "yaffs2_checkpt_obj_bit_get cp 0 3 = variant_type obj"
    "yaffs2_checkpt_obj_bit_get cp 3 1 = of_bool (deleted obj)"
    "yaffs2_checkpt_obj_bit_get cp 4 1 = of_bool (soft_del obj)"
    "yaffs2_checkpt_obj_bit_get cp 5 1 = of_bool (unlinked obj)"
    "yaffs2_checkpt_obj_bit_get cp 6 1 = of_bool (fake obj)"
    "yaffs2_checkpt_obj_bit_get cp 7 1 = of_bool (rename_allowed obj)"
    "yaffs2_checkpt_obj_bit_get cp 8 1 = of_bool (unlink_allowed obj)"
    "yaffs2_checkpt_obj_bit_get cp 9 8 = ucast (serial obj)"
proof -
  have m3: "variant_type obj AND mask 3 = variant_type obj"
  proof -
    have "uint (variant_type obj) < 8" using assms(2) by (simp add: word_less_def)
    then have "take_bit 3 (variant_type obj) = variant_type obj"
      by (simp add: word_uint_eq_iff unsigned_take_bit_eq take_bit_int_eq_self)
    then show ?thesis by (simp add: take_bit_eq_mask)
  qed
  have m8: "(ucast (serial obj) :: u32) AND mask 8 = ucast (serial obj)"
    by (rule bit_word_eqI) (auto simp: bit_and_iff bit_mask_iff bit_ucast_iff dest: bit_imp_le_length)
  have m1: "of_bool P AND mask 1 = (of_bool P :: u32)" for P
    by (cases P) simp_all
  have num: "(4 :: u32) AND mask 3 = 4" "(1 :: u32) AND mask 3 = 1"
    by (simp_all add: mask_eq_exp_minus_1)
  show "co_obj_id cp = obj_number obj" "co_parent_id cp = parent_id" "co_hdr_chunk cp = word_of_int (hdr_chunk obj)"
    "co_n_data_chunks cp = word_of_int (n_data_chunks obj)"
    "variant_type obj = YAFFS_OBJECT_TYPE_FILE \<Longrightarrow> co_size_or_equiv_obj cp = file_size (file_variant obj)"
    "variant_type obj = YAFFS_OBJECT_TYPE_HARDLINK \<Longrightarrow> co_size_or_equiv_obj cp = equiv_id obj"
    by (simp_all add: cp_def yaffs2_obj_checkpt_obj_def Let_def)
  show "yaffs2_checkpt_obj_bit_get cp 0 3 = variant_type obj"
    "yaffs2_checkpt_obj_bit_get cp 3 1 = of_bool (deleted obj)"
    "yaffs2_checkpt_obj_bit_get cp 4 1 = of_bool (soft_del obj)"
    "yaffs2_checkpt_obj_bit_get cp 5 1 = of_bool (unlinked obj)"
    "yaffs2_checkpt_obj_bit_get cp 6 1 = of_bool (fake obj)"
    "yaffs2_checkpt_obj_bit_get cp 7 1 = of_bool (rename_allowed obj)"
    "yaffs2_checkpt_obj_bit_get cp 8 1 = of_bool (unlink_allowed obj)"
    "yaffs2_checkpt_obj_bit_get cp 9 8 = ucast (serial obj)"
    by (simp_all add: cp_def yaffs2_obj_checkpt_obj_def Let_def obj_bit_get_other obj_bit_get_assign m3 m8 m1 num)
qed

section \<open>Properties\<close>

text \<open>C30: The tree of a file in the checkpoint. When writing it succeeds, the stream has gained, byte for byte,
  the records of its level 0 nodes from the lowest chunk to the highest - the number of the first chunk and
  the entries, in the byte order of the checkpoint - and the end marker, and nothing else; the walk
  loses no node and writes none twice. On a well-formed tree it fails only when the search for a
  block has failed.\<close>

theorem checkpt_tnodes_written:
  assumes "stream_ok n0 bs dev" and "2 \<le> tnode_size dev" and "variant_type obj = YAFFS_OBJECT_TYPE_FILE"
    and "yaffs2_wr_checkpt_tnodes junk obj dev = (ok, d)"
  shows "if ok then stream_ok n0 (bs @ words_bytes (stored_le dev) (tnode_records (tnode_size dev div 4)
      (nat (top_level (file_variant obj))) (top (file_variant obj)) 0 @ [NOT 0])) d
    else file_ok dev (file_variant obj) \<and> tnode_size dev mod 4 = 0 \<longrightarrow> checkpt_full d"
proof -
  let ?l = "nat (top_level (file_variant obj))" and ?t = "top (file_variant obj)"
  obtain wok d1 where w1: "yaffs2_checkpt_tnode_worker junk ?l ?t 0 dev = (wok, d1)" by fastforce
  show ?thesis
  proof (cases wok)
    case False
    then have d: "\<not> ok" "d = d1" using assms(3,4) w1 by (auto simp: yaffs2_wr_checkpt_tnodes_def)
    have "checkpt_full d1" if f: "file_ok dev (file_variant obj)" "tnode_size dev mod 4 = 0"
    proof (rule tnode_worker_short [OF assms(1,2)])
      show "yaffs2_checkpt_tnode_worker junk ?l ?t 0 dev = (False, d1)" using w1 False by simp
      show "tnode_size dev = 4 * map_words dev" using f(2) by presburger
      show "tree_ok (map_words dev) ?l t" if "?t = Some t" for t using f(1) that by (simp add: file_ok_def)
    qed
    then show ?thesis using d by simp
  next
    case True
    note st = tnode_worker_written [OF assms(1,2) w1 [unfolded eqTrueI [OF True]]]
    obtain n d2 where w2: "yaffs2_checkpt_wr junk d1 (u32_bytes (host_le d1) (NOT 0)) = (n, d2)" by fastforce
    have n: "ok = (n = 4)" "d = d2" using assms(3,4) w1 w2 True by (auto simp: yaffs2_wr_checkpt_tnodes_def)
    have marker: "u32_bytes le (NOT 0) = words_bytes le' [NOT 0]" for le le'
    proof -
      have "(ucast (drop_bit k (NOT 0 :: u32)) :: u8) = NOT 0" if "k \<le> 24" for k
        by (rule bit_word_eqI) (use that in \<open>auto simp: bit_ucast_iff bit_drop_bit_eq bit_not_iff bit_mask_iff\<close>)
      from this [of 0] this [of 8] this [of 16] this [of 24] show ?thesis
        by (simp only: words_bytes_def u32_bytes_def Let_def drop_bit_0 id_apply list.map concat.simps append_Nil2) simp
    qed
    have len: "length (u32_bytes (host_le d1) (NOT 0)) = 4" by simp
    show ?thesis
    proof (cases "n = 4")
      case True
      then show ?thesis
        using wr_extends [OF conjunct1 [OF st] w2] n len
        unfolding marker [of _ "stored_le dev"] by (simp only: words_bytes_append append_assoc) simp
    next
      case False
      then show ?thesis using wr_short [OF conjunct1 [OF st] w2] n by simp
    qed
  qed
qed

text \<open>C36: A device record written into the checkpoint is read back by a processor of either byte
  order with every counter unchanged, but a processor of the other byte order gets the sequence
  number with its bytes reversed, because that field is not swapped.\<close>

theorem checkpt_dev_portable:
  fixes w :: "('n, 'x) yaffs_dev_scheme" and r :: "('m, 'y) yaffs_dev_scheme"
  assumes "stored_le r = stored_le w"
    and "\<forall>x \<in> {n_erased_blocks w, alloc_block w, n_free_chunks w, n_deleted_files w, n_unlinked_files w, n_bg_deletions w}.
      - (2 ^ 31) \<le> x \<and> x < 2 ^ 31" and "0 \<le> alloc_page w" and "alloc_page w < 2 ^ 32"
  shows "let bytes = words_bytes (host_le w) (checkpt_dev_words (yaffs2_do_endian_checkpt_dev w (yaffs2_dev_to_checkpt_dev w)));
      cp = yaffs2_do_endian_checkpt_dev r (checkpt_dev_of_words (words_of_bytes (host_le r) 9 bytes));
      d = yaffs_checkpt_dev_to_dev r cp
    in cd_struct_type cp = 36 \<and> n_erased_blocks d = n_erased_blocks w \<and> alloc_block d = alloc_block w \<and>
      alloc_page d = alloc_page w \<and> n_free_chunks d = n_free_chunks w \<and> n_deleted_files d = n_deleted_files w \<and>
      n_unlinked_files d = n_unlinked_files w \<and> n_bg_deletions d = n_bg_deletions w \<and>
      dev_seq_number d = (if host_le r = host_le w then dev_seq_number w else swap_u32 (dev_seq_number w))"
proof -
  have int: "sint (word_of_int x :: u32) = x" if "- (2 ^ 31) \<le> x" "x < 2 ^ 31" for x
    using that by (simp add: signed_take_bit_int_eq_self sint_sbintrunc')
  have uns: "uint (word_of_int x :: u32) = x" if "0 \<le> x" "x < 2 ^ 32" for x
    using that by (simp add: uint_word_of_int)
  let ?ws = "checkpt_dev_words (yaffs2_do_endian_checkpt_dev w (yaffs2_dev_to_checkpt_dev w))"
  have len: "length ?ws = 9" by (simp add: checkpt_dev_words_def)
  have read: "words_of_bytes (host_le r) 9 (words_bytes (host_le w) ?ws) =
      (if host_le r = host_le w then ?ws else map swap_u32 ?ws)"
  proof (cases "host_le r = host_le w")
    case True
    then show ?thesis using words_of_words_bytes [of "host_le w" ?ws] len by simp
  next
    case False
    then have "words_bytes (host_le w) ?ws = words_bytes (host_le r) (map swap_u32 ?ws)"
      using words_bytes_swap [of "host_le r" ?ws] by simp
    then show ?thesis using False words_of_words_bytes [of "host_le r" "map swap_u32 ?ws"] len by simp
  qed
  show ?thesis
  proof (cases "host_le r = host_le w")
    case True
    then have "swap_endian r = swap_endian w" using assms(1) by (auto simp: stored_le_def)
    then show ?thesis
      unfolding read Let_def using True assms(2-4)
      by (simp add: checkpt_dev_words_def checkpt_dev_of_words_def yaffs2_do_endian_checkpt_dev_def
          yaffs2_dev_to_checkpt_dev_def yaffs_checkpt_dev_to_dev_def eval_nat_numeral int uns)
  next
    case False
    then have "swap_endian r \<longleftrightarrow> \<not> swap_endian w" using assms(1) by (auto simp: stored_le_def)
    then show ?thesis
      unfolding read Let_def using False assms(2-4)
      by (simp add: checkpt_dev_words_def checkpt_dev_of_words_def yaffs2_do_endian_checkpt_dev_def
          yaffs2_dev_to_checkpt_dev_def yaffs_checkpt_dev_to_dev_def eval_nat_numeral int uns)
  qed
qed


text \<open>C23: An object written into the checkpoint is read back by a processor of either byte order
  with its identifier, its parent, its flags, its serial number, its header chunk, its number of
  chunks and, for a file, its size; nothing of what was in the local structure before gets into
  them.\<close>

theorem checkpt_obj_portable:
  fixes w :: "('n, 'x) yaffs_dev_scheme" and r :: "('m, 'y) yaffs_dev_scheme"
  assumes "stored_le r = stored_le w" and "variant_type obj < 8"
    and "- (2 ^ 31) \<le> hdr_chunk obj \<and> hdr_chunk obj < 2 ^ 31"
    and "- (2 ^ 31) \<le> n_data_chunks obj \<and> n_data_chunks obj < 2 ^ 31"
  shows "let cp = (yaffs2_obj_checkpt_obj junk_cp parent_id obj)\<lparr>co_struct_type := 28\<rparr>;
      bytes = words_bytes (host_le w) (checkpt_obj_words (yaffs2_do_endian_checkpt_obj w cp));
      cp' = yaffs2_do_endian_checkpt_obj r (checkpt_obj_of_words (words_of_bytes (host_le r) 7 bytes));
      o' = checkpt_obj_fields blank cp'
    in co_struct_type cp' = 28 \<and> co_obj_id cp' = obj_number obj \<and> co_parent_id cp' = parent_id \<and>
      variant_type o' = variant_type obj \<and> hdr_chunk o' = hdr_chunk obj \<and> n_data_chunks o' = n_data_chunks obj \<and>
      deleted o' = deleted obj \<and> soft_del o' = soft_del obj \<and> unlinked o' = unlinked obj \<and> fake o' = fake obj \<and>
      rename_allowed o' = rename_allowed obj \<and> unlink_allowed o' = unlink_allowed obj \<and> serial o' = serial obj \<and>
      (variant_type obj = YAFFS_OBJECT_TYPE_FILE \<longrightarrow> file_size (file_variant o') = file_size (file_variant obj)) \<and>
      (variant_type obj = YAFFS_OBJECT_TYPE_HARDLINK \<longrightarrow> equiv_id o' = equiv_id obj)"
proof -
  define cp where "cp = (yaffs2_obj_checkpt_obj junk_cp parent_id obj)\<lparr>co_struct_type := 28\<rparr>"
  have endian: "checkpt_obj_words (yaffs2_do_endian_checkpt_obj d cp) = map (yaffs_do_endian_u32 d) (checkpt_obj_words cp)"
    for d :: "('a, 'b) yaffs_dev_scheme" and cp
    by (simp add: checkpt_obj_words_def yaffs2_do_endian_checkpt_obj_def yaffs_do_endian_u32_def)
  have read: "yaffs2_do_endian_checkpt_obj d (checkpt_obj_of_words ws) = checkpt_obj_of_words (map (yaffs_do_endian_u32 d) ws)"
    if "length ws = 7" for d :: "('a, 'b) yaffs_dev_scheme" and ws
    using that by (simp add: checkpt_obj_of_words_def yaffs2_do_endian_checkpt_obj_def yaffs_do_endian_u32_def)
  let ?bytes = "words_bytes (host_le w) (checkpt_obj_words (yaffs2_do_endian_checkpt_obj w cp))"
  have len: "length (words_of_bytes le k bs) = k" for le k bs by (induction k arbitrary: bs) simp_all
  have seven: "length (checkpt_obj_words cp) = 7" by (simp add: checkpt_obj_words_def)
  have "yaffs2_do_endian_checkpt_obj r (checkpt_obj_of_words (words_of_bytes (host_le r) 7 ?bytes)) =
      checkpt_obj_of_words (checkpt_obj_words cp)"
    using words_read_back [OF assms(1), of "checkpt_obj_words cp"] by (simp add: read len endian seven)
  then have cp': "yaffs2_do_endian_checkpt_obj r (checkpt_obj_of_words (words_of_bytes (host_le r) 7 ?bytes)) = cp"
    by (simp add: checkpt_obj_words_def checkpt_obj_of_words_def eval_nat_numeral)
  have int: "sint (word_of_int x :: u32) = x" if "- (2 ^ 31) \<le> x \<and> x < 2 ^ 31" for x
    using that by (simp add: signed_take_bit_int_eq_self sint_sbintrunc')
  have ser: "ucast (ucast s :: u32) = s" for s :: u8
    by (rule bit_word_eqI) (auto simp: bit_ucast_iff)
  note f = obj_checkpt_obj_fields [OF refl assms(2), of junk_cp parent_id]
  show ?thesis
    unfolding Let_def cp_def [symmetric] cp'
    using f int [OF assms(3)] int [OF assms(4)] by (simp add: cp_def checkpt_obj_fields_def Let_def ser)
qed


section \<open>Witnesses\<close>

text \<open>A device whose checkpoint is being written, and one of the other byte order.\<close>

definition writing_dev :: "unit yaffs_dev" where
  "writing_dev = summary_dev\<lparr>tnode_size := 32, swap_endian := True,
     ck := zero_checkpt\<lparr>checkpt_buffer := Some (chunk_hdr_bytes (\<not> host_le summary_dev)
         \<lparr>ch_version = YAFFS_CHECKPOINT_VERSION, ch_seq = 0, ch_sum = 0, ch_xor = 0\<rparr> @ replicate 48 0),
       checkpt_open_write := True, checkpt_byte_offs := 16, checkpt_cur_block := -1, checkpt_next_block := 1\<rparr>\<rparr>"

definition other_order_dev :: "unit yaffs_dev" where
  "other_order_dev = writing_dev\<lparr>host_le := \<not> host_le writing_dev, swap_endian := False\<rparr>"

lemma other_order: "stored_le other_order_dev = stored_le writing_dev"
  "host_le other_order_dev \<noteq> host_le writing_dev"
  by (simp_all add: stored_le_def other_order_dev_def writing_dev_def)

lemma writing_dev_ok: "stream_ok () [] writing_dev"
proof -
  have le: "stored_le writing_dev = (\<not> host_le summary_dev)" by (simp add: stored_le_def writing_dev_def)
  have at: "stream_at [] writing_dev"
    by (simp add: stream_at_def bytes_accounted_def sum_bytes_def xor_bytes_def zero_checkpt_def writing_dev_def)
  have "\<exists>buf. stream_pages () [] writing_dev buf []"
    unfolding stream_pages_def page_of_def le
    by (simp add: write_pages_def page_place_def sum_bytes_def xor_bytes_def)
      (simp add: zero_checkpt_def writing_dev_def summary_fields)
  then show ?thesis using at by (auto simp: stream_ok_def stream_has_def) (simp_all add: has_room_def writing_dev_def zero_checkpt_def)
qed

definition small_file_obj :: yaffs_obj where
  "small_file_obj = \<lparr>deleted = False, soft_del = True, unlinked = False, fake = False, rename_allowed = True,
     unlink_allowed = True, obj_dirty = False, obj_valid = True, lazy_loaded = False, defered_free = False,
     being_created = False, is_shadowed = False, xattr_known = False, has_xattr = False, serial = 17,
     name_sum = 0, hdr_chunk = 9, n_data_chunks = 3, obj_number = 300, yst_mode = 0, yst_uid = 0,
     yst_gid = 0, yst_atime = 0, yst_mtime = 0, yst_ctime = 0, yst_rdev = 0,
     variant_type = YAFFS_OBJECT_TYPE_FILE,
     file_variant = \<lparr>file_size = 100, stored_size = 100, shrink_size = 0, top_level = 0,
       top = Some (Level0 (0, 0) [1, 2, 3, 4, 5, 6, 7, 8])\<rparr>, equiv_id = 0\<rparr>"

lemma checkpt_tnodes_written_witness:
  "stream_ok () (words_bytes (stored_le writing_dev) [0, 1, 2, 3, 4, 5, 6, 7, 8, NOT 0])
     (snd (yaffs2_wr_checkpt_tnodes zero_tags small_file_obj writing_dev))"
proof -
  have t: "tnode_size writing_dev = 32" by (simp add: writing_dev_def)
  have "fst (yaffs2_wr_checkpt_tnodes zero_tags small_file_obj writing_dev)"
    by code_simp
  then obtain d where d: "yaffs2_wr_checkpt_tnodes zero_tags small_file_obj writing_dev = (True, d)"
    by (metis (full_types) prod.collapse)
  have "tnode_records 8 (nat (top_level (file_variant small_file_obj))) (top (file_variant small_file_obj)) 0 =
      [0, 1, 2, 3, 4, 5, 6, 7, 8]"
    by (simp add: small_file_obj_def)
  then show ?thesis
    using checkpt_tnodes_written [OF writing_dev_ok _ _ d] t d by (simp add: small_file_obj_def Let_def)
qed


lemma writing_dev_fields: "n_erased_blocks writing_dev = 4" "alloc_block writing_dev = -1" "alloc_page writing_dev = 0"
  "n_free_chunks writing_dev = 16" "n_deleted_files writing_dev = 0" "n_unlinked_files writing_dev = 0"
  "n_bg_deletions writing_dev = 0" "dev_seq_number writing_dev = 0x1000"
  by (simp_all add: writing_dev_def summary_fields)

lemma checkpt_dev_portable_witness:
  "let bytes = words_bytes (host_le writing_dev)
         (checkpt_dev_words (yaffs2_do_endian_checkpt_dev writing_dev (yaffs2_dev_to_checkpt_dev writing_dev)));
       d = yaffs_checkpt_dev_to_dev other_order_dev (yaffs2_do_endian_checkpt_dev other_order_dev
         (checkpt_dev_of_words (words_of_bytes (host_le other_order_dev) 9 bytes)))
   in n_erased_blocks d = 4 \<and> alloc_block d = -1 \<and> dev_seq_number d = swap_u32 0x1000"
proof -
  have "\<forall>x \<in> {n_erased_blocks writing_dev, alloc_block writing_dev, n_free_chunks writing_dev,
      n_deleted_files writing_dev, n_unlinked_files writing_dev, n_bg_deletions writing_dev}.
      - (2 ^ 31) \<le> x \<and> x < 2 ^ 31"
    by (simp add: writing_dev_fields)
  from checkpt_dev_portable [OF other_order(1) this] show ?thesis
    unfolding Let_def using other_order(2) by (simp add: writing_dev_fields)
qed

lemma checkpt_obj_portable_witness:
  "let cp = (yaffs2_obj_checkpt_obj (checkpt_obj_of_words (replicate 7 0xdeadbeef)) 1 small_file_obj)\<lparr>co_struct_type := 28\<rparr>;
       bytes = words_bytes (host_le writing_dev) (checkpt_obj_words (yaffs2_do_endian_checkpt_obj writing_dev cp));
       cp' = yaffs2_do_endian_checkpt_obj other_order_dev (checkpt_obj_of_words (words_of_bytes (host_le other_order_dev) 7 bytes));
       o' = checkpt_obj_fields small_file_obj cp'
   in co_obj_id cp' = 300 \<and> soft_del o' \<and> \<not> deleted o' \<and> serial o' = 17 \<and> hdr_chunk o' = 9 \<and>
     file_size (file_variant o') = 100"
proof -
  have "variant_type small_file_obj < 8" by (simp add: small_file_obj_def)
  from checkpt_obj_portable [OF other_order(1) this, of "checkpt_obj_of_words (replicate 7 0xdeadbeef)" 1 small_file_obj]
  show ?thesis unfolding Let_def by (simp add: small_file_obj_def)
qed

end
