(* ===== verification/Yaffs_Nameval.thy ===== *)
theory Yaffs_Nameval
  imports Yaffs_CheckptData Yaffs_FileProps
begin

text \<open>
  The store of extended attributes (\<open>yaffs_nameval.c\<close>): records of a size, a name with its NUL and
  a value, one after the other in the space behind an object header. Against the abstract contract,
  a finite map from names to values, reading, setting, deleting and listing are exact, with one
  exception that is stated as well: a record that fills the space to the last byte is accepted
  and cannot be found again.

  The memory \<open>xb\<close> is the buffer of \<open>xb_size\<close> bytes with what follows it, so that what \<open>strncpy\<close>
  writes behind the buffer is seen. A name is the list of its bytes without the NUL (\<open>YCHAR\<close> is
  \<open>char\<close>). The \<open>memcpy\<close> of \<open>nval_del\<close> moves bytes down over an overlap; it is read as the move that is
  meant.
\<close>

unbundle bit_operations_syntax

abbreviation ENODATA :: int where "ENODATA \<equiv> 78"
abbreviation ENOSPC :: int where "ENOSPC \<equiv> 28"
abbreviation ERANGE :: int where "ERANGE \<equiv> 38"
abbreviation EEXIST :: int where "EEXIST \<equiv> 17"
abbreviation XATTR_CREATE :: int where "XATTR_CREATE \<equiv> 1"
abbreviation XATTR_REPLACE :: int where "XATTR_REPLACE \<equiv> 2"

section \<open>The operations\<close>

text \<open>\<open>s32\<close> values are kept as their 32 bits; \<open>sint\<close> reads them.\<close>

definition yaffs_do_endian_s32 :: "('n, 'x) yaffs_dev_scheme \<Rightarrow> u32 \<Rightarrow> u32" where
  "yaffs_do_endian_s32 dev val = (if \<not> swap_endian dev then val else swap_u32 val)"

definition read_size :: "('n, 'x) yaffs_dev_scheme \<Rightarrow> u8 list \<Rightarrow> nat \<Rightarrow> int" where
  "read_size dev xb pos = sint (yaffs_do_endian_s32 dev (bytes_u32 (host_le dev) (take 4 (drop pos xb))))"

text \<open>\<open>memcpy\<close> into the memory.\<close>

definition put_bytes :: "u8 list \<Rightarrow> nat \<Rightarrow> u8 list \<Rightarrow> u8 list" where
  "put_bytes xb pos bs = take pos xb @ bs @ drop (pos + length bs) xb"

text \<open>\<open>strncmp\<close> answering 0; a C string ends where its list does.\<close>

definition c_char :: "u8 list \<Rightarrow> u8" where
  "c_char s = (case s of [] \<Rightarrow> 0 | c # _ \<Rightarrow> c)"

fun strncmp_eq :: "nat \<Rightarrow> u8 list \<Rightarrow> u8 list \<Rightarrow> bool" where
  "strncmp_eq 0 a b = True"
| "strncmp_eq (Suc n) a b = (c_char a = c_char b \<and> (c_char a = 0 \<or> strncmp_eq n (tl a) (tl b)))"

definition c_strnlen :: "u8 list \<Rightarrow> nat \<Rightarrow> nat" where
  "c_strnlen s n = length (takeWhile (\<lambda>c. c \<noteq> 0) (take n s))"

text \<open>The size of the next record, where there is room for one.\<close>

definition next_size :: "('n, 'x) yaffs_dev_scheme \<Rightarrow> u8 list \<Rightarrow> nat \<Rightarrow> nat \<Rightarrow> int" where
  "next_size dev xb xb_size pos = (if int pos < int xb_size - 4 then read_size dev xb pos else 0)"

function nval_find_loop ::
  "('n, 'x) yaffs_dev_scheme \<Rightarrow> u8 list \<Rightarrow> nat \<Rightarrow> u8 list \<Rightarrow> nat \<Rightarrow> int \<Rightarrow> int \<times> int" where
  "nval_find_loop dev xb xb_size name pos sz =
     (if 0 < sz \<and> sz < int xb_size \<and> int pos + sz < int xb_size then
        if strncmp_eq (nat sz) (drop (pos + 4) xb) name then (int pos, sz)
        else (let pos = pos + nat sz
              in nval_find_loop dev xb xb_size name pos (next_size dev xb xb_size pos))
      else (- ENODATA, 0))"
  by pat_completeness auto
termination by (relation "measure (\<lambda>(_, _, n, _, pos, _). n - pos)") auto

declare nval_find_loop.simps [simp del]

text \<open>The position and \<open>*exist_size\<close>.\<close>

definition nval_find :: "('n, 'x) yaffs_dev_scheme \<Rightarrow> u8 list \<Rightarrow> nat \<Rightarrow> u8 list \<Rightarrow> int \<times> int" where
  "nval_find dev xb xb_size name = nval_find_loop dev xb xb_size name 0 (read_size dev xb 0)"

function nval_used_loop :: "('n, 'x) yaffs_dev_scheme \<Rightarrow> u8 list \<Rightarrow> nat \<Rightarrow> nat \<Rightarrow> int \<Rightarrow> nat" where
  "nval_used_loop dev xb xb_size pos sz =
     (if 0 < sz \<and> sz < int xb_size \<and> int pos + sz < int xb_size then
        (let pos = pos + nat sz in nval_used_loop dev xb xb_size pos (next_size dev xb xb_size pos))
      else pos)"
  by pat_completeness auto
termination by (relation "measure (\<lambda>(_, _, n, pos, _). n - pos)") auto

declare nval_used_loop.simps [simp del]

definition nval_used :: "('n, 'x) yaffs_dev_scheme \<Rightarrow> u8 list \<Rightarrow> nat \<Rightarrow> nat" where
  "nval_used dev xb xb_size = nval_used_loop dev xb xb_size 0 (read_size dev xb 0)"

definition nval_del :: "('n, 'x) yaffs_dev_scheme \<Rightarrow> u8 list \<Rightarrow> nat \<Rightarrow> u8 list \<Rightarrow> int \<times> u8 list" where
  "nval_del dev xb xb_size name =
     (let (pos, _) = nval_find dev xb xb_size name
      in if pos < 0 \<or> pos \<ge> int xb_size then (- ENODATA, xb)
         else
          (let pos = nat pos;
               sz = nat (read_size dev xb pos);
               xb = put_bytes xb pos (take (xb_size - (pos + sz)) (drop (pos + sz) xb))
           in (0, put_bytes xb (xb_size - sz) (replicate sz 0))))"

text \<open>\<open>strncpy\<close> fills up with NULs to the length it is given.\<close>

definition c_strncpy :: "u8 list \<Rightarrow> nat \<Rightarrow> u8 list" where
  "c_strncpy s n = take n (takeWhile (\<lambda>c. c \<noteq> 0) s @ replicate n 0)"

definition nval_set ::
  "('n, 'x) yaffs_dev_scheme \<Rightarrow> u8 list \<Rightarrow> nat \<Rightarrow> u8 list \<Rightarrow> u8 list \<Rightarrow> int \<Rightarrow> int \<times> u8 list" where
  "nval_set dev xb xb_size name buf flags =
     (let namelen = c_strnlen name xb_size;
          (pos, size_exist) = nval_find dev xb xb_size name
      in if flags AND XATTR_CREATE \<noteq> 0 \<and> pos \<ge> 0 then (- EEXIST, xb)
         else if flags AND XATTR_REPLACE \<noteq> 0 \<and> pos < 0 then (- ENODATA, xb)
         else
          (let start = nval_used dev xb xb_size;
               space = int xb_size - int start + size_exist;
               reclen = word_of_nat (4 + namelen + 1 + length buf) :: u32
           in if sint reclen > space then (- ENOSPC, xb)
              else
               (let (start, xb) = (if pos \<ge> 0 then
                       (let xb = snd (nval_del dev xb xb_size name) in (nval_used dev xb xb_size, xb))
                     else (start, xb));
                    xb = put_bytes xb start (u32_bytes (host_le dev) (yaffs_do_endian_s32 dev reclen));
                    xb = put_bytes xb (start + 4) (c_strncpy name (nat (sint reclen)))
                in (0, put_bytes xb (start + 4 + namelen + 1) buf))))"

text \<open>Advancing over the name.\<close>

fun nval_skip_name :: "u8 list \<Rightarrow> nat \<Rightarrow> nat \<Rightarrow> nat \<Rightarrow> nat \<times> nat" where
  "nval_skip_name xb xb_size pos 0 = (pos, 0)"
| "nval_skip_name xb xb_size pos (Suc sz) =
     (if xb ! pos \<noteq> 0 \<and> pos < xb_size then nval_skip_name xb xb_size (pos + 1) sz else (pos, Suc sz))"

text \<open>The result and the bytes copied to the caller's buffer of \<open>bsize\<close> bytes. The size left
  behind the record length is not negative in any record the code writes.\<close>

definition nval_get :: "('n, 'x) yaffs_dev_scheme \<Rightarrow> u8 list \<Rightarrow> nat \<Rightarrow> u8 list \<Rightarrow> int \<Rightarrow> int \<times> u8 list" where
  "nval_get dev xb xb_size name bsize =
     (let (pos, _) = nval_find dev xb xb_size name
      in if pos \<ge> 0 \<and> pos < int xb_size then
           (let (p, s) = nval_skip_name xb xb_size (nat pos + 4) (nat (read_size dev xb (nat pos) - 4));
                p = p + 1;
                sz = int s - 1
            in if bsize = 0 then (sz, [])
               else if sz \<le> bsize then (sz, take (nat sz) (drop p xb))
               else (- ERANGE, []))
         else if pos \<ge> 0 then (- ERANGE, [])
         else (- ENODATA, []))"

text \<open>The names, each with its NUL, as far as they fit.\<close>

function nval_list_loop ::
  "('n, 'x) yaffs_dev_scheme \<Rightarrow> u8 list \<Rightarrow> nat \<Rightarrow> int \<Rightarrow> nat \<Rightarrow> int \<Rightarrow> u8 list \<Rightarrow> bool \<Rightarrow> u8 list" where
  "nval_list_loop dev xb xb_size bsize pos sz copied filled =
     (if 4 < sz \<and> sz \<le> int xb_size \<and> int pos + sz < int xb_size \<and> \<not> filled then
        (let name_len = c_strnlen (drop (pos + 4) xb) (nat (sz - 4));
             fits = int (length copied) + int name_len + 1 < bsize;
             copied = (if fits then copied @ take name_len (drop (pos + 4) xb) @ [0] else copied);
             pos = pos + nat sz
         in nval_list_loop dev xb xb_size bsize pos (next_size dev xb xb_size pos) copied (\<not> fits))
      else copied)"
  by pat_completeness auto
termination by (relation "measure (\<lambda>(_, _, n, _, pos, _). n - pos)") auto

declare nval_list_loop.simps [simp del]

definition nval_list :: "('n, 'x) yaffs_dev_scheme \<Rightarrow> u8 list \<Rightarrow> nat \<Rightarrow> int \<Rightarrow> int \<times> u8 list" where
  "nval_list dev xb xb_size bsize =
     (let copied = nval_list_loop dev xb xb_size bsize 0 (read_size dev xb 0) [] False
      in (int (length copied), copied))"

definition nval_hasvalues :: "('n, 'x) yaffs_dev_scheme \<Rightarrow> u8 list \<Rightarrow> nat \<Rightarrow> bool" where
  "nval_hasvalues dev xb xb_size = (0 < nval_used dev xb xb_size)"

section \<open>The records of a store\<close>

definition rec_len :: "u8 list \<times> u8 list \<Rightarrow> nat" where
  "rec_len r = 5 + length (fst r) + length (snd r)"

definition rec_bytes :: "bool \<Rightarrow> u8 list \<times> u8 list \<Rightarrow> u8 list" where
  "rec_bytes le r = u32_bytes le (word_of_nat (rec_len r)) @ fst r @ [0] @ snd r"

definition recs_bytes :: "bool \<Rightarrow> (u8 list \<times> u8 list) list \<Rightarrow> u8 list" where
  "recs_bytes le rs = concat (map (rec_bytes le) rs)"

definition recs_len :: "(u8 list \<times> u8 list) list \<Rightarrow> nat" where
  "recs_len rs = sum_list (map rec_len rs)"

definition name_ok :: "u8 list \<Rightarrow> bool" where
  "name_ok name \<longleftrightarrow> 0 \<notin> set name"

text \<open>The buffer starts with these records, \<open>tail\<close> follows them up to its end.\<close>

definition store_has ::
  "('n, 'x) yaffs_dev_scheme \<Rightarrow> u8 list \<Rightarrow> nat \<Rightarrow> (u8 list \<times> u8 list) list \<Rightarrow> u8 list \<Rightarrow> bool" where
  "store_has dev xb xb_size rs tail \<longleftrightarrow> 4 \<le> xb_size \<and> xb_size < 2 ^ 31 \<and> xb_size + 4 \<le> length xb \<and>
     recs_len rs < xb_size \<and> take xb_size xb = recs_bytes (stored_le dev) rs @ tail \<and>
     distinct (map fst rs) \<and> (\<forall>r \<in> set rs. name_ok (fst r))"

text \<open>A store: nothing but zeros behind the records.\<close>

definition store_ok :: "('n, 'x) yaffs_dev_scheme \<Rightarrow> u8 list \<Rightarrow> nat \<Rightarrow> (u8 list \<times> u8 list) list \<Rightarrow> bool" where
  "store_ok dev xb xb_size rs \<longleftrightarrow> store_has dev xb xb_size rs (replicate (xb_size - recs_len rs) 0)"

lemma length_rec_bytes [simp]: "length (rec_bytes le r) = rec_len r"
  by (simp add: rec_bytes_def rec_len_def)

lemma recs_simps [simp]:
  "recs_bytes le [] = []" "recs_bytes le (r # rs) = rec_bytes le r @ recs_bytes le rs"
  "recs_bytes le (rs @ rs') = recs_bytes le rs @ recs_bytes le rs'"
  "recs_len [] = 0" "recs_len (r # rs) = rec_len r + recs_len rs" "recs_len (rs @ rs') = recs_len rs + recs_len rs'"
  by (simp_all add: recs_bytes_def recs_len_def)

lemma length_recs_bytes [simp]: "length (recs_bytes le rs) = recs_len rs"
  by (induction rs) simp_all

lemma stored_word: "yaffs_do_endian_s32 dev (bytes_u32 (host_le dev) (u32_bytes (stored_le dev) w)) = w"
  using u32_bytes_swap [of "host_le dev" w]
  by (cases "swap_endian dev") (simp_all add: yaffs_do_endian_s32_def stored_le_def flip: u32_bytes_swap)

lemma word_stored: "u32_bytes (host_le dev) (yaffs_do_endian_s32 dev w) = u32_bytes (stored_le dev) w"
  by (simp add: yaffs_do_endian_s32_def stored_le_def u32_bytes_swap)

lemma sint_nat: "m < 2 ^ 31 \<Longrightarrow> sint (word_of_nat m :: u32) = int m"
  using sint_small [of "word_of_nat m"] by (simp add: unat_of_nat take_bit_nat_eq_self_iff)

text \<open>What is found at the end of the first records.\<close>

lemma store_drop:
  assumes "store_has dev xb n (pre @ post) tail"
  shows "take (n - recs_len pre) (drop (recs_len pre) xb) = recs_bytes (stored_le dev) post @ tail"
proof -
  have "take (n - recs_len pre) (drop (recs_len pre) xb) = drop (recs_len pre) (take n xb)"
    by (simp add: drop_take)
  then show ?thesis using assms by (simp add: store_has_def)
qed

lemma length_tail:
  assumes "store_has dev xb n rs tail" shows "length tail = n - recs_len rs"
proof -
  have e: "take n xb = recs_bytes (stored_le dev) rs @ tail" and l: "n + 4 \<le> length xb"
    using assms by (simp_all add: store_has_def)
  have "length (take n xb) = n" using l by simp
  then show ?thesis unfolding e by simp
qed

lemma read_size_at:
  assumes "store_has dev xb n (pre @ post) tail" "recs_bytes (stored_le dev) post @ tail = u32_bytes (stored_le dev) (word_of_nat m) @ rest"
    and "m < 2 ^ 31"
  shows "read_size dev xb (recs_len pre) = int m"
proof -
  have "4 \<le> length (recs_bytes (stored_le dev) post @ tail)" unfolding assms(2) by simp
  then have "4 \<le> n - recs_len pre" using length_tail [OF assms(1)] assms(1) by (auto simp: store_has_def)
  then have "take 4 (drop (recs_len pre) xb) = take 4 (take (n - recs_len pre) (drop (recs_len pre) xb))"
    by (simp add: min_def)
  also have "\<dots> = u32_bytes (stored_le dev) (word_of_nat m)" unfolding store_drop [OF assms(1)] assms(2) by simp
  finally show ?thesis by (simp add: read_size_def stored_word sint_nat [OF assms(3)])
qed

lemma record_bounds:
  assumes "store_has dev xb n (pre @ r # post) tail"
  shows "rec_len r < 2 ^ 31" "recs_len pre + rec_len r < n" "5 \<le> rec_len r"
  using assms by (simp_all add: store_has_def) (simp add: rec_len_def)

lemma read_record:
  assumes "store_has dev xb n (pre @ r # post) tail"
  shows "read_size dev xb (recs_len pre) = int (rec_len r)" "next_size dev xb n (recs_len pre) = int (rec_len r)"
proof -
  show 1: "read_size dev xb (recs_len pre) = int (rec_len r)"
    by (rule read_size_at [OF assms _ record_bounds(1) [OF assms]]) (simp add: rec_bytes_def)
  show "next_size dev xb n (recs_len pre) = int (rec_len r)"
    using 1 record_bounds [OF assms] by (simp add: next_size_def)
qed

lemma u32_bytes_0: "u32_bytes le 0 = replicate 4 0"
  by (simp add: u32_bytes_def Let_def numeral_eq_Suc)

lemma read_end:
  assumes "store_ok dev xb n rs"
  shows "next_size dev xb n (recs_len rs) = 0" "rs = [] \<Longrightarrow> read_size dev xb 0 = 0"
proof -
  have h: "store_has dev xb n (rs @ []) (replicate (n - recs_len rs) 0)" using assms by (simp add: store_ok_def)
  have r: "read_size dev xb (recs_len rs) = 0" if "recs_len rs + 4 \<le> n"
  proof -
    have "replicate (n - recs_len rs) 0 = u32_bytes (stored_le dev) (word_of_nat 0) @ replicate (n - recs_len rs - 4) 0"
      using that by (simp add: u32_bytes_0 flip: replicate_add)
    then show ?thesis using read_size_at [OF h, of 0] by simp
  qed
  then show "next_size dev xb n (recs_len rs) = 0" by (auto simp: next_size_def)
  show "rs = [] \<Longrightarrow> read_size dev xb 0 = 0" using r assms by (simp add: store_ok_def store_has_def)
qed

section \<open>Finding a record\<close>

lemma strncmp_name:
  "name_ok a \<Longrightarrow> name_ok b \<Longrightarrow> length a < k \<Longrightarrow> strncmp_eq k (a @ 0 # rest) b = (a = b)"
proof (induction a arbitrary: b k)
  case Nil
  then obtain k' where "k = Suc k'" by (cases k) auto
  then show ?case using Nil.prems by (cases b) (auto simp: c_char_def name_ok_def)
next
  case (Cons x a)
  obtain k' where k: "k = Suc k'" using Cons.prems by (cases k) auto
  show ?case
    using Cons.IH [of "tl b" k'] Cons.prems by (cases b) (auto simp: k c_char_def name_ok_def)
qed

lemma strncmp_record:
  assumes h: "store_has dev xb n (pre @ r # post) tail" and "name_ok name"
  shows "strncmp_eq (rec_len r) (drop (recs_len pre + 4) xb) name = (fst r = name)"
proof -
  obtain behind where "drop (recs_len pre) xb = take (n - recs_len pre) (drop (recs_len pre) xb) @ behind"
    by (metis append_take_drop_id)
  then have "drop (recs_len pre) xb = u32_bytes (stored_le dev) (word_of_nat (rec_len r)) @ fst r @ 0 # snd r @
      recs_bytes (stored_le dev) post @ tail @ behind"
    unfolding store_drop [OF h] by (simp add: rec_bytes_def)
  from arg_cong [OF this, of "drop 4"]
  have "drop (recs_len pre + 4) xb = fst r @ 0 # snd r @ recs_bytes (stored_le dev) post @ tail @ behind"
    by (simp add: add.commute)
  moreover have "name_ok (fst r)" using h by (simp add: store_has_def)
  ultimately show ?thesis using strncmp_name assms(2) by (simp add: rec_len_def)
qed

lemma find_skip:
  assumes "store_has dev xb n (pre @ mid @ post) tail" "name_ok name" "name \<notin> fst ` set mid"
  shows "nval_find_loop dev xb n name (recs_len pre) (next_size dev xb n (recs_len pre)) =
    nval_find_loop dev xb n name (recs_len (pre @ mid)) (next_size dev xb n (recs_len (pre @ mid)))"
  using assms
proof (induction mid arbitrary: pre)
  case (Cons r mid)
  have h: "store_has dev xb n (pre @ r # mid @ post) tail" using Cons.prems(1) by simp
  note b = record_bounds [OF h]
  have "nval_find_loop dev xb n name (recs_len pre) (int (rec_len r)) =
      nval_find_loop dev xb n name (recs_len pre + rec_len r) (next_size dev xb n (recs_len pre + rec_len r))"
    using b strncmp_record [OF h Cons.prems(2)] Cons.prems(3)
    by (subst nval_find_loop.simps) (auto simp: Let_def)
  then show ?case
    using Cons.IH [of "pre @ [r]"] Cons.prems read_record(2) [OF h] by (simp add: add.assoc)
qed simp

lemma find_start:
  assumes "store_has dev xb n rs tail" "rs \<noteq> []"
  shows "nval_find dev xb n name = nval_find_loop dev xb n name 0 (next_size dev xb n 0)"
proof -
  obtain r rs' where "rs = r # rs'" using assms(2) by (cases rs) auto
  then have "store_has dev xb n ([] @ r # rs') tail" using assms(1) by simp
  from read_record [OF this] show ?thesis by (simp add: nval_find_def)
qed

lemma find_present:
  assumes h: "store_has dev xb n (pre @ (name, v) # post) tail"
  shows "nval_find dev xb n name = (int (recs_len pre), int (rec_len (name, v)))"
proof -
  have nm: "name_ok name" "name \<notin> fst ` set pre" using h by (auto simp: store_has_def)
  note b = record_bounds [OF h]
  have "nval_find_loop dev xb n name 0 (next_size dev xb n 0) =
      nval_find_loop dev xb n name (recs_len pre) (next_size dev xb n (recs_len pre))"
    using find_skip [of dev xb n "[]" pre "(name, v) # post" tail name] h nm by simp
  also have "\<dots> = (int (recs_len pre), int (rec_len (name, v)))"
    using read_record(2) [OF h] b strncmp_record [OF h nm(1)]
    by (subst nval_find_loop.simps) simp
  finally show ?thesis using find_start [OF h] by simp
qed

lemma find_absent:
  assumes h: "store_ok dev xb n rs" and nm: "name_ok name" "name \<notin> fst ` set rs"
  shows "nval_find dev xb n name = (- ENODATA, 0)"
proof (cases "rs = []")
  case True
  then show ?thesis using read_end(2) [OF h] by (simp add: nval_find_def nval_find_loop.simps)
next
  case False
  have h': "store_has dev xb n ([] @ rs @ []) (replicate (n - recs_len rs) 0)" using h by (simp add: store_ok_def)
  show ?thesis
    using find_start [OF h'] find_skip [OF h' nm] False read_end(1) [OF h] by (simp add: nval_find_loop.simps)
qed

lemma used_skip:
  assumes "store_has dev xb n (pre @ mid) tail"
  shows "nval_used_loop dev xb n (recs_len pre) (next_size dev xb n (recs_len pre)) =
    nval_used_loop dev xb n (recs_len (pre @ mid)) (next_size dev xb n (recs_len (pre @ mid)))"
  using assms
proof (induction mid arbitrary: pre)
  case (Cons r mid)
  note b = record_bounds [OF Cons.prems]
  have "nval_used_loop dev xb n (recs_len pre) (int (rec_len r)) =
      nval_used_loop dev xb n (recs_len pre + rec_len r) (next_size dev xb n (recs_len pre + rec_len r))"
    using b by (subst nval_used_loop.simps) (simp add: Let_def)
  then show ?case
    using Cons.IH [of "pre @ [r]"] Cons.prems read_record(2) [OF Cons.prems] by (simp add: add.assoc)
qed simp

lemma used_eq:
  assumes h: "store_ok dev xb n rs" shows "nval_used dev xb n = recs_len rs"
proof (cases rs)
  case Nil
  then show ?thesis using read_end(2) [OF h] by (simp add: nval_used_def nval_used_loop.simps)
next
  case (Cons r rs')
  have h': "store_has dev xb n ([] @ rs) (replicate (n - recs_len rs) 0)" using h by (simp add: store_ok_def)
  then have "read_size dev xb 0 = next_size dev xb n 0"
    using read_record [of dev xb n "[]" r rs'] Cons by simp
  then show ?thesis
    using used_skip [OF h'] read_end(1) [OF h] by (simp add: nval_used_def nval_used_loop.simps)
qed

section \<open>Reading, deleting and adding a record\<close>

lemma take_recs:
  assumes "store_has dev xb n (pre @ post) tail" shows "take (recs_len pre) xb = recs_bytes (stored_le dev) pre"
proof -
  have t: "take n xb = recs_bytes (stored_le dev) pre @ recs_bytes (stored_le dev) post @ tail" and "recs_len pre \<le> n"
    using assms by (simp_all add: store_has_def)
  have "take (recs_len pre) (take n xb) = take (recs_len pre) xb" using \<open>recs_len pre \<le> n\<close> by (simp add: min_def)
  then show ?thesis unfolding t by simp
qed

lemma drop_record:
  assumes h: "store_has dev xb n (pre @ (name, v) # post) tail"
  obtains rest where "drop (recs_len pre + 4) xb = name @ 0 # v @ rest"
proof -
  obtain behind where "drop (recs_len pre) xb = take (n - recs_len pre) (drop (recs_len pre) xb) @ behind"
    by (metis append_take_drop_id)
  then have "drop (recs_len pre) xb = u32_bytes (stored_le dev) (word_of_nat (rec_len (name, v))) @ name @ 0 # v @
      recs_bytes (stored_le dev) post @ tail @ behind"
    unfolding store_drop [OF h] by (simp add: rec_bytes_def)
  from arg_cong [OF this, of "drop 4"]
  have "drop (recs_len pre + 4) xb = name @ 0 # v @ recs_bytes (stored_le dev) post @ tail @ behind"
    by (simp add: add.commute)
  then show thesis by (rule that)
qed

lemma skip_name:
  "drop p xb = name @ 0 # rest \<Longrightarrow> name_ok name \<Longrightarrow> p + length name < n \<Longrightarrow>
     nval_skip_name xb n p (length name + Suc k) = (p + length name, Suc k)"
proof (induction name arbitrary: p)
  case Nil
  then have "xb ! p = 0" by (metis append_Nil hd_drop_conv_nth list.sel(1) drop_eq_Nil2 list.distinct(1) not_le)
  then show ?case by simp
next
  case (Cons x name)
  then have x: "xb ! p = x" "x \<noteq> 0" by (metis append_Cons hd_drop_conv_nth list.sel(1) drop_eq_Nil2 list.distinct(1) not_le)
      (use Cons.prems(2) in \<open>auto simp: name_ok_def\<close>)
  have "drop (p + 1) xb = name @ 0 # rest"
    using Cons.prems(1) by (metis append_Cons drop_Suc Suc_eq_plus1 list.sel(3) tl_drop)
  then show ?case using Cons.IH [of "p + 1"] Cons.prems x by (simp add: name_ok_def)
qed

lemma get_present:
  assumes h: "store_has dev xb n (pre @ (name, v) # post) tail"
  shows "nval_get dev xb n name bsize = (if bsize = 0 then (int (length v), [])
    else if int (length v) \<le> bsize then (int (length v), v) else (- ERANGE, []))"
proof -
  obtain rest where r: "drop (recs_len pre + 4) xb = name @ 0 # v @ rest" by (rule drop_record [OF h])
  note b = record_bounds [OF h]
  have nm: "name_ok name" using h by (simp add: store_has_def)
  have len: "nat (int (rec_len (name, v)) - 4) = length name + Suc (length v)" by (simp add: rec_len_def)
  have "recs_len pre + 4 + length name < n" using b(2) by (simp add: rec_len_def)
  note sk = skip_name [OF r nm this, of "length v"]
  have "drop (recs_len pre + 4 + length name + 1) xb = drop (length name + 1) (drop (recs_len pre + 4) xb)"
    by (simp add: add.commute add.left_commute)
  then have d: "drop (recs_len pre + 4 + length name + 1) xb = v @ rest" unfolding r by simp
  have pos: "int (recs_len pre) < int n" using b(2) by simp
  show ?thesis
    using sk d pos by (simp add: nval_get_def find_present [OF h] read_record(1) [OF h] len)
qed

lemma put_bytes_append: "length as = i \<Longrightarrow> put_bytes (as @ bs) i cs = as @ cs @ drop (length cs) bs"
  by (simp add: put_bytes_def)

lemma del_present:
  assumes h: "store_ok dev xb n (pre @ (name, v) # post)"
  shows "\<exists>xb'. nval_del dev xb n name = (0, xb') \<and> store_ok dev xb' n (pre @ post) \<and> drop n xb' = drop n xb"
proof -
  let ?r = "(name, v)" and ?p = "recs_len pre" and ?sz = "rec_len (name, v)" and ?L = "recs_bytes (stored_le dev)"
  let ?z = "n - recs_len (pre @ ?r # post)"
  have h': "store_has dev xb n (pre @ ?r # post) (replicate ?z 0)" using h by (simp only: store_ok_def)
  then have h2: "store_has dev xb n ((pre @ [?r]) @ post) (replicate ?z 0)" by simp
  note b = record_bounds [OF h'] and tp = take_recs [OF h']
  have n: "n \<le> length xb" "recs_len (pre @ ?r # post) < n" using h' by (simp_all add: store_has_def)
  have mv: "take (n - (?p + ?sz)) (drop (?p + ?sz) xb) = ?L post @ replicate ?z 0"
    using store_drop [OF h2] by simp
  let ?x1 = "put_bytes xb ?p (?L post @ replicate ?z 0)"
  have x1: "?x1 = (?L pre @ ?L post @ replicate ?z 0) @ drop (n - ?sz) xb"
    using n tp by (simp add: put_bytes_def)
  have len: "length (?L pre @ ?L post @ replicate ?z 0) = n - ?sz" using n by simp
  let ?x2 = "put_bytes ?x1 (n - ?sz) (replicate ?sz 0)"
  have x2: "?x2 = (?L pre @ ?L post @ replicate (?z + ?sz) 0) @ drop n xb"
    using put_bytes_append [OF len, of "drop (n - ?sz) xb" "replicate ?sz 0"] b
    unfolding x1 by (simp add: replicate_add)
  have res: "nval_del dev xb n name = (0, ?x2)"
    using b mv by (simp add: nval_del_def Let_def find_present [OF h'] read_record(1) [OF h'])
  have len2: "length (?L pre @ ?L post @ replicate (?z + ?sz) 0) = n" using n b by simp
  have "take n ?x2 = ?L (pre @ post) @ replicate (n - recs_len (pre @ post)) 0"
    unfolding x2 using len2 n by simp
  moreover have "drop n ?x2 = drop n xb" "length ?x2 = length xb"
    unfolding x2 using len2 n by simp_all
  ultimately have "store_ok dev ?x2 n (pre @ post)"
    using h' b by (auto simp: store_ok_def store_has_def)
  then show ?thesis using res \<open>drop n ?x2 = drop n xb\<close> by blast
qed

text \<open>The three copies that append a record, the last four bytes of \<open>strncpy\<close> falling behind it.\<close>

lemma takeWhile_name: "name_ok name \<Longrightarrow> takeWhile (\<lambda>c. c \<noteq> 0) name = name"
  by (auto simp: takeWhile_eq_all_conv name_ok_def)

lemma strnlen_name: "name_ok name \<Longrightarrow> length name \<le> n \<Longrightarrow> c_strnlen name n = length name"
  by (simp add: c_strnlen_def takeWhile_name)

lemma append_record:
  assumes "name_ok name" "start + rec_len (name, v) + 4 \<le> length xb" "W = u32_bytes le (word_of_nat (rec_len (name, v)))"
  shows "put_bytes (put_bytes (put_bytes xb start W) (start + 4) (c_strncpy name (rec_len (name, v)))) (start + 4 + length name + 1) v =
    take start xb @ rec_bytes le (name, v) @ replicate 4 0 @ drop (start + rec_len (name, v) + 4) xb"
proof -
  let ?k = "rec_len (name, v)"
  have cpy: "c_strncpy name ?k = name @ 0 # replicate (length v) 0 @ replicate 4 0"
    unfolding c_strncpy_def takeWhile_name [OF assms(1)] by (simp add: rec_len_def flip: replicate_add replicate_Suc)
  have 1: "put_bytes xb start W = take start xb @ W @ drop (start + 4) xb"
    using assms(3) by (simp add: put_bytes_def)
  have 2: "put_bytes (put_bytes xb start W) (start + 4) (c_strncpy name ?k) =
      take start xb @ W @ (name @ 0 # replicate (length v) 0 @ replicate 4 0) @ drop (start + ?k + 4) xb"
    using assms(2,3) unfolding 1 cpy by (simp add: put_bytes_def rec_len_def add.commute add.left_commute)
  show ?thesis
    using assms(2,3) unfolding 2 by (simp add: put_bytes_def rec_bytes_def)
qed

lemma set_absent:
  assumes h: "store_ok dev xb n rs" and nm: "name_ok name" "name \<notin> fst ` set rs"
    and fits: "recs_len rs + rec_len (name, v) \<le> n" and flags: "flags AND XATTR_REPLACE = 0"
  obtains xb' where "nval_set dev xb n name v flags = (0, xb')"
    "take n xb' = recs_bytes (stored_le dev) (rs @ [(name, v)]) @ replicate (n - recs_len rs - rec_len (name, v)) 0"
    "length xb' = length xb"
    "recs_len rs + rec_len (name, v) + 4 \<le> n \<Longrightarrow> drop n xb' = drop n xb"
proof -
  let ?k = "rec_len (name, v)" and ?s = "recs_len rs"
  let ?xb = "take ?s xb @ rec_bytes (stored_le dev) (name, v) @ replicate 4 0 @ drop (?s + ?k + 4) xb"
  have h': "store_has dev xb n (rs @ []) (replicate (n - ?s) 0)" using h by (simp add: store_ok_def)
  have n: "n + 4 \<le> length xb" "n < 2 ^ 31" using h' by (simp_all add: store_has_def)
  have "length name \<le> n" using fits by (simp add: rec_len_def)
  note sl = strnlen_name [OF nm(1) this]
  have k31: "?k < 2 ^ 31" using fits n by simp
  have re: "(4 + length name + 1 + length v) = ?k" by (simp add: rec_len_def)
  have set: "nval_set dev xb n name v flags = (0, ?xb)"
    using append_record [OF nm(1), of ?s v xb "u32_bytes (stored_le dev) (word_of_nat ?k)" "stored_le dev"] n fits flags
    unfolding nval_set_def Let_def find_absent [OF h nm] used_eq [OF h] sl re sint_nat [OF k31] word_stored
    by simp
  show thesis
  proof (rule that [OF set])
    have "take (n - ?s - ?k) (replicate 4 0 @ drop (?s + ?k + 4) xb) = replicate (n - ?s - ?k) 0"
    proof (cases "n - ?s - ?k \<le> 4")
      case False
      have "drop (?k + 4) (take (n - ?s) (drop ?s xb)) = drop (?k + 4) (replicate (n - ?s) 0)"
        using store_drop [OF h'] by simp
      then have "take (n - ?s - ?k - 4) (drop (?s + ?k + 4) xb) = replicate (n - ?s - ?k - 4) 0"
        by (simp add: drop_take ac_simps)
      then show ?thesis using False by (simp flip: replicate_add)
    qed simp
    then show "take n ?xb = recs_bytes (stored_le dev) (rs @ [(name, v)]) @ replicate (n - ?s - ?k) 0"
      using take_recs [OF h'] fits n by simp
    show "length ?xb = length xb" using fits n by simp
    show "drop n ?xb = drop n xb" if "?s + ?k + 4 \<le> n" using that n by simp
  qed
qed

text \<open>Setting a name that is there deletes its record and appends the new one.\<close>

lemma set_present:
  assumes h: "store_ok dev xb n (pre @ (name, old) # post)"
    and fits: "recs_len (pre @ post) + rec_len (name, v) \<le> n" and flags: "flags AND XATTR_CREATE = 0"
  shows "nval_set dev xb n name v flags = nval_set dev (snd (nval_del dev xb n name)) n name v 0"
proof -
  let ?r = "(name, old)"
  have h': "store_has dev xb n (pre @ ?r # post) (replicate (n - recs_len (pre @ ?r # post)) 0)"
    using h by (simp only: store_ok_def)
  obtain xb' where d: "nval_del dev xb n name = (0, xb')" "store_ok dev xb' n (pre @ post)"
    using del_present [OF h] by blast
  have nm: "name_ok name" "name \<notin> fst ` set (pre @ post)" using h' by (auto simp: store_has_def)
  have "length name \<le> n" using fits by (simp add: rec_len_def)
  note sl = strnlen_name [OF nm(1) this]
  have n: "n < 2 ^ 31" "recs_len (pre @ ?r # post) < n" using h' by (simp_all add: store_has_def)
  have k31: "rec_len (name, v) < 2 ^ 31" using fits n by simp
  have re: "(4 + length name + 1 + length v) = rec_len (name, v)" by (simp add: rec_len_def)
  show ?thesis
    unfolding nval_set_def Let_def find_present [OF h'] find_absent [OF d(2) nm] used_eq [OF h] used_eq [OF d(2)] sl re
      sint_nat [OF k31] d(1) snd_conv
    using fits flags n by (simp add: used_eq [OF d(2)])
qed

text \<open>Where the stored bytes are exactly the records and zeros, the store is well formed again.\<close>

lemma store_appended:
  assumes "store_ok dev xb n rs" "name_ok name" "name \<notin> fst ` set rs" "recs_len rs + rec_len (name, v) < n"
    and "take n xb' = recs_bytes (stored_le dev) (rs @ [(name, v)]) @ replicate (n - recs_len rs - rec_len (name, v)) 0"
    and "length xb' = length xb"
  shows "store_ok dev xb' n (rs @ [(name, v)])"
  using assms by (simp add: store_ok_def store_has_def)

lemma store_filled:
  assumes h: "store_ok dev xb n rs" and nm: "name_ok name" "name \<notin> fst ` set rs" and le: "recs_len rs + rec_len (name, v) \<le> n"
    and x: "take n xb' = recs_bytes (stored_le dev) (rs @ [(name, v)]) @ replicate (n - recs_len rs - rec_len (name, v)) 0"
      "length xb' = length xb"
  shows "take n xb' = recs_bytes (stored_le dev) (rs @ [(name, v)]) @ replicate (n - recs_len (rs @ [(name, v)])) 0 \<and>
    (store_ok dev xb' n (rs @ [(name, v)]) \<longleftrightarrow> rec_len (name, v) < n - recs_len rs)"
proof (intro conjI iffI)
  show "store_ok dev xb' n (rs @ [(name, v)])" if "rec_len (name, v) < n - recs_len rs"
    by (rule store_appended [OF h nm _ x]) (use that in simp)
  show "rec_len (name, v) < n - recs_len rs" if "store_ok dev xb' n (rs @ [(name, v)])"
    using that by (auto simp: store_ok_def store_has_def)
qed (use x(1) in simp)

lemma record_split:
  assumes "store_ok dev xb n rs" "name \<in> dom (map_of rs)"
  obtains pre v post where "rs = pre @ (name, v) # post" "map_of rs name = Some v" "name \<notin> dom (map_of pre)"
    "name \<notin> dom (map_of post)"
proof -
  obtain v where v: "map_of rs name = Some v" using assms(2) by blast
  then obtain pre post where rs: "rs = pre @ (name, v) # post" by (meson map_of_SomeD split_list)
  have "distinct (map fst rs)" using assms(1) by (simp add: store_ok_def store_has_def)
  then have "name \<notin> dom (map_of pre)" "name \<notin> dom (map_of post)"
    unfolding rs by (simp_all add: dom_map_of_conv_image_fst)
  then show thesis using that rs v by blast
qed

lemma map_of_without:
  "name \<notin> dom (map_of pre) \<Longrightarrow> name \<notin> dom (map_of post) \<Longrightarrow>
     map_of (pre @ post) = (map_of (pre @ (name, v) # post))(name := None)"
  by (rule ext) (auto simp: map_add_def domIff split: option.split)

section \<open>Properties\<close>

text \<open>The space a record may take: what the other records leave.\<close>

definition free_for :: "nat \<Rightarrow> (u8 list \<times> u8 list) list \<Rightarrow> u8 list \<Rightarrow> nat" where
  "free_for n rs name = n - recs_len (filter (\<lambda>r. fst r \<noteq> name) rs)"

abbreviation others_than :: "u8 list \<Rightarrow> (u8 list \<times> u8 list) list \<Rightarrow> (u8 list \<times> u8 list) list" where
  "others_than name rs \<equiv> filter (\<lambda>r. fst r \<noteq> name) rs"

lemma others_absent: "name \<notin> fst ` set rs \<Longrightarrow> others_than name rs = rs"
  by (induction rs) auto

lemma others_present:
  assumes "name \<notin> dom (map_of pre)" "name \<notin> dom (map_of post)"
  shows "others_than name (pre @ (name, v) # post) = pre @ post"
  using others_absent [of name pre] others_absent [of name post] assms by (simp add: dom_map_of_conv_image_fst)

lemma map_of_appended: "map_of (others_than name rs @ [(name, v)]) = (map_of rs)(name \<mapsto> v)"
  by (induction rs) (auto simp: fun_eq_iff map_add_def split: option.split)

lemma free_for_absent: "name \<notin> fst ` set rs \<Longrightarrow> free_for n rs name = n - recs_len rs"
  using others_absent [of name rs] by (simp add: free_for_def)

lemma free_for_present:
  assumes "name \<notin> dom (map_of pre)" "name \<notin> dom (map_of post)"
  shows "free_for n (pre @ (name, v) # post) name = n - recs_len (pre @ post)"
  using others_present [OF assms, of v] by (simp add: free_for_def)

lemma strnlen_min: "name_ok name \<Longrightarrow> c_strnlen name n = min (length name) n"
proof -
  assume "name_ok name"
  then have "name_ok (take n name)" by (auto simp: name_ok_def dest: in_set_takeD)
  then show ?thesis by (simp add: c_strnlen_def takeWhile_name)
qed

lemma set_refused:
  assumes "name_ok name" "n < 2 ^ 31" "length v + n + 5 < 2 ^ 31" "nval_find dev xb n name = (pos, ex)"
    and "int n - int (nval_used dev xb n) + ex = int space" "space \<le> n" "space < rec_len (name, v)"
    and "flags AND XATTR_CREATE = 0 \<or> pos < 0" "flags AND XATTR_REPLACE = 0 \<or> 0 \<le> pos"
  shows "nval_set dev xb n name v flags = (- ENOSPC, xb)"
proof -
  let ?k = "4 + min (length name) n + 1 + length v"
  have "?k < 2 ^ 31" using assms(3) by simp
  note k = sint_nat [OF this]
  have "space < ?k" using assms(6,7) by (simp add: rec_len_def min_def)
  then have "sint (word_of_nat ?k :: u32) > int n - int (nval_used dev xb n) + ex" unfolding k assms(5) by simp
  then show ?thesis
    using assms(8,9) unfolding nval_set_def Let_def assms(4) strnlen_min [OF assms(1)] prod.case by auto
qed

text \<open>C18: Setting an attribute is a map update. With the flags the code refuses to create what
  exists and to replace what does not; a record larger than the space the others leave is
  refused with the buffer unchanged. Otherwise the answer is 0 and the buffer holds, byte for byte, the
  other records in their order, the new record, and zeros up to the end: the layout of the updated map.
  It is a well-formed store again exactly when at least one byte is left over; a record that fills the
  space to the last byte is laid out like the others, but the search cannot see it (C39).\<close>

theorem nval_set_refines_map:
  assumes "store_ok dev xb n rs" and "name_ok name" and "length v + n + 5 < 2 ^ 31"
  shows "case nval_set dev xb n name v flags of (r, xb') \<Rightarrow>
    if flags AND XATTR_CREATE \<noteq> 0 \<and> name \<in> dom (map_of rs) then r = - EEXIST \<and> xb' = xb
    else if flags AND XATTR_REPLACE \<noteq> 0 \<and> name \<notin> dom (map_of rs) then r = - ENODATA \<and> xb' = xb
    else if free_for n rs name < rec_len (name, v) then r = - ENOSPC \<and> xb' = xb
    else r = 0 \<and> (let rs' = others_than name rs @ [(name, v)]
      in map_of rs' = (map_of rs)(name \<mapsto> v) \<and>
         take n xb' = recs_bytes (stored_le dev) rs' @ replicate (n - recs_len rs') 0 \<and>
         (store_ok dev xb' n rs' \<longleftrightarrow> rec_len (name, v) < free_for n rs name))"
proof (cases "name \<in> dom (map_of rs)")
  case False
  then have ab: "name \<notin> fst ` set rs" by (simp add: dom_map_of_conv_image_fst)
  have n: "n < 2 ^ 31" "recs_len rs < n" using assms(1) by (simp_all add: store_ok_def store_has_def)
  note find = find_absent [OF assms(1,2) ab] and free = free_for_absent [OF ab, of n]
  show ?thesis
  proof (cases "flags AND XATTR_REPLACE = 0")
    case no_replace: True
    show ?thesis
    proof (cases "free_for n rs name < rec_len (name, v)")
      case True
      have "nval_set dev xb n name v flags = (- ENOSPC, xb)"
        by (rule set_refused [OF assms(2) n(1) assms(3) find, where space = "n - recs_len rs"])
          (use True no_replace free n in \<open>simp_all add: used_eq [OF assms(1)]\<close>)
      then show ?thesis using True no_replace False by simp
    next
      case fits: False
      obtain xb' where x: "nval_set dev xb n name v flags = (0, xb')"
        "take n xb' = recs_bytes (stored_le dev) (rs @ [(name, v)]) @ replicate (n - recs_len rs - rec_len (name, v)) 0"
        "length xb' = length xb"
        by (rule set_absent [OF assms(1,2) ab _ no_replace, of v]) (use fits free n in simp)
      note sf = store_filled [OF assms(1,2) ab _ x(2,3)]
      show ?thesis
        using sf x(1) fits False no_replace free n others_absent [OF ab] map_of_appended [of name rs v]
        by (simp add: Let_def)
    qed
  next
    case replace: False
    then have "nval_set dev xb n name v flags = (- ENODATA, xb)" using find by (simp add: nval_set_def Let_def)
    then show ?thesis using replace False by simp
  qed
next
  case True
  obtain pre old post where s: "rs = pre @ (name, old) # post" "map_of rs name = Some old"
    "name \<notin> dom (map_of pre)" "name \<notin> dom (map_of post)"
    by (rule record_split [OF assms(1) True])
  note ok = assms(1) [unfolded s(1)]
  have n: "n < 2 ^ 31" "recs_len rs < n" using assms(1) by (simp_all add: store_ok_def store_has_def)
  note find = find_present [OF ok [unfolded store_ok_def]] and free = free_for_present [OF s(3,4), of n old]
  show ?thesis
  proof (cases "flags AND XATTR_CREATE = 0")
    case no_create: True
    show ?thesis
    proof (cases "free_for n rs name < rec_len (name, v)")
      case nospace: True
      have "nval_set dev xb n name v flags = (- ENOSPC, xb)"
        by (rule set_refused [OF assms(2) n(1) assms(3) find, where space = "n - recs_len (pre @ post)"])
          (use nospace no_create free n s(1) in \<open>simp_all add: used_eq [OF ok]\<close>)
      then show ?thesis using nospace no_create True by simp
    next
      case fits: False
      obtain xd where d: "nval_del dev xb n name = (0, xd)" "store_ok dev xd n (pre @ post)"
        using del_present [OF ok] by blast
      have ab: "name \<notin> fst ` set (pre @ post)" using s(3,4) by (auto simp: dom_map_of_conv_image_fst)
      have le: "recs_len (pre @ post) + rec_len (name, v) \<le> n" using fits free n s(1) by simp
      obtain xb' where x: "nval_set dev xd n name v 0 = (0, xb')"
        "take n xb' = recs_bytes (stored_le dev) ((pre @ post) @ [(name, v)]) @
          replicate (n - recs_len (pre @ post) - rec_len (name, v)) 0"
        "length xb' = length xd"
        by (rule set_absent [OF d(2) assms(2) ab le, of 0]) simp_all
      have set: "nval_set dev xb n name v flags = (0, xb')"
        using set_present [OF ok le no_create] x(1) d(1) by simp
      note sf = store_filled [OF d(2) assms(2) ab le x(2,3)]
      have ot: "others_than name rs = pre @ post" using others_present [OF s(3,4)] s(1) by simp
      have mo: "map_of ((pre @ post) @ [(name, v)]) = (map_of rs)(name \<mapsto> v)" using map_of_appended [of name rs v] unfolding ot .
      have fr: "free_for n rs name = n - recs_len (pre @ post)" using free s(1) by simp
      have "\<not> free_for n rs name < rec_len (name, v)" using fits by simp
      then show ?thesis
        unfolding set prod.case ot Let_def mo using sf True no_create unfolding fr by simp
    qed
  next
    case False
    then have "nval_set dev xb n name v flags = (- EEXIST, xb)" using find s(1) by (simp add: nval_set_def Let_def)
    then show ?thesis using True False by simp
  qed
qed

text \<open>C22: Reading and deleting agree with the map. A stored name reads its value - its length alone when
  no room is given, ERANGE when there is too little - any other name reads ENODATA; deleting a stored
  name leaves a well-formed store of the map without it, and the memory behind the buffer alone.\<close>

theorem nval_get_del_refine_map:
  assumes "store_ok dev xb n rs" and "name_ok name"
  shows "nval_get dev xb n name bsize = (case map_of rs name of None \<Rightarrow> (- ENODATA, [])
      | Some v \<Rightarrow> if bsize = 0 then (int (length v), [])
                  else if int (length v) \<le> bsize then (int (length v), v) else (- ERANGE, [])) \<and>
    (\<exists>xb' rs'. nval_del dev xb n name = (if name \<in> dom (map_of rs) then 0 else - ENODATA, xb') \<and>
      store_ok dev xb' n rs' \<and> map_of rs' = (map_of rs)(name := None) \<and> drop n xb' = drop n xb)"
proof (intro conjI)
  have ab: "name \<notin> fst ` set rs" if "name \<notin> dom (map_of rs)" using that by (simp add: dom_map_of_conv_image_fst)
  show "nval_get dev xb n name bsize = (case map_of rs name of None \<Rightarrow> (- ENODATA, [])
      | Some v \<Rightarrow> if bsize = 0 then (int (length v), [])
                  else if int (length v) \<le> bsize then (int (length v), v) else (- ERANGE, []))"
  proof (cases "name \<in> dom (map_of rs)")
    case True
    then obtain pre v post where s: "rs = pre @ (name, v) # post" "map_of rs name = Some v"
      by (rule record_split [OF assms(1)])
    show ?thesis
      using get_present [OF assms(1) [unfolded s(1) store_ok_def]] s(2) by simp
  next
    case False
    then show ?thesis using find_absent [OF assms ab [OF False]] by (simp add: nval_get_def domIff)
  qed
  show "\<exists>xb' rs'. nval_del dev xb n name = (if name \<in> dom (map_of rs) then 0 else - ENODATA, xb') \<and>
      store_ok dev xb' n rs' \<and> map_of rs' = (map_of rs)(name := None) \<and> drop n xb' = drop n xb"
  proof (cases "name \<in> dom (map_of rs)")
    case True
    then obtain pre v post where s: "rs = pre @ (name, v) # post" "name \<notin> dom (map_of pre)" "name \<notin> dom (map_of post)"
      by (rule record_split [OF assms(1)])
    obtain xb' where "nval_del dev xb n name = (0, xb')" "store_ok dev xb' n (pre @ post)" "drop n xb' = drop n xb"
      using del_present [OF assms(1) [unfolded s(1)]] by blast
    then show ?thesis
      using map_of_without [OF s(2,3), of v] True unfolding s(1) by (intro exI [of _ xb'] exI [of _ "pre @ post"]) simp
  next
    case False
    then have "nval_del dev xb n name = (- ENODATA, xb)" using find_absent [OF assms ab] by (simp add: nval_del_def)
    moreover have "(map_of rs)(name := None) = map_of rs" using False by (auto simp: fun_eq_iff domIff)
    ultimately show ?thesis using assms(1) False by auto
  qed
qed

text \<open>C39: A record that fills the space to the last byte is lost: setting it answers success, and reading
  the name back answers ENODATA, because the search stops at a record that ends with the buffer.\<close>

theorem nval_exact_fit_lost:
  assumes "store_ok dev xb n rs" and "name_ok name" and "name \<notin> dom (map_of rs)"
    and "rec_len (name, v) = n - recs_len rs"
  shows "fst (nval_set dev xb n name v 0) = 0 \<and>
    nval_get dev (snd (nval_set dev xb n name v 0)) n name bsize = (- ENODATA, [])"
proof -
  have ab: "name \<notin> fst ` set rs" using assms(3) by (simp add: dom_map_of_conv_image_fst)
  have n: "recs_len rs < n" "n < 2 ^ 31" using assms(1) by (simp_all add: store_ok_def store_has_def)
  obtain xb' where x: "nval_set dev xb n name v 0 = (0, xb')"
    "take n xb' = recs_bytes (stored_le dev) (rs @ [(name, v)]) @ replicate (n - recs_len rs - rec_len (name, v)) 0"
    "length xb' = length xb"
    by (rule set_absent [OF assms(1,2) ab, of v 0]) (use assms(4) n in simp_all)
  have h: "store_has dev xb' n ([] @ rs @ []) (rec_bytes (stored_le dev) (name, v))"
    using assms(1,4) x(2,3) by (simp add: store_ok_def store_has_def)
  then have h': "store_has dev xb' n (rs @ []) (rec_bytes (stored_le dev) (name, v))" by simp
  have k: "5 \<le> rec_len (name, v)" by (simp add: rec_len_def)
  have read: "read_size dev xb' (recs_len rs) = int (rec_len (name, v))"
    by (rule read_size_at [OF h']) (use assms(4) n in \<open>simp_all add: rec_bytes_def\<close>)
  then have nxt: "next_size dev xb' n (recs_len rs) = int (rec_len (name, v))"
    using k assms(4) n by (simp add: next_size_def)
  have stop: "nval_find_loop dev xb' n name (recs_len rs) (int (rec_len (name, v))) = (- ENODATA, 0)"
    using assms(4) n by (subst nval_find_loop.simps) simp
  have "nval_find dev xb' n name = (- ENODATA, 0)"
  proof (cases "rs = []")
    case True
    then show ?thesis using read stop by (simp add: nval_find_def)
  next
    case False
    have "nval_find dev xb' n name = nval_find_loop dev xb' n name 0 (next_size dev xb' n 0)"
      using find_start [of dev xb' n rs] h False by simp
    also have "\<dots> = nval_find_loop dev xb' n name (recs_len rs) (next_size dev xb' n (recs_len rs))"
      using find_skip [OF h assms(2) ab] by simp
    finally show ?thesis using nxt stop by simp
  qed
  then show ?thesis using x(1) by (simp add: nval_get_def)
qed

section \<open>Witnesses\<close>

text \<open>A space of 32 bytes with nothing in it.\<close>

lemma empty_store: "store_ok summary_dev (replicate 36 0) 32 []"
  by (simp add: store_ok_def store_has_def)

lemma nval_set_refines_map_witness:
  "\<exists>xb. nval_set summary_dev (replicate 36 0) 32 [97] [1, 2] 0 = (0, xb) \<and> store_ok summary_dev xb 32 [([97], [1, 2])] \<and>
     take 32 xb = recs_bytes (stored_le summary_dev) [([97], [1, 2])] @ replicate 24 0"
  using nval_set_refines_map [OF empty_store, of "[97]" "[1, 2]" 0]
  by (simp add: name_ok_def free_for_def rec_len_def case_prod_beta) (metis prod.collapse)

lemma one_store: "store_ok summary_dev (recs_bytes (stored_le summary_dev) [([97], [1, 2])] @ replicate 28 0) 32 [([97], [1, 2])]"
  by (simp add: store_ok_def store_has_def rec_len_def name_ok_def)

lemma nval_get_del_refine_map_witness:
  "nval_get summary_dev (recs_bytes (stored_le summary_dev) [([97], [1, 2])] @ replicate 28 0) 32 [97] 5 = (2, [1, 2]) \<and>
   (\<exists>xb rs. nval_del summary_dev (recs_bytes (stored_le summary_dev) [([97], [1, 2])] @ replicate 28 0) 32 [97] = (0, xb) \<and>
     store_ok summary_dev xb 32 rs \<and> map_of rs = Map.empty)"
  using nval_get_del_refine_map [OF one_store, of "[97]" 5] by (auto simp: name_ok_def)

lemma nval_exact_fit_lost_witness:
  "nval_get summary_dev (snd (nval_set summary_dev (replicate 36 0) 32 [97] (replicate 26 7) 0)) 32 [97] 40 = (- ENODATA, [])"
  using nval_exact_fit_lost [OF empty_store, of "[97]" "replicate 26 7" 40] by (simp add: name_ok_def rec_len_def)

end
