(* ===== verification/Yaffs_Live.thy ===== *)
theory Yaffs_Live
  imports Yaffs_AllocSteps
begin

text \<open>
  No live data is lost. Whatever the allocation layer does (writing with retries and summaries,
  dropping checkpoints, erasing and retiring blocks), a chunk that is in use stays in use and reads the same
  until it is released itself; and a chunk that was written reads what was written to it.

  The flash is outside the model, so what its driver does to chunks other than the ones it is
  called for is a hypothesis, \<open>flash_ok\<close>: reading changes nothing, writing changes one chunk, and
  erasing or marking a block changes the chunks of that block. \<open>stores_ok\<close> adds that a chunk
  written with result OK reads back. Both are the documented behaviour of NAND flash.
\<close>

section \<open>What a chunk reads\<close>

text \<open>What the driver answers when a chunk is read.\<close>

definition flash_read :: "('n, 'x) yaffs_dev_scheme \<Rightarrow> 'n \<Rightarrow> int \<Rightarrow> int \<times> u8 list \<times> yaffs_ext_tags" where
  "flash_read dev n x = (case read_chunk_tags_fn (tagger dev) n x True of (r, data, tags, _) \<Rightarrow> (r, data, tags))"

definition chunk_read :: "('n, 'x) yaffs_dev_scheme \<Rightarrow> int \<Rightarrow> int \<Rightarrow> int \<times> u8 list \<times> yaffs_ext_tags" where
  "chunk_read dev b c = flash_read dev (nand dev) (b * cpb dev + c - chunk_offset dev)"

text \<open>The driver numbers chunks and blocks from its own start.\<close>

definition flash_ok :: "('n, 'x) yaffs_dev_scheme \<Rightarrow> bool" where
  "flash_ok dev \<longleftrightarrow> chunk_offset dev = block_offset dev * cpb dev \<and>
     (\<forall>n c w r data tags n'. read_chunk_tags_fn (tagger dev) n c w = (r, data, tags, n') \<longrightarrow> flash_read dev n' = flash_read dev n) \<and>
     (\<forall>n c data tags x. x \<noteq> c \<longrightarrow>
        flash_read dev (snd (write_chunk_tags_fn (tagger dev) n c data tags)) x = flash_read dev n x) \<and>
     (\<forall>n b x. x div cpb dev \<noteq> b \<longrightarrow>
        flash_read dev (snd (drv_erase_fn (drv dev) n b)) x = flash_read dev n x \<and>
        flash_read dev (snd (drv_mark_bad_fn (drv dev) n b)) x = flash_read dev n x \<and>
        flash_read dev (snd (mark_bad_fn (tagger dev) n b)) x = flash_read dev n x)"

text \<open>Tags the formats can store: the top bit of a chunk number marks extra information, which goes with
  a header and needs the number and the parent of the object to be small. What is read from a chunk is
  of this kind, and what is written besides has a sequence number other than that of an erased page.\<close>

definition tags_sound :: "yaffs_ext_tags \<Rightarrow> bool" where
  "tags_sound t \<longleftrightarrow> chunk_id t < 0x80000000 \<and>
     (chunk_id t = 0 \<and> extra_available t \<noteq> 0 \<longrightarrow>
        obj_id t < 0x10000000 \<and> extra_parent_id t < 0x10000000 \<and> extra_obj_type t < 16 \<and> n_bytes t = 0)"

definition plain_tags :: "yaffs_ext_tags \<Rightarrow> bool" where
  "plain_tags t \<longleftrightarrow> tags_sound t \<and> seq_number t \<noteq> 0xffffffff"

definition stores_ok :: "('n, 'x) yaffs_dev_scheme \<Rightarrow> bool" where
  "stores_ok dev \<longleftrightarrow> (\<forall>n c data tags n'. plain_tags tags \<and> total_bytes_per_chunk (param dev) \<le> length data \<longrightarrow>
     write_chunk_tags_fn (tagger dev) n c (Some data) tags = (YAFFS_OK, n') \<longrightarrow>
     (case flash_read dev n' c of (r, data', tags') \<Rightarrow>
        r = YAFFS_OK \<and> take (data_bytes_per_chunk dev) data' = take (data_bytes_per_chunk dev) data \<and>
        obj_id tags' = obj_id tags \<and> chunk_id tags' = chunk_id tags \<and> n_bytes tags' = n_bytes tags))"

definition storable :: "('n, 'x) yaffs_dev_scheme \<Rightarrow> u8 list \<Rightarrow> yaffs_ext_tags \<Rightarrow> bool" where
  "storable dev data t \<longleftrightarrow> stores_ok dev \<and> plain_tags t \<and> total_bytes_per_chunk (param dev) \<le> length data"

lemma flash_read_config: "dev_config d = dev_config dev \<Longrightarrow> flash_read d = flash_read dev"
  using dev_configD(2) [of d dev] by (simp add: flash_read_def fun_eq_iff)

lemma flash_ok_config: "dev_config d = dev_config dev \<Longrightarrow> flash_ok d = flash_ok dev"
  using dev_configD [of d dev] flash_read_config [of d dev] by (simp add: flash_ok_def)

section \<open>Keeping chunks\<close>

text \<open>Every chunk in use outside \<open>X\<close> stays in use and reads the same.\<close>

definition keeps :: "(int \<times> int) set \<Rightarrow> ('n, 'x) yaffs_dev_scheme \<Rightarrow> ('n, 'x) yaffs_dev_scheme \<Rightarrow> bool" where
  "keeps X dev d \<longleftrightarrow> dev_config d = dev_config dev \<and>
     (\<forall>b c. c \<in> chunks_in_use dev b \<longrightarrow> (b, c) \<notin> X \<longrightarrow> c \<in> chunks_in_use d b \<and> chunk_read d b c = chunk_read dev b c)"

lemma keeps_refl [simp]: "keeps X dev dev"
  by (simp add: keeps_def)

lemma keeps_trans: "keeps X d1 d2 \<Longrightarrow> keeps X d2 d3 \<Longrightarrow> keeps X d1 d3"
  by (auto simp: keeps_def)

lemma keeps_config: "keeps X dev d \<Longrightarrow> dev_config d = dev_config dev"
  by (simp add: keeps_def)

lemma keeps_mono: "keeps X dev d \<Longrightarrow> X \<subseteq> Y \<Longrightarrow> keeps Y dev d"
  by (auto simp: keeps_def)

text \<open>An exception that is not in use is none.\<close>

lemma keeps_unused:
  assumes "keeps X dev d" "\<And>b c. (b, c) \<in> X \<Longrightarrow> c \<in> chunks_in_use dev b \<Longrightarrow> (b, c) \<in> Y"
  shows "keeps Y dev d"
  using assms by (auto simp: keeps_def)

text \<open>Operations that touch neither the flash nor the bitmap.\<close>

lemma keeps_same:
  assumes "dev_config d = dev_config dev" "nand d = nand dev" "chunk_bits d = chunk_bits dev"
  shows "keeps X dev d"
proof -
  have "chunks_in_use d = chunks_in_use dev" by (rule in_use_cong [OF assms(3,1)])
  moreover have "chunk_read d b c = chunk_read dev b c" for b c
    using dev_configD [OF assms(1)] flash_read_config [OF assms(1)] assms(2) by (simp add: chunk_read_def)
  ultimately show ?thesis using assms(1) by (simp add: keeps_def)
qed

lemma nand_frame [simp]:
  "nand (upd_stats dev h) = nand dev" "nand (upd_block_info dev b f) = nand dev"
  "nand (yaffs_set_chunk_bit dev b c) = nand dev" "nand (yaffs_clear_chunk_bit dev b c) = nand dev"
  "nand (yaffs_clear_chunk_bits dev b) = nand dev" "nand (yaffs_handle_chunk_error dev b) = nand dev"
  "nand (yaffs_skip_rest_of_block dev) = nand dev" "nand (yaffs_summary_clear dev) = nand dev"
  "nand (yaffs2_clear_oldest_dirty_seq dev x) = nand dev" "nand (yaffs2_update_oldest_dirty_seq dev b y) = nand dev"
  by (simp_all add: upd_stats_def upd_block_info_def yaffs_set_chunk_bit_def yaffs_clear_chunk_bit_def
      yaffs_clear_chunk_bits_def yaffs_handle_chunk_error_def yaffs_skip_rest_of_block_def yaffs_summary_clear_def
      yaffs2_clear_oldest_dirty_seq_def yaffs2_update_oldest_dirty_seq_def Let_def split: option.split)

lemma bits_of_unseen: "unseen dev d \<Longrightarrow> chunk_bits d = chunk_bits dev"
  by (simp add: unseen_def alloc_view_def)

lemma keeps_unseen: "unseen dev d \<Longrightarrow> nand d = nand dev \<Longrightarrow> keeps X dev d"
  by (rule keeps_same) (simp only: unseen_def, assumption, rule bits_of_unseen)

text \<open>An operation the invariant does not see, of which only the effect on the flash matters.\<close>

lemma keeps_flash:
  assumes "unseen dev d"
    and "\<And>b c. \<lbrakk>c \<in> chunks_in_use dev b; (b, c) \<notin> X\<rbrakk> \<Longrightarrow>
      flash_read dev (nand d) (b * cpb dev + c - chunk_offset dev) = flash_read dev (nand dev) (b * cpb dev + c - chunk_offset dev)"
  shows "keeps X dev d"
proof -
  have c: "dev_config d = dev_config dev" using assms(1) by (simp add: unseen_def)
  have use: "chunks_in_use d = chunks_in_use dev" by (rule in_use_cong [OF bits_of_unseen [OF assms(1)] c])
  show ?thesis
    unfolding keeps_def chunk_read_def use flash_read_config [OF c] dev_configD(1,12) [OF c]
    using c assms(2) by blast
qed

lemma chunk_number_inj:
  assumes "0 \<le> c" "c < n" "0 \<le> c'" "c' < n" "b * n + c = b' * n + (c' :: int)"
  shows "b = b' \<and> c = c'"
proof -
  have "(b * n + c) div n = b" "(b' * n + c') div n = b'" using assms(1-4) by simp_all
  then have "b = b'" using assms(5) by simp
  then show ?thesis using assms(5) by simp
qed

lemma keeps_rd:
  assumes "flash_ok dev" "yaffs_rd_chunk_tags_nand dev ch w = (r, data, tags, d)"
  shows "keeps X dev d"
proof (rule keeps_flash)
  show "unseen dev d" by (rule unseen_rd [OF assms(2)])
  obtain r' d' t' n' where n: "read_chunk_tags_fn (tagger dev) (nand dev) (ch - chunk_offset dev) w = (r', d', t', n')"
    by (metis prod_cases4)
  have "nand d = n'"
    using assms(2) n by (auto simp: yaffs_rd_chunk_tags_nand_def Let_def upd_stats_def yaffs_handle_chunk_error_def
        upd_block_info_def split: prod.splits if_splits)
  moreover have "flash_read dev n' = flash_read dev (nand dev)" using assms(1) n by (auto simp: flash_ok_def)
  ultimately show "flash_read dev (nand d) (b * cpb dev + c - chunk_offset dev) =
      flash_read dev (nand dev) (b * cpb dev + c - chunk_offset dev)" for b c by simp
qed

text \<open>Operations on a whole block.\<close>

lemma driver_block:
  assumes "flash_ok dev" "c \<in> chunks_in_use dev b" "0 < cpb dev"
  shows "(b * cpb dev + c - chunk_offset dev) div cpb dev = b - block_offset dev"
proof -
  have eq: "b * cpb dev + c - chunk_offset dev = (b - block_offset dev) * cpb dev + c"
    using assms(1) by (simp add: flash_ok_def algebra_simps)
  show ?thesis unfolding eq using in_use_bounds(1,2) [OF assms(2)] by simp
qed

lemma in_use_cpb: "c \<in> chunks_in_use dev b \<Longrightarrow> 0 < cpb dev"
  using in_use_bounds(1,2) [of c dev b] by linarith

lemma keeps_block:
  assumes ok: "flash_ok dev" and u: "unseen dev d"
    and n: "nand d = snd (drv_erase_fn (drv dev) (nand dev) (b - block_offset dev)) \<or>
      nand d = snd (drv_mark_bad_fn (drv dev) (nand dev) (b - block_offset dev)) \<or>
      nand d = snd (mark_bad_fn (tagger dev) (nand dev) (b - block_offset dev)) \<or> nand d = nand dev"
  shows "keeps ({b} \<times> UNIV) dev d"
proof (rule keeps_flash [OF u])
  fix b' c assume c: "c \<in> chunks_in_use dev b'" and "(b', c) \<notin> {b} \<times> UNIV"
  then have "(b' * cpb dev + c - chunk_offset dev) div cpb dev \<noteq> b - block_offset dev"
    using driver_block [OF ok c in_use_cpb [OF c]] by auto
  then show "flash_read dev (nand d) (b' * cpb dev + c - chunk_offset dev) =
      flash_read dev (nand dev) (b' * cpb dev + c - chunk_offset dev)"
    using n ok by (auto simp: flash_ok_def)
qed

lemma keeps_block_ops:
  assumes "flash_ok dev"
  shows "keeps ({b} \<times> UNIV) dev (snd (yaffs_mark_bad dev b))" "keeps ({b} \<times> UNIV) dev (snd (yaffs_erase_block dev b))"
proof -
  show "keeps ({b} \<times> UNIV) dev (snd (yaffs_mark_bad dev b))"
    by (rule keeps_block [OF assms unseen_ops(1)])
      (simp add: yaffs_mark_bad_def Let_def split: prod.split, simp add: upd_stats_def)
  show "keeps ({b} \<times> UNIV) dev (snd (yaffs_erase_block dev b))"
    by (rule keeps_block [OF assms unseen_ops(2)])
      (simp add: yaffs_erase_block_def Let_def split: prod.split, simp add: upd_stats_def)
qed

lemma keeps_empty_block: "keeps ({b} \<times> UNIV) dev d \<Longrightarrow> chunks_in_use dev b = {} \<Longrightarrow> keeps X dev d"
  by (erule keeps_unused) auto


section \<open>Erasing and retiring\<close>

lemma chunk_bits_upd [simp]: "chunk_bits (upd_block_info dev b f) = chunk_bits dev"
  "chunk_bits (upd_stats dev h) = chunk_bits dev"
  by (simp_all add: upd_block_info_def upd_stats_def)

lemma keeps_upd_block [simp]: "keeps X dev (upd_block_info dev b f)" "keeps X dev (upd_stats dev h)"
  "keeps X dev (dev\<lparr>n_free_chunks := i\<rparr>)" "keeps X dev (dev\<lparr>n_erased_blocks := i\<rparr>)" "keeps X dev (dev\<lparr>ck := cc\<rparr>)"
  by (rule keeps_same; simp)+

text \<open>Erasing a block that is not in use, and marking it when that fails.\<close>

lemma keeps_checkpt_erase_step:
  assumes inv: "inv_except D k dev" and i: "i \<in> blocks_of dev" and ok: "flash_ok dev"
  shows "keeps X dev (checkpt_erase_step i dev)"
proof (cases "block_state (yaffs_get_block_info dev i) = YAFFS_BLOCK_STATE_CHECKPOINT")
  case True
  have nD: "i \<notin> D" using True inv_block(2) [OF inv i] by auto
  note bo = block_ok_pages [OF inv_block(1) [OF inv i nD]]
  have none: "chunks_in_use dev i = {}" using bo(1,5) True finite_in_use [of dev i] by simp
  let ?d0 = "upd_stats dev (\<lambda>s. s\<lparr>n_erasures := n_erasures s + 1\<rparr>)"
  have cfg: "drv ?d0 = drv dev" "nand ?d0 = nand dev" by (simp_all add: upd_stats_def)
  obtain r n where e: "drv_erase_fn (drv dev) (nand dev) (i - block_offset dev) = (r, n)" by fastforce
  obtain r' n' where m: "drv_mark_bad_fn (drv dev) n (i - block_offset dev) = (r', n')" by fastforce
  have k1: "keeps X dev (?d0\<lparr>nand := n\<rparr>)"
    by (rule keeps_empty_block [OF keeps_block [OF ok] none])
      (use e in \<open>simp_all add: unseen_def\<close>)
  then have c1: "dev_config (?d0\<lparr>nand := n\<rparr>) = dev_config dev" by (rule keeps_config)
  have "keeps X (?d0\<lparr>nand := n\<rparr>) (?d0\<lparr>nand := n'\<rparr>)"
  proof (rule keeps_empty_block [OF keeps_block [where b = i]])
    show "flash_ok (?d0\<lparr>nand := n\<rparr>)" using ok flash_ok_config [OF c1] by simp
    show "unseen (?d0\<lparr>nand := n\<rparr>) (?d0\<lparr>nand := n'\<rparr>)" by (simp add: unseen_def)
    show "chunks_in_use (?d0\<lparr>nand := n\<rparr>) i = {}"
      using none in_use_cong [OF _ c1] by simp
  qed (use m in \<open>simp add: upd_stats_def\<close>)
  then have k2: "keeps X dev (?d0\<lparr>nand := n'\<rparr>)" by (rule keeps_trans [OF k1])
  have upd: "keeps X dev ((upd_block_info d i f)\<lparr>n_erased_blocks := ee, n_free_chunks := ff\<rparr>)"
    "keeps X dev (upd_block_info d i f)" if "keeps X dev d" for d f ee ff
    by (rule keeps_trans [OF that keeps_same]; simp)+
  show ?thesis
    using True e m upd(1) [OF k1] upd(2) [OF k2] by (simp add: checkpt_erase_step_def Let_def cfg upd_stats_def)
qed (simp add: checkpt_erase_step_def)

lemma keeps_checkpt_erase_fold:
  assumes "inv_except D k dev" "set bs \<subseteq> blocks_of dev" "flash_ok dev"
  shows "keeps X dev (fold checkpt_erase_step bs dev)"
  using assms
proof (induction bs arbitrary: dev)
  case (Cons i bs)
  let ?d = "checkpt_erase_step i dev"
  have k: "keeps X dev ?d" by (rule keeps_checkpt_erase_step) (use Cons.prems in auto)
  have "keeps X ?d (fold checkpt_erase_step bs ?d)"
  proof (rule Cons.IH)
    show "inv_except D k ?d" using inv_checkpt_erase_step [OF Cons.prems(1)] Cons.prems(2) by simp
    show "set bs \<subseteq> blocks_of ?d" using Cons.prems(2) blocks_of_config [OF dev_config_erase_step, of i dev] by simp
    show "flash_ok ?d" using Cons.prems(3) flash_ok_config [OF dev_config_erase_step, of i dev] by simp
  qed
  then show ?case using keeps_trans [OF k] by simp
qed simp

lemma keeps_invalidate:
  assumes inv: "inv_except D k dev" and ok: "flash_ok dev"
  shows "keeps X dev (yaffs2_checkpt_invalidate dev)"
proof -
  let ?d = "dev\<lparr>is_checkpointed := False\<rparr>"
  have c: "dev_config ?d = dev_config dev" by simp
  have i: "inv_except D k ?d" using inv by (rule inv_cong) simp_all
  have k1: "keeps X dev ?d" by (rule keeps_same) simp_all
  have "keeps X ?d (fold checkpt_erase_step (dev_blocks ?d) ?d)"
    by (rule keeps_checkpt_erase_fold [OF i])
      (use ok flash_ok_config [OF c] in \<open>simp_all add: blocks_of_def dev_blocks_def\<close>)
  then have "keeps X dev (fold checkpt_erase_step (dev_blocks ?d) ?d)" by (rule keeps_trans [OF k1])
  then have "keeps X dev ((fold checkpt_erase_step (dev_blocks ?d) ?d)\<lparr>ck := cc\<rparr>)" for cc
    by (rule keeps_trans) simp
  then show ?thesis
    by (simp add: yaffs2_checkpt_invalidate_def yaffs2_checkpt_invalidate_stream_def yaffs_checkpt_erase_def Let_def)
qed


text \<open>A block in transition has no chunk in use.\<close>

lemma dirty_unused: "inv_except {b} k dev \<Longrightarrow> chunks_in_use dev b = {}"
  by (simp add: inv_except_def)

lemma keeps_retire:
  assumes inv: "inv_except {b} k dev" and ok: "flash_ok dev"
  shows "keeps X dev (yaffs_retire_block dev b)"
proof -
  have b: "b \<in> blocks_of dev" using inv by (auto simp: inv_except_def)
  let ?d1 = "yaffs2_checkpt_invalidate dev"
  let ?d2 = "yaffs2_clear_oldest_dirty_seq ?d1 (Some (yaffs_get_block_info ?d1 b))"
  obtain m d3 where m: "yaffs_mark_bad ?d2 b = (m, d3)" by fastforce
  obtain r d4 where e: "yaffs_erase_block d3 b = (r, d4)" by fastforce
  have k1: "keeps X dev ?d1" by (rule keeps_invalidate [OF inv ok])
  have u2: "unseen ?d1 ?d2" by (rule unseen_ops)
  have k2: "keeps X dev ?d2" by (rule keeps_trans [OF k1 keeps_unseen [OF u2]]) simp
  have i2: "inv_except {b} k ?d2" by (intro unseen_inv [OF u2] inv_checkpt_invalidate inv)
  have step: "keeps X dev d' \<and> inv_except {b} k d' \<and> flash_ok d'"
    if "keeps X dev d" "inv_except {b} k d" "keeps ({b} \<times> UNIV) d d'" "unseen d d'" for d d'
  proof -
    have "keeps X d d'" by (rule keeps_empty_block [OF that(3) dirty_unused [OF that(2)]])
    then have "keeps X dev d'" by (rule keeps_trans [OF that(1)])
    then show ?thesis
      using unseen_inv [OF that(4,2)] ok flash_ok_config [OF keeps_config] by blast
  qed
  have ok2: "flash_ok ?d2" using ok flash_ok_config [OF keeps_config [OF k2]] by simp
  have s3: "keeps X dev d3 \<and> inv_except {b} k d3 \<and> flash_ok d3"
    using step [OF k2 i2, of d3] keeps_block_ops(1) [OF ok2, of b] unseen_ops(1) [of ?d2 b] m by simp
  have s4: "keeps X dev d4 \<and> inv_except {b} k d4 \<and> flash_ok d4"
    using step [of d3 d4] s3 keeps_block_ops(2) [of d3 b] unseen_ops(2) [of d3 b] e by simp
  have marked: "keeps X dev (d4\<lparr>nand := snd (write_chunk_tags_fn (tagger d4) (nand d4) (b * cpb d4 - chunk_offset d4) data tags)\<rparr>)"
    for data tags
  proof -
    let ?d = "d4\<lparr>nand := snd (write_chunk_tags_fn (tagger d4) (nand d4) (b * cpb d4 - chunk_offset d4) data tags)\<rparr>"
    have "keeps X d4 ?d"
    proof (rule keeps_flash)
      show "unseen d4 ?d" by (simp add: unseen_def)
      fix b' c assume c: "c \<in> chunks_in_use d4 b'" "(b', c) \<notin> X"
      have "b' \<noteq> b" using c dirty_unused [of b k d4] s4 by auto
      then have "b' * cpb d4 + c \<noteq> b * cpb d4 + 0"
        using chunk_number_inj [of c "cpb d4" 0 b' b] in_use_bounds(1,2) [OF c(1)] in_use_cpb [OF c(1)] by auto
      then show "flash_read d4 (nand ?d) (b' * cpb d4 + c - chunk_offset d4) =
          flash_read d4 (nand d4) (b' * cpb d4 + c - chunk_offset d4)"
        using s4 by (simp add: flash_ok_def)
    qed
    then show ?thesis using s4 keeps_trans by blast
  qed
  have fin: "keeps X dev (upd_stats (upd_block_info d b f) h)" if "keeps X dev d" for d f h
    by (rule keeps_trans [OF that keeps_same]; simp)
  show ?thesis
    using fin s3 s4 fin [OF marked] m e
    by (simp add: yaffs_retire_block_def Let_def case_prod_beta)
qed

lemma keeps_clear_bits:
  assumes bm: "bitmap_ok dev" and b: "b \<in> blocks_of dev" and none: "chunks_in_use dev b = {}"
  shows "keeps X dev (yaffs_clear_chunk_bits dev b)"
proof -
  have g: "geometry_ok dev" using bm by (simp add: bitmap_ok_def)
  note cl = bitmap_refines_set_lemma(3) [OF bm valid_chunk_zero [OF g b]]
  have "c \<in> chunks_in_use (yaffs_clear_chunk_bits dev b) b'" if "c \<in> chunks_in_use dev b'" for b' c
    using cl [of b'] that none in_use_bounds(4) [OF that] by (auto split: if_splits)
  then show ?thesis
    by (simp add: keeps_def chunk_read_def) (simp add: flash_read_def yaffs_clear_chunk_bits_def Let_def)
qed

lemma keeps_reading_fold:
  assumes "flash_ok dev"
  shows "keeps X dev (fold (\<lambda>i d. snd (yaffs_check_chunk_erased d (b * cpb d + i))) is dev)"
  using assms
proof (induction "is" arbitrary: dev)
  case (Cons i "is")
  obtain r data tags d where rd: "yaffs_rd_chunk_tags_nand dev (b * cpb dev + i) True = (r, data, tags, d)" by (metis prod_cases4)
  have k: "keeps X dev d" by (rule keeps_rd [OF Cons.prems rd])
  then have "keeps X d (fold (\<lambda>i d. snd (yaffs_check_chunk_erased d (b * cpb d + i))) is d)"
    using Cons flash_ok_config [OF keeps_config] by blast
  then show ?case using keeps_trans [OF k] rd by (simp add: yaffs_check_chunk_erased_def Let_def)
qed simp

lemma keeps_verify_erasure: "flash_ok dev \<Longrightarrow> keeps X dev (verify_erasure dev b)"
  using keeps_reading_fold by (auto simp: verify_erasure_def)

lemma keeps_cleaned:
  assumes inv: "inv_except {b} k dev"
  shows "keeps X dev (cleaned_block dev b)"
proof -
  have b: "b \<in> blocks_of dev" and bm: "bitmap_ok dev" using inv by (auto simp: inv_except_def)
  let ?d = "upd_block_info ((upd_block_info dev b (\<lambda>bi. bi\<lparr>block_state := YAFFS_BLOCK_STATE_EMPTY, bi_seq_number := 0\<rparr>))
    \<lparr>n_erased_blocks := n_erased_blocks dev + 1\<rparr>) b (\<lambda>bi. bi\<lparr>pages_in_use := 0, soft_del_pages := 0,
      has_shrink_hdr := False, skip_erased_check := True, gc_prioritise := False, has_summary := False\<rparr>)"
  have c: "dev_config ?d = dev_config dev" by simp
  have k: "keeps X dev ?d" by (rule keeps_same) simp_all
  have "keeps X ?d (yaffs_clear_chunk_bits ?d b)"
    by (rule keeps_clear_bits) (use b bm dirty_unused [OF inv] blocks_of_config [OF c] in simp_all)
  then have "keeps X dev (yaffs_clear_chunk_bits ?d b)" by (rule keeps_trans [OF k])
  then show ?thesis by (simp add: cleaned_block_def Let_def)
qed

lemma keeps_dirty_erase:
  assumes inv: "inv_except {b} k dev" and ok: "flash_ok dev" and e: "dirty_erase dev b = (r, d)"
  shows "keeps X dev d"
proof (cases "needs_retiring (yaffs_get_block_info dev b)")
  case False
  let ?d = "yaffs2_checkpt_invalidate dev"
  obtain r' de where er: "yaffs_erase_block ?d b = (r', de)" by fastforce
  have k: "keeps X dev ?d" by (rule keeps_invalidate [OF inv ok])
  have "keeps X ?d de"
    using keeps_empty_block [OF keeps_block_ops(2), of ?d b] er dirty_unused [OF inv_checkpt_invalidate [OF inv]]
      ok flash_ok_config [OF keeps_config [OF k]] by simp
  then have "keeps X dev de" by (rule keeps_trans [OF k])
  then show ?thesis using e False er keeps_trans [OF _ keeps_upd_block(2)] by (auto simp: dirty_erase_def Let_def)
qed (use e in \<open>simp add: dirty_erase_def\<close>)

lemma keeps_became_dirty:
  assumes inv: "inv_except {} 0 dev" and b: "b \<in> blocks_of dev"
    and st: "block_state (yaffs_get_block_info dev b) \<in> {YAFFS_BLOCK_STATE_FULL, YAFFS_BLOCK_STATE_COLLECTING}"
    and zero: "pages_in_use (yaffs_get_block_info dev b) = 0"
    and ok: "flash_ok dev"
  shows "keeps X dev (yaffs_block_became_dirty dev b)"
proof -
  obtain r d where e: "dirty_erase (dirty_block dev b) b = (r, d)" by fastforce
  note di = inv_dirty_block [OF inv b st zero]
  have k1: "keeps X dev (dirty_block dev b)"
    by (rule keeps_same) (rule conjunct2 [OF di], simp_all add: dirty_block_def Let_def upd_block_info_def
        yaffs2_clear_oldest_dirty_seq_def)
  note okd = flash_ok_config [OF keeps_config, THEN iffD2, OF _ ok]
  have k2: "keeps X dev d"
    by (rule keeps_trans [OF k1 keeps_dirty_erase [OF conjunct1 [OF di] okd [OF k1] e]])
  from inv_dirty_erase [OF conjunct1 [OF di] e] have i: "inv_except {b} (cpb dev) d" by simp
  have k3: "keeps X dev (verify_erasure d b)" by (rule keeps_trans [OF k2 keeps_verify_erasure [OF okd [OF k2]]])
  have i3: "inv_except {b} (cpb dev) (verify_erasure d b)" by (rule unseen_inv [OF unseen_verify_erasure i])
  let ?d = "d\<lparr>n_free_chunks := n_free_chunks d - cpb dev\<rparr>"
  have k4: "keeps X dev ?d" by (rule keeps_trans [OF k2]) simp
  note i4 = inv_uncounted [OF i]
  show ?thesis
    using keeps_trans [OF k4 keeps_retire [OF i4 okd [OF k4]]] keeps_trans [OF k3 keeps_cleaned [OF i3]] e
      dev_configD(1) [OF keeps_config [OF k2]]
    by (simp add: became_dirty_phases)
qed

section \<open>Releasing a chunk\<close>

lemma keeps_release:
  assumes bm: "bitmap_ok dev" and c: "c \<in> chunks_in_use dev b"
  shows "keeps {(b, c)} dev (release_chunk dev b c)"
proof -
  let ?d = "dev\<lparr>n_free_chunks := n_free_chunks dev + 1\<rparr>"
  let ?d1 = "yaffs_clear_chunk_bit ?d b c"
  have vc: "valid_chunk ?d b c" using in_use_bounds(3) [OF c] valid_chunk_config [of ?d dev] by simp
  have bmd: "bitmap_ok ?d" using bm by simp
  have "c' \<in> chunks_in_use ?d1 b'" if "c' \<in> chunks_in_use dev b'" "(b', c') \<noteq> (b, c)" for b' c'
    using bitmap_refines_set_lemma(2) [OF bmd vc, of b'] that in_use_bounds(4) [OF that(1)]
      valid_block_config [of ?d dev] by (auto split: if_splits)
  then have "keeps {(b, c)} dev ?d1"
    by (simp add: keeps_def chunk_read_def) (simp add: flash_read_def yaffs_clear_chunk_bit_def Let_def)
  then show ?thesis unfolding release_chunk_def by (rule keeps_trans) simp
qed

lemma keeps_chunk_del:
  assumes inv: "inv_except {} 0 dev" and pos: "0 < chunk" and ok: "flash_ok dev"
    and c: "chunk mod cpb dev \<in> chunks_in_use dev (chunk div cpb dev)"
    and soft: "soft_del_pages (yaffs_get_block_info dev (chunk div cpb dev))
      < pages_in_use (yaffs_get_block_info dev (chunk div cpb dev))"
  shows "keeps {(chunk div cpb dev, chunk mod cpb dev)} dev (yaffs_chunk_del dev chunk m)"
proof (rule chunk_del_cases [OF inv pos c soft, of m])
  let ?b = "chunk div cpb dev" and ?c = "chunk mod cpb dev"
  fix d d'
  assume u: "unseen dev d" "nand d = nand dev" and d': "d' = release_chunk d ?b ?c"
    and i: "inv_except {} 0 d'" "?b \<in> blocks_of d'"
    and del: "yaffs_chunk_del dev chunk m = d' \<or>
      yaffs_chunk_del dev chunk m = yaffs_block_became_dirty d' ?b \<and>
        block_state (yaffs_get_block_info d' ?b) \<in> {YAFFS_BLOCK_STATE_FULL, YAFFS_BLOCK_STATE_COLLECTING} \<and>
        pages_in_use (yaffs_get_block_info d' ?b) = 0"
  have bm: "bitmap_ok d" using unseen_inv [OF u(1) inv] by (simp add: inv_except_def)
  have c': "?c \<in> chunks_in_use d ?b" using c unseenD(1) [OF u(1) inv_geometry [OF inv]] by simp
  have k: "keeps {(?b, ?c)} dev d'"
    unfolding d' by (rule keeps_trans [OF keeps_unseen [OF u] keeps_release [OF bm c']])
  have okd: "flash_ok d'" using ok flash_ok_config [OF keeps_config [OF k]] by simp
  show ?thesis using del k keeps_trans [OF k keeps_became_dirty [OF i _ _ okd]] by metis
qed

section \<open>Allocating a chunk\<close>

lemma find_loop_frame:
  "find_alloc_loop k dev = (f, d) \<Longrightarrow> dev_config d = dev_config dev \<and> nand d = nand dev \<and> chunk_bits d = chunk_bits dev"
proof (induction k arbitrary: dev)
  case (Suc k)
  show ?case
    using Suc.prems
    by (auto simp: Let_def split: if_splits dest!: Suc.IH)
qed simp

lemma keeps_skip_rest: "keeps X dev (yaffs_skip_rest_of_block dev)"
  by (rule keeps_same) (simp_all add: yaffs_skip_rest_of_block_def)

lemma keeps_set_bit:
  assumes bm: "bitmap_ok dev" and vc: "valid_chunk dev b c"
  shows "keeps X dev (yaffs_set_chunk_bit dev b c)"
proof -
  have "c' \<in> chunks_in_use (yaffs_set_chunk_bit dev b c) b'" if "c' \<in> chunks_in_use dev b'" for b' c'
    using bitmap_refines_set_lemma(1) [OF bm vc in_use_bounds(4) [OF that]] that by auto
  then show ?thesis
    by (simp add: keeps_def chunk_read_def) (simp add: flash_read_def yaffs_set_chunk_bit_def Let_def)
qed

lemma keeps_take_chunk:
  assumes inv: "inv_except {} 0 dev" and al: "alloc_block dev \<noteq> -1"
  shows "keeps X dev (take_chunk dev)"
proof -
  let ?d = "upd_block_info dev (alloc_block dev) (\<lambda>bi. bi\<lparr>pages_in_use := s10 (pages_in_use bi + 1)\<rparr>)"
  note t = take_chunk_effect [OF inv al]
  have "keeps X dev ?d" by simp
  moreover have "keeps X ?d (yaffs_set_chunk_bit ?d (alloc_block dev) (alloc_page dev))"
    by (rule keeps_set_bit) (use inv t(4) in \<open>simp_all add: inv_except_def\<close>)
  ultimately have "keeps X dev (yaffs_set_chunk_bit ?d (alloc_block dev) (alloc_page dev))" by (rule keeps_trans)
  then show ?thesis by (rule keeps_trans) (rule keeps_same; simp add: take_chunk_def Let_def)
qed

lemma keeps_alloc_chunk:
  assumes inv: "inv_except {} 0 dev" and al: "yaffs_alloc_chunk dev ur = (r, d)"
  shows "keeps X dev d"
proof -
  let ?d1 = "alloc_prepare dev"
  have k1: "keeps X dev ?d1"
  proof (rule keeps_same)
    show "dev_config ?d1 = dev_config dev" using alloc_prepare_effect [OF inv] by blast
    obtain f e where f: "yaffs_find_alloc_block dev = (f, e)" by fastforce
    then have "nand e = nand dev \<and> chunk_bits e = chunk_bits dev"
      using find_loop_frame by (auto simp: yaffs_find_alloc_block_def split: if_splits)
    then show "nand ?d1 = nand dev" "chunk_bits ?d1 = chunk_bits dev"
      using f by (simp_all add: alloc_prepare_def)
  qed
  have i1: "inv_except {} 0 ?d1" using alloc_prepare_effect [OF inv] by blast
  obtain av d2 where av: "(if ur then (True, ?d1) else yaffs_check_alloc_available ?d1 1) = (av, d2)"
    by (metis surj_pair)
  have u: "unseen ?d1 d2" using av unseen_ops(7) [of ?d1 1] by (cases ur) auto
  have n: "nand d2 = nand ?d1"
    using av by (auto simp: yaffs_check_alloc_available_def yaffs_calc_checkpt_blocks_required_def Let_def split: if_splits)
  have k2: "keeps X dev d2" by (rule keeps_trans [OF k1 keeps_unseen [OF u n]])
  have i2: "inv_except {} 0 d2" by (rule unseen_inv [OF u i1])
  have "d = d2 \<or> (alloc_block d2 \<ge> 0 \<and> d = take_chunk d2)"
    using al av unfolding yaffs_alloc_chunk_def take_chunk_def alloc_prepare_def Let_def
    by (auto split: prod.splits if_splits)
  then show ?thesis using k2 keeps_trans [OF k2 keeps_take_chunk [OF i2]] by auto
qed

section \<open>Writing\<close>

text \<open>The write itself, without what the summaries do: it changes what its own chunk reads.\<close>

lemma keeps_wr_plain:
  assumes ok: "flash_ok dev" and b: "ch = b * cpb dev + c" "0 \<le> c" "c < cpb dev"
    and wr: "wr_chunk_tags_nand_upto 0 dev ch buffer tags = (r, t, d)"
  shows "keeps {(b, c)} dev d" "unseen dev d"
    "obj_id t = obj_id tags \<and> chunk_id t = chunk_id tags \<and> n_bytes t = n_bytes tags"
    "(r, nand d) = write_chunk_tags_fn (tagger dev) (nand dev) (ch - chunk_offset dev) buffer t"
proof -
  show u: "unseen dev d"
    using wr by (auto simp: wr_chunk_tags_nand_upto.simps [of 0] Let_def unseen_def split: prod.splits)
  show "obj_id t = obj_id tags \<and> chunk_id t = chunk_id tags \<and> n_bytes t = n_bytes tags"
    and n: "(r, nand d) = write_chunk_tags_fn (tagger dev) (nand dev) (ch - chunk_offset dev) buffer t"
    using wr by (auto simp: wr_chunk_tags_nand_upto.simps [of 0] Let_def upd_stats_def split: prod.splits)
  have nd: "nand d = snd (write_chunk_tags_fn (tagger dev) (nand dev) (ch - chunk_offset dev) buffer t)"
    using n by (metis snd_conv)
  show "keeps {(b, c)} dev d"
  proof (rule keeps_flash [OF u])
    fix b' c' assume c': "c' \<in> chunks_in_use dev b'" and "(b', c') \<notin> {(b, c)}"
    then have "b' * cpb dev + c' - chunk_offset dev \<noteq> ch - chunk_offset dev"
      using chunk_number_inj [of c' "cpb dev" c b' b] in_use_bounds(1,2) [OF c'] b by auto
    then show "flash_read dev (nand d) (b' * cpb dev + c' - chunk_offset dev) =
        flash_read dev (nand dev) (b' * cpb dev + c' - chunk_offset dev)"
      using ok unfolding nd flash_ok_def by blast
  qed
qed

text \<open>Behind the chunks the summary covers a write has no summary to keep.\<close>

lemma keeps_wr_behind:
  assumes ok: "flash_ok dev" and c: "0 \<le> c" "c < cpb dev" "chunks_per_summary dev \<le> c"
    and wr: "wr_chunk_tags_nand_upto n dev (b * cpb dev + c) buffer tags = (r, t, d)"
  shows "keeps {(b, c)} dev d"
proof -
  have "wr_chunk_tags_nand_upto n dev (b * cpb dev + c) buffer tags =
      wr_chunk_tags_nand_upto 0 dev (b * cpb dev + c) buffer tags"
    by (rule wr_upto_behind) (use c in simp)
  then have "wr_chunk_tags_nand_upto 0 dev (b * cpb dev + c) buffer tags = (r, t, d)" using wr by (rule trans [OF sym])
  from keeps_wr_plain(1) [OF ok refl c(1,2) this] show ?thesis .
qed

lemma keeps_sum_chunk:
  assumes f: "filling b c i dev" and i: "0 \<le> i" "i < cpb dev"
  shows "keeps X dev (sum_chunk b i dev)"
proof -
  have "keeps X dev (yaffs_set_chunk_bit dev b i)"
    by (rule keeps_set_bit) (use f i in \<open>auto simp: filling_def inv_except_def valid_chunk_def blocks_of_def\<close>)
  then show ?thesis unfolding sum_chunk_def by (rule keeps_trans) (rule keeps_same; simp)
qed

lemma keeps_write_loop:
  assumes "filling b c i dev" "0 \<le> i" "i < cpb dev" "chunks_per_summary dev \<le> i"
    "0 < k" "int todo \<le> (cpb dev - i) * int k" "flash_ok dev"
  shows "keeps X dev (snd (summary_write_loop (wr_chunk_tags_nand_upto n) b hdr k sb todo buffer tags
      (b * cpb dev + i) i dev))"
  using assms
proof (induction todo arbitrary: i dev sb buffer tags rule: less_induct)
  case (less todo)
  let ?c = "b * cpb dev + i" and ?wr = "wr_chunk_tags_nand_upto n"
  let ?b = "Some (hdr @ take (min todo k) sb @ drop (16 + min todo k) buffer)"
  let ?t = "tags\<lparr>n_bytes := word_of_nat (min todo k + 16)\<rparr>"
  obtain r t d where w: "?wr dev ?c ?b ?t = (r, t, d)" by (metis prod_cases3)
  have "?c mod cpb dev = i" using less.prems by simp
  then have u: "unseen dev d"
    using unseen_wr_behind [of dev ?c n ?b ?t] less.prems(4) w by simp
  have fd: "filling b c i d" by (rule filling_unseen [OF u less.prems(1)])
  have cd: "dev_config d = dev_config dev" using u by (simp add: unseen_def)
  note cfg = dev_configD [OF cd]
  have "i \<notin> chunks_in_use dev b" using less.prems(1) by (auto simp: filling_def)
  then have k1: "keeps X dev d"
    using keeps_unused [OF keeps_wr_behind [OF less.prems(7) less.prems(2-4) w]] by blast
  let ?s = "sum_chunk b i d"
  have k2: "keeps X dev ?s"
    by (rule keeps_trans [OF k1 keeps_sum_chunk [OF fd]]) (use less.prems cfg(1) in simp_all)
  have fs: "filling b c (i + 1) ?s" and cs: "dev_config ?s = dev_config d"
    using filling_sum_chunk [OF fd less.prems(2)] less.prems(3) cfg(1) by simp_all
  have cfg2: "cpb ?s = cpb dev" "chunks_per_summary ?s = chunks_per_summary dev"
    using dev_configD [OF cs] cfg by simp_all
  show ?case
  proof (cases "r = YAFFS_OK")
    case False
    then show ?thesis using w k1 by (subst summary_write_loop.simps) (simp add: Let_def)
  next
    case True
    show ?thesis
    proof (cases "k < todo")
      case False
      then show ?thesis using w k2 True
        by (subst summary_write_loop.simps) (simp add: Let_def min_def sum_chunk_def)
    next
      case less_todo: True
      have rest: "int (todo - k) \<le> (cpb dev - (i + 1)) * int k"
        using less_todo less.prems(6) by (simp add: algebra_simps)
      moreover have "i + 1 < cpb dev"
      proof (rule ccontr)
        assume "\<not> i + 1 < cpb dev"
        then have "(cpb dev - (i + 1)) * int k = 0" using less.prems by simp
        with rest less_todo show False by simp
      qed
      moreover have "flash_ok ?s" using less.prems(7) flash_ok_config [OF keeps_config [OF k2]] by simp
      ultimately have "keeps X ?s (snd (summary_write_loop ?wr b hdr k sb' (todo - k) bf' t'
          (b * cpb dev + i + 1) (i + 1) ?s))" for sb' bf' t'
        using less.IH [OF _ fs, of "todo - k"] less_todo less.prems cfg2 by (simp add: add.assoc)
      then have "keeps X dev (snd (summary_write_loop ?wr b hdr k sb' (todo - k) bf' t'
          (b * cpb dev + i + 1) (i + 1) ?s))" for sb' bf' t'
        by (rule keeps_trans [OF k2])
      then show ?thesis
        using w True less_todo less.prems(5)
        by (subst summary_write_loop.simps) (simp add: Let_def sum_chunk_def)
    qed
  qed
qed

lemma keeps_summary_write:
  assumes f: "filling b c (c + 1) d" and lc: "c + 1 = chunks_per_summary d" and lt: "0 \<le> c" "c + 1 < cpb d"
    and fits: "summary_fits d" and ok: "flash_ok d"
  shows "keeps X d (snd (yaffs_summary_write (wr_chunk_tags_nand_upto n) d b))"
proof -
  have al: "alloc_block d = b" using f by (simp add: filling_def)
  obtain res e where L: "summary_write_loop (wr_chunk_tags_nand_upto n) b
      (hdr_bytes (host_le d) \<lparr>hdr_version = YAFFS_SUMMARY_VERSION, hdr_block = word_of_int b,
         hdr_seq = bi_seq_number (yaffs_get_block_info d b), hdr_sum = yaffs_summary_sum d\<rparr>)
      (data_bytes_per_chunk d - 16) (sum_buffer_of d) (12 * nat (chunks_per_summary d)) (temp_fill d)
      (zero_tags\<lparr>obj_id := YAFFS_OBJECTID_SUMMARY, chunk_id := 1\<rparr>)
      (b * cpb d + chunks_per_summary d) (chunks_per_summary d) d = (res, e)"
    by fastforce
  have "keeps X d (snd (res, e))"
    unfolding L [symmetric]
    by (rule keeps_write_loop [OF f [unfolded lc]])
      (use lt lc fits ok in \<open>auto simp: summary_fits_def of_nat_diff\<close>)
  then have k: "keeps X d e" by simp
  have "snd (yaffs_summary_write (wr_chunk_tags_nand_upto n) d b) =
      (if res = YAFFS_OK then upd_block_info e b (\<lambda>bi. bi\<lparr>has_summary := True\<rparr>) else e)"
    using L unfolding yaffs_summary_write_def Let_def al by simp
  then show ?thesis using k keeps_trans [OF k keeps_upd_block(1)] by simp
qed

lemma keeps_summary_add:
  assumes ja: "just_allocated b c d" and c: "0 \<le> c" "c < cpb d" and fits: "summary_fits d" and ok: "flash_ok d"
  shows "keeps X d (yaffs_summary_add (wr_chunk_tags_nand_upto n) d t (b * cpb d + c))"
proof (cases "sum_tags d")
  case (Some ts)
  have md: "(b * cpb d + c) mod cpb d = c" "(b * cpb d + c) div cpb d = b" using c by simp_all
  show ?thesis
  proof (cases "c < chunks_per_summary d")
    case True
    obtain ts' where e: "yaffs_summary_add (wr_chunk_tags_nand_upto n) d t (b * cpb d + c) =
        (if c = chunks_per_summary d - 1
         then yaffs_skip_rest_of_block (yaffs_summary_clear
           (snd (yaffs_summary_write (wr_chunk_tags_nand_upto n) (d\<lparr>sum_tags := ts'\<rparr>) b)))
         else d\<lparr>sum_tags := ts'\<rparr>)"
      using True Some md c by (auto simp: yaffs_summary_add_def Let_def)
    let ?d = "d\<lparr>sum_tags := ts'\<rparr>"
    have u: "unseen d ?d" by (simp add: unseen_def)
    have k: "keeps X d ?d" by (rule keeps_unseen [OF u]) simp
    show ?thesis
    proof (cases "c = chunks_per_summary d - 1")
      case last: True
      have cf: "cpb ?d = cpb d" "chunks_per_summary ?d = chunks_per_summary d" by simp_all
      have lt: "c + 1 < cpb ?d" using fits last by (simp add: summary_fits_def)
      have fitsd: "summary_fits ?d" using fits by (simp add: summary_fits_def)
      have okd: "flash_ok ?d" using ok flash_ok_config [OF keeps_config [OF k]] by simp
      have lc: "c + 1 = chunks_per_summary ?d" using last by simp
      have "keeps X ?d (snd (yaffs_summary_write (wr_chunk_tags_nand_upto n) ?d b))"
        by (rule keeps_summary_write [OF just_allocated_filling(1) [OF just_allocated_unseen [OF u ja] lt]
              lc c(1) lt fitsd okd])
      then have "keeps X d (snd (yaffs_summary_write (wr_chunk_tags_nand_upto n) ?d b))" by (rule keeps_trans [OF k])
      then have "keeps X d (yaffs_summary_clear (snd (yaffs_summary_write (wr_chunk_tags_nand_upto n) ?d b)))"
        by (rule keeps_trans) (rule keeps_same; simp add: yaffs_summary_clear_def split: option.split)
      then show ?thesis using e last keeps_trans [OF _ keeps_skip_rest] by simp
    qed (use e k in simp)
  qed (use Some md in \<open>simp add: yaffs_summary_add_def Let_def\<close>)
qed (simp add: yaffs_summary_add_def Let_def)

text \<open>A write is the plain write of the chunk followed by what its summary needs.\<close>

lemma wr_split:
  assumes "wr_chunk_tags_nand_upto 0 dev ch buffer tags = (r, t, d)"
  shows "yaffs_wr_chunk_tags_nand dev ch buffer tags = (r, t, yaffs_summary_add (wr_chunk_tags_nand_upto 1) d t ch)"
  using assms unfolding yaffs_wr_chunk_tags_nand_def numeral_2_eq_2 One_nat_def
  by (auto simp: wr_chunk_tags_nand_upto.simps [of 0] wr_chunk_tags_nand_upto.simps [of "Suc (Suc 0)"]
      Let_def split: prod.splits)

text \<open>What a chunk must read after data and tags were written to it.\<close>

definition stored :: "('n, 'x) yaffs_dev_scheme \<Rightarrow> int \<Rightarrow> int \<Rightarrow> u8 list \<Rightarrow> yaffs_ext_tags \<Rightarrow> bool" where
  "stored dev b c data tags = (case chunk_read dev b c of (r, data', tags') \<Rightarrow>
     r \<noteq> YAFFS_FAIL \<and> take (data_bytes_per_chunk dev) data' = take (data_bytes_per_chunk dev) data \<and>
     obj_id tags' = obj_id tags \<and> chunk_id tags' = chunk_id tags \<and> n_bytes tags' = n_bytes tags)"

lemma stored_keeps:
  assumes "keeps X dev d" "c \<in> chunks_in_use dev b" "(b, c) \<notin> X" "stored dev b c data tags"
  shows "stored d b c data tags"
proof -
  have "chunk_read d b c = chunk_read dev b c" using assms(1-3) by (simp add: keeps_def)
  then show ?thesis
    using assms(4) dev_configD(8) [OF keeps_config [OF assms(1)]] by (simp add: stored_def)
qed

lemma keeps_wr:
  assumes ja: "just_allocated b c dev" and c: "0 \<le> c" "c < cpb dev" and fits: "summary_fits dev" and ok: "flash_ok dev"
    and wr: "yaffs_wr_chunk_tags_nand dev (b * cpb dev + c) (Some data) tags = (r, t, d)"
  shows "keeps {(b, c)} dev d" "r = YAFFS_OK \<Longrightarrow> storable dev data t \<Longrightarrow> stored d b c data t"
    "obj_id t = obj_id tags \<and> chunk_id t = chunk_id tags \<and> n_bytes t = n_bytes tags"
proof -
  let ?ch = "b * cpb dev + c"
  obtain r' t' d0 where w0: "wr_chunk_tags_nand_upto 0 dev ?ch (Some data) tags = (r', t', d0)" by (metis prod_cases3)
  note p = keeps_wr_plain [OF ok refl c w0]
  have eq: "r' = r" "t' = t" "d = yaffs_summary_add (wr_chunk_tags_nand_upto 1) d0 t ?ch"
    using wr_split [OF w0] wr by simp_all
  have cd: "dev_config d0 = dev_config dev" by (rule keeps_config [OF p(1)])
  note cfg = dev_configD [OF cd]
  have ja0: "just_allocated b c d0" by (rule just_allocated_unseen [OF p(2) ja])
  have k: "keeps X d0 d" for X
    using keeps_summary_add [OF ja0, of X 1 t] c fits ok summary_fits_config [OF cd] flash_ok_config [OF cd] cfg(1) eq(3)
    by simp
  show "keeps {(b, c)} dev d" by (rule keeps_trans [OF p(1) k])
  show "obj_id t = obj_id tags \<and> chunk_id t = chunk_id tags \<and> n_bytes t = n_bytes tags" using p(3) eq by simp
  assume r: "r = YAFFS_OK" and st: "storable dev data t"
  have "write_chunk_tags_fn (tagger dev) (nand dev) (?ch - chunk_offset dev) (Some data) t = (YAFFS_OK, nand d0)"
    using p(4) r eq by simp
  then have "stored d0 b c data t"
    using st cfg flash_read_config [OF cd] by (fastforce simp: storable_def stores_ok_def stored_def chunk_read_def)
  moreover have "c \<in> chunks_in_use d0 b" using ja0 by (simp add: just_allocated_def fresh_def)
  ultimately show "stored d b c data t" using stored_keeps [OF k [of "{}"]] by simp
qed

section \<open>Writing a new chunk\<close>

lemma storable_config: "dev_config d = dev_config dev \<Longrightarrow> storable d data t = storable dev data t"
  using dev_configD(1,2,8) [of d dev] flash_read_config [of d dev] by (simp add: storable_def stores_ok_def)

lemma stored_same:
  "obj_id t = obj_id tags \<and> chunk_id t = chunk_id tags \<and> n_bytes t = n_bytes tags \<Longrightarrow>
     stored d b c data t = stored d b c data tags"
  by (simp add: stored_def)

lemma keeps_delete_skip:
  assumes f: "fresh b c dev" and ok: "flash_ok dev" and ch: "ch = b * cpb dev + c"
  shows "keeps {(b, c)} dev (yaffs_skip_rest_of_block (yaffs_chunk_del dev ch m))"
proof -
  have inv: "inv_except {} 0 dev" and b: "b \<in> blocks_of dev" and c: "c \<in> chunks_in_use dev b"
    using f by (simp_all add: fresh_def)
  note cb = in_use_bounds(1,2) [OF c] and bp = inv_block(6) [OF inv b]
  have md: "ch div cpb dev = b" "ch mod cpb dev = c" using cb ch by simp_all
  have pos: "0 < ch" using cb bp ch by (simp add: add_pos_nonneg)
  have "keeps {(ch div cpb dev, ch mod cpb dev)} dev (yaffs_chunk_del dev ch m)"
    by (rule keeps_chunk_del [OF inv pos ok]; unfold md) (use f in \<open>simp_all add: fresh_def\<close>)
  then show ?thesis unfolding md by (rule keeps_trans [OF _ keeps_skip_rest])
qed

lemma keeps_checked:
  assumes "flash_ok dev" "yaffs_check_chunk_erased dev ch = (r, d)" shows "keeps X dev d"
  using assms keeps_rd [OF assms(1)] by (auto simp: yaffs_check_chunk_erased_def Let_def split: prod.splits)

lemma keeps_verified:
  assumes "flash_ok dev" "yaffs_verify_chunk_written dev ch data t = (r, d)" shows "keeps X dev d"
  using assms keeps_rd [OF assms(1)] by (auto simp: yaffs_verify_chunk_written_def Let_def split: prod.splits)

lemma data_bytes_chunk_error [simp]: "data_bytes_per_chunk (yaffs_handle_chunk_error dev b) = data_bytes_per_chunk dev"
  by (rule dev_configD(8)) simp

lemma verified_stored:
  assumes "yaffs_verify_chunk_written dev ch data tags = (r, d)" "ch = b * cpb dev + c" "r = YAFFS_OK"
  shows "stored dev b c data tags"
  using assms by (auto simp: yaffs_verify_chunk_written_def yaffs_rd_chunk_tags_nand_def stored_def chunk_read_def
      flash_read_def upd_stats_def Let_def split: prod.splits if_splits)

text \<open>The handling of a failed write, from the chunk's write on.\<close>

lemma keeps_wr_error:
  assumes f: "fresh b c dev" and ok: "flash_ok dev" and ch: "ch = b * cpb dev + c" and c: "0 \<le> c" "c < cpb dev"
  shows "keeps {(b, c)} dev (yaffs_handle_chunk_wr_error dev ch e)"
proof -
  let ?d6 = "yaffs_handle_chunk_error dev (ch div cpb dev)"
  let ?d7 = "if e then upd_block_info ?d6 (ch div cpb dev) (\<lambda>bi. bi\<lparr>needs_retiring := True\<rparr>) else ?d6"
  have "unseen dev ?d6" by (simp add: unseen_def)
  moreover have "unseen ?d6 ?d7" by (auto intro: unseen_upd_block simp: view3_def)
  ultimately have u7: "unseen dev ?d7" by (rule unseen_trans)
  have k7: "keeps {(b, c)} dev ?d7" by (rule keeps_unseen [OF u7]) simp
  have "keeps {(b, c)} ?d7 (yaffs_skip_rest_of_block (yaffs_chunk_del ?d7 ch True))"
    by (rule keeps_delete_skip [OF fresh_unseen [OF u7 f]])
      (use ok ch flash_ok_config [OF keeps_config [OF k7]] dev_configD(1) [OF keeps_config [OF k7]] in simp_all)
  then show ?thesis using keeps_trans [OF k7] by (simp add: yaffs_handle_chunk_wr_error_def Let_def)
qed

lemma keeps_attempt:
  assumes inv: "inv_except {} 0 dev" and fits: "summary_fits dev" and ok: "flash_ok dev"
    and att: "write_new_chunk_attempt dev data tags ur write_ok = (chunk, outcome, tags', d)"
  shows "keeps {} dev d \<and> obj_id tags' = obj_id tags \<and> chunk_id tags' = chunk_id tags \<and> n_bytes tags' = n_bytes tags \<and>
    (outcome = Some YAFFS_OK \<and> write_ok \<noteq> YAFFS_OK \<and> storable dev data tags' \<longrightarrow>
       stored d (chunk div cpb dev) (chunk mod cpb dev) data tags)"
proof -
  obtain ch d1 where al: "yaffs_alloc_chunk dev ur = (ch, d1)" by fastforce
  note ae = alloc_chunk_effect [OF inv al]
  have k1: "keeps {} dev d1" by (rule keeps_alloc_chunk [OF inv al])
  show ?thesis
  proof (cases "ch < 0")
    case True
    then show ?thesis using att al k1 by (auto simp: write_new_chunk_attempt_def)
  next
    case False
    then obtain b c where bc: "ch = b * cpb dev + c" "0 < b" "0 \<le> c" "c < cpb dev" "c \<notin> chunks_in_use dev b"
      and ja: "just_allocated b c d1" using ae by auto
    let ?d2 = "if always_check_erased (param d1)
      then upd_block_info d1 b (\<lambda>bi. bi\<lparr>skip_erased_check := False\<rparr>) else d1"
    have dv: "ch div cpb d1 = b" "ch div cpb dev = b" "ch mod cpb dev = c"
      using bc dev_configD(1) [OF keeps_config [OF k1]] by simp_all
    have u2: "unseen d1 ?d2" by (auto intro: unseen_upd_block simp: view3_def)
    let ?check = "\<not> skip_erased_check (yaffs_get_block_info ?d2 b)"
    obtain eo d3 where e3: "(if ?check then yaffs_check_chunk_erased ?d2 ch else (0, ?d2)) = (eo, d3)"
      by fastforce
    have u13: "unseen d1 d3"
      using e3 unseen_ops(5) [of ?d2 ch] unseen_trans [OF u2] u2 by (cases ?check) auto
    note okd = flash_ok_config [OF keeps_config, THEN iffD2, OF _ ok]
    have k2: "keeps {} dev ?d2" by (rule keeps_trans [OF k1 keeps_unseen [OF u2]]) simp
    have k3: "keeps {} dev d3"
      using keeps_trans [OF k2 keeps_checked [OF okd [OF k2]]] k2 e3 by (cases ?check) auto
    have ja3: "just_allocated b c d3" by (rule just_allocated_unseen [OF u13 ja])
    note cf3 = dev_configD [OF keeps_config [OF k3]]
    have ch3: "ch = b * cpb d3 + c" "0 \<le> c" "c < cpb d3" using bc cf3 by simp_all
    have drop: "keeps {} dev d" if "keeps {(b, c)} d3 d" for d
    proof -
      have "keeps {(b, c)} dev d" by (rule keeps_trans [OF keeps_mono [OF k3] that]) simp
      then show ?thesis by (rule keeps_unused) (use bc(5) in auto)
    qed
    show ?thesis
    proof (cases "?check \<and> eo \<noteq> YAFFS_OK")
      case True
      have "(chunk, outcome, tags', d) = (ch, Some write_ok, tags, yaffs_skip_rest_of_block (yaffs_chunk_del d3 ch True))"
        unfolding att [symmetric]
        by (rule attempt_not_erased [OF al False, unfolded dv, OF refl refl e3 True])
      moreover have "keeps {} dev (yaffs_skip_rest_of_block (yaffs_chunk_del d3 ch True))"
        by (rule drop [OF keeps_delete_skip [OF _ okd [OF k3] ch3(1)]]) (use ja3 in \<open>simp add: just_allocated_def\<close>)
      ultimately show ?thesis by auto
    next
      case no_del: False
      obtain wo tg d4 where w4: "yaffs_wr_chunk_tags_nand d3 ch (Some data) tags = (wo, tg, d4)" by (metis prod_cases3)
      have fits3: "summary_fits d3" using fits summary_fits_config [OF keeps_config [OF k3]] by simp
      have f4: "fresh b c d4" using fresh_wr [OF ja3 fits3 ch3(3), of "Some data" tags] w4 ch3 by simp
      note wr = keeps_wr [OF ja3 ch3(2,3) fits3 okd [OF k3] w4 [unfolded ch3(1)]]
      have c4: "dev_config d4 = dev_config d3" by (rule keeps_config [OF wr(1)])
      have ok4: "flash_ok d4" using okd [OF k3] flash_ok_config [OF c4] by simp
      obtain vo d5 where v5: "(if \<not> skip_erased_check (yaffs_get_block_info d4 b)
          then yaffs_verify_chunk_written d4 ch data tg else (wo, d4)) = (vo, d5)" by fastforce
      have k5: "keeps X d4 d5" for X
        using v5 keeps_verified [OF ok4] by (cases "skip_erased_check (yaffs_get_block_info d4 b)") auto
      have u5: "unseen d4 d5"
        using v5 unseen_ops(6) [of d4 ch data tg] by (cases "skip_erased_check (yaffs_get_block_info d4 b)") auto
      have f5: "fresh b c d5" by (rule fresh_unseen [OF u5 f4])
      have k35: "keeps {(b, c)} d3 d5" by (rule keeps_trans [OF wr(1) k5])
      have res: "(chunk, outcome, tags', d) = (if vo \<noteq> YAFFS_OK
          then (ch, Some vo, tg, yaffs_handle_chunk_wr_error d5 ch (eo \<noteq> 0))
          else (ch, Some vo, tg, upd_block_info d5 b (\<lambda>bi. bi\<lparr>skip_erased_check := True\<rparr>)))"
        unfolding att [symmetric]
        by (rule attempt_written [OF al False, unfolded dv(1), OF refl refl e3 no_del w4 v5])
      show ?thesis
      proof (cases "vo = YAFFS_OK")
        case True
        let ?d6 = "upd_block_info d5 b (\<lambda>bi. bi\<lparr>skip_erased_check := True\<rparr>)"
        have k36: "keeps {(b, c)} d3 ?d6" by (rule keeps_trans [OF k35]) simp
        have c5: "c \<in> chunks_in_use d5 b" using f5 by (simp add: fresh_def)
        have "stored d5 b c data tg" if st: "storable dev data tg"
        proof (cases "skip_erased_check (yaffs_get_block_info d4 b)")
          case True
          then have "wo = YAFFS_OK" "d5 = d4" using v5 \<open>vo = YAFFS_OK\<close> by simp_all
          then show ?thesis using wr(2) st storable_config [OF keeps_config [OF k3]] by simp
        next
          case False
          have "c \<in> chunks_in_use d4 b" using f4 by (simp add: fresh_def)
          moreover have "stored d4 b c data tg"
            by (rule verified_stored [OF _ _ True]) (use v5 False ch3 dev_configD(1) [OF c4] in simp_all)
          ultimately show ?thesis using stored_keeps [OF k5 [of "{}"]] by simp
        qed
        then have "stored ?d6 b c data tags" if "storable dev data tg"
          using stored_keeps [OF keeps_upd_block(1) c5] that stored_same [OF wr(3)] by blast
        then show ?thesis using res True drop [OF k36] wr(3) dv by simp
      next
        case bad: False
        have ok5: "flash_ok d5" using ok4 flash_ok_config [OF keeps_config [OF k5]] by blast
        have "keeps {(b, c)} d3 (yaffs_handle_chunk_wr_error d5 ch (eo \<noteq> 0))"
          by (rule keeps_trans [OF k35 keeps_wr_error [OF f5 ok5]])
            (use ch3 dev_configD(1) [OF keeps_config [OF k35]] in simp_all)
        then show ?thesis using res bad drop wr(3) by simp
      qed
    qed
  qed
qed

lemma keeps_loop:
  assumes "write_new_chunk_loop fuel wa data ur attempts YAFFS_FAIL tags dev = Some (chunk, ok, n, tags', d)"
    and "inv_except {} 0 dev" "summary_fits dev" "result_codes dev" "flash_ok dev"
  shows "keeps {} dev d \<and> (ok = YAFFS_OK \<and> storable dev data tags' \<longrightarrow>
    stored d (chunk div cpb dev) (chunk mod cpb dev) data tags)"
  using assms
proof (induction fuel arbitrary: attempts tags dev)
  case (Suc fuel)
  obtain ch out tg d1 where att: "write_new_chunk_attempt dev data tags ur YAFFS_FAIL = (ch, out, tg, d1)"
    by (metis prod_cases4)
  note ae = attempt_effect [OF Suc.prems(2-4) insertI2 [OF insertI1] att]
  note ka = keeps_attempt [OF Suc.prems(2,3,5) att]
  have k1: "keeps {} dev d1" and c1: "dev_config d1 = dev_config dev" using ka ae by simp_all
  show ?case
  proof (cases out)
    case None
    then show ?thesis using Suc.prems(1) att k1 by auto
  next
    case (Some r)
    show ?thesis
    proof (cases "r \<noteq> YAFFS_OK \<and> (wa = 0 \<or> attempts + 1 \<le> wa)")
      case True
      then have r: "r = YAFFS_FAIL" using ae Some by simp
      with Suc.prems(1) att Some True
      have "write_new_chunk_loop fuel wa data ur (attempts + 1) YAFFS_FAIL tg d1 = Some (chunk, ok, n, tags', d)"
        by simp
      from Suc.IH [OF this] have "keeps {} d1 d \<and> (ok = YAFFS_OK \<and> storable d1 data tags' \<longrightarrow>
          stored d (chunk div cpb d1) (chunk mod cpb d1) data tg)"
        using ae summary_fits_config [OF c1] result_codes_config [OF c1] flash_ok_config [OF c1] Suc.prems by simp
      then show ?thesis
        using keeps_trans [OF k1] dev_configD(1) [OF c1] storable_config [OF c1] stored_same [of tg tags d] ka by simp
    next
      case False
      then show ?thesis using Suc.prems(1) att Some k1 ka by auto
    qed
  qed
qed simp

lemma write_new_chunk_keeps:
  assumes "alloc_inv dev" "summary_fits dev" "result_codes dev" "flash_ok dev"
    and "yaffs_write_new_chunk fuel wa dev data tags ur = Some (chunk, tags', d)"
  shows "keeps {} dev d \<and> (0 \<le> chunk \<and> storable dev data tags' \<longrightarrow>
    stored d (chunk div cpb dev) (chunk mod cpb dev) data tags)"
proof -
  let ?d0 = "yaffs2_checkpt_invalidate dev"
  have c0: "dev_config ?d0 = dev_config dev" by simp
  have i: "inv_except {} 0 dev" using assms(1) by (simp add: alloc_inv_def)
  have k0: "keeps {} dev ?d0" by (rule keeps_invalidate [OF i assms(4)])
  obtain ch ok n tg d1
    where loop: "write_new_chunk_loop fuel wa data ur 0 0 tags ?d0 = Some (ch, ok, n, tg, d1)"
    and res: "chunk = (if ok = 0 then -1 else ch)" "tags' = tg" "d = (if n > 1 then
      upd_stats d1 (\<lambda>s. s\<lparr>n_retried_writes := n_retried_writes s + word_of_nat (n - 1)\<rparr>) else d1)"
    using assms(5) by (auto simp: yaffs_write_new_chunk_def Let_def split: option.splits)
  note hyps = inv_checkpt_invalidate [OF i] summary_fits_config [OF c0, THEN iffD2, OF assms(2)]
    result_codes_config [OF c0, THEN iffD2, OF assms(3)] flash_ok_config [OF c0, THEN iffD2, OF assms(4)]
  note kl = keeps_loop [OF loop hyps]
  note le = write_new_chunk_loop_inv [OF loop hyps(1-3)]
  have kd: "keeps {} d1 d" using res(3) by simp
  have k: "keeps {} dev d" by (rule keeps_trans [OF keeps_trans [OF k0 conjunct1 [OF kl]] kd])
  have "stored d (chunk div cpb dev) (chunk mod cpb dev) data tags" if "0 \<le> chunk" "storable dev data tags'"
  proof -
    have eq: "chunk = ch" "ok = YAFFS_OK" "written_chunk ch d1" using that(1) res(1) le by (auto split: if_splits)
    have "stored d1 (ch div cpb dev) (ch mod cpb dev) data tags"
      using kl eq(2) res(2) that(2) storable_config [OF c0] dev_configD(1) [OF c0] by simp
    moreover have "ch mod cpb dev \<in> chunks_in_use d1 (ch div cpb dev)"
      using eq(3) dev_configD(1) [OF keeps_config [OF keeps_trans [OF k0 conjunct1 [OF kl]]]]
      by (simp add: written_chunk_def)
    ultimately show ?thesis using stored_keeps [OF kd] eq(1) by simp
  qed
  then show ?thesis using k by blast
qed

section \<open>Properties\<close>

text \<open>Sequences of steps of the allocation layer, with the set of the chunks they release.\<close>

inductive quiet_step :: "('n, 'x) yaffs_dev_scheme \<Rightarrow> ('n, 'x) yaffs_dev_scheme \<Rightarrow> bool" where
  quiet_allocate: "yaffs_alloc_chunk dev use_reserver = (chunk, d) \<Longrightarrow> quiet_step dev d"
| quiet_write: "yaffs_write_new_chunk fuel wr_attempts dev data tags use_reserver = Some (chunk, tags', d) \<Longrightarrow>
    quiet_step dev d"
| quiet_skip_rest: "quiet_step dev (yaffs_skip_rest_of_block dev)"
| quiet_drop_checkpt: "quiet_step dev (yaffs2_checkpt_invalidate dev)"
| quiet_read: "yaffs_rd_chunk_tags_nand dev chunk want = (result, buffer, tags, d) \<Longrightarrow> quiet_step dev d"

inductive live_steps :: "('n, 'x) yaffs_dev_scheme \<Rightarrow> (int \<times> int) set \<Rightarrow> ('n, 'x) yaffs_dev_scheme \<Rightarrow> bool"
  for dev where
  live_start: "live_steps dev {} dev"
| live_quiet: "live_steps dev R d \<Longrightarrow> quiet_step d d' \<Longrightarrow> live_steps dev R d'"
| live_release: "live_steps dev R d \<Longrightarrow> written_chunk chunk d \<Longrightarrow>
    live_steps dev (insert (chunk div cpb d, chunk mod cpb d) R) (yaffs_chunk_del d chunk mark_flash)"

definition live_ready :: "('n, 'x) yaffs_dev_scheme \<Rightarrow> bool" where
  "live_ready dev \<longleftrightarrow> alloc_ready dev \<and> flash_ok dev"

lemma quiet_alloc_step: "quiet_step dev d \<Longrightarrow> alloc_step dev d"
  by (induction rule: quiet_step.induct) (auto intro: alloc_step.intros)

lemma keeps_quiet:
  assumes "quiet_step dev d" "live_ready dev" shows "keeps {} dev d \<and> live_ready d"
proof -
  have r: "alloc_ready dev" and ok: "flash_ok dev" using assms(2) by (simp_all add: live_ready_def)
  have "keeps {} dev d"
    using assms(1)
  proof cases
    case (quiet_allocate ur chunk)
    then show ?thesis by (rule keeps_alloc_chunk [OF alloc_ready_inv [OF r]])
  next
    case (quiet_write fuel wa data tags ur chunk tags')
    then show ?thesis using write_new_chunk_keeps [of dev] r ok by (simp add: alloc_ready_def)
  next
    case quiet_drop_checkpt
    then show ?thesis using keeps_invalidate [OF alloc_ready_inv [OF r] ok] by simp
  next
    case (quiet_read chunk want result buffer tags)
    then show ?thesis by (rule keeps_rd [OF ok])
  qed (simp add: keeps_skip_rest)
  then show ?thesis
    using alloc_step_ready [OF quiet_alloc_step [OF assms(1)] r] ok flash_ok_config [OF keeps_config]
    by (auto simp: live_ready_def)
qed

lemma keeps_release_step:
  assumes w: "written_chunk chunk dev" and r: "live_ready dev"
  shows "keeps {(chunk div cpb dev, chunk mod cpb dev)} dev (yaffs_chunk_del dev chunk m) \<and>
    live_ready (yaffs_chunk_del dev chunk m)"
proof -
  have a: "alloc_ready dev" and ok: "flash_ok dev" using r by (simp_all add: live_ready_def)
  have k: "keeps {(chunk div cpb dev, chunk mod cpb dev)} dev (yaffs_chunk_del dev chunk m)"
    by (rule keeps_chunk_del [OF alloc_ready_inv [OF a] _ ok]) (use w in \<open>simp_all add: written_chunk_def\<close>)
  then show ?thesis
    using alloc_step_ready [OF alloc_step.release [OF w] a] ok flash_ok_config [OF keeps_config [OF k]]
    by (simp add: live_ready_def)
qed

lemma keeps_live_steps:
  assumes "live_steps dev R d" "live_ready dev" shows "keeps R dev d \<and> live_ready d"
  using assms
proof (induction rule: live_steps.induct)
  case (live_quiet R d d')
  have d: "keeps R dev d" "live_ready d" using live_quiet by simp_all
  have "keeps {} d d' \<and> live_ready d'" by (rule keeps_quiet [OF live_quiet.hyps(2) d(2)])
  then show ?case using keeps_trans [OF d(1) keeps_mono] by blast
next
  case (live_release R d chunk m)
  have d: "keeps R dev d" "live_ready d" using live_release by simp_all
  note s = keeps_release_step [OF live_release.hyps(2) d(2), of m]
  let ?R = "insert (chunk div cpb d, chunk mod cpb d) R"
  have "keeps ?R dev d" by (rule keeps_mono [OF d(1)]) blast
  moreover have "keeps ?R d (yaffs_chunk_del d chunk m)" by (rule keeps_mono [OF conjunct1 [OF s]]) blast
  ultimately show ?case using s keeps_trans by blast
qed simp

text \<open>C4: Live data survives. However the allocation layer goes on - allocating, writing with
  retries after failed writes, writing block summaries, dropping checkpoints, erasing blocks that
  became dirty, retiring bad ones, releasing other chunks - a chunk that is in use and is not
  released itself stays in use and the flash answers a read of it as before.\<close>

theorem live_data_survives:
  assumes "live_steps dev R d" and "live_ready dev" and "c \<in> chunks_in_use dev b" and "(b, c) \<notin> R"
  shows "c \<in> chunks_in_use d b \<and> chunk_read d b c = chunk_read dev b c"
  using keeps_live_steps [OF assms(1,2)] assms(3,4) by (simp add: keeps_def)

text \<open>C3: What was written reads back. When a new chunk was written (in whatever attempt succeeded)
  on a flash that stores the data and the storable tags it acknowledges, then after any further steps that do not release
  the chunk, reading it gives the data and the object, chunk number and byte count of its tags.\<close>

theorem written_data_reads_back:
  assumes "yaffs_write_new_chunk fuel wr_attempts dev data tags use_reserver = Some (chunk, tags', d)"
    and "0 \<le> chunk" and "live_ready dev" and "storable dev data tags'"
    and "live_steps d R d'" and "(chunk div cpb dev, chunk mod cpb dev) \<notin> R"
  shows "stored d' (chunk div cpb dev) (chunk mod cpb dev) data tags"
proof -
  have ready: "alloc_inv dev" "summary_fits dev" "result_codes dev" "flash_ok dev"
    using assms(3) by (simp_all add: live_ready_def alloc_ready_def)
  note k = write_new_chunk_keeps [OF ready assms(1)]
  note e = write_new_chunk_effect [OF ready(1-3) assms(1)]
  have "live_ready d" using keeps_quiet [OF quiet_write [OF assms(1)] assms(3)] by simp
  note k' = keeps_live_steps [OF assms(5) this]
  have use: "chunk mod cpb dev \<in> chunks_in_use d (chunk div cpb dev)"
    using e assms(2) dev_configD(1) [of d dev] by (simp add: written_chunk_def)
  show ?thesis
    by (rule stored_keeps [OF conjunct1 [OF k'] use assms(6)]) (use k assms(2,4) in blast)
qed

section \<open>A flash in memory\<close>

text \<open>A flash of the kind the hypotheses describe: it remembers what every chunk was last written,
  blocks are erased whole, and marking a block bad fails.\<close>

definition ram_tagger :: "(int \<Rightarrow> u8 list \<times> yaffs_ext_tags) yaffs_tags_handler" where
  "ram_tagger = \<lparr>write_chunk_tags_fn = (\<lambda>n c d t. (YAFFS_OK, n(c := (case d of None \<Rightarrow> fst (n c) | Some bs \<Rightarrow> bs, t)))),
     read_chunk_tags_fn = (\<lambda>n c w. (YAFFS_OK, fst (n c), (snd (n c))\<lparr>ecc_result := YAFFS_ECC_RESULT_NO_ERROR\<rparr>, n)),
     query_block_fn = (\<lambda>n b. (YAFFS_OK, YAFFS_BLOCK_STATE_EMPTY, 0, n)),
     mark_bad_fn = (\<lambda>n b. (YAFFS_FAIL, n))\<rparr>"

definition ram_driver :: "(int \<Rightarrow> u8 list \<times> yaffs_ext_tags) yaffs_driver" where
  "ram_driver = \<lparr>drv_write_chunk_fn = (\<lambda>n c d dl b bl. (YAFFS_FAIL, n)),
     drv_read_chunk_fn = (\<lambda>n c wd dl wb bl. (YAFFS_FAIL, [], [], YAFFS_ECC_RESULT_UNKNOWN, n)),
     drv_check_bad_fn = (\<lambda>n b. (YAFFS_OK, n)),
     drv_erase_fn = (\<lambda>n b. (YAFFS_OK, \<lambda>x. if x div 4 = b then (replicate 64 0xff, zero_tags) else n x)),
     drv_mark_bad_fn = (\<lambda>n b. (YAFFS_FAIL, n))\<rparr>"

definition ram_dev :: "(int \<Rightarrow> u8 list \<times> yaffs_ext_tags) yaffs_dev" where
  "ram_dev = empty_dev ram_tagger ram_driver (\<lambda>x. (replicate 64 0xff, zero_tags))"

lemma ram_dev_simps [simp]: "tagger ram_dev = ram_tagger" "drv ram_dev = ram_driver" "cpb ram_dev = 4"
  "chunk_offset ram_dev = 0" "block_offset ram_dev = 0"
  by (simp_all add: ram_dev_def) (simp_all add: empty_fields)

lemma ram_read: "flash_read ram_dev n x = (YAFFS_OK, fst (n x), (snd (n x))\<lparr>ecc_result := YAFFS_ECC_RESULT_NO_ERROR\<rparr>)"
  by (simp add: flash_read_def ram_tagger_def)

lemma ram_dev_ready: "live_ready ram_dev" "stores_ok ram_dev"
proof -
  have "alloc_ready ram_dev"
    using empty_alloc_inv [of ram_tagger ram_driver] empty_fits [of ram_tagger ram_driver]
    by (simp add: alloc_ready_def result_codes_def ram_tagger_def) (simp add: ram_dev_def ram_tagger_def)
  moreover have "flash_ok ram_dev"
    by (simp add: flash_ok_def fun_eq_iff ram_read) (simp add: ram_tagger_def ram_driver_def)
  ultimately show "live_ready ram_dev" by (simp add: live_ready_def)
  show "stores_ok ram_dev"
    by (simp add: stores_ok_def ram_read) (simp add: ram_tagger_def)
qed

text \<open>The first chunk of the device gets its data and reads it back, also after a second one
  was written.\<close>

lemmas find_alloc_4 = find_alloc_loop.simps(2) [where k = 3, unfolded Suc_numeral semiring_norm]

definition ram_alloc :: "(int \<Rightarrow> u8 list \<times> yaffs_ext_tags) yaffs_dev" where
  "ram_alloc = snd (yaffs_alloc_chunk ram_dev True)"

lemma ram_alloc: "yaffs_alloc_chunk ram_dev True = (4, ram_alloc)"
    "skip_erased_check (yaffs_get_block_info ram_alloc 1) = False" "nand ram_alloc = nand ram_dev"
    "sum_tags ram_alloc = Some [zero_sum_tags, zero_sum_tags]" "dev_seq_number ram_alloc = 0x1001"
  by (simp_all add: ram_alloc_def find_alloc_4 yaffs_alloc_chunk_def yaffs_find_alloc_block_def Let_def ram_dev_def empty_fields
      yaffs_get_block_info_def zero_block_info_def upd_block_info_def yaffs_set_chunk_bit_def)

lemma ram_alloc_config [simp]: "tagger ram_alloc = ram_tagger" "param ram_alloc = small_param"
  "chunk_offset ram_alloc = 0" "chunks_per_summary ram_alloc = 2" "data_bytes_per_chunk ram_alloc = 64"
proof -
  have inv: "inv_except {} 0 ram_dev"
    unfolding ram_dev_def using empty_alloc_inv [of ram_tagger ram_driver] by (simp add: alloc_inv_def)
  have "dev_config ram_alloc = dev_config ram_dev"
    using alloc_chunk_effect [OF inv ram_alloc(1)] by blast
  note c = dev_configD [OF this]
  show "tagger ram_alloc = ram_tagger" "param ram_alloc = small_param"
    "chunk_offset ram_alloc = 0" "chunks_per_summary ram_alloc = 2" "data_bytes_per_chunk ram_alloc = 64"
    unfolding c by (simp_all add: ram_dev_def) (simp_all add: empty_fields)
qed

lemma ram_plain: "plain_tags (zero_tags\<lparr>seq_number := 0x1001, chunk_used := 1\<rparr>)"
  by (simp add: plain_tags_def tags_sound_def zero_tags_def)

lemma ram_write:
  "\<exists>t d. yaffs_write_new_chunk 1 1 ram_dev (replicate 64 7) zero_tags True = Some (4, t, d) \<and>
     plain_tags t"
proof -
  have i: "yaffs2_checkpt_invalidate ram_dev = ram_dev"
    by (simp add: yaffs2_checkpt_invalidate_def ram_dev_def empty_fields zero_checkpt_def)
  have n: "nand ram_dev x = (replicate 64 0xff, zero_tags)" for x
    by (simp add: ram_dev_def empty_dev_def) (simp add: zero_dev_def)
  have "\<exists>t d. write_new_chunk_attempt ram_dev (replicate 64 7) zero_tags True 0 = (4, Some YAFFS_OK, t, d) \<and> plain_tags t"
    using ram_alloc(2)
    by (simp add: ram_plain [unfolded zero_tags_def, simplified] ram_alloc(5) yaffs_get_block_info_def write_new_chunk_attempt_def ram_alloc(1,3,4) n yaffs_check_chunk_erased_def yaffs_rd_chunk_tags_nand_def
      small_param_def upd_stats_def ram_tagger_def yaffs_wr_chunk_tags_nand_def Let_def numeral_2_eq_2
      wr_chunk_tags_nand_upto.simps yaffs_summary_add_def yaffs_verify_chunk_written_def yaffs_check_ff_def zero_tags_def)
  then show ?thesis by (auto simp: yaffs_write_new_chunk_def i)
qed

lemma written_data_reads_back_witness:
  "\<exists>t d. yaffs_write_new_chunk 1 1 ram_dev (replicate 64 7) zero_tags True = Some (4, t, d) \<and>
     stored (yaffs_skip_rest_of_block d) 1 0 (replicate 64 7) zero_tags"
proof -
  obtain t d where w: "yaffs_write_new_chunk 1 1 ram_dev (replicate 64 7) zero_tags True = Some (4, t, d)" "plain_tags t"
    using ram_write by blast
  have "param ram_dev = small_param" by (simp add: ram_dev_def empty_fields)
  then have "storable ram_dev (replicate 64 7) t" using ram_dev_ready(2) w(2) by (simp add: storable_def small_param_def)
  from written_data_reads_back [OF w(1) _ ram_dev_ready(1) this live_quiet [OF live_start quiet_skip_rest]] w
  show ?thesis by simp
qed

lemma live_data_survives_witness:
  "\<exists>d. yaffs_alloc_chunk ram_dev True = (4, d) \<and>
     chunk_read (yaffs2_checkpt_invalidate d) 1 0 = chunk_read d 1 0"
proof -
  have "fst (yaffs_alloc_chunk ram_dev True) = 4"
    by (simp add: yaffs_alloc_chunk_def yaffs_find_alloc_block_def Let_def ram_dev_def empty_fields yaffs_get_block_info_def
        eval_nat_numeral zero_block_info_def upd_block_info_def yaffs_set_chunk_bit_def)
  then obtain d where d: "yaffs_alloc_chunk ram_dev True = (4, d)" by (metis prod.collapse)
  have r: "live_ready d" using keeps_quiet [OF quiet_allocate [OF d] ram_dev_ready(1)] by simp
  have "alloc_inv ram_dev" unfolding ram_dev_def by (rule empty_alloc_inv)
  then obtain b c where "4 = b * 4 + c" "0 \<le> c" "c < 4" "c \<in> chunks_in_use d b"
    using alloc_chunk_effect [OF _ d] by (auto simp: alloc_inv_def just_allocated_def fresh_def)
  then have "0 \<in> chunks_in_use d 1" by (cases "c = 0") (auto, presburger)
  from live_data_survives [OF live_quiet [OF live_start quiet_drop_checkpt] r this] d show ?thesis by simp
qed

end
