(* ===== verification/Yaffs_Obj.thy ===== *)
theory Yaffs_Obj
  imports Yaffs_FileProps
begin

text \<open>
  The object table and the directory tree (\<open>yaffs_guts.c\<close>, \<open>yaffs_attribs.c\<close>): objects by address,
  the hash table from object numbers to objects, the lists of children, and the creation, the
  moving and the freeing of objects. An object lives in a slab of the allocator, so its address is
  what \<open>yaffs_alloc_raw_obj\<close> hands out, and a pointer is an address or \<open>None\<close>.

  A linked list is the list of the objects linked in it: \<open>list_add\<close> puts an object at the front, and
  \<open>list_del_init\<close>, which is given the object only, takes it out of whichever list it is in.
  \<open>BUG()\<close> and the \<open>yaffs_verify_dir\<close> checks only print. The callback \<open>remove_obj_fn\<close> tells the
  operating system about a removed entry and is not modelled; \<open>has_inode\<close> says whether the
  operating system holds on to the object.
\<close>

section \<open>The data\<close>

record yaffs_obj_bucket =
  bucket_objs :: "slab_addr list"
  bucket_count :: int

text \<open>An object: \<open>core\<close> are the fields the file operations work on, the others link it up. Only the
  part of the union that belongs to the type is used. A name is the list of its bytes before the NUL.\<close>

record yaffs_node =
  core :: yaffs_obj
  parent :: "slab_addr option"
  children :: "slab_addr list"
  short_name :: "u8 list"
  alias_str :: "u8 list option"
  equiv_obj :: "slab_addr option"
  hard_links :: "slab_addr list"
  has_inode :: bool

text \<open>\<open>current_time\<close> is what the clock shows.\<close>

record 'n yaffs_fs = "'n yaffs_mem_dev" +
  objs :: "slab_addr \<Rightarrow> yaffs_node"
  obj_bucket :: "yaffs_obj_bucket list"
  bucket_finder :: nat
  root_dir :: "slab_addr option"
  lost_n_found :: "slab_addr option"
  unlinked_dir :: "slab_addr option"
  del_dir :: "slab_addr option"
  hide_lost_n_found :: bool
  current_time :: u32

abbreviation YAFFS_NOBJECT_BUCKETS :: nat where "YAFFS_NOBJECT_BUCKETS \<equiv> 256"
abbreviation YAFFS_MAX_FILE_SIZE_32 :: u32 where "YAFFS_MAX_FILE_SIZE_32 \<equiv> 0x7fffffff"
abbreviation YAFFS_MAX_NAME_LENGTH :: nat where "YAFFS_MAX_NAME_LENGTH \<equiv> 255"
abbreviation YAFFS_SHORT_NAME_LENGTH :: nat where "YAFFS_SHORT_NAME_LENGTH \<equiv> 15"
abbreviation YAFFS_MAX_ALIAS_LENGTH :: nat where "YAFFS_MAX_ALIAS_LENGTH \<equiv> 159"
abbreviation YAFFS_ROOT_MODE :: u32 where "YAFFS_ROOT_MODE \<equiv> 0x1b6"

text \<open>An assignment through a pointer to an object.\<close>

definition upd_node :: "('n, 'x) yaffs_fs_scheme \<Rightarrow> slab_addr \<Rightarrow> (yaffs_node \<Rightarrow> yaffs_node) \<Rightarrow> ('n, 'x) yaffs_fs_scheme" where
  "upd_node dev a f = dev\<lparr>objs := (objs dev)(a := f (objs dev a))\<rparr>"

definition upd_core :: "('n, 'x) yaffs_fs_scheme \<Rightarrow> slab_addr \<Rightarrow> (yaffs_obj \<Rightarrow> yaffs_obj) \<Rightarrow> ('n, 'x) yaffs_fs_scheme" where
  "upd_core dev a f = upd_node dev a (\<lambda>nd. nd\<lparr>core := f (core nd)\<rparr>)"

abbreviation obj_at :: "('n, 'x) yaffs_fs_scheme \<Rightarrow> slab_addr \<Rightarrow> yaffs_obj" where
  "obj_at dev a \<equiv> core (objs dev a)"

text \<open>\<open>memset(obj, 0, sizeof(struct yaffs_obj))\<close>.\<close>

definition zero_obj :: yaffs_obj where
  "zero_obj = \<lparr>deleted = False, soft_del = False, unlinked = False, fake = False, rename_allowed = False,
     unlink_allowed = False, obj_dirty = False, obj_valid = False, lazy_loaded = False,
     defered_free = False, being_created = False, is_shadowed = False, xattr_known = False,
     has_xattr = False, serial = 0, name_sum = 0, hdr_chunk = 0, n_data_chunks = 0, obj_number = 0,
     yst_mode = 0, yst_uid = 0, yst_gid = 0, yst_atime = 0, yst_mtime = 0, yst_ctime = 0, yst_rdev = 0,
     variant_type = YAFFS_OBJECT_TYPE_UNKNOWN,
     file_variant = \<lparr>file_size = 0, stored_size = 0, shrink_size = 0, top_level = 0, top = None\<rparr>,
     equiv_id = 0\<rparr>"

definition zero_node :: yaffs_node where
  "zero_node = \<lparr>core = zero_obj, parent = None, children = [], short_name = [], alias_str = None,
     equiv_obj = None, hard_links = [], has_inode = False\<rparr>"

section \<open>Times and names\<close>

definition yaffs_load_current_time :: "('n, 'x) yaffs_fs_scheme \<Rightarrow> bool \<Rightarrow> bool \<Rightarrow> yaffs_obj \<Rightarrow> yaffs_obj" where
  "yaffs_load_current_time dev do_a do_c obj =
     (let obj = obj\<lparr>yst_mtime := current_time dev\<rparr>;
          obj = (if do_a then obj\<lparr>yst_atime := yst_atime obj\<rparr> else obj)
      in if do_c then obj\<lparr>yst_ctime := yst_atime obj\<rparr> else obj)"

definition yaffs_attribs_init :: "('n, 'x) yaffs_fs_scheme \<Rightarrow> u32 \<Rightarrow> u32 \<Rightarrow> u32 \<Rightarrow> yaffs_obj \<Rightarrow> yaffs_obj" where
  "yaffs_attribs_init dev gid uid rdev obj =
     (yaffs_load_current_time dev True True obj)\<lparr>yst_rdev := rdev, yst_uid := uid, yst_gid := gid\<rparr>"

text \<open>The sum wraps at 16 bits; only the first 126 bytes count.\<close>

fun name_sum_loop :: "u8 list \<Rightarrow> nat \<Rightarrow> u16 \<Rightarrow> u16" where
  "name_sum_loop [] i acc = acc"
| "name_sum_loop (c # name) i acc =
     (if i < YAFFS_MAX_NAME_LENGTH div 2
      then name_sum_loop name (i + 1) (acc + ucast (c AND 0x1f) * word_of_nat i) else acc)"

definition yaffs_calc_name_sum :: "u8 list option \<Rightarrow> u16" where
  "yaffs_calc_name_sum name = (case name of None \<Rightarrow> 0 | Some s \<Rightarrow> name_sum_loop s 1 0)"

text \<open>The decimal digits, built from the last one on; zero has none.\<close>

fun decimal_loop :: "nat \<Rightarrow> u8 list \<Rightarrow> u8 list" where
  "decimal_loop v x = (if v = 0 then x else decimal_loop (v div 10) (word_of_nat (48 + v mod 10) # x))"

declare decimal_loop.simps [simp del]

text \<open>\<open>YAFFS_LOSTNFOUND_PREFIX\<close> is "obj", \<open>YAFFS_LOSTNFOUND_NAME\<close> is "lost+found".\<close>

definition yaffs_fix_null_name :: "yaffs_obj \<Rightarrow> u8 list \<Rightarrow> nat \<Rightarrow> u8 list" where
  "yaffs_fix_null_name obj name buffer_size =
     (if name = [] then take (buffer_size - 1) ([111, 98, 106] @ decimal_loop (unat (obj_number obj)) []) else name)"

definition lost_n_found_name :: "u8 list" where
  "lost_n_found_name = [108, 111, 115, 116, 43, 102, 111, 117, 110, 100]"

definition yaffs_set_obj_name :: "('n, 'x) yaffs_fs_scheme \<Rightarrow> slab_addr \<Rightarrow> u8 list option \<Rightarrow> ('n, 'x) yaffs_fs_scheme" where
  "yaffs_set_obj_name dev obj name =
     (let dev = upd_node dev obj (\<lambda>nd. nd\<lparr>short_name := []\<rparr>);
          (dev, name) =
            (case name of
               None \<Rightarrow> (dev, name)
             | Some s \<Rightarrow>
                 if s = [] then
                   (let fixed = yaffs_fix_null_name (obj_at dev obj) [] YAFFS_SHORT_NAME_LENGTH
                    in (upd_node dev obj (\<lambda>nd. nd\<lparr>short_name := fixed\<rparr>), Some fixed))
                 else if length s \<le> YAFFS_SHORT_NAME_LENGTH then
                   (upd_node dev obj (\<lambda>nd. nd\<lparr>short_name := s\<rparr>), name)
                 else (dev, name))
      in upd_core dev obj (\<lambda>ob. ob\<lparr>name_sum := yaffs_calc_name_sum name\<rparr>))"

text \<open>\<open>loff_t\<close> has four bytes.\<close>

definition yaffs_max_file_size :: "('n, 'x) yaffs_dev_scheme \<Rightarrow> loff_t" where
  "yaffs_max_file_size dev = YAFFS_MAX_FILE_SIZE_32"

section \<open>The hash table\<close>

definition yaffs_hash_fn :: "int \<Rightarrow> nat" where
  "yaffs_hash_fn n = (let n = (if n < 0 then - n else n) in nat n mod YAFFS_NOBJECT_BUCKETS)"

abbreviation hash_of :: "u32 \<Rightarrow> nat" where
  "hash_of number \<equiv> yaffs_hash_fn (sint number)"

definition upd_bucket ::
  "('n, 'x) yaffs_fs_scheme \<Rightarrow> nat \<Rightarrow> (yaffs_obj_bucket \<Rightarrow> yaffs_obj_bucket) \<Rightarrow> ('n, 'x) yaffs_fs_scheme" where
  "upd_bucket dev i f = dev\<lparr>obj_bucket := (obj_bucket dev)[i := f (obj_bucket dev ! i)]\<rparr>"

definition yaffs_hash_obj :: "('n, 'x) yaffs_fs_scheme \<Rightarrow> slab_addr \<Rightarrow> ('n, 'x) yaffs_fs_scheme" where
  "yaffs_hash_obj dev obj =
     upd_bucket dev (hash_of (obj_number (obj_at dev obj)))
       (\<lambda>b. b\<lparr>bucket_objs := obj # bucket_objs b, bucket_count := bucket_count b + 1\<rparr>)"

definition yaffs_unhash_obj :: "('n, 'x) yaffs_fs_scheme \<Rightarrow> slab_addr \<Rightarrow> ('n, 'x) yaffs_fs_scheme" where
  "yaffs_unhash_obj dev obj =
     (if list_ex (\<lambda>b. obj \<in> set (bucket_objs b)) (obj_bucket dev) then
        (let dev = dev\<lparr>obj_bucket := map (\<lambda>b. b\<lparr>bucket_objs := remove1 obj (bucket_objs b)\<rparr>) (obj_bucket dev)\<rparr>
         in upd_bucket dev (hash_of (obj_number (obj_at dev obj))) (\<lambda>b. b\<lparr>bucket_count := bucket_count b - 1\<rparr>))
      else dev)"

definition yaffs_find_by_number :: "('n, 'x) yaffs_fs_scheme \<Rightarrow> u32 \<Rightarrow> slab_addr option" where
  "yaffs_find_by_number dev number =
     (case find (\<lambda>a. obj_number (obj_at dev a) = number) (bucket_objs (obj_bucket dev ! hash_of number)) of
        None \<Rightarrow> None
      | Some a \<Rightarrow> if defered_free (obj_at dev a) then None else Some a)"

fun nice_bucket_loop :: "nat \<Rightarrow> int \<Rightarrow> nat \<Rightarrow> ('n, 'x) yaffs_fs_scheme \<Rightarrow> nat \<times> ('n, 'x) yaffs_fs_scheme" where
  "nice_bucket_loop 0 lowest l dev = (l, dev)"
| "nice_bucket_loop (Suc k) lowest l dev =
     (if lowest > 4 then
        (let f = (bucket_finder dev + 1) mod YAFFS_NOBJECT_BUCKETS;
             dev = dev\<lparr>bucket_finder := f\<rparr>
         in if bucket_count (obj_bucket dev ! f) < lowest
            then nice_bucket_loop k (bucket_count (obj_bucket dev ! f)) f dev
            else nice_bucket_loop k lowest l dev)
      else (l, dev))"

definition yaffs_find_nice_bucket :: "('n, 'x) yaffs_fs_scheme \<Rightarrow> nat \<times> ('n, 'x) yaffs_fs_scheme" where
  "yaffs_find_nice_bucket dev = nice_bucket_loop 10 999999 999 dev"

text \<open>The loop that looks for a free number; \<open>None\<close> when it is still looking after \<open>k\<close> turns.\<close>

fun obj_id_loop :: "nat \<Rightarrow> u32 list \<Rightarrow> u32 \<Rightarrow> u32 option" where
  "obj_id_loop 0 taken n = None"
| "obj_id_loop (Suc k) taken n =
     (let n = n + word_of_nat YAFFS_NOBJECT_BUCKETS
      in if n \<in> set taken then obj_id_loop k taken n else Some n)"

definition yaffs_new_obj_id :: "nat \<Rightarrow> ('n, 'x) yaffs_fs_scheme \<Rightarrow> u32 option \<times> ('n, 'x) yaffs_fs_scheme" where
  "yaffs_new_obj_id fuel dev =
     (let (bucket, dev) = yaffs_find_nice_bucket dev
      in (obj_id_loop fuel (map (\<lambda>a. obj_number (obj_at dev a)) (bucket_objs (obj_bucket dev ! bucket)))
            (word_of_nat bucket), dev))"

text \<open>There are \<open>2 ^ 24\<close> numbers in a bucket, so with fewer objects this is enough.\<close>

definition obj_id_fuel :: nat where "obj_id_fuel = 2 ^ 24"

section \<open>Directories\<close>

text \<open>\<open>list_del_init(&obj->siblings)\<close>.\<close>

definition unlink_sibling :: "('n, 'x) yaffs_fs_scheme \<Rightarrow> slab_addr \<Rightarrow> ('n, 'x) yaffs_fs_scheme" where
  "unlink_sibling dev obj = dev\<lparr>objs := (\<lambda>a. (objs dev a)\<lparr>children := remove1 obj (children (objs dev a))\<rparr>)\<rparr>"

definition yaffs_remove_obj_from_dir :: "('n, 'x) yaffs_fs_scheme \<Rightarrow> slab_addr \<Rightarrow> ('n, 'x) yaffs_fs_scheme" where
  "yaffs_remove_obj_from_dir dev obj = upd_node (unlink_sibling dev obj) obj (\<lambda>nd. nd\<lparr>parent := None\<rparr>)"

definition yaffs_add_obj_to_dir ::
  "('n, 'x) yaffs_fs_scheme \<Rightarrow> slab_addr option \<Rightarrow> slab_addr \<Rightarrow> ('n, 'x) yaffs_fs_scheme" where
  "yaffs_add_obj_to_dir dev directory obj =
     (case directory of None \<Rightarrow> dev
      | Some d \<Rightarrow>
          (let dev = yaffs_remove_obj_from_dir dev obj;
               dev = upd_node dev d (\<lambda>nd. nd\<lparr>children := obj # children nd\<rparr>);
               dev = upd_node dev obj (\<lambda>nd. nd\<lparr>parent := Some d\<rparr>)
           in if unlinked_dir dev = Some d \<or> del_dir dev = Some d then
                (let dev = upd_core dev obj (\<lambda>ob. ob\<lparr>unlinked := True\<rparr>);
                     dev = dev\<lparr>n_unlinked_files := n_unlinked_files dev + 1\<rparr>
                 in upd_core dev obj (\<lambda>ob. ob\<lparr>rename_allowed := False\<rparr>))
              else dev))"

definition yaffs_is_non_empty_dir :: "('n, 'x) yaffs_fs_scheme \<Rightarrow> slab_addr \<Rightarrow> bool" where
  "yaffs_is_non_empty_dir dev obj \<longleftrightarrow>
     variant_type (obj_at dev obj) = YAFFS_OBJECT_TYPE_DIRECTORY \<and> children (objs dev obj) \<noteq> []"

text \<open>Each child of \<open>from_dir\<close>, in the order of the list, is moved to \<open>to_dir\<close>.\<close>

definition yaffs_empty_dir_to_dir ::
  "('n, 'x) yaffs_fs_scheme \<Rightarrow> slab_addr \<Rightarrow> slab_addr option \<Rightarrow> ('n, 'x) yaffs_fs_scheme" where
  "yaffs_empty_dir_to_dir dev from_dir to_dir =
     fold (\<lambda>obj dev. yaffs_add_obj_to_dir dev to_dir obj) (children (objs dev from_dir)) dev"

section \<open>Creating and freeing objects\<close>

definition yaffs_alloc_empty_obj :: "('n, 'x) yaffs_fs_scheme \<Rightarrow> slab_addr option \<times> ('n, 'x) yaffs_fs_scheme" where
  "yaffs_alloc_empty_obj dev =
     (let (obj, dev) = yaffs_alloc_raw_obj dev
      in case obj of None \<Rightarrow> (None, dev)
         | Some a \<Rightarrow>
             (let dev = dev\<lparr>n_obj := n_obj dev + 1\<rparr>;
                  dev = upd_node dev a (\<lambda>_. zero_node);
                  dev = upd_core dev a (\<lambda>ob. ob\<lparr>being_created := True\<rparr>);
                  dev = (case root_dir dev of None \<Rightarrow> dev
                         | Some r \<Rightarrow> upd_node (upd_node dev a (\<lambda>nd. nd\<lparr>parent := Some r\<rparr>))
                                       r (\<lambda>nd. nd\<lparr>children := a # children nd\<rparr>));
                  dev = (if lost_n_found dev \<noteq> None then yaffs_add_obj_to_dir dev (lost_n_found dev) a else dev);
                  dev = upd_core dev a (\<lambda>ob. ob\<lparr>being_created := False\<rparr>)
              in (Some a, dev\<lparr>checkpoint_blocks_required := 0\<rparr>)))"

text \<open>The number is a C \<open>int\<close>; a negative one asks for a new number.\<close>

definition yaffs_new_obj ::
  "('n, 'x) yaffs_fs_scheme \<Rightarrow> int \<Rightarrow> u32 \<Rightarrow> slab_addr option \<times> ('n, 'x) yaffs_fs_scheme" where
  "yaffs_new_obj dev number type =
     (let (number, dev) = (if number < 0 then yaffs_new_obj_id obj_id_fuel dev else (Some (word_of_int number), dev))
      in case number of None \<Rightarrow> (None, dev)
         | Some number \<Rightarrow>
             (let (tn, dev) = (if type = YAFFS_OBJECT_TYPE_FILE then yaffs_get_tnode dev else (None, dev))
              in if type = YAFFS_OBJECT_TYPE_FILE \<and> tn = None then (None, dev)
                 else
                  (let (the_obj, dev) = yaffs_alloc_empty_obj dev
                   in case the_obj of
                        None \<Rightarrow> (None, case tn of None \<Rightarrow> dev | Some t \<Rightarrow> yaffs_free_tnode dev t)
                      | Some a \<Rightarrow>
                          (let dev = upd_core dev a (\<lambda>ob. ob\<lparr>fake := False, rename_allowed := True,
                                 unlink_allowed := True, obj_number := number\<rparr>);
                               dev = yaffs_hash_obj dev a;
                               dev = upd_core dev a (\<lambda>ob. ob\<lparr>variant_type := type\<rparr>);
                               dev = upd_core dev a (yaffs_load_current_time dev True True);
                               dev = (if type = YAFFS_OBJECT_TYPE_FILE then
                                        upd_core dev a (\<lambda>ob. ob\<lparr>file_variant := \<lparr>file_size = 0, stored_size = 0,
                                          shrink_size = yaffs_max_file_size dev, top_level = 0,
                                          top = map_option (new_level0 dev) tn\<rparr>\<rparr>)
                                      else if type = YAFFS_OBJECT_TYPE_DIRECTORY then
                                        upd_node dev a (\<lambda>nd. nd\<lparr>children := []\<rparr>)
                                      else dev)
                           in (Some a, dev)))))"

definition yaffs_free_obj :: "('n, 'x) yaffs_fs_scheme \<Rightarrow> slab_addr option \<Rightarrow> ('n, 'x) yaffs_fs_scheme" where
  "yaffs_free_obj dev obj =
     (case obj of None \<Rightarrow> dev
      | Some a \<Rightarrow>
          if has_inode (objs dev a) then upd_core dev a (\<lambda>ob. ob\<lparr>defered_free := True\<rparr>)
          else
           (let dev = yaffs_unhash_obj dev a;
                dev = yaffs_free_raw_obj dev a
            in dev\<lparr>n_obj := n_obj dev - 1, checkpoint_blocks_required := 0\<rparr>))"

definition yaffs_handle_defered_free :: "('n, 'x) yaffs_fs_scheme \<Rightarrow> slab_addr \<Rightarrow> ('n, 'x) yaffs_fs_scheme" where
  "yaffs_handle_defered_free dev obj = (if defered_free (obj_at dev obj) then yaffs_free_obj dev (Some obj) else dev)"

definition yaffs_find_or_create_by_number ::
  "('n, 'x) yaffs_fs_scheme \<Rightarrow> int \<Rightarrow> u32 \<Rightarrow> slab_addr option \<times> ('n, 'x) yaffs_fs_scheme" where
  "yaffs_find_or_create_by_number dev number type =
     (case (if number > 0 then yaffs_find_by_number dev (word_of_int number) else None) of
        None \<Rightarrow> yaffs_new_obj dev number type
      | Some a \<Rightarrow> (Some a, dev))"

text \<open>A shadowed object is created as a file, to be cleaned up after the scan.\<close>

definition yaffs_handle_shadowed_obj :: "('n, 'x) yaffs_fs_scheme \<Rightarrow> int \<Rightarrow> bool \<Rightarrow> ('n, 'x) yaffs_fs_scheme" where
  "yaffs_handle_shadowed_obj dev number backward_scanning =
     (if backward_scanning \<and> yaffs_find_by_number dev (word_of_int number) \<noteq> None then dev
      else
       (let (obj, dev) = yaffs_find_or_create_by_number dev number YAFFS_OBJECT_TYPE_FILE
        in case obj of None \<Rightarrow> dev
           | Some a \<Rightarrow>
               (let dev = upd_core dev a (\<lambda>ob. ob\<lparr>is_shadowed := True\<rparr>);
                    dev = yaffs_add_obj_to_dir dev (unlinked_dir dev) a
                in upd_core dev a (\<lambda>ob. ob\<lparr>file_variant := (file_variant ob)\<lparr>shrink_size := 0\<rparr>, obj_valid := True\<rparr>))))"

section \<open>The initial directories\<close>

definition yaffs_create_fake_dir ::
  "('n, 'x) yaffs_fs_scheme \<Rightarrow> int \<Rightarrow> u32 \<Rightarrow> slab_addr option \<times> ('n, 'x) yaffs_fs_scheme" where
  "yaffs_create_fake_dir dev number mode =
     (let (obj, dev) = yaffs_new_obj dev number YAFFS_OBJECT_TYPE_DIRECTORY
      in case obj of None \<Rightarrow> (None, dev)
         | Some a \<Rightarrow> (Some a, upd_core dev a (\<lambda>ob. ob\<lparr>fake := True, rename_allowed := False,
             unlink_allowed := False, deleted := False, unlinked := False, yst_mode := mode, hdr_chunk := 0\<rparr>)))"

abbreviation S_IFDIR :: u32 where "S_IFDIR \<equiv> 0x4000"
abbreviation YAFFS_LOSTNFOUND_MODE :: u32 where "YAFFS_LOSTNFOUND_MODE \<equiv> 0x1b6"

text \<open>\<open>junk\<close> is what the memory of the new allocator holds.\<close>

definition yaffs_init_tnodes_and_objs :: "yaffs_allocator \<Rightarrow> ('n, 'x) yaffs_fs_scheme \<Rightarrow> ('n, 'x) yaffs_fs_scheme" where
  "yaffs_init_tnodes_and_objs junk dev =
     (let dev = dev\<lparr>n_obj := 0, n_tnodes := 0\<rparr>;
          dev = yaffs_init_raw_tnodes_and_objs junk dev
      in dev\<lparr>obj_bucket := replicate YAFFS_NOBJECT_BUCKETS \<lparr>bucket_objs = [], bucket_count = 0\<rparr>\<rparr>)"

definition yaffs_create_initial_dir :: "('n, 'x) yaffs_fs_scheme \<Rightarrow> int \<times> ('n, 'x) yaffs_fs_scheme" where
  "yaffs_create_initial_dir dev =
     (let dev = dev\<lparr>lost_n_found := None, root_dir := None, unlinked_dir := None, del_dir := None\<rparr>;
          (u, dev) = yaffs_create_fake_dir dev (uint YAFFS_OBJECTID_UNLINKED) S_IFDIR;
          dev = dev\<lparr>unlinked_dir := u\<rparr>;
          (d, dev) = yaffs_create_fake_dir dev (uint YAFFS_OBJECTID_DELETED) S_IFDIR;
          dev = dev\<lparr>del_dir := d\<rparr>;
          (r, dev) = yaffs_create_fake_dir dev (uint YAFFS_OBJECTID_ROOT) (YAFFS_ROOT_MODE OR S_IFDIR);
          dev = dev\<lparr>root_dir := r\<rparr>;
          (l, dev) = yaffs_create_fake_dir dev (uint YAFFS_OBJECTID_LOSTNFOUND) (YAFFS_LOSTNFOUND_MODE OR S_IFDIR);
          dev = dev\<lparr>lost_n_found := l\<rparr>
      in case (l, r, u, d) of
           (Some lost, Some _, Some _, Some _) \<Rightarrow>
             (YAFFS_OK, if hide_lost_n_found dev then unlink_sibling dev lost
                        else yaffs_add_obj_to_dir dev (root_dir dev) lost)
         | _ \<Rightarrow> (YAFFS_FAIL, dev))"

section \<open>The table is well formed\<close>

abbreviation id_of :: "('n, 'x) yaffs_fs_scheme \<Rightarrow> slab_addr \<Rightarrow> u32" where
  "id_of dev a \<equiv> obj_number (obj_at dev a)"

text \<open>The buckets hold the objects in use, each once and in the bucket of its number. An object whose
  freeing is deferred keeps its number, which may be given out again: the live object is then in front.\<close>

definition bucket_ok :: "slab_addr set \<Rightarrow> (slab_addr \<Rightarrow> yaffs_node) \<Rightarrow> nat \<Rightarrow> yaffs_obj_bucket \<Rightarrow> bool" where
  "bucket_ok L os i b \<longleftrightarrow> distinct (bucket_objs b) \<and> bucket_count b = int (length (bucket_objs b)) \<and>
     set (bucket_objs b) = {a \<in> L. hash_of (obj_number (core (os a))) = i} \<and>
     sorted_wrt (\<lambda>a c. obj_number (core (os a)) = obj_number (core (os c)) \<longrightarrow> defered_free (core (os c))) (bucket_objs b)"

definition hash_ok :: "slab_addr set \<Rightarrow> (slab_addr \<Rightarrow> yaffs_node) \<Rightarrow> yaffs_obj_bucket list \<Rightarrow> bool" where
  "hash_ok L os bs \<longleftrightarrow> length bs = YAFFS_NOBJECT_BUCKETS \<and> (\<forall>i < YAFFS_NOBJECT_BUCKETS. bucket_ok L os i (bs ! i))"

text \<open>Children and parents agree, and parents are directories. Only for a pair in \<open>H\<close>, the hidden lost
  and found directory and the root, the parent may not list the child.\<close>

definition dir_tree_ok :: "(slab_addr \<times> slab_addr) set \<Rightarrow> slab_addr set \<Rightarrow> (slab_addr \<Rightarrow> yaffs_node) \<Rightarrow> bool" where
  "dir_tree_ok H L os \<longleftrightarrow>
     (\<forall>a \<in> L. distinct (children (os a)) \<and> set (children (os a)) \<subseteq> L \<and>
        (\<forall>c \<in> set (children (os a)). parent (os c) = Some a)) \<and>
     (\<forall>c \<in> L. \<forall>p. parent (os c) = Some p \<longrightarrow> p \<in> L \<and>
        variant_type (core (os p)) = YAFFS_OBJECT_TYPE_DIRECTORY \<and> (c \<in> set (children (os p)) \<or> (c, p) \<in> H))"

definition special_dirs :: "('n, 'x) yaffs_fs_scheme \<Rightarrow> slab_addr set" where
  "special_dirs dev = {s. root_dir dev = Some s \<or> lost_n_found dev = Some s \<or> unlinked_dir dev = Some s \<or> del_dir dev = Some s}"

definition hidden_dirs :: "('n, 'x) yaffs_fs_scheme \<Rightarrow> (slab_addr \<times> slab_addr) set" where
  "hidden_dirs dev = {(s, r). hide_lost_n_found dev \<and> lost_n_found dev = Some s \<and> root_dir dev = Some r}"

definition obj_table_ok :: "('n, 'x) yaffs_fs_scheme \<Rightarrow> slab_addr set \<Rightarrow> bool" where
  "obj_table_ok dev L \<longleftrightarrow> obj_pool_ok dev L \<and> n_obj dev = int (card L) \<and>
     hash_ok L (objs dev) (obj_bucket dev) \<and> dir_tree_ok (hidden_dirs dev) L (objs dev) \<and>
     (\<forall>s \<in> special_dirs dev. s \<in> L \<and> variant_type (obj_at dev s) = YAFFS_OBJECT_TYPE_DIRECTORY)"

subsection \<open>Trees\<close>

lemma treeD:
  assumes "dir_tree_ok H L os"
  shows "a \<in> L \<Longrightarrow> distinct (children (os a))" "a \<in> L \<Longrightarrow> c \<in> set (children (os a)) \<Longrightarrow> c \<in> L \<and> parent (os c) = Some a"
    "c \<in> L \<Longrightarrow> parent (os c) = Some p \<Longrightarrow> p \<in> L \<and> variant_type (core (os p)) = YAFFS_OBJECT_TYPE_DIRECTORY \<and>
      (c \<in> set (children (os p)) \<or> (c, p) \<in> H)"
  using assms unfolding dir_tree_ok_def by blast+

lemma dir_tree_okI:
  assumes "\<And>a. a \<in> L \<Longrightarrow> distinct (children (os a))"
    and "\<And>a c. a \<in> L \<Longrightarrow> c \<in> set (children (os a)) \<Longrightarrow> c \<in> L \<and> parent (os c) = Some a"
    and "\<And>c p. c \<in> L \<Longrightarrow> parent (os c) = Some p \<Longrightarrow> p \<in> L \<and>
      variant_type (core (os p)) = YAFFS_OBJECT_TYPE_DIRECTORY \<and> (c \<in> set (children (os p)) \<or> (c, p) \<in> H)"
  shows "dir_tree_ok H L os"
  unfolding dir_tree_ok_def using assms by blast

lemma tree_cong:
  assumes t: "dir_tree_ok H L os"
    and eq: "\<And>a. a \<in> L \<Longrightarrow> children (os' a) = children (os a) \<and> parent (os' a) = parent (os a) \<and>
      variant_type (core (os' a)) = variant_type (core (os a))"
  shows "dir_tree_ok H L os'"
proof (rule dir_tree_okI)
  fix a assume a: "a \<in> L"
  show "distinct (children (os' a))" using treeD(1) [OF t a] eq [OF a] by simp
  fix c assume "c \<in> set (children (os' a))"
  then show "c \<in> L \<and> parent (os' c) = Some a" using treeD(2) [OF t a] eq a by metis
next
  fix c p assume c: "c \<in> L" and "parent (os' c) = Some p"
  then show "p \<in> L \<and> variant_type (core (os' p)) = YAFFS_OBJECT_TYPE_DIRECTORY \<and> (c \<in> set (children (os' p)) \<or> (c, p) \<in> H)"
    using treeD(3) [OF t c] eq by metis
qed

lemma tree_fresh:
  assumes t: "dir_tree_ok H L os" and a: "a \<notin> L" and nd: "children nd = []" "parent nd = None"
  shows "dir_tree_ok H (insert a L) (os(a := nd))"
proof (rule dir_tree_okI)
  fix b assume b: "b \<in> insert a L"
  show "distinct (children ((os(a := nd)) b))" using treeD(1) [OF t, of b] nd b by (cases "b = a") auto
  fix c assume c: "c \<in> set (children ((os(a := nd)) b))"
  then have "b \<noteq> a" using nd by auto
  then have "c \<in> L \<and> parent (os c) = Some b" using treeD(2) [OF t, of b c] b c by simp
  then show "c \<in> insert a L \<and> parent ((os(a := nd)) c) = Some b" using a by auto
next
  fix c p assume c: "c \<in> insert a L" and q: "parent ((os(a := nd)) c) = Some p"
  then have "c \<in> L" "parent (os c) = Some p" using nd by (auto split: if_splits)
  from treeD(3) [OF t this] a
  show "p \<in> insert a L \<and> variant_type (core ((os(a := nd)) p)) = YAFFS_OBJECT_TYPE_DIRECTORY \<and>
      (c \<in> set (children ((os(a := nd)) p)) \<or> (c, p) \<in> H)" by auto
qed

text \<open>Taking an object out of its directory.\<close>

definition tree_remove :: "slab_addr \<Rightarrow> (slab_addr \<Rightarrow> yaffs_node) \<Rightarrow> slab_addr \<Rightarrow> yaffs_node" where
  "tree_remove c os = (let os = (\<lambda>a. (os a)\<lparr>children := remove1 c (children (os a))\<rparr>)
     in os(c := (os c)\<lparr>parent := None\<rparr>))"

definition tree_link :: "slab_addr \<Rightarrow> slab_addr \<Rightarrow> (slab_addr \<Rightarrow> yaffs_node) \<Rightarrow> slab_addr \<Rightarrow> yaffs_node" where
  "tree_link d c os = (let os = os(d := (os d)\<lparr>children := c # children (os d)\<rparr>) in os(c := (os c)\<lparr>parent := Some d\<rparr>))"

lemma tree_remove_simps [simp]:
  "children (tree_remove c os a) = remove1 c (children (os a))"
  "parent (tree_remove c os a) = (if a = c then None else parent (os a))"
  "core (tree_remove c os a) = core (os a)" "has_inode (tree_remove c os a) = has_inode (os a)"
  by (simp_all add: tree_remove_def Let_def)

lemma tree_link_simps [simp]:
  "children (tree_link d c os a) = (if a = d then c # children (os d) else children (os a))"
  "parent (tree_link d c os a) = (if a = c then Some d else parent (os a))"
  "core (tree_link d c os a) = core (os a)" "has_inode (tree_link d c os a) = has_inode (os a)"
  by (simp_all add: tree_link_def Let_def)

lemma dir_tree_ok_remove:
  assumes t: "dir_tree_ok H L os" and "c \<in> L"
  shows "dir_tree_ok H L (tree_remove c os)"
proof (rule dir_tree_okI)
  fix a assume a: "a \<in> L"
  show "distinct (children (tree_remove c os a))" using treeD(1) [OF t a] by simp
  fix x assume x: "x \<in> set (children (tree_remove c os a))"
  then have "x \<in> set (children (os a))" using set_remove1_subset by fastforce
  moreover have "x \<noteq> c" using x treeD(1) [OF t a] by auto
  ultimately show "x \<in> L \<and> parent (tree_remove c os x) = Some a" using treeD(2) [OF t a] by simp
next
  fix x p assume x: "x \<in> L" and "parent (tree_remove c os x) = Some p"
  then have "x \<noteq> c" "parent (os x) = Some p" by (auto split: if_splits)
  then show "p \<in> L \<and> variant_type (core (tree_remove c os p)) = YAFFS_OBJECT_TYPE_DIRECTORY \<and>
      (x \<in> set (children (tree_remove c os p)) \<or> (x, p) \<in> H)"
    using treeD(3) [OF t x] by (simp add: in_set_remove1)
qed

lemma dir_tree_ok_link:
  assumes t: "dir_tree_ok H L os" and cd: "c \<in> L" "d \<in> L"
    and dir: "variant_type (core (os d)) = YAFFS_OBJECT_TYPE_DIRECTORY" and none: "parent (os c) = None"
  shows "dir_tree_ok H L (tree_link d c os)"
proof (rule dir_tree_okI)
  fix a assume a: "a \<in> L"
  have nc: "c \<notin> set (children (os b))" if "b \<in> L" for b using treeD(2) [OF t that, of c] none by auto
  then show "distinct (children (tree_link d c os a))" using treeD(1) [OF t a] treeD(1) [OF t cd(2)] nc [OF a] nc [OF cd(2)] by simp
  fix x assume "x \<in> set (children (tree_link d c os a))"
  then show "x \<in> L \<and> parent (tree_link d c os x) = Some a"
    using treeD(2) [OF t a, of x] nc [OF a] cd by (auto split: if_splits)
next
  fix x p assume x: "x \<in> L" and "parent (tree_link d c os x) = Some p"
  then show "p \<in> L \<and> variant_type (core (tree_link d c os p)) = YAFFS_OBJECT_TYPE_DIRECTORY \<and>
      (x \<in> set (children (tree_link d c os p)) \<or> (x, p) \<in> H)"
    using treeD(3) [OF t x, of p] cd dir by (auto split: if_splits)
qed

subsection \<open>Buckets\<close>

lemma bucketD:
  assumes "hash_ok L os bs" "i < YAFFS_NOBJECT_BUCKETS"
  shows "distinct (bucket_objs (bs ! i))" "bucket_count (bs ! i) = int (length (bucket_objs (bs ! i)))"
    "a \<in> set (bucket_objs (bs ! i)) \<longleftrightarrow> a \<in> L \<and> hash_of (obj_number (core (os a))) = i"
  using assms by (auto simp: hash_ok_def bucket_ok_def)

lemma hash_less [simp]: "yaffs_hash_fn n < YAFFS_NOBJECT_BUCKETS"
  by (simp add: yaffs_hash_fn_def)

lemma hash_cong:
  assumes "hash_ok L os bs"
    and "\<And>a. a \<in> L \<Longrightarrow> obj_number (core (os' a)) = obj_number (core (os a)) \<and>
      (defered_free (core (os a)) \<longrightarrow> defered_free (core (os' a)))"
  shows "hash_ok L os' bs"
proof -
  have "bucket_ok L os' i b" if b: "bucket_ok L os i b" for i b
  proof -
    have eq: "{a \<in> L. hash_of (obj_number (core (os' a))) = i} = {a \<in> L. hash_of (obj_number (core (os a))) = i}"
      using assms(2) by auto
    have sub: "set (bucket_objs b) \<subseteq> L" using b by (auto simp: bucket_ok_def)
    have "sorted_wrt (\<lambda>a c. obj_number (core (os a)) = obj_number (core (os c)) \<longrightarrow> defered_free (core (os c))) (bucket_objs b)"
      using b by (simp add: bucket_ok_def)
    then have "sorted_wrt (\<lambda>a c. obj_number (core (os' a)) = obj_number (core (os' c)) \<longrightarrow> defered_free (core (os' c))) (bucket_objs b)"
      by (rule sorted_wrt_mono_rel [rotated]) (use sub assms(2) in \<open>metis subsetD\<close>)
    then show ?thesis using b by (simp add: bucket_ok_def eq)
  qed
  then show ?thesis using assms(1) by (simp add: hash_ok_def)
qed

text \<open>Entering an object under a number that only objects to be freed have.\<close>

lemma hash_ok_enter:
  assumes h: "hash_ok L os bs" and a: "a \<notin> L"
    and free: "\<And>b. b \<in> L \<Longrightarrow> obj_number (core (os b)) = obj_number (core nd) \<Longrightarrow> defered_free (core (os b))"
    and i: "i = hash_of (obj_number (core nd))"
  shows "hash_ok (insert a L) (os(a := nd))
     (bs[i := (bs ! i)\<lparr>bucket_objs := a # bucket_objs (bs ! i), bucket_count := bucket_count (bs ! i) + 1\<rparr>])"
proof -
  let ?os = "os(a := nd)"
  have h': "hash_ok L ?os bs" by (rule hash_cong [OF h]) (use a in auto)
  have "bucket_ok (insert a L) ?os j (bs[i := (bs ! i)\<lparr>bucket_objs := a # bucket_objs (bs ! i), bucket_count := bucket_count (bs ! i) + 1\<rparr>] ! j)"
    if j: "j < YAFFS_NOBJECT_BUCKETS" for j
  proof -
    have b: "bucket_ok L ?os j (bs ! j)" using h' j by (simp add: hash_ok_def)
    have n: "a \<notin> set (bucket_objs (bs ! j))" using b a by (auto simp: bucket_ok_def)
    show ?thesis
    proof (cases "j = i")
      case True
      have len: "i < length bs" using h i by (simp add: hash_ok_def)
      have sub: "set (bucket_objs (bs ! i)) \<subseteq> L" using b True by (auto simp: bucket_ok_def)
      have w: "\<forall>c \<in> set (bucket_objs (bs ! i)). obj_number (core (?os a)) = obj_number (core (?os c)) \<longrightarrow> defered_free (core (?os c))"
      proof
        fix c assume c: "c \<in> set (bucket_objs (bs ! i))"
        then have "c \<in> L" "c \<noteq> a" using sub a by auto
        then show "obj_number (core (?os a)) = obj_number (core (?os c)) \<longrightarrow> defered_free (core (?os c))"
          using free [of c] by simp
      qed
      have e: "insert a (set (bucket_objs (bs ! i))) = {c \<in> insert a L. hash_of (obj_number (core (?os c))) = i}"
        using b True i unfolding bucket_ok_def by auto
      show ?thesis
        using b n len w e unfolding True bucket_ok_def by simp
    next
      case False
      then have "{c \<in> insert a L. hash_of (obj_number (core (?os c))) = j} = {c \<in> L. hash_of (obj_number (core (?os c))) = j}"
        using i by auto
      then show ?thesis using b False by (simp add: bucket_ok_def)
    qed
  qed
  then show ?thesis using h by (simp add: hash_ok_def)
qed

lemma hash_ok_leave:
  assumes h: "hash_ok L os bs" and a: "a \<in> L" and i: "i = hash_of (obj_number (core (os a)))"
  shows "hash_ok (L - {a}) os ((map (\<lambda>b. b\<lparr>bucket_objs := remove1 a (bucket_objs b)\<rparr>) bs)
     [i := (map (\<lambda>b. b\<lparr>bucket_objs := remove1 a (bucket_objs b)\<rparr>) bs ! i)\<lparr>bucket_count :=
        bucket_count (map (\<lambda>b. b\<lparr>bucket_objs := remove1 a (bucket_objs b)\<rparr>) bs ! i) - 1\<rparr>])"
    (is "hash_ok _ _ (?m[i := ?b])")
proof -
  have len: "length bs = YAFFS_NOBJECT_BUCKETS" using h by (simp add: hash_ok_def)
  have "bucket_ok (L - {a}) os j (?m[i := ?b] ! j)" if j: "j < YAFFS_NOBJECT_BUCKETS" for j
  proof -
    have b: "bucket_ok L os j (bs ! j)" using h j by (simp add: hash_ok_def)
    let ?l = "bucket_objs (bs ! j)"
    have d: "distinct ?l" "distinct (remove1 a ?l)" "set (remove1 a ?l) = set ?l - {a}" using b by (simp_all add: bucket_ok_def)
    have s: "set ?l = {x \<in> L. hash_of (obj_number (core (os x))) = j}" using b by (simp add: bucket_ok_def)
    have w: "sorted_wrt (\<lambda>a c. obj_number (core (os a)) = obj_number (core (os c)) \<longrightarrow> defered_free (core (os c))) (remove1 a ?l)"
      using b unfolding distinct_remove1_removeAll [OF d(1)] removeAll_filter_not_eq by (simp add: bucket_ok_def sorted_wrt_filter)
    have mem: "a \<in> set ?l \<longleftrightarrow> j = i" using s a i by auto
    show ?thesis
    proof (cases "j = i")
      case True
      have "int (length (remove1 a ?l)) = int (length ?l) - 1"
        using mem True length_pos_if_in_set [of a ?l] by (simp add: length_remove1 of_nat_diff Suc_le_eq)
      then show ?thesis using b len True j s d w by (auto simp: bucket_ok_def)
    next
      case False
      then have "remove1 a ?l = ?l" using mem remove1_idem by metis
      then show ?thesis using b len False j s d w mem by (auto simp: bucket_ok_def)
    qed
  qed
  then show ?thesis using len by (simp add: hash_ok_def)
qed

text \<open>Looking up a number finds the live object that has it.\<close>

lemma find_by_number_iff:
  assumes h: "hash_ok L (objs dev) (obj_bucket dev)"
  shows "yaffs_find_by_number dev number = Some a \<longleftrightarrow> a \<in> L \<and> id_of dev a = number \<and> \<not> defered_free (obj_at dev a)"
proof
  let ?l = "bucket_objs (obj_bucket dev ! hash_of number)"
  note s = bucketD(3) [OF h hash_less, of _ "sint number"]
  assume "yaffs_find_by_number dev number = Some a"
  then have "find (\<lambda>a. id_of dev a = number) ?l = Some a" "\<not> defered_free (obj_at dev a)"
    by (auto simp: yaffs_find_by_number_def split: option.splits if_splits)
  then show "a \<in> L \<and> id_of dev a = number \<and> \<not> defered_free (obj_at dev a)"
    using s [of a] by (auto simp: find_Some_iff)
next
  let ?l = "bucket_objs (obj_bucket dev ! hash_of number)"
  assume a: "a \<in> L \<and> id_of dev a = number \<and> \<not> defered_free (obj_at dev a)"
  then have "a \<in> set ?l" using bucketD(3) [OF h hash_less] by simp
  then obtain k where k: "k < length ?l" "?l ! k = a" by (auto simp: in_set_conv_nth)
  have "id_of dev (?l ! j) \<noteq> number" if "j < k" for j
  proof
    assume n: "id_of dev (?l ! j) = number"
    have "bucket_ok L (objs dev) (hash_of number) (obj_bucket dev ! hash_of number)" using h by (simp add: hash_ok_def)
    then have "id_of dev (?l ! j) = id_of dev (?l ! k) \<longrightarrow> defered_free (obj_at dev (?l ! k))"
      using that k(1) by (auto simp: bucket_ok_def sorted_wrt_iff_nth_less)
    then show False using n k(2) a by simp
  qed
  then have "find (\<lambda>a. id_of dev a = number) ?l = Some a"
    using k a by (auto simp: find_Some_iff intro!: exI [of _ k])
  then show "yaffs_find_by_number dev number = Some a" using a by (simp add: yaffs_find_by_number_def)
qed

subsection \<open>New numbers\<close>

lemma nice_bucket_loop:
  assumes "nice_bucket_loop k lowest l dev = (l', dev')" "\<forall>b \<in> set (obj_bucket dev). bucket_count b < 999999"
    "length (obj_bucket dev) = YAFFS_NOBJECT_BUCKETS" "0 < k \<and> lowest = 999999 \<or> l < YAFFS_NOBJECT_BUCKETS"
  shows "l' < YAFFS_NOBJECT_BUCKETS \<and> (\<exists>f. dev' = dev\<lparr>bucket_finder := f\<rparr>)"
  using assms
proof (induction k arbitrary: lowest l dev)
  case 0
  then show ?case by (auto intro!: exI [of _ "bucket_finder dev"])
next
  case (Suc k)
  define f where "f = Suc (bucket_finder dev) mod YAFFS_NOBJECT_BUCKETS"
  let ?d = "dev\<lparr>bucket_finder := f\<rparr>"
  have f: "f < YAFFS_NOBJECT_BUCKETS" by (simp add: f_def)
  have small: "bucket_count (obj_bucket dev ! f) < 999999" using Suc.prems(2,3) f by simp
  consider "lowest \<le> 4" | "lowest > 4" "bucket_count (obj_bucket dev ! f) < lowest" | "lowest > 4" "\<not> bucket_count (obj_bucket dev ! f) < lowest"
    by linarith
  then show ?case
  proof cases
    case 1
    then have "l' = l" "dev' = dev" "l < YAFFS_NOBJECT_BUCKETS" using Suc.prems by auto
    then show ?thesis by (auto intro!: exI [of _ "bucket_finder dev"])
  next
    case 2
    have "nice_bucket_loop k (bucket_count (obj_bucket dev ! f)) f ?d = (l', dev')"
      using Suc.prems(1) 2 by (simp add: f_def [symmetric] Let_def)
    from Suc.IH [OF this] Suc.prems f show ?thesis by auto
  next
    case 3
    have "nice_bucket_loop k lowest l ?d = (l', dev')"
      using Suc.prems(1) 3 by (simp add: f_def [symmetric] Let_def)
    from Suc.IH [OF this] Suc.prems 3 small show ?thesis by auto
  qed
qed

lemma find_nice_bucket:
  assumes "yaffs_find_nice_bucket dev = (l, dev')" "\<forall>b \<in> set (obj_bucket dev). bucket_count b < 999999"
    "length (obj_bucket dev) = YAFFS_NOBJECT_BUCKETS"
  shows "l < YAFFS_NOBJECT_BUCKETS" "\<exists>f. dev' = dev\<lparr>bucket_finder := f\<rparr>"
  using nice_bucket_loop [of 10 999999 999 dev l dev'] assms by (auto simp: yaffs_find_nice_bucket_def)

lemma word_256_step: "0 < i \<Longrightarrow> word_of_nat (256 * i) = (word_of_nat 256 + word_of_nat (256 * (i - 1)) :: u32)"
  by (cases i) (simp_all add: algebra_simps)

text \<open>The number found is the first free one, and there is one among the first \<open>k\<close>.\<close>

lemma obj_id_loop_Some:
  assumes "obj_id_loop k taken n = Some m"
  shows "\<exists>j. 0 < j \<and> m = n + word_of_nat (256 * j) \<and> m \<notin> set taken \<and> (\<forall>i. 0 < i \<and> i < j \<longrightarrow> n + word_of_nat (256 * i) \<in> set taken)"
  using assms
proof (induction k arbitrary: n)
  case (Suc k)
  let ?n = "n + word_of_nat 256 :: u32"
  show ?case
  proof (cases "?n \<in> set taken")
    case True
    then obtain j where j: "0 < j" "m = ?n + word_of_nat (256 * j)" "m \<notin> set taken"
      "\<forall>i. 0 < i \<and> i < j \<longrightarrow> ?n + word_of_nat (256 * i) \<in> set taken"
      using Suc by auto
    have "n + word_of_nat (256 * i) \<in> set taken" if "0 < i" "i < Suc j" for i
    proof (cases "i = 1")
      case False
      then have "0 < i - 1 \<and> i - 1 < j" using that by auto
      then have "?n + word_of_nat (256 * (i - 1)) \<in> set taken" using j(4) by blast
      then show ?thesis using that(1) by (simp only: word_256_step add.assoc)
    qed (use True in simp)
    moreover have "m = n + word_of_nat (256 * Suc j)" using j(2) word_256_step [of "Suc j"] by (simp only: diff_Suc_1 add.assoc zero_less_Suc)
    ultimately show ?thesis using j(3) by blast
  next
    case False
    then have "m = ?n" using Suc.prems by simp
    then show ?thesis using False by (intro exI [of _ 1]) auto
  qed
qed simp

lemma obj_id_loop_None:
  assumes "obj_id_loop k taken n = None" "0 < i" "i \<le> k"
  shows "n + word_of_nat (256 * i) \<in> set taken"
  using assms
proof (induction k arbitrary: n i)
  case (Suc k)
  let ?n = "n + word_of_nat 256 :: u32"
  have t: "?n \<in> set taken" "obj_id_loop k taken ?n = None" using Suc.prems(1) by (auto simp: Let_def split: if_splits)
  show ?case
  proof (cases "i = 1")
    case False
    then have "0 < i - 1" "i - 1 \<le> k" using Suc.prems by auto
    then have "?n + word_of_nat (256 * (i - 1)) \<in> set taken" by (rule Suc.IH [OF t(2)])
    then show ?thesis using Suc.prems(2) by (simp only: word_256_step add.assoc)
  qed (use t in simp)
qed simp

lemma steps_card:
  assumes "\<And>i. 0 < i \<Longrightarrow> i \<le> k \<Longrightarrow> n + word_of_nat (256 * i) \<in> S" "finite S" "k < 2 ^ 24"
  shows "k \<le> card (S :: u32 set)"
proof -
  have inj: "inj_on (\<lambda>i. n + word_of_nat (256 * i) :: u32) {1..k}"
  proof (rule inj_onI)
    fix i j :: nat assume ij: "i \<in> {1..k}" "j \<in> {1..k}" and "n + word_of_nat (256 * i) = (n + word_of_nat (256 * j) :: u32)"
    then have "unat (word_of_nat (256 * i) :: u32) = unat (word_of_nat (256 * j) :: u32)" by simp
    moreover have "256 * i < 2 ^ 32" "256 * j < 2 ^ 32" using ij assms(3) by auto
    ultimately show "i = j" by (simp add: unat_of_nat del: of_nat_mult)
  qed
  have "(\<lambda>i. n + word_of_nat (256 * i)) ` {1..k} \<subseteq> S" using assms(1) by auto
  then have "card ((\<lambda>i. n + word_of_nat (256 * i)) ` {1..k}) \<le> card S" using assms(2) card_mono by blast
  then show ?thesis using inj by (simp add: card_image)
qed

lemma obj_id_loop_found:
  assumes "length taken < 2 ^ 23 - 2" "l < YAFFS_NOBJECT_BUCKETS"
  shows "\<exists>m. obj_id_loop obj_id_fuel taken (word_of_nat l) = Some m \<and> m \<notin> set taken \<and> hash_of m = l \<and> 0 < sint m"
proof -
  have c: "card (set taken) < 2 ^ 23 - 2" using card_length [of taken] assms(1) by linarith
  have "obj_id_loop obj_id_fuel taken (word_of_nat l) \<noteq> None"
  proof
    assume "obj_id_loop obj_id_fuel taken (word_of_nat l) = None"
    then have "2 ^ 23 \<le> card (set taken)"
      by (intro steps_card [of _ "word_of_nat l"]) (auto dest: obj_id_loop_None simp: obj_id_fuel_def)
    then show False using c by simp
  qed
  then obtain m where m: "obj_id_loop obj_id_fuel taken (word_of_nat l) = Some m" by auto
  obtain j where j: "0 < j" "m = word_of_nat l + word_of_nat (256 * j)" "m \<notin> set taken"
    "\<forall>i. 0 < i \<and> i < j \<longrightarrow> word_of_nat l + word_of_nat (256 * i) \<in> set taken"
    using obj_id_loop_Some [OF m] by blast
  have "min (j - 1) (2 ^ 24 - 1) \<le> card (set taken)"
    by (rule steps_card [of _ "word_of_nat l"]) (use j in auto)
  then have small: "j < 2 ^ 23 - 1" using c by simp
  have "m = word_of_nat (l + 256 * j)" using j(2) by simp
  moreover have v: "l + 256 * j < 2 ^ 31" using small assms(2) by simp
  ultimately have u: "unat m = l + 256 * j" by (simp add: unat_of_nat del: of_nat_mult of_nat_add)
  have s: "sint m = int (l + 256 * j)"
    unfolding sint_uint uint_nat u by (rule signed_take_bit_int_eq_self) (use v in simp_all)
  have "hash_of m = l" unfolding yaffs_hash_fn_def s using assms(2) by (simp add: Let_def del: of_nat_add of_nat_mult)
  then show ?thesis using m j(1,3) s by simp
qed

subsection \<open>Operations\<close>

text \<open>What the allocator calls leave alone.\<close>

definition fs_same :: "('n, 'x) yaffs_fs_scheme \<Rightarrow> ('n, 'x) yaffs_fs_scheme \<Rightarrow> bool" where
  "fs_same dev d \<longleftrightarrow> objs d = objs dev \<and> obj_bucket d = obj_bucket dev \<and> root_dir d = root_dir dev \<and>
     lost_n_found d = lost_n_found dev \<and> unlinked_dir d = unlinked_dir dev \<and> del_dir d = del_dir dev \<and>
     hide_lost_n_found d = hide_lost_n_found dev \<and> n_obj d = n_obj dev"

lemma fs_same_alloc:
  "fs_same dev (snd (yaffs_get_tnode dev))" "fs_same dev (yaffs_free_tnode dev t)"
  "fs_same dev (snd (yaffs_alloc_raw_obj dev))" "fs_same dev (yaffs_free_raw_obj dev a)"
  by (simp_all add: fs_same_def yaffs_get_tnode_def yaffs_alloc_raw_tnode_def yaffs_create_tnodes_def
      yaffs_free_tnode_def yaffs_free_raw_tnode_def yaffs_alloc_raw_obj_def yaffs_create_free_objs_def
      yaffs_free_raw_obj_def kmalloc_def kfree_def Let_def split: option.split list.split prod.split)

lemma special_same: "fs_same dev d \<Longrightarrow> special_dirs d = special_dirs dev" "fs_same dev d \<Longrightarrow> hidden_dirs d = hidden_dirs dev"
  by (simp_all add: fs_same_def special_dirs_def hidden_dirs_def)

lemma pool_tnode:
  assumes "obj_pool_ok dev L"
  shows "obj_pool_ok (snd (yaffs_get_tnode dev)) L" "obj_pool_ok (yaffs_free_tnode dev t) L"
proof -
  obtain al created where al: "allocator dev = Some al"
    and ok: "slab_ok (free_objs al) (n_free_objects al) created (n_kmalloc dev) L"
    using assms by (auto simp: obj_pool_ok_def split: option.splits)
  have mono: "slab_ok (free_objs al) (n_free_objects al) created k L" if "n_kmalloc dev \<le> k" for k
    by (rule slab_ok_mono [OF ok that])
  have c: "obj_pool_ok (snd (yaffs_create_tnodes dev n)) L" for n
    using al ok by (auto simp: yaffs_create_tnodes_def kmalloc_def obj_pool_ok_def Let_def intro!: exI [of _ created] mono)
  have r: "obj_pool_ok (snd (yaffs_alloc_raw_tnode d)) L" if "obj_pool_ok (if P then snd (yaffs_create_tnodes d m) else d) L"
    "yaffs_alloc_raw_tnode d = (case allocator (if P then snd (yaffs_create_tnodes d m) else d) of None \<Rightarrow> (None, if P then snd (yaffs_create_tnodes d m) else d)
       | Some al \<Rightarrow> (case free_tnodes al of [] \<Rightarrow> (None, if P then snd (yaffs_create_tnodes d m) else d)
          | tn # rest \<Rightarrow> (Some tn, (if P then snd (yaffs_create_tnodes d m) else d)\<lparr>allocator := Some (al\<lparr>free_tnodes := rest,
                       n_free_tnodes := n_free_tnodes al - 1\<rparr>)\<rparr>)))" for d :: "('a, 'b) yaffs_mem_dev_scheme" and P m
    using that by (auto simp: obj_pool_ok_def split: option.splits list.splits if_splits)
  have "obj_pool_ok (snd (yaffs_alloc_raw_tnode dev)) L"
    by (rule r [where P = "free_tnodes al = []" and m = YAFFS_ALLOCATION_NTNODES])
      (use c assms al in \<open>simp_all add: yaffs_alloc_raw_tnode_def Let_def\<close>)
  moreover obtain q d where "yaffs_alloc_raw_tnode dev = (q, d)" by fastforce
  ultimately show "obj_pool_ok (snd (yaffs_get_tnode dev)) L"
    by (cases q) (auto simp: yaffs_get_tnode_def Let_def obj_pool_ok_def split: option.splits)
  show "obj_pool_ok (yaffs_free_tnode dev t) L"
    using ok al by (auto simp: yaffs_free_tnode_def yaffs_free_raw_tnode_def obj_pool_ok_def Let_def)
qed

text \<open>The invariant rests on a few fields.\<close>

lemma table_cong:
  assumes "obj_table_ok dev L" "obj_pool_ok d L" "n_obj d = n_obj dev" "obj_bucket d = obj_bucket dev"
    "special_dirs d = special_dirs dev" "hidden_dirs d = hidden_dirs dev"
    and same: "\<And>a. a \<in> L \<Longrightarrow> children (objs d a) = children (objs dev a) \<and> parent (objs d a) = parent (objs dev a) \<and>
      variant_type (obj_at d a) = variant_type (obj_at dev a) \<and> id_of d a = id_of dev a \<and>
      (defered_free (obj_at dev a) \<longrightarrow> defered_free (obj_at d a))"
  shows "obj_table_ok d L"
proof -
  have "hash_ok L (objs d) (obj_bucket d)"
    unfolding assms(4) by (rule hash_cong [where os = "objs dev"]) (use assms(1) same in \<open>simp_all add: obj_table_ok_def\<close>)
  moreover have "dir_tree_ok (hidden_dirs d) L (objs d)"
    unfolding assms(6) by (rule tree_cong [where os = "objs dev"]) (use assms(1) same in \<open>simp_all add: obj_table_ok_def\<close>)
  ultimately show ?thesis using assms(1-3,5) same by (simp add: obj_table_ok_def)
qed

lemma pool_view: "obj_pool_ok (upd_node dev a f) L = obj_pool_ok dev L" "obj_pool_ok (upd_core dev a g) L = obj_pool_ok dev L"
  "obj_pool_ok (upd_bucket dev i h) L = obj_pool_ok dev L" "obj_pool_ok (unlink_sibling dev a) L = obj_pool_ok dev L"
  by (simp_all add: upd_core_def upd_node_def upd_bucket_def unlink_sibling_def obj_pool_ok_def split: option.split)

lemma dirs_view:
  "special_dirs (upd_node dev a f) = special_dirs dev" "special_dirs (upd_core dev a g) = special_dirs dev"
  "special_dirs (upd_bucket dev i h) = special_dirs dev" "special_dirs (unlink_sibling dev a) = special_dirs dev"
  "hidden_dirs (upd_node dev a f) = hidden_dirs dev" "hidden_dirs (upd_core dev a g) = hidden_dirs dev"
  "hidden_dirs (upd_bucket dev i h) = hidden_dirs dev" "hidden_dirs (unlink_sibling dev a) = hidden_dirs dev"
  by (simp_all add: upd_core_def upd_node_def upd_bucket_def unlink_sibling_def special_dirs_def hidden_dirs_def)

lemma objs_view:
  "objs (upd_node dev a f) = (objs dev)(a := f (objs dev a))"
  "objs (upd_core dev a g) = (objs dev)(a := (objs dev a)\<lparr>core := g (core (objs dev a))\<rparr>)"
  "objs (upd_bucket dev i h) = objs dev" "obj_bucket (upd_node dev a f) = obj_bucket dev"
  "obj_bucket (upd_core dev a g) = obj_bucket dev" "obj_bucket (unlink_sibling dev a) = obj_bucket dev"
  "n_obj (upd_node dev a f) = n_obj dev" "n_obj (upd_core dev a g) = n_obj dev"
  "n_obj (upd_bucket dev i h) = n_obj dev" "n_obj (unlink_sibling dev a) = n_obj dev"
  by (simp_all add: upd_core_def upd_node_def upd_bucket_def unlink_sibling_def)

lemma upd_dev_view [simp]:
  "special_dirs (dev\<lparr>n_obj := i\<rparr>) = special_dirs dev" "hidden_dirs (dev\<lparr>n_obj := i\<rparr>) = hidden_dirs dev"
  "special_dirs (dev\<lparr>checkpoint_blocks_required := i\<rparr>) = special_dirs dev"
  "hidden_dirs (dev\<lparr>checkpoint_blocks_required := i\<rparr>) = hidden_dirs dev"
  "special_dirs (dev\<lparr>n_unlinked_files := i\<rparr>) = special_dirs dev" "hidden_dirs (dev\<lparr>n_unlinked_files := i\<rparr>) = hidden_dirs dev"
  "special_dirs (dev\<lparr>bucket_finder := f\<rparr>) = special_dirs dev" "hidden_dirs (dev\<lparr>bucket_finder := f\<rparr>) = hidden_dirs dev"
  "obj_pool_ok (dev\<lparr>n_obj := i\<rparr>) L = obj_pool_ok dev L" "obj_pool_ok (dev\<lparr>checkpoint_blocks_required := i\<rparr>) L = obj_pool_ok dev L"
  "obj_pool_ok (dev\<lparr>n_unlinked_files := i\<rparr>) L = obj_pool_ok dev L" "obj_pool_ok (dev\<lparr>bucket_finder := f\<rparr>) L = obj_pool_ok dev L"
  "obj_pool_ok (dev\<lparr>root_dir := p\<rparr>) L = obj_pool_ok dev L" "obj_pool_ok (dev\<lparr>lost_n_found := p\<rparr>) L = obj_pool_ok dev L"
  "obj_pool_ok (dev\<lparr>unlinked_dir := p\<rparr>) L = obj_pool_ok dev L" "obj_pool_ok (dev\<lparr>del_dir := p\<rparr>) L = obj_pool_ok dev L"
  by (simp_all add: special_dirs_def hidden_dirs_def obj_pool_ok_def split: option.split)

lemmas fs_views = pool_view dirs_view objs_view

text \<open>Moving an object to a directory.\<close>

lemma table_remove:
  assumes "obj_table_ok dev L" "c \<in> L"
  shows "obj_table_ok (yaffs_remove_obj_from_dir dev c) L" "parent (objs (yaffs_remove_obj_from_dir dev c) c) = None"
proof -
  have o: "objs (yaffs_remove_obj_from_dir dev c) = tree_remove c (objs dev)"
    by (simp add: yaffs_remove_obj_from_dir_def upd_node_def unlink_sibling_def tree_remove_def Let_def fun_eq_iff)
  have h: "hash_ok L (tree_remove c (objs dev)) (obj_bucket dev)"
    by (rule hash_cong [where os = "objs dev"]) (use assms(1) in \<open>simp_all add: obj_table_ok_def\<close>)
  have r: "obj_bucket (yaffs_remove_obj_from_dir dev c) = obj_bucket dev" "n_obj (yaffs_remove_obj_from_dir dev c) = n_obj dev"
    "special_dirs (yaffs_remove_obj_from_dir dev c) = special_dirs dev" "hidden_dirs (yaffs_remove_obj_from_dir dev c) = hidden_dirs dev"
    "obj_pool_ok (yaffs_remove_obj_from_dir dev c) L = obj_pool_ok dev L"
    by (simp_all add: yaffs_remove_obj_from_dir_def fs_views)
  show "obj_table_ok (yaffs_remove_obj_from_dir dev c) L"
    unfolding obj_table_ok_def o r
    using assms(1) h dir_tree_ok_remove [OF _ assms(2)] by (simp add: obj_table_ok_def)
  show "parent (objs (yaffs_remove_obj_from_dir dev c) c) = None" by (simp add: o)
qed

lemma table_link:
  assumes "obj_table_ok dev L" "c \<in> L" "d \<in> L" "variant_type (obj_at dev d) = YAFFS_OBJECT_TYPE_DIRECTORY" "parent (objs dev c) = None"
  shows "obj_table_ok (upd_node (upd_node dev d (\<lambda>nd. nd\<lparr>children := c # children nd\<rparr>)) c (\<lambda>nd. nd\<lparr>parent := Some d\<rparr>)) L"
    (is "obj_table_ok ?d L")
proof -
  have o: "objs ?d = tree_link d c (objs dev)"
    by (simp add: fs_views tree_link_def Let_def fun_eq_iff)
  have h: "hash_ok L (tree_link d c (objs dev)) (obj_bucket dev)"
    by (rule hash_cong [where os = "objs dev"]) (use assms(1) in \<open>simp_all add: obj_table_ok_def\<close>)
  have t: "dir_tree_ok (hidden_dirs dev) L (tree_link d c (objs dev))"
    by (rule dir_tree_ok_link) (use assms in \<open>simp_all add: obj_table_ok_def\<close>)
  show ?thesis
    unfolding obj_table_ok_def o using assms(1) h t by (simp add: obj_table_ok_def fs_views)
qed

text \<open>A change of the fields the invariant does not mention.\<close>

lemma table_upd_core:
  assumes "obj_table_ok dev L" "\<And>ob. variant_type (g ob) = variant_type ob \<and> obj_number (g ob) = obj_number ob \<and>
    (defered_free ob \<longrightarrow> defered_free (g ob))"
  shows "obj_table_ok (upd_core dev a g) L"
  by (rule table_cong [OF assms(1)]) (use assms in \<open>simp_all add: fs_views obj_table_ok_def\<close>)

lemma table_upd_node:
  assumes "obj_table_ok dev L" "\<And>nd. children (f nd) = children nd \<and> parent (f nd) = parent nd \<and> core (f nd) = core nd"
  shows "obj_table_ok (upd_node dev a f) L"
  by (rule table_cong [OF assms(1)]) (use assms in \<open>simp_all add: fs_views obj_table_ok_def\<close>)

lemma table_upd_dev [simp]:
  "obj_table_ok (dev\<lparr>n_unlinked_files := i\<rparr>) L = obj_table_ok dev L"
  "obj_table_ok (dev\<lparr>checkpoint_blocks_required := i\<rparr>) L = obj_table_ok dev L"
  "obj_table_ok (dev\<lparr>bucket_finder := f\<rparr>) L = obj_table_ok dev L"
  by (simp_all add: obj_table_ok_def)

lemma table_add_to_dir:
  assumes "obj_table_ok dev L" "c \<in> L" "d \<in> L" "variant_type (obj_at dev d) = YAFFS_OBJECT_TYPE_DIRECTORY"
  shows "obj_table_ok (yaffs_add_obj_to_dir dev (Some d) c) L"
proof -
  let ?r = "yaffs_remove_obj_from_dir dev c"
  have v: "variant_type (obj_at ?r d) = YAFFS_OBJECT_TYPE_DIRECTORY"
    using assms(4) by (cases "d = c") (simp_all add: yaffs_remove_obj_from_dir_def fs_views unlink_sibling_def)
  note l = table_link [OF table_remove(1) [OF assms(1,2)] assms(2,3) v table_remove(2) [OF assms(1,2)]]
  show ?thesis
    using l by (simp add: yaffs_add_obj_to_dir_def Let_def table_upd_core)
qed

text \<open>A new object, before it has its number: it is in the tree and not yet in a bucket.\<close>

definition newborn_ok :: "('n, 'x) yaffs_fs_scheme \<Rightarrow> slab_addr set \<Rightarrow> slab_addr \<Rightarrow> bool" where
  "newborn_ok dev L a \<longleftrightarrow> a \<notin> L \<and> obj_pool_ok dev (insert a L) \<and> n_obj dev = int (card (insert a L)) \<and>
     hash_ok L (objs dev) (obj_bucket dev) \<and> dir_tree_ok (hidden_dirs dev) (insert a L) (objs dev) \<and>
     \<not> defered_free (obj_at dev a) \<and> children (objs dev a) = [] \<and>
     variant_type (obj_at dev a) = YAFFS_OBJECT_TYPE_UNKNOWN \<and>
     (\<forall>s \<in> special_dirs dev. s \<in> L \<and> variant_type (obj_at dev s) = YAFFS_OBJECT_TYPE_DIRECTORY)"

lemma finite_pool: "obj_pool_ok dev L \<Longrightarrow> finite L"
  by (auto simp: obj_pool_ok_def slab_ok_def split: option.splits)

lemma newborn_cong:
  assumes n: "newborn_ok dev L a" and t: "dir_tree_ok (hidden_dirs dev) (insert a L) (objs d)"
    and "obj_pool_ok d (insert a L) = obj_pool_ok dev (insert a L)" "n_obj d = n_obj dev" "obj_bucket d = obj_bucket dev"
    "special_dirs d = special_dirs dev" "hidden_dirs d = hidden_dirs dev"
    and same: "\<And>b. b \<in> L \<Longrightarrow> variant_type (obj_at d b) = variant_type (obj_at dev b) \<and> id_of d b = id_of dev b \<and>
      defered_free (obj_at d b) = defered_free (obj_at dev b)"
    and "\<not> defered_free (obj_at d a)" "children (objs d a) = []" "variant_type (obj_at d a) = YAFFS_OBJECT_TYPE_UNKNOWN"
  shows "newborn_ok d L a"
proof -
  have "hash_ok L (objs d) (obj_bucket d)"
    unfolding assms(5) by (rule hash_cong [where os = "objs dev"]) (use n same in \<open>simp_all add: newborn_ok_def\<close>)
  then show ?thesis using n t assms(3-7) same assms(9-11) by (auto simp: newborn_ok_def)
qed

lemma newborn_add_to_dir:
  assumes n: "newborn_ok dev L a" and d: "d \<in> L" "variant_type (obj_at dev d) = YAFFS_OBJECT_TYPE_DIRECTORY"
  shows "newborn_ok (yaffs_add_obj_to_dir dev (Some d) a) L a"
proof -
  let ?os = "objs (yaffs_add_obj_to_dir dev (Some d) a)"
  have da: "d \<noteq> a" using n d by (auto simp: newborn_ok_def)
  have t: "dir_tree_ok (hidden_dirs dev) (insert a L) (tree_link d a (tree_remove a (objs dev)))"
    by (intro dir_tree_ok_link dir_tree_ok_remove) (use n d in \<open>simp_all add: newborn_ok_def\<close>)
  have o: "children (?os b) = children (tree_link d a (tree_remove a (objs dev)) b)"
    "parent (?os b) = parent (tree_link d a (tree_remove a (objs dev)) b)"
    "variant_type (core (?os b)) = variant_type (obj_at dev b)" "obj_number (core (?os b)) = id_of dev b"
    "defered_free (core (?os b)) = defered_free (obj_at dev b)" for b
    using da by (simp_all add: yaffs_add_obj_to_dir_def yaffs_remove_obj_from_dir_def unlink_sibling_def fs_views Let_def)
  have t': "dir_tree_ok (hidden_dirs dev) (insert a L) ?os"
    by (rule tree_cong [OF t]) (simp add: o)
  show ?thesis
    by (rule newborn_cong [OF n t'])
      (use n da in \<open>simp_all add: o newborn_ok_def\<close>,
       simp_all add: yaffs_add_obj_to_dir_def yaffs_remove_obj_from_dir_def Let_def fs_views)
qed

lemma table_alloc_empty:
  assumes ok: "obj_table_ok dev L" and r: "yaffs_alloc_empty_obj dev = (r, d)"
  shows "case r of None \<Rightarrow> obj_table_ok d L | Some a \<Rightarrow> newborn_ok d L a"
proof -
  obtain q d1 where q: "yaffs_alloc_raw_obj dev = (q, d1)" by fastforce
  have f: "fs_same dev d1" using fs_same_alloc(3) [of dev] q by simp
  have p: "case q of None \<Rightarrow> obj_pool_ok d1 L | Some a \<Rightarrow> a \<notin> L \<and> obj_pool_ok d1 (insert a L)"
    using alloc_raw_obj_ok [OF _ q] ok by (simp add: obj_table_ok_def)
  show ?thesis
  proof (cases q)
    case None
    have "obj_table_ok d1 L"
      by (rule table_cong [OF ok]) (use f p None special_same [OF f] in \<open>simp_all add: fs_same_def\<close>)
    then show ?thesis using r q None by (auto simp: yaffs_alloc_empty_obj_def)
  next
    case (Some a)
    have a: "a \<notin> L" "obj_pool_ok d1 (insert a L)" using p Some by simp_all
    let ?d2 = "upd_core (upd_node (d1\<lparr>n_obj := n_obj d1 + 1\<rparr>) a (\<lambda>_. zero_node)) a (\<lambda>ob. ob\<lparr>being_created := True\<rparr>)"
    have "n_obj ?d2 = int (card (insert a L))"
      using ok a(1) f finite_pool [of dev L] by (simp add: obj_table_ok_def fs_same_def fs_views)
    moreover have "hash_ok L (objs ?d2) (obj_bucket ?d2)"
      unfolding fs_views by (rule hash_cong [where os = "objs dev"])
        (use ok a(1) f in \<open>auto simp: obj_table_ok_def fs_same_def\<close>)
    moreover have "dir_tree_ok (hidden_dirs dev) (insert a L) (objs ?d2)"
      using tree_fresh [of "hidden_dirs dev" L "objs dev" a "zero_node\<lparr>core := zero_obj\<lparr>being_created := True\<rparr>\<rparr>"] ok a(1) f
      by (simp add: fs_views zero_node_def obj_table_ok_def fs_same_def)
    moreover have "\<not> defered_free (obj_at ?d2 a)" "children (objs ?d2 a) = []"
      "variant_type (obj_at ?d2 a) = YAFFS_OBJECT_TYPE_UNKNOWN" by (simp_all add: fs_views zero_node_def zero_obj_def)
    moreover have "\<forall>s \<in> special_dirs dev. s \<in> L \<and> variant_type (obj_at ?d2 s) = YAFFS_OBJECT_TYPE_DIRECTORY"
      using ok a(1) f by (auto simp: obj_table_ok_def fs_views fs_same_def)
    ultimately have n2: "newborn_ok ?d2 L a"
      using a special_same [OF f] unfolding newborn_ok_def by (simp add: fs_views)
    have none: "parent (objs ?d2 a) = None" by (simp add: fs_views zero_node_def)
    define d3 where "d3 = (case root_dir ?d2 of None \<Rightarrow> ?d2
      | Some s \<Rightarrow> upd_node (upd_node ?d2 a (\<lambda>nd. nd\<lparr>parent := Some s\<rparr>)) s (\<lambda>nd. nd\<lparr>children := a # children nd\<rparr>))"
    have same3: "root_dir d3 = root_dir ?d2" "lost_n_found d3 = lost_n_found ?d2"
      by (simp_all add: d3_def upd_node_def split: option.split)
    have n3: "newborn_ok d3 L a"
    proof (cases "root_dir ?d2")
      case None
      then show ?thesis using n2 by (simp add: d3_def)
    next
      case (Some s)
      have s: "s \<in> L" "variant_type (obj_at ?d2 s) = YAFFS_OBJECT_TYPE_DIRECTORY" "s \<noteq> a"
        using n2 Some a(1) unfolding newborn_ok_def special_dirs_def by blast+
      have o: "objs d3 = tree_link s a (objs ?d2)"
        using s(3) Some by (simp add: d3_def fs_views(18) tree_link_def Let_def fun_eq_iff fs_views)
      have t: "dir_tree_ok (hidden_dirs ?d2) (insert a L) (objs d3)"
        unfolding o by (rule dir_tree_ok_link) (use n2 s none in \<open>simp_all add: newborn_ok_def\<close>)
      show ?thesis
        by (rule newborn_cong [OF n2 t]) (use Some s(3) n2 in \<open>simp_all add: o, simp_all add: d3_def fs_views newborn_ok_def\<close>)
    qed
    define d4 where "d4 = (if lost_n_found d3 \<noteq> None then yaffs_add_obj_to_dir d3 (lost_n_found d3) a else d3)"
    have n4: "newborn_ok d4 L a"
    proof (cases "lost_n_found d3")
      case (Some s)
      then have "s \<in> special_dirs d3" by (simp add: special_dirs_def)
      then have "s \<in> L" "variant_type (obj_at d3 s) = YAFFS_OBJECT_TYPE_DIRECTORY" using n3 unfolding newborn_ok_def by blast+
      then show ?thesis using newborn_add_to_dir [OF n3] Some by (simp add: d4_def)
    qed (use n3 in \<open>simp add: d4_def\<close>)
    let ?d5 = "(upd_core d4 a (\<lambda>ob. ob\<lparr>being_created := False\<rparr>))\<lparr>checkpoint_blocks_required := 0\<rparr>"
    have t5: "dir_tree_ok (hidden_dirs d4) (insert a L) (objs ?d5)"
      by (rule tree_cong [where os = "objs d4"]) (use n4 in \<open>auto simp: newborn_ok_def fs_views\<close>)
    have n5: "newborn_ok ?d5 L a"
      by (rule newborn_cong [OF n4 t5])
        (use n4 in \<open>auto simp: newborn_ok_def fs_views\<close>)
    have "yaffs_alloc_empty_obj dev = (Some a, ?d5)"
      by (simp add: yaffs_alloc_empty_obj_def q Some Let_def d4_def d3_def)
    then show ?thesis using n5 r by simp
  qed
qed

text \<open>A number is free when only objects whose freeing is deferred have it.\<close>

definition number_free :: "('n, 'x) yaffs_fs_scheme \<Rightarrow> slab_addr set \<Rightarrow> u32 \<Rightarrow> bool" where
  "number_free dev L number \<longleftrightarrow> (\<forall>b \<in> L. id_of dev b = number \<longrightarrow> defered_free (obj_at dev b))"

lemma newborn_named:
  assumes n: "newborn_ok dev L a" and free: "number_free dev L number"
    and nd: "obj_number (core nd) = number" "children nd = []" "parent nd = parent (objs dev a)"
    and d: "objs d = (objs dev)(a := nd)"
      "obj_bucket d = (obj_bucket dev)[hash_of number := (obj_bucket dev ! hash_of number)\<lparr>
         bucket_objs := a # bucket_objs (obj_bucket dev ! hash_of number),
         bucket_count := bucket_count (obj_bucket dev ! hash_of number) + 1\<rparr>]"
      "obj_pool_ok d (insert a L) = obj_pool_ok dev (insert a L)" "n_obj d = n_obj dev"
      "special_dirs d = special_dirs dev" "hidden_dirs d = hidden_dirs dev"
  shows "obj_table_ok d (insert a L)"
proof -
  have a: "a \<notin> L" "children (objs dev a) = []" using n by (simp_all add: newborn_ok_def)
  have "hash_ok (insert a L) (objs d) (obj_bucket d)"
    unfolding d(1,2) by (rule hash_ok_enter) (use n free nd(1) in \<open>auto simp: newborn_ok_def number_free_def\<close>)
  moreover have "dir_tree_ok (hidden_dirs d) (insert a L) (objs d)"
  proof (rule dir_tree_okI)
    have t: "dir_tree_ok (hidden_dirs dev) (insert a L) (objs dev)" using n by (simp add: newborn_ok_def)
    fix b assume b: "b \<in> insert a L"
    show "distinct (children (objs d b))" using treeD(1) [OF t b] nd(2) by (simp add: d(1))
    fix c assume c: "c \<in> set (children (objs d b))"
    then have "c \<in> set (children (objs dev b))" using nd(2) by (auto simp: d(1) split: if_splits)
    from treeD(2) [OF t b this] show "c \<in> insert a L \<and> parent (objs d c) = Some b" using nd(3) by (auto simp: d(1))
  next
    have t: "dir_tree_ok (hidden_dirs dev) (insert a L) (objs dev)" using n by (simp add: newborn_ok_def)
    fix c p assume c: "c \<in> insert a L" and q: "parent (objs d c) = Some p"
    have "parent (objs dev c) = Some p" using q nd(3) by (auto simp: d(1) split: if_splits)
    from treeD(3) [OF t c this] have p: "p \<in> insert a L" "variant_type (obj_at dev p) = YAFFS_OBJECT_TYPE_DIRECTORY"
      "c \<in> set (children (objs dev p)) \<or> (c, p) \<in> hidden_dirs dev" by simp_all
    have "p \<noteq> a" using p(2) n by (auto simp: newborn_ok_def)
    then show "p \<in> insert a L \<and> variant_type (obj_at d p) = YAFFS_OBJECT_TYPE_DIRECTORY \<and>
        (c \<in> set (children (objs d p)) \<or> (c, p) \<in> hidden_dirs d)" using p d(6) by (auto simp: d(1))
  qed
  ultimately show ?thesis
    using n nd d a by (auto simp: obj_table_ok_def newborn_ok_def)
qed

lemma add_to_dir_core: "b \<noteq> a \<Longrightarrow> obj_at (yaffs_add_obj_to_dir dev d a) b = obj_at dev b"
  by (simp add: yaffs_add_obj_to_dir_def yaffs_remove_obj_from_dir_def unlink_sibling_def fs_views Let_def split: option.split)

lemma alloc_empty_core:
  assumes "yaffs_alloc_empty_obj dev = (r, d)" "r \<noteq> Some b"
  shows "obj_at d b = obj_at dev b"
proof -
  obtain q d1 where q: "yaffs_alloc_raw_obj dev = (q, d1)" by fastforce
  have f: "objs d1 = objs dev" using fs_same_alloc(3) [of dev] q by (simp add: fs_same_def)
  show ?thesis
    using assms q f by (auto simp: yaffs_alloc_empty_obj_def Let_def fs_views add_to_dir_core split: option.splits if_splits)
qed

lemma card_bucket:
  assumes "obj_table_ok dev L" "i < YAFFS_NOBJECT_BUCKETS"
  shows "length (bucket_objs (obj_bucket dev ! i)) \<le> card L"
proof -
  have h: "hash_ok L (objs dev) (obj_bucket dev)" using assms(1) by (simp add: obj_table_ok_def)
  have "set (bucket_objs (obj_bucket dev ! i)) \<subseteq> L" using bucketD(3) [OF h assms(2)] by auto
  moreover have "finite L" using assms(1) finite_pool by (auto simp: obj_table_ok_def)
  ultimately have "card (set (bucket_objs (obj_bucket dev ! i))) \<le> card L" by (rule card_mono [rotated])
  then show ?thesis using bucketD(1) [OF h assms(2)] by (simp add: distinct_card)
qed

lemma new_obj_id_free:
  assumes ok: "obj_table_ok dev L" and few: "card L < 999999" and r: "yaffs_new_obj_id obj_id_fuel dev = (r, d)"
  shows "\<exists>number f. r = Some number \<and> d = dev\<lparr>bucket_finder := f\<rparr> \<and> (\<forall>b \<in> L. id_of dev b \<noteq> number) \<and> 0 < sint number"
proof -
  have h: "hash_ok L (objs dev) (obj_bucket dev)" using ok by (simp add: obj_table_ok_def)
  have len: "length (obj_bucket dev) = YAFFS_NOBJECT_BUCKETS" using h by (simp add: hash_ok_def)
  have "\<forall>b \<in> set (obj_bucket dev). bucket_count b < 999999"
  proof
    fix b assume "b \<in> set (obj_bucket dev)"
    then obtain i where i: "i < YAFFS_NOBJECT_BUCKETS" "b = obj_bucket dev ! i" using len by (auto simp: in_set_conv_nth)
    then show "bucket_count b < 999999" using bucketD(2) [OF h i(1)] card_bucket [OF ok i(1)] few by simp
  qed
  moreover obtain l d' where l: "yaffs_find_nice_bucket dev = (l, d')" by fastforce
  ultimately have lb: "l < YAFFS_NOBJECT_BUCKETS" and d': "\<exists>f. d' = dev\<lparr>bucket_finder := f\<rparr>"
    using find_nice_bucket [OF l] len by blast+
  let ?taken = "map (\<lambda>a. id_of dev a) (bucket_objs (obj_bucket dev ! l))"
  have "length ?taken < 2 ^ 23 - 2" using card_bucket [OF ok lb] few by simp
  then obtain m where m: "obj_id_loop obj_id_fuel ?taken (word_of_nat l) = Some m" "m \<notin> set ?taken" "hash_of m = l" "0 < sint m"
    using obj_id_loop_found [OF _ lb] by blast
  obtain f where f: "d' = dev\<lparr>bucket_finder := f\<rparr>" using d' by blast
  have "r = Some m" "d = d'" using m(1) f l r by (simp_all add: yaffs_new_obj_id_def)
  moreover have "\<forall>b \<in> L. id_of dev b \<noteq> m" using bucketD(3) [OF h lb] m(2,3) by auto
  ultimately show ?thesis using m(4) f by blast
qed

lemma table_same:
  assumes "obj_table_ok dev L" "fs_same dev d" "obj_pool_ok d L"
  shows "obj_table_ok d L"
  by (rule table_cong [OF assms(1,3)]) (use assms(2) special_same [OF assms(2)] in \<open>simp_all add: fs_same_def\<close>)

lemma table_new_obj:
  assumes ok: "obj_table_ok dev L"
    and number: "number < 0 \<and> card L < 999999 \<or> 0 \<le> number \<and> number_free dev L (word_of_int number)"
    and r: "yaffs_new_obj dev number type = (r, d)"
  shows "case r of None \<Rightarrow> obj_table_ok d L | Some a \<Rightarrow> a \<notin> L \<and> obj_table_ok d (insert a L) \<and>
    (0 \<le> number \<longrightarrow> id_of d a = word_of_int number) \<and> variant_type (obj_at d a) = type \<and> \<not> defered_free (obj_at d a)"
proof -
  obtain nr d1 where n1: "(if number < 0 then yaffs_new_obj_id obj_id_fuel dev else (Some (word_of_int number), dev)) = (nr, d1)"
    by fastforce
  obtain n where n: "nr = Some n" "obj_table_ok d1 L" "number_free d1 L n" "0 \<le> number \<longrightarrow> n = word_of_int number"
  proof (cases "number < 0")
    case True
    with n1 number obtain m f where "nr = Some m" "d1 = dev\<lparr>bucket_finder := f\<rparr>" "\<forall>b \<in> L. id_of dev b \<noteq> m"
      using new_obj_id_free [OF ok] by fastforce
    then show ?thesis using that True ok by (auto simp: number_free_def)
  qed (use n1 number ok that in auto)
  obtain tn d2 where t: "(if type = YAFFS_OBJECT_TYPE_FILE then yaffs_get_tnode d1 else (None, d1)) = (tn, d2)" by fastforce
  have f2: "fs_same d1 d2" using fs_same_alloc(1) [of d1] t by (auto simp: fs_same_def split: if_splits)
  have "obj_pool_ok d2 L" using pool_tnode(1) [of d1 L] t n(2) by (auto simp: obj_table_ok_def split: if_splits)
  then have ok2: "obj_table_ok d2 L" by (rule table_same [OF n(2) f2])
  show ?thesis
  proof (cases "type = YAFFS_OBJECT_TYPE_FILE \<and> tn = None")
    case True
    then have "r = None" "d = d2" using r n1 n(1) t by (auto simp: yaffs_new_obj_def Let_def)
    then show ?thesis using ok2 by simp
  next
    case tn: False
    obtain q d3 where q: "yaffs_alloc_empty_obj d2 = (q, d3)" by fastforce
    note a3 = table_alloc_empty [OF ok2 q]
    show ?thesis
    proof (cases q)
      case None
      have "r = None" "d = (case tn of None \<Rightarrow> d3 | Some x \<Rightarrow> yaffs_free_tnode d3 x)"
        using r n1 n(1) t tn q None by (auto simp: yaffs_new_obj_def Let_def)
      moreover have "obj_table_ok (yaffs_free_tnode d3 x) L" for x
        by (rule table_same [OF _ fs_same_alloc(2) pool_tnode(2)]) (use a3 None in \<open>simp_all add: obj_table_ok_def\<close>)
      ultimately show ?thesis using a3 None by (cases tn) simp_all
    next
      case (Some a)
      have nb: "newborn_ok d3 L a" using a3 Some by simp
      have free: "number_free d3 L n"
      proof -
        have "obj_at d3 b = obj_at d1 b" if "b \<in> L" for b
          using alloc_empty_core [OF q, of b] Some nb that f2 by (auto simp: newborn_ok_def fs_same_def)
        then show ?thesis using n(3) by (simp add: number_free_def)
      qed
      let ?hashed = "yaffs_hash_obj (upd_core d3 a (\<lambda>ob. ob\<lparr>fake := False, rename_allowed := True,
                                 unlink_allowed := True, obj_number := n\<rparr>)) a"
      let ?timed = "upd_core (upd_core ?hashed a (\<lambda>ob. ob\<lparr>variant_type := type\<rparr>)) a (yaffs_load_current_time (upd_core ?hashed a (\<lambda>ob. ob\<lparr>variant_type := type\<rparr>)) True True)"
      have res: "r = Some a" "d = (if type = YAFFS_OBJECT_TYPE_FILE then
                    upd_core ?timed a (\<lambda>ob. ob\<lparr>file_variant := \<lparr>file_size = 0, stored_size = 0,
                      shrink_size = yaffs_max_file_size ?timed, top_level = 0, top = map_option (new_level0 ?timed) tn\<rparr>\<rparr>)
                  else if type = YAFFS_OBJECT_TYPE_DIRECTORY then upd_node ?timed a (\<lambda>nd. nd\<lparr>children := []\<rparr>)
                  else ?timed)"
        using r n1 n(1) t tn q Some by (auto simp: yaffs_new_obj_def Let_def split: if_splits)
      have eq: "objs d = (objs d3)(a := objs d a)" "obj_bucket d = obj_bucket ?hashed" "obj_pool_ok d X = obj_pool_ok d3 X"
        "n_obj d = n_obj d3" "special_dirs d = special_dirs d3" "hidden_dirs d = hidden_dirs d3" for X
        unfolding res(2) by (auto simp: fs_views yaffs_hash_obj_def fun_eq_iff)
      have nd: "obj_number (core (objs d a)) = n" "children (objs d a) = []" "parent (objs d a) = parent (objs d3 a)"
        "variant_type (core (objs d a)) = type" "\<not> defered_free (core (objs d a))"
        unfolding res(2) using nb by (auto simp: fs_views yaffs_hash_obj_def yaffs_load_current_time_def Let_def newborn_ok_def)
      have b: "obj_bucket d = (obj_bucket d3)[hash_of n := (obj_bucket d3 ! hash_of n)\<lparr>
         bucket_objs := a # bucket_objs (obj_bucket d3 ! hash_of n), bucket_count := bucket_count (obj_bucket d3 ! hash_of n) + 1\<rparr>]"
        unfolding eq(2) by (simp add: yaffs_hash_obj_def upd_bucket_def fs_views)
      have "obj_table_ok d (insert a L)"
        by (rule newborn_named [OF nb free nd(1-3) eq(1) b eq(3-6)])
      then show ?thesis using res(1) nb nd n(4) by (simp add: newborn_ok_def)
    qed
  qed
qed

lemma table_free:
  assumes ok: "obj_table_ok dev L" and a: "a \<in> L" "a \<notin> special_dirs dev" "parent (objs dev a) = None" "children (objs dev a) = []"
  shows "obj_table_ok (yaffs_free_obj dev (Some a)) (if has_inode (objs dev a) then L else L - {a})"
proof (cases "has_inode (objs dev a)")
  case True
  then show ?thesis using ok by (simp add: yaffs_free_obj_def table_upd_core)
next
  case False
  have h: "hash_ok L (objs dev) (obj_bucket dev)" and p: "obj_pool_ok dev L" and n: "n_obj dev = int (card L)"
    and t: "dir_tree_ok (hidden_dirs dev) L (objs dev)"
    using ok by (simp_all add: obj_table_ok_def)
  let ?i = "hash_of (id_of dev a)"
  let ?u = "yaffs_unhash_obj dev a"
  let ?m = "map (\<lambda>b. b\<lparr>bucket_objs := remove1 a (bucket_objs b)\<rparr>) (obj_bucket dev)"
  have "a \<in> set (bucket_objs (obj_bucket dev ! ?i))" using bucketD(3) [OF h hash_less] a(1) by simp
  moreover have "obj_bucket dev ! ?i \<in> set (obj_bucket dev)" using h by (simp add: hash_ok_def)
  ultimately have in_table: "list_ex (\<lambda>b. a \<in> set (bucket_objs b)) (obj_bucket dev)" by (auto simp: list_ex_iff)
  have u: "?u = dev\<lparr>obj_bucket := ?m[?i := (?m ! ?i)\<lparr>bucket_count := bucket_count (?m ! ?i) - 1\<rparr>]\<rparr>"
    using in_table by (simp add: yaffs_unhash_obj_def upd_bucket_def Let_def)
  have d: "yaffs_free_obj dev (Some a) = (yaffs_free_raw_obj ?u a)\<lparr>n_obj := n_obj (yaffs_free_raw_obj ?u a) - 1, checkpoint_blocks_required := 0\<rparr>"
    using False by (simp add: yaffs_free_obj_def Let_def)
  have f: "fs_same ?u (yaffs_free_raw_obj ?u a)" by (rule fs_same_alloc)
  have "obj_pool_ok ?u L" using p u by (simp add: obj_pool_ok_def split: option.splits)
  then have pool: "obj_pool_ok (yaffs_free_raw_obj ?u a) (L - {a})" using a(1)
    by (force simp: yaffs_free_raw_obj_def obj_pool_ok_def split: option.splits intro: slab_ok_give)
  have card: "int (card (L - {a})) = int (card L) - 1"
    using card_Suc_Diff1 [OF finite_pool [OF p] a(1)] by linarith
  have hash: "hash_ok (L - {a}) (objs dev) (obj_bucket ?u)"
    using hash_ok_leave [OF h a(1) refl] u by simp
  have tree: "dir_tree_ok (hidden_dirs dev) (L - {a}) (objs dev)"
  proof (rule dir_tree_okI)
    fix b assume b: "b \<in> L - {a}"
    show "distinct (children (objs dev b))" using treeD(1) [OF t] b by simp
    fix c assume "c \<in> set (children (objs dev b))"
    then have "c \<in> L \<and> parent (objs dev c) = Some b" using treeD(2) [OF t, of b c] b by simp
    then show "c \<in> L - {a} \<and> parent (objs dev c) = Some b" using a(3) by auto
  next
    fix c q assume c: "c \<in> L - {a}" and q: "parent (objs dev c) = Some q"
    then have r: "q \<in> L" "variant_type (obj_at dev q) = YAFFS_OBJECT_TYPE_DIRECTORY"
      "c \<in> set (children (objs dev q)) \<or> (c, q) \<in> hidden_dirs dev" using treeD(3) [OF t _ q] by simp_all
    then have "q \<noteq> a" using a(2,4) by (auto simp: hidden_dirs_def special_dirs_def)
    then show "q \<in> L - {a} \<and> variant_type (obj_at dev q) = YAFFS_OBJECT_TYPE_DIRECTORY \<and>
        (c \<in> set (children (objs dev q)) \<or> (c, q) \<in> hidden_dirs dev)" using r by simp
  qed
  have same: "objs (yaffs_free_raw_obj ?u a) = objs dev" "n_obj (yaffs_free_raw_obj ?u a) = n_obj dev"
    "obj_bucket (yaffs_free_raw_obj ?u a) = obj_bucket ?u" "special_dirs (yaffs_free_raw_obj ?u a) = special_dirs dev"
    "hidden_dirs (yaffs_free_raw_obj ?u a) = hidden_dirs dev"
    using f special_same [OF f] by (simp_all add: fs_same_def) (simp_all add: u special_dirs_def hidden_dirs_def)
  show ?thesis
    using False pool card n hash tree ok a(2) unfolding d obj_table_ok_def by (auto simp: same)
qed

lemma table_find_or_create:
  assumes ok: "obj_table_ok dev L" and n: "0 < number" and r: "yaffs_find_or_create_by_number dev number type = (r, d)"
  shows "case r of None \<Rightarrow> obj_table_ok d L
    | Some a \<Rightarrow> obj_table_ok d (insert a L) \<and> id_of d a = word_of_int number \<and> \<not> defered_free (obj_at d a)"
proof -
  have h: "hash_ok L (objs dev) (obj_bucket dev)" using ok by (simp add: obj_table_ok_def)
  show ?thesis
  proof (cases "yaffs_find_by_number dev (word_of_int number)")
    case None
    then have "number_free dev L (word_of_int number)"
      unfolding number_free_def by (metis find_by_number_iff [OF h] option.distinct(1))
    moreover have "yaffs_new_obj dev number type = (r, d)"
      using r None n by (simp add: yaffs_find_or_create_by_number_def)
    ultimately show ?thesis using table_new_obj [OF ok, of number type r d] n by (auto split: option.splits)
  next
    case (Some a)
    then have "r = Some a" "d = dev" using r n by (auto simp: yaffs_find_or_create_by_number_def)
    moreover have "a \<in> L \<and> id_of dev a = word_of_int number \<and> \<not> defered_free (obj_at dev a)"
      using find_by_number_iff [OF h] Some by blast
    ultimately show ?thesis using ok by (simp add: insert_absorb)
  qed
qed

lemma specialD: "obj_table_ok dev L \<Longrightarrow> s \<in> special_dirs dev \<Longrightarrow> s \<in> L \<and> variant_type (obj_at dev s) = YAFFS_OBJECT_TYPE_DIRECTORY"
  by (simp add: obj_table_ok_def)

lemma table_set_name: "obj_table_ok dev L \<Longrightarrow> obj_table_ok (yaffs_set_obj_name dev a name) L"
  by (auto simp: yaffs_set_obj_name_def Let_def split: option.split intro!: table_upd_core table_upd_node)

lemma table_empty_dir:
  assumes "obj_table_ok dev L" "set cs \<subseteq> L" "t \<in> L" "variant_type (obj_at dev t) = YAFFS_OBJECT_TYPE_DIRECTORY"
  shows "obj_table_ok (fold (\<lambda>obj dev. yaffs_add_obj_to_dir dev (Some t) obj) cs dev) L"
  using assms
proof (induction cs arbitrary: dev)
  case (Cons c cs)
  let ?d = "yaffs_add_obj_to_dir dev (Some t) c"
  have "variant_type (obj_at ?d t) = YAFFS_OBJECT_TYPE_DIRECTORY"
    using Cons.prems(4) add_to_dir_core [of t c dev "Some t"]
    by (cases "t = c") (simp_all add: yaffs_add_obj_to_dir_def yaffs_remove_obj_from_dir_def unlink_sibling_def fs_views Let_def)
  then have "obj_table_ok (fold (\<lambda>obj dev. yaffs_add_obj_to_dir dev (Some t) obj) cs ?d) L"
    by (rule Cons.IH [rotated 3]) (use Cons.prems table_add_to_dir [of dev L c t] in auto)
  then show ?case by simp
qed simp

section \<open>The table as a state machine\<close>

text \<open>The calls of the layers above, with the set of the objects in use. \<open>held\<close> and \<open>released\<close> are the
  operating system taking and giving back an object; it gives back what is deleted already, and it
  asks for fewer than a million objects.\<close>

inductive obj_step ::
  "('n, 'x) yaffs_fs_scheme \<times> slab_addr set \<Rightarrow> ('n, 'x) yaffs_fs_scheme \<times> slab_addr set \<Rightarrow> bool" where
  created: "yaffs_new_obj dev (-1) type = (r, d) \<Longrightarrow> card L < 999999 \<Longrightarrow> obj_step (dev, L) (d, set_option r \<union> L)"
| wanted: "yaffs_find_or_create_by_number dev number type = (r, d) \<Longrightarrow> 0 < number \<Longrightarrow>
    obj_step (dev, L) (d, set_option r \<union> L)"
| shadowed: "0 < number \<Longrightarrow> obj_step (dev, L) (yaffs_handle_shadowed_obj dev number b,
    (if b \<and> yaffs_find_by_number dev (word_of_int number) \<noteq> None then {}
     else set_option (fst (yaffs_find_or_create_by_number dev number YAFFS_OBJECT_TYPE_FILE))) \<union> L)"
| moved: "a \<in> L \<Longrightarrow> t \<in> L \<Longrightarrow> variant_type (obj_at dev t) = YAFFS_OBJECT_TYPE_DIRECTORY \<Longrightarrow>
    obj_step (dev, L) (yaffs_add_obj_to_dir dev (Some t) a, L)"
| emptied: "a \<in> L \<Longrightarrow> t \<in> L \<Longrightarrow> variant_type (obj_at dev t) = YAFFS_OBJECT_TYPE_DIRECTORY \<Longrightarrow>
    obj_step (dev, L) (yaffs_empty_dir_to_dir dev a (Some t), L)"
| named: "obj_step (dev, L) (yaffs_set_obj_name dev a name, L)"
| held: "obj_step (dev, L) (upd_node dev a (\<lambda>nd. nd\<lparr>has_inode := True\<rparr>), L)"
| freed: "a \<in> L \<Longrightarrow> a \<notin> special_dirs dev \<Longrightarrow> children (objs dev a) = [] \<Longrightarrow>
    obj_step (dev, L) (yaffs_free_obj (yaffs_remove_obj_from_dir dev a) (Some a),
      if has_inode (objs dev a) then L else L - {a})"
| released: "a \<in> L \<Longrightarrow> a \<notin> special_dirs dev \<Longrightarrow> children (objs dev a) = [] \<Longrightarrow> parent (objs dev a) = None \<Longrightarrow>
    obj_step (dev, L) (yaffs_handle_defered_free (upd_node dev a (\<lambda>nd. nd\<lparr>has_inode := False\<rparr>)) a,
      if defered_free (obj_at dev a) then L - {a} else L)"

lemma obj_step_ok: "obj_step x y \<Longrightarrow> obj_table_ok (fst x) (snd x) \<Longrightarrow> obj_table_ok (fst y) (snd y)"
proof (induction rule: obj_step.induct)
  case (created dev type r d L)
  then show ?case using table_new_obj [of dev L "-1" type r d] by (cases r) simp_all
next
  case (wanted dev number type r d L)
  then show ?case using table_find_or_create [of dev L number type r d] by (cases r) simp_all
next
  case (shadowed number dev L b)
  then have ok: "obj_table_ok dev L" by simp
  obtain r d1 where r: "yaffs_find_or_create_by_number dev number YAFFS_OBJECT_TYPE_FILE = (r, d1)" by fastforce
  note t = table_find_or_create [OF ok shadowed(1) r]
  show ?case
  proof (cases "b \<and> yaffs_find_by_number dev (word_of_int number) \<noteq> None")
    case True
    then show ?thesis using ok by (simp add: yaffs_handle_shadowed_obj_def)
  next
    case nb: False
    show ?thesis
    proof (cases r)
      case None
      then have "yaffs_handle_shadowed_obj dev number b = d1" using nb r by (auto simp: yaffs_handle_shadowed_obj_def)
      then show ?thesis using t None nb r by simp
    next
      case (Some a)
      let ?d2 = "upd_core d1 a (\<lambda>ob. ob\<lparr>is_shadowed := True\<rparr>)"
      have ok2: "obj_table_ok ?d2 (insert a L)" using t Some by (simp add: table_upd_core)
      have "obj_table_ok (yaffs_add_obj_to_dir ?d2 (unlinked_dir ?d2) a) (insert a L)"
      proof (cases "unlinked_dir ?d2")
        case None
        then show ?thesis using ok2 by (simp add: yaffs_add_obj_to_dir_def)
      next
        case (Some u)
        then show ?thesis
          using table_add_to_dir [OF ok2, of a u] specialD [OF ok2, of u] by (simp add: special_dirs_def)
      qed
      moreover have "yaffs_handle_shadowed_obj dev number b = upd_core (yaffs_add_obj_to_dir ?d2 (unlinked_dir ?d2) a) a
          (\<lambda>ob. ob\<lparr>file_variant := (file_variant ob)\<lparr>shrink_size := 0\<rparr>, obj_valid := True\<rparr>)"
        unfolding yaffs_handle_shadowed_obj_def if_not_P [OF nb] using r Some by (simp add: Let_def)
      ultimately have "obj_table_ok (yaffs_handle_shadowed_obj dev number b) (insert a L)" by (simp add: table_upd_core)
      then show ?thesis unfolding fst_conv snd_conv if_not_P [OF nb] using r Some by simp
    qed
  qed
next
  case (moved a L t dev)
  then show ?case using table_add_to_dir [of dev L a t] by simp
next
  case (emptied a L t dev)
  have "set (children (objs dev a)) \<subseteq> L"
    using emptied treeD(2) [of "hidden_dirs dev" L "objs dev" a] by (auto simp: obj_table_ok_def)
  then show ?case using table_empty_dir [of dev L "children (objs dev a)" t] emptied by (simp add: yaffs_empty_dir_to_dir_def)
next
  case (named dev L a name)
  then show ?case using table_set_name [of dev L a name] by simp
next
  case (held dev L a)
  then show ?case by (simp add: table_upd_node)
next
  case (freed a L dev)
  then have ok: "obj_table_ok dev L" by simp
  let ?r = "yaffs_remove_obj_from_dir dev a"
  have s: "special_dirs ?r = special_dirs dev" by (simp add: yaffs_remove_obj_from_dir_def fs_views)
  have s2: "children (objs ?r a) = []" "has_inode (objs ?r a) = has_inode (objs dev a)"
    using freed by (simp_all add: yaffs_remove_obj_from_dir_def fs_views unlink_sibling_def)
  show ?case
    using table_free [OF table_remove(1) [OF ok freed(1)] freed(1) _ table_remove(2) [OF ok freed(1)] s2(1)] s s2 freed
    by simp
next
  case (released a L dev)
  let ?u = "upd_node dev a (\<lambda>nd. nd\<lparr>has_inode := False\<rparr>)"
  have u: "obj_table_ok ?u L" using released by (simp add: table_upd_node)
  have "defered_free (obj_at ?u a) = defered_free (obj_at dev a)" by (simp add: fs_views)
  then show ?case
    using table_free [OF u released(1)] u released by (simp add: yaffs_handle_defered_free_def fs_views)
qed

lemma obj_steps_ok: "obj_step\<^sup>*\<^sup>* x y \<Longrightarrow> obj_table_ok (fst x) (snd x) \<Longrightarrow> obj_table_ok (fst y) (snd y)"
  by (induction rule: rtranclp_induct) (use obj_step_ok in blast)+

section \<open>The initial directories\<close>

lemma table_fake_dir:
  assumes ok: "obj_table_ok dev L" and n: "0 \<le> number" "number_free dev L (word_of_int number)"
    and r: "yaffs_create_fake_dir dev number mode = (Some a, d)"
  shows "a \<notin> L \<and> obj_table_ok d (insert a L) \<and> id_of d a = word_of_int number \<and>
    variant_type (obj_at d a) = YAFFS_OBJECT_TYPE_DIRECTORY \<and> \<not> defered_free (obj_at d a)"
proof -
  obtain q d1 where q: "yaffs_new_obj dev number YAFFS_OBJECT_TYPE_DIRECTORY = (q, d1)" by fastforce
  have qa: "q = Some a" "d = upd_core d1 a (\<lambda>ob. ob\<lparr>fake := True, rename_allowed := False,
             unlink_allowed := False, deleted := False, unlinked := False, yst_mode := mode, hdr_chunk := 0\<rparr>)"
    using r q by (auto simp: yaffs_create_fake_dir_def split: option.splits)
  show ?thesis
    using table_new_obj [OF ok _ q] n qa by (simp add: table_upd_core fs_views)
qed

text \<open>Entering a directory that is in the table as a special one.\<close>

lemma tree_mono: "dir_tree_ok H L os \<Longrightarrow> H \<subseteq> H' \<Longrightarrow> dir_tree_ok H' L os"
  unfolding dir_tree_ok_def by blast

lemma table_special:
  assumes "obj_table_ok dev L" "obj_pool_ok d L = obj_pool_ok dev L" "n_obj d = n_obj dev" "obj_bucket d = obj_bucket dev" "objs d = objs dev"
    "hidden_dirs dev \<subseteq> hidden_dirs d" "special_dirs d \<subseteq> insert a (special_dirs dev)"
    "a \<in> L" "variant_type (obj_at dev a) = YAFFS_OBJECT_TYPE_DIRECTORY"
  shows "obj_table_ok d L"
  using assms tree_mono [OF _ assms(6)] unfolding obj_table_ok_def by (metis insertE subsetD)

text \<open>The fields that point to the special directories.\<close>

definition dir_ptrs :: "('n, 'x) yaffs_fs_scheme \<Rightarrow> _" where
  "dir_ptrs dev = (root_dir dev, lost_n_found dev, unlinked_dir dev, del_dir dev, hide_lost_n_found dev)"

lemma ptrs_same: "fs_same dev d \<Longrightarrow> dir_ptrs d = dir_ptrs dev"
  by (simp add: fs_same_def dir_ptrs_def)

lemma ptrs_view [simp]:
  "dir_ptrs (upd_node dev a f) = dir_ptrs dev" "dir_ptrs (upd_core dev a g) = dir_ptrs dev"
  "dir_ptrs (upd_bucket dev i h) = dir_ptrs dev" "dir_ptrs (unlink_sibling dev a) = dir_ptrs dev"
  "dir_ptrs (dev\<lparr>n_obj := k\<rparr>) = dir_ptrs dev" "dir_ptrs (dev\<lparr>checkpoint_blocks_required := k\<rparr>) = dir_ptrs dev"
  "dir_ptrs (dev\<lparr>n_unlinked_files := k\<rparr>) = dir_ptrs dev" "dir_ptrs (dev\<lparr>bucket_finder := m\<rparr>) = dir_ptrs dev"
  by (simp_all add: upd_core_def upd_node_def upd_bucket_def unlink_sibling_def dir_ptrs_def)

lemma ptrs_add_to_dir [simp]: "dir_ptrs (yaffs_add_obj_to_dir dev d a) = dir_ptrs dev"
  by (simp add: yaffs_add_obj_to_dir_def yaffs_remove_obj_from_dir_def Let_def split: option.split)

lemma ptrs_alloc_empty: "yaffs_alloc_empty_obj dev = (r, d) \<Longrightarrow> dir_ptrs d = dir_ptrs dev"
  using ptrs_same [OF fs_same_alloc(3) [of dev]]
  by (auto simp: yaffs_alloc_empty_obj_def Let_def split: option.splits prod.splits if_splits)

lemma parent_alloc_empty:
  assumes "yaffs_alloc_empty_obj dev = (Some a, d)" "lost_n_found dev = None" "root_dir dev \<noteq> Some a"
  shows "parent (objs d a) = root_dir dev"
proof -
  obtain q d1 where q: "yaffs_alloc_raw_obj dev = (q, d1)" by fastforce
  have f: "root_dir d1 = root_dir dev" "lost_n_found d1 = None" using fs_same_alloc(3) [of dev] q assms(2) by (simp_all add: fs_same_def)
  have v: "root_dir (upd_node x b g) = root_dir x" "root_dir (upd_core x b h) = root_dir x"
    "lost_n_found (upd_node x b g) = lost_n_found x" "lost_n_found (upd_core x b h) = lost_n_found x" for x :: "('a, 'b) yaffs_fs_scheme" and b g h
    by (simp_all add: upd_node_def upd_core_def)
  show ?thesis
    using assms q f by (auto simp: yaffs_alloc_empty_obj_def Let_def fs_views v zero_node_def split: option.splits)
qed

lemma nice_bucket_same: "fs_same dev (snd (nice_bucket_loop k lowest l dev))"
proof (induction k arbitrary: lowest l dev)
  case (Suc k)
  have "fs_same dev (snd (nice_bucket_loop k x y (dev\<lparr>bucket_finder := f\<rparr>)))" for x y f
    using Suc [of "dev\<lparr>bucket_finder := f\<rparr>" x y] by (simp add: fs_same_def)
  moreover have "fs_same dev dev" by (simp add: fs_same_def)
  ultimately show ?case by (simp add: Let_def)
qed (simp add: fs_same_def)

text \<open>A new object leaves the contents of the others and the special directories alone.\<close>

lemma new_obj_others:
  assumes r: "yaffs_new_obj dev number type = (Some a, d)"
  shows "b \<noteq> a \<Longrightarrow> obj_at d b = obj_at dev b" "dir_ptrs d = dir_ptrs dev"
    "lost_n_found dev = None \<Longrightarrow> root_dir dev \<noteq> Some a \<Longrightarrow> parent (objs d a) = root_dir dev"
proof -
  obtain nr d1 where n1: "(if number < 0 then yaffs_new_obj_id obj_id_fuel dev else (Some (word_of_int number), dev)) = (nr, d1)"
    by fastforce
  have o1: "fs_same dev d1"
  proof (cases "number < 0")
    case True
    then show ?thesis using n1 nice_bucket_same [of dev 10 999999 999]
      by (auto simp: yaffs_new_obj_id_def yaffs_find_nice_bucket_def split: prod.splits)
  qed (use n1 in \<open>simp add: fs_same_def\<close>)
  obtain tn d2 where t: "(if type = YAFFS_OBJECT_TYPE_FILE then yaffs_get_tnode d1 else (None, d1)) = (tn, d2)" by fastforce
  have o2: "fs_same d1 d2" using fs_same_alloc(1) [of d1] t by (auto simp: fs_same_def split: if_splits)
  obtain q d3 where q: "yaffs_alloc_empty_obj d2 = (q, d3)" by fastforce
  have qa: "q = Some a" using r n1 t q by (auto simp: yaffs_new_obj_def Let_def split: option.splits if_splits)
  have res: "objs d = (objs d3)(a := objs d a)" "parent (objs d a) = parent (objs d3 a)" "dir_ptrs d = dir_ptrs d3"
    using r n1 t q qa by (auto simp: yaffs_new_obj_def Let_def fs_views yaffs_hash_obj_def fun_eq_iff split: option.splits if_splits)
  show "obj_at d b = obj_at dev b" if "b \<noteq> a"
    using alloc_empty_core [OF q, of b] qa that o1 o2 by (subst res(1)) (simp add: fs_same_def)
  have p: "dir_ptrs d2 = dir_ptrs dev" using ptrs_same [OF o1] ptrs_same [OF o2] by simp
  then show "dir_ptrs d = dir_ptrs dev" using res(3) ptrs_alloc_empty [OF q] by simp
  show "parent (objs d a) = root_dir dev" if "lost_n_found dev = None" "root_dir dev \<noteq> Some a"
    using parent_alloc_empty [of d2 a d3] q qa p that res(2) by (simp add: dir_ptrs_def)
qed

lemma fake_dir_others:
  assumes r: "yaffs_create_fake_dir dev number mode = (Some a, d)"
  shows "b \<noteq> a \<Longrightarrow> obj_at d b = obj_at dev b" "dir_ptrs d = dir_ptrs dev"
    "lost_n_found dev = None \<Longrightarrow> root_dir dev \<noteq> Some a \<Longrightarrow> parent (objs d a) = root_dir dev"
proof -
  obtain q d1 where q: "yaffs_new_obj dev number YAFFS_OBJECT_TYPE_DIRECTORY = (q, d1)" by fastforce
  then have qa: "q = Some a" "d = upd_core d1 a (\<lambda>ob. ob\<lparr>fake := True, rename_allowed := False,
             unlink_allowed := False, deleted := False, unlinked := False, yst_mode := mode, hdr_chunk := 0\<rparr>)"
    using r by (auto simp: yaffs_create_fake_dir_def split: option.splits)
  note o = new_obj_others [OF q [unfolded qa(1)]]
  show "b \<noteq> a \<Longrightarrow> obj_at d b = obj_at dev b" "dir_ptrs d = dir_ptrs dev"
    "lost_n_found dev = None \<Longrightarrow> root_dir dev \<noteq> Some a \<Longrightarrow> parent (objs d a) = root_dir dev"
    using o by (simp_all add: qa(2) fs_views)
qed

text \<open>A fresh device: after the set-up the four directories, and nothing else, are in the table.\<close>

lemma init_table:
  assumes "allocator dev = None" "allocator (yaffs_init_tnodes_and_objs junk dev) \<noteq> None"
  shows "obj_table_ok ((yaffs_init_tnodes_and_objs junk dev)\<lparr>lost_n_found := None, root_dir := None,
     unlinked_dir := None, del_dir := None\<rparr>) {}"
proof -
  let ?d = "dev\<lparr>n_obj := 0, n_tnodes := 0\<rparr>"
  have k: "kmalloc_ok dev (n_kmalloc dev)"
    using assms by (auto simp: yaffs_init_tnodes_and_objs_def yaffs_init_raw_tnodes_and_objs_def kmalloc_def Let_def split: if_splits)
  have p: "obj_pool_ok (yaffs_init_raw_tnodes_and_objs junk ?d) {}"
    by (rule init_pools_ok(2)) (use assms(1) k in simp_all)
  have n: "n_obj (yaffs_init_raw_tnodes_and_objs junk ?d) = 0"
    by (simp add: yaffs_init_raw_tnodes_and_objs_def yaffs_init_raw_objs_def yaffs_init_raw_tnodes_def kmalloc_def Let_def split: option.split)
  show ?thesis
    using p n by (auto simp: obj_table_ok_def yaffs_init_tnodes_and_objs_def Let_def special_dirs_def obj_pool_ok_def
        hash_ok_def bucket_ok_def dir_tree_ok_def split: option.splits)
qed

text \<open>Taking the lost and found directory out of the list of the root.\<close>

lemma table_hide:
  assumes ok: "obj_table_ok dev L" and f: "(f, e) \<in> hidden_dirs dev" "parent (objs dev f) = Some e"
  shows "obj_table_ok (unlink_sibling dev f) L"
proof -
  let ?d = "unlink_sibling dev f"
  have t: "dir_tree_ok (hidden_dirs dev) L (objs dev)" using ok by (simp add: obj_table_ok_def)
  have oc: "children (objs ?d y) = remove1 f (children (objs dev y))" "parent (objs ?d y) = parent (objs dev y)"
    "core (objs ?d y) = core (objs dev y)" for y
    by (simp_all add: unlink_sibling_def)
  have "dir_tree_ok (hidden_dirs dev) L (objs ?d)"
  proof (rule dir_tree_okI)
    fix y assume y: "y \<in> L"
    show "distinct (children (objs ?d y))" using treeD(1) [OF t y] by (simp add: oc)
    fix c assume "c \<in> set (children (objs ?d y))"
    then have "c \<in> set (children (objs dev y))" using set_remove1_subset by (fastforce simp: oc)
    from treeD(2) [OF t y this] show "c \<in> L \<and> parent (objs ?d c) = Some y" by (simp add: oc)
  next
    fix c p assume c: "c \<in> L" and "parent (objs ?d c) = Some p"
    then have q: "parent (objs dev c) = Some p" by (simp add: oc)
    then have "c \<in> set (children (objs ?d p)) \<or> (c, p) \<in> hidden_dirs dev"
      using treeD(3) [OF t c q] f by (cases "c = f") (simp_all add: oc in_set_remove1)
    then show "p \<in> L \<and> variant_type (obj_at ?d p) = YAFFS_OBJECT_TYPE_DIRECTORY \<and>
        (c \<in> set (children (objs ?d p)) \<or> (c, p) \<in> hidden_dirs dev)" using treeD(3) [OF t c q] by (simp add: oc)
  qed
  moreover have "hash_ok L (objs ?d) (obj_bucket dev)"
    by (rule hash_cong [where os = "objs dev"]) (use ok in \<open>simp_all add: oc obj_table_ok_def\<close>)
  ultimately show ?thesis using ok unfolding obj_table_ok_def oc(3) by (simp add: fs_views)
qed

lemma create_needs_pool: "allocator dev = None \<Longrightarrow> 0 \<le> number \<Longrightarrow> fst (yaffs_create_fake_dir dev number mode) = None"
  by (simp add: yaffs_create_fake_dir_def yaffs_new_obj_def yaffs_alloc_empty_obj_def yaffs_alloc_raw_obj_def Let_def)

lemma initial_dirs:
  assumes al: "allocator dev = None" and r: "yaffs_create_initial_dir (yaffs_init_tnodes_and_objs junk dev) = (YAFFS_OK, d)"
  shows "obj_table_ok d (special_dirs d)" "\<exists>u x t l. unlinked_dir d = Some u \<and> del_dir d = Some x \<and> root_dir d = Some t \<and>
    lost_n_found d = Some l \<and> id_of d u = YAFFS_OBJECTID_UNLINKED \<and> id_of d x = YAFFS_OBJECTID_DELETED \<and>
    id_of d t = YAFFS_OBJECTID_ROOT \<and> id_of d l = YAFFS_OBJECTID_LOSTNFOUND \<and>
    \<not> defered_free (obj_at d u) \<and> \<not> defered_free (obj_at d x) \<and> \<not> defered_free (obj_at d t) \<and> \<not> defered_free (obj_at d l)"
proof -
  define d0 where "d0 = (yaffs_init_tnodes_and_objs junk dev)\<lparr>lost_n_found := None, root_dir := None,
     unlinked_dir := None, del_dir := None\<rparr>"
  obtain uo d1 where u: "yaffs_create_fake_dir d0 (uint YAFFS_OBJECTID_UNLINKED) S_IFDIR = (uo, d1)" by fastforce
  obtain xo d2 where x: "yaffs_create_fake_dir (d1\<lparr>unlinked_dir := uo\<rparr>) (uint YAFFS_OBJECTID_DELETED) S_IFDIR = (xo, d2)" by fastforce
  obtain ro d3 where t: "yaffs_create_fake_dir (d2\<lparr>del_dir := xo\<rparr>) (uint YAFFS_OBJECTID_ROOT) (YAFFS_ROOT_MODE OR S_IFDIR) = (ro, d3)" by fastforce
  obtain lo d4 where l: "yaffs_create_fake_dir (d3\<lparr>root_dir := ro\<rparr>) (uint YAFFS_OBJECTID_LOSTNFOUND) (YAFFS_LOSTNFOUND_MODE OR S_IFDIR) = (lo, d4)" by fastforce
  define d5 where "d5 = d4\<lparr>lost_n_found := lo\<rparr>"
  have res: "(case (lo, ro, uo, xo) of
           (Some lost, Some _, Some _, Some _) \<Rightarrow>
             (YAFFS_OK, if hide_lost_n_found d5 then unlink_sibling d5 lost
                        else yaffs_add_obj_to_dir d5 (root_dir d5) lost)
         | _ \<Rightarrow> (YAFFS_FAIL, d5)) = (YAFFS_OK, d)"
    using r u x t l unfolding yaffs_create_initial_dir_def Let_def d0_def [symmetric] d5_def by simp
  then obtain a b e f where some: "uo = Some a" "xo = Some b" "ro = Some e" "lo = Some f"
    by (auto split: option.splits)
  note u = u [unfolded some] and x = x [unfolded some] and t = t [unfolded some] and l = l [unfolded some]
  have d: "d = (if hide_lost_n_found d5 then unlink_sibling d5 f else yaffs_add_obj_to_dir d5 (root_dir d5) f)"
    using res some by simp
  have "allocator d0 \<noteq> None" using create_needs_pool [of d0 "uint YAFFS_OBJECTID_UNLINKED" S_IFDIR] u by auto
  then have k0: "obj_table_ok d0 {}" unfolding d0_def by (intro init_table [OF al]) simp
  have p0: "dir_ptrs d0 = (None, None, None, None, hide_lost_n_found d0)" by (simp add: dir_ptrs_def d0_def)
  note fu = table_fake_dir [OF k0 _ _ u] and ou = fake_dir_others [OF u]
  have fu: "obj_table_ok d1 {a}" "id_of d1 a = YAFFS_OBJECTID_UNLINKED"
    "variant_type (obj_at d1 a) = YAFFS_OBJECT_TYPE_DIRECTORY" "\<not> defered_free (obj_at d1 a)"
    using fu by (simp_all add: number_free_def)
  let ?d1 = "d1\<lparr>unlinked_dir := Some a\<rparr>"
  have p1: "dir_ptrs ?d1 = (None, None, Some a, None, hide_lost_n_found d0)" using ou(2) p0 by (simp add: dir_ptrs_def)
  have k1: "obj_table_ok ?d1 {a}"
    by (rule table_special [OF fu(1), where a = a])
      (use p1 ou(2) p0 fu in \<open>auto simp: hidden_dirs_def special_dirs_def dir_ptrs_def\<close>)
  note fx = table_fake_dir [OF k1 _ _ x] and ox = fake_dir_others [OF x]
  have n2: "b \<noteq> a" using fx fu(2) by (simp add: number_free_def)
  have fx: "b \<noteq> a" "obj_table_ok d2 {b, a}" "id_of d2 b = YAFFS_OBJECTID_DELETED"
    "variant_type (obj_at d2 b) = YAFFS_OBJECT_TYPE_DIRECTORY" "\<not> defered_free (obj_at d2 b)" "obj_at d2 a = obj_at d1 a"
    using fx fu(2) ox(1) [OF n2 [symmetric]] by (simp_all add: number_free_def)
  let ?d2 = "d2\<lparr>del_dir := Some b\<rparr>"
  have p2: "dir_ptrs ?d2 = (None, None, Some a, Some b, hide_lost_n_found d0)" using ox(2) p1 by (simp add: dir_ptrs_def)
  have k2: "obj_table_ok ?d2 {b, a}"
    by (rule table_special [OF fx(2), where a = b])
      (use p1 p2 ox(2) fx in \<open>auto simp: hidden_dirs_def special_dirs_def dir_ptrs_def\<close>)
  note ft = table_fake_dir [OF k2 _ _ t] and ot = fake_dir_others [OF t]
  have n3: "e \<noteq> a" "e \<noteq> b" using ft fu(2) fx by (simp_all add: number_free_def)
  have ft: "e \<noteq> a" "e \<noteq> b" "obj_table_ok d3 {e, b, a}" "id_of d3 e = YAFFS_OBJECTID_ROOT"
    "variant_type (obj_at d3 e) = YAFFS_OBJECT_TYPE_DIRECTORY" "\<not> defered_free (obj_at d3 e)"
    "obj_at d3 a = obj_at d1 a" "obj_at d3 b = obj_at d2 b"
    using ft fu(2) fx ot(1) [OF n3(1) [symmetric]] ot(1) [OF n3(2) [symmetric]] by (simp_all add: number_free_def)
  let ?d3 = "d3\<lparr>root_dir := Some e\<rparr>"
  have p3: "dir_ptrs ?d3 = (Some e, None, Some a, Some b, hide_lost_n_found d0)" using ot(2) p2 by (simp add: dir_ptrs_def)
  have k3: "obj_table_ok ?d3 {e, b, a}"
    by (rule table_special [OF ft(3), where a = e])
      (use p2 p3 ot(2) ft in \<open>auto simp: hidden_dirs_def special_dirs_def dir_ptrs_def\<close>)
  note fl = table_fake_dir [OF k3 _ _ l] and ol = fake_dir_others [OF l]
  have n4: "f \<noteq> a" "f \<noteq> b" "f \<noteq> e" using fl fu(2) fx ft by (simp_all add: number_free_def)
  have fl: "f \<noteq> a" "f \<noteq> b" "f \<noteq> e" "obj_table_ok d4 {f, e, b, a}" "id_of d4 f = YAFFS_OBJECTID_LOSTNFOUND"
    "variant_type (obj_at d4 f) = YAFFS_OBJECT_TYPE_DIRECTORY" "\<not> defered_free (obj_at d4 f)"
    "obj_at d4 a = obj_at d1 a" "obj_at d4 b = obj_at d2 b" "obj_at d4 e = obj_at d3 e"
    using fl fu(2) fx ft ol(1) [OF n4(1) [symmetric]] ol(1) [OF n4(2) [symmetric]] ol(1) [OF n4(3) [symmetric]] by (simp_all add: number_free_def)
  have pf: "parent (objs d4 f) = Some e" using ol(3) p3 fl(3) by (simp add: dir_ptrs_def)
  have p5: "dir_ptrs d5 = (Some e, Some f, Some a, Some b, hide_lost_n_found d0)"
    using ol(2) p3 some by (simp add: dir_ptrs_def d5_def)
  have k5: "obj_table_ok d5 {f, e, b, a}"
    by (rule table_special [OF fl(4), where a = f])
      (use p3 p5 ol(2) fl some in \<open>auto simp: hidden_dirs_def special_dirs_def dir_ptrs_def d5_def\<close>)
  have sp: "special_dirs y = {f, e, b, a}" if "dir_ptrs y = dir_ptrs d5" for y
    using that p5 by (auto simp: special_dirs_def dir_ptrs_def)
  have pd: "dir_ptrs d = dir_ptrs d5" by (simp add: d)
  have "obj_table_ok d {f, e, b, a}"
  proof (cases "hide_lost_n_found d5")
    case True
    have "(f, e) \<in> hidden_dirs d5" using p5 True by (simp add: hidden_dirs_def dir_ptrs_def)
    then show ?thesis using table_hide [OF k5] pf True by (simp add: d d5_def)
  next
    case False
    then show ?thesis
      using table_add_to_dir [OF k5, of f e] specialD [OF k5, of e] sp [of d5] p5 by (simp add: d dir_ptrs_def)
  qed
  then show "obj_table_ok d (special_dirs d)" using sp [OF pd] by simp
  have same: "obj_number (obj_at d y) = obj_number (obj_at d4 y) \<and> defered_free (obj_at d y) = defered_free (obj_at d4 y)" for y
    by (cases "y = f") (simp_all add: d unlink_sibling_def yaffs_add_obj_to_dir_def yaffs_remove_obj_from_dir_def fs_views Let_def d5_def split: option.split)
  show "\<exists>u x t l. unlinked_dir d = Some u \<and> del_dir d = Some x \<and> root_dir d = Some t \<and>
    lost_n_found d = Some l \<and> id_of d u = YAFFS_OBJECTID_UNLINKED \<and> id_of d x = YAFFS_OBJECTID_DELETED \<and>
    id_of d t = YAFFS_OBJECTID_ROOT \<and> id_of d l = YAFFS_OBJECTID_LOSTNFOUND \<and>
    \<not> defered_free (obj_at d u) \<and> \<not> defered_free (obj_at d x) \<and> \<not> defered_free (obj_at d t) \<and> \<not> defered_free (obj_at d l)"
    using pd p5 same fu fx ft fl by (simp add: dir_ptrs_def)
qed

text \<open>With a heap that always has memory the set-up succeeds.\<close>

definition heap_full :: "('n, 'x) yaffs_mem_dev_scheme \<Rightarrow> bool" where
  "heap_full dev \<longleftrightarrow> allocator dev \<noteq> None \<and> (\<forall>n. kmalloc_ok dev n)"

lemma heap_full_view [simp]:
  "heap_full (upd_node dev a f) = heap_full dev" "heap_full (upd_core dev a g) = heap_full dev"
  "heap_full (upd_bucket dev i h) = heap_full dev" "heap_full (unlink_sibling dev a) = heap_full dev"
  "heap_full (dev\<lparr>n_obj := k\<rparr>) = heap_full dev" "heap_full (dev\<lparr>checkpoint_blocks_required := k\<rparr>) = heap_full dev"
  "heap_full (dev\<lparr>n_unlinked_files := k\<rparr>) = heap_full dev" "heap_full (dev\<lparr>root_dir := p\<rparr>) = heap_full dev"
  "heap_full (dev\<lparr>lost_n_found := p\<rparr>) = heap_full dev" "heap_full (dev\<lparr>unlinked_dir := p\<rparr>) = heap_full dev"
  "heap_full (dev\<lparr>del_dir := p\<rparr>) = heap_full dev"
  by (simp_all add: upd_core_def upd_node_def upd_bucket_def unlink_sibling_def heap_full_def)

lemma heap_full_add_to_dir [simp]: "heap_full (yaffs_add_obj_to_dir dev d a) = heap_full dev"
  by (simp add: yaffs_add_obj_to_dir_def yaffs_remove_obj_from_dir_def Let_def split: option.split)

lemma heap_full_alloc:
  assumes "heap_full dev"
  shows "\<exists>a d. yaffs_alloc_raw_obj dev = (Some a, d) \<and> heap_full d"
proof -
  obtain al where al: "allocator dev = Some al" using assms by (auto simp: heap_full_def)
  have k: "kmalloc_ok dev = (\<lambda>_. True)" using assms by (auto simp: heap_full_def)
  show ?thesis
  proof (cases "free_objs al")
    case Nil
    then show ?thesis using al k
      by (simp add: yaffs_alloc_raw_obj_def yaffs_create_free_objs_def kmalloc_def YAFFS_ALLOCATION_NOBJECTS_def
          heap_full_def upt_conv_Cons)
  qed (use al k in \<open>simp add: yaffs_alloc_raw_obj_def heap_full_def\<close>)
qed

lemma heap_full_fake_dir:
  assumes "heap_full dev" "0 \<le> number"
  shows "\<exists>a d. yaffs_create_fake_dir dev number mode = (Some a, d) \<and> heap_full d"
proof -
  obtain a d1 where a: "yaffs_alloc_raw_obj dev = (Some a, d1)" "heap_full d1" using heap_full_alloc [OF assms(1)] by blast
  then have "\<exists>d. yaffs_alloc_empty_obj dev = (Some a, d) \<and> heap_full d"
    by (simp add: yaffs_alloc_empty_obj_def Let_def split: option.split)
  then obtain d where "yaffs_alloc_empty_obj dev = (Some a, d)" "heap_full d" by blast
  then show ?thesis
    using assms(2) by (simp add: yaffs_create_fake_dir_def yaffs_new_obj_def yaffs_hash_obj_def Let_def)
qed

lemma heap_full_starts:
  assumes "heap_full (yaffs_init_tnodes_and_objs junk dev)"
  shows "\<exists>d. yaffs_create_initial_dir (yaffs_init_tnodes_and_objs junk dev) = (YAFFS_OK, d)"
proof -
  define d0 where "d0 = (yaffs_init_tnodes_and_objs junk dev)\<lparr>lost_n_found := None, root_dir := None, unlinked_dir := None, del_dir := None\<rparr>"
  have h0: "heap_full d0" using assms by (simp add: d0_def)
  obtain u d1 where u: "yaffs_create_fake_dir d0 (uint YAFFS_OBJECTID_UNLINKED) S_IFDIR = (Some u, d1)" "heap_full (d1\<lparr>unlinked_dir := Some u\<rparr>)"
    using heap_full_fake_dir [OF h0, of "uint YAFFS_OBJECTID_UNLINKED" S_IFDIR] by auto
  obtain x d2 where x: "yaffs_create_fake_dir (d1\<lparr>unlinked_dir := Some u\<rparr>) (uint YAFFS_OBJECTID_DELETED) S_IFDIR = (Some x, d2)" "heap_full (d2\<lparr>del_dir := Some x\<rparr>)"
    using heap_full_fake_dir [OF u(2), of "uint YAFFS_OBJECTID_DELETED" S_IFDIR] by auto
  obtain t d3 where t: "yaffs_create_fake_dir (d2\<lparr>del_dir := Some x\<rparr>) (uint YAFFS_OBJECTID_ROOT) (YAFFS_ROOT_MODE OR S_IFDIR) = (Some t, d3)" "heap_full (d3\<lparr>root_dir := Some t\<rparr>)"
    using heap_full_fake_dir [OF x(2), of "uint YAFFS_OBJECTID_ROOT" "YAFFS_ROOT_MODE OR S_IFDIR"] by auto
  obtain l d4 where l: "yaffs_create_fake_dir (d3\<lparr>root_dir := Some t\<rparr>) (uint YAFFS_OBJECTID_LOSTNFOUND) (YAFFS_LOSTNFOUND_MODE OR S_IFDIR) = (Some l, d4)"
    using heap_full_fake_dir [OF t(2), of "uint YAFFS_OBJECTID_LOSTNFOUND" "YAFFS_LOSTNFOUND_MODE OR S_IFDIR"] by auto
  show ?thesis
    unfolding yaffs_create_initial_dir_def d0_def [symmetric] Let_def u(1) x(1) t(1) l prod.case option.case
    by simp
qed

section \<open>Properties\<close>

text \<open>C9: From the set-up of the initial directories on, through any sequence of creations, look-ups
  that create, moves, renamings and frees, immediate or deferred and whether the memory suffices or
  not, the object table stays well formed: every object in use is in the bucket of its number, once,
  the bucket counts and the object count are right, no two live objects share a number, and the
  lists of children agree with the parents, which are directories in use.\<close>

theorem obj_table_kept:
  assumes "allocator dev = None"
    and "yaffs_create_initial_dir (yaffs_init_tnodes_and_objs junk dev) = (YAFFS_OK, d0)"
    and "obj_step\<^sup>*\<^sup>* (d0, special_dirs d0) (d, L)"
  shows "obj_table_ok d L"
  using obj_steps_ok [OF assms(3)] initial_dirs(1) [OF assms(1,2)] by simp

text \<open>C20: A number finds the live object that has it, and nothing else: whatever was created,
  moved or freed before, an object whose freeing is deferred never hides a live one.\<close>

theorem find_by_number_exact:
  assumes "obj_step\<^sup>*\<^sup>* (d0, L0) (d, L)" and "obj_table_ok d0 L0"
  shows "yaffs_find_by_number d number = Some a \<longleftrightarrow> a \<in> L \<and> id_of d a = number \<and> \<not> defered_free (obj_at d a)"
proof -
  have "obj_table_ok d L" using obj_steps_ok [OF assms(1)] assms(2) by simp
  then show ?thesis by (intro find_by_number_iff) (simp add: obj_table_ok_def)
qed

text \<open>C21: The search for a new object number, which has no bound of its own in the code, ends
  with a positive number that no object in use has, as long as there are fewer than a million objects.\<close>

theorem new_obj_id_unused:
  assumes "obj_step\<^sup>*\<^sup>* (d0, L0) (d, L)" and "obj_table_ok d0 L0" and "card L < 999999"
  shows "\<exists>number d'. yaffs_new_obj_id obj_id_fuel d = (Some number, d') \<and> 0 < sint number \<and> (\<forall>a \<in> L. id_of d a \<noteq> number)"
proof -
  have ok: "obj_table_ok d L" using obj_steps_ok [OF assms(1)] assms(2) by simp
  obtain r d' where r: "yaffs_new_obj_id obj_id_fuel d = (r, d')" by fastforce
  show ?thesis using new_obj_id_free [OF ok assms(3) r] r by auto
qed

section \<open>Witnesses\<close>

text \<open>The small device with an empty object table.\<close>

definition fs_dev :: "unit yaffs_fs" where
  "fs_dev = yaffs_mem_dev.extend heap_dev (yaffs_fs.fields (\<lambda>_. zero_node) [] 0 None None None None False 0)"

lemma fs_dev_none: "allocator fs_dev = None"
  by (simp add: fs_dev_def heap_dev_def yaffs_dev.defs yaffs_mem_dev.defs yaffs_fs.defs small_dev_def zero_dev_def)

lemma fs_dev_starts: "\<exists>d. yaffs_create_initial_dir (yaffs_init_tnodes_and_objs junk_allocator fs_dev) = (YAFFS_OK, d)"
  by (rule heap_full_starts)
    (simp add: heap_full_def fs_dev_def heap_dev_def yaffs_dev.defs yaffs_mem_dev.defs yaffs_fs.defs small_dev_def zero_dev_def
      yaffs_init_tnodes_and_objs_def yaffs_init_raw_tnodes_and_objs_def yaffs_init_raw_tnodes_def yaffs_init_raw_objs_def
      kmalloc_def Let_def)

lemma few_special: "card (special_dirs dev) \<le> 4"
proof -
  let ?l = "map the [root_dir dev, lost_n_found dev, unlinked_dir dev, del_dir dev]"
  have "special_dirs dev \<subseteq> set ?l" by (auto simp: special_dirs_def)
  then have "card (special_dirs dev) \<le> card (set ?l)" by (intro card_mono) simp_all
  also have "\<dots> \<le> length ?l" by (rule card_length)
  finally show ?thesis by simp
qed

lemma obj_table_kept_witness:
  "\<exists>d0 r d L. yaffs_new_obj (d0 :: unit yaffs_fs) (-1) YAFFS_OBJECT_TYPE_FILE = (r, d) \<and> obj_table_ok d L"
proof -
  obtain d0 where d0: "yaffs_create_initial_dir (yaffs_init_tnodes_and_objs junk_allocator fs_dev) = (YAFFS_OK, d0)"
    using fs_dev_starts by blast
  obtain r d where r: "yaffs_new_obj d0 (-1) YAFFS_OBJECT_TYPE_FILE = (r, d)" by fastforce
  have "card (special_dirs d0) < 999999" using few_special [of d0] by simp
  then have "obj_step (d0, special_dirs d0) (d, set_option r \<union> special_dirs d0)" by (rule obj_step.created [OF r])
  then have "obj_step\<^sup>*\<^sup>* (d0, special_dirs d0) (d, set_option r \<union> special_dirs d0)" by (rule r_into_rtranclp)
  from obj_table_kept [OF fs_dev_none d0 this] show ?thesis using r by blast
qed

lemma find_by_number_exact_witness:
  "\<exists>d r. yaffs_find_by_number (d :: unit yaffs_fs) YAFFS_OBJECTID_ROOT = Some r \<and> root_dir d = Some r"
proof -
  obtain d0 where d0: "yaffs_create_initial_dir (yaffs_init_tnodes_and_objs junk_allocator fs_dev) = (YAFFS_OK, d0)"
    using fs_dev_starts by blast
  note ok = initial_dirs(1) [OF fs_dev_none d0]
  obtain t where t: "root_dir d0 = Some t" "id_of d0 t = YAFFS_OBJECTID_ROOT" "\<not> defered_free (obj_at d0 t)"
    using initial_dirs(2) [OF fs_dev_none d0] by blast
  then have "yaffs_find_by_number d0 YAFFS_OBJECTID_ROOT = Some t"
    using find_by_number_exact [OF rtranclp.rtrancl_refl ok, of YAFFS_OBJECTID_ROOT t] by (auto simp: special_dirs_def)
  then show ?thesis using t(1) by blast
qed

lemma new_obj_id_unused_witness:
  "\<exists>d number d'. yaffs_new_obj_id obj_id_fuel (d :: unit yaffs_fs) = (Some number, d') \<and> 0 < sint number"
proof -
  obtain d0 where d0: "yaffs_create_initial_dir (yaffs_init_tnodes_and_objs junk_allocator fs_dev) = (YAFFS_OK, d0)"
    using fs_dev_starts by blast
  have "card (special_dirs d0) < 999999" using few_special [of d0] by simp
  from new_obj_id_unused [OF rtranclp.rtrancl_refl initial_dirs(1) [OF fs_dev_none d0] this]
  show ?thesis by blast
qed

end
