(* ===== verification/Yaffs_Marshal.thy ===== *)
theory Yaffs_Marshal
  imports Yaffs_Live
begin

text \<open>
  Storing the tags of a yaffs2 chunk (\<open>yaffs_tagsmarshall.c\<close>): the functions of the tags handler built
  on the functions of the driver, which read and write the data and the spare bytes of a page. The
  packed tags go to the spare bytes, with or without their own code, or in-band behind the data.

  The allocation layer relies on a tags handler with \<open>flash_ok\<close> and \<open>stores_ok\<close>; the property is that the
  marshalled handler has them when the raw driver reads back what it acknowledged. Memory the code
  leaves uninitialised (the packed tags on the stack, the padding in them, the caller's tags of a failed
  read) is the argument \<open>junk\<close>. A call with neither data nor tags is a \<open>BUG()\<close>, which only prints.
\<close>

unbundle bit_operations_syntax

record marshall_junk =
  junk_pt :: yaffs_packed_tags2
  junk_pad :: "u8 \<times> u8 \<times> u8"
  junk_tags :: yaffs_ext_tags

section \<open>The packed tags as memory\<close>

text \<open>The parities are aligned to four bytes, so three bytes of padding follow the column parity.\<close>

definition pt2_bytes :: "bool \<Rightarrow> u8 \<times> u8 \<times> u8 \<Rightarrow> yaffs_packed_tags2 \<Rightarrow> u8 list" where
  "pt2_bytes le pad pt =
     (case pad of (p, q, r) \<Rightarrow> pt_bytes le (pt_t pt) @ [col_parity (pt_ecc pt), p, q, r] @
        u32_bytes le (line_parity (pt_ecc pt)) @ u32_bytes le (line_parity_prime (pt_ecc pt)))"

definition pt2_of_bytes :: "bool \<Rightarrow> u8 list \<Rightarrow> yaffs_packed_tags2" where
  "pt2_of_bytes le bs =
     \<lparr>pt_t = pt_of_bytes le (take 16 bs),
      pt_ecc = \<lparr>col_parity = bs ! 16, line_parity = bytes_u32 le (take 4 (drop 20 bs)),
                line_parity_prime = bytes_u32 le (take 4 (drop 24 bs))\<rparr>\<rparr>"

definition packed_tags_size :: "('n, 'x) yaffs_dev_scheme \<Rightarrow> nat" where
  "packed_tags_size dev = (if no_tags_ecc (param dev) then 16 else 28)"

section \<open>The handler\<close>

definition yaffs_tags_marshall_write ::
  "marshall_junk \<Rightarrow> ('n, 'x) yaffs_dev_scheme \<Rightarrow> int \<Rightarrow> u8 list option \<Rightarrow> yaffs_ext_tags \<Rightarrow>
   int \<times> ('n, 'x) yaffs_dev_scheme" where
  "yaffs_tags_marshall_write junk dev nand_chunk data tags =
     (let le = host_le dev;
          inband = inband_tags (param dev);
          tags_ecc = \<not> no_tags_ecc (param dev);
          at = data_bytes_per_chunk dev;
          (data, pt) =
            (case data of
               None \<Rightarrow> (None, junk_pt junk)
             | Some bs \<Rightarrow>
                 if inband then
                   (Some (take at bs @ pt_bytes le (yaffs_pack_tags2_tags_only dev tags) @ drop (at + 16) bs), junk_pt junk)
                 else (Some bs, yaffs_pack_tags2 le dev (junk_pt junk) tags tags_ecc));
          packed = (if tags_ecc then pt2_bytes le (junk_pad junk) pt else pt_bytes le (pt_t pt));
          (retval, n) = drv_write_chunk_fn (drv dev) (nand dev) nand_chunk data (total_bytes_per_chunk (param dev))
             (if inband then None else Some packed) (if inband then 0 else packed_tags_size dev)
      in (retval, dev\<lparr>nand := n\<rparr>))"

text \<open>\<open>want\<close> says whether a data buffer was passed, \<open>tags\<close> is the caller's structure. In-band tags are
  read into a scratch buffer when no data is wanted.\<close>

definition yaffs_tags_marshall_read ::
  "marshall_junk \<Rightarrow> ('n, 'x) yaffs_dev_scheme \<Rightarrow> int \<Rightarrow> bool \<Rightarrow> yaffs_ext_tags option \<Rightarrow>
   int \<times> u8 list \<times> yaffs_ext_tags option \<times> ('n, 'x) yaffs_dev_scheme" where
  "yaffs_tags_marshall_read junk dev nand_chunk want tags =
     (let le = host_le dev;
          inband = inband_tags (param dev);
          tags_ecc = \<not> no_tags_ecc (param dev);
          total = total_bytes_per_chunk (param dev);
          have_data = (want \<or> inband);
          (retval, data, spare, ecc, n) =
            (if inband \<or> (have_data \<and> tags = None) then drv_read_chunk_fn (drv dev) (nand dev) nand_chunk have_data total False 0
             else if tags \<noteq> None then
               drv_read_chunk_fn (drv dev) (nand dev) nand_chunk have_data total True (packed_tags_size dev)
             else (0, [], [], YAFFS_ECC_RESULT_UNKNOWN, nand dev));
          dev = dev\<lparr>nand := n\<rparr>
      in if retval = YAFFS_FAIL then (YAFFS_FAIL, data, tags, dev)
         else
          (let tags = (case tags of None \<Rightarrow> None
                | Some _ \<Rightarrow>
                    Some (if inband then
                            yaffs_unpack_tags2_tags_only dev (pt_of_bytes le (take 16 (drop (data_bytes_per_chunk dev) data)))
                          else
                            (let pt = (if tags_ecc then pt2_of_bytes le (take 28 spare)
                                       else (junk_pt junk)\<lparr>pt_t := pt_of_bytes le (take 16 spare)\<rparr>)
                             in fst (yaffs_unpack_tags2 le dev pt tags_ecc))));
               (tags, dev) =
                 (case tags of None \<Rightarrow> (None, dev)
                  | Some t \<Rightarrow>
                      if ecc = YAFFS_ECC_RESULT_UNFIXED then
                        (Some (t\<lparr>ecc_result := YAFFS_ECC_RESULT_UNFIXED\<rparr>),
                         upd_stats dev (\<lambda>s. s\<lparr>n_ecc_unfixed := n_ecc_unfixed s + 1\<rparr>))
                      else (Some t, dev));
               (tags, dev) =
                 (case tags of None \<Rightarrow> (None, dev)
                  | Some t \<Rightarrow>
                      if ecc = YAFFS_ECC_RESULT_FIXED then
                        (Some (if ecc_result t \<le> YAFFS_ECC_RESULT_NO_ERROR then t\<lparr>ecc_result := YAFFS_ECC_RESULT_FIXED\<rparr> else t),
                         upd_stats dev (\<lambda>s. s\<lparr>n_ecc_fixed := n_ecc_fixed s + 1\<rparr>))
                      else (Some t, dev))
           in (if ecc < YAFFS_ECC_RESULT_UNFIXED then YAFFS_OK else YAFFS_FAIL, data, tags, dev)))"

text \<open>The first chunk of the block is read for its tags only. When that read fails the tags are
  what the stack held.\<close>

definition yaffs_tags_marshall_query_block ::
  "marshall_junk \<Rightarrow> ('n, 'x) yaffs_dev_scheme \<Rightarrow> int \<Rightarrow> int \<times> yaffs_block_state \<times> u32 \<times> ('n, 'x) yaffs_dev_scheme" where
  "yaffs_tags_marshall_query_block junk dev block_no =
     (let (retval, n) = drv_check_bad_fn (drv dev) (nand dev) block_no;
          dev = dev\<lparr>nand := n\<rparr>;
          (state, seq, dev) =
            (if retval = YAFFS_FAIL then (YAFFS_BLOCK_STATE_DEAD, 0, dev)
             else
              (let (_, _, t, dev) = yaffs_tags_marshall_read junk dev (block_no * cpb dev) False (Some (junk_tags junk));
                   t = the t
               in if chunk_used t \<noteq> 0 then (YAFFS_BLOCK_STATE_NEEDS_SCAN, seq_number t, dev)
                  else (YAFFS_BLOCK_STATE_EMPTY, 0, dev)))
      in (if retval = 0 then YAFFS_OK else YAFFS_FAIL, state, seq, dev))"

definition yaffs_tags_marshall_mark_bad :: "('n, 'x) yaffs_dev_scheme \<Rightarrow> int \<Rightarrow> int \<times> ('n, 'x) yaffs_dev_scheme" where
  "yaffs_tags_marshall_mark_bad dev block_no =
     (let (retval, n) = drv_mark_bad_fn (drv dev) (nand dev) block_no in (retval, dev\<lparr>nand := n\<rparr>))"

text \<open>Installing the handler: functions the board support already set are kept (\<open>preset\<close>). A handler
  of the device record works on the state of the driver; the configuration it uses is the device's,
  and the two counters of corrected reads are not carried over.\<close>

type_synonym 'n tags_preset =
  "('n \<Rightarrow> int \<Rightarrow> u8 list option \<Rightarrow> yaffs_ext_tags \<Rightarrow> int \<times> 'n) option \<times>
   ('n \<Rightarrow> int \<Rightarrow> bool \<Rightarrow> int \<times> u8 list \<times> yaffs_ext_tags \<times> 'n) option \<times>
   ('n \<Rightarrow> int \<Rightarrow> int \<times> yaffs_block_state \<times> u32 \<times> 'n) option \<times> ('n \<Rightarrow> int \<Rightarrow> int \<times> 'n) option"

definition yaffs_tags_marshall_install ::
  "marshall_junk \<Rightarrow> 'n tags_preset \<Rightarrow> ('n, 'x) yaffs_dev_scheme \<Rightarrow> ('n, 'x) yaffs_dev_scheme" where
  "yaffs_tags_marshall_install junk preset dev =
     (if \<not> is_yaffs2 (param dev) then dev
      else
       (case preset of (w, r, q, m) \<Rightarrow>
          dev\<lparr>tagger := \<lparr>
            write_chunk_tags_fn = (case w of Some f \<Rightarrow> f
              | None \<Rightarrow> (\<lambda>n c data tags. let (res, d) = yaffs_tags_marshall_write junk (dev\<lparr>nand := n\<rparr>) c data tags in (res, nand d))),
            read_chunk_tags_fn = (case r of Some f \<Rightarrow> f
              | None \<Rightarrow> (\<lambda>n c want. let (res, data, t, d) = yaffs_tags_marshall_read junk (dev\<lparr>nand := n\<rparr>) c want (Some (junk_tags junk))
                  in (res, data, the t, nand d))),
            query_block_fn = (case q of Some f \<Rightarrow> f
              | None \<Rightarrow> (\<lambda>n b. let (res, st, seq, d) = yaffs_tags_marshall_query_block junk (dev\<lparr>nand := n\<rparr>) b in (res, st, seq, nand d))),
            mark_bad_fn = (case m of Some f \<Rightarrow> f
              | None \<Rightarrow> (\<lambda>n b. let (res, d) = yaffs_tags_marshall_mark_bad (dev\<lparr>nand := n\<rparr>) b in (res, nand d)))\<rparr>\<rparr>))"

section \<open>What the raw driver must do\<close>

text \<open>The pages as the driver reads them back, with the spare bytes unless the tags are in-band.\<close>

definition raw_read :: "('n, 'x) yaffs_dev_scheme \<Rightarrow> 'n \<Rightarrow> int \<Rightarrow> int \<times> u8 list \<times> u8 list \<times> yaffs_ecc_result" where
  "raw_read dev n c =
     (case drv_read_chunk_fn (drv dev) n c True (total_bytes_per_chunk (param dev)) (\<not> inband_tags (param dev))
         (if inband_tags (param dev) then 0 else packed_tags_size dev) of (r, d, b, e, _) \<Rightarrow> (r, d, b, e))"

definition raw_flash_ok :: "('n, 'x) yaffs_dev_scheme \<Rightarrow> bool" where
  "raw_flash_ok dev \<longleftrightarrow> chunk_offset dev = block_offset dev * cpb dev \<and>
     (\<forall>n c wd dl wb bl r d b e n'. drv_read_chunk_fn (drv dev) n c wd dl wb bl = (r, d, b, e, n') \<longrightarrow> raw_read dev n' = raw_read dev n) \<and>
     (\<forall>n c d dl b bl x. x \<noteq> c \<longrightarrow> raw_read dev (snd (drv_write_chunk_fn (drv dev) n c d dl b bl)) x = raw_read dev n x) \<and>
     (\<forall>n b x. x div cpb dev \<noteq> b \<longrightarrow>
        raw_read dev (snd (drv_erase_fn (drv dev) n b)) x = raw_read dev n x \<and>
        raw_read dev (snd (drv_mark_bad_fn (drv dev) n b)) x = raw_read dev n x)"

definition raw_stores_ok :: "('n, 'x) yaffs_dev_scheme \<Rightarrow> bool" where
  "raw_stores_ok dev \<longleftrightarrow> (\<forall>n c d b n'. total_bytes_per_chunk (param dev) \<le> length d \<longrightarrow>
     drv_write_chunk_fn (drv dev) n c (Some d) (total_bytes_per_chunk (param dev)) b
       (if inband_tags (param dev) then 0 else packed_tags_size dev) = (YAFFS_OK, n') \<longrightarrow>
     (case raw_read dev n' c of (r, d', b', e) \<Rightarrow> r \<noteq> YAFFS_FAIL \<and> e < YAFFS_ECC_RESULT_UNFIXED \<and>
        take (total_bytes_per_chunk (param dev)) d' = take (total_bytes_per_chunk (param dev)) d \<and>
        (case b of None \<Rightarrow> True | Some bs \<Rightarrow> take (packed_tags_size dev) b' = take (packed_tags_size dev) bs)))"

section \<open>The contract of the handler\<close>

interpretation pt2c: byte_codec "pt2_bytes le pad" "pt2_of_bytes le" 28 for le pad
proof unfold_locales
  show "pt2_of_bytes le (pt2_bytes le pad x) = x" for x
    by (cases pad) (simp add: pt2_of_bytes_def pt2_bytes_def ptc.dec_enc ptc.length_enc nth_append)
  show "length (pt2_bytes le pad x) = 28" for x
    by (cases pad) (simp add: pt2_bytes_def ptc.length_enc)
qed

lemma unpack_packed:
  assumes "tags_fit t"
  shows "fst (yaffs_unpack_tags2 le dev (yaffs_pack_tags2 le dev pt t ecc) ecc) = (stored_tags t)\<lparr>ecc_result := YAFFS_ECC_RESULT_NO_ERROR\<rparr>"
  using assms ptc.intact [of le "yaffs_pack_tags2_tags_only dev t"]
  by (simp add: yaffs_unpack_tags2_def yaffs_pack_tags2_def unpack_pack_tags_only ptc.dec_enc Let_def)

lemma unpack_ignores_ecc:
  "fst (yaffs_unpack_tags2 le dev (pt\<lparr>pt_t := p\<rparr>) False) = (yaffs_unpack_tags2_tags_only dev p)\<lparr>ecc_result := YAFFS_ECC_RESULT_NO_ERROR\<rparr>"
  by (simp add: yaffs_unpack_tags2_def)

text \<open>What the reader makes of a page.\<close>

definition page_tags :: "marshall_junk \<Rightarrow> ('n, 'x) yaffs_dev_scheme \<Rightarrow> u8 list \<Rightarrow> u8 list \<Rightarrow> yaffs_ecc_result \<Rightarrow> yaffs_ext_tags" where
  "page_tags junk dev d b e =
     (let t = (if inband_tags (param dev) then
                 yaffs_unpack_tags2_tags_only dev (pt_of_bytes (host_le dev) (take 16 (drop (data_bytes_per_chunk dev) d)))
               else fst (yaffs_unpack_tags2 (host_le dev) dev
                 (if no_tags_ecc (param dev) then (junk_pt junk)\<lparr>pt_t := pt_of_bytes (host_le dev) (take 16 b)\<rparr>
                  else pt2_of_bytes (host_le dev) (take 28 b)) (\<not> no_tags_ecc (param dev))))
      in if e = YAFFS_ECC_RESULT_UNFIXED then t\<lparr>ecc_result := YAFFS_ECC_RESULT_UNFIXED\<rparr>
         else if e = YAFFS_ECC_RESULT_FIXED \<and> ecc_result t \<le> YAFFS_ECC_RESULT_NO_ERROR
              then t\<lparr>ecc_result := YAFFS_ECC_RESULT_FIXED\<rparr> else t)"

lemma pack_config:
  assumes "dev_config d = dev_config dev"
  shows "yaffs_unpack_tags2_tags_only d = yaffs_unpack_tags2_tags_only dev"
    "yaffs_unpack_tags2 le d = yaffs_unpack_tags2 le dev" "yaffs_pack_tags2_tags_only d = yaffs_pack_tags2_tags_only dev"
    "yaffs_pack_tags2 le d = yaffs_pack_tags2 le dev"
proof -
  have e: "yaffs_do_endian_packed_tags2 d = yaffs_do_endian_packed_tags2 dev"
    using dev_configD(7) [OF assms] by (simp add: fun_eq_iff yaffs_do_endian_packed_tags2_def)
  show u: "yaffs_unpack_tags2_tags_only d = yaffs_unpack_tags2_tags_only dev"
    by (rule ext) (simp only: yaffs_unpack_tags2_tags_only_def e)
  show "yaffs_unpack_tags2 le d = yaffs_unpack_tags2 le dev"
    by (intro ext) (simp only: yaffs_unpack_tags2_def u)
  show p: "yaffs_pack_tags2_tags_only d = yaffs_pack_tags2_tags_only dev"
    by (rule ext) (simp only: yaffs_pack_tags2_tags_only_def e)
  show "yaffs_pack_tags2 le d = yaffs_pack_tags2 le dev"
    by (intro ext) (simp only: yaffs_pack_tags2_def p)
qed

lemma marshall_flash_read:
  assumes "is_yaffs2 (param dev)" "raw_read dev n x = (r, d, b, e)"
  shows "flash_read (yaffs_tags_marshall_install junk (None, None, None, None) dev) n x =
    (if r = YAFFS_FAIL then (YAFFS_FAIL, d, junk_tags junk)
     else (if e < YAFFS_ECC_RESULT_UNFIXED then YAFFS_OK else YAFFS_FAIL, d, page_tags junk dev d b e))"
proof -
  have c: "dev_config (dev\<lparr>nand := m\<rparr>) = dev_config dev" for m by (simp add: dev_config_def)
  note u = pack_config [OF c]
  obtain n' where n: "drv_read_chunk_fn (drv dev) n x True (total_bytes_per_chunk (param dev)) (\<not> inband_tags (param dev))
      (if inband_tags (param dev) then 0 else packed_tags_size dev) = (r, d, b, e, n')"
    using assms(2) by (auto simp: raw_read_def split: prod.splits)
  show ?thesis
    using assms(1) n
    by (cases "inband_tags (param dev)")
      (auto simp: flash_read_def yaffs_tags_marshall_install_def yaffs_tags_marshall_read_def packed_tags_size_def
        page_tags_def u Let_def upd_stats_def)
qed

lemma install_fields:
  assumes "is_yaffs2 (param dev)"
  shows "param (yaffs_tags_marshall_install junk ps dev) = param dev" "drv (yaffs_tags_marshall_install junk ps dev) = drv dev"
    "chunk_offset (yaffs_tags_marshall_install junk ps dev) = chunk_offset dev"
    "block_offset (yaffs_tags_marshall_install junk ps dev) = block_offset dev"
    "data_bytes_per_chunk (yaffs_tags_marshall_install junk ps dev) = data_bytes_per_chunk dev"
  using assms by (simp_all add: yaffs_tags_marshall_install_def split: prod.split)

lemma raw_rd:
  assumes "raw_flash_ok dev" "drv_read_chunk_fn (drv dev) n c wd dl wb bl = (r, d, b, e, n')"
  shows "raw_read dev n' = raw_read dev n"
proof -
  have "\<forall>n c wd dl wb bl r d b e n'. drv_read_chunk_fn (drv dev) n c wd dl wb bl = (r, d, b, e, n') \<longrightarrow> raw_read dev n' = raw_read dev n"
    using assms(1) unfolding raw_flash_ok_def by (elim conjE) assumption
  from this [rule_format, OF assms(2)] show ?thesis .
qed

lemma marshall_write_nand:
  "\<exists>d dl b bl. nand (snd (yaffs_tags_marshall_write junk dev c data tags)) = snd (drv_write_chunk_fn (drv dev) (nand dev) c d dl b bl)"
  by (simp add: yaffs_tags_marshall_write_def Let_def case_prod_beta split del: if_split) (intro exI, rule refl)

lemma marshall_flash_ok:
  assumes "is_yaffs2 (param dev)" and raw: "raw_flash_ok dev"
  shows "flash_ok (yaffs_tags_marshall_install junk (None, None, None, None) dev)" (is "flash_ok ?m")
proof -
  note f = install_fields [OF assms(1), of junk "(None, None, None, None)"]
  have same: "flash_read ?m n' x = flash_read ?m n x" if "raw_read dev n' x = raw_read dev n x" for n n' x
    using marshall_flash_read [OF assms(1), of n x _ _ _ _ junk] marshall_flash_read [OF assms(1), of n' x _ _ _ _ junk] that
    by (metis prod_cases4)
  have rd: "raw_read dev n' = raw_read dev n"
    if "read_chunk_tags_fn (tagger ?m) n c w = (r, data, tags, n')" for n c w r data tags n'
  proof -
    have nand: "nand (snd (snd (snd (yaffs_tags_marshall_read junk (dev\<lparr>nand := n\<rparr>) c w (Some (junk_tags junk)))))) = n'"
      using that assms(1) by (auto simp: yaffs_tags_marshall_install_def split: prod.splits)
    have "\<exists>wd dl wb bl r d b e. drv_read_chunk_fn (drv dev) n c wd dl wb bl = (r, d, b, e, n')"
      using nand by (auto simp: yaffs_tags_marshall_read_def Let_def upd_stats_def split: prod.splits if_splits; blast)
    then show ?thesis by (elim exE) (rule raw_rd [OF raw])
  qed
  have wr: "raw_read dev (snd (write_chunk_tags_fn (tagger ?m) n c data tags)) x = raw_read dev n x" if "x \<noteq> c" for n c data tags x
  proof -
    have "snd (write_chunk_tags_fn (tagger ?m) n c data tags) = nand (snd (yaffs_tags_marshall_write junk (dev\<lparr>nand := n\<rparr>) c data tags))"
      using assms(1) by (simp add: yaffs_tags_marshall_install_def case_prod_beta)
    then have "\<exists>d dl b bl. snd (write_chunk_tags_fn (tagger ?m) n c data tags) = snd (drv_write_chunk_fn (drv dev) n c d dl b bl)"
      using marshall_write_nand [of junk "dev\<lparr>nand := n\<rparr>" c data tags] by simp
    then show ?thesis using raw that by (auto simp: raw_flash_ok_def)
  qed
  have mb: "snd (mark_bad_fn (tagger ?m) n b) = snd (drv_mark_bad_fn (drv dev) n b)" for n b
    using assms(1) by (simp add: yaffs_tags_marshall_install_def yaffs_tags_marshall_mark_bad_def split: prod.split)
  have off: "chunk_offset dev = block_offset dev * cpb dev" using raw unfolding raw_flash_ok_def by (elim conjE)
  have block: "raw_read dev (snd (drv_erase_fn (drv dev) n b)) x = raw_read dev n x"
    "raw_read dev (snd (drv_mark_bad_fn (drv dev) n b)) x = raw_read dev n x" if "x div cpb dev \<noteq> b" for n b x
    using raw that by (simp_all add: raw_flash_ok_def)
  show ?thesis
    unfolding flash_ok_def f mb
  proof (intro conjI allI impI)
    fix n c w r data tags n' assume "read_chunk_tags_fn (tagger ?m) n c w = (r, data, tags, n')"
    from rd [OF this] show "flash_read ?m n' = flash_read ?m n" by (intro ext same) simp
  next
    fix n c data tags x assume "x \<noteq> (c :: int)"
    from wr [OF this] show "flash_read ?m (snd (write_chunk_tags_fn (tagger ?m) n c data tags)) x = flash_read ?m n x" by (rule same)
  next
    fix n b x assume "x div cpb dev \<noteq> b"
    note bl = block [OF this]
    show "flash_read ?m (snd (drv_erase_fn (drv dev) n b)) x = flash_read ?m n x"
      "flash_read ?m (snd (drv_mark_bad_fn (drv dev) n b)) x = flash_read ?m n x"
      "flash_read ?m (snd (drv_mark_bad_fn (drv dev) n b)) x = flash_read ?m n x"
      by (rule same [OF bl(1)], rule same [OF bl(2)], rule same [OF bl(2)])
  qed (rule off)
qed

lemma plain_stored:
  assumes "plain_tags t"
  shows "tags_fit t" "obj_id (stored_tags t) = obj_id t" "chunk_id (stored_tags t) = chunk_id t" "n_bytes (stored_tags t) = n_bytes t"
  using assms
  by (auto simp: plain_tags_def tags_sound_def tags_fit_def stored_tags_def yaffs_check_tags_extra_packable_def Let_def zero_tags_def split: if_splits)

lemma stored_tags_ecc [simp]: "(stored_tags t)\<lparr>ecc_result := YAFFS_ECC_RESULT_UNKNOWN\<rparr> = stored_tags t"
  by (simp add: stored_tags_def zero_tags_def Let_def)

definition reads_back :: "('n, 'x) yaffs_dev_scheme \<Rightarrow> bool" where
  "reads_back dev \<longleftrightarrow> (\<forall>n c data tags n'. tags_fit tags \<and> total_bytes_per_chunk (param dev) \<le> length data \<longrightarrow>
     write_chunk_tags_fn (tagger dev) n c (Some data) tags = (YAFFS_OK, n') \<longrightarrow>
     (case flash_read dev n' c of (r, data', tags') \<Rightarrow>
        r = YAFFS_OK \<and> take (data_bytes_per_chunk dev) data' = take (data_bytes_per_chunk dev) data \<and>
        tags'\<lparr>ecc_result := YAFFS_ECC_RESULT_UNKNOWN\<rparr> = stored_tags tags))"

lemma reads_back_stores_ok: "reads_back dev \<Longrightarrow> stores_ok dev"
proof -
  have eq: "obj_id t' = obj_id t \<and> chunk_id t' = chunk_id t \<and> n_bytes t' = n_bytes t"
    if "plain_tags t" "t'\<lparr>ecc_result := YAFFS_ECC_RESULT_UNKNOWN\<rparr> = stored_tags t" for t t' :: yaffs_ext_tags
    using plain_stored [OF that(1)] that(2) by (metis yaffs_ext_tags.select_convs(2-4) yaffs_ext_tags.surjective yaffs_ext_tags.update_convs(5))
  assume rb: "reads_back dev"
  show ?thesis
    unfolding stores_ok_def
  proof (intro allI impI)
    fix n c data t n'
    assume "plain_tags t \<and> total_bytes_per_chunk (param dev) \<le> length data"
      and w: "write_chunk_tags_fn (tagger dev) n c (Some data) t = (YAFFS_OK, n')"
    then have p: "plain_tags t" "tags_fit t \<and> total_bytes_per_chunk (param dev) \<le> length data" using plain_stored(1) by auto
    from rb [unfolded reads_back_def, rule_format, OF p(2) w] eq [OF p(1)]
    show "case flash_read dev n' c of (r, data', t') \<Rightarrow>
        r = YAFFS_OK \<and> take (data_bytes_per_chunk dev) data' = take (data_bytes_per_chunk dev) data \<and>
        obj_id t' = obj_id t \<and> chunk_id t' = chunk_id t \<and> n_bytes t' = n_bytes t" by (auto split: prod.splits)
  qed
qed

lemma marshall_reads_back:
  assumes y2: "is_yaffs2 (param dev)" and raw: "raw_stores_ok dev"
    and sizes: "data_bytes_per_chunk dev + (if inband_tags (param dev) then 16 else 0) = total_bytes_per_chunk (param dev)"
  shows "reads_back (yaffs_tags_marshall_install junk (None, None, None, None) dev)" (is "reads_back ?m")
proof -
  note f = install_fields [OF y2, of junk "(None, None, None, None)"]
  let ?le = "host_le dev" and ?at = "data_bytes_per_chunk dev" and ?total = "total_bytes_per_chunk (param dev)"
  have cfg: "dev_config (dev\<lparr>nand := m\<rparr>) = dev_config dev" for m by (simp add: dev_config_def)
  show ?thesis
    unfolding reads_back_def f
  proof (intro allI impI)
    fix n c data tags n'
    assume pt: "tags_fit tags \<and> ?total \<le> length data"
      and w: "write_chunk_tags_fn (tagger ?m) n c (Some data) tags = (YAFFS_OK, n')"
    note ps = conjunct1 [OF pt]
    let ?packed = "yaffs_pack_tags2 ?le dev (junk_pt junk) tags (\<not> no_tags_ecc (param dev))"
    let ?d = "if inband_tags (param dev) then take ?at data @ pt_bytes ?le (yaffs_pack_tags2_tags_only dev tags) @ drop (?at + 16) data else data"
    let ?b = "if inband_tags (param dev) then None
      else Some (if no_tags_ecc (param dev) then pt_bytes ?le (pt_t ?packed) else pt2_bytes ?le (junk_pad junk) ?packed)"
    have drv: "drv_write_chunk_fn (drv dev) n c (Some ?d) ?total ?b (if inband_tags (param dev) then 0 else packed_tags_size dev) = (YAFFS_OK, n')"
      using w y2 by (auto simp: yaffs_tags_marshall_install_def yaffs_tags_marshall_write_def pack_config [OF cfg] packed_tags_size_def
          Let_def split: prod.splits)
    have len: "?total \<le> length ?d" using pt sizes by (auto simp: ptc.length_enc)
    obtain r d' b' e where rr: "raw_read dev n' c = (r, d', b', e)" by (metis prod_cases4)
    have raw': "r \<noteq> YAFFS_FAIL" "e < YAFFS_ECC_RESULT_UNFIXED" "take ?total d' = take ?total ?d"
      "case ?b of None \<Rightarrow> True | Some bs \<Rightarrow> take (packed_tags_size dev) b' = take (packed_tags_size dev) bs"
      using raw [unfolded raw_stores_ok_def, rule_format, OF len drv] rr by simp_all
    have data: "take ?at d' = take ?at data"
    proof -
      have "take ?at (take ?total d') = take ?at (take ?total ?d)" using raw'(3) by simp
      then show ?thesis using sizes pt by (auto simp: min_def split: if_splits)
    qed
    have tags: "(page_tags junk dev d' b' e)\<lparr>ecc_result := YAFFS_ECC_RESULT_UNKNOWN\<rparr> = stored_tags tags"
    proof (cases "inband_tags (param dev)")
      case True
      have "take 16 (drop ?at (take ?total d')) = take 16 (drop ?at (take ?total ?d))" using raw'(3) by simp
      then have "take 16 (drop ?at d') = pt_bytes ?le (yaffs_pack_tags2_tags_only dev tags)"
        using sizes pt True by (simp add: drop_take ptc.length_enc)
      then show ?thesis using True ps by (simp add: page_tags_def ptc.dec_enc unpack_pack_tags_only Let_def)
    next
      case inb: False
      show ?thesis
      proof (cases "no_tags_ecc (param dev)")
        case True
        then have "take 16 b' = pt_bytes ?le (yaffs_pack_tags2_tags_only dev tags)"
          using raw'(4) inb by (simp add: packed_tags_size_def ptc.length_enc yaffs_pack_tags2_def)
        then show ?thesis
          using True inb ps by (simp add: page_tags_def unpack_ignores_ecc ptc.dec_enc unpack_pack_tags_only Let_def)
      next
        case False
        then have "take 28 b' = pt2_bytes ?le (junk_pad junk) ?packed"
          using raw'(4) inb by (simp add: packed_tags_size_def pt2c.length_enc)
        then show ?thesis using False inb ps by (simp add: page_tags_def pt2c.dec_enc unpack_packed Let_def)
      qed
    qed
    show "case flash_read ?m n' c of (r, data', tags') \<Rightarrow>
        r = YAFFS_OK \<and> take ?at data' = take ?at data \<and> tags'\<lparr>ecc_result := YAFFS_ECC_RESULT_UNKNOWN\<rparr> = stored_tags tags"
      unfolding marshall_flash_read [OF y2 rr] using raw'(1,2) data tags by simp
  qed
qed

section \<open>Properties\<close>

text \<open>C6: The marshalled handler meets the contract the allocation layer relies on. On a driver whose
  pages read back what was acknowledged and change only when they are written or their block is
  erased or marked, the installed handler leaves other chunks alone (\<open>flash_ok\<close>), stores plain
  tags (\<open>stores_ok\<close>), and gives back the data and everything the tag format stores of any tags that
  fit, be they kept in the spare bytes, with or without their code, or in-band.\<close>

theorem marshalled_handler_contract:
  assumes "is_yaffs2 (param dev)" and "raw_flash_ok dev" and "raw_stores_ok dev"
    and "data_bytes_per_chunk dev + (if inband_tags (param dev) then 16 else 0) = total_bytes_per_chunk (param dev)"
  shows "flash_ok (yaffs_tags_marshall_install junk (None, None, None, None) dev) \<and>
    stores_ok (yaffs_tags_marshall_install junk (None, None, None, None) dev) \<and>
    reads_back (yaffs_tags_marshall_install junk (None, None, None, None) dev)"
  using marshall_flash_ok [OF assms(1,2)] marshall_reads_back [OF assms(1,3,4)] reads_back_stores_ok by blast

text \<open>A driver in memory: a page is its data and its spare bytes.\<close>

definition page_driver :: "(int \<Rightarrow> u8 list \<times> u8 list) yaffs_driver" where
  "page_driver = \<lparr>drv_write_chunk_fn = (\<lambda>n c d dl b bl. (YAFFS_OK,
       n(c := (case d of None \<Rightarrow> fst (n c) | Some x \<Rightarrow> x, case b of None \<Rightarrow> snd (n c) | Some x \<Rightarrow> x)))),
     drv_read_chunk_fn = (\<lambda>n c wd dl wb bl. (YAFFS_OK, fst (n c), snd (n c), YAFFS_ECC_RESULT_NO_ERROR, n)),
     drv_check_bad_fn = (\<lambda>n b. (YAFFS_OK, n)),
     drv_erase_fn = (\<lambda>n b. (YAFFS_OK, \<lambda>x. if x div 4 = b then (replicate 64 0xff, replicate 28 0xff) else n x)),
     drv_mark_bad_fn = (\<lambda>n b. (YAFFS_FAIL, n))\<rparr>"

definition no_tagger :: "'n yaffs_tags_handler" where
  "no_tagger = \<lparr>write_chunk_tags_fn = (\<lambda>n c d t. (YAFFS_FAIL, n)),
     read_chunk_tags_fn = (\<lambda>n c w. (YAFFS_FAIL, [], zero_tags, n)),
     query_block_fn = (\<lambda>n b. (YAFFS_FAIL, YAFFS_BLOCK_STATE_UNKNOWN, 0, n)), mark_bad_fn = (\<lambda>n b. (YAFFS_FAIL, n))\<rparr>"

definition page_dev :: "(int \<Rightarrow> u8 list \<times> u8 list) yaffs_dev" where
  "page_dev = (zero_dev small_param no_tagger page_driver (\<lambda>x. (replicate 64 0xff, replicate 28 0xff)))\<lparr>data_bytes_per_chunk := 64\<rparr>"

definition stack_junk :: marshall_junk where
  "stack_junk = \<lparr>junk_pt = example_packed_tags, junk_pad = (1, 2, 3), junk_tags = example_dev_tags\<rparr>"

lemma page_dev_fields: "param page_dev = small_param" "drv page_dev = page_driver" "data_bytes_per_chunk page_dev = 64"
  "chunk_offset page_dev = 0" "block_offset page_dev = 0"
  by (simp_all add: page_dev_def zero_dev_def)

lemma page_read: "raw_read page_dev n x = (YAFFS_OK, fst (n x), snd (n x), YAFFS_ECC_RESULT_NO_ERROR)"
  by (simp add: raw_read_def page_dev_fields page_driver_def)

lemma marshalled_handler_contract_witness:
  "reads_back (yaffs_tags_marshall_install stack_junk (None, None, None, None) page_dev)"
proof -
  have "raw_flash_ok page_dev"
    by (simp add: raw_flash_ok_def page_read fun_eq_iff) (simp add: page_dev_fields page_driver_def small_param_def)
  moreover have "raw_stores_ok page_dev"
    by (simp add: raw_stores_ok_def page_read)
      (auto simp: page_dev_fields page_driver_def small_param_def less_yaffs_ecc_result_def split: option.split)
  ultimately show ?thesis
    using marshalled_handler_contract [of page_dev stack_junk] by (simp add: page_dev_fields small_param_def)
qed

end
