(* ===== verification/Yaffs_Oh.thy ===== *)
theory Yaffs_Oh
  imports Yaffs_Obj Yaffs_Nameval
begin

text \<open>
  Object headers and names (\<open>yaffs_guts.h\<close>, \<open>yaffs_guts.c\<close>, \<open>yaffs_attribs.c\<close>, \<open>yaffs_endian.c\<close>):
  the 512 bytes that describe an object on the flash, their byte order, the file size and the
  attributes in them, and what is found out from a header that is read back: the details of an
  object that was not loaded yet, its name, and the object of a name in a directory.

  \<open>yaffs_vol\<close> is the device with what the rest of \<open>yaffs_guts.c\<close> keeps: the cache of short
  operations, the list of the objects to be cleaned up after a collection and the directories
  with a deferred update. A C string is the list of its bytes before the NUL; \<open>YCHAR\<close> is \<open>char\<close>.
\<close>

unbundle bit_operations_syntax

section \<open>The data\<close>

record yaffs_obj_hdr =
  oh_type :: u32
  oh_parent_obj_id :: u32
  oh_sum :: u16
  oh_name :: "u8 list"
  oh_pad :: "u8 list"
  oh_yst_mode :: u32
  oh_yst_uid :: u32
  oh_yst_gid :: u32
  oh_yst_atime :: u32
  oh_yst_mtime :: u32
  oh_yst_ctime :: u32
  oh_file_size_low :: u32
  oh_equiv_id :: u32
  oh_alias :: "u8 list"
  oh_yst_rdev :: u32
  oh_win_times :: "u32 list"
  oh_inband_shadowed_obj_id :: u32
  oh_inband_is_shrink :: u32
  oh_file_size_high :: u32
  oh_reserved :: u32
  oh_shadows_obj :: u32
  oh_is_shrink :: u32

record yaffs_cache =
  cache_object :: "slab_addr option"
  cache_chunk_id :: int
  last_use :: int
  cache_dirty :: bool
  cache_n_bytes :: int
  cache_locked :: bool
  cache_data :: "u8 list"

text \<open>\<open>gc_control_fn\<close>, \<open>defered_dir_update\<close> and \<open>disable_soft_del\<close> are fields of \<open>struct yaffs_param\<close>;
  the callback looks at the world of the driver. \<open>wr_attempts\<close> is the global \<open>yaffs_wr_attempts\<close>.
  Not in the code: \<open>wr_fuel\<close>, how many turns of the write loop are followed, \<open>stack_fill\<close>, what an
  uninitialised array holds, \<open>stack_tags\<close>, what uninitialised tags hold, and \<open>shift_32\<close>, what a shift of a four-byte word by 32 bits gives.\<close>

record 'n yaffs_vol = "'n yaffs_fs" +
  gc_control_fn :: "('n \<Rightarrow> u32) option"
  defered_dir_update :: bool
  disable_soft_del :: bool
  gc_cleanup_list :: "u32 list"
  dirty_dirs :: "slab_addr list"
  caches :: "yaffs_cache list"
  cache_last_use :: int
  cache_hits :: u32
  wr_attempts :: nat
  wr_fuel :: nat
  stack_fill :: "u8 list"
  stack_tags :: yaffs_ext_tags
  shift_32 :: "u32 \<Rightarrow> u32"

section \<open>The header in memory\<close>

text \<open>The padding follows the name, whose end is not aligned.\<close>

definition u16_bytes :: "bool \<Rightarrow> u16 \<Rightarrow> u8 list" where
  "u16_bytes le w = (let bs = [ucast w, ucast (drop_bit 8 w)] in if le then bs else rev bs)"

definition bytes_u16 :: "bool \<Rightarrow> u8 list \<Rightarrow> u16" where
  "bytes_u16 le bs = (let cs = if le then bs else rev bs in ucast (cs ! 0) OR push_bit 8 (ucast (cs ! 1)))"

text \<open>The fields in order, by their widths.\<close>

fun split_at :: "nat list \<Rightarrow> u8 list \<Rightarrow> u8 list list" where
  "split_at [] bs = []"
| "split_at (w # ws) bs = take w bs # split_at ws (drop w bs)"

abbreviation OH_SIZE :: nat where "OH_SIZE \<equiv> 512"

definition oh_widths :: "nat list" where
  "oh_widths = [4, 4, 2, 256, 2] @ replicate 8 4 @ [160] @ replicate 13 4"

definition oh_fields :: "bool \<Rightarrow> yaffs_obj_hdr \<Rightarrow> u8 list list" where
  "oh_fields le oh =
     map (u32_bytes le) [oh_type oh, oh_parent_obj_id oh] @ [u16_bytes le (oh_sum oh), oh_name oh, oh_pad oh] @
     map (u32_bytes le) [oh_yst_mode oh, oh_yst_uid oh, oh_yst_gid oh, oh_yst_atime oh, oh_yst_mtime oh, oh_yst_ctime oh,
       oh_file_size_low oh, oh_equiv_id oh] @ [oh_alias oh] @
     map (u32_bytes le) (oh_yst_rdev oh # oh_win_times oh @
       [oh_inband_shadowed_obj_id oh, oh_inband_is_shrink oh, oh_file_size_high oh, oh_reserved oh,
        oh_shadows_obj oh, oh_is_shrink oh])"

definition oh_bytes :: "bool \<Rightarrow> yaffs_obj_hdr \<Rightarrow> u8 list" where
  "oh_bytes le oh = concat (oh_fields le oh)"

definition oh_of_bytes :: "bool \<Rightarrow> u8 list \<Rightarrow> yaffs_obj_hdr" where
  "oh_of_bytes le bs =
     (let f = split_at oh_widths bs; w = (\<lambda>i. bytes_u32 le (f ! i))
      in \<lparr>oh_type = w 0, oh_parent_obj_id = w 1, oh_sum = bytes_u16 le (f ! 2), oh_name = f ! 3, oh_pad = f ! 4,
       oh_yst_mode = w 5, oh_yst_uid = w 6, oh_yst_gid = w 7, oh_yst_atime = w 8, oh_yst_mtime = w 9, oh_yst_ctime = w 10,
       oh_file_size_low = w 11, oh_equiv_id = w 12, oh_alias = f ! 13, oh_yst_rdev = w 14,
       oh_win_times = map w [15, 16, 17, 18, 19, 20], oh_inband_shadowed_obj_id = w 21, oh_inband_is_shrink = w 22,
       oh_file_size_high = w 23, oh_reserved = w 24, oh_shadows_obj = w 25, oh_is_shrink = w 26\<rparr>)"

text \<open>The arrays have the lengths the structure gives them.\<close>

definition oh_sized :: "yaffs_obj_hdr \<Rightarrow> bool" where
  "oh_sized oh \<longleftrightarrow> length (oh_name oh) = 256 \<and> length (oh_pad oh) = 2 \<and> length (oh_alias oh) = 160 \<and>
     length (oh_win_times oh) = 6"

text \<open>A write through the pointer to the header at the front of a buffer.\<close>

definition put_oh :: "bool \<Rightarrow> yaffs_obj_hdr \<Rightarrow> u8 list \<Rightarrow> u8 list" where
  "put_oh le oh buffer = oh_bytes le oh @ drop OH_SIZE buffer"

definition yaffs_do_endian_oh :: "('n, 'x) yaffs_dev_scheme \<Rightarrow> yaffs_obj_hdr \<Rightarrow> yaffs_obj_hdr" where
  "yaffs_do_endian_oh dev oh =
     (if \<not> swap_endian dev then oh
      else oh\<lparr>oh_type := swap_u32 (oh_type oh), oh_parent_obj_id := swap_u32 (oh_parent_obj_id oh),
        oh_yst_mode := swap_u32 (oh_yst_mode oh), oh_yst_uid := swap_u32 (oh_yst_uid oh),
        oh_yst_gid := swap_u32 (oh_yst_gid oh), oh_yst_atime := swap_u32 (oh_yst_atime oh),
        oh_yst_mtime := swap_u32 (oh_yst_mtime oh), oh_yst_ctime := swap_u32 (oh_yst_ctime oh),
        oh_file_size_low := swap_u32 (oh_file_size_low oh), oh_equiv_id := swap_u32 (oh_equiv_id oh),
        oh_yst_rdev := swap_u32 (oh_yst_rdev oh), oh_win_times := map swap_u32 (oh_win_times oh),
        oh_inband_shadowed_obj_id := swap_u32 (oh_inband_shadowed_obj_id oh),
        oh_inband_is_shrink := swap_u32 (oh_inband_is_shrink oh),
        oh_file_size_high := swap_u32 (oh_file_size_high oh), oh_reserved := swap_u32 (oh_reserved oh),
        oh_shadows_obj := swap_u32 (oh_shadows_obj oh), oh_is_shrink := swap_u32 (oh_is_shrink oh)\<rparr>)"

section \<open>Sizes and attributes\<close>

definition yaffs_oh_size_load :: "('n, 'x) yaffs_vol_scheme \<Rightarrow> yaffs_obj_hdr \<Rightarrow> loff_t \<Rightarrow> bool \<Rightarrow> yaffs_obj_hdr" where
  "yaffs_oh_size_load dev oh fsize do_endian =
     (let low = fsize AND 0xFFFFFFFF; high = shift_32 dev fsize AND 0xFFFFFFFF
      in if do_endian
         then oh\<lparr>oh_file_size_low := yaffs_do_endian_u32 dev low, oh_file_size_high := yaffs_do_endian_u32 dev high\<rparr>
         else oh\<lparr>oh_file_size_low := low, oh_file_size_high := high\<rparr>)"

text \<open>\<open>sizeof(loff_t) >= 8\<close> is false.\<close>

definition yaffs_oh_to_size :: "('n, 'x) yaffs_dev_scheme \<Rightarrow> yaffs_obj_hdr \<Rightarrow> bool \<Rightarrow> loff_t" where
  "yaffs_oh_to_size dev oh do_endian =
     (let low = oh_file_size_low oh in if do_endian then yaffs_do_endian_u32 dev low else low)"

definition yaffs_load_attribs :: "yaffs_obj \<Rightarrow> yaffs_obj_hdr \<Rightarrow> yaffs_obj" where
  "yaffs_load_attribs obj oh = obj\<lparr>yst_uid := oh_yst_uid oh, yst_gid := oh_yst_gid oh, yst_atime := oh_yst_atime oh,
     yst_mtime := oh_yst_mtime oh, yst_ctime := oh_yst_ctime oh, yst_rdev := oh_yst_rdev oh\<rparr>"

definition yaffs_load_attribs_oh :: "yaffs_obj_hdr \<Rightarrow> yaffs_obj \<Rightarrow> yaffs_obj_hdr" where
  "yaffs_load_attribs_oh oh obj = oh\<lparr>oh_yst_uid := yst_uid obj, oh_yst_gid := yst_gid obj, oh_yst_atime := yst_atime obj,
     oh_yst_mtime := yst_mtime obj, oh_yst_ctime := yst_ctime obj, oh_yst_rdev := yst_rdev obj\<rparr>"

section \<open>Names\<close>

definition c_string :: "u8 list \<Rightarrow> u8 list" where
  "c_string bs = takeWhile (\<lambda>c. c \<noteq> 0) bs"

text \<open>\<open>CONFIG_YAFFS_AUTO_UNICODE\<close> is not set: both are one \<open>strncpy\<close>.\<close>

definition yaffs_load_name_from_oh :: "u8 list \<Rightarrow> nat \<Rightarrow> u8 list" where
  "yaffs_load_name_from_oh oh_nm buff_size = take (buff_size - 1) (c_string oh_nm)"

definition yaffs_load_oh_from_name :: "u8 list \<Rightarrow> u8 list \<Rightarrow> u8 list" where
  "yaffs_load_oh_from_name oh_nm name =
     c_strncpy name (YAFFS_MAX_NAME_LENGTH - 1) @ drop (YAFFS_MAX_NAME_LENGTH - 1) oh_nm"

definition yaffs_set_obj_name_from_oh ::
  "('n, 'x) yaffs_fs_scheme \<Rightarrow> slab_addr \<Rightarrow> yaffs_obj_hdr \<Rightarrow> ('n, 'x) yaffs_fs_scheme" where
  "yaffs_set_obj_name_from_oh dev obj oh = yaffs_set_obj_name dev obj (Some (c_string (oh_name oh)))"

definition yaffs_clone_str ::
  "('n, 'x) yaffs_mem_dev_scheme \<Rightarrow> u8 list option \<Rightarrow> u8 list option \<times> ('n, 'x) yaffs_mem_dev_scheme" where
  "yaffs_clone_str dev str =
     (let str = (case str of None \<Rightarrow> [] | Some s \<Rightarrow> s);
          len = c_strnlen str YAFFS_MAX_ALIAS_LENGTH;
          (new_str, dev) = kmalloc dev
      in (case new_str of None \<Rightarrow> None | Some _ \<Rightarrow> Some (c_string (take len str)), dev))"

section \<open>What a header says\<close>

text \<open>An object found by the scan with its tags only is completed when it is looked at. When the
  header cannot be read the temporary buffer is kept, which the model does not count.\<close>

definition yaffs_check_obj_details_loaded ::
  "('n, 'x) yaffs_vol_scheme \<Rightarrow> slab_addr option \<Rightarrow> ('n, 'x) yaffs_vol_scheme" where
  "yaffs_check_obj_details_loaded dev obj =
     (case obj of None \<Rightarrow> dev
      | Some a \<Rightarrow>
          if \<not> lazy_loaded (obj_at dev a) \<or> hdr_chunk (obj_at dev a) < 1 then dev
          else
           (let (result, buf, tags, dev) = yaffs_rd_chunk_tags_nand dev (hdr_chunk (obj_at dev a)) True
            in if result = YAFFS_FAIL then dev
               else
                (let oh = yaffs_do_endian_oh dev (oh_of_bytes (host_le dev) buf);
                     dev = upd_core dev a (\<lambda>ob. ob\<lparr>lazy_loaded := False, yst_mode := oh_yst_mode oh\<rparr>);
                     dev = upd_core dev a (\<lambda>ob. yaffs_load_attribs ob oh);
                     dev = yaffs_set_obj_name_from_oh dev a oh
                 in if variant_type (obj_at dev a) = YAFFS_OBJECT_TYPE_SYMLINK then
                      (let (str, dev) = yaffs_clone_str dev (Some (oh_alias oh))
                       in upd_node dev a (\<lambda>nd. nd\<lparr>alias_str := str\<rparr>))
                    else dev)))"

text \<open>The length of the name, the name, and the device.\<close>

definition yaffs_get_obj_name ::
  "('n, 'x) yaffs_vol_scheme \<Rightarrow> slab_addr \<Rightarrow> nat \<Rightarrow> nat \<times> u8 list \<times> ('n, 'x) yaffs_vol_scheme" where
  "yaffs_get_obj_name dev obj buffer_size =
     (let dev = yaffs_check_obj_details_loaded dev (Some obj);
          (name, dev) =
            (if obj_number (obj_at dev obj) = YAFFS_OBJECTID_LOSTNFOUND then (take (buffer_size - 1) lost_n_found_name, dev)
             else if short_name (objs dev obj) \<noteq> [] then (short_name (objs dev obj), dev)
             else if hdr_chunk (obj_at dev obj) > 0 then
               (let (result, buffer, tags, dev) = yaffs_rd_chunk_tags_nand dev (hdr_chunk (obj_at dev obj)) True
                in (if result = YAFFS_OK
                    then yaffs_load_name_from_oh (oh_name (oh_of_bytes (host_le dev) buffer)) buffer_size else [], dev))
             else ([], dev));
          name = yaffs_fix_null_name (obj_at dev obj) name buffer_size
      in (c_strnlen name YAFFS_MAX_NAME_LENGTH, name, dev))"

text \<open>The walk along the children of a directory.\<close>

fun find_by_name_loop ::
  "u16 \<Rightarrow> u8 list \<Rightarrow> slab_addr list \<Rightarrow> ('n, 'x) yaffs_vol_scheme \<Rightarrow> slab_addr option \<times> ('n, 'x) yaffs_vol_scheme" where
  "find_by_name_loop nsum name [] dev = (None, dev)"
| "find_by_name_loop nsum name (l # ls) dev =
     (let dev = yaffs_check_obj_details_loaded dev (Some l)
      in if obj_number (obj_at dev l) = YAFFS_OBJECTID_LOSTNFOUND then
           if c_string name = lost_n_found_name then (Some l, dev) else find_by_name_loop nsum name ls dev
         else if name_sum (obj_at dev l) = nsum \<or> hdr_chunk (obj_at dev l) \<le> 0 then
           (let (_, buffer, dev) = yaffs_get_obj_name dev l (YAFFS_MAX_NAME_LENGTH + 1)
            in if strncmp_eq YAFFS_MAX_NAME_LENGTH name buffer then (Some l, dev) else find_by_name_loop nsum name ls dev)
         else find_by_name_loop nsum name ls dev)"

definition yaffs_find_by_name ::
  "('n, 'x) yaffs_vol_scheme \<Rightarrow> slab_addr option \<Rightarrow> u8 list option \<Rightarrow> slab_addr option \<times> ('n, 'x) yaffs_vol_scheme" where
  "yaffs_find_by_name dev directory name =
     (case name of None \<Rightarrow> (None, dev)
      | Some s \<Rightarrow>
          (case directory of None \<Rightarrow> (None, dev)
           | Some d \<Rightarrow> find_by_name_loop (yaffs_calc_name_sum (Some s)) s (children (objs dev d)) dev))"

definition yaffs_get_equivalent_obj ::
  "('n, 'x) yaffs_vol_scheme \<Rightarrow> slab_addr option \<Rightarrow> slab_addr option \<times> ('n, 'x) yaffs_vol_scheme" where
  "yaffs_get_equivalent_obj dev obj =
     (case obj of None \<Rightarrow> (None, dev)
      | Some a \<Rightarrow>
          if variant_type (obj_at dev a) = YAFFS_OBJECT_TYPE_HARDLINK
          then (equiv_obj (objs dev a), yaffs_check_obj_details_loaded dev (equiv_obj (objs dev a)))
          else (Some a, dev))"

text \<open>The object is not null after the look-up; a symbolic link without alias has length 0.\<close>

definition yaffs_get_obj_length :: "('n, 'x) yaffs_vol_scheme \<Rightarrow> slab_addr \<Rightarrow> loff_t \<times> ('n, 'x) yaffs_vol_scheme" where
  "yaffs_get_obj_length dev obj =
     (let (e, dev) = yaffs_get_equivalent_obj dev (Some obj)
      in case e of None \<Rightarrow> (0, dev)
         | Some a \<Rightarrow>
             (if variant_type (obj_at dev a) = YAFFS_OBJECT_TYPE_FILE then file_size (file_variant (obj_at dev a))
              else if variant_type (obj_at dev a) = YAFFS_OBJECT_TYPE_SYMLINK then
                (case alias_str (objs dev a) of None \<Rightarrow> 0 | Some s \<Rightarrow> word_of_nat (c_strnlen s YAFFS_MAX_ALIAS_LENGTH))
              else word_of_nat (data_bytes_per_chunk dev), dev))"

definition yaffs_get_obj_link_count :: "('n, 'x) yaffs_fs_scheme \<Rightarrow> slab_addr \<Rightarrow> nat" where
  "yaffs_get_obj_link_count dev obj = (if unlinked (obj_at dev obj) then 0 else 1) + length (hard_links (objs dev obj))"

definition yaffs_get_obj_inode :: "('n, 'x) yaffs_vol_scheme \<Rightarrow> slab_addr \<Rightarrow> u32 \<times> ('n, 'x) yaffs_vol_scheme" where
  "yaffs_get_obj_inode dev obj =
     (let (e, dev) = yaffs_get_equivalent_obj dev (Some obj)
      in (case e of None \<Rightarrow> 0 | Some a \<Rightarrow> obj_number (obj_at dev a), dev))"

section \<open>The layout of the header\<close>

lemma length_u16_bytes [simp]: "length (u16_bytes le w) = 2"
  by (simp add: u16_bytes_def Let_def)

lemma bytes_u16_u16_bytes [simp]: "bytes_u16 le (u16_bytes le w) = w"
proof -
  have "ucast (ucast w :: u8) OR push_bit 8 (ucast (ucast (drop_bit 8 w) :: u8)) = w" (is "?l = w")
  proof (rule bit_word_eqI)
    fix n assume "n < LENGTH(16)"
    then consider "n < 8" | "8 \<le> n" "n < 16" by fastforce
    then show "bit ?l n = bit w n"
      by cases (auto simp: bit_or_iff bit_push_bit_iff bit_ucast_iff bit_drop_bit_eq)
  qed
  then show ?thesis by (simp add: bytes_u16_def u16_bytes_def Let_def)
qed

lemma split_at_concat: "map length segs = ws \<Longrightarrow> split_at ws (concat segs @ rest) = segs"
  by (induction segs arbitrary: ws) auto

lemma concat_split_at: "sum_list ws \<le> length bs \<Longrightarrow> concat (split_at ws bs) = take (sum_list ws) bs"
  by (induction ws bs rule: split_at.induct) (simp_all add: take_add)

lemma length_split_at [simp]: "length (split_at ws bs) = length ws"
  by (induction ws bs rule: split_at.induct) simp_all

lemma nth_split_at: "i < length ws \<Longrightarrow> split_at ws bs ! i = take (ws ! i) (drop (sum_list (take i ws)) bs)"
  by (induction ws bs arbitrary: i rule: split_at.induct) (auto simp: nth_Cons add.commute split: nat.split)

lemma six_list: "length xs = 6 \<Longrightarrow> \<exists>a b c d e f. xs = [a, b, c, d, e, f]"
  by (auto simp: numeral_eq_Suc length_Suc_conv)

lemma oh_fields_widths: "oh_sized oh \<Longrightarrow> map length (oh_fields le oh) = oh_widths"
  using six_list [of "oh_win_times oh"] by (auto simp: oh_fields_def oh_widths_def oh_sized_def numeral_eq_Suc)

text \<open>The whole of a buffer is a header and what follows it.\<close>

lemma oh_of_oh_bytes:
  assumes "oh_sized oh" shows "oh_of_bytes le (oh_bytes le oh @ rest) = oh"
proof -
  obtain a b c d e f where w: "oh_win_times oh = [a, b, c, d, e, f]"
    using six_list [of "oh_win_times oh"] assms by (auto simp: oh_sized_def)
  have "split_at oh_widths (oh_bytes le oh @ rest) = oh_fields le oh"
    unfolding oh_bytes_def by (rule split_at_concat [OF oh_fields_widths [OF assms]])
  then show ?thesis
    by (cases oh) (use w in \<open>simp add: oh_of_bytes_def oh_fields_def Let_def\<close>)
qed

lemma length_oh_bytes: "oh_sized oh \<Longrightarrow> length (oh_bytes le oh) = OH_SIZE"
  using oh_fields_widths [of oh le] by (simp add: oh_bytes_def length_concat oh_widths_def sum_list_replicate)

lemma u16_bytes_bytes_u16:
  assumes "length bs = 2" shows "u16_bytes le (bytes_u16 le bs) = bs"
proof -
  have dec: "[ucast w, ucast (drop_bit 8 w)] = [a, b :: u8]" if "w = ucast a OR push_bit 8 (ucast b)" for w :: u16 and a b
    unfolding that by (intro list.inject [THEN iffD2] conjI bit_word_eqI refl)
      (auto simp: bit_or_iff bit_push_bit_iff bit_ucast_iff bit_drop_bit_eq dest: bit_imp_le_length)
  obtain a b where bs: "bs = [a, b]" using assms by (auto simp: length_Suc_conv numeral_eq_Suc)
  show ?thesis using dec [OF refl, of a b] dec [OF refl, of b a] by (simp add: bs bytes_u16_def u16_bytes_def Let_def)
qed

lemma oh_fields_split:
  assumes "OH_SIZE \<le> length bs"
  shows "oh_fields le (oh_of_bytes le bs) = split_at oh_widths bs" "oh_sized (oh_of_bytes le bs)"
proof -
  let ?f = "split_at oh_widths bs"
  have ws: "oh_widths = [4, 4, 2, 256, 2, 4, 4, 4, 4, 4, 4, 4, 4, 160, 4, 4, 4, 4, 4, 4, 4, 4, 4, 4, 4, 4, 4]"
    by (simp add: oh_widths_def numeral_eq_Suc)
  have len: "length (?f ! i) = oh_widths ! i" if i: "i < 27" for i
  proof -
    have "sum_list (take (Suc i) oh_widths) \<le> sum_list oh_widths"
      by (metis append_take_drop_id le_add1 sum_list_append)
    moreover have "sum_list oh_widths = OH_SIZE" by (simp add: ws)
    moreover have "take (Suc i) oh_widths = take i oh_widths @ [oh_widths ! i]"
      by (rule take_Suc_conv_app_nth) (use i in \<open>simp add: ws\<close>)
    ultimately have "sum_list (take i oh_widths) + oh_widths ! i \<le> length bs" using assms by simp
    moreover have "i < length oh_widths" using i by (simp add: ws)
    ultimately show ?thesis by (simp add: nth_split_at)
  qed
  have words: "u32_bytes le (bytes_u32 le (?f ! i)) = ?f ! i" if "i < 27" "oh_widths ! i = 4" for i
    using len [OF that(1)] that(2) by (simp add: u32_bytes_bytes_u32)
  have half: "u16_bytes le (bytes_u16 le (?f ! 2)) = ?f ! 2"
    using len [of 2] by (simp add: u16_bytes_bytes_u16 ws)
  have all: "?f = map (\<lambda>i. ?f ! i) [0..<27]"
    by (rule nth_equalityI) (simp_all add: ws)
  have up: "[0..<27] = [0, 1, 2, 3, 4, 5, 6, 7, 8, 9, 10, 11, 12, 13, 14, 15, 16, 17, 18, 19, 20, 21, 22, 23, 24, 25, 26 :: nat]"
    by (simp add: upt_conv_Cons)
  have four: "oh_widths ! 0 = 4" "oh_widths ! 1 = 4" "oh_widths ! 5 = 4" "oh_widths ! 6 = 4" "oh_widths ! 7 = 4" "oh_widths ! 8 = 4" "oh_widths ! 9 = 4" "oh_widths ! 10 = 4" "oh_widths ! 11 = 4" "oh_widths ! 12 = 4" "oh_widths ! 14 = 4" "oh_widths ! 15 = 4" "oh_widths ! 16 = 4" "oh_widths ! 17 = 4" "oh_widths ! 18 = 4" "oh_widths ! 19 = 4" "oh_widths ! 20 = 4" "oh_widths ! 21 = 4" "oh_widths ! 22 = 4" "oh_widths ! 23 = 4" "oh_widths ! 24 = 4" "oh_widths ! 25 = 4" "oh_widths ! 26 = 4"
    by (simp_all add: ws)
  have one: "u32_bytes le (bytes_u32 le (?f ! Suc 0)) = ?f ! Suc 0" using words [of "Suc 0"] four(2) by simp
  have "oh_fields le (oh_of_bytes le bs) = map (\<lambda>i. ?f ! i) [0..<27]"
    unfolding up by (simp add: oh_fields_def oh_of_bytes_def Let_def words four half one)
  then show "oh_fields le (oh_of_bytes le bs) = ?f" using all by simp
  show "oh_sized (oh_of_bytes le bs)"
    using len [of 3] len [of 4] len [of 13] by (simp add: oh_sized_def oh_of_bytes_def Let_def ws)
qed

lemma oh_bytes_of:
  assumes "OH_SIZE \<le> length bs" shows "oh_bytes le (oh_of_bytes le bs) = take OH_SIZE bs"
proof -
  have s: "sum_list oh_widths = OH_SIZE" by (simp add: oh_widths_def sum_list_replicate)
  show ?thesis
    using concat_split_at [of oh_widths bs] assms unfolding oh_bytes_def oh_fields_split(1) [OF assms] s by simp
qed

section \<open>One byte order on the flash\<close>

text \<open>The swapped header has the bytes of the header of the other order, but for the unused sum.\<close>

lemma oh_bytes_swapped:
  fixes w :: "('n, 'x) yaffs_dev_scheme"
  assumes "swap_endian w"
  shows "oh_bytes le (yaffs_do_endian_oh w oh) = oh_bytes (\<not> le) (oh\<lparr>oh_sum := bytes_u16 (\<not> le) (u16_bytes le (oh_sum oh))\<rparr>)"
  using assms u16_bytes_bytes_u16 [of "u16_bytes le (oh_sum oh)" "\<not> le"]
  by (simp add: oh_bytes_def oh_fields_def yaffs_do_endian_oh_def u32_bytes_swap o_def)

lemma oh_sized_endian [simp]: "oh_sized (yaffs_do_endian_oh dev oh) = oh_sized oh"
  by (simp add: oh_sized_def yaffs_do_endian_oh_def)

lemma do_endian_oh_twice: "swap_endian dev = swap_endian dev' \<Longrightarrow> yaffs_do_endian_oh dev' (yaffs_do_endian_oh dev oh) = oh"
  by (cases oh) (simp add: yaffs_do_endian_oh_def o_def)

lemma header_read_back:
  fixes w :: "('n, 'x) yaffs_dev_scheme" and r :: "('m, 'y) yaffs_dev_scheme"
  assumes "stored_le r = stored_le w" "oh_sized oh"
  shows "\<exists>s. yaffs_do_endian_oh r (oh_of_bytes (host_le r) (put_oh (host_le w) (yaffs_do_endian_oh w oh) buffer)) = oh\<lparr>oh_sum := s\<rparr>"
proof (cases "swap_endian w = swap_endian r")
  case True
  then have "host_le r = host_le w" using assms(1) by (auto simp: stored_le_def)
  then have "yaffs_do_endian_oh r (oh_of_bytes (host_le r) (put_oh (host_le w) (yaffs_do_endian_oh w oh) buffer)) = oh"
    using assms(2) by (simp add: put_oh_def oh_of_oh_bytes do_endian_oh_twice True)
  then show ?thesis by (intro exI [of _ "oh_sum oh"]) simp
next
  case False
  then have le: "host_le r = (\<not> host_le w)" using assms(1) by (auto simp: stored_le_def)
  let ?sum = "\<lambda>le. oh\<lparr>oh_sum := bytes_u16 (\<not> le) (u16_bytes le (oh_sum oh))\<rparr>"
  have sz: "oh_sized (oh\<lparr>oh_sum := s\<rparr>)" for s using assms(2) by (simp add: oh_sized_def)
  show ?thesis
  proof (cases "swap_endian w")
    case True
    then have "\<not> swap_endian r" using False by simp
    then show ?thesis
      unfolding put_oh_def le oh_bytes_swapped [OF True] oh_of_oh_bytes [OF sz] by (auto simp: yaffs_do_endian_oh_def)
  next
    case no: False
    then have sw: "swap_endian r" using False by simp
    have w: "yaffs_do_endian_oh w oh = oh" using no by (simp add: yaffs_do_endian_oh_def)
    let ?oh' = "oh\<lparr>oh_sum := bytes_u16 (host_le r) (u16_bytes (host_le w) (oh_sum oh))\<rparr>"
    have "oh_bytes (host_le r) (yaffs_do_endian_oh r ?oh') = oh_bytes (host_le w) oh"
      using oh_bytes_swapped [OF sw, of "host_le r" ?oh'] u16_bytes_bytes_u16 [of "u16_bytes (host_le w) (oh_sum oh)" "host_le r"]
      by (simp add: le)
    then have "oh_of_bytes (host_le r) (put_oh (host_le w) (yaffs_do_endian_oh w oh) buffer) = yaffs_do_endian_oh r ?oh'"
      using oh_of_oh_bytes [of "yaffs_do_endian_oh r ?oh'" "host_le r" "drop OH_SIZE buffer"] sz by (simp add: put_oh_def w)
    then show ?thesis by (auto simp: do_endian_oh_twice)
  qed
qed

section \<open>A small volume\<close>

definition vol_dev :: "unit yaffs_vol" where
  "vol_dev = yaffs_fs.extend fs_dev (yaffs_vol.fields None False False [] [] [] 0 0 5 6 [] zero_tags (\<lambda>_. 0))"

end
