(* ===== verification/Yaffs_Header.thy ===== *)
theory Yaffs_Header
  imports Yaffs_Oh
begin

text \<open>
  Writing object headers (\<open>yaffs_guts.c\<close>): \<open>yaffs_update_oh\<close> with the extended attributes behind
  the header, renaming and moving an object, and the final deletion of one.

  \<open>yaffs_update_oh\<close> calls \<open>yaffs_check_gc\<close>, whose collection may finally delete an object, which
  may write a header again. While a collection runs \<open>gc_disable\<close> is set and the inner call of
  \<open>yaffs_check_gc\<close> returns at once. The operations here take the call as an argument
  \<open>gc\<close>; \<open>Yaffs_Gc\<close> closes the knot: inside a collection it is the identity, and everywhere else it is
  \<open>yaffs_check_gc\<close> itself.
\<close>

unbundle bit_operations_syntax

section \<open>The cache as the headers see it\<close>

definition yaffs_obj_cache_dirty :: "('n, 'x) yaffs_vol_scheme \<Rightarrow> slab_addr \<Rightarrow> bool" where
  "yaffs_obj_cache_dirty dev obj = list_ex (\<lambda>c. cache_object c = Some obj \<and> cache_dirty c) (caches dev)"

definition yaffs_invalidate_whole_cache :: "('n, 'x) yaffs_vol_scheme \<Rightarrow> slab_addr \<Rightarrow> ('n, 'x) yaffs_vol_scheme" where
  "yaffs_invalidate_whole_cache dev obj =
     dev\<lparr>caches := map (\<lambda>c. if cache_object c = Some obj then c\<lparr>cache_object := None\<rparr> else c) (caches dev)\<rparr>"

section \<open>Writing a chunk\<close>

text \<open>\<open>yaffs_write_new_chunk\<close> with the limit in force. A loop that is still failing after \<open>wr_fuel\<close>
  turns is given up as if the device were full; with a limit on the attempts that is never so.\<close>

definition write_new :: "('n, 'x) yaffs_vol_scheme \<Rightarrow> u8 list \<Rightarrow> yaffs_ext_tags \<Rightarrow> bool \<Rightarrow> int \<times> ('n, 'x) yaffs_vol_scheme" where
  "write_new dev data tags use_reserver =
     (case yaffs_write_new_chunk (wr_fuel dev) (wr_attempts dev) dev data tags use_reserver of
        None \<Rightarrow> (-1, dev) | Some (chunk, tags, dev) \<Rightarrow> (chunk, dev))"

section \<open>Extended attributes in the header chunk\<close>

text \<open>\<open>struct yaffs_xattr_mod\<close>; the size of the value is the length of \<open>xm_data\<close>.\<close>

record yaffs_xattr_mod =
  xm_set :: bool
  xm_name :: "u8 list"
  xm_data :: "u8 list"
  xm_flags :: int
  xm_result :: int

abbreviation x_size :: "('n, 'x) yaffs_dev_scheme \<Rightarrow> nat" where
  "x_size dev \<equiv> data_bytes_per_chunk dev - OH_SIZE"

definition yaffs_apply_xattrib_mod ::
  "('n, 'x) yaffs_vol_scheme \<Rightarrow> slab_addr \<Rightarrow> u8 list \<Rightarrow> yaffs_xattr_mod \<Rightarrow>
   int \<times> u8 list \<times> yaffs_xattr_mod \<times> ('n, 'x) yaffs_vol_scheme" where
  "yaffs_apply_xattrib_mod dev obj buffer xmod =
     (let x_buffer = drop OH_SIZE buffer;
          (retval, x_buffer) =
            (if xm_set xmod then nval_set dev x_buffer (x_size dev) (xm_name xmod) (xm_data xmod) (xm_flags xmod)
             else nval_del dev x_buffer (x_size dev) (xm_name xmod));
          dev = upd_core dev obj (\<lambda>ob. ob\<lparr>has_xattr := nval_hasvalues dev x_buffer (x_size dev), xattr_known := True\<rparr>)
      in (retval, take OH_SIZE buffer @ x_buffer, xmod\<lparr>xm_result := retval\<rparr>, dev))"

section \<open>Writing a header\<close>

definition silly_old_name :: "u8 list" where
  "silly_old_name = [115, 105, 108, 108, 121, 32, 111, 108, 100, 32, 110, 97, 109, 101, 0]"

definition no_alias_name :: "u8 list" where
  "no_alias_name = [110, 111, 32, 97, 108, 105, 97, 115]"

text \<open>The buffer the new header is built in, and the old name. The header in the chunk is wiped
  only when it could be read; what follows it in the chunk stays.\<close>

definition oh_start ::
  "('n, 'x) yaffs_vol_scheme \<Rightarrow> int \<Rightarrow> u8 list \<times> u8 list \<times> ('n, 'x) yaffs_vol_scheme" where
  "oh_start dev prev_chunk_id =
     (let old_name = take 256 (silly_old_name @ stack_fill dev)
      in if prev_chunk_id > 0 then
           (let (result, buffer, old_tags, dev) = yaffs_rd_chunk_tags_nand dev prev_chunk_id True
            in if result = YAFFS_OK
               then (replicate OH_SIZE 0xff @ drop OH_SIZE buffer, oh_name (oh_of_bytes (host_le dev) buffer), dev)
               else (buffer, old_name, dev))
         else (replicate (data_bytes_per_chunk dev) 0xff @ drop (data_bytes_per_chunk dev) (temp_fill dev), old_name, dev))"

text \<open>The new header over the memory in the buffer, and the size that goes into the tags.\<close>

definition oh_build ::
  "('n, 'x) yaffs_vol_scheme \<Rightarrow> slab_addr \<Rightarrow> int \<Rightarrow> u8 list option \<Rightarrow> u8 list \<Rightarrow> bool \<Rightarrow> u32 \<Rightarrow> yaffs_obj_hdr \<Rightarrow>
   yaffs_obj_hdr \<times> loff_t" where
  "oh_build dev a prev_chunk_id name old_name is_shrink shadows oh =
     (let ob = obj_at dev a;
          oh = oh\<lparr>oh_type := variant_type ob, oh_yst_mode := yst_mode ob, oh_shadows_obj := shadows,
                 oh_inband_shadowed_obj_id := shadows\<rparr>;
          oh = yaffs_load_attribs_oh oh ob;
          oh = oh\<lparr>oh_parent_obj_id := (case parent (objs dev a) of None \<Rightarrow> 0 | Some p \<Rightarrow> obj_number (obj_at dev p))\<rparr>;
          oh = (case name of
                  Some (c # cs) \<Rightarrow> oh\<lparr>oh_name := yaffs_load_oh_from_name (replicate 256 0) (c # cs)\<rparr>
                | _ \<Rightarrow> if prev_chunk_id > 0 then oh\<lparr>oh_name := old_name\<rparr> else oh\<lparr>oh_name := replicate 256 0\<rparr>);
          oh = oh\<lparr>oh_is_shrink := (if is_shrink then 1 else 0)\<rparr>;
          fsize = (if variant_type ob = YAFFS_OBJECT_TYPE_FILE \<and> oh_parent_obj_id oh \<noteq> YAFFS_OBJECTID_DELETED \<and>
                     oh_parent_obj_id oh \<noteq> YAFFS_OBJECTID_UNLINKED
                  then stored_size (file_variant ob) else 0);
          oh = (if variant_type ob = YAFFS_OBJECT_TYPE_FILE then yaffs_oh_size_load dev oh fsize False
                else if variant_type ob = YAFFS_OBJECT_TYPE_HARDLINK then oh\<lparr>oh_equiv_id := equiv_id ob\<rparr>
                else if variant_type ob = YAFFS_OBJECT_TYPE_SYMLINK then
                  oh\<lparr>oh_alias := c_strncpy (case alias_str (objs dev a) of None \<Rightarrow> no_alias_name | Some s \<Rightarrow> s)
                       YAFFS_MAX_ALIAS_LENGTH @ [0]\<rparr>
                else oh)
      in (oh, fsize))"

definition oh_tags :: "yaffs_obj \<Rightarrow> yaffs_obj_hdr \<Rightarrow> loff_t \<Rightarrow> yaffs_ext_tags" where
  "oh_tags ob oh fsize = zero_tags\<lparr>chunk_id := 0, obj_id := obj_number ob, serial_number := ucast (serial ob),
     extra_available := 1, extra_parent_id := oh_parent_obj_id oh, extra_file_size := fsize,
     extra_is_shrink := oh_is_shrink oh, extra_equiv_id := oh_equiv_id oh,
     extra_shadows := (if sint (oh_shadows_obj oh) > 0 then 1 else 0), extra_obj_type := variant_type ob\<rparr>"

text \<open>The result, the modification of the attributes with its result, and the device.\<close>

definition yaffs_update_oh_with ::
  "(('n, 'x) yaffs_vol_scheme \<Rightarrow> ('n, 'x) yaffs_vol_scheme) \<Rightarrow> ('n, 'x) yaffs_vol_scheme \<Rightarrow> slab_addr \<Rightarrow>
   u8 list option \<Rightarrow> bool \<Rightarrow> bool \<Rightarrow> u32 \<Rightarrow> yaffs_xattr_mod option \<Rightarrow>
   int \<times> yaffs_xattr_mod option \<times> ('n, 'x) yaffs_vol_scheme" where
  "yaffs_update_oh_with gc dev a name force is_shrink shadows xmod =
     (if fake (obj_at dev a) \<and> root_dir dev \<noteq> Some a \<and> \<not> force \<and> xmod = None then (0, xmod, dev)
      else
       (let dev = yaffs_check_obj_details_loaded (gc dev) (Some a);
            prev_chunk_id = hdr_chunk (obj_at dev a);
            (buffer, old_name, dev) = oh_start dev prev_chunk_id;
            (oh, fsize) = oh_build dev a prev_chunk_id name old_name is_shrink shadows (oh_of_bytes (host_le dev) buffer);
            (buffer, xmod, dev) =
              (case xmod of None \<Rightarrow> (buffer, None, dev)
               | Some xm \<Rightarrow> (let (_, buffer, xm, dev) = yaffs_apply_xattrib_mod dev a buffer xm in (buffer, Some xm, dev)));
            dev = upd_core dev a (\<lambda>ob. ob\<lparr>serial := serial ob + 1\<rparr>);
            tags = oh_tags (obj_at dev a) oh fsize;
            (new_chunk_id, dev) =
              write_new dev (put_oh (host_le dev) (yaffs_do_endian_oh dev oh) buffer) tags (prev_chunk_id > 0)
        in if new_chunk_id < 0 then (new_chunk_id, xmod, dev)
           else
            (let dev = upd_core dev a (\<lambda>ob. ob\<lparr>hdr_chunk := new_chunk_id\<rparr>);
                 dev = (if prev_chunk_id > 0 then yaffs_chunk_del dev prev_chunk_id True else dev);
                 dev = (if \<not> yaffs_obj_cache_dirty dev a then upd_core dev a (\<lambda>ob. ob\<lparr>obj_dirty := False\<rparr>) else dev);
                 dev = (if is_shrink
                        then upd_block_info dev (new_chunk_id div cpb dev) (\<lambda>bi. bi\<lparr>has_shrink_hdr := True\<rparr>) else dev)
             in (new_chunk_id, xmod, dev))))"

section \<open>Renaming and deleting\<close>

text \<open>A null directory stands for the old one; an object without parent cannot be renamed so.\<close>

definition yaffs_change_obj_name_with ::
  "(('n, 'x) yaffs_vol_scheme \<Rightarrow> ('n, 'x) yaffs_vol_scheme) \<Rightarrow> ('n, 'x) yaffs_vol_scheme \<Rightarrow> slab_addr \<Rightarrow>
   slab_addr option \<Rightarrow> u8 list \<Rightarrow> bool \<Rightarrow> u32 \<Rightarrow> int \<times> ('n, 'x) yaffs_vol_scheme" where
  "yaffs_change_obj_name_with gc dev obj new_dir new_name force shadows =
     (case (case new_dir of None \<Rightarrow> parent (objs dev obj) | Some d \<Rightarrow> Some d) of
        None \<Rightarrow> (YAFFS_FAIL, dev)
      | Some d \<Rightarrow>
          (let unlink_op = (unlinked_dir dev = Some d);
               del_op = (del_dir dev = Some d);
               (existing_target, dev) = yaffs_find_by_name dev (Some d) (Some new_name)
           in if \<not> (unlink_op \<or> del_op \<or> force \<or> sint shadows > 0 \<or> existing_target = None) \<or>
                 variant_type (obj_at dev d) \<noteq> YAFFS_OBJECT_TYPE_DIRECTORY
              then (YAFFS_FAIL, dev)
              else
               (let dev = yaffs_set_obj_name dev obj (Some new_name);
                    dev = upd_core dev obj (\<lambda>ob. ob\<lparr>obj_dirty := True\<rparr>);
                    dev = yaffs_add_obj_to_dir dev (Some d) obj;
                    dev = (if unlink_op then upd_core dev obj (\<lambda>ob. ob\<lparr>unlinked := True\<rparr>) else dev);
                    (r, _, dev) = yaffs_update_oh_with gc dev obj (Some new_name) False del_op shadows None
                in (if r \<ge> 0 then YAFFS_OK else YAFFS_FAIL, dev))))"

definition deleted_name :: "u8 list" where
  "deleted_name = [100, 101, 108, 101, 116, 101, 100]"

definition yaffs_generic_obj_del_with ::
  "(('n, 'x) yaffs_vol_scheme \<Rightarrow> ('n, 'x) yaffs_vol_scheme) \<Rightarrow> ('n, 'x) yaffs_vol_scheme \<Rightarrow> slab_addr \<Rightarrow>
   int \<times> ('n, 'x) yaffs_vol_scheme" where
  "yaffs_generic_obj_del_with gc dev a =
     (let dev = yaffs_invalidate_whole_cache dev a;
          dev = (if is_yaffs2 (param dev) \<and> parent (objs dev a) \<noteq> del_dir dev
                 then snd (yaffs_change_obj_name_with gc dev a (del_dir dev) deleted_name False 0) else dev);
          dev = yaffs_remove_obj_from_dir dev a;
          dev = yaffs_chunk_del dev (hdr_chunk (obj_at dev a)) True;
          dev = upd_core dev a (\<lambda>ob. ob\<lparr>hdr_chunk := 0\<rparr>)
      in (YAFFS_OK, yaffs_free_obj dev (Some a)))"

section \<open>A header that is read back\<close>

lemma c_string_take: "c_string (take n (c_string s @ replicate m 0) @ replicate (Suc k) 0) = take n (c_string s)"
proof -
  have no: "0 \<notin> set (c_string s)" by (auto simp: c_string_def dest: set_takeWhileD)
  have z: "c_string (take n (c_string s) @ replicate j 0) = take n (c_string s)" for j
  proof -
    have "\<forall>x \<in> set (take n (c_string s)). x \<noteq> 0" using no by (metis in_set_takeD)
    moreover have "takeWhile (\<lambda>c. c \<noteq> 0) (replicate j (0 :: u8)) = []" by (cases j) simp_all
    ultimately show ?thesis unfolding c_string_def [of "_ @ _"] by (simp add: takeWhile_append2)
  qed
  have "take n (c_string s @ replicate m 0) @ replicate (Suc k) 0 =
      take n (c_string s) @ replicate (min (n - length (c_string s)) m + Suc k) 0"
    by (simp add: replicate_add replicate_append_same)
  then show ?thesis by (simp only: z)
qed

lemma name_read_back: "c_string (yaffs_load_oh_from_name (replicate 256 0) s) = take (YAFFS_MAX_NAME_LENGTH - 1) (c_string s)"
proof -
  have "yaffs_load_oh_from_name (replicate 256 0) s = take 254 (c_string s @ replicate 254 0) @ replicate (Suc 1) 0"
    by (simp add: numeral_2_eq_2 yaffs_load_oh_from_name_def c_strncpy_def c_string_def)
  then show ?thesis using c_string_take [of 254 s 254 1] by simp
qed

lemma alias_read_back: "c_string (c_strncpy s YAFFS_MAX_ALIAS_LENGTH @ [0]) = take YAFFS_MAX_ALIAS_LENGTH (c_string s)"
proof -
  have "c_strncpy s YAFFS_MAX_ALIAS_LENGTH @ [0] = take 159 (c_string s @ replicate 159 0) @ replicate (Suc 0) 0"
    by (simp add: c_strncpy_def c_string_def)
  then show ?thesis by (simp only: c_string_take)
qed

text \<open>The fields of the new header one by one.\<close>

lemma oh_build_fields:
  assumes "oh_build w a prev name old_name sh shadows oh0 = (oh, fsize)"
  shows "oh_type oh = variant_type (obj_at w a)" "oh_yst_mode oh = yst_mode (obj_at w a)"
    "oh_parent_obj_id oh = (case parent (objs w a) of None \<Rightarrow> 0 | Some p \<Rightarrow> obj_number (obj_at w p))"
    "yaffs_load_attribs ob oh = ob\<lparr>yst_uid := yst_uid (obj_at w a), yst_gid := yst_gid (obj_at w a),
       yst_atime := yst_atime (obj_at w a), yst_mtime := yst_mtime (obj_at w a), yst_ctime := yst_ctime (obj_at w a),
       yst_rdev := yst_rdev (obj_at w a)\<rparr>"
    "oh_name oh = (case name of Some (c # cs) \<Rightarrow> yaffs_load_oh_from_name (replicate 256 0) (c # cs)
       | _ \<Rightarrow> if prev > 0 then old_name else replicate 256 0)"
    "oh_shadows_obj oh = shadows" "oh_is_shrink oh = (if sh then 1 else 0)"
    "fsize = (if variant_type (obj_at w a) = YAFFS_OBJECT_TYPE_FILE \<and> oh_parent_obj_id oh \<noteq> YAFFS_OBJECTID_DELETED \<and>
       oh_parent_obj_id oh \<noteq> YAFFS_OBJECTID_UNLINKED then stored_size (file_variant (obj_at w a)) else 0)"
    "variant_type (obj_at w a) = YAFFS_OBJECT_TYPE_FILE \<Longrightarrow> oh_file_size_low oh = fsize"
    "variant_type (obj_at w a) = YAFFS_OBJECT_TYPE_HARDLINK \<Longrightarrow> oh_equiv_id oh = equiv_id (obj_at w a)"
    "oh_alias oh = (if variant_type (obj_at w a) = YAFFS_OBJECT_TYPE_SYMLINK
       then c_strncpy (case alias_str (objs w a) of None \<Rightarrow> no_alias_name | Some s \<Rightarrow> s) YAFFS_MAX_ALIAS_LENGTH @ [0]
       else oh_alias oh0)"
    "oh_pad oh = oh_pad oh0" "oh_win_times oh = oh_win_times oh0"
proof -
  note distr = if_distrib [of oh_type] if_distrib [of oh_yst_mode] if_distrib [of oh_parent_obj_id]
    if_distrib [of oh_yst_uid] if_distrib [of oh_yst_gid] if_distrib [of oh_yst_atime] if_distrib [of oh_yst_mtime]
    if_distrib [of oh_yst_ctime] if_distrib [of oh_yst_rdev] if_distrib [of oh_name] if_distrib [of oh_shadows_obj]
    if_distrib [of oh_is_shrink] if_distrib [of oh_file_size_low] if_distrib [of oh_equiv_id] if_distrib [of oh_alias]
    if_distrib [of oh_pad] if_distrib [of oh_win_times]
  have e: "oh = fst (oh_build w a prev name old_name sh shadows oh0)" "fsize = snd (oh_build w a prev name old_name sh shadows oh0)"
    by (simp_all add: assms)
  note simps = e oh_build_def Let_def distr yaffs_load_attribs_oh_def yaffs_oh_size_load_def yaffs_load_attribs_def
  consider (no) "name = None" | (nil) "name = Some []" | (cons) c cs where "name = Some (c # cs)"
    by (metis list.exhaust option.exhaust)
  note by_name = this
  show "oh_type oh = variant_type (obj_at w a)"
    using by_name by cases (simp_all add: simps)
  show "oh_yst_mode oh = yst_mode (obj_at w a)"
    using by_name by cases (simp_all add: simps)
  show "oh_parent_obj_id oh = (case parent (objs w a) of None \<Rightarrow> 0 | Some p \<Rightarrow> obj_number (obj_at w p))"
    using by_name by cases (simp_all add: simps)
  show "yaffs_load_attribs ob oh = ob\<lparr>yst_uid := yst_uid (obj_at w a), yst_gid := yst_gid (obj_at w a),
       yst_atime := yst_atime (obj_at w a), yst_mtime := yst_mtime (obj_at w a), yst_ctime := yst_ctime (obj_at w a),
       yst_rdev := yst_rdev (obj_at w a)\<rparr>"
    using by_name by cases (simp_all add: simps)
  show "oh_name oh = (case name of Some (c # cs) \<Rightarrow> yaffs_load_oh_from_name (replicate 256 0) (c # cs)
       | _ \<Rightarrow> if prev > 0 then old_name else replicate 256 0)"
    using by_name by cases (simp_all add: simps)
  show "oh_shadows_obj oh = shadows"
    using by_name by cases (simp_all add: simps)
  show "oh_is_shrink oh = (if sh then 1 else 0)"
    using by_name by cases (simp_all add: simps)
  show "oh_alias oh = (if variant_type (obj_at w a) = YAFFS_OBJECT_TYPE_SYMLINK
       then c_strncpy (case alias_str (objs w a) of None \<Rightarrow> no_alias_name | Some s \<Rightarrow> s) YAFFS_MAX_ALIAS_LENGTH @ [0]
       else oh_alias oh0)"
    using by_name by cases (simp_all add: simps)
  show "oh_pad oh = oh_pad oh0"
    using by_name by cases (simp_all add: simps)
  show "oh_win_times oh = oh_win_times oh0"
    using by_name by cases (simp_all add: simps)
  show "fsize = (if variant_type (obj_at w a) = YAFFS_OBJECT_TYPE_FILE \<and> oh_parent_obj_id oh \<noteq> YAFFS_OBJECTID_DELETED \<and>
       oh_parent_obj_id oh \<noteq> YAFFS_OBJECTID_UNLINKED then stored_size (file_variant (obj_at w a)) else 0)"
    using by_name by cases (simp_all add: simps)
  have low: "x AND 0xFFFFFFFF = x" for x :: u32
  proof -
    have "(0xFFFFFFFF :: u32) = -1" by simp
    then show ?thesis by (metis and.right_neutral)
  qed
  show "oh_file_size_low oh = fsize" if "variant_type (obj_at w a) = YAFFS_OBJECT_TYPE_FILE"
    using by_name that by cases (simp_all add: simps low)
  show "oh_equiv_id oh = equiv_id (obj_at w a)" if "variant_type (obj_at w a) = YAFFS_OBJECT_TYPE_HARDLINK"
    using by_name that by cases (simp_all add: simps)
qed

lemma oh_build_sized:
  assumes "oh_build w a prev name old_name sh shadows oh0 = (oh, fsize)" "oh_sized oh0" "length old_name = 256"
  shows "oh_sized oh"
  using assms(2,3) by (auto simp: oh_sized_def oh_build_fields(5,11,12,13) [OF assms(1)] yaffs_load_oh_from_name_def c_strncpy_def
      split: list.splits option.splits)

text \<open>C19: A header that is built for an object and written over the memory of a buffer is read back, on a
  machine of either byte order, with the type, the mode, the parent, the owner, the times and the
  device of the object, with the new name or else the old one, with the size of a file that is not
  deleted, the target of a hard link, the alias of a symbolic link and the marks for shadowing and
  shrinking; the extended attributes behind the header stay as they were.\<close>

theorem header_portable:
  fixes w :: "('n, 'x) yaffs_vol_scheme" and r :: "('m, 'y) yaffs_dev_scheme"
  assumes "stored_le r = stored_le w" and "OH_SIZE \<le> length buffer" and "length old_name = 256"
    and "oh_build w a prev name old_name sh shadows (oh_of_bytes (host_le w) buffer) = (oh, fsize)"
  shows "let ob = obj_at w a; bytes = put_oh (host_le w) (yaffs_do_endian_oh w oh) buffer;
       oh' = yaffs_do_endian_oh r (oh_of_bytes (host_le r) bytes);
       gone = oh_parent_obj_id oh' \<in> {YAFFS_OBJECTID_DELETED, YAFFS_OBJECTID_UNLINKED}
     in oh_type oh' = variant_type ob \<and> oh_yst_mode oh' = yst_mode ob \<and>
       oh_parent_obj_id oh' = (case parent (objs w a) of None \<Rightarrow> 0 | Some p \<Rightarrow> obj_number (obj_at w p)) \<and>
       yaffs_load_attribs ob oh' = ob \<and>
       (\<forall>c cs. name = Some (c # cs) \<longrightarrow> c_string (oh_name oh') = take 254 (c_string (c # cs))) \<and>
       (name = None \<and> prev > 0 \<longrightarrow> oh_name oh' = old_name) \<and>
       oh_shadows_obj oh' = shadows \<and> oh_is_shrink oh' = (if sh then 1 else 0) \<and>
       (variant_type ob = YAFFS_OBJECT_TYPE_FILE \<longrightarrow>
          yaffs_oh_to_size r oh' False = (if gone then 0 else stored_size (file_variant ob)) \<and>
          fsize = yaffs_oh_to_size r oh' False) \<and>
       (variant_type ob = YAFFS_OBJECT_TYPE_HARDLINK \<longrightarrow> oh_equiv_id oh' = equiv_id ob) \<and>
       (variant_type ob = YAFFS_OBJECT_TYPE_SYMLINK \<longrightarrow>
          (\<forall>al. alias_str (objs w a) = Some al \<longrightarrow> c_string (oh_alias oh') = take 159 (c_string al))) \<and>
       drop OH_SIZE bytes = drop OH_SIZE buffer"
proof -
  let ?oh0 = "oh_of_bytes (host_le w) buffer"
  let ?bytes = "put_oh (host_le w) (yaffs_do_endian_oh w oh) buffer"
  have sized: "oh_sized oh" using oh_build_sized [OF assms(4) oh_fields_split(2) [OF assms(2)] assms(3)] .
  then obtain s where read: "yaffs_do_endian_oh r (oh_of_bytes (host_le r) ?bytes) = oh\<lparr>oh_sum := s\<rparr>"
    using header_read_back [OF assms(1)] by blast
  have rest: "drop OH_SIZE ?bytes = drop OH_SIZE buffer" using sized by (simp add: put_oh_def length_oh_bytes)
  note f = oh_build_fields [OF assms(4)]
  have attribs: "yaffs_load_attribs ob (oh\<lparr>oh_sum := s\<rparr>) = yaffs_load_attribs ob oh" for ob
    by (simp add: yaffs_load_attribs_def)
  show ?thesis
    unfolding Let_def read rest attribs f(4) using f(1,2,3,6,7,8,9,10)
    by (auto simp: f(5,11) yaffs_oh_to_size_def name_read_back alias_read_back)
qed

section \<open>Witnesses\<close>

text \<open>A file of 5000 bytes on a little-endian machine that stores big-endian, and a big-endian reader.\<close>

definition header_vol :: "unit yaffs_vol" where
  "header_vol = vol_dev\<lparr>host_le := True, swap_endian := True,
     objs := \<lambda>_. zero_node\<lparr>core := zero_obj\<lparr>variant_type := YAFFS_OBJECT_TYPE_FILE,
       file_variant := (file_variant zero_obj)\<lparr>stored_size := 5000\<rparr>\<rparr>\<rparr>\<rparr>"

definition header_reader :: "unit yaffs_vol" where
  "header_reader = vol_dev\<lparr>host_le := False, swap_endian := False\<rparr>"

lemma header_portable_witness:
  "let oh = fst (oh_build header_vol (0, 0) 0 (Some [97, 98]) (replicate 256 0) False 0 (oh_of_bytes (host_le header_vol) (replicate 600 0xff)));
       bytes = put_oh (host_le header_vol) (yaffs_do_endian_oh header_vol oh) (replicate 600 0xff);
       oh' = yaffs_do_endian_oh header_reader (oh_of_bytes (host_le header_reader) bytes)
   in yaffs_oh_to_size header_reader oh' False = 5000 \<and> c_string (oh_name oh') = [97, 98] \<and>
     drop OH_SIZE bytes = replicate 88 0xff"
proof -
  have le: "stored_le header_reader = stored_le header_vol"
    by (simp add: stored_le_def header_reader_def header_vol_def)
  obtain oh fsize where b: "oh_build header_vol (0, 0) 0 (Some [97, 98]) (replicate 256 0) False 0
      (oh_of_bytes (host_le header_vol) (replicate 600 0xff)) = (oh, fsize)" by fastforce
  have name: "c_string [97, 98] = [97, 98]" by (simp add: c_string_def)
  show ?thesis
    using header_portable [OF le _ _ b] unfolding b Let_def
    by (simp add: name) (simp add: header_vol_def zero_node_def)
qed

end
