(* ===== verification/Yaffs_Gc.thy ===== *)
theory Yaffs_Gc
  imports Yaffs_Header Yaffs_Live
begin

text \<open>
  Garbage collection (\<open>yaffs_guts.c\<close>): choosing a block, moving what is still in use out of it and
  erasing it, in one go or a few chunks at a time, and the decision when to collect.

  Numbers the code keeps in \<open>unsigned\<close> fields are integers here; the page counts of a block
  never go below zero in a device whose counters are right. Mismatches that are only
  traced change nothing, but the look-up made for the trace reads the flash and is modelled.
\<close>

unbundle bit_operations_syntax

abbreviation YAFFS_GC_GOOD_ENOUGH :: int where "YAFFS_GC_GOOD_ENOUGH \<equiv> 2"
abbreviation YAFFS_GC_PASSIVE_THRESHOLD :: int where "YAFFS_GC_PASSIVE_THRESHOLD \<equiv> 4"

section \<open>Choosing a block\<close>

text \<open>The first block that asks to be collected and may be: the block or 0, and whether any asks.\<close>

fun prioritised_loop :: "int list \<Rightarrow> int \<Rightarrow> bool \<Rightarrow> ('n, 'x) yaffs_dev_scheme \<Rightarrow> int \<times> bool \<times> ('n, 'x) yaffs_dev_scheme" where
  "prioritised_loop [] selected exist dev = (selected, exist, dev)"
| "prioritised_loop (i # is) selected exist dev =
     (if selected \<noteq> 0 then (selected, exist, dev)
      else
       (let bi = yaffs_get_block_info dev i
        in if gc_prioritise bi then
             if block_state bi = YAFFS_BLOCK_STATE_FULL then
               (let (ok, dev) = yaffs_block_ok_for_gc dev bi
                in prioritised_loop is (if ok then i else selected) True dev)
             else prioritised_loop is selected True dev
           else prioritised_loop is selected exist dev))"

definition gc_pick_prioritised :: "('n, 'x) yaffs_dev_scheme \<Rightarrow> bool \<Rightarrow> int \<times> ('n, 'x) yaffs_dev_scheme" where
  "gc_pick_prioritised dev aggressive =
     (if has_pending_prioritised_gc dev \<and> \<not> aggressive then
        (let dev = dev\<lparr>gc_dirtiest := 0\<rparr>;
             (selected, exist, dev) = prioritised_loop (dev_blocks dev) 0 False dev;
             selected = (if exist \<and> selected = 0 \<and> oldest_dirty_block dev > 0 then oldest_dirty_block dev else selected)
         in (selected, if \<not> exist then dev\<lparr>has_pending_prioritised_gc := False\<rparr> else dev))
      else (0, dev))"

text \<open>How many pages in use are acceptable, and how many blocks are looked at.\<close>

definition gc_limits :: "('n, 'x) yaffs_dev_scheme \<Rightarrow> bool \<Rightarrow> bool \<Rightarrow> int \<times> int" where
  "gc_limits dev aggressive background =
     (let n_blocks = internal_end_block dev - internal_start_block dev + 1
      in if aggressive then (cpb dev, n_blocks)
         else
          (let max_threshold = max (if background then cpb dev div 2 else cpb dev div 8) YAFFS_GC_PASSIVE_THRESHOLD;
               threshold = max (if background then (gc_not_done dev + 2) * 2 else 0) YAFFS_GC_PASSIVE_THRESHOLD
           in (min threshold max_threshold, min (n_blocks div 16 + 1) 100)))"

fun gc_search_loop :: "nat \<Rightarrow> ('n, 'x) yaffs_dev_scheme \<Rightarrow> ('n, 'x) yaffs_dev_scheme" where
  "gc_search_loop 0 dev = dev"
| "gc_search_loop (Suc k) dev =
     (if gc_dirtiest dev < 1 \<or> gc_pages_in_use dev > YAFFS_GC_GOOD_ENOUGH then
        (let f = gc_block_finder dev + 1;
             f = (if f < internal_start_block dev \<or> f > internal_end_block dev then internal_start_block dev else f);
             dev = dev\<lparr>gc_block_finder := f\<rparr>;
             bi = yaffs_get_block_info dev f;
             pages_used = pages_in_use bi - soft_del_pages bi
         in if block_state bi = YAFFS_BLOCK_STATE_FULL \<and> pages_used < cpb dev \<and>
               (gc_dirtiest dev < 1 \<or> pages_used < gc_pages_in_use dev) then
              (let (ok, dev) = yaffs_block_ok_for_gc dev bi
               in gc_search_loop k (if ok then dev\<lparr>gc_dirtiest := f, gc_pages_in_use := pages_used\<rparr> else dev))
            else gc_search_loop k dev)
      else dev)"

definition gc_pick_dirty ::
  "('n, 'x) yaffs_dev_scheme \<Rightarrow> bool \<Rightarrow> bool \<Rightarrow> int \<times> ('n, 'x) yaffs_dev_scheme" where
  "gc_pick_dirty dev aggressive background =
     (let (threshold, iterations) = gc_limits dev aggressive background;
          dev = gc_search_loop (nat iterations) dev
      in (if gc_dirtiest dev > 0 \<and> gc_pages_in_use dev \<le> threshold then gc_dirtiest dev else 0, dev))"

definition gc_pick_oldest :: "('n, 'x) yaffs_dev_scheme \<Rightarrow> bool \<Rightarrow> int \<times> ('n, 'x) yaffs_dev_scheme" where
  "gc_pick_oldest dev background =
     (if is_yaffs2 (param dev) \<and> gc_not_done dev \<ge> (if background then 10 else 20) then
        (let dev = yaffs2_find_oldest_dirty_seq dev
         in if oldest_dirty_block dev > 0 then
              (let selected = oldest_dirty_block dev;
                   dev = upd_stats (dev\<lparr>gc_dirtiest := selected\<rparr>)
                           (\<lambda>s. s\<lparr>oldest_dirty_gc_count := oldest_dirty_gc_count s + 1\<rparr>);
                   bi = yaffs_get_block_info dev selected
               in (selected, dev\<lparr>gc_pages_in_use := pages_in_use bi - soft_del_pages bi\<rparr>))
            else (0, dev\<lparr>gc_not_done := 0\<rparr>))
      else (0, dev))"

definition yaffs_find_gc_block ::
  "('n, 'x) yaffs_dev_scheme \<Rightarrow> bool \<Rightarrow> bool \<Rightarrow> int \<times> ('n, 'x) yaffs_dev_scheme" where
  "yaffs_find_gc_block dev aggressive background =
     (let (selected, dev) = gc_pick_prioritised dev aggressive;
          (selected, dev) = (if selected = 0 then gc_pick_dirty dev aggressive background else (selected, dev));
          (selected, dev) = (if selected = 0 then gc_pick_oldest dev background else (selected, dev))
      in if selected \<noteq> 0 then
           (let dev = upd_stats dev (\<lambda>s. s\<lparr>n_gc_blocks := n_gc_blocks s + 1\<rparr>);
                dev = (if background then upd_stats dev (\<lambda>s. s\<lparr>bg_gcs := bg_gcs s + 1\<rparr>) else dev);
                dev = dev\<lparr>gc_dirtiest := 0, gc_pages_in_use := 0, gc_not_done := 0\<rparr>
            in (selected, if refresh_skip dev > 0 then dev\<lparr>refresh_skip := refresh_skip dev - 1\<rparr> else dev))
         else (0, dev\<lparr>gc_not_done := gc_not_done dev + 1\<rparr>))"

section \<open>Moving a chunk\<close>

text \<open>The header is changed in the buffer in the byte order it is stored in.\<close>

definition gc_header ::
  "('n, 'x) yaffs_vol_scheme \<Rightarrow> yaffs_obj \<Rightarrow> u8 list \<Rightarrow> yaffs_ext_tags \<Rightarrow> u8 list \<times> yaffs_ext_tags" where
  "gc_header dev ob buffer tags =
     (let oh = (oh_of_bytes (host_le dev) buffer)\<lparr>oh_is_shrink := 0, oh_shadows_obj := 0, oh_inband_shadowed_obj_id := 0\<rparr>;
          tags = tags\<lparr>extra_is_shrink := 0, extra_shadows := 0\<rparr>;
          (oh, tags) =
            (if variant_type ob = YAFFS_OBJECT_TYPE_FILE
             then (yaffs_oh_size_load dev oh (stored_size (file_variant ob)) True,
                   tags\<lparr>extra_file_size := stored_size (file_variant ob)\<rparr>)
             else (oh, tags))
      in (put_oh (host_le dev) oh buffer, tags))"

text \<open>Whether the chunk is a data chunk of a file whose data were soft deleted.\<close>

definition gc_discards :: "yaffs_obj \<Rightarrow> yaffs_ext_tags \<Rightarrow> bool" where
  "gc_discards ob tags \<longleftrightarrow> deleted ob \<and> soft_del ob \<and> chunk_id tags \<noteq> 0"

definition gc_discard_chunk ::
  "('n, 'x) yaffs_vol_scheme \<Rightarrow> int \<Rightarrow> slab_addr \<Rightarrow> yaffs_ext_tags \<Rightarrow> ('n, 'x) yaffs_vol_scheme" where
  "gc_discard_chunk dev block a tags =
     (let dev = dev\<lparr>n_free_chunks := n_free_chunks dev - 1\<rparr>;
          dev = upd_block_info dev block (\<lambda>bi. bi\<lparr>soft_del_pages := s10 (soft_del_pages bi - 1)\<rparr>);
          dev = upd_core dev a (\<lambda>ob. ob\<lparr>n_data_chunks := n_data_chunks ob - 1\<rparr>)
      in if n_data_chunks (obj_at dev a) \<le> 0
         then dev\<lparr>gc_cleanup_list := (gc_cleanup_list dev)[nat (n_clean_ups dev) := obj_id tags],
                n_clean_ups := n_clean_ups dev + 1\<rparr>
         else dev)"

definition put_chunk_at ::
  "('n, 'x) yaffs_vol_scheme \<Rightarrow> slab_addr \<Rightarrow> int \<Rightarrow> int \<Rightarrow> int \<times> ('n, 'x) yaffs_vol_scheme" where
  "put_chunk_at dev a inode_chunk nand_chunk =
     (let (r, ob, dev) = yaffs_put_chunk_in_file dev (obj_at dev a) inode_chunk nand_chunk 0
      in (r, upd_core dev a (\<lambda>_. ob)))"

definition gc_copy_chunk ::
  "('n, 'x) yaffs_vol_scheme \<Rightarrow> slab_addr \<Rightarrow> u8 list \<Rightarrow> yaffs_ext_tags \<Rightarrow> int \<times> ('n, 'x) yaffs_vol_scheme" where
  "gc_copy_chunk dev a buffer tags =
     (let tags = tags\<lparr>serial_number := serial_number tags + 1\<rparr>;
          dev = upd_stats dev (\<lambda>s. s\<lparr>n_gc_copies := n_gc_copies s + 1\<rparr>);
          (buffer, tags) = (if chunk_id tags = 0 then gc_header dev (obj_at dev a) buffer tags else (buffer, tags));
          (new_chunk, dev) = write_new dev buffer tags True
      in if new_chunk < 0 then (YAFFS_FAIL, dev)
         else if chunk_id tags = 0 then
           (YAFFS_OK, upd_core dev a (\<lambda>ob. ob\<lparr>hdr_chunk := new_chunk, serial := ucast (serial_number tags)\<rparr>))
         else (YAFFS_OK, snd (put_chunk_at dev a (sint (chunk_id tags)) new_chunk)))"

definition yaffs_gc_process_chunk ::
  "('n, 'x) yaffs_vol_scheme \<Rightarrow> int \<Rightarrow> int \<Rightarrow> int \<times> ('n, 'x) yaffs_vol_scheme" where
  "yaffs_gc_process_chunk dev block old_chunk =
     (let (_, buffer, tags, dev) = yaffs_rd_chunk_tags_nand dev old_chunk True;
          object = yaffs_find_by_number dev (obj_id tags);
          dev = (case object of None \<Rightarrow> dev
                 | Some a \<Rightarrow>
                     if \<not> yaffs_skip_verification dev \<and> chunk_id tags \<noteq> 0 \<and> \<not> soft_del (obj_at dev a)
                     then snd (snd (yaffs_find_chunk_in_file dev (obj_at dev a) (sint (chunk_id tags)) zero_tags))
                     else dev);
          (ret_val, mark_flash, dev) =
            (case object of None \<Rightarrow> (YAFFS_OK, True, dev)
             | Some a \<Rightarrow>
                 if gc_discards (obj_at dev a) tags then (YAFFS_OK, False, gc_discard_chunk dev block a tags)
                 else (let (r, dev) = gc_copy_chunk dev a buffer tags in (r, True, dev)))
      in (ret_val, if ret_val = YAFFS_OK then yaffs_chunk_del dev old_chunk mark_flash else dev))"

section \<open>Collecting a block\<close>

text \<open>One turn per chunk from \<open>gc_chunk\<close> on; \<open>max_copies\<close> chunks in use are moved at most. The
  result, and the device.\<close>

fun gc_copy_loop ::
  "nat \<Rightarrow> int \<Rightarrow> int \<Rightarrow> int \<Rightarrow> int \<Rightarrow> ('n, 'x) yaffs_vol_scheme \<Rightarrow> int \<times> ('n, 'x) yaffs_vol_scheme" where
  "gc_copy_loop 0 block max_copies old_chunk ret_val dev = (ret_val, dev)"
| "gc_copy_loop (Suc k) block max_copies old_chunk ret_val dev =
     (if ret_val = YAFFS_OK \<and> gc_chunk dev < cpb dev \<and>
         block_state (yaffs_get_block_info dev block) = YAFFS_BLOCK_STATE_COLLECTING \<and> max_copies > 0 then
        (let (max_copies, ret_val, dev) =
           (if yaffs_check_chunk_bit dev block (gc_chunk dev)
            then (let (r, d) = yaffs_gc_process_chunk dev block old_chunk in (max_copies - 1, r, d))
            else (max_copies, ret_val, dev))
         in gc_copy_loop k block max_copies (old_chunk + 1) ret_val (dev\<lparr>gc_chunk := gc_chunk dev + 1\<rparr>))
      else (ret_val, dev))"

text \<open>\<open>yaffs_free_tnode\<close> of a top node that may be null, which the object then forgets.\<close>

definition free_top :: "('n, 'x) yaffs_vol_scheme \<Rightarrow> slab_addr \<Rightarrow> ('n, 'x) yaffs_vol_scheme" where
  "free_top dev a =
     (let dev = (case top (file_variant (obj_at dev a)) of
            None \<Rightarrow> (yaffs_free_raw_tnode dev None)\<lparr>n_tnodes := n_tnodes dev - 1, checkpoint_blocks_required := 0\<rparr>
          | Some t \<Rightarrow> yaffs_free_tnode dev (tnode_addr t))
      in upd_core dev a (\<lambda>ob. ob\<lparr>file_variant := (file_variant ob)\<lparr>top := None\<rparr>\<rparr>))"

text \<open>Inside a collection \<open>yaffs_check_gc\<close> returns at once.\<close>

definition gc_cleanup :: "u32 \<Rightarrow> ('n, 'x) yaffs_vol_scheme \<Rightarrow> ('n, 'x) yaffs_vol_scheme" where
  "gc_cleanup number dev =
     (case yaffs_find_by_number dev number of None \<Rightarrow> dev
      | Some a \<Rightarrow>
          (let dev = free_top dev a;
               dev = snd (yaffs_generic_obj_del_with (\<lambda>d. d) dev a)
           in dev\<lparr>n_deleted_files := n_deleted_files dev - 1\<rparr>))"

definition gc_prepare :: "('n, 'x) yaffs_vol_scheme \<Rightarrow> int \<Rightarrow> ('n, 'x) yaffs_vol_scheme" where
  "gc_prepare dev block =
     (let dev = (if block_state (yaffs_get_block_info dev block) = YAFFS_BLOCK_STATE_FULL
                 then upd_block_info dev block (\<lambda>bi. bi\<lparr>block_state := YAFFS_BLOCK_STATE_COLLECTING\<rparr>) else dev);
          dev = upd_block_info dev block (\<lambda>bi. bi\<lparr>has_shrink_hdr := False\<rparr>);
          dev = dev\<lparr>gc_disable := True\<rparr>
      in yaffs_summary_gc dev block)"

definition gc_finish :: "('n, 'x) yaffs_vol_scheme \<Rightarrow> int \<Rightarrow> ('n, 'x) yaffs_vol_scheme" where
  "gc_finish dev block =
     (let dev =
        (if block_state (yaffs_get_block_info dev block) = YAFFS_BLOCK_STATE_COLLECTING
         then upd_block_info dev block (\<lambda>bi. bi\<lparr>block_state := YAFFS_BLOCK_STATE_FULL\<rparr>)
         else (fold (\<lambda>i dev. gc_cleanup (gc_cleanup_list dev ! i) dev) [0..<nat (n_clean_ups dev)] dev)
                \<lparr>gc_block := 0, gc_chunk := 0, n_clean_ups := 0\<rparr>)
      in dev\<lparr>gc_disable := False\<rparr>)"

definition yaffs_gc_block ::
  "('n, 'x) yaffs_vol_scheme \<Rightarrow> int \<Rightarrow> bool \<Rightarrow> int \<times> ('n, 'x) yaffs_vol_scheme" where
  "yaffs_gc_block dev block whole_block =
     (let is_checkpt_block = (block_state (yaffs_get_block_info dev block) = YAFFS_BLOCK_STATE_CHECKPOINT);
          dev = gc_prepare dev block;
          (ret_val, dev) =
            (if is_checkpt_block \<or> \<not> yaffs_still_some_chunks dev block
             then (YAFFS_OK, yaffs_block_became_dirty dev block)
             else gc_copy_loop (nat (cpb dev - gc_chunk dev)) block (if whole_block then cpb dev else 5)
                    (block * cpb dev + gc_chunk dev) YAFFS_OK dev)
      in (ret_val, gc_finish dev block))"

section \<open>Deciding when to collect\<close>

text \<open>Whether there is no need to collect, which collection is due otherwise, and the device.\<close>

definition gc_wanted ::
  "('n, 'x) yaffs_vol_scheme \<Rightarrow> bool \<Rightarrow> bool \<Rightarrow> bool \<times> bool \<times> ('n, 'x) yaffs_vol_scheme" where
  "gc_wanted dev background aggressive =
     (let (checkpt_block_adjust, dev) = yaffs_calc_checkpt_blocks_required dev;
          min_erased = n_reserved_blocks (param dev) + checkpt_block_adjust + 1;
          erased_chunks = n_erased_blocks dev * cpb dev
      in if n_erased_blocks dev < min_erased then (True, True, dev)
         else if \<not> background \<and> erased_chunks > n_free_chunks dev div 4 then (False, aggressive, dev)
         else
          (let dev = (if gc_skip dev > 20 then dev\<lparr>gc_skip := 20\<rparr> else dev)
           in if erased_chunks < n_free_chunks dev div 2 \<or> gc_skip dev < 1 \<or> background then (True, False, dev)
              else (False, aggressive, dev\<lparr>gc_skip := gc_skip dev - 1\<rparr>)))"

definition gc_select :: "('n, 'x) yaffs_vol_scheme \<Rightarrow> bool \<Rightarrow> bool \<Rightarrow> ('n, 'x) yaffs_vol_scheme" where
  "gc_select dev aggressive background =
     (let dev = dev\<lparr>gc_skip := 5\<rparr>;
          dev = (if gc_block dev < 1 \<and> \<not> aggressive
                 then (let (b, d) = yaffs2_find_refresh_block dev in d\<lparr>gc_block := b, gc_chunk := 0, n_clean_ups := 0\<rparr>)
                 else dev)
      in if gc_block dev < 1
         then (let (b, d) = yaffs_find_gc_block dev aggressive background in d\<lparr>gc_block := b, gc_chunk := 0, n_clean_ups := 0\<rparr>)
         else dev)"

definition gc_collect :: "('n, 'x) yaffs_vol_scheme \<Rightarrow> bool \<Rightarrow> int \<Rightarrow> int \<times> ('n, 'x) yaffs_vol_scheme" where
  "gc_collect dev aggressive gc_ok =
     (if gc_block dev > 0 then
        (let dev = upd_stats dev (\<lambda>s. s\<lparr>all_gcs := all_gcs s + 1\<rparr>);
             dev = (if \<not> aggressive then upd_stats dev (\<lambda>s. s\<lparr>passive_gc_count := passive_gc_count s + 1\<rparr>) else dev)
         in yaffs_gc_block dev (gc_block dev) aggressive)
      else (gc_ok, dev))"

text \<open>The loop runs at most twice; the arguments are how many tries are left, \<open>aggressive\<close> and \<open>gc_ok\<close>.\<close>

fun check_gc_loop ::
  "nat \<Rightarrow> bool \<Rightarrow> bool \<Rightarrow> int \<Rightarrow> ('n, 'x) yaffs_vol_scheme \<Rightarrow> bool \<times> int \<times> ('n, 'x) yaffs_vol_scheme" where
  "check_gc_loop 0 background aggressive gc_ok dev = (aggressive, gc_ok, dev)"
| "check_gc_loop (Suc tries) background aggressive gc_ok dev =
     (let (wanted, aggressive, dev) = gc_wanted dev background aggressive
      in if \<not> wanted then (aggressive, gc_ok, dev)
         else
          (let (gc_ok, dev) = gc_collect (gc_select dev aggressive background) aggressive gc_ok
           in if n_erased_blocks dev < n_reserved_blocks (param dev) \<and> gc_block dev > 0
              then check_gc_loop tries background aggressive gc_ok dev
              else (aggressive, gc_ok, dev)))"

definition yaffs_check_gc :: "bool \<Rightarrow> ('n, 'x) yaffs_vol_scheme \<Rightarrow> int \<times> ('n, 'x) yaffs_vol_scheme" where
  "yaffs_check_gc background dev =
     (if (case gc_control_fn dev of None \<Rightarrow> False | Some f \<Rightarrow> f (nand dev) AND 1 = 0) then (YAFFS_OK, dev)
      else if gc_disable dev then (YAFFS_OK, dev)
      else
       (let (aggressive, gc_ok, dev) = check_gc_loop 2 background False YAFFS_OK dev
        in (if aggressive then gc_ok else YAFFS_OK, dev)))"

definition yaffs_bg_gc :: "('n, 'x) yaffs_vol_scheme \<Rightarrow> bool \<times> ('n, 'x) yaffs_vol_scheme" where
  "yaffs_bg_gc dev =
     (let erased_chunks = n_erased_blocks dev * cpb dev;
          (_, dev) = yaffs_check_gc True dev
      in (erased_chunks > n_free_chunks dev div 2, dev))"

text \<open>The knot: outside a collection the operations of \<open>Yaffs_Header\<close> collect first, and a call from
  inside one, where \<open>gc_disable\<close> is set, does not.\<close>

abbreviation gc_first :: "('n, 'x) yaffs_vol_scheme \<Rightarrow> ('n, 'x) yaffs_vol_scheme" where
  "gc_first dev \<equiv> snd (yaffs_check_gc False dev)"

lemma check_gc_disabled: "gc_disable dev \<Longrightarrow> yaffs_check_gc background dev = (YAFFS_OK, dev)"
  by (simp add: yaffs_check_gc_def)

lemma update_oh_nested:
  "gc_disable dev \<Longrightarrow> yaffs_update_oh_with gc_first dev a name force is_shrink shadows xmod =
     yaffs_update_oh_with (\<lambda>d. d) dev a name force is_shrink shadows xmod"
  by (simp add: yaffs_update_oh_with_def check_gc_disabled)

definition yaffs_update_oh where "yaffs_update_oh = yaffs_update_oh_with gc_first"

definition yaffs_change_obj_name where "yaffs_change_obj_name = yaffs_change_obj_name_with gc_first"

definition yaffs_generic_obj_del where "yaffs_generic_obj_del = yaffs_generic_obj_del_with gc_first"

end
