(* ===== verification/Yaffs_Io.thy ===== *)
theory Yaffs_Io
  imports Yaffs_Gc
begin

text \<open>
  Reading and writing files (\<open>yaffs_guts.c\<close>, \<open>yaffs_yaffs2.c\<close>): one chunk of a file at a time, the
  cache for short operations with its flushing and its least-recently-used replacement, the loops
  over the chunks a read or a write touches, holes, and changing the size of a file.

  A cache entry is named by its index. An address is a \<open>loff_t\<close> and wraps; a position inside a
  chunk and a number of bytes to go are far from wrapping and are integers. What a read puts into
  the buffer of the caller is returned as a list.
\<close>

unbundle bit_operations_syntax

section \<open>A chunk of a file\<close>

text \<open>The result of the read, the buffer, and the device. A hole reads as zeros.\<close>

definition yaffs_rd_data_obj ::
  "('n, 'x) yaffs_vol_scheme \<Rightarrow> slab_addr \<Rightarrow> int \<Rightarrow> u8 list \<Rightarrow> int \<times> u8 list \<times> ('n, 'x) yaffs_vol_scheme" where
  "yaffs_rd_data_obj dev a inode_chunk buffer =
     (let (nand_chunk, _, dev) = yaffs_find_chunk_in_file dev (obj_at dev a) inode_chunk zero_tags
      in if nand_chunk \<ge> 0 then
           (let (result, data, _, dev) = yaffs_rd_chunk_tags_nand dev nand_chunk True in (result, data, dev))
         else (0, replicate (data_bytes_per_chunk dev) 0 @ drop (data_bytes_per_chunk dev) buffer, dev))"

text \<open>The tags of the previous chunk are filled in only when a group of chunks was searched; with
  groups of one chunk the serial number is made from uninitialised memory.\<close>

definition data_tags :: "('n, 'x) yaffs_vol_scheme \<Rightarrow> slab_addr \<Rightarrow> int \<Rightarrow> int \<Rightarrow> int \<Rightarrow> yaffs_ext_tags \<Rightarrow> yaffs_ext_tags" where
  "data_tags dev a inode_chunk nbytes prev_chunk_id prev_tags =
     zero_tags\<lparr>chunk_id := word_of_int inode_chunk, obj_id := obj_number (obj_at dev a),
       serial_number := (if prev_chunk_id > 0 then serial_number prev_tags + 1 else 1), n_bytes := word_of_int nbytes\<rparr>"

text \<open>The stored size follows a write behind it.\<close>

definition grow_stored_size ::
  "('n, 'x) yaffs_vol_scheme \<Rightarrow> slab_addr \<Rightarrow> int \<Rightarrow> int \<Rightarrow> ('n, 'x) yaffs_vol_scheme" where
  "grow_stored_size dev a inode_chunk nbytes =
     (if inode_chunk > 0 then
        (let endpos = word_of_int (inode_chunk - 1) * word_of_nat (data_bytes_per_chunk dev) + word_of_int nbytes :: loff_t
         in upd_core dev a (\<lambda>ob. if stored_size (file_variant ob) < endpos
              then ob\<lparr>file_variant := (file_variant ob)\<lparr>stored_size := endpos\<rparr>\<rparr> else ob))
      else dev)"

definition yaffs_wr_data_obj ::
  "('n, 'x) yaffs_vol_scheme \<Rightarrow> slab_addr \<Rightarrow> int \<Rightarrow> u8 list \<Rightarrow> int \<Rightarrow> bool \<Rightarrow> int \<times> ('n, 'x) yaffs_vol_scheme" where
  "yaffs_wr_data_obj dev a inode_chunk buffer nbytes use_reserve =
     (let dev = gc_first dev;
          (prev_chunk_id, prev_tags, dev) = yaffs_find_chunk_in_file dev (obj_at dev a) inode_chunk (stack_tags dev);
          (ok, dev) = (if prev_chunk_id < 1 then put_chunk_at dev a inode_chunk 0 else (YAFFS_OK, dev))
      in if ok = YAFFS_FAIL then (0, dev)
         else
          (let tags = data_tags dev a inode_chunk nbytes prev_chunk_id prev_tags;
               dev = grow_stored_size dev a inode_chunk nbytes;
               (new_chunk_id, dev) = write_new dev buffer tags use_reserve
           in if new_chunk_id > 0 then
                (let (_, dev) = put_chunk_at dev a inode_chunk new_chunk_id
                 in (new_chunk_id, if prev_chunk_id > 0 then yaffs_chunk_del dev prev_chunk_id True else dev))
              else (new_chunk_id, dev)))"

section \<open>The cache\<close>

definition upd_cache ::
  "('n, 'x) yaffs_vol_scheme \<Rightarrow> nat \<Rightarrow> (yaffs_cache \<Rightarrow> yaffs_cache) \<Rightarrow> ('n, 'x) yaffs_vol_scheme" where
  "upd_cache dev i f = dev\<lparr>caches := (caches dev)[i := f (caches dev ! i)]\<rparr>"

definition yaffs_flush_single_cache ::
  "('n, 'x) yaffs_vol_scheme \<Rightarrow> nat option \<Rightarrow> bool \<Rightarrow> ('n, 'x) yaffs_vol_scheme" where
  "yaffs_flush_single_cache dev cache discard =
     (case cache of None \<Rightarrow> dev
      | Some i \<Rightarrow>
          (let c = caches dev ! i
           in if cache_locked c then dev
              else
               (let dev = (if cache_dirty c
                    then (let dev = (case cache_object c of None \<Rightarrow> dev
                            | Some a \<Rightarrow> snd (yaffs_wr_data_obj dev a (cache_chunk_id c) (cache_data c) (cache_n_bytes c) True))
                          in upd_cache dev i (\<lambda>c. c\<lparr>cache_dirty := False\<rparr>))
                    else dev)
                in if discard then upd_cache dev i (\<lambda>c. c\<lparr>cache_object := None\<rparr>) else dev)))"

definition yaffs_flush_file_cache ::
  "('n, 'x) yaffs_vol_scheme \<Rightarrow> slab_addr \<Rightarrow> bool \<Rightarrow> ('n, 'x) yaffs_vol_scheme" where
  "yaffs_flush_file_cache dev a discard =
     fold (\<lambda>i dev. if cache_object (caches dev ! i) = Some a then yaffs_flush_single_cache dev (Some i) discard else dev)
       [0..<n_caches (param dev)] dev"

text \<open>One object is flushed per turn, until no entry is dirty; \<open>None\<close> when there still is one
  after \<open>k\<close> turns (a locked entry is never flushed).\<close>

fun flush_whole_loop ::
  "nat \<Rightarrow> bool \<Rightarrow> ('n, 'x) yaffs_vol_scheme \<Rightarrow> ('n, 'x) yaffs_vol_scheme option" where
  "flush_whole_loop 0 discard dev = None"
| "flush_whole_loop (Suc k) discard dev =
     (case find (\<lambda>c. cache_object c \<noteq> None \<and> cache_dirty c) (take (n_caches (param dev)) (caches dev)) of
        None \<Rightarrow> Some dev
      | Some c \<Rightarrow> flush_whole_loop k discard
          (case cache_object c of None \<Rightarrow> dev | Some a \<Rightarrow> yaffs_flush_file_cache dev a discard))"

definition yaffs_flush_whole_cache ::
  "('n, 'x) yaffs_vol_scheme \<Rightarrow> bool \<Rightarrow> ('n, 'x) yaffs_vol_scheme option" where
  "yaffs_flush_whole_cache dev discard = flush_whole_loop (n_caches (param dev) + 1) discard dev"

definition yaffs_grab_chunk_worker :: "('n, 'x) yaffs_vol_scheme \<Rightarrow> nat option" where
  "yaffs_grab_chunk_worker dev = find (\<lambda>i. cache_object (caches dev ! i) = None) [0..<n_caches (param dev)]"

text \<open>The least recently used entry that is not locked, with its time.\<close>

definition lru_step :: "('n, 'x) yaffs_vol_scheme \<Rightarrow> nat \<Rightarrow> int \<times> nat option \<Rightarrow> int \<times> nat option" where
  "lru_step dev i = (\<lambda>(usage, cache).
     let c = caches dev ! i
     in if cache_object c \<noteq> None \<and> \<not> cache_locked c \<and> (last_use c < usage \<or> cache = None)
        then (last_use c, Some i) else (usage, cache))"

definition yaffs_grab_chunk_cache ::
  "('n, 'x) yaffs_vol_scheme \<Rightarrow> nat option \<times> ('n, 'x) yaffs_vol_scheme" where
  "yaffs_grab_chunk_cache dev =
     (if n_caches (param dev) < 1 then (None, dev)
      else (case yaffs_grab_chunk_worker dev of
              Some i \<Rightarrow> (Some i, dev)
            | None \<Rightarrow>
                (let cache = snd (fold (lru_step dev) [0..<n_caches (param dev)] (-1, None))
                 in (cache, yaffs_flush_single_cache dev cache True))))"

definition yaffs_find_chunk_cache ::
  "('n, 'x) yaffs_vol_scheme \<Rightarrow> slab_addr \<Rightarrow> int \<Rightarrow> nat option \<times> ('n, 'x) yaffs_vol_scheme" where
  "yaffs_find_chunk_cache dev a chunk =
     (case find (\<lambda>i. cache_object (caches dev ! i) = Some a \<and> cache_chunk_id (caches dev ! i) = chunk)
             [0..<n_caches (param dev)] of
        None \<Rightarrow> (None, dev)
      | Some i \<Rightarrow> (Some i, dev\<lparr>cache_hits := cache_hits dev + 1\<rparr>))"

text \<open>When the clock is reset the use of entry 0 is kept, as in the code.\<close>

definition yaffs_use_cache ::
  "('n, 'x) yaffs_vol_scheme \<Rightarrow> nat \<Rightarrow> bool \<Rightarrow> ('n, 'x) yaffs_vol_scheme" where
  "yaffs_use_cache dev i is_write =
     (if n_caches (param dev) < 1 then dev
      else
       (let dev = (if cache_last_use dev < 0 \<or> cache_last_use dev > 100000000
              then (fold (\<lambda>j dev. upd_cache dev j (\<lambda>c. c\<lparr>last_use := 0\<rparr>)) [1..<n_caches (param dev)] dev)
                     \<lparr>cache_last_use := 0\<rparr>
              else dev);
            dev = dev\<lparr>cache_last_use := cache_last_use dev + 1\<rparr>;
            dev = upd_cache dev i (\<lambda>c. c\<lparr>last_use := cache_last_use dev\<rparr>)
        in if is_write then upd_cache dev i (\<lambda>c. c\<lparr>cache_dirty := True\<rparr>) else dev))"

definition yaffs_invalidate_chunk_cache ::
  "('n, 'x) yaffs_vol_scheme \<Rightarrow> slab_addr \<Rightarrow> int \<Rightarrow> ('n, 'x) yaffs_vol_scheme" where
  "yaffs_invalidate_chunk_cache dev a chunk =
     (if n_caches (param dev) > 0 then
        (let (cache, dev) = yaffs_find_chunk_cache dev a chunk
         in case cache of None \<Rightarrow> dev | Some i \<Rightarrow> upd_cache dev i (\<lambda>c. c\<lparr>cache_object := None\<rparr>))
      else dev)"

section \<open>Reading a file\<close>

text \<open>A fresh entry of the cache, loaded with the chunk. Every entry is unlocked between two operations,
  so there always is one to be had.\<close>

definition cache_load ::
  "('n, 'x) yaffs_vol_scheme \<Rightarrow> slab_addr \<Rightarrow> int \<Rightarrow> nat option \<times> ('n, 'x) yaffs_vol_scheme" where
  "cache_load dev a chunk =
     (let (cache, dev) = yaffs_grab_chunk_cache dev
      in case cache of None \<Rightarrow> (None, dev)
         | Some i \<Rightarrow>
             (let dev = upd_cache dev i (\<lambda>c. c\<lparr>cache_object := Some a, cache_chunk_id := chunk, cache_dirty := False,
                    cache_locked := False\<rparr>);
                  (_, data, dev) = yaffs_rd_data_obj dev a chunk (cache_data (caches dev ! i))
              in (Some i, upd_cache dev i (\<lambda>c. c\<lparr>cache_data := data\<rparr>))))"

definition file_rd_chunk ::
  "('n, 'x) yaffs_vol_scheme \<Rightarrow> slab_addr \<Rightarrow> int \<Rightarrow> nat \<Rightarrow> nat \<Rightarrow> u8 list \<times> ('n, 'x) yaffs_vol_scheme" where
  "file_rd_chunk dev a chunk start n_copy =
     (let (cache, dev) = yaffs_find_chunk_cache dev a chunk
      in if cache \<noteq> None \<or> n_copy \<noteq> data_bytes_per_chunk dev \<or> inband_tags (param dev) then
           if n_caches (param dev) > 0 then
             (let (cache, dev) = (if cache = None
                    then (let (cache, dev) = cache_load dev a chunk
                          in (cache, case cache of None \<Rightarrow> dev | Some i \<Rightarrow> upd_cache dev i (\<lambda>c. c\<lparr>cache_n_bytes := 0\<rparr>)))
                    else (cache, dev))
              in case cache of None \<Rightarrow> ([], dev)
                 | Some i \<Rightarrow>
                     (let dev = upd_cache (yaffs_use_cache dev i False) i (\<lambda>c. c\<lparr>cache_locked := False\<rparr>)
                      in (take n_copy (drop start (cache_data (caches dev ! i))), dev)))
           else
             (let (_, local_buffer, dev) = yaffs_rd_data_obj dev a chunk (temp_fill dev)
              in (take n_copy (drop start local_buffer), dev))
         else (let (_, data, dev) = yaffs_rd_data_obj dev a chunk [] in (take n_copy data, dev)))"

text \<open>One turn per chunk. A turn copies a byte at least, so \<open>n_bytes\<close> turns are enough.\<close>

fun file_rd_loop ::
  "nat \<Rightarrow> ('n, 'x) yaffs_vol_scheme \<Rightarrow> slab_addr \<Rightarrow> loff_t \<Rightarrow> nat \<Rightarrow> nat \<Rightarrow> u8 list \<Rightarrow>
   nat \<times> u8 list \<times> ('n, 'x) yaffs_vol_scheme" where
  "file_rd_loop 0 dev a offset n n_done buffer = (n_done, buffer, dev)"
| "file_rd_loop (Suc k) dev a offset n n_done buffer =
     (if n > 0 then
        (let (chunk, start) = yaffs_addr_to_chunk dev offset;
             n_copy = (if unat start + n < data_bytes_per_chunk dev then n else data_bytes_per_chunk dev - unat start);
             (bytes, dev) = file_rd_chunk dev a (chunk + 1) (unat start) n_copy
         in file_rd_loop k dev a (offset + word_of_nat n_copy) (n - n_copy) (n_done + n_copy) (buffer @ bytes))
      else (n_done, buffer, dev))"

definition yaffs_file_rd ::
  "('n, 'x) yaffs_vol_scheme \<Rightarrow> slab_addr \<Rightarrow> loff_t \<Rightarrow> nat \<Rightarrow> nat \<times> u8 list \<times> ('n, 'x) yaffs_vol_scheme" where
  "yaffs_file_rd dev a offset nbytes = file_rd_loop nbytes dev a offset nbytes 0 []"

section \<open>Writing a file\<close>

text \<open>How much of a chunk that is not filled up has to be written back.\<close>

definition writeback_size :: "('n, 'x) yaffs_vol_scheme \<Rightarrow> slab_addr \<Rightarrow> int \<Rightarrow> nat \<Rightarrow> nat \<Rightarrow> nat" where
  "writeback_size dev a chunk start n =
     (let chunk_start = word_of_int (chunk - 1) * word_of_nat (data_bytes_per_chunk dev) :: loff_t;
          fsize = file_size (file_variant (obj_at dev a));
          n_bytes_read = (if chunk_start > fsize then 0 else unat (fsize - chunk_start));
          n_bytes_read = min n_bytes_read (data_bytes_per_chunk dev)
      in max n_bytes_read (start + n))"

text \<open>\<open>memcpy\<close> into a chunk in memory.\<close>

definition overlay :: "u8 list \<Rightarrow> nat \<Rightarrow> u8 list \<Rightarrow> u8 list" where
  "overlay data start bytes = take start data @ bytes @ drop (start + length bytes) data"

text \<open>Through the cache. A clean entry is not taken when there is no room to write it back. Returns
  what \<open>chunk_written\<close> becomes.\<close>

definition file_wr_cached ::
  "('n, 'x) yaffs_vol_scheme \<Rightarrow> slab_addr \<Rightarrow> int \<Rightarrow> nat \<Rightarrow> u8 list \<Rightarrow> nat \<Rightarrow> bool \<Rightarrow> int \<Rightarrow>
   int \<times> ('n, 'x) yaffs_vol_scheme" where
  "file_wr_cached dev a chunk start bytes n_writeback write_through chunk_written =
     (let (cache, dev) = yaffs_find_chunk_cache dev a chunk;
          (cache, dev) =
            (case cache of
               None \<Rightarrow> (let (room, dev) = yaffs_check_alloc_available dev 1
                        in if room then cache_load dev a chunk else (None, dev))
             | Some i \<Rightarrow>
                 if \<not> cache_dirty (caches dev ! i)
                 then (let (room, dev) = yaffs_check_alloc_available dev 1 in (if room then Some i else None, dev))
                 else (Some i, dev))
      in case cache of None \<Rightarrow> (-1, dev)
         | Some i \<Rightarrow>
             (let dev = yaffs_use_cache dev i True;
                  dev = upd_cache dev i (\<lambda>c. c\<lparr>cache_data := overlay (cache_data c) start bytes, cache_locked := False,
                          cache_n_bytes := int n_writeback\<rparr>)
              in if write_through then
                   (let c = caches dev ! i;
                        (w, dev) = (case cache_object c of None \<Rightarrow> (0, dev)
                          | Some o' \<Rightarrow> yaffs_wr_data_obj dev o' (cache_chunk_id c) (cache_data c) (cache_n_bytes c) True)
                    in (w, upd_cache dev i (\<lambda>c. c\<lparr>cache_dirty := False\<rparr>)))
                 else (chunk_written, dev)))"

definition file_wr_chunk ::
  "('n, 'x) yaffs_vol_scheme \<Rightarrow> slab_addr \<Rightarrow> int \<Rightarrow> nat \<Rightarrow> u8 list \<Rightarrow> nat \<Rightarrow> bool \<Rightarrow> int \<Rightarrow>
   int \<times> ('n, 'x) yaffs_vol_scheme" where
  "file_wr_chunk dev a chunk start bytes n_writeback write_through chunk_written =
     (if length bytes \<noteq> data_bytes_per_chunk dev \<or> \<not> cache_bypass_aligned (param dev) \<or> inband_tags (param dev) then
        if n_caches (param dev) > 0
        then file_wr_cached dev a chunk start bytes n_writeback write_through chunk_written
        else
         (let (_, local_buffer, dev) = yaffs_rd_data_obj dev a chunk (temp_fill dev)
          in yaffs_wr_data_obj dev a chunk (overlay local_buffer start bytes) (int n_writeback) False)
      else
       (let (w, dev) = yaffs_wr_data_obj dev a chunk bytes (int (data_bytes_per_chunk dev)) False
        in (w, yaffs_invalidate_chunk_cache dev a chunk)))"

fun file_wr_loop ::
  "nat \<Rightarrow> ('n, 'x) yaffs_vol_scheme \<Rightarrow> slab_addr \<Rightarrow> u8 list \<Rightarrow> loff_t \<Rightarrow> nat \<Rightarrow> bool \<Rightarrow> int \<Rightarrow>
   nat \<times> ('n, 'x) yaffs_vol_scheme" where
  "file_wr_loop 0 dev a buffer offset n_done write_through chunk_written = (n_done, dev)"
| "file_wr_loop (Suc k) dev a buffer offset n_done write_through chunk_written =
     (if length buffer > 0 \<and> chunk_written \<ge> 0 then
        (let n = length buffer;
             (chunk, start) = yaffs_addr_to_chunk dev offset;
             chunk = chunk + 1;
             (n_copy, n_writeback) =
               (if unat start + n < data_bytes_per_chunk dev then (n, writeback_size dev a chunk (unat start) n)
                else (data_bytes_per_chunk dev - unat start, data_bytes_per_chunk dev));
             (chunk_written, dev) = file_wr_chunk dev a chunk (unat start) (take n_copy buffer) n_writeback write_through chunk_written
         in if chunk_written \<ge> 0
            then file_wr_loop k dev a (drop n_copy buffer) (offset + word_of_nat n_copy) (n_done + n_copy) write_through chunk_written
            else file_wr_loop k dev a buffer offset n_done write_through chunk_written)
      else (n_done, dev))"

definition yaffs_do_file_wr ::
  "('n, 'x) yaffs_vol_scheme \<Rightarrow> slab_addr \<Rightarrow> u8 list \<Rightarrow> loff_t \<Rightarrow> bool \<Rightarrow> nat \<times> ('n, 'x) yaffs_vol_scheme" where
  "yaffs_do_file_wr dev a buffer offset write_through =
     (let (n_done, dev) = file_wr_loop (length buffer) dev a buffer offset 0 write_through 0;
          new_end = offset + word_of_nat n_done;
          dev = upd_core dev a (\<lambda>ob. if new_end > file_size (file_variant ob)
                  then ob\<lparr>file_variant := (file_variant ob)\<lparr>file_size := new_end\<rparr>\<rparr> else ob)
      in (n_done, upd_core dev a (\<lambda>ob. ob\<lparr>obj_dirty := True\<rparr>)))"

section \<open>Changing the size\<close>

definition yaffs_resize_file_down ::
  "('n, 'x) yaffs_vol_scheme \<Rightarrow> slab_addr \<Rightarrow> loff_t \<Rightarrow> ('n, 'x) yaffs_vol_scheme" where
  "yaffs_resize_file_down dev a new_size =
     (let (new_full, new_partial) = yaffs_addr_to_chunk dev new_size;
          (ob, dev) = yaffs_prune_chunks dev (obj_at dev a) new_size;
          dev = upd_core dev a (\<lambda>_. ob);
          dev = (if new_partial \<noteq> 0 then
                   (let (_, local_buffer, dev) = yaffs_rd_data_obj dev a (1 + new_full) (temp_fill dev);
                        rest = data_bytes_per_chunk dev - unat new_partial;
                        local_buffer = overlay local_buffer (unat new_partial) (replicate rest 0)
                    in snd (yaffs_wr_data_obj dev a (1 + new_full) local_buffer (uint new_partial) True))
                 else dev);
          dev = upd_core dev a (\<lambda>ob. ob\<lparr>file_variant := (file_variant ob)\<lparr>file_size := new_size, stored_size := new_size\<rparr>\<rparr>);
          (_, fv, dev) = yaffs_prune_tree dev (file_variant (obj_at dev a))
      in upd_core dev a (\<lambda>ob. ob\<lparr>file_variant := fv\<rparr>))"

text \<open>The object is in a directory other than the two for deleted ones.\<close>

definition in_live_dir :: "('n, 'x) yaffs_fs_scheme \<Rightarrow> slab_addr \<Rightarrow> bool" where
  "in_live_dir dev a = (case parent (objs dev a) of None \<Rightarrow> False
     | Some p \<Rightarrow> obj_number (obj_at dev p) \<noteq> YAFFS_OBJECTID_UNLINKED \<and> obj_number (obj_at dev p) \<noteq> YAFFS_OBJECTID_DELETED)"

abbreviation YAFFS_SMALL_HOLE_THRESHOLD :: nat where "YAFFS_SMALL_HOLE_THRESHOLD \<equiv> 4"

text \<open>A small hole is filled with zeros, a chunk per turn; whether all went in. Fewer than
  \<open>YAFFS_SMALL_HOLE_THRESHOLD\<close> chunks are written.\<close>

fun fill_hole_loop ::
  "nat \<Rightarrow> ('n, 'x) yaffs_vol_scheme \<Rightarrow> slab_addr \<Rightarrow> loff_t \<Rightarrow> nat \<Rightarrow> bool \<times> ('n, 'x) yaffs_vol_scheme" where
  "fill_hole_loop 0 dev a pos increase = (True, dev)"
| "fill_hole_loop (Suc k) dev a pos increase =
     (if increase > 0 then
        (let this_write = min increase (data_bytes_per_chunk dev);
             (written, dev) = yaffs_do_file_wr dev a (replicate this_write 0) pos False
         in if written = this_write then fill_hole_loop k dev a (pos + word_of_nat this_write) (increase - this_write)
            else (False, dev))
      else (True, dev))"

definition yaffs2_handle_hole ::
  "('n, 'x) yaffs_vol_scheme \<Rightarrow> slab_addr option \<Rightarrow> loff_t \<Rightarrow> int \<times> ('n, 'x) yaffs_vol_scheme" where
  "yaffs2_handle_hole dev obj new_size =
     (case obj of None \<Rightarrow> (YAFFS_FAIL, dev)
      | Some a \<Rightarrow>
          if variant_type (obj_at dev a) \<noteq> YAFFS_OBJECT_TYPE_FILE then (YAFFS_FAIL, dev)
          else if \<not> is_yaffs2 (param dev) then (YAFFS_OK, dev)
          else
           (let old_file_size = file_size (file_variant (obj_at dev a))
            in if new_size \<le> old_file_size then (YAFFS_OK, dev)
               else
                (let increase = new_size - old_file_size;
                     (small_hole, dev) =
                       (if unat increase < YAFFS_SMALL_HOLE_THRESHOLD * data_bytes_per_chunk dev
                        then yaffs_check_alloc_available dev (int YAFFS_SMALL_HOLE_THRESHOLD + 1) else (False, dev));
                     (small_increase_ok, dev) =
                       (if small_hole then
                          (let (ok, dev) = fill_hole_loop (YAFFS_SMALL_HOLE_THRESHOLD + 1) dev a old_file_size (unat increase)
                           in (ok, if ok then dev else yaffs_resize_file_down dev a old_file_size))
                        else (False, dev));
                     dev = (if \<not> small_increase_ok \<and> in_live_dir dev a
                            then snd (snd (yaffs_update_oh dev a None False True 0 None)) else dev)
                 in (YAFFS_OK, dev))))"

definition yaffs_wr_file ::
  "('n, 'x) yaffs_vol_scheme \<Rightarrow> slab_addr \<Rightarrow> u8 list \<Rightarrow> loff_t \<Rightarrow> bool \<Rightarrow> nat \<times> ('n, 'x) yaffs_vol_scheme" where
  "yaffs_wr_file dev a buffer offset write_through =
     (let (_, dev) = yaffs2_handle_hole dev (Some a) offset
      in yaffs_do_file_wr dev a buffer offset write_through)"

definition yaffs_resize_file ::
  "('n, 'x) yaffs_vol_scheme \<Rightarrow> slab_addr \<Rightarrow> loff_t \<Rightarrow> int \<times> ('n, 'x) yaffs_vol_scheme" where
  "yaffs_resize_file dev a new_size =
     (let old_size = file_size (file_variant (obj_at dev a));
          dev = (if n_caches (param dev) < 1 then dev else yaffs_flush_file_cache dev a True);
          dev = yaffs_invalidate_whole_cache dev a;
          dev = gc_first dev
      in if variant_type (obj_at dev a) \<noteq> YAFFS_OBJECT_TYPE_FILE then (YAFFS_FAIL, dev)
         else if new_size = old_size then (YAFFS_OK, dev)
         else
          (let dev = (if new_size > old_size
                  then upd_core (snd (yaffs2_handle_hole dev (Some a) new_size)) a
                         (\<lambda>ob. ob\<lparr>file_variant := (file_variant ob)\<lparr>file_size := new_size\<rparr>\<rparr>)
                  else yaffs_resize_file_down dev a new_size);
               dev = (if in_live_dir dev a \<and> \<not> is_shadowed (obj_at dev a)
                      then snd (snd (yaffs_update_oh dev a None False False 0 None)) else dev)
           in (YAFFS_OK, dev)))"

definition yaffs_flush_file ::
  "('n, 'x) yaffs_vol_scheme \<Rightarrow> slab_addr \<Rightarrow> bool \<Rightarrow> bool \<Rightarrow> bool \<Rightarrow> int \<times> ('n, 'x) yaffs_vol_scheme" where
  "yaffs_flush_file dev a update_time data_sync discard_cache =
     (if \<not> obj_dirty (obj_at dev a) then (YAFFS_OK, dev)
      else
       (let dev = yaffs_flush_file_cache dev a discard_cache
        in if data_sync then (YAFFS_OK, dev)
           else
            (let dev = (if update_time then upd_core dev a (yaffs_load_current_time dev False False) else dev);
                 (r, _, dev) = yaffs_update_oh dev a None False False 0 None
             in (if r \<ge> 0 then YAFFS_OK else YAFFS_FAIL, dev))))"

end
