(* ===== verification/Yaffs_Steady.thy ===== *)
theory Yaffs_Steady
  imports Yaffs_Live
begin

text \<open>
  What the allocation layer leaves alone besides the configuration: the layers above the device,
  the sizes of the tree nodes, and the state of a collection. In the same walk over the operations:
  a device without soft-deleted pages, or without summaries, stays so, the block under collection
  stays the same or is given up, and the sequence number moves by at most one for every block that is opened. \<open>steady k s dev\<close> says this of the way
  from \<open>s\<close> to \<open>dev\<close> with at most \<open>k\<close> blocks opened.
\<close>

definition rest_of :: "('n, 'x) yaffs_dev_scheme \<Rightarrow> _" where
  "rest_of dev = (yaffs_dev.more dev, (tnode_width dev, tnode_mask dev, tnode_size dev, chunk_grp_bits dev, chunk_grp_size dev),
     (chunk_shift dev, chunk_div dev, chunk_mask dev), gc_chunk dev, n_clean_ups dev, gc_disable dev, param dev)"

definition no_soft :: "('n, 'x) yaffs_dev_scheme \<Rightarrow> bool" where
  "no_soft dev \<longleftrightarrow> (\<forall>bi \<in> set (block_info dev). soft_del_pages bi = 0)"

definition no_summary :: "('n, 'x) yaffs_dev_scheme \<Rightarrow> bool" where
  "no_summary dev \<longleftrightarrow> sum_tags dev = None \<and> (\<forall>bi \<in> set (block_info dev). \<not> has_summary bi)"

definition steady :: "nat \<Rightarrow> ('n, 'x) yaffs_dev_scheme \<Rightarrow> ('n, 'x) yaffs_dev_scheme \<Rightarrow> bool" where
  "steady k s dev \<longleftrightarrow> rest_of dev = rest_of s \<and>
     (\<exists>j \<le> k. dev_seq_number dev = dev_seq_number s + word_of_nat j) \<and>
     (no_soft s \<longrightarrow> no_soft dev) \<and> (no_summary s \<longrightarrow> no_summary dev) \<and>
     (gc_block dev = gc_block s \<or> gc_block dev = 0)"

lemma steady_refl [simp]: "steady k dev dev"
  by (auto simp: steady_def intro: exI [of _ 0])

lemma steady_mono: "steady j s dev \<Longrightarrow> j \<le> k \<Longrightarrow> steady k s dev"
  unfolding steady_def by (meson le_trans)

lemma steady_trans:
  assumes "steady j a b" "steady k b c" shows "steady (j + k) a c"
proof -
  obtain i i' where i: "i \<le> j" "dev_seq_number b = dev_seq_number a + word_of_nat i"
      "i' \<le> k" "dev_seq_number c = dev_seq_number b + word_of_nat i'"
    using assms by (auto simp: steady_def)
  then have "i + i' \<le> j + k" "dev_seq_number c = dev_seq_number a + word_of_nat (i + i')" by simp_all
  then have "\<exists>i \<le> j + k. dev_seq_number c = dev_seq_number a + word_of_nat i" by blast
  then show ?thesis using assms by (auto simp: steady_def)
qed

lemma steady_param: "steady k s dev \<Longrightarrow> param dev = param s"
  by (simp add: steady_def rest_of_def)

section \<open>Changes of one field\<close>

lemma steady_fields [simp]:
  "steady k s (dev\<lparr>nand := n\<rparr>) = steady k s dev" "steady k s (dev\<lparr>n_free_chunks := i\<rparr>) = steady k s dev"
  "steady k s (dev\<lparr>n_erased_blocks := i\<rparr>) = steady k s dev" "steady k s (dev\<lparr>ck := cc\<rparr>) = steady k s dev"
  "steady k s (dev\<lparr>is_checkpointed := p\<rparr>) = steady k s dev" "steady k s (dev\<lparr>alloc_block := i\<rparr>) = steady k s dev"
  "steady k s (dev\<lparr>alloc_page := i\<rparr>) = steady k s dev" "steady k s (dev\<lparr>alloc_block_finder := i\<rparr>) = steady k s dev"
  "steady k s (dev\<lparr>oldest_dirty_seq := w\<rparr>) = steady k s dev" "steady k s (dev\<lparr>oldest_dirty_block := i\<rparr>) = steady k s dev"
  "steady k s (dev\<lparr>gc_dirtiest := i\<rparr>) = steady k s dev"
  "steady k s (dev\<lparr>gc_pages_in_use := i\<rparr>) = steady k s dev" "steady k s (dev\<lparr>has_pending_prioritised_gc := p\<rparr>) = steady k s dev"
  "steady k s (dev\<lparr>chunk_bits := bs\<rparr>) = steady k s dev" "steady k s (dev\<lparr>stats := st\<rparr>) = steady k s dev"
  "steady k s (dev\<lparr>checkpoint_blocks_required := i\<rparr>) = steady k s dev"
  "steady k s (upd_stats dev h) = steady k s dev"
  by (simp_all add: steady_def rest_of_def no_soft_def no_summary_def upd_stats_def)

lemma steady_given_up [simp]: "steady k s dev \<Longrightarrow> steady k s (dev\<lparr>gc_block := 0\<rparr>)"
  by (simp add: steady_def rest_of_def no_soft_def no_summary_def)

lemma steady_bits [simp]:
  "steady k s (yaffs_set_chunk_bit dev b c) = steady k s dev" "steady k s (yaffs_clear_chunk_bit dev b c) = steady k s dev"
  "steady k s (yaffs_clear_chunk_bits dev b) = steady k s dev"
  by (simp_all add: yaffs_set_chunk_bit_def yaffs_clear_chunk_bit_def yaffs_clear_chunk_bits_def Let_def)

definition mild :: "(yaffs_block_info \<Rightarrow> yaffs_block_info) \<Rightarrow> bool" where
  "mild f \<longleftrightarrow> (\<forall>bi. (soft_del_pages bi = 0 \<longrightarrow> soft_del_pages (f bi) = 0) \<and> (has_summary (f bi) \<longrightarrow> has_summary bi))"

lemma set_upd_block:
  "bi \<in> set (block_info (upd_block_info dev b f)) \<Longrightarrow> bi \<in> set (block_info dev) \<or> (\<exists>bi' \<in> set (block_info dev). bi = f bi')"
proof -
  assume bi: "bi \<in> set (block_info (upd_block_info dev b f))"
  let ?i = "nat (b - internal_start_block dev)"
  show ?thesis
  proof (cases "?i < length (block_info dev)")
    case True
    have "bi = f (block_info dev ! ?i) \<or> bi \<in> set (block_info dev)"
      using bi subsetD [OF set_update_subset_insert [of "block_info dev" ?i]]
      by (auto simp: upd_block_info_def yaffs_get_block_info_def)
    then show ?thesis using nth_mem [OF True] by blast
  next
    case False
    then show ?thesis using bi by (simp add: upd_block_info_def list_update_beyond not_less)
  qed
qed

lemma steady_upd_block:
  assumes "steady k s dev" and "mild f \<or> (\<not> no_summary s \<and> (\<forall>bi. soft_del_pages bi = 0 \<longrightarrow> soft_del_pages (f bi) = 0))"
  shows "steady k s (upd_block_info dev b f)"
proof -
  have "no_soft dev \<Longrightarrow> no_soft (upd_block_info dev b f)"
    using assms(2) set_upd_block [of _ dev b f] by (fastforce simp: no_soft_def mild_def)
  moreover have "no_summary s \<Longrightarrow> no_summary dev \<Longrightarrow> no_summary (upd_block_info dev b f)"
    using assms(2) set_upd_block [of _ dev b f] by (fastforce simp: no_summary_def mild_def upd_block_info_def)
  moreover have "rest_of (upd_block_info dev b f) = rest_of dev" "dev_seq_number (upd_block_info dev b f) = dev_seq_number dev"
    "gc_block (upd_block_info dev b f) = gc_block dev"
    by (simp_all add: rest_of_def upd_block_info_def)
  ultimately show ?thesis using assms(1) by (simp add: steady_def)
qed

lemma steady_upd_mild [intro, simp]: "steady k s dev \<Longrightarrow> mild f \<Longrightarrow> steady k s (upd_block_info dev b f)"
  by (rule steady_upd_block) simp_all

section \<open>Reading, erasing, retiring\<close>

lemma steady_chunk_error [intro]: "steady k s dev \<Longrightarrow> steady k s (yaffs_handle_chunk_error dev b)"
  by (simp add: yaffs_handle_chunk_error_def Let_def mild_def)

lemma steady_rd [intro]:
  "yaffs_rd_chunk_tags_nand dev c w = (r, data, t, d) \<Longrightarrow> steady k s dev \<Longrightarrow> steady k s d"
  by (auto simp: yaffs_rd_chunk_tags_nand_def Let_def split: prod.splits if_splits)

lemma steady_oldest [intro]:
  "steady k s dev \<Longrightarrow> steady k s (yaffs2_clear_oldest_dirty_seq dev x)"
  "steady k s dev \<Longrightarrow> steady k s (yaffs2_update_oldest_dirty_seq dev b y)"
  by (simp_all add: yaffs2_clear_oldest_dirty_seq_def yaffs2_update_oldest_dirty_seq_def)

lemma steady_erase [intro]:
  "steady k s dev \<Longrightarrow> steady k s (snd (yaffs_erase_block dev b))" "steady k s dev \<Longrightarrow> steady k s (snd (yaffs_mark_bad dev b))"
  by (auto simp: yaffs_erase_block_def yaffs_mark_bad_def Let_def split: prod.splits)

lemma steady_erase_step [intro]: "steady k s dev \<Longrightarrow> steady k s (checkpt_erase_step i dev)"
  by (simp add: checkpt_erase_step_def Let_def mild_def case_prod_beta)

lemma steady_fold [intro]: "\<lbrakk>steady k s dev; \<And>x d. steady k s d \<Longrightarrow> steady k s (g x d)\<rbrakk> \<Longrightarrow> steady k s (fold g xs dev)"
  by (induction xs arbitrary: dev) auto

lemma steady_invalidate [intro]: "steady k s dev \<Longrightarrow> steady k s (yaffs2_checkpt_invalidate dev)"
  by (auto simp: yaffs2_checkpt_invalidate_def yaffs2_checkpt_invalidate_stream_def yaffs_checkpt_erase_def Let_def)

lemma steady_retire [intro]:
  assumes "steady k s dev" shows "steady k s (yaffs_retire_block dev b)"
proof -
  let ?d = "yaffs2_checkpt_invalidate dev"
  have "steady k s (snd (yaffs_mark_bad (yaffs2_clear_oldest_dirty_seq ?d (Some (yaffs_get_block_info ?d b))) b))"
    using assms by blast
  moreover obtain r d where d: "yaffs_mark_bad (yaffs2_clear_oldest_dirty_seq ?d (Some (yaffs_get_block_info ?d b))) b = (r, d)" by fastforce
  moreover obtain r' d' where d': "yaffs_erase_block d b = (r', d')" by fastforce
  ultimately have "steady k s d" "steady k s d'" using steady_erase(1) [of k s d b] by simp_all
  then show ?thesis by (simp add: yaffs_retire_block_def Let_def d d' mild_def case_prod_beta)
qed

lemma steady_check_erased [intro]:
  "yaffs_check_chunk_erased dev c = (r, d) \<Longrightarrow> steady k s dev \<Longrightarrow> steady k s d"
  by (auto simp: yaffs_check_chunk_erased_def Let_def split: prod.splits)

lemma steady_verified [intro]:
  "yaffs_verify_chunk_written dev c data t = (r, d) \<Longrightarrow> steady k s dev \<Longrightarrow> steady k s d"
  by (auto simp: yaffs_verify_chunk_written_def Let_def split: prod.splits)

lemma steady_check_erased_snd [intro]: "steady k s dev \<Longrightarrow> steady k s (snd (yaffs_check_chunk_erased dev c))"
  using steady_check_erased [of dev c "fst (yaffs_check_chunk_erased dev c)"] by (metis prod.collapse)

lemma steady_verify_erasure [intro]: "steady k s dev \<Longrightarrow> steady k s (verify_erasure dev b)"
  by (auto simp: verify_erasure_def)

lemma steady_became_dirty [intro]:
  assumes "steady k s dev" shows "steady k s (yaffs_block_became_dirty dev b)"
proof -
  have 1: "steady k s (dirty_block dev b)" using assms by (simp add: dirty_block_def Let_def mild_def steady_oldest)
  obtain ok d where e: "dirty_erase (dirty_block dev b) b = (ok, d)" by fastforce
  have "steady k s (snd (yaffs_erase_block (yaffs2_checkpt_invalidate (dirty_block dev b)) b))" using 1 by blast
  then have 2: "steady k s d" using e 1 by (auto simp: dirty_erase_def Let_def split: prod.splits if_splits)
  show ?thesis
    unfolding became_dirty_phases e
    using steady_retire [of k s "d\<lparr>n_free_chunks := n_free_chunks d - cpb d\<rparr>" b] steady_verify_erasure [of k s d b] 2
    by (simp add: cleaned_block_def Let_def mild_def)
qed

lemma param_oldest: "param (yaffs2_update_oldest_dirty_seq dev b y) = param dev" "param (upd_stats dev h) = param dev"
  by (simp_all add: yaffs2_update_oldest_dirty_seq_def upd_stats_def)

lemma steady_chunk_del [intro]:
  assumes "steady k s dev" "is_yaffs2 (param s)"
  shows "steady k s (yaffs_chunk_del dev c m)"
  using assms(1) steady_param [OF assms(1)] assms(2)
  by (simp add: yaffs_chunk_del_def Let_def mild_def steady_oldest steady_became_dirty param_oldest)

section \<open>Writing\<close>

lemma steady_skip_rest [intro]: "steady k s dev \<Longrightarrow> steady k s (yaffs_skip_rest_of_block dev)"
  by (simp add: yaffs_skip_rest_of_block_def mild_def)

lemma steady_summary_clear: "steady k s dev \<Longrightarrow> \<not> no_summary s \<Longrightarrow> steady k s (yaffs_summary_clear dev)"
  by (simp add: yaffs_summary_clear_def steady_def rest_of_def no_soft_def split: option.split)

lemma steady_write_loop:
  assumes wr: "\<And>d c b t. steady k s d \<Longrightarrow> steady k s (snd (snd (wr d c b t)))"
  shows "steady k s dev \<Longrightarrow> steady k s (snd (summary_write_loop wr blk hdr per sb todo buffer tags c cb dev))"
proof (induction todo arbitrary: sb buffer tags c cb dev rule: less_induct)
  case (less todo)
  obtain r t d where w: "wr dev c (Some (hdr @ take (min todo per) sb @ drop (16 + min todo per) buffer))
      (tags\<lparr>n_bytes := word_of_nat (min todo per + 16)\<rparr>) = (r, t, d)"
    by (metis prod_cases3)
  have "steady k s d" using wr [OF less.prems] w by (metis snd_conv)
  then show ?case
    unfolding summary_write_loop.simps [of wr blk hdr per sb todo] Let_def w prod.case
    by (simp add: mild_def less.IH)
qed

lemma steady_summary_add:
  assumes wr: "\<And>d c b t. steady k s d \<Longrightarrow> steady k s (snd (snd (wr d c b t)))" and s: "steady k s dev"
  shows "steady k s (yaffs_summary_add wr dev t c)"
proof (cases "sum_tags dev")
  case (Some ts)
  have n: "\<not> no_summary s" using s Some by (auto simp: steady_def no_summary_def)
  have u: "steady k s (dev\<lparr>sum_tags := Some x\<rparr>)" for x
    using s n by (simp add: steady_def rest_of_def no_soft_def)
  have w: "steady k s (snd (yaffs_summary_write wr d b))" if "steady k s d" for d b
    using steady_write_loop [of k s wr, OF wr that] n
    by (simp add: yaffs_summary_write_def Let_def case_prod_beta steady_upd_block)
  show ?thesis
    using steady_skip_rest [OF steady_summary_clear [OF w [OF u] n]] u s by (simp add: yaffs_summary_add_def Some Let_def)
qed (simp add: yaffs_summary_add_def s)

lemma steady_wr_upto: "steady k s dev \<Longrightarrow> steady k s (snd (snd (wr_chunk_tags_nand_upto depth dev c b t)))"
proof (induction depth arbitrary: dev c b t)
  case 0
  then show ?case by (subst wr_chunk_tags_nand_upto.simps) (simp add: Let_def case_prod_beta)
next
  case (Suc depth)
  have "steady k s (yaffs_summary_add (wr_chunk_tags_nand_upto depth) d u c)" if "steady k s d" for d u
    by (rule steady_summary_add [OF Suc.IH that])
  then show ?case using Suc.prems by (subst wr_chunk_tags_nand_upto.simps) (simp add: Let_def case_prod_beta)
qed

lemma steady_wr [intro]: "yaffs_wr_chunk_tags_nand dev c b t = (r, t', d) \<Longrightarrow> steady k s dev \<Longrightarrow> steady k s d"
  using steady_wr_upto [of k s dev 2 c b t] by (simp add: yaffs_wr_chunk_tags_nand_def)

text \<open>The tags carry the sequence number of the moment.\<close>

lemma wr_tags_seq:
  assumes "yaffs_wr_chunk_tags_nand dev c b t = (r, t', d)"
  shows "t' = t\<lparr>seq_number := dev_seq_number dev, chunk_used := 1\<rparr>"
  using assms unfolding yaffs_wr_chunk_tags_nand_def
  by (subst (asm) wr_chunk_tags_nand_upto.simps) (auto simp: Let_def upd_stats_def split: prod.splits)

section \<open>Allocating\<close>

lemma steady_find_loop:
  "find_alloc_loop n dev = (f, d) \<Longrightarrow> steady 1 dev d"
proof (induction n arbitrary: dev)
  case (Suc n)
  let ?f = "let f = alloc_block_finder dev + 1 in if f < internal_start_block dev \<or> f > internal_end_block dev then internal_start_block dev else f"
  let ?d = "dev\<lparr>alloc_block_finder := ?f\<rparr>"
  show ?case
  proof (cases "block_state (yaffs_get_block_info ?d ?f) = YAFFS_BLOCK_STATE_EMPTY")
    case True
    let ?d1 = "upd_block_info ?d ?f (\<lambda>bi. bi\<lparr>block_state := YAFFS_BLOCK_STATE_ALLOCATING\<rparr>)"
    let ?d2 = "?d1\<lparr>dev_seq_number := dev_seq_number ?d1 + 1\<rparr>"
    have "steady 0 dev ?d1" by (simp add: mild_def)
    then have "rest_of ?d2 = rest_of dev" "dev_seq_number ?d2 = dev_seq_number dev + word_of_nat 1"
      "no_soft dev \<longrightarrow> no_soft ?d2" "no_summary dev \<longrightarrow> no_summary ?d2" "gc_block ?d2 = gc_block dev"
      by (simp_all add: steady_def rest_of_def no_soft_def no_summary_def upd_block_info_def)
    then have "steady 1 dev ?d2" unfolding steady_def by blast
    then show ?thesis using Suc.prems True by (auto simp: Let_def mild_def)
  next
    case False
    then have "find_alloc_loop n ?d = (f, d)" using Suc.prems by (simp add: Let_def)
    from Suc.IH [OF this] have "steady 1 ?d d" .
    then show ?thesis using steady_trans [of 0 dev ?d 1 d] by simp
  qed
qed auto

lemma steady_calc: "steady k s (snd (yaffs_calc_checkpt_blocks_required e)) = steady k s e"
  by (simp add: yaffs_calc_checkpt_blocks_required_def Let_def)

lemma steady_available: "steady k s e \<Longrightarrow> steady k s (snd (yaffs_check_alloc_available e x))"
  using steady_calc [of k s e] by (simp add: yaffs_check_alloc_available_def case_prod_beta Let_def)

text \<open>The last step of \<^const>\<open>yaffs_alloc_chunk\<close>, which takes the next page of the open block.\<close>

definition yaffs_alloc_chunk_at :: "('n, 'x) yaffs_dev_scheme \<Rightarrow> int \<times> ('n, 'x) yaffs_dev_scheme" where
  "yaffs_alloc_chunk_at dev =
     (let b = alloc_block dev;
          ret_val = b * cpb dev + alloc_page dev;
          dev = upd_block_info dev b (\<lambda>bi. bi\<lparr>pages_in_use := s10 (pages_in_use bi + 1)\<rparr>);
          dev = yaffs_set_chunk_bit dev b (alloc_page dev);
          dev = dev\<lparr>alloc_page := alloc_page dev + 1\<rparr>;
          dev = dev\<lparr>n_free_chunks := n_free_chunks dev - 1\<rparr>;
          dev = (if alloc_page dev \<ge> cpb dev
                 then (upd_block_info dev b (\<lambda>bi. bi\<lparr>block_state := YAFFS_BLOCK_STATE_FULL\<rparr>))\<lparr>alloc_block := -1\<rparr>
                 else dev)
      in (ret_val, dev))"

lemma steady_alloc_chunk:
  assumes "yaffs_alloc_chunk dev ur = (c, d)" shows "steady 1 dev d"
proof -
  obtain f d1 where f: "yaffs_find_alloc_block dev = (f, d1)" by fastforce
  then have 1: "steady 1 dev d1" using steady_find_loop by (auto simp: yaffs_find_alloc_block_def split: if_splits)
  note 2 = steady_available [of 1 dev _ 1]
  let ?d = "if alloc_block dev < 0 then d1\<lparr>alloc_block := f, alloc_page := 0\<rparr> else dev"
  have 3: "steady 1 dev ?d" using 1 by simp
  have "steady 1 dev (snd (if ur then (True, ?d) else yaffs_check_alloc_available ?d 1))" using 2 [OF 3] 3 by simp
  moreover obtain ok d2 where e: "(if ur then (True, ?d) else yaffs_check_alloc_available ?d 1) = (ok, d2)"
    using prod.exhaust by blast
  ultimately have 4: "(if ur then (True, ?d) else yaffs_check_alloc_available ?d 1) = (ok, d2)" "steady 1 dev d2"
    by (simp_all only: snd_conv)
  have "(if alloc_block dev < 0 then (let (b, d) = yaffs_find_alloc_block dev in d\<lparr>alloc_block := b, alloc_page := 0\<rparr>) else dev) = ?d"
    by (simp add: f)
  then have "(c, d) = (if \<not> ok then (-1, d2) else if alloc_block d2 \<ge> 0 then yaffs_alloc_chunk_at d2 else (-1, d2))"
    unfolding assms [symmetric] yaffs_alloc_chunk_def Let_def [of "if alloc_block dev < 0 then _ else _"] 
    by (simp only: 4(1) prod.case yaffs_alloc_chunk_at_def Let_def)
  moreover have "steady 1 dev (snd (yaffs_alloc_chunk_at d2))" using 4(2) by (simp add: yaffs_alloc_chunk_at_def Let_def mild_def)
  ultimately show ?thesis using 4(2) by (metis snd_conv)
qed

text \<open>In an attempt at most one block is opened, and the tags carry a sequence number of the way.\<close>

lemma steady_attempt:
  assumes att: "write_new_chunk_attempt dev data tags ur write_ok = (c, outcome, t', d)" and y2: "is_yaffs2 (param dev)"
  shows "steady 1 dev d \<and> (t' = tags \<or> (\<exists>j \<le> 1. t' = tags\<lparr>seq_number := dev_seq_number dev + word_of_nat j, chunk_used := 1\<rparr>))"
proof -
  obtain d1 where al: "yaffs_alloc_chunk dev ur = (c, d1)" using att
    by (auto simp: write_new_chunk_attempt_def Let_def split: prod.splits if_splits)
  note s1 = steady_alloc_chunk [OF al]
  show ?thesis
  proof (cases "c < 0")
    case True
    then show ?thesis using att al s1 by (auto simp: write_new_chunk_attempt_def Let_def)
  next
    case no: False
    define b where "b = c div cpb d1"
    let ?d2 = "if always_check_erased (param d1)
      then upd_block_info d1 b (\<lambda>bi. bi\<lparr>skip_erased_check := False\<rparr>) else d1"
    let ?check = "\<not> skip_erased_check (yaffs_get_block_info ?d2 b)"
    have s2: "steady 1 dev ?d2" using s1 by (simp add: mild_def)
    obtain eo d3 where e3: "(if ?check then yaffs_check_chunk_erased ?d2 c else (0, ?d2)) = (eo, d3)" by fastforce
    have s3: "steady 1 dev d3" using e3 s2 steady_check_erased [of ?d2 c eo d3 1 dev] by (auto split: if_splits)
    have del: "steady 1 dev (yaffs_skip_rest_of_block (yaffs_chunk_del e c True))" if "steady 1 dev e" for e
      by (rule steady_skip_rest [OF steady_chunk_del [OF that y2]])
    show ?thesis
    proof (cases "?check \<and> eo \<noteq> YAFFS_OK")
      case True
      have "(c, outcome, t', d) = (c, Some write_ok, tags, yaffs_skip_rest_of_block (yaffs_chunk_del d3 c True))"
        unfolding att [symmetric] by (rule attempt_not_erased [OF al no, folded b_def, OF refl refl e3 True])
      then show ?thesis using del [OF s3] by simp
    next
      case no_del: False
      obtain wo tg d4 where w4: "yaffs_wr_chunk_tags_nand d3 c (Some data) tags = (wo, tg, d4)" by (metis prod_cases3)
      have s4: "steady 1 dev d4" by (rule steady_wr [OF w4 s3])
      obtain vo d5 where v5: "(if \<not> skip_erased_check (yaffs_get_block_info d4 b)
          then yaffs_verify_chunk_written d4 c data tg else (wo, d4)) = (vo, d5)" by fastforce
      have s5: "steady 1 dev d5" using v5 s4 steady_verified [of d4 c data tg vo d5 1 dev] by (auto split: if_splits)
      have "(c, outcome, t', d) = (if vo \<noteq> YAFFS_OK
          then (c, Some vo, tg, yaffs_handle_chunk_wr_error d5 c (eo \<noteq> 0))
          else (c, Some vo, tg, upd_block_info d5 b (\<lambda>bi. bi\<lparr>skip_erased_check := True\<rparr>)))"
        unfolding att [symmetric] by (rule attempt_written [OF al no, folded b_def, OF refl refl e3 no_del w4 v5])
      moreover have "steady 1 dev (yaffs_handle_chunk_wr_error d5 c e)" for e
        unfolding yaffs_handle_chunk_wr_error_def Let_def
        by (rule del) (use s5 in \<open>simp add: steady_chunk_error mild_def\<close>)
      moreover have "\<exists>j \<le> 1. dev_seq_number d3 = dev_seq_number dev + word_of_nat j" using s3 by (simp add: steady_def)
      ultimately show ?thesis using s5 wr_tags_seq [OF w4] by (auto simp: mild_def split: if_splits)
    qed
  qed
qed

lemma steady_loop:
  assumes "write_new_chunk_loop fuel wa data ur attempts ok tags dev = Some (c, ok', n, t', d)" "is_yaffs2 (param dev)"
  shows "steady fuel dev d \<and> (t' = tags \<or>
    (\<exists>j \<le> fuel. t' = tags\<lparr>seq_number := dev_seq_number dev + word_of_nat j, chunk_used := 1\<rparr>))"
  using assms
proof (induction fuel arbitrary: attempts ok tags dev)
  case (Suc fuel)
  obtain ch outcome tg d1 where att: "write_new_chunk_attempt dev data tags ur ok = (ch, outcome, tg, d1)" by (metis prod_cases4)
  note sa = steady_attempt [OF att Suc.prems(2)]
  show ?case
  proof (cases "\<exists>o'. outcome = Some o' \<and> o' \<noteq> YAFFS_OK \<and> (wa = 0 \<or> attempts + 1 \<le> wa)")
    case True
    then obtain o' where "write_new_chunk_loop fuel wa data ur (attempts + 1) o' tg d1 = Some (c, ok', n, t', d)"
      using Suc.prems(1) att by auto
    from Suc.IH [OF this] sa Suc.prems(2) steady_param [of 1 dev d1]
    have ih: "steady fuel d1 d" "t' = tg \<or> (\<exists>j \<le> fuel. t' = tg\<lparr>seq_number := dev_seq_number d1 + word_of_nat j, chunk_used := 1\<rparr>)"
      by auto
    obtain i where i: "i \<le> 1" "dev_seq_number d1 = dev_seq_number dev + word_of_nat i" using sa by (auto simp: steady_def)
    have st: "steady (Suc fuel) dev d" using steady_trans [of 1 dev d1 fuel d] sa ih(1) by simp
    have tg: "tg\<lparr>seq_number := x, chunk_used := 1\<rparr> = tags\<lparr>seq_number := x, chunk_used := 1\<rparr>" for x using sa by auto
    have "\<exists>j \<le> Suc fuel. t' = tags\<lparr>seq_number := dev_seq_number dev + word_of_nat j, chunk_used := 1\<rparr>"
      if "j \<le> fuel" "t' = tg\<lparr>seq_number := dev_seq_number d1 + word_of_nat j, chunk_used := 1\<rparr>" for j
      using that i by (intro exI [of _ "i + j"]) (simp add: tg)
    moreover have "t' = tags \<or> (\<exists>j \<le> Suc fuel. t' = tags\<lparr>seq_number := dev_seq_number dev + word_of_nat j, chunk_used := 1\<rparr>)"
      if "t' = tg"
    proof (cases "tg = tags")
      case False
      then obtain j where "j \<le> 1" "tg = tags\<lparr>seq_number := dev_seq_number dev + word_of_nat j, chunk_used := 1\<rparr>" using sa by blast
      then show ?thesis using that by (intro disjI2 exI [of _ j]) simp
    qed (simp add: that)
    ultimately show ?thesis using st ih(2) by blast
  next
    case False
    then have "t' = tg \<and> d = d1" using Suc.prems(1) att by (auto split: option.splits if_splits)
    then have e: "t' = tg" "d = d1" by simp_all
    have "steady (Suc fuel) dev d" using sa steady_mono [of 1 dev d1 "Suc fuel"] e by simp
    moreover have "t' = tags \<or> (\<exists>j \<le> Suc fuel. t' = tags\<lparr>seq_number := dev_seq_number dev + word_of_nat j, chunk_used := 1\<rparr>)"
    proof (cases "tg = tags")
      case False
      then obtain j where "j \<le> 1" "tg = tags\<lparr>seq_number := dev_seq_number dev + word_of_nat j, chunk_used := 1\<rparr>" using sa by blast
      then show ?thesis using e by (intro disjI2 exI [of _ j]) simp
    qed (simp add: e)
    ultimately show ?thesis by blast
  qed
qed simp

lemma steady_write_new:
  assumes "yaffs_write_new_chunk fuel wa dev data tags ur = Some (c, t', d)" "is_yaffs2 (param dev)"
  shows "steady fuel dev d" "t' = tags \<or>
    (\<exists>j \<le> fuel. t' = tags\<lparr>seq_number := dev_seq_number dev + word_of_nat j, chunk_used := 1\<rparr>)"
proof -
  let ?d0 = "yaffs2_checkpt_invalidate dev"
  have s0: "steady 0 dev ?d0" by (rule steady_invalidate) simp
  then have seq: "dev_seq_number ?d0 = dev_seq_number dev" by (simp add: steady_def)
  obtain ch ok n tg d1 where loop: "write_new_chunk_loop fuel wa data ur 0 0 tags ?d0 = Some (ch, ok, n, tg, d1)"
    using assms(1) by (cases "write_new_chunk_loop fuel wa data ur 0 0 tags ?d0") (auto simp: yaffs_write_new_chunk_def Let_def)
  then have t: "t' = tg" "d = d1 \<or> (\<exists>h. d = upd_stats d1 h)"
    using assms(1) by (auto simp: yaffs_write_new_chunk_def Let_def split: if_splits)
  note sl = steady_loop [OF loop] steady_param [OF s0]
  then show "steady fuel dev d" using steady_trans [OF s0, of fuel d] assms(2) t(2) by auto
  show "t' = tags \<or> (\<exists>j \<le> fuel. t' = tags\<lparr>seq_number := dev_seq_number dev + word_of_nat j, chunk_used := 1\<rparr>)"
    using sl assms(2) t(1) seq by auto
qed

end
