(* ===== verification/Yaffs_Used.thy ===== *)
theory Yaffs_Used
  imports Yaffs_Steady
begin

text \<open>
  Which chunks are in use after an operation of the allocation layer. \<open>used\<close> is the bitmap as a set of
  chunks of the device. Deleting takes one chunk out of it and a new chunk is put into it; a failed
  attempt takes out again what it put in, and erasing, retiring or dropping a checkpoint
  changes nothing, since the blocks concerned have no chunk in use.

  The summaries at the ends of the blocks are written behind the back of the bitmap, so the facts
  about writing are for devices that are set up without them.
\<close>

definition used :: "('n, 'x) yaffs_dev_scheme \<Rightarrow> (int \<times> int) set" where
  "used dev = {(b, c). c \<in> chunks_in_use dev b}"

lemma in_used [simp]: "(b, c) \<in> used dev \<longleftrightarrow> c \<in> chunks_in_use dev b"
  by (simp add: used_def)

lemma used_cong: "chunk_bits d = chunk_bits dev \<Longrightarrow> dev_config d = dev_config dev \<Longrightarrow> used d = used dev"
  using in_use_cong [of d dev] by (simp add: used_def)

lemma used_unseen: "unseen dev d \<Longrightarrow> used d = used dev"
  by (rule used_cong [OF bits_of_unseen]) (simp_all add: unseen_def)

lemma used_frame [simp]:
  "used (dev\<lparr>n_free_chunks := i\<rparr>) = used dev" "used (dev\<lparr>nand := n\<rparr>) = used dev" "used (dev\<lparr>ck := k\<rparr>) = used dev"
  "used (dev\<lparr>is_checkpointed := p\<rparr>) = used dev" "used (dev\<lparr>n_erased_blocks := i\<rparr>) = used dev"
  "used (upd_stats dev h) = used dev" "used (upd_block_info dev b f) = used dev"
  by (rule used_cong; simp)+

section \<open>Operations that leave the bitmap alone\<close>

lemma bits_checkpt_step [simp]: "chunk_bits (checkpt_erase_step i dev) = chunk_bits dev"
  by (simp add: checkpt_erase_step_def Let_def case_prod_beta)

lemma bits_fold: "(\<And>x d. chunk_bits (g x d) = chunk_bits d) \<Longrightarrow> chunk_bits (fold g xs dev) = chunk_bits dev"
  by (induction xs arbitrary: dev) simp_all

lemma bits_invalidate [simp]: "chunk_bits (yaffs2_checkpt_invalidate dev) = chunk_bits dev"
  by (simp add: yaffs2_checkpt_invalidate_def yaffs2_checkpt_invalidate_stream_def yaffs_checkpt_erase_def Let_def bits_fold)

lemma bits_block_ops [simp]:
  "chunk_bits (snd (yaffs_erase_block dev b)) = chunk_bits dev" "chunk_bits (snd (yaffs_mark_bad dev b)) = chunk_bits dev"
  "chunk_bits (yaffs2_clear_oldest_dirty_seq dev x) = chunk_bits dev"
  "chunk_bits (yaffs_handle_chunk_error dev b) = chunk_bits dev" "chunk_bits (yaffs_skip_rest_of_block dev) = chunk_bits dev"
  using bits_of_unseen [OF unseen_ops(1)] bits_of_unseen [OF unseen_ops(2)] bits_of_unseen [OF unseen_ops(3)]
  by (simp_all add: yaffs_handle_chunk_error_def yaffs_skip_rest_of_block_def Let_def)

lemma bits_retire [simp]: "chunk_bits (yaffs_retire_block dev b) = chunk_bits dev"
proof -
  let ?d = "yaffs2_clear_oldest_dirty_seq (yaffs2_checkpt_invalidate dev)
    (Some (yaffs_get_block_info (yaffs2_checkpt_invalidate dev) b))"
  obtain r d where d: "yaffs_mark_bad ?d b = (r, d)" by fastforce
  obtain r' d' where d': "yaffs_erase_block d b = (r', d')" by fastforce
  have "chunk_bits d = chunk_bits dev" using bits_block_ops(2) [of ?d b] by (simp add: d)
  moreover have "chunk_bits d' = chunk_bits d" using bits_block_ops(1) [of d b] by (simp add: d')
  ultimately show ?thesis by (simp add: yaffs_retire_block_def Let_def d d' case_prod_beta)
qed

section \<open>Deleting a chunk\<close>

lemma used_became_dirty:
  assumes inv: "inv_except {} 0 dev" and b: "b \<in> blocks_of dev"
    and st: "block_state (yaffs_get_block_info dev b) \<in> {YAFFS_BLOCK_STATE_FULL, YAFFS_BLOCK_STATE_COLLECTING}"
    and zero: "pages_in_use (yaffs_get_block_info dev b) = 0"
  shows "used (yaffs_block_became_dirty dev b) = used dev"
proof -
  obtain r d where e: "dirty_erase (dirty_block dev b) b = (r, d)" by fastforce
  note di = inv_dirty_block [OF inv b st zero]
  from inv_dirty_erase [OF conjunct1 [OF di] e] have i: "inv_except {b} (cpb dev) d"
    and c: "dev_config d = dev_config dev" using di by simp_all
  have "chunk_bits (dirty_block dev b) = chunk_bits dev" by (simp add: dirty_block_def Let_def)
  then have "chunk_bits d = chunk_bits dev"
    using e by (auto simp: dirty_erase_def Let_def case_prod_beta split: if_splits)
  then have ud: "used d = used dev" using c by (rule used_cong)
  have i3: "inv_except {b} (cpb dev) (verify_erasure d b)" by (rule unseen_inv [OF unseen_verify_erasure i])
  have u3: "used (verify_erasure d b) = used dev" using used_unseen [OF unseen_verify_erasure, of d b] ud by simp
  let ?d = "upd_block_info ((upd_block_info (verify_erasure d b) b (\<lambda>bi. bi\<lparr>block_state := YAFFS_BLOCK_STATE_EMPTY, bi_seq_number := 0\<rparr>))
    \<lparr>n_erased_blocks := n_erased_blocks (verify_erasure d b) + 1\<rparr>) b (\<lambda>bi. bi\<lparr>pages_in_use := 0, soft_del_pages := 0,
      has_shrink_hdr := False, skip_erased_check := True, gc_prioritise := False, has_summary := False\<rparr>)"
  have cd: "dev_config ?d = dev_config (verify_erasure d b)" by simp
  have "b \<in> blocks_of (verify_erasure d b)" "bitmap_ok (verify_erasure d b)" using i3 by (auto simp: inv_except_def)
  then have bm: "bitmap_ok ?d" and bd: "b \<in> blocks_of ?d" using blocks_of_config [OF cd] by simp_all
  have g: "geometry_ok ?d" using bm by (simp only: bitmap_ok_def)
  have none: "chunks_in_use ?d b = {}" using dirty_unused [OF i3] in_use_cong [OF _ cd] by simp
  have "chunks_in_use (yaffs_clear_chunk_bits ?d b) x = chunks_in_use ?d x" for x
  proof (cases "valid_block ?d x")
    case True
    show ?thesis using bitmap_refines_set_lemma(3) [OF bm valid_chunk_zero [OF g bd] True] none by (cases "b = x") simp_all
  next
    case False
    moreover have "valid_block (yaffs_clear_chunk_bits ?d b) x = valid_block ?d x"
      using valid_block_config [of "yaffs_clear_chunk_bits ?d b" ?d] by simp
    ultimately show ?thesis using in_use_bounds(4) by blast
  qed
  then have "used (cleaned_block (verify_erasure d b) b) = used ?d" by (simp add: cleaned_block_def Let_def used_def)
  then have "used (cleaned_block (verify_erasure d b) b) = used dev" using u3 by simp
  moreover have "used (yaffs_retire_block (d\<lparr>n_free_chunks := n\<rparr>) b) = used dev" for n
    using used_cong [of "yaffs_retire_block (d\<lparr>n_free_chunks := n\<rparr>) b" "d\<lparr>n_free_chunks := n\<rparr>"] ud by simp
  ultimately show ?thesis using e by (simp add: became_dirty_phases)
qed

lemma used_release:
  assumes bm: "bitmap_ok dev" and c: "c \<in> chunks_in_use dev b"
  shows "used (release_chunk dev b c) = used dev - {(b, c)}"
proof -
  let ?d = "dev\<lparr>n_free_chunks := n_free_chunks dev + 1\<rparr>"
  have vc: "valid_chunk ?d b c" using in_use_bounds(3) [OF c] valid_chunk_config [of ?d dev] by simp
  have bmd: "bitmap_ok ?d" using bm by simp
  have "chunks_in_use (yaffs_clear_chunk_bit ?d b c) x = (if b = x then chunks_in_use dev b - {c} else chunks_in_use dev x)" for x
  proof (cases "valid_block dev x")
    case True
    then show ?thesis using bitmap_refines_set_lemma(2) [OF bmd vc, of x] valid_block_config [of ?d dev] by simp
  next
    case False
    moreover have "valid_block (yaffs_clear_chunk_bit ?d b c) x = valid_block dev x"
      using valid_block_config [of "yaffs_clear_chunk_bit ?d b c" dev] by simp
    ultimately show ?thesis using in_use_bounds(4) [of _ dev x] in_use_bounds(4) [of _ "yaffs_clear_chunk_bit ?d b c" x]
        in_use_bounds(4) [OF c] by auto
  qed
  then show ?thesis by (auto simp: release_chunk_def used_def split: if_splits)
qed

lemma used_chunk_del:
  assumes inv: "inv_except {} 0 dev" and pos: "0 < chunk"
    and c: "chunk mod cpb dev \<in> chunks_in_use dev (chunk div cpb dev)"
    and soft: "soft_del_pages (yaffs_get_block_info dev (chunk div cpb dev))
      < pages_in_use (yaffs_get_block_info dev (chunk div cpb dev))"
  shows "used (yaffs_chunk_del dev chunk m) = used dev - {(chunk div cpb dev, chunk mod cpb dev)}"
proof (rule chunk_del_cases [OF inv pos c soft, of m])
  let ?b = "chunk div cpb dev" and ?c = "chunk mod cpb dev"
  fix d d'
  assume u: "unseen dev d" and d': "d' = release_chunk d ?b ?c"
    and i: "inv_except {} 0 d'" "?b \<in> blocks_of d'"
    and del: "yaffs_chunk_del dev chunk m = d' \<or>
      yaffs_chunk_del dev chunk m = yaffs_block_became_dirty d' ?b \<and>
        block_state (yaffs_get_block_info d' ?b) \<in> {YAFFS_BLOCK_STATE_FULL, YAFFS_BLOCK_STATE_COLLECTING} \<and>
        pages_in_use (yaffs_get_block_info d' ?b) = 0"
  have bm: "bitmap_ok d" using unseen_inv [OF u(1) inv] by (simp add: inv_except_def)
  have c': "?c \<in> chunks_in_use d ?b" using c unseenD(1) [OF u(1) inv_geometry [OF inv]] by simp
  have "used d' = used dev - {(?b, ?c)}" using used_release [OF bm c'] used_unseen [OF u] d' by simp
  then show ?thesis using del used_became_dirty [OF i] by metis
qed

section \<open>Writing a chunk\<close>

lemma used_alloc_chunk:
  assumes inv: "inv_except {} 0 dev" and al: "yaffs_alloc_chunk dev ur = (r, d)"
  shows "r < 0 \<and> used d = used dev \<or>
    (\<exists>b c. 0 \<le> r \<and> r = b * cpb dev + c \<and> 0 < b \<and> 0 \<le> c \<and> c < cpb dev \<and> (b, c) \<notin> used dev \<and> used d = insert (b, c) (used dev))"
proof -
  let ?d1 = "alloc_prepare dev"
  note one = alloc_prepare_effect [OF inv]
  obtain av d2 where av: "(if ur then (True, ?d1) else yaffs_check_alloc_available ?d1 1) = (av, d2)"
    by (metis surj_pair)
  have u: "unseen ?d1 d2" using av unseen_ops(7) [of ?d1 1] by (cases ur) auto
  have i2: "inv_except {} 0 d2" by (rule unseen_inv [OF u]) (use one in simp)
  have c2: "dev_config d2 = dev_config dev" using u one by (simp add: unseen_def)
  have use2: "used d2 = used dev" using used_unseen [OF u] one by (simp add: used_def)
  have al2: "alloc_block d2 \<ge> 0 \<longleftrightarrow> alloc_block d2 \<noteq> -1"
    using i2 inv_geometry [OF i2] by (auto simp: inv_except_def alloc_ok_def valid_block_def geometry_ok_def)
  have res: "(r, d) = (if \<not> av then (-1, d2) else if alloc_block d2 \<ge> 0
      then (alloc_block d2 * cpb d2 + alloc_page d2, take_chunk d2) else (-1, d2))"
    using al av unfolding yaffs_alloc_chunk_def take_chunk_def alloc_prepare_def Let_def
    by (auto split: prod.splits if_splits)
  show ?thesis
  proof (cases "av \<and> alloc_block d2 \<noteq> -1")
    case True
    note t = take_chunk_effect [OF i2 conjunct2 [OF True]]
    let ?b = "alloc_block d2" and ?c = "alloc_page d2"
    have "chunks_in_use (take_chunk d2) x = (if x = ?b then insert ?c (chunks_in_use d2 ?b) else chunks_in_use d2 x)" for x
      using t(6) t(7) [of x] in_use_bounds(4) [of _ d2 x] in_use_bounds(4) [of _ "take_chunk d2" x]
        valid_block_config [OF t(2)] by (auto simp: valid_blocks_of)
    then have "used (take_chunk d2) = insert (?b, ?c) (used d2)" by (auto simp: used_def split: if_splits)
    moreover have "r = ?b * cpb dev + ?c" "d = take_chunk d2" "0 < ?b" "0 \<le> ?c" "?c < cpb dev" "(?b, ?c) \<notin> used d2"
      using True res al2 t(4,5) dev_configD(1) [OF c2] inv_block(6) [OF i2 t(3)] by (auto simp: valid_chunk_def)
    moreover have "0 \<le> r" using \<open>r = ?b * cpb dev + ?c\<close> \<open>0 < ?b\<close> \<open>0 \<le> ?c\<close> \<open>?c < cpb dev\<close> by (simp add: add_nonneg_nonneg)
    ultimately show ?thesis using use2 by blast
  next
    case False
    then have "(r, d) = (-1, d2)" using res al2 by (simp split: if_splits)
    then show ?thesis using use2 by simp
  qed
qed

lemma no_summary_add: "no_summary dev \<Longrightarrow> yaffs_summary_add wr dev t c = dev"
  by (simp add: no_summary_def yaffs_summary_add_def)

lemma steady_no_summary: "steady k s dev \<Longrightarrow> no_summary s \<Longrightarrow> no_summary dev"
  by (simp add: steady_def)

lemma unseen_wr_plain:
  assumes "no_summary dev" "yaffs_wr_chunk_tags_nand dev ch buffer tags = (r, t, d)" shows "unseen dev d"
proof -
  obtain r' t' d0 where w0: "wr_chunk_tags_nand_upto 0 dev ch buffer tags = (r', t', d0)" by (metis prod_cases3)
  have eq: "r' = r" "t' = t" "d = yaffs_summary_add (wr_chunk_tags_nand_upto 1) d0 t ch"
    using wr_split [OF w0] assms(2) by simp_all
  have u: "unseen dev d0"
    using w0 by (subst (asm) wr_chunk_tags_nand_upto.simps) (auto simp: Let_def unseen_def split: prod.splits)
  have "steady 0 dev d0" using steady_wr_upto [of 0 dev dev 0 ch buffer tags] w0 by simp
  then have "no_summary d0" by (rule steady_no_summary [OF _ assms(1)])
  then show ?thesis using u eq(3) by (simp add: no_summary_add)
qed

lemma used_delete_skip:
  assumes f: "fresh b c dev" and ch: "ch = b * cpb dev + c"
  shows "used (yaffs_skip_rest_of_block (yaffs_chunk_del dev ch m)) = used dev - {(b, c)}"
proof -
  have inv: "inv_except {} 0 dev" and b: "b \<in> blocks_of dev" and c: "c \<in> chunks_in_use dev b"
    using f by (simp_all add: fresh_def)
  note cb = in_use_bounds(1,2) [OF c] and bp = inv_block(6) [OF inv b]
  have md: "ch div cpb dev = b" "ch mod cpb dev = c" using cb ch by simp_all
  have pos: "0 < ch" using cb bp ch by (simp add: add_pos_nonneg)
  have "used (yaffs_chunk_del dev ch m) = used dev - {(ch div cpb dev, ch mod cpb dev)}"
    by (rule used_chunk_del [OF inv pos]; unfold md) (use f in \<open>simp_all add: fresh_def\<close>)
  moreover have "used (yaffs_skip_rest_of_block (yaffs_chunk_del dev ch m)) = used (yaffs_chunk_del dev ch m)"
    by (rule used_cong) simp_all
  ultimately show ?thesis by (simp only: md)
qed

lemma used_wr_error:
  assumes f: "fresh b c dev" and ch: "ch = b * cpb dev + c" and c: "0 \<le> c" "c < cpb dev"
  shows "used (yaffs_handle_chunk_wr_error dev ch e) = used dev - {(b, c)}"
proof -
  let ?d6 = "yaffs_handle_chunk_error dev (ch div cpb dev)"
  let ?d7 = "if e then upd_block_info ?d6 (ch div cpb dev) (\<lambda>bi. bi\<lparr>needs_retiring := True\<rparr>) else ?d6"
  have "unseen dev ?d6" by (simp add: unseen_def)
  moreover have "unseen ?d6 ?d7" by (auto intro: unseen_upd_block simp: view3_def)
  ultimately have u7: "unseen dev ?d7" by (rule unseen_trans)
  have c7: "dev_config ?d7 = dev_config dev" using u7 by (simp add: unseen_def)
  have "used (yaffs_skip_rest_of_block (yaffs_chunk_del ?d7 ch True)) = used ?d7 - {(b, c)}"
    by (rule used_delete_skip [OF fresh_unseen [OF u7 f]]) (simp add: dev_configD(1) [OF c7] ch)
  then show ?thesis using used_unseen [OF u7] by (simp add: yaffs_handle_chunk_wr_error_def Let_def)
qed

lemma used_attempt:
  assumes inv: "inv_except {} 0 dev" and fits: "summary_fits dev" and ns: "no_summary dev"
    and att: "write_new_chunk_attempt dev data tags ur YAFFS_FAIL = (chunk, outcome, tags', d)"
  shows "if outcome = Some YAFFS_OK
    then 0 \<le> chunk \<and> (chunk div cpb dev, chunk mod cpb dev) \<notin> used dev \<and> used d = insert (chunk div cpb dev, chunk mod cpb dev) (used dev)
    else used d = used dev"
proof -
  obtain ch d1 where al: "yaffs_alloc_chunk dev ur = (ch, d1)" by fastforce
  note ae = alloc_chunk_effect [OF inv al] and au = used_alloc_chunk [OF inv al]
  have y2: "is_yaffs2 (param dev)" using inv by (simp add: inv_except_def)
  show ?thesis
  proof (cases "ch < 0")
    case True
    then have "used d1 = used dev" using au by auto
    then show ?thesis using att al True by (auto simp: write_new_chunk_attempt_def)
  next
    case False
    then obtain b c where bc: "ch = b * cpb dev + c" "0 < b" "0 \<le> c" "c < cpb dev" "(b, c) \<notin> used dev" "used d1 = insert (b, c) (used dev)"
      using au by auto
    obtain b' c' where bc': "ch = b' * cpb dev + c'" "0 \<le> c'" "c' < cpb dev" "just_allocated b' c' d1" using ae False by auto
    have "b' = b \<and> c' = c" using chunk_number_inj [of c' "cpb dev" c b' b] bc bc' by simp
    then have ja: "just_allocated b c d1" using bc' by simp
    have c1: "dev_config d1 = dev_config dev" using ae by simp
    let ?d2 = "if always_check_erased (param d1)
      then upd_block_info d1 b (\<lambda>bi. bi\<lparr>skip_erased_check := False\<rparr>) else d1"
    have dv: "ch div cpb d1 = b" "ch div cpb dev = b" "ch mod cpb dev = c" using bc dev_configD(1) [OF c1] by simp_all
    have u2: "unseen d1 ?d2" by (auto intro: unseen_upd_block simp: view3_def)
    have s2: "steady 1 dev ?d2" using steady_alloc_chunk [OF al] by (simp add: mild_def)
    let ?check = "\<not> skip_erased_check (yaffs_get_block_info ?d2 b)"
    obtain eo d3 where e3: "(if ?check then yaffs_check_chunk_erased ?d2 ch else (0, ?d2)) = (eo, d3)" by fastforce
    have u13: "unseen d1 d3" using e3 unseen_ops(5) [of ?d2 ch] unseen_trans [OF u2] u2 by (cases ?check) auto
    have s3: "steady 1 dev d3" using e3 s2 steady_check_erased [of ?d2 ch eo d3 1 dev] by (auto split: if_splits)
    have c3: "dev_config d3 = dev_config dev" using u13 c1 by (simp add: unseen_def)
    have ch3: "ch = b * cpb d3 + c" "c < cpb d3" using bc dev_configD(1) [OF c3] by simp_all
    have ja3: "just_allocated b c d3" by (rule just_allocated_unseen [OF u13 ja])
    have us3: "used d3 = insert (b, c) (used dev)" using used_unseen [OF u13] bc(6) by simp
    show ?thesis
    proof (cases "?check \<and> eo \<noteq> YAFFS_OK")
      case True
      have "(chunk, outcome, tags', d) = (ch, Some YAFFS_FAIL, tags, yaffs_skip_rest_of_block (yaffs_chunk_del d3 ch True))"
        unfolding att [symmetric]
        by (rule attempt_not_erased [OF al False, unfolded dv, OF refl refl e3 True])
      moreover have "used (yaffs_skip_rest_of_block (yaffs_chunk_del d3 ch True)) = used d3 - {(b, c)}"
        by (rule used_delete_skip [OF _ ch3(1)]) (use ja3 in \<open>simp add: just_allocated_def\<close>)
      ultimately show ?thesis using us3 bc(5) by auto
    next
      case no_del: False
      obtain wo tg d4 where w4: "yaffs_wr_chunk_tags_nand d3 ch (Some data) tags = (wo, tg, d4)" by (metis prod_cases3)
      have u4: "unseen d3 d4" by (rule unseen_wr_plain [OF steady_no_summary [OF s3 ns] w4])
      obtain vo d5 where v5: "(if \<not> skip_erased_check (yaffs_get_block_info d4 b)
          then yaffs_verify_chunk_written d4 ch data tg else (wo, d4)) = (vo, d5)" by fastforce
      have u5: "unseen d4 d5"
        using v5 unseen_ops(6) [of d4 ch data tg] by (cases "skip_erased_check (yaffs_get_block_info d4 b)") auto
      have u35: "unseen d3 d5" by (rule unseen_trans [OF u4 u5])
      have c5: "dev_config d5 = dev_config dev" using u35 c3 by (simp add: unseen_def)
      have f5: "fresh b c d5" using just_allocated_unseen [OF u35 ja3] by (simp add: just_allocated_def)
      have us5: "used d5 = insert (b, c) (used dev)" using used_unseen [OF u35] us3 by simp
      have "(chunk, outcome, tags', d) = (if vo \<noteq> YAFFS_OK
          then (ch, Some vo, tg, yaffs_handle_chunk_wr_error d5 ch (eo \<noteq> 0))
          else (ch, Some vo, tg, upd_block_info d5 b (\<lambda>bi. bi\<lparr>skip_erased_check := True\<rparr>)))"
        unfolding att [symmetric]
        by (rule attempt_written [OF al False, unfolded dv(1), OF refl refl e3 no_del w4 v5])
      moreover have "used (yaffs_handle_chunk_wr_error d5 ch (eo \<noteq> 0)) = used d5 - {(b, c)}"
        by (rule used_wr_error [OF f5]) (use bc dev_configD(1) [OF c5] in simp_all)
      ultimately show ?thesis using us5 bc(5) dv False by (auto split: if_splits)
    qed
  qed
qed

lemma used_loop:
  assumes "write_new_chunk_loop fuel wa data ur attempts YAFFS_FAIL tags dev = Some (chunk, ok, n, tags', d)"
    and "inv_except {} 0 dev" "summary_fits dev" "result_codes dev" "no_summary dev"
  shows "if ok = YAFFS_OK
    then 0 \<le> chunk \<and> (chunk div cpb dev, chunk mod cpb dev) \<notin> used dev \<and> used d = insert (chunk div cpb dev, chunk mod cpb dev) (used dev)
    else used d = used dev"
  using assms
proof (induction fuel arbitrary: attempts tags dev)
  case (Suc fuel)
  obtain ch out tg d1 where att: "write_new_chunk_attempt dev data tags ur YAFFS_FAIL = (ch, out, tg, d1)"
    by (metis prod_cases4)
  note ae = attempt_effect [OF Suc.prems(2-4) insertI2 [OF insertI1] att]
  note au = used_attempt [OF Suc.prems(2,3,5) att]
  have c1: "dev_config d1 = dev_config dev" using ae by simp
  have y2: "is_yaffs2 (param dev)" using Suc.prems(2) by (simp add: inv_except_def)
  have ns1: "no_summary d1" using steady_attempt [OF att y2] steady_no_summary Suc.prems(5) by blast
  show ?case
  proof (cases "\<exists>r. out = Some r \<and> r \<noteq> YAFFS_OK \<and> (wa = 0 \<or> attempts + 1 \<le> wa)")
    case True
    then obtain r where r: "out = Some r" "r \<noteq> YAFFS_OK" "wa = 0 \<or> attempts + 1 \<le> wa" by blast
    then have "r = YAFFS_FAIL" using ae by auto
    with Suc.prems(1) att r
    have "write_new_chunk_loop fuel wa data ur (attempts + 1) YAFFS_FAIL tg d1 = Some (chunk, ok, n, tags', d)" by simp
    from Suc.IH [OF this] show ?thesis
      using ae au r c1 Suc.prems(3,4) ns1 summary_fits_config [OF c1] result_codes_config [OF c1] dev_configD(1) [OF c1]
      by (cases "ok = YAFFS_OK") (simp_all del: in_used)
  next
    case False
    then have "d = d1 \<and> chunk = ch \<and> ok = (case out of None \<Rightarrow> YAFFS_FAIL | Some r \<Rightarrow> r)"
      using Suc.prems(1) att by (auto split: option.splits if_splits)
    then show ?thesis using au by (auto split: option.splits if_splits)
  qed
qed simp

lemma used_write_new:
  assumes "alloc_inv dev" "summary_fits dev" "result_codes dev" "no_summary dev"
    and w: "yaffs_write_new_chunk fuel wa dev data tags ur = Some (chunk, tags', d)"
  shows "if 0 \<le> chunk
    then (chunk div cpb dev, chunk mod cpb dev) \<notin> used dev \<and> used d = insert (chunk div cpb dev, chunk mod cpb dev) (used dev)
    else used d = used dev"
proof -
  let ?d0 = "yaffs2_checkpt_invalidate dev"
  have c0: "dev_config ?d0 = dev_config dev" by simp
  have u0: "used ?d0 = used dev" by (rule used_cong) simp_all
  obtain ch ok n tg d1 where loop: "write_new_chunk_loop fuel wa data ur 0 0 tags ?d0 = Some (ch, ok, n, tg, d1)"
    and res: "chunk = (if ok = 0 then -1 else ch)" "used d = used d1"
    using w by (auto simp: yaffs_write_new_chunk_def Let_def split: option.splits)
  have i0: "inv_except {} 0 ?d0" using assms(1) by (simp add: alloc_inv_def inv_checkpt_invalidate)
  have hyps: "summary_fits ?d0" "result_codes ?d0"
    using assms(2,3) summary_fits_config [OF c0] result_codes_config [OF c0] by auto
  have ns0: "no_summary ?d0" using steady_no_summary [OF steady_invalidate [OF steady_refl] assms(4)] .
  note ul = used_loop [OF loop i0 hyps ns0] and le = write_new_chunk_loop_inv [OF loop i0 hyps]
  show ?thesis
    using ul le res u0 dev_configD(1) [OF c0] by (auto simp: written_chunk_def simp del: in_used split: if_splits)
qed

end
