(* ===== verification/Yaffs_Vol.thy ===== *)
theory Yaffs_Vol
  imports Yaffs_Used Yaffs_Io
begin

text \<open>
  The volume as a whole: that the look-up trees of the files are the index of the flash. A chunk in use
  says in its tags which chunk of which object it holds; the trees say where each chunk of a file is.
  \<open>index_ok\<close> is that these are the same relation, which is also what a scan of the flash would find.
  Writing a chunk of a file, and moving it in a collection, keep it, and change the contents of the
  volume, \<open>contents\<close>, in that one chunk or not at all.

  Block summaries are left out (\<open>no_summary\<close>: a device with \<open>sum_tags\<close> not set up), and soft deletion, which
  yaffs2 does not use.
\<close>

section \<open>Chunks by number\<close>

definition in_use :: "('n, 'x) yaffs_dev_scheme \<Rightarrow> int \<Rightarrow> bool" where
  "in_use dev x \<longleftrightarrow> x mod cpb dev \<in> chunks_in_use dev (x div cpb dev)"

definition tags_at :: "('n, 'x) yaffs_dev_scheme \<Rightarrow> int \<Rightarrow> yaffs_ext_tags" where
  "tags_at dev x = snd (snd (chunk_read dev (x div cpb dev) (x mod cpb dev)))"

definition data_at :: "('n, 'x) yaffs_dev_scheme \<Rightarrow> int \<Rightarrow> u8 list" where
  "data_at dev x = take (data_bytes_per_chunk dev) (fst (snd (chunk_read dev (x div cpb dev) (x mod cpb dev))))"

text \<open>What is read from the flash: a whole chunk, and tags that can be stored again.\<close>

definition reads_ok :: "('n, 'x) yaffs_dev_scheme \<Rightarrow> bool" where
  "reads_ok dev \<longleftrightarrow> (\<forall>n c. case flash_read dev n c of (r, data, tags) \<Rightarrow>
     OH_SIZE \<le> length data \<and> total_bytes_per_chunk (param dev) \<le> length data \<and> plain_tags tags)"

text \<open>Every chunk number can be entered into a tree.\<close>

definition numbers_fit :: "('n, 'x) yaffs_dev_scheme \<Rightarrow> bool" where
  "numbers_fit dev \<longleftrightarrow> chunk_grp_bits dev = 0 \<and> chunk_grp_size dev = 1 \<and> tnode_geometry dev \<and>
     (\<forall>b c. valid_chunk dev b c \<longrightarrow> entry_fits dev (word_of_int (b * cpb dev + c)) \<and> b * cpb dev + c < 2 ^ 31)"

definition vol_ready :: "('n, 'x) yaffs_dev_scheme \<Rightarrow> bool" where
  "vol_ready dev \<longleftrightarrow> live_ready dev \<and> stores_ok dev \<and> reads_ok dev \<and> numbers_fit dev \<and> no_soft dev \<and> no_summary dev \<and>
     n_clean_ups dev = 0"

text \<open>Room for \<open>k\<close> more blocks before the sequence numbers run out.\<close>

definition seq_room :: "nat \<Rightarrow> ('n, 'x) yaffs_dev_scheme \<Rightarrow> bool" where
  "seq_room k dev \<longleftrightarrow> unat (dev_seq_number dev) + k < 2 ^ 32 - 1"

text \<open>A step of the layers below: nothing above them changes, at most \<open>k\<close> blocks are opened, and the chunks
  that stay in use read the same.\<close>

definition evolves :: "nat \<Rightarrow> ('n, 'x) yaffs_dev_scheme \<Rightarrow> ('n, 'x) yaffs_dev_scheme \<Rightarrow> bool" where
  "evolves k dev d \<longleftrightarrow> vol_ready d \<and> rest_of d = rest_of dev \<and> dev_config d = dev_config dev \<and>
     (gc_block d = gc_block dev \<or> gc_block d = 0) \<and>
     (\<exists>j \<le> k. dev_seq_number d = dev_seq_number dev + word_of_nat j) \<and>
     (\<forall>y. in_use dev y \<longrightarrow> in_use d y \<longrightarrow> tags_at d y = tags_at dev y \<and> data_at d y = data_at dev y)"

lemma evolves_refl: "vol_ready dev \<Longrightarrow> evolves k dev dev"
  by (auto simp: evolves_def intro: exI [of _ 0])

lemma seq_room_less: "seq_room k dev \<Longrightarrow> j \<le> k \<Longrightarrow> seq_room j dev"
  by (simp add: seq_room_def)

lemma seq_room_evolves: "seq_room (k + m) dev \<Longrightarrow> evolves k dev d \<Longrightarrow> seq_room m d"
proof -
  assume r: "seq_room (k + m) dev" and "evolves k dev d"
  then obtain j where j: "j \<le> k" "dev_seq_number d = dev_seq_number dev + word_of_nat j" by (auto simp: evolves_def)
  have "unat (dev_seq_number d) \<le> unat (dev_seq_number dev) + j"
  proof -
    have "unat (dev_seq_number d) \<le> unat (dev_seq_number dev) + unat (word_of_nat j :: u32)"
      unfolding j(2) unat_word_ariths(1) by (rule mod_less_eq_dividend)
    moreover have "unat (word_of_nat j :: u32) \<le> j" by (simp add: unat_of_nat)
    ultimately show ?thesis by simp
  qed
  then show ?thesis using r j(1) by (simp add: seq_room_def)
qed

lemma geometry_of: "vol_ready dev \<Longrightarrow> geometry_ok dev"
  by (simp add: vol_ready_def live_ready_def alloc_ready_inv inv_geometry [of "{}" 0])

lemma vol_inv_except: "vol_ready dev \<Longrightarrow> inv_except {} 0 dev"
  by (simp add: vol_ready_def live_ready_def alloc_ready_inv)

lemma cpb_pos: "vol_ready dev \<Longrightarrow> 0 < cpb dev"
  using geometry_of [of dev] by (simp add: geometry_ok_def)

lemma in_use_used: "in_use dev x \<longleftrightarrow> (x div cpb dev, x mod cpb dev) \<in> used dev"
  by (simp add: in_use_def)

lemma chunk_number:
  assumes "0 < cpb dev" "x div cpb dev = y div cpb dev" "x mod cpb dev = y mod cpb dev" shows "x = (y :: int)"
  using assms by (metis div_mult_mod_eq)

lemma in_use_valid:
  assumes "vol_ready dev" "in_use dev x"
  shows "valid_chunk dev (x div cpb dev) (x mod cpb dev)" "0 < x" "x < 2 ^ 31" "entry_fits dev (word_of_int x)"
proof -
  show v: "valid_chunk dev (x div cpb dev) (x mod cpb dev)" using in_use_bounds(3) assms(2) by (simp add: in_use_def)
  have x: "x div cpb dev * cpb dev + x mod cpb dev = x" by simp
  show "x < 2 ^ 31" "entry_fits dev (word_of_int x)" using assms(1) v x by (metis numbers_fit_def vol_ready_def)+
  have "x div cpb dev \<in> blocks_of dev" using in_use_bounds(4) assms(2) by (simp add: in_use_def valid_blocks_of)
  then have b: "0 < x div cpb dev" using inv_block(6) [OF vol_inv_except [OF assms(1)]] by simp
  show "0 < x"
  proof (rule ccontr)
    assume "\<not> 0 < x"
    then have "x div cpb dev \<le> 0" using cpb_pos [OF assms(1)] by (simp add: div_nonpos_pos_le0)
    then show False using b by simp
  qed
qed

text \<open>Without soft deletion every chunk in use counts.\<close>

lemma soft_lt:
  assumes "vol_ready dev" "in_use dev x"
  shows "soft_del_pages (yaffs_get_block_info dev (x div cpb dev)) < pages_in_use (yaffs_get_block_info dev (x div cpb dev))"
proof -
  let ?b = "x div cpb dev"
  have c: "x mod cpb dev \<in> chunks_in_use dev ?b" using assms(2) by (simp add: in_use_def)
  have b: "?b \<in> blocks_of dev" using in_use_bounds(4) [OF c] by (simp add: valid_blocks_of)
  note inv = vol_inv_except [OF assms(1)]
  have bo: "block_ok dev ?b" using inv_block(1) [OF inv b] by simp
  have "card (chunks_in_use dev ?b) > 0" using c by (auto simp: card_gt_0_iff)
  then have p: "0 < pages_in_use (yaffs_get_block_info dev ?b)" using block_ok_pages(1) [OF bo] by simp
  have "nat (?b - internal_start_block dev) < length (block_info dev)"
    using geometry_of [OF assms(1)] b by (auto simp: geometry_ok_def blocks_of_def)
  then have "yaffs_get_block_info dev ?b \<in> set (block_info dev)" by (simp add: yaffs_get_block_info_def)
  then have "soft_del_pages (yaffs_get_block_info dev ?b) = 0" using assms(1) by (simp add: vol_ready_def no_soft_def)
  then show ?thesis using p by simp
qed

lemma written_in_use: "vol_ready dev \<Longrightarrow> in_use dev x \<Longrightarrow> written_chunk x dev"
  using in_use_valid(2) soft_lt by (auto simp: written_chunk_def in_use_def)

section \<open>Steps of the layers below\<close>

lemma stores_config: "dev_config d = dev_config dev \<Longrightarrow> stores_ok d = stores_ok dev"
  using dev_configD(1,2,8) [of d dev] flash_read_config [of d dev] by (simp add: stores_ok_def)

lemma reads_config: "dev_config d = dev_config dev \<Longrightarrow> reads_ok d = reads_ok dev"
  using dev_configD(1) [of d dev] flash_read_config [of d dev] by (simp add: reads_ok_def)

lemma numbers_config: "dev_config d = dev_config dev \<Longrightarrow> rest_of d = rest_of dev \<Longrightarrow> numbers_fit d = numbers_fit dev"
  using dev_configD(1) [of d dev] valid_chunk_config [of d dev]
  by (simp add: numbers_fit_def rest_of_def entry_fits_def tnode_geometry_def)

lemma keeps_at:
  assumes "keeps X dev d" "in_use dev y" "(y div cpb dev, y mod cpb dev) \<notin> X"
  shows "tags_at d y = tags_at dev y" "data_at d y = data_at dev y"
  using assms dev_configD(1,8) [OF keeps_config [OF assms(1)]]
  by (simp_all add: keeps_def in_use_def tags_at_def data_at_def)

text \<open>The frame of a step is the same for all of them.\<close>

lemma evolvesI:
  assumes ready: "vol_ready dev" and live: "live_ready d" and s: "steady k dev d" and kp: "keeps X dev d"
    and X: "\<And>y. in_use dev y \<Longrightarrow> in_use d y \<Longrightarrow> (y div cpb dev, y mod cpb dev) \<notin> X"
  shows "evolves k dev d"
proof -
  have c: "dev_config d = dev_config dev" by (rule keeps_config [OF kp])
  have r: "rest_of d = rest_of dev" using s by (simp add: steady_def)
  have "vol_ready d"
    using ready live s stores_config [OF c] reads_config [OF c] numbers_config [OF c r] r
    by (simp add: vol_ready_def steady_def rest_of_def)
  then show ?thesis using c r s keeps_at [OF kp] X by (auto simp: evolves_def steady_def)
qed

lemma rd_step:
  assumes ready: "vol_ready dev" and rd: "yaffs_rd_chunk_tags_nand dev x want = (r, data, tags, d)"
  shows "evolves 0 dev d" "used d = used dev"
    "want \<Longrightarrow> tags = tags_at dev x \<and> take (data_bytes_per_chunk dev) data = data_at dev x \<and>
       OH_SIZE \<le> length data \<and> total_bytes_per_chunk (param dev) \<le> length data \<and> plain_tags tags"
proof -
  have live: "live_ready dev" using ready by (simp add: vol_ready_def)
  note q = keeps_quiet [OF quiet_read [OF rd] live]
  show "evolves 0 dev d" by (rule evolvesI [OF ready]) (use q steady_rd [OF rd] in auto)
  show "used d = used dev" by (rule used_unseen [OF unseen_rd [OF rd]])
  assume want
  then obtain n' where n: "read_chunk_tags_fn (tagger dev) (nand dev) (x - chunk_offset dev) True = (r, data, tags, n')"
    using rd by (auto simp: yaffs_rd_chunk_tags_nand_def Let_def upd_stats_def split: prod.splits)
  then have f: "flash_read dev (nand dev) (x - chunk_offset dev) = (r, data, tags)" by (simp add: flash_read_def)
  then have "chunk_read dev (x div cpb dev) (x mod cpb dev) = (r, data, tags)" by (simp add: chunk_read_def)
  moreover have "reads_ok dev" using ready by (simp add: vol_ready_def)
  then have "OH_SIZE \<le> length data \<and> total_bytes_per_chunk (param dev) \<le> length data \<and> plain_tags tags"
    unfolding reads_ok_def using f by (metis (no_types, lifting) case_prod_conv)
  ultimately show "tags = tags_at dev x \<and> take (data_bytes_per_chunk dev) data = data_at dev x \<and>
       OH_SIZE \<le> length data \<and> total_bytes_per_chunk (param dev) \<le> length data \<and> plain_tags tags"
    by (simp add: tags_at_def data_at_def)
qed

lemma del_step:
  assumes ready: "vol_ready dev" and x: "in_use dev x"
  shows "evolves 0 dev (yaffs_chunk_del dev x m)"
    "in_use (yaffs_chunk_del dev x m) y \<longleftrightarrow> in_use dev y \<and> y \<noteq> x"
proof -
  let ?d = "yaffs_chunk_del dev x m" and ?X = "{(x div cpb dev, x mod cpb dev)}"
  have live: "live_ready dev" and y2: "is_yaffs2 (param dev)"
    using ready vol_inv_except [OF ready] by (simp_all add: vol_ready_def inv_except_def)
  note w = written_in_use [OF ready x]
  note k = keeps_release_step [OF w live, of m]
  have cp: "cpb ?d = cpb dev" using dev_configD(1) [OF keeps_config [OF conjunct1 [OF k]]] by simp
  have u: "used ?d = used dev - ?X"
    using used_chunk_del [OF vol_inv_except [OF ready]] w by (simp add: written_chunk_def)
  show iu: "in_use ?d y \<longleftrightarrow> in_use dev y \<and> y \<noteq> x" for y
    unfolding in_use_used cp u using chunk_number [OF cpb_pos [OF ready], of y x] by auto
  show "evolves 0 dev ?d"
  proof (rule evolvesI [OF ready _ _ conjunct1 [OF k]])
    show "live_ready ?d" "steady 0 dev ?d" using k y2 by auto
    show "(y div cpb dev, y mod cpb dev) \<notin> ?X" if "in_use dev y" "in_use ?d y" for y
      using that(2) iu chunk_number [OF cpb_pos [OF ready], of y x] by auto
  qed
qed

lemma room_not_blank:
  assumes "seq_room k dev" "j \<le> k" shows "dev_seq_number dev + word_of_nat j \<noteq> 0xffffffff"
proof
  assume e: "dev_seq_number dev + word_of_nat j = 0xffffffff"
  have "unat (dev_seq_number dev + word_of_nat j) \<le> unat (dev_seq_number dev) + unat (word_of_nat j :: u32)"
    unfolding unat_word_ariths(1) by (rule mod_less_eq_dividend)
  moreover have "unat (word_of_nat j :: u32) \<le> j" by (simp add: unat_of_nat)
  ultimately show False using assms by (simp add: e seq_room_def)
qed

lemma write_step:
  fixes dev :: "('n, 'x) yaffs_vol_scheme"
  assumes ready: "vol_ready dev" and room: "seq_room (wr_fuel dev) dev" and plain: "plain_tags tags"
    and len: "total_bytes_per_chunk (param dev) \<le> length data" and w: "write_new dev data tags ur = (x, d)"
  shows "evolves (wr_fuel dev) dev d"
    "if x < 0 then in_use d y = in_use dev y
     else 0 < x \<and> \<not> in_use dev x \<and> (in_use d y \<longleftrightarrow> in_use dev y \<or> y = x) \<and> obj_id (tags_at d x) = obj_id tags \<and>
       chunk_id (tags_at d x) = chunk_id tags \<and> data_at d x = take (data_bytes_per_chunk dev) data"
proof -
  note pos = cpb_pos [OF ready]
  have live: "live_ready dev" and y2: "is_yaffs2 (param dev)" and ns: "no_summary dev" and st: "stores_ok dev"
    using ready vol_inv_except [OF ready] by (simp_all add: vol_ready_def inv_except_def)
  have "evolves (wr_fuel dev) dev d \<and>
    (if x < 0 then in_use d y = in_use dev y
     else 0 < x \<and> \<not> in_use dev x \<and> (in_use d y \<longleftrightarrow> in_use dev y \<or> y = x) \<and> obj_id (tags_at d x) = obj_id tags \<and>
       chunk_id (tags_at d x) = chunk_id tags \<and> data_at d x = take (data_bytes_per_chunk dev) data)"
  proof (cases "yaffs_write_new_chunk (wr_fuel dev) (wr_attempts dev) dev data tags ur")
    case None
    then show ?thesis using w evolves_refl [OF ready] by (auto simp: write_new_def)
  next
    case (Some r)
    obtain c t' e where r: "r = (c, t', e)" by (metis prod_cases3)
    have eq: "x = c" "d = e" using w Some r by (simp_all add: write_new_def)
    have w': "yaffs_write_new_chunk (wr_fuel dev) (wr_attempts dev) dev data tags ur = Some (x, t', d)"
      using Some r eq by simp
    have parts: "alloc_inv dev" "summary_fits dev" "result_codes dev" "flash_ok dev"
      using live by (simp_all add: live_ready_def alloc_ready_def)
    note q = keeps_quiet [OF quiet_write [OF w'] live] and u = used_write_new [OF parts(1-3) ns w']
      and s = steady_write_new [OF w' y2] and k = write_new_chunk_keeps [OF parts w']
      and e = write_new_chunk_effect [OF parts(1-3) w']
    have ev: "evolves (wr_fuel dev) dev d" by (rule evolvesI [OF ready]) (use q s(1) in auto)
    have c: "dev_config d = dev_config dev" using e by simp
    note cp = dev_configD(1) [OF c]
    show ?thesis
    proof (cases "x < 0")
      case True
      then show ?thesis using ev u by (simp add: in_use_used cp del: in_used)
    next
      case False
      let ?l = "(x div cpb dev, x mod cpb dev)"
      have nu: "?l \<notin> used dev" and us: "used d = insert ?l (used dev)" using u False by (simp_all del: in_used)
      have iu: "in_use d y \<longleftrightarrow> in_use dev y \<or> y = x" for y
        unfolding in_use_used cp us using chunk_number [OF pos, of y x] by auto
      have "plain_tags t'"
        using s(2) plain room_not_blank [OF room] by (auto simp: plain_tags_def tags_sound_def)
      then have "stored d (x div cpb dev) (x mod cpb dev) data tags"
        using k False st len by (simp add: storable_def)
      then have "obj_id (tags_at d x) = obj_id tags \<and> chunk_id (tags_at d x) = chunk_id tags \<and>
          data_at d x = take (data_bytes_per_chunk dev) data"
        using dev_configD(8) [OF c] by (auto simp: stored_def tags_at_def data_at_def cp split: prod.splits)
      moreover have "0 < x" using in_use_valid(2) [of d x] ev iu by (simp add: evolves_def)
      moreover have "\<not> in_use dev x" using nu by (simp add: in_use_def)
      ultimately show ?thesis using ev iu False by simp
    qed
  qed
  then show "evolves (wr_fuel dev) dev d"
    "if x < 0 then in_use d y = in_use dev y
     else 0 < x \<and> \<not> in_use dev x \<and> (in_use d y \<longleftrightarrow> in_use dev y \<or> y = x) \<and> obj_id (tags_at d x) = obj_id tags \<and>
       chunk_id (tags_at d x) = chunk_id tags \<and> data_at d x = take (data_bytes_per_chunk dev) data" by blast+
qed

section \<open>The memory of the trees\<close>

text \<open>The device without what the slab allocator and the counting of tree nodes work on.\<close>

definition others :: "('n, 'x) yaffs_mem_dev_scheme \<Rightarrow> ('n, 'x) yaffs_mem_dev_scheme" where
  "others dev = dev\<lparr>allocator := None, n_kmalloc := 0, kfreed := [], n_tnodes := 0, checkpoint_blocks_required := 0\<rparr>"

lemma others_fields [simp]:
  "others (dev\<lparr>allocator := a\<rparr>) = others dev" "others (dev\<lparr>n_kmalloc := i\<rparr>) = others dev"
  "others (dev\<lparr>kfreed := f\<rparr>) = others dev" "others (dev\<lparr>n_tnodes := j\<rparr>) = others dev"
  "others (dev\<lparr>checkpoint_blocks_required := l\<rparr>) = others dev"
  by (simp_all add: others_def)

lemma others_get_tnode: "yaffs_get_tnode dev = (r, d) \<Longrightarrow> others d = others dev"
proof -
  have "others (snd (yaffs_create_tnodes dev n)) = others dev" for n
    by (simp add: yaffs_create_tnodes_def kmalloc_def Let_def split: option.split)
  then show "yaffs_get_tnode dev = (r, d) \<Longrightarrow> others d = others dev"
    by (auto simp: yaffs_get_tnode_def yaffs_alloc_raw_tnode_def Let_def split: option.splits list.splits prod.splits if_splits)
qed

lemma others_grow: "grow_tree k dev f = (ok, f', d) \<Longrightarrow> others d = others dev \<and> file_size f' = file_size f \<and> stored_size f' = stored_size f"
proof (induction k arbitrary: dev f)
  case (Suc k)
  obtain r d1 where g: "yaffs_get_tnode dev = (r, d1)" by fastforce
  show ?case using Suc.prems Suc.IH g others_get_tnode [OF g] by (cases r) fastforce+
qed simp

lemma others_down: "add_down l c None dev tn = (r, tn', d) \<Longrightarrow> others d = others dev"
proof (induction l arbitrary: dev tn r tn' d)
  case (Suc l)
  obtain ch d1 where n: "(if l > 0 \<and> internal_nodes tn ! child_index c l = None
     then (case yaffs_get_tnode dev of (new, dev) \<Rightarrow> (map_option new_internal new, dev))
     else if l = 0 then
       (if internal_nodes tn ! child_index c l = None
        then (case yaffs_get_tnode dev of (new, dev) \<Rightarrow> (map_option (new_level0 dev) new, dev))
        else (internal_nodes tn ! child_index c l, dev))
     else (internal_nodes tn ! child_index c l, dev)) = (ch, d1)" by fastforce
  then have d1: "others d1 = others dev"
    using others_get_tnode [of dev "fst (yaffs_get_tnode dev)" "snd (yaffs_get_tnode dev)"]
    by (auto simp: case_prod_beta split: if_splits)
  have step: "add_down (Suc l) c None dev tn = (case ch of None \<Rightarrow> (None, tn, d1)
      | Some t \<Rightarrow> (case add_down l c None d1 t of (found, t, dev) \<Rightarrow>
          (found, Internal (tnode_addr tn) ((internal_nodes tn)[child_index c l := Some t]), dev)))"
    by (simp only: add_down.simps Let_def option.case n prod.case)
  show ?case
  proof (cases ch)
    case None
    then show ?thesis using Suc.prems step d1 by simp
  next
    case (Some t)
    obtain f t' d2 where a: "add_down l c None d1 t = (f, t', d2)" by (metis prod_cases3)
    then have "d = d2" using Suc.prems step Some by simp
    then show ?thesis using Suc.IH [OF a] d1 by simp
  qed
qed simp

lemma others_put:
  assumes "variant_type ob = YAFFS_OBJECT_TYPE_FILE" "yaffs_put_chunk_in_file dev ob i x 0 = (r, ob', d)"
  shows "others d = others dev" "obj_number ob' = obj_number ob" "variant_type ob' = variant_type ob"
    "defered_free ob' = defered_free ob" "soft_del ob' = soft_del ob" "hdr_chunk ob' = hdr_chunk ob"
    "file_size (file_variant ob') = file_size (file_variant ob)" "stored_size (file_variant ob') = stored_size (file_variant ob)"
proof -
  obtain found f1 d1 where add: "yaffs_add_find_tnode_0 dev (file_variant ob) (word_of_int i) None = (found, f1, d1)"
    by (metis prod_cases3)
  have "others d1 = others dev \<and> file_size f1 = file_size (file_variant ob) \<and> stored_size f1 = stored_size (file_variant ob)"
    using add others_grow others_down
    by (fastforce simp: yaffs_add_find_tnode_0_def Let_def split: prod.splits option.splits if_splits)
  then show "others d = others dev" "obj_number ob' = obj_number ob" "variant_type ob' = variant_type ob"
    "defered_free ob' = defered_free ob" "soft_del ob' = soft_del ob" "hdr_chunk ob' = hdr_chunk ob"
    "file_size (file_variant ob') = file_size (file_variant ob)" "stored_size (file_variant ob') = stored_size (file_variant ob)"
    using assms add by (auto simp: yaffs_put_chunk_in_file_def Let_def load_entry_def set_tnode_0_def split: option.splits if_splits)
qed

section \<open>What the layers below look at\<close>

definition below :: "('n, 'x) yaffs_dev_scheme \<Rightarrow> _" where
  "below dev = (alloc_view dev, dev_config dev, nand dev, block_info dev, sum_tags dev, n_clean_ups dev, sizes dev,
     chunk_grp_size dev, dev_seq_number dev)"

lemma below_upd [simp]:
  "below (upd_stats dev h) = below dev" "below (upd_node v a g) = below v" "below (upd_core v a f) = below v"
  "below (dev\<lparr>gc_disable := p\<rparr>) = below dev" "below (dev\<lparr>gc_block := j\<rparr>) = below dev" "below (dev\<lparr>gc_chunk := l\<rparr>) = below dev"
  "below (dev\<lparr>n_tnodes := i\<rparr>) = below dev"
  by (simp_all add: below_def upd_stats_def upd_core_def upd_node_def alloc_view_def dev_config_def sizes_def)

lemma below_others: "others d = others dev \<Longrightarrow> below d = below dev"
proof -
  have "below (others d) = below d" for d :: "('n, 'x) yaffs_mem_dev_scheme"
    by (simp add: below_def others_def alloc_view_def dev_config_def sizes_def)
  then show "others d = others dev \<Longrightarrow> below d = below dev" by metis
qed

lemma below_same:
  fixes d dev :: "('n, 'x) yaffs_dev_scheme"
  assumes "below d = below dev"
  shows "in_use d = in_use dev" "tags_at d = tags_at dev" "data_at d = data_at dev" "dev_config d = dev_config dev"
    "sizes d = sizes dev" "vol_ready dev \<Longrightarrow> vol_ready d" "seq_room k d = seq_room k dev" "n_clean_ups d = n_clean_ups dev"
    "block_info d = block_info dev" "nand d = nand dev" "used d = used dev"
proof -
  have c: "dev_config d = dev_config dev" and v: "alloc_view d = alloc_view dev" and n: "nand d = nand dev"
    and o: "block_info d = block_info dev" "sum_tags d = sum_tags dev" "n_clean_ups d = n_clean_ups dev" "sizes d = sizes dev"
      "chunk_grp_size d = chunk_grp_size dev"
    using assms by (simp_all add: below_def)
  have u: "unseen dev d" using c v by (simp add: unseen_def)
  show us: "used d = used dev" by (rule used_unseen [OF u])
  have rd: "chunk_read d = chunk_read dev"
    using c n flash_read_config [OF c] dev_configD(1,12) [OF c] by (simp add: chunk_read_def fun_eq_iff)
  show "in_use d = in_use dev" "tags_at d = tags_at dev" "data_at d = data_at dev"
    using us rd dev_configD(1,8) [OF c] by (simp_all add: in_use_used tags_at_def data_at_def fun_eq_iff del: in_used)
  show "dev_config d = dev_config dev" "sizes d = sizes dev" "block_info d = block_info dev" "nand d = nand dev"
    using c o n by simp_all
  show "seq_room k d = seq_room k dev" "n_clean_ups d = n_clean_ups dev" using assms by (simp_all add: below_def seq_room_def)
  assume r: "vol_ready dev"
  have "inv_except {} 0 d" by (rule unseen_inv [OF u vol_inv_except [OF r]])
  then have "alloc_ready d" by (rule alloc_ready_same [OF _ c]) (use r in \<open>simp add: vol_ready_def live_ready_def\<close>)
  then have "live_ready d" using r flash_ok_config [OF c] by (simp add: live_ready_def vol_ready_def)
  moreover have "numbers_fit d = numbers_fit dev"
    using o dev_configD(1) [OF c] valid_chunk_config [OF c] by (simp add: numbers_fit_def sizes_def entry_fits_def tnode_geometry_def)
  ultimately show "vol_ready d"
    using r o stores_config [OF c] reads_config [OF c] by (simp add: vol_ready_def no_soft_def no_summary_def)
qed

section \<open>The index\<close>

definition live_file :: "('n, 'x) yaffs_fs_scheme \<Rightarrow> slab_addr \<Rightarrow> bool" where
  "live_file dev a \<longleftrightarrow> yaffs_find_by_number dev (id_of dev a) = Some a \<and> variant_type (obj_at dev a) = YAFFS_OBJECT_TYPE_FILE"

text \<open>Where the tree of a file says a chunk is; 0 stands for a hole.\<close>

definition mapped :: "('n, 'x) yaffs_fs_scheme \<Rightarrow> slab_addr \<Rightarrow> u32 \<Rightarrow> int" where
  "mapped dev a k = uint (chunk_entry dev (file_variant (obj_at dev a)) k)"

definition flash_index :: "('n, 'x) yaffs_fs_scheme \<Rightarrow> ((slab_addr \<times> u32) \<times> int) set" where
  "flash_index dev = {((a, k), x). in_use dev x \<and> k \<noteq> 0 \<and> chunk_id (tags_at dev x) = k \<and>
     yaffs_find_by_number dev (obj_id (tags_at dev x)) = Some a}"

definition tree_index :: "('n, 'x) yaffs_fs_scheme \<Rightarrow> ((slab_addr \<times> u32) \<times> int) set" where
  "tree_index dev = {((a, k), x). live_file dev a \<and> mapped dev a k = x \<and> x \<noteq> 0}"

definition index_ok :: "('n, 'x) yaffs_fs_scheme \<Rightarrow> bool" where
  "index_ok dev \<longleftrightarrow> flash_index dev = tree_index dev \<and> (\<forall>a. live_file dev a \<longrightarrow> file_ok dev (file_variant (obj_at dev a))) \<and>
     (\<forall>n a. yaffs_find_by_number dev n = Some a \<longrightarrow> \<not> soft_del (obj_at dev a))"

definition vol_inv :: "('n, 'x) yaffs_fs_scheme \<Rightarrow> bool" where
  "vol_inv dev \<longleftrightarrow> vol_ready dev \<and> index_ok dev"

text \<open>The contents of the volume: what each chunk of each file reads.\<close>

definition contents :: "('n, 'x) yaffs_fs_scheme \<Rightarrow> slab_addr \<times> u32 \<Rightarrow> u8 list option" where
  "contents dev = (\<lambda>(a, k). if live_file dev a \<and> mapped dev a k \<noteq> 0 then Some (data_at dev (mapped dev a k)) else None)"

lemma found_number: "yaffs_find_by_number dev n = Some a \<Longrightarrow> id_of dev a = n"
  by (auto simp: yaffs_find_by_number_def find_Some_iff split: option.splits if_splits)

lemma mapped_in_index: "live_file dev a \<Longrightarrow> mapped dev a k \<noteq> 0 \<Longrightarrow> ((a, k), mapped dev a k) \<in> tree_index dev"
  by (simp add: tree_index_def)

lemma mapped_named:
  assumes "vol_inv dev" "live_file dev a" "mapped dev a k \<noteq> 0"
  shows "in_use dev (mapped dev a k)" "k \<noteq> 0" "chunk_id (tags_at dev (mapped dev a k)) = k"
    "obj_id (tags_at dev (mapped dev a k)) = id_of dev a"
proof -
  have "((a, k), mapped dev a k) \<in> flash_index dev"
    using mapped_in_index [OF assms(2,3)] assms(1) by (simp add: vol_inv_def index_ok_def)
  then show "in_use dev (mapped dev a k)" "k \<noteq> 0" "chunk_id (tags_at dev (mapped dev a k)) = k"
    "obj_id (tags_at dev (mapped dev a k)) = id_of dev a"
    using found_number unfolding flash_index_def mem_Collect_eq prod.case by metis+
qed

text \<open>The objects as far as the index depends on them.\<close>

definition same_objects :: "('n, 'x) yaffs_fs_scheme \<Rightarrow> ('n, 'x) yaffs_fs_scheme \<Rightarrow> bool" where
  "same_objects dev d \<longleftrightarrow> obj_bucket d = obj_bucket dev \<and> (\<forall>a. obj_number (obj_at d a) = obj_number (obj_at dev a) \<and>
     defered_free (obj_at d a) = defered_free (obj_at dev a) \<and> variant_type (obj_at d a) = variant_type (obj_at dev a) \<and>
     soft_del (obj_at d a) = soft_del (obj_at dev a))"

lemma same_objects_trans: "same_objects dev e \<Longrightarrow> same_objects e d \<Longrightarrow> same_objects dev d"
  by (simp add: same_objects_def)

lemma same_objects_refl [simp]: "same_objects dev dev"
  by (simp add: same_objects_def)

lemma same_find: "same_objects dev d \<Longrightarrow> yaffs_find_by_number d n = yaffs_find_by_number dev n"
  by (simp add: same_objects_def yaffs_find_by_number_def cong: option.case_cong del: split_paired_All)

lemma same_live: "same_objects dev d \<Longrightarrow> live_file d a = live_file dev a"
  using same_find [of dev d] by (simp add: live_file_def same_objects_def del: split_paired_All)

text \<open>The index can change in two ways. A chunk no file knows comes or goes, and nothing else changes.\<close>

definition unnamed :: "('n, 'x) yaffs_fs_scheme \<Rightarrow> int \<Rightarrow> bool" where
  "unnamed dev y \<longleftrightarrow> chunk_id (tags_at dev y) = 0 \<or> yaffs_find_by_number dev (obj_id (tags_at dev y)) = None"

definition same_chunk :: "('n, 'x) yaffs_fs_scheme \<Rightarrow> ('n, 'x) yaffs_fs_scheme \<Rightarrow> int \<Rightarrow> bool" where
  "same_chunk dev d y \<longleftrightarrow> tags_at d y = tags_at dev y \<and> data_at d y = data_at dev y"

lemma index_frame:
  assumes inv: "vol_inv dev" and ready: "vol_ready d" and so: "same_objects dev d"
    and files: "\<And>b. live_file dev b \<Longrightarrow> file_ok d (file_variant (obj_at d b))"
  shows "flash_index d = tree_index d \<Longrightarrow> vol_inv d"
proof -
  have "index_ok dev" using inv by (simp add: vol_inv_def)
  moreover have "soft_del (obj_at d a) = soft_del (obj_at dev a)" for a using so by (simp add: same_objects_def del: split_paired_All)
  ultimately show "flash_index d = tree_index d \<Longrightarrow> vol_inv d"
    using ready files same_live [OF so] same_find [OF so] by (simp add: vol_inv_def index_ok_def)
qed

lemma index_kept:
  assumes inv: "vol_inv dev" and ready: "vol_ready d" and so: "same_objects dev d"
    and files: "\<And>b. live_file dev b \<Longrightarrow> file_ok d (file_variant (obj_at d b))"
    and maps: "\<And>b j. live_file dev b \<Longrightarrow> mapped d b j = mapped dev b j"
    and gone: "\<And>y. in_use dev y \<Longrightarrow> \<not> in_use d y \<Longrightarrow> unnamed dev y"
    and come: "\<And>y. in_use d y \<Longrightarrow> \<not> in_use dev y \<Longrightarrow> unnamed d y"
    and same: "\<And>y. in_use dev y \<Longrightarrow> in_use d y \<Longrightarrow> same_chunk dev d y"
  shows "vol_inv d \<and> contents d = contents dev"
proof -
  note find = same_find [OF so] and live = same_live [OF so]
  have fi: "flash_index d = flash_index dev"
  proof (intro set_eqI)
    fix p :: "(slab_addr \<times> u32) \<times> int"
    obtain b j y where p: "p = ((b, j), y)" by (metis prod.exhaust)
    show "p \<in> flash_index d \<longleftrightarrow> p \<in> flash_index dev"
      unfolding p flash_index_def mem_Collect_eq prod.case
      using gone [of y] come [of y] same [of y] find
      by (cases "in_use dev y"; cases "in_use d y") (auto simp: unnamed_def same_chunk_def)
  qed
  have ti: "tree_index d = tree_index dev" unfolding tree_index_def using live maps by auto
  have ok: "flash_index dev = tree_index dev" using inv by (simp add: vol_inv_def index_ok_def)
  have "contents d (b, j) = contents dev (b, j)" for b j
  proof (cases "live_file dev b \<and> mapped dev b j \<noteq> 0")
    case True
    note n = mapped_named [OF inv conjunct1 [OF True] conjunct2 [OF True]]
    have "((b, j), mapped dev b j) \<in> flash_index d" using mapped_in_index [of dev b j] True fi ok by simp
    then have "in_use d (mapped dev b j)" by (simp add: flash_index_def)
    then show ?thesis using True n(1) same live maps by (simp add: contents_def same_chunk_def)
  next
    case False
    then show ?thesis using live maps by (auto simp: contents_def)
  qed
  then show ?thesis using index_frame [OF inv ready so files] fi ti ok by (simp add: fun_eq_iff)
qed

text \<open>Or a chunk of a file is replaced by a new one, or put into a hole.\<close>

lemma index_entered:
  assumes inv: "vol_inv dev" and ready: "vol_ready d" and so: "same_objects dev d"
    and files: "\<And>b. live_file dev b \<Longrightarrow> file_ok d (file_variant (obj_at d b))"
    and a: "live_file dev a" and k: "k \<noteq> 0" and x: "x \<noteq> 0" "\<not> in_use dev x"
    and maps: "\<And>b j. live_file dev b \<Longrightarrow> mapped d b j = (if b = a \<and> j = k then x else mapped dev b j)"
    and use: "\<And>y. in_use d y \<longleftrightarrow> (in_use dev y \<or> y = x) \<and> y \<noteq> mapped dev a k"
    and named: "obj_id (tags_at d x) = id_of dev a" "chunk_id (tags_at d x) = k"
    and same: "\<And>y. in_use dev y \<Longrightarrow> in_use d y \<Longrightarrow> same_chunk dev d y"
  shows "vol_inv d \<and> contents d = (contents dev)((a, k) \<mapsto> data_at d x)"
proof -
  note find = same_find [OF so] and live = same_live [OF so]
  let ?old = "((a, k), mapped dev a k)" and ?new = "((a, k), x)"
  have ok: "flash_index dev = tree_index dev" using inv by (simp add: vol_inv_def index_ok_def)
  have fa: "yaffs_find_by_number d (id_of dev a) = Some a" using a find by (simp add: live_file_def)
  have old: "in_use dev (mapped dev a k)" "chunk_id (tags_at dev (mapped dev a k)) = k"
    "obj_id (tags_at dev (mapped dev a k)) = id_of dev a" if "mapped dev a k \<noteq> 0"
    using mapped_named [OF inv a that] by simp_all
  have xo: "x \<noteq> mapped dev a k" using x old(1) by metis
  have fi: "flash_index d = insert ?new (flash_index dev - {?old})"
  proof (intro set_eqI)
    fix p :: "(slab_addr \<times> u32) \<times> int"
    obtain b j y where p: "p = ((b, j), y)" by (metis prod.exhaust)
    show "p \<in> flash_index d \<longleftrightarrow> p \<in> insert ?new (flash_index dev - {?old})"
    proof (cases "y = x")
      case True
      have "in_use d x" using use xo by simp
      then have "p \<in> flash_index d \<longleftrightarrow> b = a \<and> j = k"
        unfolding p True flash_index_def mem_Collect_eq prod.case using named fa k by auto
      moreover have "((b, j), x) \<notin> flash_index dev" using x(2) by (simp add: flash_index_def)
      ultimately show ?thesis unfolding p True by auto
    next
      case False
      have ne: "y \<noteq> mapped dev a k \<or> p = ?old" if "p \<in> flash_index dev"
      proof (rule ccontr)
        assume c: "\<not> ?thesis"
        then have y: "y = mapped dev a k" by simp
        have f: "in_use dev y" "chunk_id (tags_at dev y) = j" "yaffs_find_by_number dev (obj_id (tags_at dev y)) = Some b"
          using that unfolding p flash_index_def mem_Collect_eq prod.case by simp_all
        then have "mapped dev a k \<noteq> 0" using y in_use_valid(2) [of dev y] inv by (simp add: vol_inv_def)
        then have "j = k" "b = a" using old f y a by (auto simp: live_file_def)
        then show False using c p y by simp
      qed
      have "p \<in> flash_index d \<longleftrightarrow> p \<in> flash_index dev \<and> y \<noteq> mapped dev a k"
        unfolding p flash_index_def mem_Collect_eq prod.case
        using False use [of y] same [of y] find by (auto simp: same_chunk_def)
      then show ?thesis using ne False p by auto
    qed
  qed
  have ti: "tree_index d = insert ?new (tree_index dev - {?old})"
  proof (intro set_eqI)
    fix p :: "(slab_addr \<times> u32) \<times> int"
    obtain b j y where p: "p = ((b, j), y)" by (metis prod.exhaust)
    show "p \<in> tree_index d \<longleftrightarrow> p \<in> insert ?new (tree_index dev - {?old})"
      unfolding p tree_index_def mem_Collect_eq prod.case using live maps [of b j] a x(1) xo
      by (cases "b = a \<and> j = k") (auto simp: tree_index_def)
  qed
  have "contents d (b, j) = ((contents dev)((a, k) \<mapsto> data_at d x)) (b, j)" for b j
  proof (cases "live_file dev b \<and> mapped dev b j \<noteq> 0 \<and> (b, j) \<noteq> (a, k)")
    case True
    note n = mapped_named [OF inv, of b j]
    have "mapped dev b j \<noteq> mapped dev a k" using n old True a by (auto simp: live_file_def)
    then have "in_use d (mapped dev b j)" using use n(1) True by simp
    then show ?thesis using True n(1) same live maps by (auto simp: contents_def same_chunk_def)
  next
    case False
    then show ?thesis using live maps [of b j] a x(1) by (auto simp: contents_def)
  qed
  then show ?thesis using index_frame [OF inv ready so files] fi ti ok by (simp add: fun_eq_iff)
qed

section \<open>Entering a chunk\<close>

text \<open>When the tree already has the node of the chunk, nothing has to be allocated.\<close>

lemma add_down_found:
  "tree_ok n l t \<Longrightarrow> find_down l c (Some t) = Some s \<Longrightarrow> add_down l c None dev t = (Some s, t, dev)"
proof (induction l arbitrary: t)
  case (Suc l)
  let ?x = "child_index c l"
  obtain u where u: "internal_nodes t ! ?x = Some u" using Suc.prems(2) by (cases "internal_nodes t ! ?x") auto
  have "add_down l c None dev u = (Some s, u, dev)"
    by (rule Suc.IH) (use Suc.prems u tree_ok_child [OF Suc.prems(1) child_index_less u] in auto)
  moreover obtain a ts where "t = Internal a ts" using Suc.prems(1) by (auto simp: tree_ok_Suc)
  ultimately show ?case using u list_update_id [of "internal_nodes t" ?x] by (auto simp: Let_def)
qed simp

lemma add_find_found:
  assumes f: "file_ok dev f" and fd: "yaffs_find_tnode_0 f c = Some tn"
  shows "yaffs_add_find_tnode_0 dev f c None = (Some tn, f, dev)"
proof -
  have l: "0 \<le> top_level f" "\<not> top_level f > YAFFS_TNODES_MAX_LEVEL" "\<not> c > YAFFS_MAX_CHUNK_ID"
    "\<not> required_depth (drop_bit 4 c) > top_level f" "find_down (nat (top_level f)) c (top f) = Some tn"
    using fd f by (auto simp: yaffs_find_tnode_0_def file_ok_def split: if_splits)
  obtain t where t: "top f = Some t" "tree_ok (map_words dev) (nat (top_level f)) t"
    using f by (auto simp: file_ok_def split: option.splits)
  have "add_down (nat (top_level f)) c None dev t = (Some tn, t, dev)"
    by (rule add_down_found [OF t(2)]) (use l t in simp)
  moreover have "f\<lparr>top := Some t\<rparr> = f" using t(1) by simp
  ultimately show ?thesis using l t by (auto simp: yaffs_add_find_tnode_0_def split: if_splits)
qed

lemma put_step:
  fixes dev :: "('n, 'x) yaffs_vol_scheme"
  assumes ready: "vol_ready dev" and ty: "variant_type (obj_at dev a) = YAFFS_OBJECT_TYPE_FILE"
    and ok: "file_ok dev (file_variant (obj_at dev a))"
    and x: "entry_fits dev (word_of_int x)" "0 \<le> x" "x < 2 ^ 31"
    and put: "put_chunk_at dev a i x = (r, d)"
  shows "below d = below dev" "same_objects dev d" "wr_fuel d = wr_fuel dev \<and> gc_chunk d = gc_chunk dev \<and> gc_block d = gc_block dev" "\<And>b. b \<noteq> a \<Longrightarrow> obj_at d b = obj_at dev b"
    "file_ok d (file_variant (obj_at d a))"
    "mapped d a c = (if r = YAFFS_OK \<and> x \<noteq> 0 \<and> c = word_of_int i then x else mapped dev a c)"
    "yaffs_find_tnode_0 (file_variant (obj_at dev a)) (word_of_int i) \<noteq> None \<Longrightarrow> r = YAFFS_OK"
    "r = YAFFS_OK \<Longrightarrow> yaffs_find_tnode_0 (file_variant (obj_at d a)) (word_of_int i) \<noteq> None"
    "r \<noteq> YAFFS_OK \<Longrightarrow> r = YAFFS_FAIL"
proof -
  let ?f = "file_variant (obj_at dev a)" and ?c = "word_of_int i :: u32"
  obtain ob' d1 where p: "yaffs_put_chunk_in_file dev (obj_at dev a) i x 0 = (r, ob', d1)"
    and d: "d = upd_core d1 a (\<lambda>_. ob')"
    using put by (auto simp: put_chunk_at_def split: prod.splits)
  note o = others_put [OF ty p]
  have geo: "tnode_geometry dev" "chunk_grp_bits dev = 0" using ready by (simp_all add: vol_ready_def numbers_fit_def)
  note ps = put_chunk_spec [OF ok geo(1) ty x(1) p]
  have more: "objs (others e) = objs e" "obj_bucket (others e) = obj_bucket e" "wr_fuel (others e) = wr_fuel e"
    "gc_chunk (others e) = gc_chunk e" "gc_block (others e) = gc_block e"
    for e :: "('n, 'x) yaffs_vol_scheme" by (simp_all add: others_def)
  have ob: "objs d1 = objs dev" "obj_bucket d1 = obj_bucket dev" "wr_fuel d1 = wr_fuel dev" "gc_chunk d1 = gc_chunk dev" "gc_block d1 = gc_block dev"
    using o(1) more by metis+
  have core: "obj_at d a = ob'" "\<And>b. b \<noteq> a \<Longrightarrow> obj_at d b = obj_at dev b"
    using ob(1) by (simp_all add: d upd_core_def upd_node_def)
  then show "\<And>b. b \<noteq> a \<Longrightarrow> obj_at d b = obj_at dev b" by simp
  show "below d = below dev" using below_others [OF o(1)] by (simp add: d)
  show "wr_fuel d = wr_fuel dev \<and> gc_chunk d = gc_chunk dev \<and> gc_block d = gc_block dev" using ob by (simp add: d upd_core_def upd_node_def)
  have sz: "sizes d = sizes dev" "sizes d1 = sizes dev" using ps by (simp_all add: d upd_core_def upd_node_def sizes_def)
  have "obj_bucket d = obj_bucket dev" using ob by (simp add: d upd_core_def upd_node_def)
  moreover have "obj_number (obj_at d b) = obj_number (obj_at dev b) \<and> defered_free (obj_at d b) = defered_free (obj_at dev b) \<and>
      variant_type (obj_at d b) = variant_type (obj_at dev b) \<and> soft_del (obj_at d b) = soft_del (obj_at dev b)" for b
    using core o by (cases "b = a") simp_all
  ultimately show "same_objects dev d" by (simp only: same_objects_def) blast
  show "file_ok d (file_variant (obj_at d a))" using ps core sz file_ok_sizes [OF sz(1)] file_ok_sizes [OF sz(2)] by simp
  have "uint (word_of_int x :: u32) = x" using x(2,3) by (simp add: uint_word_of_int)
  then show "mapped d a c = (if r = YAFFS_OK \<and> x \<noteq> 0 \<and> c = ?c then x else mapped dev a c)"
    using ps chunk_entry_sizes [OF sz(1)] chunk_entry_sizes [OF sz(2)] core geo(2) by (simp add: mapped_def rounded_def)
  obtain found f1 d2 where add: "yaffs_add_find_tnode_0 dev ?f ?c None = (found, f1, d2)"
    by (metis prod_cases3)
  have r: "r = (if found = None then YAFFS_FAIL else YAFFS_OK)"
    using p ty add by (auto simp: yaffs_put_chunk_in_file_def Let_def split: option.splits if_splits)
  then show "r \<noteq> YAFFS_OK \<Longrightarrow> r = YAFFS_FAIL" by (cases found) simp_all
  show "r = YAFFS_OK" if "yaffs_find_tnode_0 ?f ?c \<noteq> None"
  proof -
    obtain tn where "yaffs_find_tnode_0 ?f ?c = Some tn" using \<open>yaffs_find_tnode_0 ?f ?c \<noteq> None\<close> by blast
    from add_find_found [OF ok this] show ?thesis using add r by simp
  qed
  assume "r = YAFFS_OK"
  then obtain tn where tn: "found = Some tn" using r by (auto split: if_splits)
  note as = add_find_spec [OF ok geo(1) add]
  have fd: "yaffs_find_tnode_0 f1 ?c = Some tn" using as tn by simp
  have "file_variant ob' = (if x = 0 then f1 else load_entry d2 f1 tn ?c (word_of_int x))"
    using p ty add tn by (auto simp: yaffs_put_chunk_in_file_def Let_def split: if_splits)
  moreover have "yaffs_find_tnode_0 (load_entry d2 f1 tn ?c (word_of_int x)) ?c \<noteq> None"
  proof -
    have "file_ok dev f1" using as by simp
    then obtain t where t: "top f1 = Some t" "tree_ok (map_words dev) (nat (top_level f1)) t"
      by (auto simp: file_ok_def split: option.splits)
    show ?thesis
      using fd t find_set_down [OF t(2), of ?c ?c]
      by (auto simp: load_entry_def set_tnode_0_def yaffs_find_tnode_0_def split: if_splits)
  qed
  ultimately show "yaffs_find_tnode_0 (file_variant (obj_at d a)) ?c \<noteq> None" using core fd by (auto split: if_splits)
qed

lemma mapped_node: "mapped dev a k \<noteq> 0 \<Longrightarrow> yaffs_find_tnode_0 (file_variant (obj_at dev a)) k \<noteq> None"
  by (cases "yaffs_find_tnode_0 (file_variant (obj_at dev a)) k") (simp_all add: mapped_def chunk_entry_def)

text \<open>With groups of one chunk a look-up reads nothing.\<close>

lemma find_chunk:
  assumes inv: "vol_inv dev" and a: "live_file dev a"
  shows "yaffs_find_chunk_in_file dev (obj_at dev a) i t =
    (if mapped dev a (word_of_int i) = 0 then -1 else mapped dev a (word_of_int i), t, dev)"
proof (cases "yaffs_find_tnode_0 (file_variant (obj_at dev a)) (word_of_int i)")
  case None
  then show ?thesis by (simp add: yaffs_find_chunk_in_file_def mapped_def chunk_entry_def)
next
  case (Some tn)
  let ?w = "yaffs_get_group_base dev (tnode_map tn) (word_of_int i)"
  have m: "mapped dev a (word_of_int i) = uint ?w" using Some by (simp add: mapped_def chunk_entry_def leaf_entry_def)
  have g: "chunk_grp_size dev = 1" using inv by (simp add: vol_inv_def vol_ready_def numbers_fit_def)
  show ?thesis
  proof (cases "uint ?w = 0")
    case True
    then have "sint ?w = 0" by (simp add: unsigned_eq_0_iff)
    then show ?thesis using Some m True g by (simp add: yaffs_find_chunk_in_file_def yaffs_find_chunk_in_group_def)
  next
    case False
    note u = mapped_named(1) [OF inv a, of "word_of_int i"]
    have iu: "in_use dev (uint ?w)" using u m False by simp
    have ready: "vol_ready dev" using inv by (simp add: vol_inv_def)
    have "sint ?w = uint ?w"
    proof -
      have "unat ?w < 2 ^ 31" using in_use_valid(3) [OF ready iu] by (metis nat_less_numeral_power_cancel_iff nat_uint_eq)
      then show ?thesis using sint_small [of ?w] by simp
    qed
    moreover have "yaffs_check_chunk_bit dev (uint ?w div cpb dev) (uint ?w mod cpb dev)"
      using iu by (simp add: in_use_def chunks_in_use_def)
    ultimately show ?thesis using Some m False g by (simp add: yaffs_find_chunk_in_file_def yaffs_find_chunk_in_group_def)
  qed
qed

section \<open>Steps of the volume\<close>

text \<open>What a step of the volume keeps besides the invariant, with at most \<open>k\<close> blocks opened.\<close>

definition calm :: "nat \<Rightarrow> ('n, 'x) yaffs_vol_scheme \<Rightarrow> ('n, 'x) yaffs_vol_scheme \<Rightarrow> bool" where
  "calm k dev d \<longleftrightarrow> vol_ready d \<and> dev_config d = dev_config dev \<and> same_objects dev d \<and> gc_chunk d = gc_chunk dev \<and>
     wr_fuel d = wr_fuel dev \<and> sizes d = sizes dev \<and> (gc_block d = gc_block dev \<or> gc_block d = 0) \<and> (\<exists>j \<le> k. dev_seq_number d = dev_seq_number dev + word_of_nat j)"

lemma calm_refl: "vol_ready dev \<Longrightarrow> calm k dev dev"
  by (auto simp: calm_def intro: exI [of _ 0])

lemma calm_trans:
  assumes "calm j a b" "calm k b c" shows "calm (j + k) a c"
proof -
  obtain i i' where i: "i \<le> j" "dev_seq_number b = dev_seq_number a + word_of_nat i"
      "i' \<le> k" "dev_seq_number c = dev_seq_number b + word_of_nat i'"
    using assms by (auto simp: calm_def)
  then have "i + i' \<le> j + k" "dev_seq_number c = dev_seq_number a + word_of_nat (i + i')" by simp_all
  then have "\<exists>i \<le> j + k. dev_seq_number c = dev_seq_number a + word_of_nat i" by blast
  moreover have "same_objects a c" using assms same_objects_trans by (auto simp: calm_def)
  ultimately show ?thesis using assms by (auto simp: calm_def simp del: split_paired_All)
qed

lemma calm_mono: "calm j dev d \<Longrightarrow> j \<le> k \<Longrightarrow> calm k dev d"
  unfolding calm_def by (meson le_trans)

lemma calm_room: "seq_room (k + m) dev \<Longrightarrow> calm k dev d \<Longrightarrow> seq_room m d"
proof -
  assume r: "seq_room (k + m) dev" and "calm k dev d"
  then obtain j where j: "j \<le> k" "dev_seq_number d = dev_seq_number dev + word_of_nat j" by (auto simp: calm_def)
  have "unat (dev_seq_number d) \<le> unat (dev_seq_number dev) + j"
  proof -
    have "unat (dev_seq_number d) \<le> unat (dev_seq_number dev) + unat (word_of_nat j :: u32)"
      unfolding j(2) unat_word_ariths(1) by (rule mod_less_eq_dividend)
    moreover have "unat (word_of_nat j :: u32) \<le> j" by (simp add: unat_of_nat)
    ultimately show ?thesis by simp
  qed
  then show ?thesis using r j(1) by (simp add: seq_room_def)
qed

lemma more_objs: "yaffs_dev.more d = yaffs_dev.more (dev :: ('n, 'x) yaffs_vol_scheme) \<Longrightarrow> objs d = objs dev"
  by (induct d, induct dev) simp

lemma more_bucket: "yaffs_dev.more d = yaffs_dev.more (dev :: ('n, 'x) yaffs_vol_scheme) \<Longrightarrow> obj_bucket d = obj_bucket dev"
  by (induct d, induct dev) simp

lemma more_fuel: "yaffs_dev.more d = yaffs_dev.more (dev :: ('n, 'x) yaffs_vol_scheme) \<Longrightarrow> wr_fuel d = wr_fuel dev"
  by (induct d, induct dev) simp

lemma calm_evolves:
  assumes "evolves k dev d" shows "calm k dev (d :: ('n, 'x) yaffs_vol_scheme)" "objs d = objs dev"
proof -
  have m: "yaffs_dev.more d = yaffs_dev.more dev" "sizes d = sizes dev" "gc_chunk d = gc_chunk dev"
    using assms by (simp_all add: evolves_def rest_of_def sizes_def)
  then have "objs d = objs dev" "obj_bucket d = obj_bucket dev" "wr_fuel d = wr_fuel dev" using more_objs more_bucket more_fuel m(1) by blast+
  then show "calm k dev d" "objs d = objs dev" using assms m by (simp_all add: calm_def evolves_def same_objects_def)
qed

lemma calm_below:
  "\<lbrakk>below d = below dev; same_objects dev d; wr_fuel d = wr_fuel dev \<and> gc_chunk d = gc_chunk dev \<and> gc_block d = gc_block dev; vol_ready dev\<rbrakk> \<Longrightarrow> calm k dev d"
proof -
  assume a: "below d = below dev" "same_objects dev d" "wr_fuel d = wr_fuel dev \<and> gc_chunk d = gc_chunk dev \<and> gc_block d = gc_block dev" "vol_ready dev"
  have "dev_seq_number d = dev_seq_number dev + word_of_nat 0" using a(1) by (simp add: below_def)
  then have "\<exists>j \<le> k. dev_seq_number d = dev_seq_number dev + word_of_nat j" by blast
  then show ?thesis using a below_same(4,5) [OF a(1)] below_same(6) [OF a(1) a(4)] by (simp add: calm_def)
qed

text \<open>Where the trees do not change.\<close>

lemma mapped_same: "sizes d = sizes dev \<Longrightarrow> obj_at d b = obj_at dev b \<Longrightarrow> mapped d b j = mapped dev b j"
  using chunk_entry_sizes [of d dev] by (simp add: mapped_def)

lemma vol_inv_ready: "vol_inv dev \<Longrightarrow> vol_ready dev"
  by (simp add: vol_inv_def)

lemma vol_inv_file: "vol_inv dev \<Longrightarrow> live_file dev b \<Longrightarrow> file_ok dev (file_variant (obj_at dev b))"
  by (simp add: vol_inv_def index_ok_def del: split_paired_All)

lemma below_kept:
  assumes inv: "vol_inv dev" and b: "below d = below dev" and so: "same_objects dev d"
    and files: "\<And>b. live_file dev b \<Longrightarrow> file_ok d (file_variant (obj_at d b)) \<and> (\<forall>j. mapped d b j = mapped dev b j)"
  shows "vol_inv d" "contents d = contents dev"
proof -
  have "vol_inv d \<and> contents d = contents dev"
    by (rule index_kept [OF inv below_same(6) [OF b vol_inv_ready [OF inv]] so])
      (use files below_same(1-3) [OF b] in \<open>simp_all add: same_chunk_def\<close>)
  then show "vol_inv d" "contents d = contents dev" by simp_all
qed

lemma evolves_kept:
  fixes dev :: "('n, 'x) yaffs_vol_scheme"
  assumes inv: "vol_inv dev" and ev: "evolves k dev d"
    and gone: "\<And>y. in_use dev y \<Longrightarrow> \<not> in_use d y \<Longrightarrow> unnamed dev y"
    and come: "\<And>y. in_use d y \<Longrightarrow> \<not> in_use dev y \<Longrightarrow> unnamed d y"
  shows "vol_inv d \<and> contents d = contents dev \<and> calm k dev d"
proof -
  note c = calm_evolves [OF ev]
  have sz: "sizes d = sizes dev" and so: "same_objects dev d" and ready: "vol_ready d" using c(1) by (simp_all add: calm_def)
  have "vol_inv d \<and> contents d = contents dev"
    by (rule index_kept [OF inv ready so _ _ gone come])
      (use vol_inv_file [OF inv] file_ok_sizes [OF sz] mapped_same [OF sz] c(2) ev in \<open>simp_all add: same_chunk_def evolves_def\<close>)
  then show ?thesis using c(1) by simp
qed

lemma unnamed_evolves: "evolves k dev d \<Longrightarrow> in_use dev y \<Longrightarrow> in_use d y \<Longrightarrow> unnamed d y = unnamed dev (y :: int)"
  for dev :: "('n, 'x) yaffs_vol_scheme"
  using same_find [of dev d] calm_evolves(1) [of k dev d] by (simp add: unnamed_def evolves_def calm_def)

text \<open>A chunk of a file is written, entered into the tree, and the chunk it replaces, if any, is deleted.\<close>

lemma write_enter:
  fixes dev :: "('n, 'x) yaffs_vol_scheme"
  assumes inv: "vol_inv dev" and a: "live_file dev a" and k: "k = word_of_int i" "k \<noteq> 0"
    and path: "yaffs_find_tnode_0 (file_variant (obj_at dev a)) k \<noteq> None"
    and room: "seq_room (wr_fuel dev) dev" and plain: "plain_tags tags"
    and len: "total_bytes_per_chunk (param dev) \<le> length data"
    and names: "obj_id tags = id_of dev a" "chunk_id tags = k"
    and w: "write_new dev data tags ur = (x, d1)" and x: "\<not> x < 0"
    and p: "put_chunk_at d1 a i x = (r, d2)"
    and d: "d = (if mapped dev a k = 0 then d2 else yaffs_chunk_del d2 (mapped dev a k) m)"
  shows "vol_inv d \<and> contents d = (contents dev)((a, k) \<mapsto> take (data_bytes_per_chunk dev) data) \<and>
    calm (wr_fuel dev) dev d \<and> 0 < x \<and> r = YAFFS_OK"
proof -
  let ?old = "mapped dev a k"
  note ready = vol_inv_ready [OF inv]
  note ws = write_step [OF ready room plain len w]
  have ev: "evolves (wr_fuel dev) dev d1" by (rule ws(1))
  note c1 = calm_evolves [OF ev]
  have wf: "0 < x" "\<not> in_use dev x" "\<And>y. in_use d1 y \<longleftrightarrow> in_use dev y \<or> y = x" "obj_id (tags_at d1 x) = obj_id tags"
    "chunk_id (tags_at d1 x) = chunk_id tags" "data_at d1 x = take (data_bytes_per_chunk dev) data"
    using ws(2) x by (auto split: if_splits)
  have sz1: "sizes d1 = sizes dev" and so1: "same_objects dev d1" and ready1: "vol_ready d1" using c1(1) by (simp_all add: calm_def)
  have ob1: "obj_at d1 b = obj_at dev b" for b using c1(2) by simp
  have ty: "variant_type (obj_at d1 a) = YAFFS_OBJECT_TYPE_FILE" using a ob1 by (simp add: live_file_def)
  have ok1: "file_ok d1 (file_variant (obj_at d1 b))" if "live_file dev b" for b
    using vol_inv_file [OF inv that] file_ok_sizes [OF sz1] ob1 by simp
  have u1: "in_use d1 x" using wf(3) by simp
  note v = in_use_valid [OF ready1 u1]
  note ps = put_step [OF ready1 ty ok1 [OF a] v(4) _ v(3) p]
  have x0: "0 \<le> x" using wf(1) by simp
  have r: "r = YAFFS_OK" using ps(7) [OF x0] path ob1 k by simp
  have b2: "below d2 = below d1" by (rule ps(1) [OF x0])
  have so2: "same_objects dev d2" using same_objects_trans [OF so1 ps(2) [OF x0]] .
  have c12: "calm 0 d1 d2" by (rule calm_below [OF b2 ps(2) [OF x0] ps(3) [OF x0] ready1])
  note s2 = below_same [OF b2]
  have ready2: "vol_ready d2" by (rule s2(6) [OF ready1])
  have maps2: "mapped d2 b j = (if b = a \<and> j = k then x else mapped dev b j)" for b j
  proof (cases "b = a")
    case True
    then show ?thesis using ps(6) [OF x0, of j] r k wf(1) mapped_same [OF sz1 ob1] by simp
  next
    case False
    then show ?thesis using mapped_same [OF s2(5) ps(4) [OF x0]] mapped_same [OF sz1 ob1] by simp
  qed
  have files2: "file_ok d2 (file_variant (obj_at d2 b))" if "live_file dev b" for b
  proof (cases "b = a")
    case True
    then show ?thesis using ps(5) [OF x0] by simp
  next
    case False
    then show ?thesis using ps(4) [OF x0] ok1 [OF that] file_ok_sizes [OF s2(5)] by simp
  qed
  have old: "in_use dev ?old" if "?old \<noteq> 0" by (rule mapped_named(1) [OF inv a that])
  have use2: "in_use d2 y \<longleftrightarrow> in_use dev y \<or> y = x" for y using wf(3) s2(1) by simp
  have step: "calm 0 d2 d \<and> objs d = objs d2 \<and> (\<forall>y. in_use d y \<longleftrightarrow> in_use d2 y \<and> y \<noteq> ?old) \<and>
      (\<forall>y. in_use d y \<longrightarrow> tags_at d y = tags_at d2 y \<and> data_at d y = data_at d2 y)"
  proof (cases "?old = 0")
    case True
    then have "\<not> in_use d2 ?old" using in_use_valid(2) [OF ready2, of ?old] by auto
    then show ?thesis using True d calm_refl [OF ready2] by auto
  next
    case False
    then have u: "in_use d2 ?old" using old use2 by simp
    note ds = del_step [OF ready2 u, of m]
    have "d = yaffs_chunk_del d2 ?old m" using d False by simp
    then show ?thesis using ds(2) ds(1) calm_evolves [OF ds(1)] by (simp add: evolves_def)
  qed
  then have cd: "calm 0 d2 d" and obd: "objs d = objs d2" and used_: "\<And>y. in_use d y \<longleftrightarrow> in_use d2 y \<and> y \<noteq> ?old"
    and td: "\<And>y. in_use d y \<Longrightarrow> tags_at d y = tags_at d2 y \<and> data_at d y = data_at d2 y" by auto
  have szd: "sizes d = sizes d2" and sod: "same_objects d2 d" and readyd: "vol_ready d" using cd by (simp_all add: calm_def)
  have ux: "in_use d x" using used_ use2 old wf(2) wf(1) by (cases "?old = 0") auto
  have "vol_inv d \<and> contents d = (contents dev)((a, k) \<mapsto> data_at d x)"
  proof (rule index_entered [OF inv readyd same_objects_trans [OF so2 sod] _ a k(2) _ wf(2)])
    show "file_ok d (file_variant (obj_at d b))" if "live_file dev b" for b
      using files2 [OF that] file_ok_sizes [OF szd] obd by simp
    show "x \<noteq> 0" using wf(1) by simp
    show "mapped d b j = (if b = a \<and> j = k then x else mapped dev b j)" for b j
      using maps2 mapped_same [OF szd, of b j] obd by simp
    show "in_use d y \<longleftrightarrow> (in_use dev y \<or> y = x) \<and> y \<noteq> ?old" for y using used_ use2 by simp
    show "obj_id (tags_at d x) = id_of dev a" "chunk_id (tags_at d x) = k"
      using td [OF ux] s2(2) wf(4,5) names by simp_all
    show "same_chunk dev d y" if "in_use dev y" "in_use d y" for y
      using td [OF that(2)] s2(2,3) that(1) wf(3) ev by (simp add: same_chunk_def evolves_def)
  qed
  moreover have "data_at d x = take (data_bytes_per_chunk dev) data" using td [OF ux] s2(3) wf(6) by simp
  moreover have "calm (wr_fuel dev + 0 + 0) dev d" by (rule calm_trans [OF calm_trans [OF c1(1) c12] cd])
  ultimately show ?thesis using r wf(1) by simp
qed

end
