(* ===== verification/Yaffs_Collect.thy ===== *)
theory Yaffs_Collect
  imports Yaffs_Vol
begin

text \<open>
  What a collection picks. The searches of \<open>yaffs_find_gc_block\<close> and \<open>yaffs2_find_refresh_block\<close> work on the
  counters and marks of the collector only: the blocks, the flash and the objects stay (\<open>alike\<close>), and
  what they pick is a full block of the device, provided the blocks the device remembers for collection
  from earlier searches are such blocks (\<open>gc_targets\<close>).
\<close>

definition gc_target :: "('n, 'x) yaffs_dev_scheme \<Rightarrow> int \<Rightarrow> bool" where
  "gc_target dev t \<longleftrightarrow> t < 1 \<or> (t \<in> blocks_of dev \<and> block_state (yaffs_get_block_info dev t) = YAFFS_BLOCK_STATE_FULL)"

text \<open>The block under collection, the best candidate so far, and the oldest dirty block.\<close>

definition gc_targets :: "('n, 'x) yaffs_dev_scheme \<Rightarrow> bool" where
  "gc_targets dev \<longleftrightarrow> gc_target dev (gc_block dev) \<and> gc_target dev (gc_dirtiest dev) \<and>
     gc_target dev (oldest_dirty_block dev) \<and> 0 \<le> gc_chunk dev"

definition alike :: "('n, 'x) yaffs_dev_scheme \<Rightarrow> ('n, 'x) yaffs_dev_scheme \<Rightarrow> bool" where
  "alike dev d \<longleftrightarrow> below d = below dev \<and> yaffs_dev.more d = yaffs_dev.more dev \<and> gc_chunk d = gc_chunk dev \<and>
     gc_block d = gc_block dev"

definition searched :: "('n, 'x) yaffs_dev_scheme \<Rightarrow> ('n, 'x) yaffs_dev_scheme \<Rightarrow> bool" where
  "searched dev d \<longleftrightarrow> alike dev d \<and> gc_target dev (gc_dirtiest d) \<and> gc_target dev (oldest_dirty_block d)"

lemma target_none [simp]: "t < 1 \<Longrightarrow> gc_target dev t"
  by (simp add: gc_target_def)

lemma alike_fields [simp]:
  "alike dev (d\<lparr>gc_skip := i\<rparr>) = alike dev d" "alike dev (d\<lparr>refresh_skip := i\<rparr>) = alike dev d"
  "alike dev (d\<lparr>oldest_dirty_seq := w\<rparr>) = alike dev d" "alike dev (d\<lparr>oldest_dirty_block := i\<rparr>) = alike dev d"
  "alike dev (d\<lparr>gc_dirtiest := i\<rparr>) = alike dev d" "alike dev (d\<lparr>gc_pages_in_use := i\<rparr>) = alike dev d"
  "alike dev (d\<lparr>gc_not_done := i\<rparr>) = alike dev d" "alike dev (d\<lparr>has_pending_prioritised_gc := p\<rparr>) = alike dev d"
  "alike dev (d\<lparr>gc_block_finder := i\<rparr>) = alike dev d" "alike dev (d\<lparr>checkpoint_blocks_required := i\<rparr>) = alike dev d"
  "alike dev (upd_stats d h) = alike dev d"
  by (simp_all add: alike_def below_def upd_stats_def alloc_view_def dev_config_def sizes_def)

lemma searched_fields [simp]:
  "searched dev (d\<lparr>gc_skip := i\<rparr>) = searched dev d" "searched dev (d\<lparr>refresh_skip := i\<rparr>) = searched dev d"
  "searched dev (d\<lparr>oldest_dirty_seq := w\<rparr>) = searched dev d"
  "searched dev (d\<lparr>gc_pages_in_use := i\<rparr>) = searched dev d"
  "searched dev (d\<lparr>gc_not_done := i\<rparr>) = searched dev d" "searched dev (d\<lparr>has_pending_prioritised_gc := p\<rparr>) = searched dev d"
  "searched dev (d\<lparr>gc_block_finder := i\<rparr>) = searched dev d" "searched dev (d\<lparr>checkpoint_blocks_required := i\<rparr>) = searched dev d"
  "searched dev (upd_stats d h) = searched dev d"
  by (simp_all add: searched_def) (simp_all add: upd_stats_def)

lemma searched_picks [simp]:
  "searched dev d \<Longrightarrow> searched dev (d\<lparr>gc_dirtiest := i\<rparr>) = gc_target dev i"
  "searched dev d \<Longrightarrow> searched dev (d\<lparr>oldest_dirty_block := i\<rparr>) = gc_target dev i"
  by (simp_all add: searched_def)

lemma kept_marks: "oldest_dirty_block (upd_stats d h) = oldest_dirty_block d"
  by (simp add: upd_stats_def)

lemma searched_seen:
  assumes "searched dev d"
  shows "yaffs_get_block_info d = yaffs_get_block_info dev" "dev_blocks d = dev_blocks dev" "blocks_of d = blocks_of dev"
    "param d = param dev" "vol_ready dev \<Longrightarrow> vol_ready d" "gc_target d = gc_target dev"
    "gc_target dev (gc_dirtiest d)" "gc_target dev (oldest_dirty_block d)"
    "internal_start_block d = internal_start_block dev" "internal_end_block d = internal_end_block dev"
proof -
  have b: "below d = below dev" using assms by (simp add: searched_def alike_def)
  note s = below_same [OF b] and c = dev_configD [OF below_same(4) [OF b]]
  show g: "yaffs_get_block_info d = yaffs_get_block_info dev" "dev_blocks d = dev_blocks dev" "blocks_of d = blocks_of dev"
    "param d = param dev" "vol_ready dev \<Longrightarrow> vol_ready d"
    using s(6,9) c by (simp_all add: yaffs_get_block_info_def dev_blocks_def blocks_of_def fun_eq_iff)
  show "gc_target d = gc_target dev" using g by (simp add: gc_target_def fun_eq_iff)
  show "gc_target dev (gc_dirtiest d)" "gc_target dev (oldest_dirty_block d)" using assms by (simp_all add: searched_def)
  show "internal_start_block d = internal_start_block dev" "internal_end_block d = internal_end_block dev" using c by simp_all
qed

lemma full_target:
  assumes "valid_block dev b" "block_state (yaffs_get_block_info dev b) = YAFFS_BLOCK_STATE_FULL"
  shows "gc_target dev b"
  using assms by (simp add: gc_target_def valid_blocks_of)

section \<open>The searches\<close>

lemma searched_oldest:
  assumes s: "searched dev d" and ready: "vol_ready dev"
  shows "searched dev (yaffs2_find_oldest_dirty_seq d)"
proof (cases "is_yaffs2 (param d) \<and> oldest_dirty_seq d = 0")
  case True
  note n = searched_seen [OF s]
  have y2: "is_yaffs2 (param d)" and e: "yaffs2_find_oldest_dirty_seq d = yaffs_calc_oldest_dirty_seq d"
    using True by (simp_all add: yaffs2_find_oldest_dirty_seq_def)
  from geometry_of [OF n(5) [OF ready]] y2 show ?thesis
  proof (cases rule: calc_oldest_dirty)
    case none
    then show ?thesis using e s by simp
  next
    case (found k)
    have "gc_target d k" using found(2,3) by (intro full_target) (simp_all add: is_dirty_full_def)
    then show ?thesis using e s found(1) n(6) by simp
  qed
qed (auto simp: yaffs2_find_oldest_dirty_seq_def s)

lemma searched_ok_for_gc:
  "yaffs_block_ok_for_gc d bi = (ok, d') \<Longrightarrow> searched dev d \<Longrightarrow> vol_ready dev \<Longrightarrow> searched dev d'"
  using searched_oldest by (auto simp: yaffs_block_ok_for_gc_def Let_def split: if_splits)

lemma searched_prioritised:
  "\<lbrakk>prioritised_loop bs selected exist d = (t, e, d'); searched dev d; vol_ready dev; gc_target dev selected;
    set bs \<subseteq> set (dev_blocks dev)\<rbrakk> \<Longrightarrow> searched dev d' \<and> gc_target dev t"
proof (induction bs arbitrary: selected exist d)
  case (Cons b bs)
  note n = searched_seen [OF Cons.prems(2)]
  have v: "valid_block dev b" using Cons.prems(5) by (simp add: set_dev_blocks)
  let ?bi = "yaffs_get_block_info d b"
  obtain ok d1 where ok: "yaffs_block_ok_for_gc d ?bi = (ok, d1)" by fastforce
  have s1: "searched dev d1" by (rule searched_ok_for_gc [OF ok Cons.prems(2,3)])
  have full: "block_state ?bi = YAFFS_BLOCK_STATE_FULL \<Longrightarrow> gc_target dev b" using full_target [OF v] n(1) by simp
  show ?case
    using Cons.prems Cons.IH s1 ok full by (auto simp: Let_def split: if_splits)
qed simp

lemma searched_gc_loop:
  "searched dev d \<Longrightarrow> vol_ready dev \<Longrightarrow> searched dev (gc_search_loop k d)"
proof (induction k arbitrary: d)
  case (Suc k)
  let ?f = "if gc_block_finder d + 1 < internal_start_block d \<or> gc_block_finder d + 1 > internal_end_block d
    then internal_start_block d else gc_block_finder d + 1"
  let ?d = "d\<lparr>gc_block_finder := ?f\<rparr>"
  let ?bi = "yaffs_get_block_info ?d ?f"
  have s: "searched dev ?d" using Suc.prems(1) by simp
  note n = searched_seen [OF s]
  obtain ok d1 where ok: "yaffs_block_ok_for_gc ?d ?bi = (ok, d1)" by fastforce
  have s1: "searched dev d1" by (rule searched_ok_for_gc [OF ok s Suc.prems(2)])
  have "geometry_ok ?d" by (rule geometry_of [OF n(5) [OF Suc.prems(2)]])
  then have v: "valid_block dev ?f" using n(9,10) by (auto simp: valid_block_def geometry_ok_def)
  have full: "block_state ?bi = YAFFS_BLOCK_STATE_FULL \<Longrightarrow> gc_target dev ?f" using full_target [OF v] n(1) by simp
  have "gc_search_loop (Suc k) d =
    (if gc_dirtiest d < 1 \<or> gc_pages_in_use d > YAFFS_GC_GOOD_ENOUGH then
       if block_state ?bi = YAFFS_BLOCK_STATE_FULL \<and> pages_in_use ?bi - soft_del_pages ?bi < cpb d \<and>
          (gc_dirtiest d < 1 \<or> pages_in_use ?bi - soft_del_pages ?bi < gc_pages_in_use d)
       then gc_search_loop k (if ok then d1\<lparr>gc_dirtiest := ?f, gc_pages_in_use := pages_in_use ?bi - soft_del_pages ?bi\<rparr> else d1)
       else gc_search_loop k ?d
     else d)"
    using ok by (simp add: Let_def cong: if_cong)
  moreover have "searched dev (if ok then d1\<lparr>gc_dirtiest := ?f, gc_pages_in_use := q\<rparr> else d1)"
    if "block_state ?bi = YAFFS_BLOCK_STATE_FULL" for q
    using s1 full [OF that] by simp
  ultimately show ?case using Suc.IH Suc.prems s by (simp del: gc_search_loop.simps)
qed simp

lemma searched_prio:
  "gc_pick_prioritised d aggressive = (t, d') \<Longrightarrow> searched dev d \<Longrightarrow> vol_ready dev \<Longrightarrow> searched dev d' \<and> gc_target dev t"
proof (cases "has_pending_prioritised_gc d \<and> \<not> aggressive")
  case True
  assume p: "gc_pick_prioritised d aggressive = (t, d')" and s: "searched dev d" and r: "vol_ready dev"
  let ?d = "d\<lparr>gc_dirtiest := 0\<rparr>"
  obtain t1 e d1 where l: "prioritised_loop (dev_blocks ?d) 0 False ?d = (t1, e, d1)" by (metis prod_cases3)
  have "searched dev d1 \<and> gc_target dev t1"
    by (rule searched_prioritised [OF l _ r]) (use s searched_seen(2) [OF s] in \<open>simp_all add: dev_blocks_def\<close>)
  then show ?thesis using p l True searched_seen(8) [of dev d1] by (auto simp: gc_pick_prioritised_def Let_def split: if_splits)
qed (auto simp: gc_pick_prioritised_def)

lemma searched_dirty:
  "gc_pick_dirty d aggressive background = (t, d') \<Longrightarrow> searched dev d \<Longrightarrow> vol_ready dev \<Longrightarrow> searched dev d' \<and> gc_target dev t"
  using searched_gc_loop [of dev d] searched_seen(7) [of dev]
  by (auto simp: gc_pick_dirty_def Let_def split: prod.splits if_splits)

lemma searched_pick_oldest:
  "gc_pick_oldest d background = (t, d') \<Longrightarrow> searched dev d \<Longrightarrow> vol_ready dev \<Longrightarrow> searched dev d' \<and> gc_target dev t"
  using searched_oldest [of dev d] searched_seen(8) [of dev "yaffs2_find_oldest_dirty_seq d"]
  by (auto simp: gc_pick_oldest_def Let_def kept_marks split: if_splits)

lemma searched_find_gc_block:
  assumes f: "yaffs_find_gc_block d aggressive background = (t, d')" and s: "searched dev d" and r: "vol_ready dev"
  shows "searched dev d' \<and> gc_target dev t"
proof -
  obtain t1 d1 where p1: "gc_pick_prioritised d aggressive = (t1, d1)" by fastforce
  obtain t2 d2 where p2: "(if t1 = 0 then gc_pick_dirty d1 aggressive background else (t1, d1)) = (t2, d2)" by fastforce
  obtain t3 d3 where p3: "(if t2 = 0 then gc_pick_oldest d2 background else (t2, d2)) = (t3, d3)" by fastforce
  have "searched dev d1 \<and> gc_target dev t1" by (rule searched_prio [OF p1 s r])
  then have "searched dev d2 \<and> gc_target dev t2" using p2 searched_dirty [OF _ _ r] by (auto split: if_splits)
  then have "searched dev d3 \<and> gc_target dev t3" using p3 searched_pick_oldest [OF _ _ r] by (auto split: if_splits)
  then show ?thesis using f p1 p2 p3 by (auto simp: yaffs_find_gc_block_def Let_def split: if_splits)
qed

lemma searched_refresh:
  assumes f: "yaffs2_find_refresh_block d = (t, d')" and s: "searched dev d" and r: "vol_ready dev"
  shows "searched dev d' \<and> gc_target dev t"
proof -
  have "geometry_ok d" by (rule geometry_of [OF searched_seen(5) [OF s r]])
  then have pos: "\<forall>b \<in> set (dev_blocks d). 0 < b" by (auto simp: geometry_ok_def dev_blocks_def)
  obtain k q where fo: "fold (refresh_step d) (dev_blocks d) (0, 0) = (k, q)" by fastforce
  have "fold (refresh_step (upd_stats (e\<lparr>refresh_skip := i\<rparr>) h)) (dev_blocks (upd_stats (e\<lparr>refresh_skip := i\<rparr>) h)) (0, 0) = (k, q)"
    if "e = d \<or> (\<exists>j. e = d\<lparr>refresh_skip := j\<rparr>)" for e i h
    using that fo refresh_fold_cong [of "upd_stats (e\<lparr>refresh_skip := i\<rparr>) h" d] by (auto simp: upd_stats_def dev_blocks_def)
  then have "t = 0 \<or> t = k" "searched dev d'"
    using f s by (auto simp: yaffs2_find_refresh_block_def Let_def split: if_splits prod.splits)
  moreover have "gc_target dev k"
    using refresh_fold [OF fo pos] full_target [of dev k] searched_seen(1,2) [OF s] by (force simp: set_dev_blocks gc_target_def valid_blocks_of split: if_splits)
  ultimately show ?thesis by auto
qed

section \<open>The choice\<close>

lemma wanted_alike:
  assumes "gc_wanted d background aggressive = (w, ag, d')"
  shows "alike dev d \<Longrightarrow> alike dev d'" "searched dev d \<Longrightarrow> searched dev d'"
proof -
  obtain n d1 where c: "yaffs_calc_checkpt_blocks_required d = (n, d1)" by fastforce
  have "alike dev (snd (yaffs_calc_checkpt_blocks_required d)) = alike dev d"
    "searched dev (snd (yaffs_calc_checkpt_blocks_required d)) = searched dev d"
    by (simp_all add: yaffs_calc_checkpt_blocks_required_def Let_def)
  then have "alike dev d1 = alike dev d" "searched dev d1 = searched dev d" using c by simp_all
  then have "alike dev (snd (snd (gc_wanted d background aggressive))) = alike dev d"
    "searched dev (snd (snd (gc_wanted d background aggressive))) = searched dev d"
    by (simp_all add: gc_wanted_def c Let_def)
  then show "alike dev d \<Longrightarrow> alike dev d'" "searched dev d \<Longrightarrow> searched dev d'" using assms by simp_all
qed

lemma searched_rebase:
  assumes s: "searched dev d" and n: "n_clean_ups dev = 0"
  shows "searched (dev\<lparr>gc_block := b, gc_chunk := c\<rparr>) (d\<lparr>gc_block := b, gc_chunk := c, n_clean_ups := 0\<rparr>)"
proof -
  have be: "below d = below dev" using s by (simp add: searched_def alike_def)
  then have "n_clean_ups d = 0" using below_same(8) [of d dev] n by simp
  then have "below (d\<lparr>gc_block := b, gc_chunk := c, n_clean_ups := 0\<rparr>) = below d"
    by (simp add: below_def alloc_view_def dev_config_def sizes_def)
  moreover have "below (dev\<lparr>gc_block := b, gc_chunk := c\<rparr>) = below dev" by simp
  moreover have "gc_target (dev\<lparr>gc_block := b, gc_chunk := c\<rparr>) = gc_target dev"
    by (simp add: gc_target_def blocks_of_def yaffs_get_block_info_def fun_eq_iff)
  ultimately show ?thesis using s be by (simp add: searched_def alike_def)
qed

lemma searched_gc_block: "searched dev d \<Longrightarrow> gc_block d = gc_block dev \<and> gc_chunk d = gc_chunk dev"
  by (simp add: searched_def alike_def)

text \<open>What is collected is a full block, and up to then nothing is touched.\<close>

definition chosen :: "('n, 'x) yaffs_dev_scheme \<Rightarrow> ('n, 'x) yaffs_dev_scheme \<Rightarrow> bool" where
  "chosen dev d \<longleftrightarrow> below d = below dev \<and> yaffs_dev.more d = yaffs_dev.more dev \<and> gc_target d (gc_block d) \<and> 0 \<le> gc_chunk d"

lemma chosen_alike:
  assumes "alike dev d" "gc_target dev (gc_block dev)" "0 \<le> gc_chunk dev" shows "chosen dev d"
proof -
  have b: "below d = below dev" using assms(1) by (simp add: alike_def)
  have "gc_target d = gc_target dev"
    using below_same(9) [OF b] dev_configD [OF below_same(4) [OF b]]
    by (simp add: gc_target_def yaffs_get_block_info_def blocks_of_def fun_eq_iff)
  then show ?thesis using assms by (simp add: chosen_def alike_def)
qed

lemma chosen_searched: "\<lbrakk>searched dev d; gc_target dev (gc_block dev); 0 \<le> gc_chunk dev\<rbrakk> \<Longrightarrow> chosen dev d"
  by (simp add: searched_def chosen_alike)

lemma chosen_rebase: "chosen (dev\<lparr>gc_block := b, gc_chunk := c\<rparr>) d = chosen dev d"
  by (simp add: chosen_def)

lemma chosen_pick:
  assumes s: "searched dev d" and n: "n_clean_ups dev = 0" and t: "gc_target dev t"
  shows "chosen dev (d\<lparr>gc_block := t, gc_chunk := 0, n_clean_ups := 0\<rparr>)"
proof -
  note r = searched_rebase [OF s n, where b = t and c = 0]
  have "gc_target (dev\<lparr>gc_block := t, gc_chunk := 0\<rparr>) t" using t by (simp add: gc_target_def blocks_of_def yaffs_get_block_info_def)
  from chosen_searched [OF r] this show ?thesis by (simp add: chosen_rebase)
qed

lemma gc_select_chosen:
  fixes dev :: "('n, 'x) yaffs_vol_scheme"
  assumes s: "searched dev d" and r: "vol_ready dev" and t: "gc_target dev (gc_block dev)" and c: "0 \<le> gc_chunk dev"
  shows "chosen dev (gc_select d aggressive background)"
proof -
  have n: "n_clean_ups dev = 0" using r by (simp add: vol_ready_def)
  have s0: "searched dev (d\<lparr>gc_skip := 5\<rparr>)" using s by simp
  note gs = searched_gc_block [OF s]
  show ?thesis
  proof (cases "gc_block d < 1")
    case False
    then have "gc_select d aggressive background = d\<lparr>gc_skip := 5\<rparr>" by (simp add: gc_select_def)
    then show ?thesis using chosen_searched [OF s0 t c] by simp
  next
    case low: True
    show ?thesis
    proof (cases aggressive)
      case True
      obtain t1 d1 where p: "yaffs_find_gc_block (d\<lparr>gc_skip := 5\<rparr>) aggressive background = (t1, d1)" by fastforce
      note f = searched_find_gc_block [OF p s0 r]
      have "gc_select d aggressive background = d1\<lparr>gc_block := t1, gc_chunk := 0, n_clean_ups := 0\<rparr>"
        using True low p by (simp add: gc_select_def Let_def)
      then show ?thesis using chosen_pick [OF _ n] f by simp
    next
      case False
      obtain t1 d1 where p: "yaffs2_find_refresh_block (d\<lparr>gc_skip := 5\<rparr>) = (t1, d1)" by fastforce
      note f = searched_refresh [OF p s0 r]
      let ?b = "dev\<lparr>gc_block := t1, gc_chunk := 0\<rparr>" and ?d1 = "d1\<lparr>gc_block := t1, gc_chunk := 0, n_clean_ups := 0\<rparr>"
      have s1: "searched ?b ?d1" by (rule searched_rebase [OF conjunct1 [OF f] n])
      have rb: "vol_ready ?b" "n_clean_ups ?b = 0" using below_same(6) [of ?b dev] r n by simp_all
      obtain t2 d2 where p2: "yaffs_find_gc_block ?d1 aggressive background = (t2, d2)" by fastforce
      note f2 = searched_find_gc_block [OF p2 s1 rb(1)]
      have "gc_select d aggressive background =
          (if t1 < 1 then d2\<lparr>gc_block := t2, gc_chunk := 0, n_clean_ups := 0\<rparr> else ?d1)"
        using False low p p2 by (simp add: gc_select_def Let_def)
      moreover have "chosen ?b (d2\<lparr>gc_block := t2, gc_chunk := 0, n_clean_ups := 0\<rparr>)" using chosen_pick [OF _ rb(2)] f2 by simp
      ultimately show ?thesis using chosen_pick [OF _ n] f by (simp add: chosen_rebase)
    qed
  qed
qed

lemma gc_select_same_block:
  assumes "gc_block d \<ge> 1" "alike dev d" "gc_target dev (gc_block dev)" "0 \<le> gc_chunk dev"
  shows "chosen dev (gc_select d aggressive background)"
proof -
  have "gc_select d aggressive background = d\<lparr>gc_skip := 5\<rparr>" using assms(1) by (simp add: gc_select_def)
  then show ?thesis using chosen_alike [OF _ assms(3,4)] assms(2) by simp
qed

end
