(* ===== verification/Yaffs_Contents.thy ===== *)
theory Yaffs_Contents
  imports Yaffs_Collect
begin

text \<open>
  The contents of the volume under the operations: a collection (\<open>yaffs_gc_block\<close>) changes nothing in
  it, writing a chunk of a file (\<open>yaffs_wr_data_obj\<close>) changes that chunk or nothing, and reading one
  (\<open>yaffs_rd_data_obj\<close>) gives what the contents say, zeros for a hole. \<open>kept k dev d\<close> is that the
  invariant and the contents are kept with at most \<open>k\<close> blocks opened.
\<close>

section \<open>Moving a chunk in a collection\<close>

lemma plain_copies: "plain_tags t \<Longrightarrow> plain_tags (t\<lparr>serial_number := i\<rparr>)"
  by (simp add: plain_tags_def tags_sound_def)

lemma gc_header_spec:
  assumes "gc_header dev ob buffer tags = (buffer', tags')" "OH_SIZE \<le> length buffer" "plain_tags tags"
  shows "length buffer' = length buffer" "obj_id tags' = obj_id tags" "chunk_id tags' = chunk_id tags" "plain_tags tags'"
proof -
  have sz: "oh_sized (oh_of_bytes (host_le dev) buffer)" by (rule oh_fields_split(2) [OF assms(2)])
  show "length buffer' = length buffer"
    using assms(1,2) sz
    by (auto simp: gc_header_def Let_def put_oh_def length_oh_bytes oh_sized_def yaffs_oh_size_load_def split: if_splits)
  show "obj_id tags' = obj_id tags" "chunk_id tags' = chunk_id tags" "plain_tags tags'"
    using assms(1,3) by (auto simp: gc_header_def Let_def plain_tags_def tags_sound_def split: if_splits)
qed

lemma below_core_kept:
  assumes inv: "vol_inv dev" and d: "d = upd_core dev a f"
    and f: "let ob = obj_at dev a in obj_number (f ob) = obj_number ob \<and> defered_free (f ob) = defered_free ob \<and>
      variant_type (f ob) = variant_type ob \<and> soft_del (f ob) = soft_del ob \<and>
      top_level (file_variant (f ob)) = top_level (file_variant ob) \<and> top (file_variant (f ob)) = top (file_variant ob)"
  shows "vol_inv d" "contents d = contents dev" "same_objects dev d" "below d = below dev" "mapped d = mapped dev"
proof -
  have ob: "obj_at d b = (if b = a then f (obj_at dev b) else obj_at dev b)" for b
    by (simp add: d upd_core_def upd_node_def)
  have "obj_bucket d = obj_bucket dev" by (simp add: d upd_core_def upd_node_def)
  then show so: "same_objects dev d" using f ob by (simp add: same_objects_def Let_def del: split_paired_All)
  show b: "below d = below dev" by (simp add: d)
  have tt: "top_level (file_variant (obj_at d b)) = top_level (file_variant (obj_at dev b))"
    "top (file_variant (obj_at d b)) = top (file_variant (obj_at dev b))" for b
    using f ob [of b] by (cases "b = a"; simp add: Let_def)+
  have v: "file_ok dev (file_variant (obj_at d b)) = file_ok dev (file_variant (obj_at dev b))"
    "chunk_entry dev (file_variant (obj_at d b)) = chunk_entry dev (file_variant (obj_at dev b))" for b
    unfolding file_ok_def chunk_entry_def yaffs_find_tnode_0_def fun_eq_iff tt by simp_all
  have m: "mapped d b j = mapped dev b j" for b j
    using v(2) chunk_entry_sizes [OF below_same(5) [OF b]] by (simp add: mapped_def)
  then show "mapped d = mapped dev" by (simp add: fun_eq_iff)
  show "vol_inv d" "contents d = contents dev"
    using below_kept [OF inv b so] v(1) vol_inv_file [OF inv] m file_ok_sizes [OF below_same(5) [OF b]] by simp_all
qed

lemma stats_kept:
  assumes inv: "vol_inv dev"
  shows "vol_inv (upd_stats dev h) \<and> contents (upd_stats dev h) = contents dev \<and> calm 0 dev (upd_stats dev h) \<and>
    mapped (upd_stats dev h) = mapped dev"
proof -
  let ?d = "upd_stats dev h"
  have b: "below ?d = below dev" by simp
  have ob: "objs ?d = objs dev" "same_objects dev ?d" "wr_fuel ?d = wr_fuel dev \<and> gc_chunk ?d = gc_chunk dev \<and> gc_block ?d = gc_block dev" by (simp_all add: upd_stats_def same_objects_def)
  have m: "mapped ?d c j = mapped dev c j" for c j
    using mapped_same [OF below_same(5) [OF b], of c j] ob(1) by simp
  then show ?thesis
    using below_kept [OF inv b ob(2)] vol_inv_file [OF inv] file_ok_sizes [OF below_same(5) [OF b]] ob
      calm_below [OF b ob(2,3) vol_inv_ready [OF inv]] by (simp add: fun_eq_iff)
qed

definition kept :: "nat \<Rightarrow> ('n, 'x) yaffs_vol_scheme \<Rightarrow> ('n, 'x) yaffs_vol_scheme \<Rightarrow> bool" where
  "kept k dev d \<longleftrightarrow> vol_inv d \<and> contents d = contents dev \<and> calm k dev d"

lemma kept_trans: "kept j a b \<Longrightarrow> kept k b c \<Longrightarrow> kept (j + k) a c"
  using calm_trans by (auto simp: kept_def)

lemma kept_mono: "kept j dev d \<Longrightarrow> j \<le> k \<Longrightarrow> kept k dev d"
  using calm_mono by (auto simp: kept_def)

lemma kept_refl: "vol_inv dev \<Longrightarrow> kept k dev dev"
  by (simp add: kept_def calm_refl vol_inv_ready)

lemma delete_unnamed:
  fixes dev :: "('n, 'x) yaffs_vol_scheme"
  assumes inv: "vol_inv dev" and x: "in_use dev x" "unnamed dev x"
  shows "kept 0 dev (yaffs_chunk_del dev x m)"
proof -
  note ds = del_step [OF vol_inv_ready [OF inv] x(1), of m]
  show ?thesis using evolves_kept [OF inv ds(1)] ds(2) x(2) by (simp add: kept_def)
qed

lemma write_fails:
  fixes dev :: "('n, 'x) yaffs_vol_scheme"
  assumes inv: "vol_inv dev" and room: "seq_room (wr_fuel dev) dev" and plain: "plain_tags tags"
    and len: "total_bytes_per_chunk (param dev) \<le> length data"
    and w: "write_new dev data tags ur = (x, d)" and x: "x < 0"
  shows "kept (wr_fuel dev) dev d"
proof -
  note ws = write_step [OF vol_inv_ready [OF inv] room plain len w]
  show ?thesis using evolves_kept [OF inv ws(1)] ws(2) x by (simp add: kept_def)
qed

text \<open>A header is moved.\<close>

lemma header_moved:
  fixes dev :: "('n, 'x) yaffs_vol_scheme"
  assumes inv: "vol_inv dev" and old: "in_use dev old" "chunk_id (tags_at dev old) = 0"
    and room: "seq_room (wr_fuel dev) dev" and plain: "plain_tags tags"
    and len: "total_bytes_per_chunk (param dev) \<le> length data" and t0: "chunk_id tags = 0"
    and w: "write_new dev data tags ur = (x, d1)" and x: "\<not> x < 0"
  shows "kept (wr_fuel dev) dev (yaffs_chunk_del (upd_core d1 a (\<lambda>ob. ob\<lparr>hdr_chunk := x, serial := s\<rparr>)) old m)"
proof -
  let ?d2 = "upd_core d1 a (\<lambda>ob. ob\<lparr>hdr_chunk := x, serial := s\<rparr>)"
  note ws = write_step [OF vol_inv_ready [OF inv] room plain len w]
  have u: "in_use d1 y \<longleftrightarrow> in_use dev y \<or> y = x" "\<not> in_use dev x" "chunk_id (tags_at d1 x) = 0" for y
    using ws(2) x t0 by (auto split: if_splits)
  have k1: "kept (wr_fuel dev) dev d1"
    using evolves_kept [OF inv ws(1)] u by (auto simp: kept_def unnamed_def)
  have i1: "vol_inv d1" using k1 by (simp add: kept_def)
  have ck: "vol_inv ?d2" "contents ?d2 = contents d1" "same_objects d1 ?d2" "below ?d2 = below d1"
    using below_core_kept [OF i1 refl, of a "\<lambda>ob. ob\<lparr>hdr_chunk := x, serial := s\<rparr>"] by simp_all
  have "wr_fuel ?d2 = wr_fuel d1 \<and> gc_chunk ?d2 = gc_chunk d1 \<and> gc_block ?d2 = gc_block d1" by (simp add: upd_core_def upd_node_def)
  then have k2: "kept 0 d1 ?d2" using ck calm_below [OF ck(4,3) _ vol_inv_ready [OF i1]] by (simp add: kept_def)
  note s2 = below_same [OF ck(4)]
  have "in_use ?d2 old" using u(1) s2(1) old(1) by simp
  moreover have "chunk_id (tags_at ?d2 old) = 0"
    using old u(1) s2(2) ws(1) by (simp add: evolves_def)
  ultimately have "kept 0 ?d2 (yaffs_chunk_del ?d2 old m)" by (intro delete_unnamed [OF ck(1)]) (simp_all add: unnamed_def)
  from kept_trans [OF kept_trans [OF k1 k2] this] show ?thesis by simp
qed

lemma process_chunk_kept:
  fixes dev :: "('n, 'x) yaffs_vol_scheme"
  assumes inv: "vol_inv dev" and old: "in_use dev old" and room: "seq_room (wr_fuel dev) dev"
    and p: "yaffs_gc_process_chunk dev block old = (r, d)"
  shows "kept (wr_fuel dev) dev d"
proof -
  obtain res buffer tags d0 where rd: "yaffs_rd_chunk_tags_nand dev old True = (res, buffer, tags, d0)"
    by (metis prod_cases4)
  note rs = rd_step [OF vol_inv_ready [OF inv] rd]
  have use0: "in_use d0 y \<longleftrightarrow> in_use dev y" for y
    using rs(1,2) dev_configD(1) [of d0 dev] by (simp add: in_use_used evolves_def del: in_used)
  have tags: "tags = tags_at d0 old" "take (data_bytes_per_chunk dev) buffer = data_at d0 old" "OH_SIZE \<le> length buffer"
    "total_bytes_per_chunk (param dev) \<le> length buffer" "plain_tags tags"
    using rs(3) rs(1) old use0 unfolding evolves_def by metis+
  have k0: "kept 0 dev d0" using evolves_kept [OF inv rs(1)] use0 by (simp add: kept_def)
  have i0: "vol_inv d0" and old0: "in_use d0 old" and fuel: "wr_fuel d0 = wr_fuel dev" and cfg: "dev_config d0 = dev_config dev"
    using k0 use0 old by (simp_all add: kept_def calm_def)
  have room0: "seq_room (wr_fuel d0) d0" using calm_room [of 0 "wr_fuel dev" dev d0] k0 room fuel by (simp add: kept_def)
  show ?thesis
  proof (cases "yaffs_find_by_number d0 (obj_id tags)")
    case None
    have "d = yaffs_chunk_del d0 old True" using p rd None by (simp add: yaffs_gc_process_chunk_def)
    moreover have "kept 0 d0 (yaffs_chunk_del d0 old True)"
      by (rule delete_unnamed [OF i0 old0]) (use None tags in \<open>simp add: unnamed_def\<close>)
    ultimately show ?thesis using kept_mono [OF kept_trans [OF k0]] by simp
  next
    case (Some a)
    let ?k = "chunk_id tags" and ?d0 = "upd_stats d0 (\<lambda>s. s\<lparr>n_gc_copies := n_gc_copies s + 1\<rparr>)"
    have lf0: "live_file d0 a \<and> mapped d0 a ?k = old" if "?k \<noteq> 0"
    proof -
      have "((a, ?k), old) \<in> flash_index d0" using that Some old0 tags(1) by (simp add: flash_index_def)
      then show ?thesis using i0 by (simp add: vol_inv_def index_ok_def tree_index_def)
    qed
    have seen: "snd (snd (yaffs_find_chunk_in_file d0 (obj_at d0 a) (sint ?k) t)) = d0" if "?k \<noteq> 0" for t
      using find_chunk [OF i0] lf0 [OF that] by simp
    have "\<not> soft_del (obj_at d0 a)" using i0 Some by (simp add: vol_inv_def index_ok_def del: split_paired_All)
    then have nd: "\<not> gc_discards (obj_at d0 a) tags" by (simp add: gc_discards_def)
    obtain r1 d3 where cp: "gc_copy_chunk d0 a buffer tags = (r1, d3)" by fastforce
    have d: "d = (if r1 = YAFFS_OK then yaffs_chunk_del d3 old True else d3)"
      using p rd Some seen nd cp by (auto simp: yaffs_gc_process_chunk_def Let_def split: if_splits)
    have k1: "kept 0 d0 ?d0" using stats_kept [OF i0] by (simp add: kept_def)
    have i1: "vol_inv ?d0" and room1: "seq_room (wr_fuel ?d0) ?d0" and fuel1: "wr_fuel ?d0 = wr_fuel dev"
      using k1 room0 fuel by (simp_all add: kept_def seq_room_def upd_stats_def)
    have b1: "below ?d0 = below d0" by simp
    note s1 = below_same [OF b1]
    have cfg1: "param ?d0 = param dev" "data_bytes_per_chunk ?d0 = data_bytes_per_chunk dev"
      using dev_configD(8) [OF cfg] rs(1) by (simp_all add: upd_stats_def evolves_def rest_of_def)
    have kept3: "kept (wr_fuel dev) dev d" if "kept (wr_fuel ?d0) ?d0 d"
      using kept_trans [OF kept_trans [OF k0 k1] that] fuel1 by simp
    let ?t = "tags\<lparr>serial_number := serial_number tags + 1\<rparr>"
    obtain hb ht where gh: "gc_header ?d0 (obj_at ?d0 a) buffer ?t = (hb, ht)" by fastforce
    define buffer' tags' where new: "buffer' = (if ?k = 0 then hb else buffer)" "tags' = (if ?k = 0 then ht else ?t)"
    have h: "length buffer' = length buffer" "obj_id tags' = obj_id tags" "chunk_id tags' = ?k" "plain_tags tags'"
      "?k \<noteq> 0 \<Longrightarrow> buffer' = buffer"
      using gc_header_spec [OF gh tags(3) plain_copies [OF tags(5)]] plain_copies [OF tags(5)] by (simp_all add: new)
    have len: "total_bytes_per_chunk (param ?d0) \<le> length buffer'" using h(1) tags(4) cfg1 by simp
    obtain x d1 where w: "write_new ?d0 buffer' tags' True = (x, d1)" by fastforce
    have copy: "gc_copy_chunk d0 a buffer tags =
      (if x < 0 then (YAFFS_FAIL, d1)
       else if ?k = 0 then (YAFFS_OK, upd_core d1 a (\<lambda>ob. ob\<lparr>hdr_chunk := x, serial := ucast (serial_number tags')\<rparr>))
       else (YAFFS_OK, snd (put_chunk_at d1 a (sint ?k) x)))"
      using gh w h(3) by (simp add: gc_copy_chunk_def Let_def new split: if_splits)
    show ?thesis
    proof (cases "x < 0")
      case True
      then show ?thesis using kept3 write_fails [OF i1 room1 h(4) len w] copy cp d by simp
    next
      case no: False
      show ?thesis
      proof (cases "?k = 0")
        case True
        have "kept (wr_fuel ?d0) ?d0 (yaffs_chunk_del (upd_core d1 a (\<lambda>ob. ob\<lparr>hdr_chunk := x, serial := ucast (serial_number tags')\<rparr>)) old True)"
          by (rule header_moved [OF i1 _ _ room1 h(4) len _ w no]) (use s1(1,2) old0 True tags(1) h(3) in simp_all)
        then show ?thesis using kept3 copy cp d True no by simp
      next
        case False
        obtain r2 d2 where put: "put_chunk_at d1 a (sint ?k) x = (r2, d2)" by fastforce
        have sel: "d = yaffs_chunk_del d2 old True" using d cp copy no False put by simp
        have ob: "objs ?d0 = objs d0" "mapped ?d0 = mapped d0" "same_objects d0 ?d0"
          using stats_kept [OF i0] by (simp_all add: upd_stats_def same_objects_def)
        have lf: "live_file ?d0 a" using same_live [OF ob(3)] lf0 [OF False] by simp
        have m: "mapped ?d0 a ?k = old" using ob(2) lf0 [OF False] by simp
        have on: "old \<noteq> 0" using in_use_valid(2) [OF vol_inv_ready [OF i0] old0] by simp
        have path: "yaffs_find_tnode_0 (file_variant (obj_at ?d0 a)) ?k \<noteq> None"
          by (rule mapped_node) (use m on in simp)
        have id: "id_of ?d0 a = obj_id tags" using found_number [OF Some] ob(1) by simp
        note we = write_enter [where i = "sint ?k" and d = d and m = True, OF i1 lf _ False path room1 h(4) len _ h(3) w no put]
        have c: "contents ?d0 (a, ?k) = Some (data_at d0 old)" using lf m on s1(3) by (simp add: contents_def)
        have res: "vol_inv d \<and> contents d = (contents ?d0)((a, ?k) \<mapsto> take (data_bytes_per_chunk ?d0) buffer') \<and>
            calm (wr_fuel ?d0) ?d0 d"
          using we id h(2) m on sel by simp
        moreover have "take (data_bytes_per_chunk ?d0) buffer' = data_at d0 old" using tags(2) h(5) [OF False] cfg1 by simp
        ultimately have "kept (wr_fuel ?d0) ?d0 d" using c by (simp add: kept_def fun_upd_idem)
        then show ?thesis by (rule kept3)
      qed
    qed
  qed
qed

section \<open>Collecting a block\<close>

lemma below_objs_kept:
  fixes d dev :: "('n, 'x) yaffs_vol_scheme"
  assumes inv: "vol_inv dev" and b: "below d = below dev" and ob: "objs d = objs dev" "obj_bucket d = obj_bucket dev"
  shows "vol_inv d \<and> contents d = contents dev"
proof -
  note sz = below_same(5) [OF b]
  have "same_objects dev d" using ob by (simp add: same_objects_def)
  then show ?thesis
    using below_kept [OF inv b] vol_inv_file [OF inv] file_ok_sizes [OF sz] mapped_same [OF sz] ob(1) by simp
qed

lemma block_kept:
  fixes dev :: "('n, 'x) yaffs_vol_scheme"
  assumes inv: "vol_inv dev" and f: "mild f" and i: "inv_except {} 0 (upd_block_info dev b f)"
  shows "kept 0 dev (upd_block_info dev b f)"
proof -
  let ?d = "upd_block_info dev b f"
  note ready = vol_inv_ready [OF inv]
  have live: "live_ready dev" using ready by (simp add: vol_ready_def)
  have "alloc_ready ?d" by (rule alloc_ready_same [OF i, of dev]) (use live in \<open>simp_all add: live_ready_def\<close>)
  moreover have "flash_ok ?d" using live flash_ok_config [of ?d dev] by (simp add: live_ready_def)
  ultimately have l: "live_ready ?d" by (simp add: live_ready_def)
  have k: "keeps {} dev ?d" by (rule keeps_same) (simp_all add: upd_block_info_def dev_config_def)
  have "evolves 0 dev ?d" by (rule evolvesI [OF ready l _ k]) (use f in simp_all)
  then show ?thesis using evolves_kept [OF inv, of 0 ?d] dev_configD(1) [of ?d dev]
    by (simp add: kept_def in_use_def)
qed

lemma state_kept:
  fixes dev :: "('n, 'x) yaffs_vol_scheme"
  assumes inv: "vol_inv dev" and b: "b \<in> blocks_of dev" and s: "s \<in> {YAFFS_BLOCK_STATE_FULL, YAFFS_BLOCK_STATE_COLLECTING}"
    and st: "block_state (yaffs_get_block_info dev b) \<in> {YAFFS_BLOCK_STATE_FULL, YAFFS_BLOCK_STATE_COLLECTING}"
  shows "kept 0 dev (upd_block_info dev b (\<lambda>bi. bi\<lparr>block_state := s\<rparr>))"
proof (rule block_kept [OF inv])
  let ?f = "\<lambda>bi. bi\<lparr>block_state := s\<rparr>"
  note i = vol_inv_except [OF vol_inv_ready [OF inv]]
  show "mild ?f" by (simp add: mild_def)
  have na: "b \<noteq> alloc_block dev" using inv_block(3,6) [OF i b] st by (auto simp: alloc_ok_def)
  have "inv_except {} 0 ((upd_block_info dev b ?f)\<lparr>n_erased_blocks := n_erased_blocks dev, n_free_chunks := n_free_chunks dev\<rparr>)"
    by (rule inv_set_block [OF i b])
      (use inv_block(1) [OF i b] st s na in \<open>auto simp: view3_def block_free_chunks_def block_ok_def\<close>)
  then show "inv_except {} 0 (upd_block_info dev b ?f)" by (simp add: update_counters_same)
qed

lemma flag_kept:
  fixes dev :: "('n, 'x) yaffs_vol_scheme"
  assumes inv: "vol_inv dev"
  shows "kept 0 dev (upd_block_info dev b (\<lambda>bi. bi\<lparr>has_shrink_hdr := h\<rparr>))"
proof (rule block_kept [OF inv])
  let ?f = "\<lambda>bi. bi\<lparr>has_shrink_hdr := h\<rparr>"
  show "mild ?f" by (simp add: mild_def)
  show "inv_except {} 0 (upd_block_info dev b ?f)"
    by (rule unseen_inv [OF unseen_upd_block vol_inv_except [OF vol_inv_ready [OF inv]]]) (simp add: view3_def)
qed

lemma dirty_kept:
  fixes dev :: "('n, 'x) yaffs_vol_scheme"
  assumes inv: "vol_inv dev" and b: "b \<in> blocks_of dev" and none: "chunks_in_use dev b = {}"
    and st: "block_state (yaffs_get_block_info dev b) \<in> {YAFFS_BLOCK_STATE_FULL, YAFFS_BLOCK_STATE_COLLECTING}"
  shows "kept 0 dev (yaffs_block_became_dirty dev b)"
proof -
  let ?d = "yaffs_block_became_dirty dev b"
  note ready = vol_inv_ready [OF inv]
  note i = vol_inv_except [OF ready]
  have zero: "pages_in_use (yaffs_get_block_info dev b) = 0" using block_ok_pages(1) [of dev b] inv_block(1) [OF i b] none by simp
  have live: "live_ready dev" using ready by (simp add: vol_ready_def)
  then have ok: "flash_ok dev" by (simp add: live_ready_def)
  note k = keeps_became_dirty [OF i b st zero ok, of "{}"] and u = used_became_dirty [OF i b st zero]
  have "inv_except {} 0 ?d" using inv_became_dirty [OF i b st zero] by simp
  from alloc_ready_same [OF this keeps_config [OF k]] have "alloc_ready ?d" using live by (simp add: live_ready_def)
  then have l: "live_ready ?d" using ok flash_ok_config [OF keeps_config [OF k]] by (simp add: live_ready_def)
  have "evolves 0 dev ?d" by (rule evolvesI [OF ready l _ k]) auto
  moreover have "in_use ?d y = in_use dev y" for y
    using u dev_configD(1) [OF keeps_config [OF k]] by (simp add: in_use_used del: in_used)
  ultimately show ?thesis using evolves_kept [OF inv, of 0 ?d] by (simp add: kept_def)
qed

lemma kept_config: "kept k dev d \<Longrightarrow> dev_config d = dev_config dev"
  by (simp add: kept_def calm_def)

lemma kept_inv: "kept k dev d \<Longrightarrow> vol_inv d"
  by (simp add: kept_def)

lemma kept_room: "seq_room (k + m) dev \<Longrightarrow> kept k dev d \<Longrightarrow> seq_room m d"
  using calm_room by (auto simp: kept_def)

lemma kept_state: "kept k dev d \<Longrightarrow> gc_chunk d = gc_chunk dev \<and> wr_fuel d = wr_fuel dev"
  by (simp add: kept_def calm_def)

text \<open>What a collection as a whole keeps: all but the place where the next turn goes on.\<close>

definition swept :: "nat \<Rightarrow> ('n, 'x) yaffs_vol_scheme \<Rightarrow> ('n, 'x) yaffs_vol_scheme \<Rightarrow> bool" where
  "swept k dev d \<longleftrightarrow> vol_inv d \<and> contents d = contents dev \<and> dev_config d = dev_config dev \<and> same_objects dev d \<and>
     wr_fuel d = wr_fuel dev \<and> (0 \<le> gc_chunk dev \<longrightarrow> 0 \<le> gc_chunk d) \<and>
     (\<exists>j \<le> k. dev_seq_number d = dev_seq_number dev + word_of_nat j)"

lemma swept_trans:
  assumes "swept j a b" "swept k b c" shows "swept (j + k) a c"
proof -
  obtain i i' where i: "i \<le> j" "dev_seq_number b = dev_seq_number a + word_of_nat i"
      "i' \<le> k" "dev_seq_number c = dev_seq_number b + word_of_nat i'"
    using assms by (auto simp: swept_def)
  then have "i + i' \<le> j + k" "dev_seq_number c = dev_seq_number a + word_of_nat (i + i')" by simp_all
  then have "\<exists>i \<le> j + k. dev_seq_number c = dev_seq_number a + word_of_nat i" by blast
  moreover have "same_objects a c" using assms same_objects_trans by (auto simp: swept_def)
  ultimately show ?thesis using assms by (simp add: swept_def)
qed

lemma swept_mono: "swept j dev d \<Longrightarrow> j \<le> k \<Longrightarrow> swept k dev d"
  unfolding swept_def by (meson le_trans)

lemma swept_refl: "vol_inv dev \<Longrightarrow> swept k dev dev"
  by (auto simp: swept_def intro: exI [of _ 0])

lemma kept_swept: "kept k dev d \<Longrightarrow> swept k dev d \<and> (gc_block d = gc_block dev \<or> gc_block d = 0)"
  by (simp add: kept_def calm_def swept_def)

lemma swept_below:
  assumes inv: "vol_inv dev" and b: "below d = below dev" and o: "objs d = objs dev" "obj_bucket d = obj_bucket dev"
    and w: "wr_fuel d = wr_fuel dev" "0 \<le> gc_chunk dev \<longrightarrow> 0 \<le> gc_chunk d"
  shows "swept k dev d"
proof -
  have "dev_seq_number d = dev_seq_number dev + word_of_nat 0" using b by (simp add: below_def)
  then have "\<exists>j \<le> k. dev_seq_number d = dev_seq_number dev + word_of_nat j" by blast
  moreover have "same_objects dev d" using o by (simp add: same_objects_def)
  ultimately show ?thesis using below_objs_kept [OF inv b o] below_same(4) [OF b] w by (simp add: swept_def)
qed

lemma swept_room: "seq_room (k + m) dev \<Longrightarrow> swept k dev d \<Longrightarrow> seq_room m d"
proof -
  assume r: "seq_room (k + m) dev" and "swept k dev d"
  then obtain j where j: "j \<le> k" "dev_seq_number d = dev_seq_number dev + word_of_nat j" by (auto simp: swept_def)
  have "unat (dev_seq_number d) \<le> unat (dev_seq_number dev) + unat (word_of_nat j :: u32)"
    unfolding j(2) unat_word_ariths(1) by (rule mod_less_eq_dividend)
  moreover have "unat (word_of_nat j :: u32) \<le> j" by (simp add: unat_of_nat)
  ultimately show ?thesis using r j(1) by (simp add: seq_room_def)
qed

lemma copy_loop_kept:
  fixes dev :: "('n, 'x) yaffs_vol_scheme"
  shows "\<lbrakk>gc_copy_loop k b copies old rv dev = (r, d); vol_inv dev; b \<in> blocks_of dev; 0 \<le> gc_chunk dev;
    old = b * cpb dev + gc_chunk dev; seq_room (k * wr_fuel dev) dev\<rbrakk> \<Longrightarrow>
    swept (k * wr_fuel dev) dev d \<and> (gc_block d = gc_block dev \<or> gc_block d = 0)"
proof (induction k arbitrary: copies old rv dev)
  case (Suc k)
  let ?go = "rv = YAFFS_OK \<and> gc_chunk dev < cpb dev \<and>
    block_state (yaffs_get_block_info dev b) = YAFFS_BLOCK_STATE_COLLECTING \<and> copies > 0"
  show ?case
  proof (cases ?go)
    case True
    note pos = cpb_pos [OF vol_inv_ready [OF Suc.prems(2)]]
    have room: "seq_room (wr_fuel dev + k * wr_fuel dev) dev" using Suc.prems(6) by simp
    obtain c r1 d1 where turn: "(if yaffs_check_chunk_bit dev b (gc_chunk dev)
        then (let (r, d) = yaffs_gc_process_chunk dev b old in (copies - 1, r, d)) else (copies, rv, dev)) = (c, r1, d1)"
      by (metis prod_cases3)
    have k1: "kept (wr_fuel dev) dev d1"
    proof (cases "yaffs_check_chunk_bit dev b (gc_chunk dev)")
      case yes: True
      have div: "old div cpb dev = b" "old mod cpb dev = gc_chunk dev"
        using Suc.prems(4,5) True pos by (simp_all add: div_pos_pos_trivial mod_pos_pos_trivial)
      have "valid_chunk dev b (gc_chunk dev)"
        using Suc.prems(3,4) True by (simp add: valid_chunk_def blocks_of_def)
      then have u: "in_use dev old" using yes div by (simp add: in_use_def chunks_in_use_def)
      obtain r2 d2 where p: "yaffs_gc_process_chunk dev b old = (r2, d2)" by fastforce
      have "kept (wr_fuel dev) dev d2"
        by (rule process_chunk_kept [OF Suc.prems(2) u seq_room_less [OF room] p]) simp
      then show ?thesis using turn yes p by simp
    next
      case False
      then show ?thesis using turn kept_refl [OF Suc.prems(2)] by simp
    qed
    let ?d = "d1\<lparr>gc_chunk := gc_chunk d1 + 1\<rparr>"
    note s1 = kept_state [OF k1] and c1 = kept_config [OF k1]
    have b: "below ?d = below d1" by simp
    have k2: "swept (wr_fuel dev) dev ?d"
      using swept_trans [OF conjunct1 [OF kept_swept [OF k1]] swept_below [OF kept_inv [OF k1] b, of 0]] s1 Suc.prems(4) by simp
    have cd: "dev_config ?d = dev_config dev" using below_same(4) [OF b] c1 by simp
    have loop: "gc_copy_loop k b c (old + 1) r1 ?d = (r, d)"
    proof (cases "yaffs_check_chunk_bit dev b (gc_chunk dev)")
      case yes: True
      obtain r2 d2 where p: "yaffs_gc_process_chunk dev b old = (r2, d2)" by fastforce
      have "c = copies - 1" "r1 = r2" "d1 = d2" using turn yes p by simp_all
      then show ?thesis using Suc.prems(1) True yes p by simp
    next
      case False
      then have "c = copies" "r1 = rv" "d1 = dev" using turn by simp_all
      then show ?thesis using Suc.prems(1) True False by simp
    qed
    have "b \<in> blocks_of ?d" using Suc.prems(3) blocks_of_config [OF cd] by simp
    moreover have "seq_room (k * wr_fuel ?d) ?d"
      using kept_room [OF room k1] s1 below_same(7) [OF b] by simp
    moreover have i2: "vol_inv ?d" "wr_fuel ?d = wr_fuel dev" using k2 by (simp_all add: swept_def)
    ultimately have "swept (k * wr_fuel ?d) ?d d \<and> (gc_block d = gc_block ?d \<or> gc_block d = 0)"
      using Suc.prems(4,5) s1 dev_configD(1) [OF cd] by (intro Suc.IH [OF loop]) simp_all
    then show ?thesis using swept_trans [OF k2, of "k * wr_fuel dev" d] i2(2) kept_swept [OF k1] by auto
  next
    case False
    then show ?thesis using Suc.prems(1,2) swept_refl by auto
  qed
qed (simp add: swept_refl)

lemma gc_finish_kept:
  fixes dev :: "('n, 'x) yaffs_vol_scheme"
  assumes inv: "vol_inv dev" and b: "b \<in> blocks_of dev"
  shows "swept 0 dev (gc_finish dev b)"
    "if block_state (yaffs_get_block_info dev b) = YAFFS_BLOCK_STATE_COLLECTING
     then gc_block (gc_finish dev b) = gc_block dev \<and>
       block_state (yaffs_get_block_info (gc_finish dev b) b) = YAFFS_BLOCK_STATE_FULL
     else gc_block (gc_finish dev b) = 0"
proof -
  let ?c = "block_state (yaffs_get_block_info dev b) = YAFFS_BLOCK_STATE_COLLECTING"
  let ?u = "upd_block_info dev b (\<lambda>bi. bi\<lparr>block_state := YAFFS_BLOCK_STATE_FULL\<rparr>)"
  let ?d = "if ?c then ?u else dev\<lparr>gc_block := 0, gc_chunk := 0\<rparr>"
  have nc: "n_clean_ups dev = 0" using vol_inv_ready [OF inv] by (simp add: vol_ready_def)
  have eq: "gc_finish dev b = ?d\<lparr>gc_disable := False\<rparr>"
    using nc by (simp add: gc_finish_def Let_def)
  have g: "geometry_ok dev" by (rule geometry_of [OF vol_inv_ready [OF inv]])
  have d: "swept 0 dev ?d"
  proof (cases ?c)
    case True
    then show ?thesis using kept_swept [OF state_kept [OF inv b, of YAFFS_BLOCK_STATE_FULL]] by simp
  next
    case False
    have e: "below (dev\<lparr>gc_block := 0, gc_chunk := 0\<rparr>) = below dev" by simp
    then show ?thesis using False swept_below [OF inv e] by simp
  qed
  have b': "below (?d\<lparr>gc_disable := False\<rparr>) = below ?d" by simp
  have "swept 0 ?d (?d\<lparr>gc_disable := False\<rparr>)" by (rule swept_below [OF _ b']) (use d in \<open>simp_all add: swept_def\<close>)
  then show "swept 0 dev (gc_finish dev b)" unfolding eq using swept_trans [OF d] by fastforce
  have "yaffs_get_block_info (?u\<lparr>gc_disable := False\<rparr>) b = yaffs_get_block_info ?u b" by (simp add: yaffs_get_block_info_def)
  then show "if ?c then gc_block (gc_finish dev b) = gc_block dev \<and>
       block_state (yaffs_get_block_info (gc_finish dev b) b) = YAFFS_BLOCK_STATE_FULL
     else gc_block (gc_finish dev b) = 0"
    unfolding eq using get_upd [OF g b b] by (simp add: upd_block_info_def)
qed

lemma gc_prepare_kept:
  fixes dev :: "('n, 'x) yaffs_vol_scheme"
  assumes inv: "vol_inv dev" and b: "b \<in> blocks_of dev"
    and st: "block_state (yaffs_get_block_info dev b) = YAFFS_BLOCK_STATE_FULL"
  shows "kept 0 dev (gc_prepare dev b) \<and>
    block_state (yaffs_get_block_info (gc_prepare dev b) b) = YAFFS_BLOCK_STATE_COLLECTING"
proof -
  let ?d1 = "upd_block_info dev b (\<lambda>bi. bi\<lparr>block_state := YAFFS_BLOCK_STATE_COLLECTING\<rparr>)"
  let ?d2 = "upd_block_info ?d1 b (\<lambda>bi. bi\<lparr>has_shrink_hdr := False\<rparr>)"
  let ?d3 = "?d2\<lparr>gc_disable := True\<rparr>"
  have k1: "kept 0 dev ?d1" by (rule state_kept [OF inv b]) (use st in simp_all)
  have k2: "kept 0 ?d1 ?d2" by (rule flag_kept [OF kept_inv [OF k1]])
  have b3: "below ?d3 = below ?d2" by simp
  have so: "same_objects ?d2 ?d3" by (simp add: same_objects_def)
  have "vol_inv ?d3 \<and> contents ?d3 = contents ?d2" by (rule below_objs_kept [OF kept_inv [OF k2] b3]) simp_all
  moreover have "calm 0 ?d2 ?d3" by (rule calm_below [OF b3 so _ vol_inv_ready [OF kept_inv [OF k2]]]) simp
  ultimately have k3: "kept 0 ?d2 ?d3" by (simp add: kept_def)
  have k: "kept 0 dev ?d3" using kept_trans [OF kept_trans [OF k1 k2] k3] by simp
  have g: "geometry_ok ?d1" "geometry_ok dev" using geometry_of vol_inv_ready kept_inv [OF k1] inv by blast+
  have b1: "b \<in> blocks_of ?d1" using b by simp
  have st3: "block_state (yaffs_get_block_info ?d3 b) = YAFFS_BLOCK_STATE_COLLECTING"
  proof -
    have "yaffs_get_block_info ?d3 b = yaffs_get_block_info ?d2 b" by (simp add: yaffs_get_block_info_def)
    then show ?thesis using get_upd [OF g(1) b1 b1] get_upd [OF g(2) b b] by simp
  qed
  have r3: "vol_ready ?d3" using vol_inv_ready [OF kept_inv [OF k]] .
  have b3': "b \<in> blocks_of ?d3" using b blocks_of_config [OF kept_config [OF k]] by simp
  have "nat (b - internal_start_block ?d3) < length (block_info ?d3)"
    using geometry_of [OF r3] b3' by (auto simp: geometry_ok_def blocks_of_def)
  then have "yaffs_get_block_info ?d3 b \<in> set (block_info ?d3)" by (simp add: yaffs_get_block_info_def)
  then have "\<not> has_summary (yaffs_get_block_info ?d3 b)" using r3 by (simp add: vol_ready_def no_summary_def)
  then have "gc_prepare dev b = ?d3" using st by (simp add: gc_prepare_def yaffs_summary_gc_def Let_def)
  then show ?thesis using k st3 by simp
qed

text \<open>The collection of a full block: the contents stay, and the block to go on with is given up, or
  stays and is full again.\<close>

lemma gc_block_swept:
  fixes dev :: "('n, 'x) yaffs_vol_scheme"
  assumes "vol_inv dev" "block \<in> blocks_of dev" "block_state (yaffs_get_block_info dev block) = YAFFS_BLOCK_STATE_FULL"
    and "0 \<le> gc_chunk dev" "seq_room (nat (cpb dev) * wr_fuel dev) dev"
    and "yaffs_gc_block dev block whole = (r, d)"
  shows "swept (nat (cpb dev) * wr_fuel dev) dev d"
    "gc_block d = 0 \<or> gc_block d = gc_block dev \<and> block_state (yaffs_get_block_info d block) = YAFFS_BLOCK_STATE_FULL"
proof -
  let ?p = "gc_prepare dev block"
  note p = conjunct1 [OF gc_prepare_kept [OF assms(1-3)]] and st = conjunct2 [OF gc_prepare_kept [OF assms(1-3)]]
  note ip = kept_inv [OF p] and cp = kept_config [OF p] and sp = kept_state [OF p]
  have bp: "block \<in> blocks_of ?p" using assms(2) blocks_of_config [OF cp] by simp
  obtain rv d1 where run: "(if \<not> yaffs_still_some_chunks ?p block then (YAFFS_OK, yaffs_block_became_dirty ?p block)
      else gc_copy_loop (nat (cpb ?p - gc_chunk ?p)) block (if whole then cpb ?p else 5)
        (block * cpb ?p + gc_chunk ?p) YAFFS_OK ?p) = (rv, d1)" by fastforce
  have d: "d = gc_finish d1 block" using assms(6) assms(3) run by (simp add: yaffs_gc_block_def Let_def)
  let ?n = "nat (cpb dev) * wr_fuel dev"
  have s1: "swept ?n ?p d1 \<and> (gc_block d1 = gc_block ?p \<or> gc_block d1 = 0)"
  proof (cases "yaffs_still_some_chunks ?p block")
    case True
    have "nat (cpb ?p - gc_chunk ?p) \<le> nat (cpb dev)" using dev_configD(1) [OF cp] sp assms(4) by simp
    then have le: "nat (cpb ?p - gc_chunk ?p) * wr_fuel ?p \<le> ?n" using sp by simp
    then have room: "seq_room (nat (cpb ?p - gc_chunk ?p) * wr_fuel ?p) ?p"
      using kept_room [of 0 "nat (cpb dev) * wr_fuel dev" dev ?p] p assms(5) by (auto intro: seq_room_less)
    have "swept (nat (cpb ?p - gc_chunk ?p) * wr_fuel ?p) ?p d1 \<and> (gc_block d1 = gc_block ?p \<or> gc_block d1 = 0)"
      using True run assms(4) sp room by (intro copy_loop_kept [OF _ ip bp]) simp_all
    then show ?thesis using swept_mono [OF _ le] by blast
  next
    case False
    have "bitmap_ok ?p" using vol_inv_except [OF vol_inv_ready [OF ip]] by (simp add: inv_except_def)
    then have "chunks_in_use ?p block = {}"
      using False still_some_chunks_ex [of ?p block] bp by (auto simp: chunks_in_use_def valid_blocks_of)
    then have "kept 0 ?p d1" using False run dirty_kept [OF ip bp _] st by auto
    then show ?thesis using kept_swept swept_mono by blast
  qed
  then have i1: "vol_inv d1" "block \<in> blocks_of d1" using bp blocks_of_config [of d1 ?p] by (simp_all add: swept_def)
  note f = gc_finish_kept [OF i1]
  note kp = kept_swept [OF p]
  show "swept ?n dev d" using swept_trans [OF swept_trans [OF conjunct1 [OF kp] conjunct1 [OF s1]] f(1)] d by simp
  show "gc_block d = 0 \<or> gc_block d = gc_block dev \<and> block_state (yaffs_get_block_info d block) = YAFFS_BLOCK_STATE_FULL"
    using f(2) d kp s1 by (auto split: if_splits)
qed



text \<open>C1: Garbage collection is invisible. Collecting a full block, whole or a few chunks at a time, from
  wherever the last turn left off, leaves the contents of every file as they were and the volume
  consistent: the trees are still the index of the flash. This is so also when a write fails on the way
  and the collection is given up. Room for sequence numbers is needed for a block per attempted write.\<close>

theorem gc_block_keeps_contents:
  fixes dev :: "('n, 'x) yaffs_vol_scheme"
  assumes "vol_inv dev" "block \<in> blocks_of dev" "block_state (yaffs_get_block_info dev block) = YAFFS_BLOCK_STATE_FULL"
    and "0 \<le> gc_chunk dev" "seq_room (nat (cpb dev) * wr_fuel dev) dev"
    and "yaffs_gc_block dev block whole = (r, d)"
  shows "vol_inv d \<and> contents d = contents dev"
  using gc_block_swept(1) [OF assms] by (simp add: swept_def)

section \<open>Collecting when it is due\<close>

lemma chosen_swept:
  fixes dev :: "('n, 'x) yaffs_vol_scheme"
  assumes inv: "vol_inv dev" and c: "chosen dev d"
  shows "swept 0 dev d"
proof -
  have b: "below d = below dev" and m: "yaffs_dev.more d = yaffs_dev.more dev" and k: "0 \<le> gc_chunk d"
    using c by (simp_all add: chosen_def)
  show ?thesis by (rule swept_below [OF inv b more_objs [OF m] more_bucket [OF m] more_fuel [OF m]]) (simp add: k)
qed

text \<open>A turn: the block that was chosen is collected, if there is one. What is left to collect is a full block.\<close>

lemma gc_collect_swept:
  fixes dev :: "('n, 'x) yaffs_vol_scheme"
  assumes inv: "vol_inv dev" and t: "gc_target dev (gc_block dev)" and c: "0 \<le> gc_chunk dev"
    and room: "seq_room (nat (cpb dev) * wr_fuel dev) dev" and g: "gc_collect dev aggressive ok = (r, d)"
  shows "swept (nat (cpb dev) * wr_fuel dev) dev d \<and> gc_target d (gc_block d)"
proof (cases "gc_block dev > 0")
  case False
  then show ?thesis using g t swept_refl [OF inv] by (simp add: gc_collect_def)
next
  case True
  let ?n = "nat (cpb dev) * wr_fuel dev"
  define dev' where "dev' = (let dev = upd_stats dev (\<lambda>s. s\<lparr>all_gcs := all_gcs s + 1\<rparr>)
    in if \<not> aggressive then upd_stats dev (\<lambda>s. s\<lparr>passive_gc_count := passive_gc_count s + 1\<rparr>) else dev)"
  have b: "below dev' = below dev" by (simp add: dev'_def Let_def)
  have o: "objs dev' = objs dev" "obj_bucket dev' = obj_bucket dev" "wr_fuel dev' = wr_fuel dev" "gc_chunk dev' = gc_chunk dev"
    "gc_block dev' = gc_block dev" by (simp_all add: dev'_def Let_def upd_stats_def)
  have s0: "swept 0 dev dev'" by (rule swept_below [OF inv b o(1-3)]) (simp add: o c)
  note cf = dev_configD [OF below_same(4) [OF b]]
  have t': "gc_block dev \<in> blocks_of dev'" "block_state (yaffs_get_block_info dev' (gc_block dev)) = YAFFS_BLOCK_STATE_FULL"
    using t True below_same(9) [OF b] cf by (simp_all add: gc_target_def blocks_of_def yaffs_get_block_info_def)
  have i': "vol_inv dev'" using s0 by (simp add: swept_def)
  have room': "seq_room (nat (cpb dev') * wr_fuel dev') dev'" using room below_same(7) [OF b] cf(1) o(3) by simp
  have g': "yaffs_gc_block dev' (gc_block dev) aggressive = (r, d)"
    using g True o(5) by (simp add: gc_collect_def dev'_def Let_def)
  note gs = gc_block_swept [OF i' t' _ room' g']
  have n: "nat (cpb dev') * wr_fuel dev' = ?n" using cf(1) o(3) by simp
  have s1: "swept ?n dev' d" using gs(1) c o(4) unfolding n by simp
  have bl: "blocks_of d = blocks_of dev'" using s1 blocks_of_config [of d dev'] by (simp add: swept_def)
  have "gc_block d = 0 \<or> gc_block d = gc_block dev \<and> block_state (yaffs_get_block_info d (gc_block dev)) = YAFFS_BLOCK_STATE_FULL"
    using gs(2) c unfolding o(4,5) by blast
  then have "gc_target d (gc_block d)"
  proof (elim disjE conjE)
    assume e: "gc_block d = gc_block dev" and f: "block_state (yaffs_get_block_info d (gc_block dev)) = YAFFS_BLOCK_STATE_FULL"
    show ?thesis unfolding gc_target_def e bl using f t'(1) by blast
  qed simp
  then show ?thesis using swept_trans [OF s0 s1] by simp
qed

lemma check_gc_loop_swept:
  fixes dev :: "('n, 'x) yaffs_vol_scheme"
  shows "\<lbrakk>check_gc_loop tries background aggressive ok dev = (ag, r, d); vol_inv dev; gc_target dev (gc_block dev);
    0 \<le> gc_chunk dev; gc_block dev < 1 \<longrightarrow> gc_targets dev; seq_room (tries * (nat (cpb dev) * wr_fuel dev)) dev\<rbrakk> \<Longrightarrow>
    swept (tries * (nat (cpb dev) * wr_fuel dev)) dev d"
proof (induction tries arbitrary: aggressive ok dev)
  case 0
  then show ?case using swept_refl by simp
next
  case (Suc tries)
  let ?n = "nat (cpb dev) * wr_fuel dev"
  note inv = Suc.prems(2) and ready = vol_inv_ready [OF Suc.prems(2)]
  obtain w ag1 d0 where want: "gc_wanted dev background aggressive = (w, ag1, d0)" by (metis prod_cases3)
  have a0: "alike dev d0" by (rule wanted_alike(1) [OF want]) (simp add: alike_def)
  have ch: "chosen dev d0" by (rule chosen_alike [OF a0 Suc.prems(3,4)])
  show ?case
  proof (cases w)
    case False
    then show ?thesis using Suc.prems(1) want chosen_swept [OF inv ch] swept_mono by auto
  next
    case True
    let ?d1 = "gc_select d0 ag1 background"
    have ch1: "chosen dev ?d1"
    proof (cases "gc_block dev < 1")
      case low: True
      then have "searched dev dev" using Suc.prems(5) by (simp add: searched_def alike_def gc_targets_def)
      then show ?thesis by (intro gc_select_chosen [OF wanted_alike(2) [OF want] ready Suc.prems(3,4)])
    next
      case False
      then show ?thesis using a0 by (intro gc_select_same_block [OF _ a0 Suc.prems(3,4)]) (simp add: alike_def)
    qed
    have s1: "swept 0 dev ?d1" by (rule chosen_swept [OF inv ch1])
    have i1: "vol_inv ?d1" "cpb ?d1 = cpb dev" "wr_fuel ?d1 = wr_fuel dev" using s1 dev_configD(1) [of ?d1 dev] by (simp_all add: swept_def)
    have c1: "gc_target ?d1 (gc_block ?d1)" "0 \<le> gc_chunk ?d1" using ch1 by (simp_all add: chosen_def)
    have room: "seq_room (?n + tries * ?n) dev" using Suc.prems(6) by simp
    have room1: "seq_room (nat (cpb ?d1) * wr_fuel ?d1) ?d1"
      using swept_room [of 0 ?n dev ?d1] seq_room_less [OF room, of ?n] s1 i1 by simp
    obtain r2 d2 where col: "gc_collect ?d1 ag1 ok = (r2, d2)" by fastforce
    note gc = gc_collect_swept [OF i1(1) c1 room1 col]
    have s2: "swept ?n dev d2" using swept_trans [OF s1, of ?n d2] gc i1 by simp
    have i2: "vol_inv d2" "cpb d2 = cpb dev" "wr_fuel d2 = wr_fuel dev" "0 \<le> gc_chunk d2"
      using s2 Suc.prems(4) dev_configD(1) [of d2 dev] by (simp_all add: swept_def)
    show ?thesis
    proof (cases "n_erased_blocks d2 < n_reserved_blocks (param d2) \<and> gc_block d2 > 0")
      case False
      then have "d = d2" using Suc.prems(1) want True col by (simp add: Let_def split: if_splits)
      then show ?thesis using swept_mono [OF s2] by simp
    next
      case again: True
      have loop: "check_gc_loop tries background ag1 r2 d2 = (ag, r, d)" using Suc.prems(1) want True col again by (simp add: Let_def)
      have "swept (tries * (nat (cpb d2) * wr_fuel d2)) d2 d"
        by (rule Suc.IH [OF loop i2(1) conjunct2 [OF gc] i2(4)]) (use again i2 swept_room [OF room s2] in simp_all)
      then show ?thesis using swept_trans [OF s2, of "tries * ?n" d] i2 by simp
    qed
  qed
qed

text \<open>Whatever \<^const>\<open>yaffs_check_gc\<close> decides to collect, in the foreground or in the background.\<close>

lemma check_gc_swept:
  fixes dev :: "('n, 'x) yaffs_vol_scheme"
  assumes inv: "vol_inv dev" and t: "gc_targets dev" and room: "seq_room (2 * (nat (cpb dev) * wr_fuel dev)) dev"
    and g: "yaffs_check_gc background dev = (r, d)"
  shows "swept (2 * (nat (cpb dev) * wr_fuel dev)) dev d"
proof (cases "(case gc_control_fn dev of None \<Rightarrow> False | Some f \<Rightarrow> f (nand dev) AND 1 = 0) \<or> gc_disable dev")
  case True
  then have "d = dev" using g unfolding yaffs_check_gc_def by (auto split: if_splits)
  then show ?thesis using swept_refl [OF inv] by simp
next
  case False
  then obtain ag ok where "check_gc_loop 2 background False YAFFS_OK dev = (ag, ok, d)"
    using g unfolding yaffs_check_gc_def by (auto split: prod.splits)
  then show ?thesis using check_gc_loop_swept [OF _ inv] t room by (simp add: gc_targets_def)
qed

section \<open>Reading and writing a chunk of a file\<close>

text \<open>What a chunk of a file reads: zeros where there is a hole.\<close>

definition chunk_data :: "('n, 'x) yaffs_vol_scheme \<Rightarrow> slab_addr \<Rightarrow> u32 \<Rightarrow> u8 list" where
  "chunk_data dev a k = (case contents dev (a, k) of None \<Rightarrow> replicate (data_bytes_per_chunk dev) 0 | Some bs \<Rightarrow> bs)"

lemma rd_data_kept:
  fixes dev :: "('n, 'x) yaffs_vol_scheme"
  assumes inv: "vol_inv dev" and a: "live_file dev a" and rd: "yaffs_rd_data_obj dev a i buffer = (r, data, d)"
  shows "kept 0 dev d" "take (data_bytes_per_chunk dev) data = chunk_data dev a (word_of_int i)"
    "mapped dev a (word_of_int i) \<noteq> 0 \<Longrightarrow> total_bytes_per_chunk (param dev) \<le> length data"
    "mapped dev a (word_of_int i) = 0 \<Longrightarrow> d = dev \<and>
       data = replicate (data_bytes_per_chunk dev) 0 @ drop (data_bytes_per_chunk dev) buffer"
proof -
  let ?x = "mapped dev a (word_of_int i)"
  note fc = find_chunk [OF inv a, of i zero_tags]
  show "?x = 0 \<Longrightarrow> d = dev \<and> data = replicate (data_bytes_per_chunk dev) 0 @ drop (data_bytes_per_chunk dev) buffer"
    using rd fc by (auto simp: yaffs_rd_data_obj_def)
  have "kept 0 dev d \<and> take (data_bytes_per_chunk dev) data = chunk_data dev a (word_of_int i) \<and>
    (?x \<noteq> 0 \<longrightarrow> total_bytes_per_chunk (param dev) \<le> length data)"
  proof (cases "?x = 0")
    case True
    then have "d = dev" "data = replicate (data_bytes_per_chunk dev) 0 @ drop (data_bytes_per_chunk dev) buffer"
      using rd fc by (auto simp: yaffs_rd_data_obj_def)
    then show ?thesis using True kept_refl [OF inv] by (simp add: chunk_data_def contents_def)
  next
    case False
    note n = mapped_named [OF inv a False]
    have "0 < ?x" by (rule in_use_valid(2) [OF vol_inv_ready [OF inv] n(1)])
    then obtain t where r: "yaffs_rd_chunk_tags_nand dev ?x True = (r, data, t, d)"
      using rd fc by (auto simp: yaffs_rd_data_obj_def split: prod.splits if_splits)
    note rs = rd_step [OF vol_inv_ready [OF inv] r]
    have "in_use d y = in_use dev y" for y
      using rs(1,2) dev_configD(1) [of d dev] by (simp add: in_use_used evolves_def del: in_used)
    then have "kept 0 dev d" using evolves_kept [OF inv rs(1)] by (simp add: kept_def)
    then show ?thesis using rs(3) False a by (simp add: chunk_data_def contents_def)
  qed
  then show "kept 0 dev d" "take (data_bytes_per_chunk dev) data = chunk_data dev a (word_of_int i)"
    "?x \<noteq> 0 \<Longrightarrow> total_bytes_per_chunk (param dev) \<le> length data" by simp_all
qed

lemma grow_kept:
  fixes dev :: "('n, 'x) yaffs_vol_scheme"
  assumes inv: "vol_inv dev"
  shows "kept 0 dev (grow_stored_size dev a i n) \<and> mapped (grow_stored_size dev a i n) = mapped dev \<and>
    (\<forall>k. yaffs_find_tnode_0 (file_variant (obj_at (grow_stored_size dev a i n) a)) k = yaffs_find_tnode_0 (file_variant (obj_at dev a)) k)"
proof (cases "i > 0")
  case True
  define e where "e = (word_of_int (i - 1) * word_of_nat (data_bytes_per_chunk dev) + word_of_int n :: loff_t)"
  let ?f = "\<lambda>ob. if stored_size (file_variant ob) < e then ob\<lparr>file_variant := (file_variant ob)\<lparr>stored_size := e\<rparr>\<rparr> else ob"
  have d: "grow_stored_size dev a i n = upd_core dev a ?f" unfolding e_def using True by (simp add: grow_stored_size_def Let_def cong: if_cong)
  have f: "let ob = obj_at dev a in obj_number (?f ob) = obj_number ob \<and> defered_free (?f ob) = defered_free ob \<and>
      variant_type (?f ob) = variant_type ob \<and> soft_del (?f ob) = soft_del ob \<and>
      top_level (file_variant (?f ob)) = top_level (file_variant ob) \<and> top (file_variant (?f ob)) = top (file_variant ob)"
    by (simp add: Let_def)
  note ck = below_core_kept [OF inv refl f]
  have "wr_fuel (upd_core dev a ?f) = wr_fuel dev \<and> gc_chunk (upd_core dev a ?f) = gc_chunk dev \<and>
      gc_block (upd_core dev a ?f) = gc_block dev"
    by (simp add: upd_core_def upd_node_def)
  then have "calm 0 dev (upd_core dev a ?f)" by (rule calm_below [OF ck(4,3) _ vol_inv_ready [OF inv]])
  moreover have "yaffs_find_tnode_0 (file_variant (obj_at (upd_core dev a ?f) a)) k = yaffs_find_tnode_0 (file_variant (obj_at dev a)) k" for k
    by (simp add: upd_core_def upd_node_def yaffs_find_tnode_0_def)
  ultimately show ?thesis unfolding d using ck(1,2,5) by (simp add: kept_def)
qed (simp add: grow_stored_size_def kept_refl [OF inv])

lemma put_node_kept:
  fixes dev :: "('n, 'x) yaffs_vol_scheme"
  assumes inv: "vol_inv dev" and a: "live_file dev a" and p: "put_chunk_at dev a i 0 = (r, d)"
  shows "kept 0 dev d" "mapped d = mapped dev" "r = YAFFS_OK \<or> r = YAFFS_FAIL"
    "r = YAFFS_OK \<Longrightarrow> yaffs_find_tnode_0 (file_variant (obj_at d a)) (word_of_int i) \<noteq> None"
proof -
  note ready = vol_inv_ready [OF inv]
  have ty: "variant_type (obj_at dev a) = YAFFS_OBJECT_TYPE_FILE" using a by (simp add: live_file_def)
  have fits: "entry_fits dev (word_of_int 0)" by (simp add: entry_fits_def)
  note ps = put_step [OF ready ty vol_inv_file [OF inv a] fits _ _ p]
  have b: "below d = below dev" using ps(1) by simp
  have m: "mapped d b j = mapped dev b j" for b j
    using ps(6) [of j] mapped_same [OF below_same(5) [OF b] ps(4), of b j] by (cases "b = a") simp_all
  then show "mapped d = mapped dev" by (simp add: fun_eq_iff)
  have f: "file_ok d (file_variant (obj_at d b))" if "live_file dev b" for b
    using ps(5) ps(4) [of b] vol_inv_file [OF inv that] file_ok_sizes [OF below_same(5) [OF b]] by (cases "b = a") simp_all
  show "kept 0 dev d"
    using below_kept [OF inv b ps(2)] f m calm_below [OF b ps(2) ps(3) ready] by (simp add: kept_def)
  show "r = YAFFS_OK \<or> r = YAFFS_FAIL" "r = YAFFS_OK \<Longrightarrow> yaffs_find_tnode_0 (file_variant (obj_at d a)) (word_of_int i) \<noteq> None"
    using ps(8,9) by auto
qed

lemma kept_live: "kept k dev d \<Longrightarrow> live_file d a = live_file dev a \<and> id_of d a = id_of dev a"
  using same_live [of dev d a] by (simp add: kept_def calm_def) (simp add: same_objects_def del: split_paired_All)

lemma data_tags_plain:
  "word_of_int i < (0x80000000 :: u32) \<Longrightarrow> plain_tags (data_tags dev a i n p t)"
  by (simp add: data_tags_def plain_tags_def tags_sound_def zero_tags_def)

text \<open>Writing a chunk, after whatever collection came first.\<close>

lemma wr_data_kept:
  fixes dev :: "('n, 'x) yaffs_vol_scheme"
  defines "g \<equiv> gc_first dev"
  assumes inv: "vol_inv g" and a: "live_file g a" and i: "word_of_int i \<noteq> (0 :: u32)" "word_of_int i < (0x80000000 :: u32)"
    and room: "seq_room (wr_fuel g) g" and len: "total_bytes_per_chunk (param g) \<le> length buffer"
    and wr: "yaffs_wr_data_obj dev a i buffer n ur = (r, d)"
  shows "vol_inv d \<and> calm (wr_fuel g) g d \<and> contents d = (if r > 0
    then (contents g)((a, word_of_int i) \<mapsto> take (data_bytes_per_chunk g) buffer) else contents g)"
proof -
  let ?k = "word_of_int i :: u32"
  let ?old = "mapped g a ?k"
  note fc = find_chunk [OF inv a, of i "stack_tags g"]
  have pos: "0 < ?old" if "?old \<noteq> 0"
    using in_use_valid(2) [OF vol_inv_ready [OF inv] mapped_named(1) [OF inv a that]] .
  define prev where "prev = (if ?old = 0 then -1 else ?old)"
  have prev: "prev < 1 \<longleftrightarrow> ?old = 0" "prev > 0 \<longleftrightarrow> ?old \<noteq> 0" "?old \<noteq> 0 \<Longrightarrow> prev = ?old" using pos by (auto simp: prev_def)
  have fc': "yaffs_find_chunk_in_file g (obj_at g a) i (stack_tags g) = (prev, stack_tags g, g)" using fc by (simp add: prev_def)
  obtain ok g1 where put: "(if prev < 1 then put_chunk_at g a i 0 else (YAFFS_OK, g)) = (ok, g1)" by fastforce
  have one: "kept 0 g g1 \<and> mapped g1 = mapped g \<and> (ok = YAFFS_OK \<or> ok = YAFFS_FAIL) \<and>
    (ok = YAFFS_OK \<longrightarrow> yaffs_find_tnode_0 (file_variant (obj_at g1 a)) ?k \<noteq> None)"
  proof (cases "prev < 1")
    case True
    then show ?thesis using put put_node_kept [OF inv a, of i ok g1] by simp
  next
    case False
    then show ?thesis using put prev mapped_node [of g a ?k] kept_refl [OF inv] by auto
  qed
  show ?thesis
  proof (cases "ok = YAFFS_FAIL")
    case True
    then have "r = 0" "d = g1" using wr fc' put by (auto simp: yaffs_wr_data_obj_def Let_def g_def [symmetric])
    then show ?thesis using one calm_mono by (auto simp: kept_def)
  next
    case False
    let ?t = "data_tags g1 a i n prev (stack_tags g)" and ?g2 = "grow_stored_size g1 a i n"
    have k1: "kept 0 g g1" and okk: "ok = YAFFS_OK" using one False by simp_all
    have i1: "vol_inv g1" by (rule kept_inv [OF k1])
    note gk = grow_kept [OF i1, of a i n]
    have k2: "kept 0 g ?g2" using kept_trans [OF k1] gk by fastforce
    note i2 = kept_inv [OF k2] and s2 = kept_state [OF k2] and c2 = dev_configD [OF kept_config [OF k2]]
    have a2: "live_file ?g2 a" using kept_live [OF k2] a by simp
    have m2: "mapped ?g2 = mapped g" using gk one by simp
    have room2: "seq_room (wr_fuel ?g2) ?g2" using kept_room [of 0 "wr_fuel g" g ?g2] k2 room s2 by simp
    have len2: "total_bytes_per_chunk (param ?g2) \<le> length buffer" using len c2(1) by simp
    have plain: "plain_tags ?t" by (rule data_tags_plain [OF i(2)])
    have names: "obj_id ?t = id_of ?g2 a" "chunk_id ?t = ?k"
      using kept_live [OF k1] kept_live [OF k2] by (simp_all add: data_tags_def)
    have path: "yaffs_find_tnode_0 (file_variant (obj_at ?g2 a)) ?k \<noteq> None" using gk one okk by simp
    obtain x d1 where w: "write_new ?g2 buffer ?t ur = (x, d1)" by fastforce
    have dd: "(r, d) = (if x > 0 then let (_, d) = put_chunk_at d1 a i x
          in (x, if prev > 0 then yaffs_chunk_del d prev True else d) else (x, d1))"
      using wr fc' put False w by (simp add: yaffs_wr_data_obj_def Let_def g_def [symmetric])
    have final: "vol_inv d \<and> calm (wr_fuel g) g d \<and> contents d = (if r > 0
      then (contents g)((a, ?k) \<mapsto> take (data_bytes_per_chunk g) buffer) else contents g)"
      if "vol_inv d \<and> calm (wr_fuel ?g2) ?g2 d \<and> contents d = (if r > 0
        then (contents ?g2)((a, ?k) \<mapsto> take (data_bytes_per_chunk ?g2) buffer) else contents ?g2)"
      using that k2 calm_trans [of 0 g ?g2 "wr_fuel g" d] s2 c2(8) by (simp add: kept_def)
    show ?thesis
    proof (cases "x < 0")
      case True
      then have "r = x" "d = d1" using dd by simp_all
      then show ?thesis using True write_fails [OF i2 room2 plain len2 w] by (intro final) (simp add: kept_def)
    next
      case no: False
      obtain r2 d2 where put2: "put_chunk_at d1 a i x = (r2, d2)" by fastforce
      define d' where "d' = (if mapped ?g2 a ?k = 0 then d2 else yaffs_chunk_del d2 (mapped ?g2 a ?k) True)"
      note we = write_enter [OF i2 a2 refl i(1) path room2 plain len2 names w no put2 d'_def]
      then have "r = x" "d = d'" using dd put2 prev m2 by (simp_all add: d'_def split: if_splits)
      then show ?thesis using we by (intro final) simp
    qed
  qed
qed

text \<open>C2: Writing a chunk of a file changes the contents of the volume in that chunk, to the data written, or,
  when the answer is 0 or negative, not at all - no memory for a tree node, no room, no write that succeeded.
  The volume stays consistent either way. The collection the code may begin with is part of this, whatever
  it picks: it moves chunks of other files and erases blocks, and none of it shows. The blocks remembered
  for collection have to be full blocks (\<open>gc_targets\<close>), and there has to be room for the sequence numbers of
  the two turns a collection takes at most, and of the write itself.\<close>

theorem wr_data_obj_updates_contents:
  fixes dev :: "('n, 'x) yaffs_vol_scheme"
  assumes "vol_inv dev" "gc_targets dev" "live_file dev a" "1 \<le> inode_chunk" "inode_chunk < 2 ^ 31"
    and "seq_room ((2 * nat (cpb dev) + 1) * wr_fuel dev) dev"
    and "total_bytes_per_chunk (param dev) \<le> length buffer"
    and "yaffs_wr_data_obj dev a inode_chunk buffer nbytes use_reserve = (r, d)"
  shows "vol_inv d \<and> contents d = (if r > 0
    then (contents dev)((a, word_of_int inode_chunk) \<mapsto> take (data_bytes_per_chunk dev) buffer) else contents dev)"
proof -
  let ?n = "2 * (nat (cpb dev) * wr_fuel dev)" and ?g = "gc_first dev"
  obtain r0 where g: "yaffs_check_gc False dev = (r0, ?g)" by (metis prod.collapse)
  have room: "seq_room (?n + wr_fuel dev) dev" using assms(6) by (simp add: algebra_simps)
  have s: "swept ?n dev ?g" by (rule check_gc_swept [OF assms(1,2) seq_room_less [OF room] g]) simp
  then have gv: "vol_inv ?g" "contents ?g = contents dev" "wr_fuel ?g = wr_fuel dev" "live_file ?g a"
    "param ?g = param dev" "data_bytes_per_chunk ?g = data_bytes_per_chunk dev"
    using dev_configD(1,8) [of ?g dev] same_live [of dev ?g a] assms(3) by (simp_all add: swept_def)
  have room': "seq_room (wr_fuel ?g) ?g" using swept_room [OF room s] gv(3) by simp
  have u: "uint (word_of_int inode_chunk :: u32) = inode_chunk" using assms(4,5) by (simp add: uint_word_of_int)
  have i: "word_of_int inode_chunk \<noteq> (0 :: u32)"
  proof
    assume "word_of_int inode_chunk = (0 :: u32)"
    then show False using u assms(4) by simp
  qed
  have l: "word_of_int inode_chunk < (0x80000000 :: u32)" using u assms(5) by (simp add: word_less_def)
  have len: "total_bytes_per_chunk (param ?g) \<le> length buffer" using assms(7) gv(5) by simp
  from wr_data_kept [OF gv(1,4) i l room' len assms(8)] show ?thesis unfolding gv(2,6) by blast
qed

text \<open>C5: Reading a chunk of a file gives what the contents say of it, zeros where there is a hole, and changes
  neither the contents nor the consistency of the volume.\<close>

theorem rd_data_obj_reads_contents:
  fixes dev :: "('n, 'x) yaffs_vol_scheme"
  assumes "vol_inv dev" "live_file dev a" "yaffs_rd_data_obj dev a inode_chunk buffer = (r, data, d)"
  shows "take (data_bytes_per_chunk dev) data =
      (case contents dev (a, word_of_int inode_chunk) of None \<Rightarrow> replicate (data_bytes_per_chunk dev) 0 | Some bs \<Rightarrow> bs) \<and>
    vol_inv d \<and> contents d = contents dev"
  using rd_data_kept [OF assms] by (simp add: kept_def chunk_data_def)

section \<open>A volume with one file\<close>

text \<open>A flash in memory that gives whole chunks and tags that can be stored again, and on it a volume with
  a full block of one chunk: chunk 1 of the file with the number 300.\<close>

type_synonym ram = "int \<Rightarrow> u8 list \<times> yaffs_ext_tags"

definition whole_tagger :: "ram yaffs_tags_handler" where
  "whole_tagger = \<lparr>write_chunk_tags_fn = (\<lambda>n c d t. (YAFFS_OK, n(c := (case d of None \<Rightarrow> fst (n c) | Some bs \<Rightarrow> bs, t)))),
     read_chunk_tags_fn = (\<lambda>n c w. (YAFFS_OK, take 600 (fst (n c) @ replicate 600 0xff),
       if plain_tags (snd (n c)) then snd (n c) else zero_tags, n)),
     query_block_fn = (\<lambda>n b. (YAFFS_OK, YAFFS_BLOCK_STATE_EMPTY, 0, n)),
     mark_bad_fn = (\<lambda>n b. (YAFFS_FAIL, n))\<rparr>"

definition one_flash :: ram where
  "one_flash = (\<lambda>x. (replicate 64 0xff, zero_tags))(4 := (replicate 64 7,
     zero_tags\<lparr>obj_id := 300, chunk_id := 1, n_bytes := 64, seq_number := 0x1001\<rparr>))"

definition one_dev :: "ram yaffs_dev" where
  "one_dev = (empty_dev whole_tagger ram_driver one_flash)\<lparr>sum_tags := None, chunks_per_summary := 0,
     block_info := (zero_block_info\<lparr>block_state := YAFFS_BLOCK_STATE_FULL, pages_in_use := 1, bi_seq_number := 0x1001\<rparr>)
       # replicate 3 (zero_block_info\<lparr>block_state := YAFFS_BLOCK_STATE_EMPTY\<rparr>),
     chunk_bits := [1, 0, 0, 0], n_erased_blocks := 3, n_free_chunks := 15, dev_seq_number := 0x1001,
     tnode_width := 16, tnode_mask := mask 16, tnode_size := 32, chunk_grp_bits := 0, chunk_grp_size := 1\<rparr>"

definition zero_file :: yaffs_file_var where
  "zero_file = \<lparr>file_size = 64, stored_size = 64, shrink_size = 0, top_level = 0,
     top = Some (Level0 (0, 1) (replicate 8 0))\<rparr>"

definition one_file :: yaffs_file_var where
  "one_file = load_entry one_dev zero_file (Level0 (0, 1) (replicate 8 0)) 1 4"

definition one_vol :: "ram yaffs_vol" where
  "one_vol = yaffs_fs.extend (yaffs_mem_dev.extend (yaffs_dev.extend one_dev (yaffs_mem_dev.fields None (\<lambda>_. True) 0 [] zero_tags))
     (yaffs_fs.fields ((\<lambda>_. zero_node)((0, 0) := zero_node\<lparr>core := (core zero_node)\<lparr>obj_number := 300,
          variant_type := YAFFS_OBJECT_TYPE_FILE, file_variant := one_file\<rparr>\<rparr>))
        ((replicate 256 \<lparr>bucket_objs = [], bucket_count = 0\<rparr>)[44 := \<lparr>bucket_objs = [(0, 0)], bucket_count = 1\<rparr>])
        0 None None None None False 0))
     (yaffs_vol.fields None False False [] [] [] 0 0 5 6 [] zero_tags (\<lambda>_. 0))"

lemma one_fields:
  "param one_vol = small_param" "tagger one_vol = whole_tagger" "drv one_vol = ram_driver" "nand one_vol = one_flash"
  "data_bytes_per_chunk one_vol = 64" "internal_start_block one_vol = 1" "internal_end_block one_vol = 4"
  "block_offset one_vol = 0" "chunk_offset one_vol = 0" "chunk_bit_stride one_vol = 1" "chunks_per_summary one_vol = 0"
  "sum_tags one_vol = None" "block_info one_vol = block_info one_dev" "chunk_bits one_vol = [1, 0, 0, 0]"
  "n_erased_blocks one_vol = 3" "n_free_chunks one_vol = 15" "alloc_block one_vol = -1" "dev_seq_number one_vol = 0x1001"
  "tnode_width one_vol = 16" "tnode_mask one_vol = mask 16" "tnode_size one_vol = 32" "chunk_grp_bits one_vol = 0"
  "chunk_grp_size one_vol = 1" "n_clean_ups one_vol = 0" "gc_chunk one_vol = 0"
  by (simp_all add: one_vol_def yaffs_dev.defs yaffs_mem_dev.defs yaffs_fs.defs one_dev_def empty_fields)

lemma one_above:
  "objs one_vol = (\<lambda>_. zero_node)((0, 0) := zero_node\<lparr>core := (core zero_node)\<lparr>obj_number := 300,
     variant_type := YAFFS_OBJECT_TYPE_FILE, file_variant := one_file\<rparr>\<rparr>)"
  "obj_bucket one_vol = (replicate 256 \<lparr>bucket_objs = [], bucket_count = 0\<rparr>)[44 := \<lparr>bucket_objs = [(0, 0)], bucket_count = 1\<rparr>]"
  "wr_fuel one_vol = 6" "gc_control_fn one_vol = None"
  by (simp_all add: one_vol_def yaffs_dev.defs yaffs_mem_dev.defs yaffs_fs.defs yaffs_vol.defs)

lemma one_block_info:
  "yaffs_get_block_info one_vol 1 = zero_block_info\<lparr>block_state := YAFFS_BLOCK_STATE_FULL, pages_in_use := 1, bi_seq_number := 0x1001\<rparr>"
  "b \<in> {2, 3, 4} \<Longrightarrow> yaffs_get_block_info one_vol b = zero_block_info\<lparr>block_state := YAFFS_BLOCK_STATE_EMPTY\<rparr>"
  by (auto simp: yaffs_get_block_info_def one_fields one_dev_def eval_nat_numeral)

lemma one_cpb: "cpb one_vol = 4"
  by (simp add: one_fields small_param_def)

lemma one_blocks: "blocks_of one_vol = {1, 2, 3, 4}"
  by (auto simp: blocks_of_def one_fields)

lemma one_chunks: "chunks_in_use one_vol b = (if b = 1 then {0} else {})"
proof -
  have "c \<in> chunks_in_use one_vol b \<longleftrightarrow> b = 1 \<and> c = 0" for c
  proof (cases "b \<in> {1, 2, 3, 4} \<and> c \<in> {0, 1, 2, 3}")
    case True
    then show ?thesis
      by (auto simp: chunks_in_use_def valid_chunk_def one_fields small_param_def yaffs_check_chunk_bit_def
          yaffs_block_bits_def eval_nat_numeral)
  next
    case False
    then show ?thesis by (auto simp: chunks_in_use_def valid_chunk_def one_fields small_param_def)
  qed
  then show ?thesis by auto
qed

lemma one_in_use: "in_use one_vol x \<longleftrightarrow> x = 4"
  by (auto simp: in_use_def one_chunks one_cpb)

lemma one_ready: "vol_ready one_vol"
proof -
  have geo: "geometry_ok one_vol" by (simp add: geometry_ok_def one_fields small_param_def one_dev_def)
  have bytes: "block_bytes one_vol b = [if b = 1 then 1 else 0]" if "b \<in> {1, 2, 3, 4}" for b
    using that by (auto simp: block_bytes_def yaffs_block_bits_def one_fields)
  have bm: "bitmap_ok one_vol"
  proof -
    have "\<not> bit (block_bytes one_vol b ! (c div 8)) (c mod 8)" if "b \<in> {1, 2, 3, 4}" "4 \<le> c" "c < 8" for b c
      using that by (auto simp: bytes bit_1_iff)
    then show ?thesis using geo one_blocks by (simp add: bitmap_ok_def valid_blocks_of one_cpb one_fields small_param_def)
  qed
  have bo: "block_ok one_vol b" if "b \<in> {1, 2, 3, 4}" for b
    using that one_block_info(1) one_block_info(2) [of b]
    by (cases "b = 1") (simp_all add: block_ok_def one_chunks view3_def zero_block_info_def)
  have er: "{b \<in> {1, 2, 3, 4}. block_state (yaffs_get_block_info one_vol b) = YAFFS_BLOCK_STATE_EMPTY} = {2, 3, 4}"
    using one_block_info(1) one_block_info(2) [of 2] one_block_info(2) [of 3] one_block_info(2) [of 4]
    by (auto simp: zero_block_info_def)
  have fr: "block_free_chunks one_vol (yaffs_get_block_info one_vol b) = (if b = 1 then 3 else 4)" if "b \<in> {1, 2, 3, 4}" for b
    using that one_block_info(1) one_block_info(2) [of b]
    by (cases "b = 1") (simp_all add: block_free_chunks_def one_cpb zero_block_info_def)
  have "alloc_inv one_vol"
    using bm bo er fr by (simp add: alloc_inv_def inv_except_def one_blocks alloc_ok_def one_fields small_param_def)
  then have "alloc_ready one_vol"
    by (simp add: alloc_ready_def summary_fits_def result_codes_def one_fields small_param_def whole_tagger_def)
  moreover have rd: "flash_read one_vol n x = (YAFFS_OK, take 600 (fst (n x) @ replicate 600 0xff),
      if plain_tags (snd (n x)) then snd (n x) else zero_tags)" for n x
    by (simp add: flash_read_def one_fields whole_tagger_def)
  moreover have "flash_ok one_vol"
    by (simp add: flash_ok_def fun_eq_iff rd one_fields) (simp add: small_param_def whole_tagger_def ram_driver_def)
  ultimately have live: "live_ready one_vol" by (simp add: live_ready_def)
  have st: "stores_ok one_vol" by (auto simp: stores_ok_def rd one_fields small_param_def whole_tagger_def)
  have z: "plain_tags zero_tags" by (simp add: plain_tags_def tags_sound_def zero_tags_def)
  have re: "reads_ok one_vol" by (auto simp: reads_ok_def rd z one_fields small_param_def min_def)
  have nf: "numbers_fit one_vol"
  proof -
    have "entry_fits one_vol (word_of_int (b * cpb one_vol + c)) \<and> b * cpb one_vol + c < 2 ^ 31"
      if "valid_chunk one_vol b c" for b c
    proof -
      have v: "1 \<le> b" "b \<le> 4" "0 \<le> c" "c < 4" using that by (simp_all add: valid_chunk_def one_fields small_param_def)
      define n where "n = nat (b * 4 + c)"
      have n: "b * 4 + c = int n" "n < 20" using v by (simp_all add: n_def)
      have "take_bit 16 (word_of_nat n :: u32) = word_of_nat n"
        using n(2) by (simp add: word_unat_eq_iff unsigned_take_bit_eq unat_of_nat take_bit_nat_eq_self)
      moreover have e: "b * cpb one_vol + c = int n" using n(1) one_cpb by simp
      ultimately show ?thesis using n(2) unfolding e entry_fits_def one_fields by simp
    qed
    then show ?thesis by (simp add: numbers_fit_def tnode_geometry_def one_fields)
  qed
  show ?thesis
    using live st re nf
    by (simp add: vol_ready_def no_soft_def no_summary_def one_fields) (simp add: one_dev_def zero_block_info_def)
qed

lemma one_file_map: "file_ok one_vol one_file" "chunk_entry one_vol one_file k = (if k = 1 then 4 else 0)"
proof -
  have sz: "sizes one_dev = sizes one_vol" by (simp add: sizes_def one_fields) (simp add: one_dev_def)
  have geo: "tnode_geometry one_vol" using one_ready by (simp add: vol_ready_def numbers_fit_def)
  have z: "file_ok one_vol zero_file" by (simp add: file_ok_def zero_file_def tree_ok_0 one_fields YAFFS_TNODES_MAX_LEVEL_def)
  have e: "chunk_entry one_vol zero_file k = 0" for k
    using group_base_zero [OF geo, of 8 k] by (simp add: chunk_entry_eq [OF z]) (simp add: zero_file_def leaf_entry_def one_fields)
  have tn: "yaffs_find_tnode_0 zero_file 1 = Some (Level0 (0, 1) (replicate 8 0))"
    by (simp add: yaffs_find_tnode_0_def zero_file_def required_depth.simps YAFFS_TNODES_MAX_LEVEL_def YAFFS_MAX_CHUNK_ID_def)
  have f: "one_file = load_entry one_vol zero_file (Level0 (0, 1) (replicate 8 0)) 1 4"
    using load_sizes [OF sz] by (simp add: one_file_def load_entry_def)
  have "take_bit 16 (4 :: u32) = 4" by (simp add: word_unat_eq_iff unsigned_take_bit_eq)
  then have fits: "take_bit (tnode_width one_vol) (drop_bit (chunk_grp_bits one_vol) (4 :: u32)) = drop_bit (chunk_grp_bits one_vol) 4"
    by (simp add: one_fields)
  note ls = load_entry_spec [OF z geo tn fits, folded f]
  show "file_ok one_vol one_file" "chunk_entry one_vol one_file k = (if k = 1 then 4 else 0)"
    using ls e by (simp_all add: one_fields)
qed

lemma one_find: "yaffs_find_by_number one_vol n = (if n = 300 then Some (0, 0) else None)"
proof -
  have h: "yaffs_hash_fn 300 = 44" by (simp add: yaffs_hash_fn_def)
  have ob: "bucket_objs (obj_bucket one_vol ! j) = (if j = 44 then [(0, 0)] else [])" if "j < 256" for j
    using that by (simp add: one_above nth_list_update)
  have "hash_of n < 256" by (simp add: yaffs_hash_fn_def)
  from ob [OF this] show ?thesis using h by (auto simp: yaffs_find_by_number_def one_above zero_node_def zero_obj_def)
qed

lemma one_index:
  "live_file one_vol a \<longleftrightarrow> a = (0, 0)" "mapped one_vol (0, 0) k = (if k = 1 then 4 else 0)"
  "tags_at one_vol 4 = zero_tags\<lparr>obj_id := 300, chunk_id := 1, n_bytes := 64, seq_number := 0x1001\<rparr>"
  "data_at one_vol 4 = replicate 64 7"
proof -
  show "live_file one_vol a \<longleftrightarrow> a = (0, 0)"
    by (auto simp: live_file_def one_find one_above split: if_splits)
  show "mapped one_vol (0, 0) k = (if k = 1 then 4 else 0)"
    using one_file_map(2) [of k] by (simp add: mapped_def one_above)
  have p: "plain_tags (zero_tags\<lparr>obj_id := 300, chunk_id := 1, n_bytes := 64, seq_number := 0x1001\<rparr>)"
    by (simp add: plain_tags_def tags_sound_def zero_tags_def)
  show "tags_at one_vol 4 = zero_tags\<lparr>obj_id := 300, chunk_id := 1, n_bytes := 64, seq_number := 0x1001\<rparr>"
    "data_at one_vol 4 = replicate 64 7"
    using p by (simp_all add: tags_at_def data_at_def chunk_read_def flash_read_def one_fields one_cpb whole_tagger_def one_flash_def)
qed

lemma one_inv: "vol_inv one_vol"
proof -
  have "flash_index one_vol = {(((0, 0), 1), 4)}"
    by (auto simp: flash_index_def one_in_use one_index one_find zero_tags_def)
  moreover have "tree_index one_vol = {(((0, 0), 1), 4)}"
    by (auto simp: tree_index_def one_index split: if_splits)
  moreover have "file_ok one_vol (file_variant (obj_at one_vol (0, 0)))" using one_file_map(1) by (simp add: one_above)
  ultimately show ?thesis
    using one_ready by (auto simp: vol_inv_def index_ok_def one_index one_find one_above zero_node_def zero_obj_def split: if_splits)
qed

lemma one_room: "k < 2 ^ 31 \<Longrightarrow> seq_room k one_vol"
  by (simp add: seq_room_def one_fields)

lemma one_targets: "gc_targets one_vol"
proof -
  have "gc_block one_vol = 0" "gc_dirtiest one_vol = 0" "oldest_dirty_block one_vol = 0"
    by (simp_all add: one_vol_def yaffs_dev.defs yaffs_mem_dev.defs yaffs_fs.defs one_dev_def empty_dev_def zero_dev_def)
  then show ?thesis by (simp add: gc_targets_def one_fields)
qed

lemma one_contents: "contents one_vol = [((0, 0), 1) \<mapsto> replicate 64 7]"
  by (auto simp: contents_def one_index fun_eq_iff)

lemma gc_block_keeps_contents_witness:
  "\<exists>r d. yaffs_gc_block one_vol 1 True = (r, d) \<and> vol_inv d \<and> contents d ((0, 0), 1) = Some (replicate 64 7)"
proof -
  obtain r d where g: "yaffs_gc_block one_vol 1 True = (r, d)" by fastforce
  have "vol_inv d \<and> contents d = contents one_vol"
    by (rule gc_block_keeps_contents [OF one_inv _ _ _ _ g])
      (simp_all add: one_blocks one_block_info one_fields one_room small_param_def one_above)
  then show ?thesis using g by (simp add: one_contents)
qed

lemma wr_data_obj_updates_contents_witness:
  "\<exists>r d. yaffs_wr_data_obj one_vol (0, 0) 2 (replicate 64 9) 64 True = (r, d) \<and> vol_inv d \<and>
     contents d ((0, 0), 1) = Some (replicate 64 7) \<and> contents d ((0, 0), 2) = (if r > 0 then Some (replicate 64 9) else None)"
proof -
  obtain r d where w: "yaffs_wr_data_obj one_vol (0, 0) 2 (replicate 64 9) 64 True = (r, d)" by fastforce
  have "vol_inv d \<and> contents d = (if r > 0
      then (contents one_vol)(((0, 0), word_of_int 2) \<mapsto> take (data_bytes_per_chunk one_vol) (replicate 64 9)) else contents one_vol)"
    by (rule wr_data_obj_updates_contents [OF one_inv one_targets _ _ _ _ _ w])
      (simp_all add: one_index one_room one_above one_fields small_param_def)
  then show ?thesis using w by (simp add: one_contents one_fields)
qed

lemma rd_data_obj_reads_contents_witness:
  "\<exists>r data d. yaffs_rd_data_obj one_vol (0, 0) 1 [] = (r, data, d) \<and> take 64 data = replicate 64 7"
proof -
  obtain r data d where rd: "yaffs_rd_data_obj one_vol (0, 0) 1 [] = (r, data, d)" by (metis prod_cases3)
  have "live_file one_vol (0, 0)" by (simp add: one_index)
  from rd_data_obj_reads_contents [OF one_inv this rd] show ?thesis
    using rd by (simp add: one_contents one_fields)
qed

end
