(* ===== verification/Spec2Isabelle.thy ===== *)
theory Spec2Isabelle
  imports Yaffs_Prelude Yaffs_Hweight Yaffs_Ecc Yaffs_Codec Yaffs_Dev Yaffs_PackedTags2
    Yaffs_Bitmap Yaffs_Block Yaffs_Nand Yaffs_Alloc Yaffs_AllocInv Yaffs_WriteInv Yaffs_AllocSteps
    Yaffs_Allocator Yaffs_Tnode Yaffs_File Yaffs_FileMap Yaffs_FileProps
    Yaffs_Checkpt Yaffs_CheckptData Yaffs_Nameval Yaffs_Live Yaffs_Obj Yaffs_Marshal
    Yaffs_Oh Yaffs_Header Yaffs_Gc Yaffs_Io Yaffs_Steady Yaffs_Used Yaffs_Vol Yaffs_Collect
    Yaffs_Contents
begin

text \<open>
  Verification library for the yaffs2 flash file system.

  \<^bold>\<open>The program.\<close> yaffs is a log-structured file system for raw flash. The flash is an array of
  blocks, the unit of erasing, of chunks, the unit of writing; with every chunk the file system
  stores tags that say which object and which chunk of it the data belong to. Nothing is
  overwritten: a new version of a chunk is written to the next free chunk of the block that is being
  filled, and the old one is dropped. What is kept in memory is a table of the objects with a
  look-up tree per file from file chunks to flash chunks, the state of every block with its counters,
  a bit per chunk that says whether it is in use, and a small cache of file chunks. Blocks whose
  chunks are mostly dropped are collected: what is in use is copied out and the block is erased.
  A summary of the tags at the end of each block and a checkpoint of the tables in memory make
  mounting fast.

  \<^bold>\<open>The layers, from the flash up.\<close>

  \<^item> Codes and bytes. \<open>Yaffs_Hweight\<close> (\<open>yaffs_hweight.c\<close>), \<open>Yaffs_Ecc\<close> (\<open>yaffs_ecc.c\<close>, the 256-byte
    code and the code over the tags), \<open>Yaffs_Codec\<close> (structures as bytes, \<open>yaffs_endian.h\<close>),
    \<open>Yaffs_PackedTags2\<close> (\<open>yaffs_packedtags2.c\<close>: packing, unpacking, the extra information of a header
    and the correction of the tags), \<open>Yaffs_Marshal\<close> (\<open>yaffs_tagsmarshall.c\<close>: tags in the spare area or
    in-band, over a page driver).
  \<^item> The device. \<open>Yaffs_Dev\<close> has the data of \<open>yaffs_guts.h\<close>; \<open>struct yaffs_dev\<close> is the record \<open>yaffs_dev\<close>,
    which is extended by \<open>yaffs_mem_dev\<close> (the slabs), \<open>yaffs_fs\<close> (the object table) and \<open>yaffs_vol\<close> (cache,
    clean-up list), so that an operation is typed by the least it needs. The driver is a record of
    functions on a state of its own, \<open>nand\<close>; the tags handler, \<open>tagger\<close>, too.
  \<^item> Blocks and chunks. \<open>Yaffs_Bitmap\<close> (\<open>yaffs_bitmap.c\<close>), \<open>Yaffs_Block\<close> (error strikes, the oldest dirty
    block, refreshing, the room a checkpoint needs), \<open>Yaffs_Nand\<close> (\<open>yaffs_nand.c\<close>, \<open>yaffs_summary.c\<close>),
    \<open>Yaffs_Alloc\<close> (allocation, the write loop with verification and retries, deletion, erasing, retiring).
  \<^item> Memory. \<open>Yaffs_Allocator\<close> (\<open>yaffs_allocator.c\<close>), over a heap that may refuse any call.
  \<^item> Files. \<open>Yaffs_Tnode\<close> (the look-up tree and its packed entries), \<open>Yaffs_File\<close> (device sizes, entering,
    finding, dropping and pruning the chunks of a file, soft deletion).
  \<^item> Objects. \<open>Yaffs_Obj\<close> (objects by address, hash buckets, numbers, directories, creation and freeing),
    \<open>Yaffs_Nameval\<close> (\<open>yaffs_nameval.c\<close>, extended attributes), \<open>Yaffs_Oh\<close> and \<open>Yaffs_Header\<close> (object headers:
    layout, byte order, names, \<open>yaffs_update_oh\<close>, renaming and final deletion).
  \<^item> Collection and files as bytes. \<open>Yaffs_Gc\<close> (choosing and collecting blocks, \<open>yaffs_check_gc\<close>), \<open>Yaffs_Io\<close>
    (chunks of a file, the cache, reading, writing, holes, resizing, flushing).
  \<^item> Checkpoints. \<open>Yaffs_Checkpt\<close> (\<open>yaffs_checkptrw.c\<close>, the stream), \<open>Yaffs_CheckptData\<close> (what goes into it,
    \<open>yaffs_yaffs2.c\<close>).

  An operation has the name it has in C and returns what it returns, the structures it changes
  through its pointers, and the device. A loop is a recursive function of its own. The order of the
  calls that change the state is the order of the code.

  \<^bold>\<open>What is proved.\<close>

  \<^item> Codes: a flipped bit is repaired and two flipped bits are noticed; tags survive packing, and a flipped
    bit in them; the bitmap is a set of chunks.
  \<^item> Allocation: \<open>alloc_inv\<close> (\<open>Yaffs_AllocInv\<close>) says that the counters and the bitmap agree with the block
    states; \<open>alloc_step\<close> (\<open>Yaffs_AllocSteps\<close>) is the step relation of the calls above the layer, and what is
    reachable keeps the invariant, the write loop ends, and a chunk that is handed out was not in use.
  \<^item> Contents: \<open>Yaffs_Live\<close> follows what the chunks in use read. Whatever is written, retried, summarised,
    erased or retired, a chunk in use reads the same until it is released, and a chunk that was
    written reads what was written. \<open>Yaffs_Marshal\<close> proves the contract of the tags handler this rests on from
    that of a page driver. \<open>Yaffs_Steady\<close> and \<open>Yaffs_Used\<close> say what the layer leaves alone and which chunks
    are in use afterwards.
  \<^item> The volume: \<open>Yaffs_Vol\<close> states the invariant of the whole, \<open>vol_inv\<close>: the look-up trees of the files and
    the tags of the chunks in use are the same relation between chunks of files and chunks of the flash.
    \<open>contents\<close> is what each chunk of each file reads. \<open>Yaffs_Collect\<close> shows that whatever the searches for a
    block to collect pick is a full block of the device, as long as the blocks remembered from earlier
    searches are (\<open>gc_targets\<close>). \<open>Yaffs_Contents\<close> proves that collecting a block changes nothing in the contents,
    nor does \<open>yaffs_check_gc\<close> with all its choices and turns, that writing a chunk of a file, with the collection
    it begins with, is an update of the contents or has no effect, and that reading gives what they
    say. This is for devices without block summaries (\<open>no_summary\<close>), with one chunk per tree entry, without
    soft deletion, which yaffs2 does not use, and while sequence numbers last (\<open>seq_room\<close>).
  \<^item> Files: \<open>Yaffs_FileMap\<close> reads the tree as a map, \<open>chunk_entry\<close>, and entering, growing, finding and dropping are
    updates and look-ups of it; entering fails exactly when the chunk number is too large or the nodes
    the path lacks, \<open>nodes_missing\<close> many, cannot be allocated. \<open>Yaffs_FileProps\<close> treats soft deletion and pruning.
  \<^item> Objects: the buckets, numbers and directories stay well formed, and numbers find their objects.
  \<^item> Attributes: the store of attributes is a map from names to values: setting one drops its
    old record and puts the new one behind the others, byte for byte, when it fits. A record that fills the buffer
    exactly is accepted and lost (\<open>nval_exact_fit_lost\<close>).
  \<^item> Headers: what \<open>yaffs_update_oh\<close> puts into a header is read back on a machine of either byte order.
  \<^item> Checkpoints: a session of writes keeps the invariant of the allocator. The bytes accepted are on the
    flash and in the buffer, in their order and under the right headers (\<open>stream_has\<close>), and a write stops
    short only when the search for a block fails; the records of the tree of a file are among them in the byte
    order of the checkpoint. An object record survives the conversion to the other byte order and back. What
    does not work is stated as it is: the device record comes back with its sequence number unswapped
    (\<open>checkpt_dev_portable\<close>), the reading of the stream runs over its buffer at the first byte (\<open>checkpt_rd_overruns\<close>),
    and a failed opening still writes (\<open>failed_open_still_writes\<close>).

  \<^bold>\<open>Conventions.\<close> An \<open>int\<close> that is far from overflowing is \<open>int\<close>; an address in a file (\<open>loff_t\<close>, four
  bytes on the target), an object number, a sequence number and the statistics are \<open>u32\<close> and wrap; bit-fields
  are cut to their width. \<open>YAFFS_OK\<close> is 1 and \<open>YAFFS_FAIL\<close> is 0. Traces are left out; \<open>BUG()\<close> only prints in
  the configuration of the repository, so execution goes on behind it. Memory the code does not
  initialise is a parameter: \<open>temp_fill\<close> for the temporary buffers, \<open>stack_fill\<close>, \<open>stack_tags\<close> and \<open>uninit_tags\<close>
  for local variables, \<open>junk\<close> arguments for structures. Linked lists are HOL lists; an object or a node is named by
  its address, a slab and an index.

  \<^bold>\<open>Fuel.\<close> The write of a chunk may write a summary, which writes chunks: \<open>wr_depth_enough\<close> shows that depth
  two suffices. The write loop ends after \<open>yaffs_wr_attempts\<close> + 1 turns when there is a limit
  (\<open>write_new_chunk_correct\<close>), and may go on for ever when there is none; \<open>write_new\<close> follows \<open>wr_fuel\<close> turns. The search
  for an object number is given \<open>obj_id_fuel\<close> = 2^24 turns and ends within them (\<open>new_obj_id_unused\<close>). The
  loops over shift counts run 32 times at most. A read or a write of \<open>n\<close> bytes takes at most \<open>n\<close> turns, since every
  turn moves a byte; a hole that is filled takes four; a check for collection tries twice; flushing the
  cache of every object takes as many turns as there are entries and one.

  \<^bold>\<open>Hypotheses.\<close> The driver is not in the repository in a form that could be read as a function (the one that is
  there programs the registers of a controller), so what it does is assumed where it matters:
  \<open>flash_ok\<close> (an access changes only the chunk or block it is for), \<open>stores_ok\<close> (what was acknowledged is
  read back), \<open>reads_ok\<close> (a read fills a chunk and gives tags in the range of their fields), \<open>result_codes\<close> (an answer is \<open>YAFFS_OK\<close> or \<open>YAFFS_FAIL\<close>), and for a page driver \<open>raw_flash_ok\<close> and
  \<open>raw_stores_ok\<close>. Each property with such a hypothesis has a witness with a concrete driver.

  \<^bold>\<open>Not modelled.\<close>
  \<^item> The POSIX interface (\<open>yaffsfs.c\<close>): handles, descriptors, paths and permissions above the object layer.
  \<^item> The binding to VxWorks (\<open>vxLib_yaffs2.c\<close>, \<open>Yaffscfg.c\<close>): calls of the kernel of the operating system.
  \<^item> The flash driver (\<open>Micron_nandflash4k.c\<close>): accesses to registers.
  \<^item> yaffs1 (\<open>yaffs_tagscompat.c\<close>, \<open>yaffs_packedtags1.c\<close>) and its scan: the configuration mounts yaffs2 devices; the
    branches on \<open>is_yaffs2\<close> in the code that is modelled are there.
  \<^item> Directory operations by name (\<open>yaffs_create_obj\<close>, \<open>yaffs_link_obj\<close>, \<open>yaffs_rename_obj\<close>, \<open>yaffs_unlinker\<close>); the
    operations on objects, headers and directories they call are modelled.
  \<^item> Scanning at mount (\<open>yaffs2_scan_backwards\<close>) and reading a checkpoint into the object table: partly, through the
    operations they call.
  \<^item> \<open>yaffs_verify.c\<close>: checks that print traces when a mask is set, apart from one count.
  \<^item> \<open>qsort.c\<close>: the sort of the C library, used by the scan only. \<open>dtest.c\<close>: a test program.
\<close>

end
